(* ===== verification/Prelude.thy ===== *)
theory Prelude
  imports Main
begin

text \<open>
  Shared vocabulary of the development: the type names of the model, the error-or-value results,
  SQL tables as lists of rows with the conditional statements the executors under
  \<^verbatim>\<open>src/src/storage/executors\<close> issue, and two interfaces that several components implement: an
  invariant kept by a step function (\<open>invariant_machine\<close>) and an operation that succeeds at most
  once per key (\<open>one_shot\<close>, the shape of every compare-and-set of the code base).
\<close>

subsection \<open>Names of types\<close>

type_synonym ident = string
type_synonym millis = int

text \<open>The largest integer a JavaScript number represents safely, \<^verbatim>\<open>Number.MAX_SAFE_INTEGER\<close>.\<close>

definition max_safe_integer :: int where
  "max_safe_integer = 9007199254740991"

text \<open>\<^verbatim>\<open>z.number().int().min(lo)\<close> of zod 4: a safe integer of at least \<open>lo\<close>.\<close>

definition zod_int_min :: "int \<Rightarrow> int \<Rightarrow> bool" where
  "zod_int_min lo n \<longleftrightarrow> lo \<le> n \<and> n \<le> max_safe_integer"

text \<open>\<^verbatim>\<open>.nullable()\<close>: the check applies to a value that is present.\<close>

definition opt_all :: "('a \<Rightarrow> bool) \<Rightarrow> 'a option \<Rightarrow> bool" where
  "opt_all P x = (case x of None \<Rightarrow> True | Some v \<Rightarrow> P v)"

lemma opt_all_simps [simp]: "opt_all P None" "opt_all P (Some v) = P v"
  by (simp_all add: opt_all_def)

lemma zod_int_min_0 [simp]: "zod_int_min 0 0"
  by (simp add: zod_int_min_def max_safe_integer_def)

lemma zod_int_min_max [intro]:
  "zod_int_min lo a \<Longrightarrow> zod_int_min lo b \<Longrightarrow> zod_int_min lo (max a b)"
  by (simp add: zod_int_min_def max_def)

text \<open>\<^verbatim>\<open>x ?? d\<close>: the value, or \<open>d\<close> for null and undefined.\<close>

definition or_default :: "'a option \<Rightarrow> 'a \<Rightarrow> 'a" where
  "or_default x d = (case x of None \<Rightarrow> d | Some v \<Rightarrow> v)"

lemma or_default_simps [simp]: "or_default None d = d" "or_default (Some v) d = v"
  by (simp_all add: or_default_def)

subsection \<open>Tables\<close>

text \<open>
  A table is the list of its rows. \<open>update_where p f t\<close> is \<^verbatim>\<open>UPDATE t SET f WHERE p\<close> with the
  number of changed rows (\<^verbatim>\<open>result.changes\<close>), \<open>delete_where p t\<close> is \<^verbatim>\<open>DELETE FROM t WHERE p\<close>,
  \<open>select_one p t\<close> is \<^verbatim>\<open>SELECT * FROM t WHERE p LIMIT 1\<close> and \<open>count_where p t\<close> is
  \<^verbatim>\<open>SELECT COUNT(*) FROM t WHERE p\<close>.
\<close>

definition update_where :: "('r \<Rightarrow> bool) \<Rightarrow> ('r \<Rightarrow> 'r) \<Rightarrow> 'r list \<Rightarrow> 'r list \<times> nat" where
  "update_where p f t = (map (\<lambda>r. if p r then f r else r) t, length (filter p t))"

definition delete_where :: "('r \<Rightarrow> bool) \<Rightarrow> 'r list \<Rightarrow> 'r list \<times> nat" where
  "delete_where p t = (filter (\<lambda>r. \<not> p r) t, length (filter p t))"

definition select_one :: "('r \<Rightarrow> bool) \<Rightarrow> 'r list \<Rightarrow> 'r option" where
  "select_one p t = List.find p t"

definition count_where :: "('r \<Rightarrow> bool) \<Rightarrow> 'r list \<Rightarrow> nat" where
  "count_where p t = length (filter p t)"

definition sum_where :: "('r \<Rightarrow> bool) \<Rightarrow> ('r \<Rightarrow> int) \<Rightarrow> 'r list \<Rightarrow> int" where
  "sum_where p f t = sum_list (map f (filter p t))"

named_theorems table_simps

lemma select_one_Nil [simp]: "select_one p [] = None"
  by (simp add: select_one_def)

lemma select_one_Cons [simp]:
  "select_one p (r # t) = (if p r then Some r else select_one p t)"
  by (simp add: select_one_def)

lemma select_one_append:
  "select_one p (t @ u) = (case select_one p t of None \<Rightarrow> select_one p u | Some r \<Rightarrow> Some r)"
  by (induction t) auto

lemma select_one_SomeD: "select_one p t = Some r \<Longrightarrow> r \<in> set t \<and> p r"
  by (induction t) (auto split: if_splits)

lemma select_one_None_iff: "select_one p t = None \<longleftrightarrow> (\<forall>r \<in> set t. \<not> p r)"
  by (induction t) auto

lemma select_one_map:
  "select_one p (map f t) = map_option f (select_one (\<lambda>r. p (f r)) t)"
  by (induction t) auto

lemma select_one_cong:
  "(\<And>r. r \<in> set t \<Longrightarrow> p r = q r) \<Longrightarrow> select_one p t = select_one q t"
  by (induction t) auto

lemma count_where_simps [simp]:
  "count_where p [] = 0"
  "count_where p (r # t) = (if p r then Suc (count_where p t) else count_where p t)"
  "count_where p (t @ u) = count_where p t + count_where p u"
  by (simp_all add: count_where_def)

lemma count_where_0_iff: "count_where p t = 0 \<longleftrightarrow> (\<forall>r \<in> set t. \<not> p r)"
  by (induction t) auto

lemma sum_where_simps [simp]:
  "sum_where p f [] = 0"
  "sum_where p f (r # t) = (if p r then f r + sum_where p f t else sum_where p f t)"
  "sum_where p f (t @ u) = sum_where p f t + sum_where p f u"
  by (simp_all add: sum_where_def)

lemma update_where_snd [table_simps]: "snd (update_where p f t) = count_where p t"
  by (simp add: update_where_def count_where_def)

lemma update_where_fst [table_simps]:
  "fst (update_where p f t) = map (\<lambda>r. if p r then f r else r) t"
  by (simp add: update_where_def)

lemma delete_where_snd [table_simps]: "snd (delete_where p t) = count_where p t"
  by (simp add: delete_where_def count_where_def)

lemma delete_where_fst [table_simps]: "fst (delete_where p t) = filter (\<lambda>r. \<not> p r) t"
  by (simp add: delete_where_def)

lemma ball_update_where [simp]:
  "(\<forall>r \<in> set (fst (update_where p f t)). Q r) \<longleftrightarrow>
   (\<forall>r \<in> set t. (p r \<longrightarrow> Q (f r)) \<and> (\<not> p r \<longrightarrow> Q r))"
  by (auto simp: update_where_def)

lemma bex_update_where [simp]:
  "(\<exists>r \<in> set (fst (update_where p f t)). Q r) \<longleftrightarrow>
   (\<exists>r \<in> set t. p r \<and> Q (f r) \<or> \<not> p r \<and> Q r)"
  by (auto simp: update_where_def)

lemma update_where_hits [simp]: "0 < snd (update_where p f t) \<longleftrightarrow> (\<exists>r \<in> set t. p r)"
  by (auto simp: update_where_def filter_empty_conv)

lemma update_where_misses: "snd (update_where p f t) = 0 \<longleftrightarrow> (\<forall>r \<in> set t. \<not> p r)"
  by (auto simp: update_where_def filter_empty_conv)

lemma update_where_miss_id: "\<forall>r \<in> set t. \<not> p r \<Longrightarrow> fst (update_where p f t) = t"
  by (simp add: update_where_def map_idI)

lemma select_one_update_where:
  "(\<And>r. q (f r) = q r) \<Longrightarrow>
   select_one q (fst (update_where p f t)) =
     map_option (\<lambda>r. if p r then f r else r) (select_one q t)"
  by (induction t) (auto simp: update_where_def)

lemma set_delete_where [simp]: "set (fst (delete_where p t)) = {r \<in> set t. \<not> p r}"
  by (simp add: delete_where_def)

lemma update_where_list_all2:
  assumes "\<And>r. r \<in> set t \<Longrightarrow> p r \<Longrightarrow> R r (f r)" and "\<And>r. R r r"
  shows "list_all2 R t (fst (update_where p f t))"
  using assms by (induction t) (auto simp: update_where_def)

lemma list_all2_map_eq:
  "list_all2 R xs ys \<Longrightarrow> (\<And>x y. R x y \<Longrightarrow> f y = f x) \<Longrightarrow> map f ys = map f xs"
  by (induction rule: list_all2_induct) auto

lemma list_all2_set2D: "list_all2 R xs ys \<Longrightarrow> y \<in> set ys \<Longrightarrow> \<exists>x \<in> set xs. R x y"
  by (induction rule: list_all2_induct) auto

lemma list_all2_set1D: "list_all2 R xs ys \<Longrightarrow> x \<in> set xs \<Longrightarrow> \<exists>y \<in> set ys. R x y"
  by (induction rule: list_all2_induct) auto

text \<open>An update that does not touch a column keeps that column of every row.\<close>

lemma map_if_column [table_simps]:
  "(\<And>r. c (f r) = c r) \<Longrightarrow> map c (map (\<lambda>r. if p r then f r else r) t) = map c t"
  by (simp cong: map_cong)

text \<open>\<^verbatim>\<open>ORDER BY f LIMIT 1\<close> is a row with the least key.\<close>

lemma sort_key_ConsD:
  assumes "sort_key f t = r # rs"
  shows "r \<in> set t \<and> (\<forall>q \<in> set t. f r \<le> f q)"
proof -
  have "set (r # rs) = set t" using assms set_sort [of f t] by simp
  moreover have "sorted (map f (r # rs))" using assms sorted_sort_key [of f t] by simp
  ultimately show ?thesis by auto
qed

lemma sort_key_Nil_iff [simp]: "sort_key f t = [] \<longleftrightarrow> t = []"
  by (metis set_empty set_sort)

text \<open>A key column without duplicates identifies its row.\<close>

lemma select_one_unique:
  assumes d: "distinct (map key t)" and r: "r \<in> set t" and p: "p r"
    and k: "\<And>s. s \<in> set t \<Longrightarrow> p s \<Longrightarrow> key s = key r"
  shows "select_one p t = Some r"
proof -
  have "select_one p t \<noteq> None" using r p by (auto simp: select_one_None_iff)
  then obtain s where s: "select_one p t = Some s" by blast
  then have "s \<in> set t" and "p s" by (auto dest: select_one_SomeD)
  then have "key s = key r" by (rule k)
  with d r \<open>s \<in> set t\<close> have "s = r" by (auto simp: distinct_map dest: inj_onD)
  with s show ?thesis by simp
qed

lemma count_where_unique:
  assumes "distinct (map key t)" and "\<And>s. s \<in> set t \<Longrightarrow> p s \<Longrightarrow> key s = k"
  shows "count_where p t \<le> 1"
  using assms
proof (induction t)
  case (Cons a t)
  then have IH: "count_where p t \<le> 1" by simp
  show ?case
  proof (cases "p a")
    case True
    with Cons.prems have "\<forall>r \<in> set t. \<not> p r"
      by (metis distinct.simps(2) image_eqI list.map(2) list.set_intros(1) list.set_intros(2) list.set_map)
    then have "count_where p t = 0" by (simp add: count_where_0_iff)
    with True show ?thesis by simp
  next
    case False
    with IH show ?thesis by simp
  qed
qed simp

subsection \<open>Interface: an invariant kept by a step function\<close>

text \<open>
  A component whose operations are the events of a step function promises that each of them keeps
  its invariant; a client that issues any sequence of operations may then rely on it.
\<close>

locale invariant_machine =
  fixes step :: "'s \<Rightarrow> 'e \<Rightarrow> 's"
    and invar :: "'s \<Rightarrow> bool"
  assumes step_invar: "invar s \<Longrightarrow> invar (step s e)"
begin

lemma run_invar: "invar s \<Longrightarrow> invar (foldl step s es)"
  by (induction es arbitrary: s) (auto intro: step_invar)

lemma run_invar_prefix: "invar s \<Longrightarrow> invar (foldl step s (take n es))"
  by (rule run_invar)

end

text \<open>
  A machine that in addition has a rank which the events of a class (all but the resetting ones)
  never lower.
\<close>

locale ranked_machine = invariant_machine step invar
  for step :: "'s \<Rightarrow> 'e \<Rightarrow> 's" and invar :: "'s \<Rightarrow> bool" +
  fixes rank :: "'s \<Rightarrow> int"
    and forward :: "'e \<Rightarrow> bool"
  assumes step_rank: "invar s \<Longrightarrow> forward e \<Longrightarrow> rank s \<le> rank (step s e)"
begin

lemma run_rank: "invar s \<Longrightarrow> list_all forward es \<Longrightarrow> rank s \<le> rank (foldl step s es)"
proof (induction es arbitrary: s)
  case (Cons e es)
  then have "rank (step s e) \<le> rank (foldl step (step s e) es)"
    by (simp add: step_invar)
  with step_rank [of s e] Cons.prems show ?case by simp
qed simp

end

subsection \<open>Interface: an operation that succeeds at most once per opening\<close>

text \<open>
  \<open>attempt a s\<close> is one request \<open>a\<close>; it returns the new state and whether it won what it claims,
  \<open>key a\<close>. \<open>vacant s k\<close> says \<open>k\<close> can still be won, and \<open>opens a k\<close> that the request may make \<open>k\<close>
  vacant again. The provider promises that a win needs a vacant key and leaves it taken, and that
  only an opening request makes a taken key vacant; then a key is won at most once per opening,
  whatever the order of the requests. This is the shape of every compare-and-set statement of the
  program (\<^verbatim>\<open>UPDATE ... WHERE id = ? AND status = ?\<close> with a look at \<^verbatim>\<open>changes\<close>).
\<close>

fun run_attempts :: "('a \<Rightarrow> 's \<Rightarrow> 's \<times> bool) \<Rightarrow> 'a list \<Rightarrow> 's \<Rightarrow> 's \<times> bool list" where
  "run_attempts attempt [] s = (s, [])"
| "run_attempts attempt (a # as) s =
     (case attempt a s of (s', ok) \<Rightarrow>
        (case run_attempts attempt as s' of (s'', oks) \<Rightarrow> (s'', ok # oks)))"

lemma run_attempts_fst: "fst (run_attempts attempt as s) = foldl (\<lambda>s a. fst (attempt a s)) s as"
  by (induction as arbitrary: s) (simp_all add: split_beta)

definition wins :: "('a \<Rightarrow> 'k) \<Rightarrow> 'k \<Rightarrow> 'a list \<Rightarrow> bool list \<Rightarrow> nat" where
  "wins key k as oks = length (filter (\<lambda>(a, ok). key a = k \<and> ok) (zip as oks))"

lemma wins_simps [simp]:
  "wins key k [] oks = 0"
  "wins key k (a # as) (ok # oks) = (if key a = k \<and> ok then 1 else 0) + wins key k as oks"
  by (simp_all add: wins_def)

text \<open>
  The promises may hold only where an invariant of the state does (a primary key without duplicates,
  say), which every request keeps: \<open>guarded_one_shot\<close>.
\<close>

locale guarded_one_shot =
  fixes attempt :: "'a \<Rightarrow> 's \<Rightarrow> 's \<times> bool"
    and key :: "'a \<Rightarrow> 'k"
    and vacant :: "'s \<Rightarrow> 'k \<Rightarrow> bool"
    and opens :: "'a \<Rightarrow> 'k \<Rightarrow> bool"
    and guard :: "'s \<Rightarrow> bool"
  assumes guard_kept: "guard s \<Longrightarrow> guard (fst (attempt a s))"
    and guarded_win_vacant: "guard s \<Longrightarrow> snd (attempt a s) \<Longrightarrow> vacant s (key a)"
    and guarded_win_takes: "guard s \<Longrightarrow> snd (attempt a s) \<Longrightarrow> \<not> vacant (fst (attempt a s)) (key a)"
    and guarded_taken_stays:
      "guard s \<Longrightarrow> \<not> vacant s k \<Longrightarrow> \<not> opens a k \<Longrightarrow> \<not> vacant (fst (attempt a s)) k"
begin

lemma guarded_wins_bound:
  "guard s \<Longrightarrow> wins key k as (snd (run_attempts attempt as s)) \<le>
     (if vacant s k then 1 else 0) + count_where (\<lambda>a. opens a k) as"
proof (induction as arbitrary: s)
  case (Cons a as)
  obtain s' ok where at: "attempt a s = (s', ok)" by fastforce
  let ?v = "\<lambda>t. if vacant t k then 1 else (0::nat)" and ?o = "if opens a k then 1 else (0::nat)"
  have "guard s'" using guard_kept [OF Cons.prems, of a] at by simp
  have "(if key a = k \<and> ok then 1 else 0) + ?v s' \<le> ?v s + ?o"
    using guarded_win_vacant [of s a] guarded_win_takes [of s a] guarded_taken_stays [of s k a] at
      Cons.prems by auto
  moreover obtain s'' oks where "run_attempts attempt as s' = (s'', oks)" by fastforce
  ultimately show ?case using Cons.IH [OF \<open>guard s'\<close>] at by (auto split: if_splits)
qed simp

lemma guarded_taken_run:
  "guard s \<Longrightarrow> \<not> vacant s k \<Longrightarrow> \<forall>a \<in> set as. \<not> opens a k \<Longrightarrow>
   guard (foldl (\<lambda>s a. fst (attempt a s)) s as) \<and> \<not> vacant (foldl (\<lambda>s a. fst (attempt a s)) s as) k"
  by (induction as arbitrary: s) (simp_all add: guard_kept guarded_taken_stays)

lemma guarded_at_most_one_win:
  assumes "guard s" and "\<forall>a \<in> set as. \<not> opens a k"
  shows "wins key k as (snd (run_attempts attempt as s)) \<le> (if vacant s k then 1 else 0)"
proof -
  from assms(2) have "count_where (\<lambda>a. opens a k) as = 0" by (simp add: count_where_0_iff)
  with guarded_wins_bound [OF assms(1), of k as] show ?thesis by simp
qed

end

locale one_shot =
  fixes attempt :: "'a \<Rightarrow> 's \<Rightarrow> 's \<times> bool"
    and key :: "'a \<Rightarrow> 'k"
    and vacant :: "'s \<Rightarrow> 'k \<Rightarrow> bool"
    and opens :: "'a \<Rightarrow> 'k \<Rightarrow> bool"
  assumes win_vacant: "snd (attempt a s) \<Longrightarrow> vacant s (key a)"
    and win_takes: "snd (attempt a s) \<Longrightarrow> \<not> vacant (fst (attempt a s)) (key a)"
    and taken_stays: "\<not> vacant s k \<Longrightarrow> \<not> opens a k \<Longrightarrow> \<not> vacant (fst (attempt a s)) k"

sublocale one_shot \<subseteq> everywhere: guarded_one_shot attempt key vacant opens "\<lambda>_. True"
  by unfold_locales (auto dest: win_vacant win_takes taken_stays)

context one_shot
begin

lemma wins_bound:
  "wins key k as (snd (run_attempts attempt as s)) \<le>
     (if vacant s k then 1 else 0) + count_where (\<lambda>a. opens a k) as"
  by (rule everywhere.guarded_wins_bound) simp

lemma at_most_one_win:
  assumes "\<forall>a \<in> set as. \<not> opens a k"
  shows "wins key k as (snd (run_attempts attempt as s)) \<le> 1"
  using everywhere.guarded_at_most_one_win [of as k s] assms by (simp split: if_splits)

lemma taken_no_wins:
  assumes "\<not> vacant s k" and "\<forall>a \<in> set as. \<not> opens a k"
  shows "wins key k as (snd (run_attempts attempt as s)) = 0"
  using everywhere.guarded_at_most_one_win [of as k s] assms by simp

end

end
