(* ===== verification/Sync_State_V1.thy ===== *)
theory Sync_State_V1
  imports Prelude
begin

text \<open>
  The runtime synchronisation state machine, version 1: the snapshot and event contracts of
  \<^verbatim>\<open>packages/contracts/src/sync/runtime-sync-state.ts\<close> and \<^verbatim>\<open>runtime-sync-events.ts\<close> and the
  pure derivation \<^verbatim>\<open>deriveRuntimeSyncState\<close> of \<^verbatim>\<open>packages/sync-engine/src/derive-state.ts\<close>. The zod
  schemas' checks that the HOL types do not express (ranges, non-empty strings) are predicates;
  \<^verbatim>\<open>parse\<close> returns the error where they fail. Then: the state invariant, totality, and the
  agreement between the advertised capabilities and the transitions that exist.
\<close>

subsection \<open>Contracts\<close>

datatype sync_state_v1 =
  Unconfigured | Disabled | Idle | Pulling | Merging | Pushing | Paused | Offline | Conflicted
| ErrorState

record sync_capabilities =
  can_configure :: bool
  can_start_sync :: bool
  can_pause :: bool
  can_resume :: bool
  can_resolve_conflict :: bool
  can_retry :: bool
  can_disable :: bool

record sync_snapshot_v1 =
  v1_state :: sync_state_v1
  v1_capabilities :: sync_capabilities
  v1_sync_enabled :: bool
  v1_network_online :: bool
  v1_pending_pull :: int
  v1_pending_push :: int
  v1_conflict_count :: int
  v1_last_started :: "int option"
  v1_last_completed :: "int option"
  v1_last_error_code :: "string option"
  v1_last_error_message :: "string option"
  v1_active_run :: "string option"

datatype sync_event_body_v1 =
  SyncConfigured bool
| SyncDisabled
| SyncStarted string
| SyncPullCompleted "int option"
| SyncMergeCompleted "int option"
| SyncPushCompleted
| SyncConflictDetected int
| SyncConflictResolved
| SyncPaused
| SyncResumed
| SyncNetworkOffline
| SyncNetworkOnline
| SyncFailed string "string option"
| SyncReset

datatype sync_event_v1 = SyncEventV1 (occurred_at: int) (event_body: sync_event_body_v1)

text \<open>The one error of the schema layer: zod rejects the value.\<close>

datatype zod_error = ZodError

definition valid_snapshot_v1 :: "sync_snapshot_v1 \<Rightarrow> bool" where
  "valid_snapshot_v1 s \<longleftrightarrow>
     zod_int_min 0 (v1_pending_pull s) \<and> zod_int_min 0 (v1_pending_push s) \<and>
     zod_int_min 0 (v1_conflict_count s) \<and>
     opt_all (zod_int_min 0) (v1_last_started s) \<and> opt_all (zod_int_min 0) (v1_last_completed s) \<and>
     opt_all (\<lambda>c. c \<noteq> []) (v1_last_error_code s) \<and>
     opt_all (\<lambda>c. c \<noteq> []) (v1_last_error_message s) \<and>
     opt_all (\<lambda>c. c \<noteq> []) (v1_active_run s)"

definition parse_snapshot_v1 :: "sync_snapshot_v1 \<Rightarrow> zod_error + sync_snapshot_v1" where
  "parse_snapshot_v1 s = (if valid_snapshot_v1 s then Inr s else Inl ZodError)"

fun valid_body_v1 :: "sync_event_body_v1 \<Rightarrow> bool" where
  "valid_body_v1 (SyncStarted run) = (run \<noteq> [])"
| "valid_body_v1 (SyncPullCompleted n) = opt_all (zod_int_min 0) n"
| "valid_body_v1 (SyncMergeCompleted n) = opt_all (zod_int_min 0) n"
| "valid_body_v1 (SyncConflictDetected n) = zod_int_min 1 n"
| "valid_body_v1 (SyncFailed code msg) = (code \<noteq> [])"
| "valid_body_v1 _ = True"

definition parse_event_v1 :: "sync_event_v1 \<Rightarrow> zod_error + sync_event_v1" where
  "parse_event_v1 e =
     (if zod_int_min 0 (occurred_at e) \<and> valid_body_v1 (event_body e) then Inr e else Inl ZodError)"

subsection \<open>The derivation\<close>

definition resolve_base_state :: "bool \<Rightarrow> bool \<Rightarrow> sync_state_v1" where
  "resolve_base_state enabled online =
     (if \<not> enabled then Disabled else if online then Idle else Offline)"

definition derive_capabilities :: "sync_state_v1 \<Rightarrow> bool \<Rightarrow> bool \<Rightarrow> int \<Rightarrow> sync_capabilities" where
  "derive_capabilities st enabled online conflicts =
     \<lparr> can_configure = (st = Unconfigured \<or> st = Disabled),
       can_start_sync = (st = Idle \<and> enabled \<and> online),
       can_pause = ((st = Idle \<or> st = Pulling \<or> st = Merging \<or> st = Pushing) \<and> enabled),
       can_resume = (st = Paused),
       can_resolve_conflict = (st = Conflicted \<and> conflicts > 0),
       can_retry = (st = ErrorState \<and> enabled \<and> online),
       can_disable = (st \<noteq> Unconfigured \<and> st \<noteq> Disabled) \<rparr>"

definition with_capabilities :: "sync_snapshot_v1 \<Rightarrow> sync_snapshot_v1" where
  "with_capabilities d = d\<lparr>v1_capabilities :=
     derive_capabilities (v1_state d) (v1_sync_enabled d) (v1_network_online d) (v1_conflict_count d)\<rparr>"

definition finalize_v1 :: "sync_snapshot_v1 \<Rightarrow> zod_error + sync_snapshot_v1" where
  "finalize_v1 d = parse_snapshot_v1 (with_capabilities d)"

definition startable :: "sync_state_v1 list" where
  "startable = [Idle, ErrorState]"

definition pausable :: "sync_state_v1 list" where
  "pausable = [Idle, Pulling, Merging, Pushing]"

definition failable :: "sync_state_v1 list" where
  "failable = [Pulling, Merging, Pushing, Conflicted]"

definition preserve_on_offline :: "sync_state_v1 list" where
  "preserve_on_offline = [Unconfigured, Disabled, Paused, Conflicted, ErrorState]"

text \<open>The draft each event hands to \<^verbatim>\<open>finalize\<close>; an event without effect hands over the snapshot.\<close>

fun draft_v1 :: "sync_snapshot_v1 \<Rightarrow> int \<Rightarrow> sync_event_body_v1 \<Rightarrow> sync_snapshot_v1" where
  "draft_v1 s t (SyncConfigured enabled) =
     s\<lparr>v1_state := resolve_base_state enabled (v1_network_online s), v1_sync_enabled := enabled,
       v1_pending_pull := 0, v1_pending_push := 0, v1_conflict_count := 0,
       v1_last_error_code := None, v1_last_error_message := None, v1_active_run := None\<rparr>"
| "draft_v1 s t SyncDisabled =
     s\<lparr>v1_state := Disabled, v1_sync_enabled := False,
       v1_pending_pull := 0, v1_pending_push := 0, v1_conflict_count := 0, v1_active_run := None\<rparr>"
| "draft_v1 s t (SyncStarted run) =
     (if \<not> v1_sync_enabled s \<or> \<not> v1_network_online s \<or> v1_state s \<notin> set startable then s
      else s\<lparr>v1_state := Pulling, v1_active_run := Some run, v1_last_started := Some t,
             v1_last_error_code := None, v1_last_error_message := None\<rparr>)"
| "draft_v1 s t (SyncPullCompleted n) =
     (if v1_state s \<noteq> Pulling then s
      else s\<lparr>v1_state := Merging, v1_pending_pull := or_default n 0\<rparr>)"
| "draft_v1 s t (SyncMergeCompleted n) =
     (if v1_state s \<noteq> Merging then s
      else s\<lparr>v1_state := Pushing, v1_pending_pull := 0, v1_pending_push := or_default n 0\<rparr>)"
| "draft_v1 s t SyncPushCompleted =
     (if v1_state s \<noteq> Pushing then s
      else s\<lparr>v1_state := resolve_base_state (v1_sync_enabled s) (v1_network_online s),
             v1_pending_push := 0, v1_conflict_count := 0, v1_last_completed := Some t,
             v1_last_error_code := None, v1_last_error_message := None, v1_active_run := None\<rparr>)"
| "draft_v1 s t (SyncConflictDetected n) =
     (if v1_state s \<noteq> Merging \<and> v1_state s \<noteq> Pushing then s
      else s\<lparr>v1_state := Conflicted, v1_conflict_count := n\<rparr>)"
| "draft_v1 s t SyncConflictResolved =
     (if v1_state s \<noteq> Conflicted then s
      else s\<lparr>v1_state := resolve_base_state (v1_sync_enabled s) (v1_network_online s),
             v1_conflict_count := 0, v1_active_run := None\<rparr>)"
| "draft_v1 s t SyncPaused =
     (if v1_state s \<notin> set pausable \<or> \<not> v1_sync_enabled s then s else s\<lparr>v1_state := Paused\<rparr>)"
| "draft_v1 s t SyncResumed =
     (if v1_state s \<noteq> Paused then s
      else s\<lparr>v1_state := resolve_base_state (v1_sync_enabled s) (v1_network_online s)\<rparr>)"
| "draft_v1 s t SyncNetworkOffline =
     s\<lparr>v1_network_online := False,
       v1_state := (if v1_state s \<in> set preserve_on_offline then v1_state s else Offline)\<rparr>"
| "draft_v1 s t SyncNetworkOnline =
     s\<lparr>v1_network_online := True,
       v1_state := (if v1_state s = Offline then resolve_base_state (v1_sync_enabled s) True
                    else v1_state s)\<rparr>"
| "draft_v1 s t (SyncFailed code msg) =
     (if v1_state s \<notin> set failable then s
      else s\<lparr>v1_state := ErrorState, v1_active_run := None, v1_last_error_code := Some code,
             v1_last_error_message := msg\<rparr>)"
| "draft_v1 s t SyncReset =
     s\<lparr>v1_state := Unconfigured, v1_sync_enabled := False, v1_pending_pull := 0,
       v1_pending_push := 0, v1_conflict_count := 0, v1_last_started := None,
       v1_last_completed := None, v1_last_error_code := None, v1_last_error_message := None,
       v1_active_run := None\<rparr>"

definition derive_runtime_sync_state ::
  "sync_snapshot_v1 \<Rightarrow> sync_event_v1 \<Rightarrow> zod_error + sync_snapshot_v1" where
  "derive_runtime_sync_state s e =
     (case parse_snapshot_v1 s of Inl x \<Rightarrow> Inl x
      | Inr current \<Rightarrow> (case parse_event_v1 e of Inl x \<Rightarrow> Inl x
          | Inr ev \<Rightarrow> finalize_v1 (draft_v1 current (occurred_at ev) (event_body ev))))"

text \<open>The snapshot \<^verbatim>\<open>sync.reset\<close> produces, the state a runtime starts from.\<close>

definition initial_snapshot_v1 :: "bool \<Rightarrow> sync_snapshot_v1" where
  "initial_snapshot_v1 online =
     \<lparr> v1_state = Unconfigured,
       v1_capabilities = derive_capabilities Unconfigured False online 0,
       v1_sync_enabled = False, v1_network_online = online,
       v1_pending_pull = 0, v1_pending_push = 0, v1_conflict_count = 0,
       v1_last_started = None, v1_last_completed = None,
       v1_last_error_code = None, v1_last_error_message = None, v1_active_run = None \<rparr>"

text \<open>
  A runtime that folds its events over the snapshot keeps the previous snapshot when the
  derivation throws.
\<close>

definition sync_step_v1 :: "sync_snapshot_v1 \<Rightarrow> sync_event_v1 \<Rightarrow> sync_snapshot_v1" where
  "sync_step_v1 s e = (case derive_runtime_sync_state s e of Inl _ \<Rightarrow> s | Inr s' \<Rightarrow> s')"

subsection \<open>Well-formed snapshots\<close>

text \<open>
  What the machine keeps between its fields: the capabilities are the derived ones; a state other
  than unconfigured or disabled means sync is enabled; the network states agree with the network
  flag; a round in progress has its run id; a conflict has a positive count and an
  error a code.
\<close>

definition enabled_matches :: "sync_snapshot_v1 \<Rightarrow> bool" where
  "enabled_matches s \<longleftrightarrow> (v1_sync_enabled s \<longleftrightarrow> v1_state s \<notin> {Unconfigured, Disabled})"

definition network_matches :: "sync_snapshot_v1 \<Rightarrow> bool" where
  "network_matches s \<longleftrightarrow>
     (v1_state s \<in> {Idle, Pulling, Merging, Pushing} \<longrightarrow> v1_network_online s) \<and>
     (v1_state s = Offline \<longrightarrow> \<not> v1_network_online s)"

definition round_matches :: "sync_snapshot_v1 \<Rightarrow> bool" where
  "round_matches s \<longleftrightarrow>
     (v1_state s \<in> {Pulling, Merging, Pushing} \<longrightarrow> v1_active_run s \<noteq> None) \<and>
     (v1_state s = Conflicted \<longrightarrow> 0 < v1_conflict_count s) \<and>
     (v1_state s = ErrorState \<longrightarrow> v1_last_error_code s \<noteq> None)"

definition wf_snapshot_v1 :: "sync_snapshot_v1 \<Rightarrow> bool" where
  "wf_snapshot_v1 s \<longleftrightarrow> valid_snapshot_v1 s \<and> with_capabilities s = s \<and>
     enabled_matches s \<and> network_matches s \<and> round_matches s"

lemmas wf_v1_defs = enabled_matches_def network_matches_def round_matches_def
lemmas sync_sets_v1 = startable_def pausable_def failable_def preserve_on_offline_def

lemma with_capabilities_sel [simp]:
  "v1_state (with_capabilities s) = v1_state s"
  "v1_sync_enabled (with_capabilities s) = v1_sync_enabled s"
  "v1_network_online (with_capabilities s) = v1_network_online s"
  "v1_pending_pull (with_capabilities s) = v1_pending_pull s"
  "v1_pending_push (with_capabilities s) = v1_pending_push s"
  "v1_conflict_count (with_capabilities s) = v1_conflict_count s"
  "v1_last_started (with_capabilities s) = v1_last_started s"
  "v1_last_completed (with_capabilities s) = v1_last_completed s"
  "v1_last_error_code (with_capabilities s) = v1_last_error_code s"
  "v1_last_error_message (with_capabilities s) = v1_last_error_message s"
  "v1_active_run (with_capabilities s) = v1_active_run s"
  by (simp_all add: with_capabilities_def)

lemma with_capabilities_idem [simp]:
  "with_capabilities (with_capabilities s) = with_capabilities s"
  by (simp add: with_capabilities_def)

lemma valid_with_capabilities [simp]: "valid_snapshot_v1 (with_capabilities s) = valid_snapshot_v1 s"
  by (simp add: valid_snapshot_v1_def)

lemma matches_with_capabilities [simp]:
  "enabled_matches (with_capabilities s) = enabled_matches s"
  "network_matches (with_capabilities s) = network_matches s"
  "round_matches (with_capabilities s) = round_matches s"
  by (simp_all add: wf_v1_defs)

lemma finalize_v1_Inr:
  "finalize_v1 d = Inr s' \<longleftrightarrow> valid_snapshot_v1 d \<and> s' = with_capabilities d"
  by (auto simp: finalize_v1_def parse_snapshot_v1_def)

lemma derive_v1_Inr:
  "derive_runtime_sync_state s e = Inr s' \<longleftrightarrow>
     valid_snapshot_v1 s \<and> zod_int_min 0 (occurred_at e) \<and> valid_body_v1 (event_body e) \<and>
     finalize_v1 (draft_v1 s (occurred_at e) (event_body e)) = Inr s'"
  by (auto simp: derive_runtime_sync_state_def parse_snapshot_v1_def parse_event_v1_def)

subsection \<open>Preservation, one condition at a time\<close>

lemma draft_v1_enabled: "enabled_matches s \<Longrightarrow> enabled_matches (draft_v1 s t b)"
  by (cases b) (auto simp: enabled_matches_def resolve_base_state_def sync_sets_v1)

lemma draft_v1_network:
  "enabled_matches s \<Longrightarrow> network_matches s \<Longrightarrow> network_matches (draft_v1 s t b)"
  by (cases b)
     (auto simp: network_matches_def enabled_matches_def resolve_base_state_def sync_sets_v1)

lemma draft_v1_round:
  "valid_body_v1 b \<Longrightarrow> round_matches s \<Longrightarrow> round_matches (draft_v1 s t b)"
  by (cases b)
     (auto simp: round_matches_def resolve_base_state_def sync_sets_v1 zod_int_min_def)

text \<open>The only event that can hand an invalid draft to \<^verbatim>\<open>finalize\<close> carries an empty message.\<close>

definition empty_failure :: "sync_snapshot_v1 \<Rightarrow> sync_event_body_v1 \<Rightarrow> bool" where
  "empty_failure s b \<longleftrightarrow>
     (case b of SyncFailed code msg \<Rightarrow> msg = Some [] \<and> v1_state s \<in> set failable | _ \<Rightarrow> False)"

lemma draft_v1_valid:
  assumes "valid_snapshot_v1 s" and "zod_int_min 0 t" and "valid_body_v1 b" and "\<not> empty_failure s b"
  shows "valid_snapshot_v1 (draft_v1 s t b)"
proof (cases b)
  case (SyncFailed code msg)
  then show ?thesis using assms
    by (cases msg) (auto simp: valid_snapshot_v1_def empty_failure_def)
next
  case (SyncPullCompleted n)
  then show ?thesis using assms by (cases n) (auto simp: valid_snapshot_v1_def)
next
  case (SyncMergeCompleted n)
  then show ?thesis using assms by (cases n) (auto simp: valid_snapshot_v1_def)
qed (use assms in \<open>auto simp: valid_snapshot_v1_def zod_int_min_def max_safe_integer_def\<close>)

lemma draft_v1_empty_failure: "empty_failure s b \<Longrightarrow> \<not> valid_snapshot_v1 (draft_v1 s t b)"
  by (cases b) (auto simp: empty_failure_def valid_snapshot_v1_def)

lemma derive_v1_wf:
  assumes "derive_runtime_sync_state s e = Inr s'" and "wf_snapshot_v1 s"
  shows "wf_snapshot_v1 s'"
  using assms unfolding derive_v1_Inr finalize_v1_Inr wf_snapshot_v1_def
  by (auto intro: draft_v1_enabled draft_v1_network draft_v1_round)

lemma sync_step_v1_wf: "wf_snapshot_v1 s \<Longrightarrow> wf_snapshot_v1 (sync_step_v1 s e)"
  by (auto simp: sync_step_v1_def split: sum.splits dest: derive_v1_wf)

interpretation sync_v1: invariant_machine sync_step_v1 wf_snapshot_v1
  by unfold_locales (rule sync_step_v1_wf)

lemma initial_v1_wf: "wf_snapshot_v1 (initial_snapshot_v1 online)"
  by (simp add: wf_snapshot_v1_def wf_v1_defs initial_snapshot_v1_def valid_snapshot_v1_def
      with_capabilities_def)


subsection \<open>Properties\<close>

lemma sync_step_v1_valid:
  "wf_snapshot_v1 s \<Longrightarrow> \<not> empty_failure s b \<Longrightarrow> zod_int_min 0 t \<Longrightarrow> valid_body_v1 b \<Longrightarrow>
   sync_step_v1 s (SyncEventV1 t b) = with_capabilities (draft_v1 s t b)"
  by (auto simp: sync_step_v1_def wf_snapshot_v1_def derive_v1_Inr finalize_v1_Inr draft_v1_valid
      split: sum.splits)
     (metis derive_v1_Inr draft_v1_valid finalize_v1_Inr Inl_Inr_False sync_event_v1.sel)

text \<open>
  every snapshot the runtime can reach from a reset, by any sequence of events, valid or not,
  is well formed: capabilities are the derived ones, the enabled flag agrees with the state, the
  network states agree with the network flag, a round in progress carries its run id, a
  conflicted snapshot has a positive conflict count and an error snapshot its error code.
\<close>

theorem sync_v1_reachable_wf: "wf_snapshot_v1 (foldl sync_step_v1 (initial_snapshot_v1 online) es)"
  by (rule sync_v1.run_invar [OF initial_v1_wf])

text \<open>
  the derivation returns a snapshot exactly when both inputs satisfy their schemas and the
  event is not a failure report with an empty message in a state that can fail; in that one case
  the snapshot it builds violates its own schema and it throws.
\<close>

theorem derive_v1_total:
  "(\<exists>s'. derive_runtime_sync_state s e = Inr s') \<longleftrightarrow>
     valid_snapshot_v1 s \<and> zod_int_min 0 (occurred_at e) \<and> valid_body_v1 (event_body e) \<and>
     \<not> empty_failure s (event_body e)"
  by (auto simp: derive_v1_Inr finalize_v1_Inr draft_v1_valid dest: draft_v1_empty_failure)

text \<open>
  on a well-formed snapshot the advertised capabilities are exactly the transitions that
  exist: start and retry together are the states from which a start event begins a round, and
  pause, resume, resolve and disable are each offered exactly when their event has its effect.
\<close>

theorem capabilities_are_transitions:
  assumes "wf_snapshot_v1 s" and "run \<noteq> []" and "zod_int_min 0 t"
  shows "(can_start_sync (v1_capabilities s) \<or> can_retry (v1_capabilities s) \<longleftrightarrow>
            v1_state s \<noteq> Pulling \<and> v1_state (sync_step_v1 s (SyncEventV1 t (SyncStarted run))) = Pulling)
       \<and> (can_pause (v1_capabilities s) \<longleftrightarrow>
            v1_state s \<noteq> Paused \<and> v1_state (sync_step_v1 s (SyncEventV1 t SyncPaused)) = Paused)
       \<and> (can_resume (v1_capabilities s) \<longleftrightarrow>
            v1_state (sync_step_v1 s (SyncEventV1 t SyncResumed)) \<noteq> v1_state s)
       \<and> (can_resolve_conflict (v1_capabilities s) \<longleftrightarrow>
            v1_state (sync_step_v1 s (SyncEventV1 t SyncConflictResolved)) \<noteq> v1_state s)
       \<and> (can_disable (v1_capabilities s) \<longleftrightarrow>
            v1_sync_enabled s \<and> \<not> v1_sync_enabled (sync_step_v1 s (SyncEventV1 t SyncDisabled)))"
proof -
  have step: "sync_step_v1 s (SyncEventV1 t b) = with_capabilities (draft_v1 s t b)"
    if "b \<in> {SyncStarted run, SyncPaused, SyncResumed, SyncConflictResolved, SyncDisabled}" for b
    using that assms by (intro sync_step_v1_valid) (auto simp: empty_failure_def)
  have caps: "v1_capabilities s =
    derive_capabilities (v1_state s) (v1_sync_enabled s) (v1_network_online s) (v1_conflict_count s)"
    using assms(1) unfolding wf_snapshot_v1_def with_capabilities_def
    by (metis (no_types) sync_snapshot_v1.select_convs(2) sync_snapshot_v1.surjective
        sync_snapshot_v1.update_convs(2))
  from assms(1) have "enabled_matches s" "network_matches s" "round_matches s"
    by (auto simp: wf_snapshot_v1_def)
  then show ?thesis
    by (simp add: step caps derive_capabilities_def wf_v1_defs resolve_base_state_def sync_sets_v1)
qed

lemma capabilities_are_transitions_witness:
  "v1_state (sync_step_v1
      (sync_step_v1 (initial_snapshot_v1 True) (SyncEventV1 5 (SyncConfigured True)))
      (SyncEventV1 7 (SyncStarted ''r''))) = Pulling"
  (is "v1_state (sync_step_v1 ?s _) = _")
proof -
  have wf: "wf_snapshot_v1 ?s" by (rule sync_step_v1_wf [OF initial_v1_wf])
  have "can_start_sync (v1_capabilities ?s)" by code_simp
  with capabilities_are_transitions [OF wf, of "''r''" 7] show ?thesis
    by (simp add: zod_int_min_def max_safe_integer_def)
qed

end
