(* ===== verification/Sync_State_V2.thy ===== *)
theory Sync_State_V2
  imports Sync_State_V1
begin

text \<open>
  The runtime synchronisation state machine, version 2: the contracts of
  \<^verbatim>\<open>packages/contracts/src/sync/runtime-sync-state-v2.ts\<close> and \<^verbatim>\<open>runtime-sync-events-v2.ts\<close>, the
  derivation \<^verbatim>\<open>deriveRuntimeSyncStateV2\<close> and the migration \<^verbatim>\<open>mapV1ToV2Snapshot\<close> of
  \<^verbatim>\<open>packages/sync-engine/src/derive-state-v2.ts\<close>. Unlike version 1 the derivation is total on
  valid inputs; the ledger watermark never falls except by a reset; the migration takes
  well-formed snapshots to well-formed snapshots. Two reachable situations in which the machine
  forgets why it stopped are shown as theorems.
\<close>

subsection \<open>Contracts\<close>

datatype sync_state_v2 =
  Initial_Sync | Online_Synced | Online_Dirty | Syncing | Offline_Queueing | Offline_Readonly
| Conflict_Inbox | Degraded_Remote | Reauth_Required | Recovery_Required | Local_Only

record sync_snapshot_v2 =
  v2_state :: sync_state_v2
  v2_tenant :: string
  v2_runtime :: string
  v2_network_online :: bool
  v2_auth_valid :: bool
  v2_remote_reachable :: bool
  v2_local_writable :: bool
  v2_pending_push :: int
  v2_pending_pull :: int
  v2_conflict_count :: int
  v2_active_run :: "string option"
  v2_last_synced :: "int option"
  v2_watermark :: int
  v2_last_error_code :: "string option"

datatype sync_event_body_v2 =
  BootstrapRequired
| BootstrapCompleted int
| LocalChanged int
| Started2 string
| Completed2 int
| NetworkOffline2 bool
| NetworkOnline2
| ConflictDetected2 int
| ConflictResolved2 int
| AuthExpired
| AuthRestored
| RemoteDegraded string
| RecoveryRequired2 string
| Reset2

datatype sync_event_v2 = SyncEventV2 (occurred_at2: int) (event_body2: sync_event_body_v2)

definition valid_snapshot_v2 :: "sync_snapshot_v2 \<Rightarrow> bool" where
  "valid_snapshot_v2 s \<longleftrightarrow>
     v2_tenant s \<noteq> [] \<and> v2_runtime s \<noteq> [] \<and>
     zod_int_min 0 (v2_pending_push s) \<and> zod_int_min 0 (v2_pending_pull s) \<and>
     zod_int_min 0 (v2_conflict_count s) \<and>
     opt_all (\<lambda>c. c \<noteq> []) (v2_active_run s) \<and>
     opt_all (zod_int_min 0) (v2_last_synced s) \<and> zod_int_min 0 (v2_watermark s) \<and>
     opt_all (\<lambda>c. c \<noteq> []) (v2_last_error_code s)"

definition parse_snapshot_v2 :: "sync_snapshot_v2 \<Rightarrow> zod_error + sync_snapshot_v2" where
  "parse_snapshot_v2 s = (if valid_snapshot_v2 s then Inr s else Inl ZodError)"

fun valid_body_v2 :: "sync_event_body_v2 \<Rightarrow> bool" where
  "valid_body_v2 (BootstrapCompleted v) = zod_int_min 0 v"
| "valid_body_v2 (LocalChanged n) = zod_int_min 0 n"
| "valid_body_v2 (Started2 run) = (run \<noteq> [])"
| "valid_body_v2 (Completed2 v) = zod_int_min 0 v"
| "valid_body_v2 (ConflictDetected2 n) = zod_int_min 1 n"
| "valid_body_v2 (ConflictResolved2 n) = zod_int_min 0 n"
| "valid_body_v2 (RemoteDegraded code) = (code \<noteq> [])"
| "valid_body_v2 (RecoveryRequired2 code) = (code \<noteq> [])"
| "valid_body_v2 _ = True"

definition parse_event_v2 :: "sync_event_v2 \<Rightarrow> zod_error + sync_event_v2" where
  "parse_event_v2 e =
     (if zod_int_min 0 (occurred_at2 e) \<and> valid_body_v2 (event_body2 e) then Inr e
      else Inl ZodError)"

subsection \<open>The derivation\<close>

definition online_states :: "sync_state_v2 list" where
  "online_states =
     [Online_Synced, Online_Dirty, Syncing, Conflict_Inbox, Degraded_Remote, Reauth_Required]"

definition finalize_v2 :: "sync_snapshot_v2 \<Rightarrow> zod_error + sync_snapshot_v2" where
  "finalize_v2 d = parse_snapshot_v2 d"

definition dirty_or_synced :: "sync_snapshot_v2 \<Rightarrow> sync_state_v2" where
  "dirty_or_synced s = (if v2_pending_push s > 0 then Online_Dirty else Online_Synced)"

fun draft_v2 :: "sync_snapshot_v2 \<Rightarrow> sync_event_body_v2 \<Rightarrow> sync_snapshot_v2" where
  "draft_v2 s BootstrapRequired = s"
| "draft_v2 s (BootstrapCompleted v) =
     (if v2_state s \<noteq> Initial_Sync then s
      else s\<lparr>v2_state := Online_Synced, v2_network_online := True, v2_remote_reachable := True,
             v2_pending_pull := 0, v2_pending_push := 0, v2_conflict_count := 0,
             v2_active_run := None, v2_last_synced := Some v,
             v2_watermark := max (v2_watermark s) v, v2_last_error_code := None\<rparr>)"
| "draft_v2 s (LocalChanged n) =
     (if v2_state s \<noteq> Online_Synced \<or> n \<le> 0 then s
      else s\<lparr>v2_state := Online_Dirty, v2_pending_push := n\<rparr>)"
| "draft_v2 s (Started2 run) =
     (if v2_state s \<noteq> Online_Dirty \<and> v2_state s \<noteq> Degraded_Remote then s
      else s\<lparr>v2_state := Syncing, v2_active_run := Some run, v2_network_online := True,
             v2_remote_reachable := True, v2_last_error_code := None\<rparr>)"
| "draft_v2 s (Completed2 v) =
     (if v2_state s \<noteq> Syncing \<or> v2_conflict_count s > 0 then s
      else s\<lparr>v2_state := Online_Synced, v2_pending_pull := 0, v2_pending_push := 0,
             v2_conflict_count := 0, v2_active_run := None, v2_last_synced := Some v,
             v2_watermark := max (v2_watermark s) v, v2_last_error_code := None\<rparr>)"
| "draft_v2 s (NetworkOffline2 queue) =
     (if v2_state s \<notin> set online_states \<and> v2_state s \<noteq> Initial_Sync then s
      else s\<lparr>v2_state := (if v2_local_writable s \<and> queue then Offline_Queueing
                          else Offline_Readonly),
             v2_network_online := False, v2_remote_reachable := False, v2_active_run := None\<rparr>)"
| "draft_v2 s NetworkOnline2 =
     (if v2_state s = Offline_Queueing then
        s\<lparr>v2_state := dirty_or_synced s, v2_network_online := True, v2_remote_reachable := True,
          v2_last_error_code := None\<rparr>
      else if v2_state s = Offline_Readonly then
        s\<lparr>v2_state := Online_Synced, v2_network_online := True, v2_remote_reachable := True,
          v2_last_error_code := None\<rparr>
      else s)"
| "draft_v2 s (ConflictDetected2 n) =
     (if v2_state s \<noteq> Syncing then s
      else s\<lparr>v2_state := Conflict_Inbox, v2_conflict_count := n\<rparr>)"
| "draft_v2 s (ConflictResolved2 remaining) =
     (if v2_state s \<noteq> Conflict_Inbox \<or> remaining \<noteq> 0 then s
      else s\<lparr>v2_state := dirty_or_synced s, v2_conflict_count := 0, v2_active_run := None\<rparr>)"
| "draft_v2 s AuthExpired =
     (if v2_state s \<noteq> Syncing then s
      else s\<lparr>v2_state := Reauth_Required, v2_auth_valid := False, v2_active_run := None\<rparr>)"
| "draft_v2 s AuthRestored =
     (if v2_state s \<noteq> Reauth_Required then s
      else s\<lparr>v2_state := dirty_or_synced s, v2_auth_valid := True, v2_last_error_code := None\<rparr>)"
| "draft_v2 s (RemoteDegraded code) =
     (if v2_state s \<noteq> Syncing then s
      else s\<lparr>v2_state := Degraded_Remote, v2_remote_reachable := False, v2_active_run := None,
             v2_last_error_code := Some code\<rparr>)"
| "draft_v2 s (RecoveryRequired2 code) =
     (if v2_state s \<noteq> Syncing then s
      else s\<lparr>v2_state := Recovery_Required, v2_active_run := None,
             v2_last_error_code := Some code\<rparr>)"
| "draft_v2 s Reset2 =
     (if v2_state s \<noteq> Recovery_Required then s
      else s\<lparr>v2_state := Initial_Sync, v2_pending_pull := 0, v2_pending_push := 0,
             v2_conflict_count := 0, v2_active_run := None, v2_last_synced := None,
             v2_watermark := 0, v2_last_error_code := None\<rparr>)"

definition derive_runtime_sync_state_v2 ::
  "sync_snapshot_v2 \<Rightarrow> sync_event_v2 \<Rightarrow> zod_error + sync_snapshot_v2" where
  "derive_runtime_sync_state_v2 s e =
     (case parse_snapshot_v2 s of Inl x \<Rightarrow> Inl x
      | Inr current \<Rightarrow> (case parse_event_v2 e of Inl x \<Rightarrow> Inl x
          | Inr ev \<Rightarrow> finalize_v2 (draft_v2 current (event_body2 ev))))"

definition sync_step_v2 :: "sync_snapshot_v2 \<Rightarrow> sync_event_v2 \<Rightarrow> sync_snapshot_v2" where
  "sync_step_v2 s e = (case derive_runtime_sync_state_v2 s e of Inl _ \<Rightarrow> s | Inr s' \<Rightarrow> s')"

subsection \<open>Migration from version 1\<close>

fun map_v1_state :: "sync_state_v1 \<Rightarrow> int \<Rightarrow> sync_state_v2" where
  "map_v1_state Idle pending = Online_Synced"
| "map_v1_state Pulling pending = Syncing"
| "map_v1_state Merging pending = Syncing"
| "map_v1_state Pushing pending = Syncing"
| "map_v1_state Offline pending = (if pending > 0 then Offline_Queueing else Offline_Readonly)"
| "map_v1_state Conflicted pending = Conflict_Inbox"
| "map_v1_state ErrorState pending = Degraded_Remote"
| "map_v1_state Unconfigured pending = Initial_Sync"
| "map_v1_state Disabled pending = Initial_Sync"
| "map_v1_state Paused pending = Initial_Sync"

definition v1_as_v2 :: "sync_snapshot_v1 \<Rightarrow> sync_snapshot_v2" where
  "v1_as_v2 s =
     \<lparr> v2_state = map_v1_state (v1_state s) (v1_pending_push s),
       v2_tenant = ''legacy-tenant'', v2_runtime = ''legacy-runtime'',
       v2_network_online = v1_network_online s,
       v2_auth_valid = (v1_state s \<noteq> Disabled \<and> v1_state s \<noteq> Unconfigured),
       v2_remote_reachable = (v1_network_online s \<and> v1_state s \<noteq> ErrorState),
       v2_local_writable = (v1_state s \<noteq> Disabled \<and> v1_state s \<noteq> Unconfigured),
       v2_pending_push = v1_pending_push s, v2_pending_pull = v1_pending_pull s,
       v2_conflict_count = v1_conflict_count s, v2_active_run = v1_active_run s,
       v2_last_synced = None, v2_watermark = 0, v2_last_error_code = v1_last_error_code s \<rparr>"

definition map_v1_to_v2_snapshot :: "sync_snapshot_v1 \<Rightarrow> zod_error + sync_snapshot_v2" where
  "map_v1_to_v2_snapshot s = parse_snapshot_v2 (v1_as_v2 s)"

subsection \<open>Well-formed snapshots\<close>

definition network_matches_v2 :: "sync_snapshot_v2 \<Rightarrow> bool" where
  "network_matches_v2 s \<longleftrightarrow>
     (v2_state s \<in> {Offline_Queueing, Offline_Readonly} \<longrightarrow>
        \<not> v2_network_online s \<and> \<not> v2_remote_reachable s) \<and>
     (v2_state s = Offline_Queueing \<longrightarrow> v2_local_writable s) \<and>
     (v2_state s = Syncing \<longrightarrow>
        v2_network_online s \<and> v2_remote_reachable s \<and> v2_active_run s \<noteq> None) \<and>
     (v2_state s = Degraded_Remote \<longrightarrow> \<not> v2_remote_reachable s)"

definition reason_matches_v2 :: "sync_snapshot_v2 \<Rightarrow> bool" where
  "reason_matches_v2 s \<longleftrightarrow>
     (v2_state s = Conflict_Inbox \<longrightarrow> 0 < v2_conflict_count s) \<and>
     (v2_state s = Online_Dirty \<longrightarrow> 0 < v2_pending_push s) \<and>
     (v2_state s = Reauth_Required \<longrightarrow> \<not> v2_auth_valid s) \<and>
     (v2_state s \<in> {Degraded_Remote, Recovery_Required} \<longrightarrow> v2_last_error_code s \<noteq> None)"

definition ledger_matches_v2 :: "sync_snapshot_v2 \<Rightarrow> bool" where
  "ledger_matches_v2 s \<longleftrightarrow> opt_all (\<lambda>v. v \<le> v2_watermark s) (v2_last_synced s)"

definition wf_snapshot_v2 :: "sync_snapshot_v2 \<Rightarrow> bool" where
  "wf_snapshot_v2 s \<longleftrightarrow> valid_snapshot_v2 s \<and> network_matches_v2 s \<and> reason_matches_v2 s \<and>
     ledger_matches_v2 s"

lemmas wf_v2_defs = network_matches_v2_def reason_matches_v2_def ledger_matches_v2_def

lemma derive_v2_Inr:
  "derive_runtime_sync_state_v2 s e = Inr s' \<longleftrightarrow>
     valid_snapshot_v2 s \<and> zod_int_min 0 (occurred_at2 e) \<and> valid_body_v2 (event_body2 e) \<and>
     valid_snapshot_v2 (draft_v2 s (event_body2 e)) \<and> s' = draft_v2 s (event_body2 e)"
  by (auto simp: derive_runtime_sync_state_v2_def parse_snapshot_v2_def parse_event_v2_def
      finalize_v2_def)

lemma draft_v2_valid: "valid_snapshot_v2 s \<Longrightarrow> valid_body_v2 b \<Longrightarrow> valid_snapshot_v2 (draft_v2 s b)"
  by (cases b) (auto simp: valid_snapshot_v2_def zod_int_min_def max_safe_integer_def)

lemma draft_v2_network: "network_matches_v2 s \<Longrightarrow> network_matches_v2 (draft_v2 s b)"
  by (cases b) (auto simp: network_matches_v2_def dirty_or_synced_def)

lemma draft_v2_reason:
  "valid_body_v2 b \<Longrightarrow> reason_matches_v2 s \<Longrightarrow> reason_matches_v2 (draft_v2 s b)"
  by (cases b) (auto simp: reason_matches_v2_def dirty_or_synced_def zod_int_min_def)

lemma draft_v2_ledger: "ledger_matches_v2 s \<Longrightarrow> ledger_matches_v2 (draft_v2 s b)"
  by (cases b) (auto simp: ledger_matches_v2_def)

lemma sync_step_v2_cases:
  "sync_step_v2 s e =
     (if valid_snapshot_v2 s \<and> zod_int_min 0 (occurred_at2 e) \<and> valid_body_v2 (event_body2 e)
      then draft_v2 s (event_body2 e) else s)"
  by (simp add: sync_step_v2_def derive_runtime_sync_state_v2_def parse_snapshot_v2_def
      parse_event_v2_def finalize_v2_def draft_v2_valid)

lemma sync_step_v2_wf: "wf_snapshot_v2 s \<Longrightarrow> wf_snapshot_v2 (sync_step_v2 s e)"
  by (auto simp: sync_step_v2_cases wf_snapshot_v2_def
      intro: draft_v2_valid draft_v2_network draft_v2_reason draft_v2_ledger)

lemma draft_v2_watermark: "b \<noteq> Reset2 \<Longrightarrow> v2_watermark s \<le> v2_watermark (draft_v2 s b)"
  by (cases b) auto

interpretation sync_v2: ranked_machine sync_step_v2 wf_snapshot_v2 v2_watermark
  "\<lambda>e. event_body2 e \<noteq> Reset2"
  by unfold_locales (erule sync_step_v2_wf, simp add: sync_step_v2_cases draft_v2_watermark)

definition initial_snapshot_v2 :: "string \<Rightarrow> string \<Rightarrow> bool \<Rightarrow> sync_snapshot_v2" where
  "initial_snapshot_v2 tenant runtime writable =
     \<lparr> v2_state = Initial_Sync, v2_tenant = tenant, v2_runtime = runtime,
       v2_network_online = False, v2_auth_valid = True, v2_remote_reachable = False,
       v2_local_writable = writable, v2_pending_push = 0, v2_pending_pull = 0,
       v2_conflict_count = 0, v2_active_run = None, v2_last_synced = None, v2_watermark = 0,
       v2_last_error_code = None \<rparr>"

lemma initial_v2_wf: "t \<noteq> [] \<Longrightarrow> r \<noteq> [] \<Longrightarrow> wf_snapshot_v2 (initial_snapshot_v2 t r w)"
  by (simp add: wf_snapshot_v2_def wf_v2_defs initial_snapshot_v2_def valid_snapshot_v2_def)


subsection \<open>Properties\<close>

lemma v1_as_v2_wf:
  assumes "wf_snapshot_v1 s"
  shows "wf_snapshot_v2 (v1_as_v2 s)"
proof -
  from assms have v: "valid_snapshot_v1 s" and m: "enabled_matches s" "network_matches s" "round_matches s"
    by (auto simp: wf_snapshot_v1_def)
  from v have "valid_snapshot_v2 (v1_as_v2 s)"
    by (auto simp: valid_snapshot_v1_def valid_snapshot_v2_def v1_as_v2_def)
  with m show ?thesis
    by (cases "v1_state s")
       (auto simp: wf_snapshot_v2_def wf_v2_defs wf_v1_defs v1_as_v2_def)
qed

text \<open>
  C36: migrating any well-formed version 1 snapshot succeeds and gives a well-formed version 2
  snapshot that keeps the counters, the run and the network flag.
\<close>

theorem v1_to_v2_migration:
  assumes "wf_snapshot_v1 s"
  shows "\<exists>s'. map_v1_to_v2_snapshot s = Inr s' \<and> wf_snapshot_v2 s' \<and>
     v2_pending_push s' = v1_pending_push s \<and> v2_pending_pull s' = v1_pending_pull s \<and>
     v2_conflict_count s' = v1_conflict_count s \<and> v2_active_run s' = v1_active_run s \<and>
     v2_network_online s' = v1_network_online s"
  using v1_as_v2_wf [OF assms]
  by (auto simp: map_v1_to_v2_snapshot_def parse_snapshot_v2_def wf_snapshot_v2_def)
     (simp_all add: v1_as_v2_def)

lemma v1_to_v2_migration_witness:
  "\<exists>s'. map_v1_to_v2_snapshot (initial_snapshot_v1 True) = Inr s' \<and> wf_snapshot_v2 s' \<and>
     v2_pending_push s' = 0"
  using v1_to_v2_migration [OF initial_v1_wf [of True]] by (auto simp: initial_snapshot_v1_def)

text \<open>
  C35: over any run from a well-formed snapshot the machine stays well formed (the last synced
  ledger version never exceeds the watermark, a syncing snapshot is online with a run id, and so
  on), and without a reset event the local watermark never falls.
\<close>

theorem v2_run_wf_and_watermark:
  assumes "wf_snapshot_v2 s"
  shows "wf_snapshot_v2 (foldl sync_step_v2 s es) \<and>
     (list_all (\<lambda>e. event_body2 e \<noteq> Reset2) es \<longrightarrow>
        v2_watermark s \<le> v2_watermark (foldl sync_step_v2 s es))"
  using sync_v2.run_invar [OF assms] sync_v2.run_rank [OF assms] by blast

lemma v2_run_wf_and_watermark_witness:
  "v2_watermark (initial_snapshot_v2 ''t'' ''r'' True) \<le>
     v2_watermark (foldl sync_step_v2 (initial_snapshot_v2 ''t'' ''r'' True)
       [SyncEventV2 1 (BootstrapCompleted 4), SyncEventV2 2 (LocalChanged 1)])"
  using v2_run_wf_and_watermark [OF initial_v2_wf [of "''t''" "''r''" True],
      of "[SyncEventV2 1 (BootstrapCompleted 4), SyncEventV2 2 (LocalChanged 1)]"]
  by simp

text \<open>
  The events of a run in which the network drops while conflicts wait in the inbox, and the
  events of one in which it drops while the credentials have expired.
\<close>

definition dropped_conflict_run :: "sync_event_body_v2 list" where
  "dropped_conflict_run =
     [BootstrapCompleted 1, LocalChanged 1, Started2 ''a'', ConflictDetected2 1,
      NetworkOffline2 True, NetworkOnline2, Started2 ''b'']"

definition dropped_auth_run :: "sync_event_body_v2 list" where
  "dropped_auth_run =
     [BootstrapCompleted 1, LocalChanged 1, Started2 ''a'', AuthExpired,
      NetworkOffline2 False, NetworkOnline2]"

text \<open>
  when the network drops while conflicts are in the inbox, the machine returns online with
  the conflict count still set; the next round then ignores every completion event.
\<close>

theorem v2_stale_conflict_blocks_completion:
  "let s = foldl sync_step_v2 (initial_snapshot_v2 ''t'' ''r'' True)
             (map (SyncEventV2 0) dropped_conflict_run)
   in v2_state s = Syncing \<and> v2_conflict_count s = 1 \<and>
      (\<forall>t v. sync_step_v2 s (SyncEventV2 t (Completed2 v)) = s)"
  by (simp add: dropped_conflict_run_def initial_snapshot_v2_def sync_step_v2_cases
      valid_snapshot_v2_def zod_int_min_def max_safe_integer_def online_states_def
      dirty_or_synced_def)

text \<open>
  when the network drops while re-authentication is required, the machine comes back as
  synced with invalid credentials, and a restored-credentials event is ignored from there.
\<close>

theorem v2_reauth_forgotten:
  "let s = foldl sync_step_v2 (initial_snapshot_v2 ''t'' ''r'' True)
             (map (SyncEventV2 0) dropped_auth_run)
   in v2_state s = Online_Synced \<and> \<not> v2_auth_valid s \<and>
      (\<forall>t. sync_step_v2 s (SyncEventV2 t AuthRestored) = s)"
  by (simp add: dropped_auth_run_def initial_snapshot_v2_def sync_step_v2_cases
      valid_snapshot_v2_def zod_int_min_def max_safe_integer_def online_states_def
      dirty_or_synced_def)

end
