(* ===== verification/Circuit_Breaker.thy ===== *)
theory Circuit_Breaker
  imports Prelude
begin

text \<open>
  The circuit breaker: the pure snapshot functions of \<^verbatim>\<open>packages/kernel/src/domain/circuit-breaker.ts\<close>
  and the class of \<^verbatim>\<open>src/server/plugins/circuit-breaker.ts\<close> that threads a snapshot through
  them. Calls of the class are asynchronous, so besides the sequential \<open>cb_execute\<close> the class is
  a step function over the events a snapshot sees (a call arriving, a call settling, a state query,
  a reset) in any interleaving.
\<close>

subsection \<open>Snapshots and the pure functions\<close>

datatype circuit_state = Closed | Open | Half_Open

record circuit_options =
  failure_threshold :: int
  reset_timeout :: millis
  half_open_max :: int
  execution_timeout :: millis

record circuit_snapshot =
  circuit :: circuit_state
  consecutive_failures :: int
  last_failure_time :: millis
  half_open_requests :: int

definition default_circuit_options :: circuit_options where
  "default_circuit_options =
     \<lparr> failure_threshold = 5, reset_timeout = 30000, half_open_max = 1, execution_timeout = 30000 \<rparr>"

definition initial_circuit :: circuit_snapshot where
  "initial_circuit =
     \<lparr> circuit = Closed, consecutive_failures = 0, last_failure_time = 0, half_open_requests = 0 \<rparr>"

definition evaluate_circuit_state ::
  "circuit_snapshot \<Rightarrow> circuit_options \<Rightarrow> millis \<Rightarrow> circuit_snapshot" where
  "evaluate_circuit_state s opts now =
     (if circuit s = Open then
        (if now - last_failure_time s \<ge> reset_timeout opts
         then s\<lparr>circuit := Half_Open, half_open_requests := 0\<rparr> else s)
      else s)"

definition can_execute :: "circuit_snapshot \<Rightarrow> circuit_options \<Rightarrow> bool" where
  "can_execute s opts =
     (if circuit s = Open then False
      else if circuit s = Half_Open \<and> half_open_requests s \<ge> half_open_max opts then False
      else True)"

definition record_half_open_attempt :: "circuit_snapshot \<Rightarrow> circuit_snapshot" where
  "record_half_open_attempt s =
     (if circuit s = Half_Open then s\<lparr>half_open_requests := half_open_requests s + 1\<rparr> else s)"

definition record_success :: "circuit_snapshot \<Rightarrow> circuit_snapshot" where
  "record_success s =
     (if circuit s = Half_Open
      then s\<lparr>circuit := Closed, consecutive_failures := 0, half_open_requests := 0\<rparr>
      else s\<lparr>consecutive_failures := 0\<rparr>)"

definition record_failure ::
  "circuit_snapshot \<Rightarrow> circuit_options \<Rightarrow> millis \<Rightarrow> circuit_snapshot" where
  "record_failure s opts now =
     (let n = consecutive_failures s + 1 in
      if circuit s = Half_Open
      then s\<lparr>circuit := Open, consecutive_failures := n, last_failure_time := now\<rparr>
      else s\<lparr>circuit := (if n \<ge> failure_threshold opts then Open else circuit s),
             consecutive_failures := n, last_failure_time := now\<rparr>)"

subsection \<open>The class\<close>

text \<open>
  \<open>cb_admit\<close> is the part of \<^verbatim>\<open>execute\<close> before the operation runs: the snapshot is evaluated, the
  call is refused or counted as a probe. \<open>cb_settle\<close> is the part after it.
\<close>

definition cb_admit ::
  "circuit_options \<Rightarrow> circuit_snapshot \<Rightarrow> millis \<Rightarrow> circuit_snapshot \<times> bool" where
  "cb_admit opts s now =
     (let s1 = evaluate_circuit_state s opts now in
      if can_execute s1 opts then (record_half_open_attempt s1, True) else (s1, False))"

definition cb_settle ::
  "circuit_options \<Rightarrow> circuit_snapshot \<Rightarrow> bool \<Rightarrow> millis \<Rightarrow> circuit_snapshot" where
  "cb_settle opts s ok now = (if ok then record_success s else record_failure s opts now)"

datatype circuit_event =
  Cb_Call millis | Cb_Success | Cb_Failure millis | Cb_Get_State millis | Cb_Reset

fun cb_step :: "circuit_options \<Rightarrow> circuit_snapshot \<Rightarrow> circuit_event \<Rightarrow> circuit_snapshot" where
  "cb_step opts s (Cb_Call now) = fst (cb_admit opts s now)"
| "cb_step opts s Cb_Success = cb_settle opts s True 0"
| "cb_step opts s (Cb_Failure now) = cb_settle opts s False now"
| "cb_step opts s (Cb_Get_State now) = evaluate_circuit_state s opts now"
| "cb_step opts s Cb_Reset = initial_circuit"

text \<open>
  \<^verbatim>\<open>execute\<close> with no other call in between. The operation returns, throws, or does not settle
  before the execution timeout; without a timeout the last case never returns.
\<close>

datatype 'a operation = Op_Returns 'a | Op_Throws string | Op_Hangs

datatype 'a exec_result = Exec_Value 'a | Exec_Open | Exec_Timeout | Exec_Error string

definition cb_execute ::
  "circuit_options \<Rightarrow> circuit_snapshot \<Rightarrow> millis \<Rightarrow> 'a operation \<Rightarrow> millis \<Rightarrow>
   (circuit_snapshot \<times> 'a exec_result) option" where
  "cb_execute opts s now fn settled_at =
     (case cb_admit opts s now of
        (s1, False) \<Rightarrow> Some (s1, Exec_Open)
      | (s1, True) \<Rightarrow>
          (case fn of
             Op_Returns v \<Rightarrow> Some (cb_settle opts s1 True settled_at, Exec_Value v)
           | Op_Throws e \<Rightarrow> Some (cb_settle opts s1 False settled_at, Exec_Error e)
           | Op_Hangs \<Rightarrow>
               (if execution_timeout opts > 0
                then Some (cb_settle opts s1 False settled_at, Exec_Timeout) else None)))"

lemmas circuit_defs =
  evaluate_circuit_state_def can_execute_def record_half_open_attempt_def record_success_def
  record_failure_def cb_admit_def cb_settle_def Let_def

subsection \<open>Invariant\<close>

text \<open>
  A closed breaker has fewer consecutive failures than the threshold, and a half-open one has let
  through at most the configured number of probes.
\<close>

definition circuit_ok :: "circuit_options \<Rightarrow> circuit_snapshot \<Rightarrow> bool" where
  "circuit_ok opts s \<longleftrightarrow>
     0 \<le> consecutive_failures s \<and>
     (circuit s = Closed \<longrightarrow> consecutive_failures s < failure_threshold opts) \<and>
     (circuit s = Half_Open \<longrightarrow>
        0 \<le> half_open_requests s \<and> half_open_requests s \<le> half_open_max opts)"

definition valid_options :: "circuit_options \<Rightarrow> bool" where
  "valid_options opts \<longleftrightarrow> 1 \<le> failure_threshold opts \<and> 0 \<le> half_open_max opts"

lemma cb_step_ok: "valid_options opts \<Longrightarrow> circuit_ok opts s \<Longrightarrow> circuit_ok opts (cb_step opts s e)"
  by (cases e) (auto simp: circuit_defs circuit_ok_def valid_options_def initial_circuit_def)

lemma initial_circuit_ok: "valid_options opts \<Longrightarrow> circuit_ok opts initial_circuit"
  by (simp add: circuit_ok_def valid_options_def initial_circuit_def)

interpretation breaker: invariant_machine "cb_step opts"
  "\<lambda>s. valid_options opts \<longrightarrow> circuit_ok opts s" for opts
  by unfold_locales (blast intro: cb_step_ok)

text \<open>Failures in a row: the counter adds up and the circuit opens at the threshold.\<close>

lemma failures_run:
  assumes "circuit s = Closed"
  shows "let s' = foldl (cb_step opts) s (map Cb_Failure ts) in
     consecutive_failures s' = consecutive_failures s + int (length ts) \<and>
     circuit s' = (if ts \<noteq> [] \<and> consecutive_failures s + int (length ts) \<ge> failure_threshold opts
                   then Open else Closed) \<and>
     last_failure_time s' = (if ts = [] then last_failure_time s else last ts)"
  using assms
proof (induction ts rule: rev_induct)
  case (snoc t ts)
  then show ?case by (auto simp: circuit_defs split: if_splits)
qed (simp add: Let_def)

lemma open_admits_iff:
  assumes "circuit s = Open"
  shows "snd (cb_admit opts s now) \<longleftrightarrow>
           now - last_failure_time s \<ge> reset_timeout opts \<and> 0 < half_open_max opts"
  using assms by (auto simp: circuit_defs)

subsection \<open>Properties\<close>

text \<open>
  under any interleaving of calls, settlements, queries and resets, a closed breaker has seen
  fewer consecutive failures than the threshold and a half-open one has admitted at most the
  configured number of probes.
\<close>

theorem circuit_reachable_ok:
  assumes "valid_options opts"
  shows "circuit_ok opts (foldl (cb_step opts) initial_circuit es)"
  using breaker.run_invar [of opts initial_circuit es] initial_circuit_ok assms by blast

lemma circuit_reachable_ok_witness:
  "circuit_ok default_circuit_options
     (foldl (cb_step default_circuit_options) initial_circuit
        (map Cb_Failure [1, 2, 3, 4, 5] @ [Cb_Call 40000]))"
  by (rule circuit_reachable_ok) (simp add: valid_options_def default_circuit_options_def)

text \<open>
  once a fresh breaker has recorded at least the threshold of failures in a row it refuses
  every call until the reset timeout has passed since the last of them, and from then on it admits
  a probe; the probe's success closes it and its failure opens it for another full timeout.
\<close>

theorem tripped_breaker:
  assumes "1 \<le> failure_threshold opts" and "1 \<le> half_open_max opts"
    and "failure_threshold opts \<le> int (length ts)"
  defines "s \<equiv> foldl (cb_step opts) initial_circuit (map Cb_Failure ts)"
  shows "(snd (cb_admit opts s now) \<longleftrightarrow> last ts + reset_timeout opts \<le> now) \<and>
     (last ts + reset_timeout opts \<le> now \<longrightarrow>
        circuit (cb_settle opts (fst (cb_admit opts s now)) True t) = Closed \<and>
        circuit (cb_settle opts (fst (cb_admit opts s now)) False t) = Open \<and>
        last_failure_time (cb_settle opts (fst (cb_admit opts s now)) False t) = t)"
proof -
  from assms(1,3) have "ts \<noteq> []" by auto
  then have s: "circuit s = Open" "last_failure_time s = last ts"
    using failures_run [of initial_circuit opts ts] assms
    by (simp_all add: initial_circuit_def Let_def)
  show ?thesis using s assms(2) by (auto simp: circuit_defs)
qed

lemma tripped_breaker_witness:
  "\<not> snd (cb_admit default_circuit_options
      (foldl (cb_step default_circuit_options) initial_circuit (map Cb_Failure [1, 2, 3, 4, 5])) 29000)"
  using tripped_breaker [of default_circuit_options "[1, 2, 3, 4, 5]" 29000]
  by (simp add: default_circuit_options_def)

end
