(* ===== verification/Js_Values.thy ===== *)
theory Js_Values
  imports Complex_Main Prelude
begin

text \<open>
  JavaScript values the model needs: JSON trees (the values \<^verbatim>\<open>JSON.parse\<close> returns; a column that
  holds JSON text is an optional tree, absent when the text does not parse), property lookup, and
  \<^verbatim>\<open>String.prototype.trim\<close>.
\<close>

datatype json =
  JNull | JBool bool | JNum rat | JStr string | JArr "json list" | JObj "(string \<times> json) list"

text \<open>\<^verbatim>\<open>o[k]\<close>; \<open>None\<close> is undefined.\<close>

fun js_get :: "json \<Rightarrow> string \<Rightarrow> json option" where
  "js_get (JObj ps) k = map_of ps k"
| "js_get _ k = None"

text \<open>\<^verbatim>\<open>Number.isInteger\<close> on a finite number.\<close>

definition js_is_integer :: "rat \<Rightarrow> bool" where
  "js_is_integer x \<longleftrightarrow> x = of_int \<lfloor>x\<rfloor>"

lemma js_is_integer_of_int [simp]: "js_is_integer (of_int n)"
  by (simp add: js_is_integer_def)

definition js_space :: "char \<Rightarrow> bool" where
  "js_space c \<longleftrightarrow> c \<in> set [CHR '' '', CHR 0x09, CHR 0x0A, CHR 0x0B, CHR 0x0C, CHR 0x0D]"

definition js_trim :: "string \<Rightarrow> string" where
  "js_trim s = rev (dropWhile js_space (rev (dropWhile js_space s)))"

lemma js_trim_Nil [simp]: "js_trim [] = []"
  by (simp add: js_trim_def)

lemma js_trim_blank_iff: "js_trim s = [] \<longleftrightarrow> (\<forall>c \<in> set s. js_space c)"
  by (auto simp: js_trim_def dropWhile_eq_Nil_conv dest: set_dropWhileD)
     (metis dropWhile_eq_Cons_conv dropWhile_eq_Nil_conv list.exhaust list.set_intros(1))

text \<open>\<^verbatim>\<open>s.slice(0, n)\<close> for a non-negative \<open>n\<close>.\<close>

definition js_prefix :: "nat \<Rightarrow> string \<Rightarrow> string" where
  "js_prefix n s = take n s"

text \<open>\<^verbatim>\<open>Math.round\<close>: ties go up.\<close>

definition js_round :: "rat \<Rightarrow> int" where
  "js_round x = \<lfloor>x + 1 / 2\<rfloor>"

lemma js_round_of_int [simp]: "js_round (of_int n) = n"
  by (simp add: js_round_def floor_unique)

text \<open>\<^verbatim>\<open>s.includes(w)\<close> and \<^verbatim>\<open>s.toLowerCase()\<close> on ASCII text.\<close>

fun js_starts_with :: "string \<Rightarrow> string \<Rightarrow> bool" where
  "js_starts_with [] s = True"
| "js_starts_with (c # w) [] = False"
| "js_starts_with (c # w) (d # s) = (c = d \<and> js_starts_with w s)"

fun js_includes :: "string \<Rightarrow> string \<Rightarrow> bool" where
  "js_includes w [] = (w = [])"
| "js_includes w (d # s) = (js_starts_with w (d # s) \<or> js_includes w s)"

definition js_lower_char :: "char \<Rightarrow> char" where
  "js_lower_char c =
     (if 65 \<le> (of_char c :: nat) \<and> (of_char c :: nat) \<le> 90 then char_of ((of_char c :: nat) + 32) else c)"

definition js_lower :: "string \<Rightarrow> string" where
  "js_lower s = map js_lower_char s"

text \<open>
  \<^verbatim>\<open>if (s)\<close> for an optional string: null, undefined and the empty string are falsy.
\<close>

definition truthy :: "string option \<Rightarrow> bool" where
  "truthy x \<longleftrightarrow> x \<noteq> None \<and> x \<noteq> Some []"

text \<open>The decimal text of an integer in a template literal.\<close>

fun js_nat_text :: "nat \<Rightarrow> string" where
  "js_nat_text n =
     (if n < 10 then [char_of (48 + n)] else js_nat_text (n div 10) @ [char_of (48 + n mod 10)])"

declare js_nat_text.simps [simp del]

definition js_int_text :: "int \<Rightarrow> string" where
  "js_int_text i = (if i < 0 then ''-'' @ js_nat_text (nat (- i)) else js_nat_text (nat i))"

lemma js_nat_text_digits: "c \<in> set (js_nat_text n) \<Longrightarrow> \<exists>k < 10. c = char_of (48 + k :: nat)"
proof (induction n rule: js_nat_text.induct)
  case (1 n)
  show ?case
  proof (cases "n < 10")
    case True
    with 1(2) show ?thesis by (auto simp: js_nat_text.simps [of n])
  next
    case False
    with 1(2) have "c \<in> set (js_nat_text (n div 10)) \<or> c = char_of (48 + n mod 10)"
      using js_nat_text.simps [of n] by (metis UnE set_append empty_iff list.set set_ConsD)
    then show ?thesis
    proof
      assume "c = char_of (48 + n mod 10)"
      moreover have "n mod 10 < 10" by simp
      ultimately show ?thesis by blast
    qed (rule 1(1) [OF False])
  qed
qed

lemma js_digit_inj:
  "a < 10 \<Longrightarrow> b < 10 \<Longrightarrow> (char_of (48 + a :: nat) :: char) = char_of (48 + b) \<Longrightarrow> a = (b :: nat)"
  by (drule arg_cong [where f = "of_char :: char \<Rightarrow> nat"]) simp

lemma js_nat_text_nonempty [simp]: "js_nat_text n \<noteq> []"
  by (simp add: js_nat_text.simps [of n])

lemma js_nat_text_inj: "js_nat_text n = js_nat_text k \<Longrightarrow> n = k"
proof (induction n arbitrary: k rule: js_nat_text.induct)
  case (1 n)
  note eq = 1(2) [unfolded js_nat_text.simps [of n] js_nat_text.simps [of k]]
  show ?case
  proof (cases "n < 10 \<or> k < 10")
    case True
    with eq have "n < 10 \<and> k < 10" by (auto split: if_splits dest: sym)
    with eq show ?thesis by (auto dest: js_digit_inj)
  next
    case False
    with eq have "js_nat_text (n div 10) = js_nat_text (k div 10)"
      and d: "(char_of (48 + n mod 10) :: char) = char_of (48 + k mod 10)" by auto
    then have "n div 10 = k div 10" using 1(1) False by blast
    moreover have "n mod 10 = k mod 10" using d by (intro js_digit_inj) auto
    ultimately show ?thesis by (metis div_mult_mod_eq)
  qed
qed

lemma js_nat_text_no_char:
  "(\<forall>k < 10. c \<noteq> char_of (48 + k :: nat)) \<Longrightarrow> c \<notin> set (js_nat_text n)"
  using js_nat_text_digits by blast

lemma js_digit_code: "k < 10 \<Longrightarrow> of_char (char_of (48 + k :: nat) :: char) = (48 + k :: nat)"
  by simp

lemma js_nat_text_special [simp]:
  "CHR ''-'' \<notin> set (js_nat_text n)" "CHR '':'' \<notin> set (js_nat_text n)"
  by (rule js_nat_text_no_char, intro allI impI notI,
      drule arg_cong [where f = "of_char :: char \<Rightarrow> nat"], simp)+

lemma js_int_text_inj: "js_int_text a = js_int_text b \<Longrightarrow> a = b"
proof -
  assume eq: "js_int_text a = js_int_text b"
  have hd: "\<And>n. hd (js_nat_text n) \<noteq> CHR ''-''"
    by (metis js_nat_text_nonempty js_nat_text_special(1) hd_in_set)
  have m: "\<And>n k. ''-'' @ js_nat_text k \<noteq> js_nat_text n"
    by (metis append_Cons append_Nil hd list.sel(1))
  show ?thesis
  proof (cases "a < 0")
    case True
    with eq m have "b < 0" by (auto simp: js_int_text_def split: if_splits)
    with True eq show ?thesis by (auto simp: js_int_text_def dest: js_nat_text_inj)
  next
    case False
    with eq m [symmetric] have "\<not> b < 0" by (auto simp: js_int_text_def split: if_splits)
    with False eq show ?thesis by (auto simp: js_int_text_def dest: js_nat_text_inj)
  qed
qed

lemma js_int_text_no_colon [simp]: "CHR '':'' \<notin> set (js_int_text i)"
  by (simp add: js_int_text_def)

text \<open>
  \<^verbatim>\<open>JSON.stringify\<close> of a string and of an array of strings: the quotes, the escapes of the standard and
  the separators. A text determines its array.
\<close>

definition js_hex_digit :: "nat \<Rightarrow> char" where
  "js_hex_digit n = (if n < 10 then char_of (48 + n) else char_of (87 + n))"

definition js_escape :: "char \<Rightarrow> string" where
  "js_escape c =
     (if c = CHR 0x22 then [CHR 0x5C, CHR 0x22]
      else if c = CHR 0x5C then [CHR 0x5C, CHR 0x5C]
      else if c = CHR 0x08 then [CHR 0x5C, CHR ''b'']
      else if c = CHR 0x09 then [CHR 0x5C, CHR ''t'']
      else if c = CHR 0x0A then [CHR 0x5C, CHR ''n'']
      else if c = CHR 0x0C then [CHR 0x5C, CHR ''f'']
      else if c = CHR 0x0D then [CHR 0x5C, CHR ''r'']
      else if (of_char c :: nat) < 32 then
        [CHR 0x5C, CHR ''u'', CHR ''0'', CHR ''0'',
         js_hex_digit (of_char c div 16), js_hex_digit (of_char c mod 16)]
      else [c])"

definition js_string_text :: "string \<Rightarrow> string" where
  "js_string_text s = CHR 0x22 # concat (map js_escape s) @ [CHR 0x22]"

fun js_join :: "string \<Rightarrow> string list \<Rightarrow> string" where
  "js_join sep [] = []"
| "js_join sep [x] = x"
| "js_join sep (x # y # zs) = x @ sep @ js_join sep (y # zs)"

definition js_string_array_text :: "string list \<Rightarrow> string" where
  "js_string_array_text xs = ''['' @ js_join '','' (map js_string_text xs) @ '']''"

definition js_hex_value :: "char \<Rightarrow> nat" where
  "js_hex_value c = (if (of_char c :: nat) < 58 then of_char c - 48 else of_char c - 87)"

lemma js_hex_value_digit: "n < 16 \<Longrightarrow> js_hex_value (js_hex_digit n) = n"
  by (simp add: js_hex_value_def js_hex_digit_def)

text \<open>Reading the first escaped character back.\<close>

fun js_unescape :: "string \<Rightarrow> char \<times> string" where
  "js_unescape (c # x) =
     (if c \<noteq> CHR 0x5C then (c, x)
      else case x of
        k # y \<Rightarrow>
          if k = CHR ''b'' then (CHR 0x08, y)
          else if k = CHR ''t'' then (CHR 0x09, y)
          else if k = CHR ''n'' then (CHR 0x0A, y)
          else if k = CHR ''f'' then (CHR 0x0C, y)
          else if k = CHR ''r'' then (CHR 0x0D, y)
          else if k = CHR ''u'' then
            (char_of (16 * js_hex_value (y ! 2) + js_hex_value (y ! 3)), drop 4 y)
          else (k, y)
      | [] \<Rightarrow> (c, x))"
| "js_unescape [] = (CHR 0x00, [])"

lemma js_unescape_escape: "js_unescape (js_escape c @ x) = (c, x)"
proof (cases "(of_char c :: nat) < 32")
  case True
  then have "(of_char c :: nat) div 16 < 16" by simp
  then have "(char_of (16 * js_hex_value (js_hex_digit (of_char c div 16))
      + js_hex_value (js_hex_digit (of_char c mod 16))) :: char) = char_of (of_char c :: nat)"
    by (simp add: js_hex_value_digit)
  then show ?thesis by (simp add: js_escape_def True)
qed (simp add: js_escape_def)

lemma js_escape_prefix_code: "js_escape c @ x = js_escape d @ y \<Longrightarrow> c = d \<and> x = y"
  by (metis js_unescape_escape Pair_inject)

lemma js_escape_no_quote: "js_escape c @ x \<noteq> CHR 0x22 # y"
  by (simp add: js_escape_def)

lemma js_string_text_prefix_code:
  "js_string_text s @ x = js_string_text t @ y \<Longrightarrow> s = t \<and> x = y"
proof -
  have "concat (map js_escape s) @ CHR 0x22 # x = concat (map js_escape t) @ CHR 0x22 # y \<Longrightarrow> s = t \<and> x = y"
  proof (induction s arbitrary: t)
    case Nil
    then show ?case by (cases t) (simp_all add: js_escape_no_quote [symmetric])
  next
    case (Cons c s)
    show ?case
    proof (cases t)
      case Nil
      with Cons.prems show ?thesis by (simp add: js_escape_no_quote)
    next
      case (Cons d t')
      with Cons.prems have "js_escape c @ concat (map js_escape s) @ CHR 0x22 # x
          = js_escape d @ concat (map js_escape t') @ CHR 0x22 # y" by simp
      from js_escape_prefix_code [OF this] Cons.IH [of t'] Cons show ?thesis by simp
    qed
  qed
  then show "js_string_text s @ x = js_string_text t @ y \<Longrightarrow> s = t \<and> x = y"
    by (simp add: js_string_text_def)
qed

lemma js_string_text_Cons: "\<exists>u. js_string_text s = CHR 0x22 # u"
  by (simp add: js_string_text_def)

lemma js_join_inj:
  "js_join '','' (map js_string_text xs) @ '']'' = js_join '','' (map js_string_text ys) @ '']'' \<Longrightarrow> xs = ys"
proof (induction xs arbitrary: ys)
  case Nil
  have "js_join '','' (map js_string_text (y # zs)) @ '']'' \<noteq> '']''" for y zs
    using js_string_text_Cons [of y] by (cases zs) auto
  with Nil show ?case by (cases ys) (simp, metis append_Nil js_join.simps(1) list.simps(8))
next
  case (Cons x xs)
  have ne: "js_join '','' (map js_string_text (x # xs)) @ '']'' \<noteq> '']''"
    using js_string_text_Cons [of x] by (cases xs) auto
  with Cons.prems obtain y zs where ys: "ys = y # zs" by (cases ys) auto
  have split: "js_join '','' (map js_string_text (a # as)) @ '']''
      = js_string_text a @ (case as of [] \<Rightarrow> '']'' | _ \<Rightarrow> CHR '','' # js_join '','' (map js_string_text as) @ '']'')"
    for a as by (cases as) simp_all
  from Cons.prems [unfolded ys split]
  have "x = y" and "(case xs of [] \<Rightarrow> '']'' | _ \<Rightarrow> CHR '','' # js_join '','' (map js_string_text xs) @ '']'')
      = (case zs of [] \<Rightarrow> '']'' | _ \<Rightarrow> CHR '','' # js_join '','' (map js_string_text zs) @ '']'')"
    using js_string_text_prefix_code by blast+
  then have "xs = zs" using Cons.IH [of zs] by (cases xs; cases zs) auto
  with \<open>x = y\<close> ys show ?case by simp
qed

lemma js_string_array_text_inj: "js_string_array_text xs = js_string_array_text ys \<longleftrightarrow> xs = ys"
  using js_join_inj [of xs ys] by (auto simp: js_string_array_text_def)

end
