(* ===== verification/Agency_Authorization.thy ===== *)
theory Agency_Authorization
  imports Js_Values
begin

text \<open>
  Agency authorizations, the legal layer above tool permissions: the rows and SQL statements of
  \<^verbatim>\<open>src/storage/executors/tool-permission-executors.ts\<close> for \<^verbatim>\<open>agency_authorizations\<close> and the service
  of \<^verbatim>\<open>src/agent/agency-authorization-service.ts\<close>. A principal's decision depends on that
  principal's own documents only, a document whose tool lists do not parse authorises nothing, and
  a revoked document never becomes active again.
\<close>

subsection \<open>Data\<close>

datatype agency_scope = Communication | Scheduling | Research | Finance | All_Scopes

datatype agency_status = Agency_Active | Agency_Suspended | Agency_Revoked | Agency_Expired

record agency_row =
  ag_id :: ident
  ag_tenant :: ident
  ag_persona :: ident
  ag_principal :: ident
  ag_scope :: agency_scope
  ag_scope_description :: string
  ag_allowed_json :: "json option"
  ag_denied_json :: "json option"
  ag_status :: agency_status
  ag_granted_at :: millis
  ag_expires_at :: "millis option"
  ag_revoked_at :: "millis option"
  ag_revocation_reason :: "string option"
  ag_revocation_key :: string

record agency_authorization =
  auth_id :: ident
  auth_tenant :: ident
  auth_persona :: ident
  auth_principal :: ident
  auth_scope :: agency_scope
  auth_scope_description :: string
  auth_allowed_tools :: "ident list"
  auth_denied_tools :: "ident list"
  auth_corrupted :: bool
  auth_status :: agency_status
  auth_granted_at :: millis
  auth_expires_at :: "millis option"
  auth_revoked_at :: "millis option"
  auth_revocation_reason :: "string option"
  auth_revocation_key :: string

record create_authorization_input =
  cai_tenant :: ident
  cai_persona :: ident
  cai_principal :: ident
  cai_scope :: agency_scope
  cai_description :: string
  cai_allowed :: "ident list option"
  cai_denied :: "ident list option"
  cai_expires_at :: "millis option"

datatype validation_error = Validation_Required

type_synonym agency_table = "agency_row list"

subsection \<open>Reading rows\<close>

fun js_string_of :: "json \<Rightarrow> string option" where
  "js_string_of (JStr s) = Some s"
| "js_string_of _ = None"

definition parse_tool_list :: "json option \<Rightarrow> ident list option" where
  "parse_tool_list col =
     (case col of None \<Rightarrow> None
      | Some (JArr xs) \<Rightarrow> Some (List.map_filter js_string_of xs)
      | Some _ \<Rightarrow> None)"

definition row_to_auth :: "agency_row \<Rightarrow> agency_authorization" where
  "row_to_auth r =
     (let allowed = parse_tool_list (ag_allowed_json r); denied = parse_tool_list (ag_denied_json r) in
      \<lparr> auth_id = ag_id r, auth_tenant = ag_tenant r, auth_persona = ag_persona r,
        auth_principal = ag_principal r, auth_scope = ag_scope r,
        auth_scope_description = ag_scope_description r,
        auth_allowed_tools = or_default allowed [],
        auth_denied_tools = or_default denied [],
        auth_corrupted = (allowed = None \<or> denied = None),
        auth_status = ag_status r, auth_granted_at = ag_granted_at r,
        auth_expires_at = ag_expires_at r, auth_revoked_at = ag_revoked_at r,
        auth_revocation_reason = ag_revocation_reason r,
        auth_revocation_key = ag_revocation_key r \<rparr>)"

text \<open>\<^verbatim>\<open>... ORDER BY granted_at DESC\<close>; the order of rows granted at the same time is the table's.\<close>

definition agauth_query_list_by_persona :: "agency_table \<Rightarrow> ident \<Rightarrow> ident \<Rightarrow> agency_row list" where
  "agauth_query_list_by_persona t tenant persona =
     sort_key (\<lambda>r. - ag_granted_at r) (filter (\<lambda>r. ag_tenant r = tenant \<and> ag_persona r = persona) t)"

definition agauth_query_list_by_principal :: "agency_table \<Rightarrow> ident \<Rightarrow> ident \<Rightarrow> agency_row list" where
  "agauth_query_list_by_principal t tenant signer =
     sort_key (\<lambda>r. - ag_granted_at r)
       (filter (\<lambda>r. ag_tenant r = tenant \<and> ag_principal r = signer) t)"

definition agauth_query_by_id :: "agency_table \<Rightarrow> ident \<Rightarrow> ident \<Rightarrow> agency_row option" where
  "agauth_query_by_id t tenant i = select_one (\<lambda>r. ag_id r = i \<and> ag_tenant r = tenant) t"

definition agauth_query_by_revocation_key :: "agency_table \<Rightarrow> ident \<Rightarrow> string \<Rightarrow> agency_row option" where
  "agauth_query_by_revocation_key t tenant k =
     select_one (\<lambda>r. ag_tenant r = tenant \<and> ag_revocation_key r = k) t"

definition ag_list_by_persona :: "agency_table \<Rightarrow> ident \<Rightarrow> ident \<Rightarrow> agency_authorization list" where
  "ag_list_by_persona t tenant persona =
     map row_to_auth (agauth_query_list_by_persona t tenant persona)"

definition ag_list_by_principal :: "agency_table \<Rightarrow> ident \<Rightarrow> ident \<Rightarrow> agency_authorization list" where
  "ag_list_by_principal t tenant signer =
     map row_to_auth (agauth_query_list_by_principal t tenant signer)"

definition ag_get_by_id :: "agency_table \<Rightarrow> ident \<Rightarrow> ident \<Rightarrow> agency_authorization option" where
  "ag_get_by_id t tenant i =
     map_option row_to_auth (agauth_query_by_id t tenant i)"

definition ag_find_by_key :: "agency_table \<Rightarrow> ident \<Rightarrow> string \<Rightarrow> agency_authorization option" where
  "ag_find_by_key t tenant k =
     map_option row_to_auth (agauth_query_by_revocation_key t tenant k)"

subsection \<open>Commands\<close>

text \<open>
  The generated id and revocation key are arguments: the code draws them from
  \<^verbatim>\<open>crypto.randomUUID\<close> and \<^verbatim>\<open>randomBytes\<close>.
\<close>

definition agauth_cmd_create ::
  "agency_table \<Rightarrow> ident \<Rightarrow> create_authorization_input \<Rightarrow> string \<Rightarrow> ident list \<Rightarrow> ident list \<Rightarrow> string \<Rightarrow>
   millis \<Rightarrow> agency_table" where
  "agauth_cmd_create t i inp description allowed denied k now =
     t @ [
       \<lparr> ag_id = i, ag_tenant = cai_tenant inp, ag_persona = cai_persona inp,
         ag_principal = cai_principal inp, ag_scope = cai_scope inp,
         ag_scope_description = description, ag_allowed_json = Some (JArr (map JStr allowed)),
         ag_denied_json = Some (JArr (map JStr denied)), ag_status = Agency_Active,
         ag_granted_at = now, ag_expires_at = cai_expires_at inp, ag_revoked_at = None,
         ag_revocation_reason = None, ag_revocation_key = k \<rparr>]"

definition agauth_cmd_revoke ::
  "agency_table \<Rightarrow> ident \<Rightarrow> ident \<Rightarrow> string \<Rightarrow> millis \<Rightarrow> agency_table \<times> nat" where
  "agauth_cmd_revoke t i tenant reason now =
     update_where (\<lambda>r. ag_id r = i \<and> ag_tenant r = tenant \<and> ag_revoked_at r = None)
       (\<lambda>r. r\<lparr>ag_status := Agency_Revoked, ag_revoked_at := Some now,
              ag_revocation_reason := Some reason\<rparr>) t"

definition agauth_cmd_suspend :: "agency_table \<Rightarrow> ident \<Rightarrow> ident \<Rightarrow> agency_table \<times> nat" where
  "agauth_cmd_suspend t i tenant =
     update_where (\<lambda>r. ag_id r = i \<and> ag_tenant r = tenant \<and> ag_status r = Agency_Active)
       (\<lambda>r. r\<lparr>ag_status := Agency_Suspended\<rparr>) t"

definition agauth_cmd_resume :: "agency_table \<Rightarrow> ident \<Rightarrow> ident \<Rightarrow> agency_table \<times> nat" where
  "agauth_cmd_resume t i tenant =
     update_where (\<lambda>r. ag_id r = i \<and> ag_tenant r = tenant \<and> ag_status r = Agency_Suspended)
       (\<lambda>r. r\<lparr>ag_status := Agency_Active\<rparr>) t"

definition ag_create ::
  "agency_table \<Rightarrow> create_authorization_input \<Rightarrow> ident \<Rightarrow> string \<Rightarrow> millis \<Rightarrow>
   validation_error + agency_table" where
  "ag_create t inp fresh_id fresh_key now =
     (if js_trim (cai_description inp) = [] then Inl Validation_Required
      else Inr (agauth_cmd_create t fresh_id inp (js_trim (cai_description inp))
             (or_default (cai_allowed inp) []) (or_default (cai_denied inp) []) fresh_key now))"

definition ag_revoke ::
  "agency_table \<Rightarrow> ident \<Rightarrow> ident \<Rightarrow> string \<Rightarrow> millis \<Rightarrow> validation_error + (agency_table \<times> bool)" where
  "ag_revoke t tenant i reason now =
     (if js_trim reason = [] then Inl Validation_Required
      else let (t', n) = agauth_cmd_revoke t i tenant (js_trim reason) now in Inr (t', n > 0))"

definition ag_suspend :: "agency_table \<Rightarrow> ident \<Rightarrow> ident \<Rightarrow> agency_table \<times> bool" where
  "ag_suspend t tenant i = (let (t', n) = agauth_cmd_suspend t i tenant in (t', n > 0))"

definition ag_resume :: "agency_table \<Rightarrow> ident \<Rightarrow> ident \<Rightarrow> agency_table \<times> bool" where
  "ag_resume t tenant i = (let (t', n) = agauth_cmd_resume t i tenant in (t', n > 0))"

subsection \<open>The decision\<close>

definition covers_principal :: "agency_authorization \<Rightarrow> ident option \<Rightarrow> bool" where
  "covers_principal a executing =
     (case executing of None \<Rightarrow> True | Some u \<Rightarrow> auth_principal a = u)"

definition auth_admits :: "agency_authorization \<Rightarrow> ident \<Rightarrow> ident option \<Rightarrow> millis \<Rightarrow> bool" where
  "auth_admits a tool executing now =
     (if auth_status a \<noteq> Agency_Active then False
      else if auth_corrupted a then False
      else if (case auth_expires_at a of None \<Rightarrow> False | Some e \<Rightarrow> e < now) then False
      else if \<not> covers_principal a executing then False
      else if tool \<in> set (auth_denied_tools a) then False
      else if auth_allowed_tools a = [] then True
      else tool \<in> set (auth_allowed_tools a))"

definition is_tool_allowed_for_principal ::
  "agency_table \<Rightarrow> ident \<Rightarrow> ident \<Rightarrow> ident \<Rightarrow> ident option \<Rightarrow> millis \<Rightarrow> bool" where
  "is_tool_allowed_for_principal t tenant persona tool executing now =
     list_ex (\<lambda>a. auth_admits a tool executing now) (ag_list_by_persona t tenant persona)"

lemma is_tool_allowed_iff:
  "is_tool_allowed_for_principal t tenant persona tool executing now \<longleftrightarrow>
     (\<exists>r \<in> set t. ag_tenant r = tenant \<and> ag_persona r = persona \<and>
        auth_admits (row_to_auth r) tool executing now)"
  by (auto simp: is_tool_allowed_for_principal_def ag_list_by_persona_def
      agauth_query_list_by_persona_def list_ex_iff)

lemma auth_admits_principal: "auth_admits (row_to_auth r) tool (Some u) now \<Longrightarrow> ag_principal r = u"
  by (simp add: auth_admits_def covers_principal_def row_to_auth_def Let_def split: if_splits)

subsection \<open>The life of a document\<close>

datatype agency_command =
  Ag_Create create_authorization_input ident string millis
| Ag_Revoke ident ident string millis
| Ag_Suspend ident ident
| Ag_Resume ident ident

fun ag_exec :: "agency_table \<Rightarrow> agency_command \<Rightarrow> agency_table" where
  "ag_exec t (Ag_Create inp i k now) = (case ag_create t inp i k now of Inl _ \<Rightarrow> t | Inr t' \<Rightarrow> t')"
| "ag_exec t (Ag_Revoke tenant i reason now) =
     (case ag_revoke t tenant i reason now of Inl _ \<Rightarrow> t | Inr (t', _) \<Rightarrow> t')"
| "ag_exec t (Ag_Suspend tenant i) = fst (ag_suspend t tenant i)"
| "ag_exec t (Ag_Resume tenant i) = fst (ag_resume t tenant i)"

definition revocation_consistent :: "agency_row \<Rightarrow> bool" where
  "revocation_consistent r \<longleftrightarrow> (ag_status r = Agency_Revoked \<longleftrightarrow> ag_revoked_at r \<noteq> None)"

definition agency_ok :: "agency_table \<Rightarrow> bool" where
  "agency_ok t \<longleftrightarrow> list_all revocation_consistent t"

lemmas ag_command_defs =
  ag_create_def ag_revoke_def ag_suspend_def ag_resume_def agauth_cmd_create_def
  agauth_cmd_revoke_def agauth_cmd_suspend_def agauth_cmd_resume_def update_where_def

lemma ag_exec_ok: "agency_ok t \<Longrightarrow> agency_ok (ag_exec t c)"
  by (cases c)
     (auto simp: agency_ok_def list_all_iff revocation_consistent_def ag_command_defs)

interpretation agency: invariant_machine ag_exec agency_ok
  by unfold_locales (rule ag_exec_ok)

text \<open>A command keeps every revoked row as it is, at its position.\<close>

definition revoked_in :: "agency_row \<Rightarrow> agency_table \<Rightarrow> bool" where
  "revoked_in r t \<longleftrightarrow> r \<in> set t \<and> ag_status r = Agency_Revoked"

lemma ag_exec_keeps_revoked:
  assumes "agency_ok t" and "revoked_in r t"
  shows "revoked_in r (ag_exec t c)"
proof -
  have "ag_revoked_at r \<noteq> None"
    using assms by (auto simp: agency_ok_def list_all_iff revoked_in_def revocation_consistent_def)
  with assms(2) show ?thesis
    by (cases c) (force simp: revoked_in_def ag_command_defs image_iff)+
qed

lemma ag_run_keeps_revoked:
  "agency_ok t \<Longrightarrow> revoked_in r t \<Longrightarrow> revoked_in r (foldl ag_exec t cs)"
  by (induction cs arbitrary: t) (auto intro: ag_exec_keeps_revoked ag_exec_ok)

subsection \<open>Properties\<close>

text \<open>
  no command of another principal changes what a human principal may do: issuing a document
  as somebody else leaves the decision for this principal as it was.
\<close>

theorem other_principals_irrelevant:
  assumes "cai_principal inp \<noteq> u" and "ag_create t inp i k made = Inr t'"
  shows "is_tool_allowed_for_principal t' tenant persona tool (Some u) now =
         is_tool_allowed_for_principal t tenant persona tool (Some u) now"
proof -
  from assms(2) obtain r where t': "t' = t @ [r]" and r: "ag_principal r = cai_principal inp"
    by (auto simp: ag_create_def agauth_cmd_create_def split: if_splits)
  from r assms(1) have "\<not> auth_admits (row_to_auth r) tool (Some u) now"
    using auth_admits_principal by metis
  with t' show ?thesis by (auto simp: is_tool_allowed_iff)
qed

lemma other_principals_irrelevant_witness:
  "\<not> is_tool_allowed_for_principal
      [\<lparr> ag_id = ''b'', ag_tenant = ''t'', ag_persona = ''p'', ag_principal = ''bob'',
         ag_scope = All_Scopes, ag_scope_description = ''d'', ag_allowed_json = Some (JArr []),
         ag_denied_json = Some (JArr []), ag_status = Agency_Active, ag_granted_at = 1,
         ag_expires_at = None, ag_revoked_at = None, ag_revocation_reason = None,
         ag_revocation_key = ''k'' \<rparr>] ''t'' ''p'' ''wire_money'' (Some ''alice'') 2"
  (is "\<not> is_tool_allowed_for_principal ?t _ _ _ _ _")
proof -
  let ?inp = "\<lparr> cai_tenant = ''t'', cai_persona = ''p'', cai_principal = ''bob'',
    cai_scope = All_Scopes, cai_description = ''d'', cai_allowed = None, cai_denied = None,
    cai_expires_at = None \<rparr>"
  have made: "ag_create [] ?inp ''b'' ''k'' 1 = Inr ?t"
    by (simp add: ag_create_def agauth_cmd_create_def js_trim_def js_space_def)
  have eq: "is_tool_allowed_for_principal ?t ''t'' ''p'' ''wire_money'' (Some ''alice'') 2 =
    is_tool_allowed_for_principal [] ''t'' ''p'' ''wire_money'' (Some ''alice'') 2"
    by (rule other_principals_irrelevant [OF _ made]) simp
  show ?thesis unfolding eq by (simp add: is_tool_allowed_iff)
qed

text \<open>
  a positive decision for a human principal rests on a document of the table that this
  principal signed for the persona, that is active, not expired, readable, does not deny the tool,
  and lists it unless its allow list is empty; and any such document is enough.
\<close>

theorem authorization_decision:
  "is_tool_allowed_for_principal t tenant persona tool (Some u) now \<longleftrightarrow>
     (\<exists>r \<in> set t. ag_tenant r = tenant \<and> ag_persona r = persona \<and> ag_principal r = u \<and>
        ag_status r = Agency_Active \<and> \<not> (\<exists>e. ag_expires_at r = Some e \<and> e < now) \<and>
        (\<exists>allowed denied. parse_tool_list (ag_allowed_json r) = Some allowed \<and>
           parse_tool_list (ag_denied_json r) = Some denied \<and>
           tool \<notin> set denied \<and> (allowed = [] \<or> tool \<in> set allowed)))"
  unfolding is_tool_allowed_iff
  by (rule bex_cong [OF refl])
     (auto simp: row_to_auth_def auth_admits_def covers_principal_def Let_def split: option.splits)

text \<open>
  revocation is final. Once a document is revoked, no sequence of create, suspend, resume or
  revoke commands changes it, its reason or its time of revocation.
\<close>

theorem revocation_is_final:
  assumes "agency_ok t" and "r \<in> set t" and "ag_status r = Agency_Revoked"
  shows "r \<in> set (foldl ag_exec t cs)"
  using ag_run_keeps_revoked [of t r cs] assms by (simp add: revoked_in_def)

lemma revocation_is_final_witness:
  "\<lparr> ag_id = ''b'', ag_tenant = ''t'', ag_persona = ''p'', ag_principal = ''bob'',
     ag_scope = All_Scopes, ag_scope_description = ''d'', ag_allowed_json = None,
     ag_denied_json = None, ag_status = Agency_Revoked, ag_granted_at = 1,
     ag_expires_at = None, ag_revoked_at = Some 3, ag_revocation_reason = Some ''x'',
     ag_revocation_key = ''k'' \<rparr>
   \<in> set (foldl ag_exec
      [\<lparr> ag_id = ''b'', ag_tenant = ''t'', ag_persona = ''p'', ag_principal = ''bob'',
         ag_scope = All_Scopes, ag_scope_description = ''d'', ag_allowed_json = None,
         ag_denied_json = None, ag_status = Agency_Revoked, ag_granted_at = 1,
         ag_expires_at = None, ag_revoked_at = Some 3, ag_revocation_reason = Some ''x'',
         ag_revocation_key = ''k'' \<rparr>] [Ag_Suspend ''t'' ''b'', Ag_Resume ''t'' ''b''])"
  by (rule revocation_is_final) (simp_all add: agency_ok_def revocation_consistent_def)

end
