(* ===== verification/Tool_Permission.thy ===== *)
theory Tool_Permission
  imports Js_Values
begin

text \<open>
  Tool permissions and the invocation log: the types of
  \<^verbatim>\<open>packages/kernel/src/domain/agent/tool-permission-types.ts\<close> and \<^verbatim>\<open>tool-invocation-types.ts\<close>, the
  SQL statements of \<^verbatim>\<open>src/storage/executors/tool-permission-executors.ts\<close> on the tables
  \<^verbatim>\<open>tool_permissions\<close> and \<^verbatim>\<open>tool_invocations\<close>, and the service of
  \<^verbatim>\<open>src/agent/tool-permission-service.ts\<close>. At most one permission per tenant, persona and tool;
  a command of one tenant never changes a decision of another; a revocation holds until the next
  grant of the same permission; unreadable constraints are read as no constraints.
\<close>

subsection \<open>Data\<close>

datatype tool_scope = Scope_Read | Scope_Write | Scope_Execute

record tool_constraints =
  max_actions_per_day :: "int option"
  require_confirmation :: "bool option"
  budget_limit_cents :: "int option"
  allow_list :: "string list option"
  deny_list :: "string list option"

definition no_constraints :: tool_constraints where
  "no_constraints =
     \<lparr> max_actions_per_day = None, require_confirmation = None, budget_limit_cents = None,
       allow_list = None, deny_list = None \<rparr>"

text \<open>
  A permission row. \<open>tp_constraints\<close> is what \<^verbatim>\<open>JSON.parse(row.constraints_json)\<close> yields, absent when
  the text does not parse.
\<close>

record permission_row =
  tp_id :: ident
  tp_tenant :: ident
  tp_persona :: ident
  tp_tool :: ident
  tp_scope :: tool_scope
  tp_constraints :: "tool_constraints option"
  tp_granted_by :: ident
  tp_granted_at :: millis
  tp_expires_at :: "millis option"
  tp_revoked_at :: "millis option"
  tp_revocation_reason :: "string option"
  tp_revocation_key :: string

record tool_permission =
  perm_id :: ident
  perm_tenant :: ident
  perm_persona :: ident
  perm_tool :: ident
  perm_scope :: tool_scope
  perm_constraints :: tool_constraints
  perm_granted_by :: ident
  perm_granted_at :: millis
  perm_expires_at :: "millis option"
  perm_revoked_at :: "millis option"
  perm_revocation_reason :: "string option"
  perm_revocation_key :: string

datatype permission_deny_reason = Not_Granted | Expired | Revoked

datatype permission_check = Allowed tool_permission | Denied permission_deny_reason

datatype invoker_type = Mcp | Internal | Admin | Org_Worker

datatype invocation_status =
  Inv_Success | Inv_Failed | Inv_Pending_Confirmation | Inv_Denied_Permission | Inv_Denied_Quota
| Inv_Denied_Budget | Inv_Denied_Circuit_Open | Inv_Tool_Not_Found | Inv_Timeout

record invocation_row =
  ti_id :: ident
  ti_tenant :: ident
  ti_persona :: ident
  ti_tool :: ident
  ti_invoker_type :: invoker_type
  ti_invoker :: ident
  ti_invoker_user :: "ident option"
  ti_status :: invocation_status
  ti_input_hash :: string
  ti_output_size :: int
  ti_error :: "string option"
  ti_cost_cents :: int
  ti_duration :: millis
  ti_invoked_at :: millis
  ti_completed_at :: "millis option"
  ti_confirmation_token :: "ident option"

type_synonym permission_table = "permission_row list"
type_synonym invocation_table = "invocation_row list"
type_synonym perm_key = "ident \<times> ident \<times> ident"

definition tp_key :: "permission_row \<Rightarrow> perm_key" where
  "tp_key r = (tp_tenant r, tp_persona r, tp_tool r)"

subsection \<open>Permissions\<close>

definition row_to_permission :: "permission_row \<Rightarrow> tool_permission" where
  "row_to_permission r =
     \<lparr> perm_id = tp_id r, perm_tenant = tp_tenant r, perm_persona = tp_persona r,
       perm_tool = tp_tool r, perm_scope = tp_scope r,
       perm_constraints = or_default (tp_constraints r) no_constraints,
       perm_granted_by = tp_granted_by r, perm_granted_at = tp_granted_at r,
       perm_expires_at = tp_expires_at r, perm_revoked_at = tp_revoked_at r,
       perm_revocation_reason = tp_revocation_reason r,
       perm_revocation_key = tp_revocation_key r \<rparr>"

record grant_input =
  gi_tenant :: ident
  gi_persona :: ident
  gi_tool :: ident
  gi_scope :: tool_scope
  gi_constraints :: tool_constraints
  gi_granted_by :: ident
  gi_expires_at :: "millis option"

definition gi_key :: "grant_input \<Rightarrow> perm_key" where
  "gi_key g = (gi_tenant g, gi_persona g, gi_tool g)"

text \<open>\<^verbatim>\<open>INSERT ... ON CONFLICT(tenant_id, persona_id, tool_id) DO UPDATE\<close>: the row keeps its id.\<close>

definition tperm_cmd_grant ::
  "permission_table \<Rightarrow> grant_input \<Rightarrow> ident \<Rightarrow> string \<Rightarrow> millis \<Rightarrow> permission_table" where
  "tperm_cmd_grant t g fresh_id fresh_key now =
     (if list_ex (\<lambda>r. tp_key r = gi_key g) t
      then map (\<lambda>r. if tp_key r = gi_key g
                    then r\<lparr>tp_scope := gi_scope g, tp_constraints := Some (gi_constraints g),
                           tp_granted_by := gi_granted_by g, tp_granted_at := now,
                           tp_expires_at := gi_expires_at g, tp_revoked_at := None,
                           tp_revocation_reason := None, tp_revocation_key := fresh_key\<rparr>
                    else r) t
      else t @ [
        \<lparr> tp_id = fresh_id, tp_tenant = gi_tenant g, tp_persona = gi_persona g,
          tp_tool = gi_tool g, tp_scope = gi_scope g, tp_constraints = Some (gi_constraints g),
          tp_granted_by = gi_granted_by g, tp_granted_at = now, tp_expires_at = gi_expires_at g,
          tp_revoked_at = None, tp_revocation_reason = None, tp_revocation_key = fresh_key \<rparr>])"

text \<open>
  The service draws the row id and the revocation key (\<^verbatim>\<open>randomUUID\<close>, \<^verbatim>\<open>randomBytes\<close>) and returns them,
  also when the statement kept the id of an older row.
\<close>

definition tp_grant ::
  "permission_table \<Rightarrow> grant_input \<Rightarrow> ident \<Rightarrow> string \<Rightarrow> millis \<Rightarrow> permission_table \<times> (ident \<times> string)" where
  "tp_grant t g fresh_id fresh_key now =
     (tperm_cmd_grant t g fresh_id fresh_key now, (fresh_id, fresh_key))"

definition tperm_cmd_revoke ::
  "permission_table \<Rightarrow> ident \<Rightarrow> ident \<Rightarrow> string \<Rightarrow> millis \<Rightarrow> permission_table \<times> nat" where
  "tperm_cmd_revoke t i tenant reason now =
     update_where (\<lambda>r. tp_id r = i \<and> tp_tenant r = tenant \<and> tp_revoked_at r = None)
       (\<lambda>r. r\<lparr>tp_revoked_at := Some now, tp_revocation_reason := Some reason\<rparr>) t"

definition tperm_cmd_revoke_by_key ::
  "permission_table \<Rightarrow> ident \<Rightarrow> string \<Rightarrow> string \<Rightarrow> millis \<Rightarrow> permission_table \<times> nat" where
  "tperm_cmd_revoke_by_key t tenant k reason now =
     update_where (\<lambda>r. tp_tenant r = tenant \<and> tp_revocation_key r = k \<and> tp_revoked_at r = None)
       (\<lambda>r. r\<lparr>tp_revoked_at := Some now, tp_revocation_reason := Some reason\<rparr>) t"

datatype permission_error = Revocation_Reason_Required

definition tp_revoke ::
  "permission_table \<Rightarrow> ident \<Rightarrow> ident \<Rightarrow> string \<Rightarrow> millis \<Rightarrow>
   permission_error + (permission_table \<times> bool)" where
  "tp_revoke t i tenant reason now =
     (if reason = [] \<or> js_trim reason = [] then Inl Revocation_Reason_Required
      else let (t', n) = tperm_cmd_revoke t i tenant (js_trim reason) now in Inr (t', n > 0))"

definition tp_revoke_by_key ::
  "permission_table \<Rightarrow> ident \<Rightarrow> string \<Rightarrow> string \<Rightarrow> millis \<Rightarrow>
   permission_error + (permission_table \<times> bool)" where
  "tp_revoke_by_key t tenant k reason now =
     (if reason = [] \<or> js_trim reason = [] then Inl Revocation_Reason_Required
      else let (t', n) = tperm_cmd_revoke_by_key t tenant k (js_trim reason) now in Inr (t', n > 0))"

definition tp_by_persona_tool :: "permission_table \<Rightarrow> perm_key \<Rightarrow> permission_row option" where
  "tp_by_persona_tool t k = select_one (\<lambda>r. tp_key r = k) t"

definition tp_check :: "permission_table \<Rightarrow> perm_key \<Rightarrow> millis \<Rightarrow> permission_check" where
  "tp_check t k now =
     (case tp_by_persona_tool t k of
        None \<Rightarrow> Denied Not_Granted
      | Some r \<Rightarrow>
          if tp_revoked_at r \<noteq> None then Denied Revoked
          else if (case tp_expires_at r of None \<Rightarrow> False | Some e \<Rightarrow> e < now) then Denied Expired
          else Allowed (row_to_permission r))"

definition tp_get_by_persona_tool :: "permission_table \<Rightarrow> perm_key \<Rightarrow> tool_permission option" where
  "tp_get_by_persona_tool t k = map_option row_to_permission (tp_by_persona_tool t k)"

definition tperm_query_list_by_persona :: "permission_table \<Rightarrow> ident \<Rightarrow> ident \<Rightarrow> permission_row list" where
  "tperm_query_list_by_persona t tenant persona =
     sort_key (\<lambda>r. - tp_granted_at r) (filter (\<lambda>r. tp_tenant r = tenant \<and> tp_persona r = persona) t)"

definition tperm_query_list_by_tenant :: "permission_table \<Rightarrow> ident \<Rightarrow> permission_row list" where
  "tperm_query_list_by_tenant t tenant =
     sort_key (\<lambda>r. - tp_granted_at r) (filter (\<lambda>r. tp_tenant r = tenant) t)"

definition tperm_query_by_revocation_key :: "permission_table \<Rightarrow> ident \<Rightarrow> string \<Rightarrow> permission_row option" where
  "tperm_query_by_revocation_key t tenant k =
     select_one (\<lambda>r. tp_tenant r = tenant \<and> tp_revocation_key r = k) t"

definition tp_list_by_persona :: "permission_table \<Rightarrow> ident \<Rightarrow> ident \<Rightarrow> tool_permission list" where
  "tp_list_by_persona t tenant persona =
     map row_to_permission (tperm_query_list_by_persona t tenant persona)"

definition tp_list_by_tenant :: "permission_table \<Rightarrow> ident \<Rightarrow> tool_permission list" where
  "tp_list_by_tenant t tenant =
     map row_to_permission (tperm_query_list_by_tenant t tenant)"

definition tp_find_by_key :: "permission_table \<Rightarrow> ident \<Rightarrow> string \<Rightarrow> tool_permission option" where
  "tp_find_by_key t tenant k =
     map_option row_to_permission (tperm_query_by_revocation_key t tenant k)"

subsection \<open>The invocation log\<close>

definition one_day_ms :: millis where
  "one_day_ms = 24 * 60 * 60 * 1000"

definition ti_key :: "invocation_row \<Rightarrow> perm_key" where
  "ti_key r = (ti_tenant r, ti_persona r, ti_tool r)"

definition ti_counts :: "perm_key \<Rightarrow> millis \<Rightarrow> invocation_row \<Rightarrow> bool" where
  "ti_counts k since r \<longleftrightarrow> ti_key r = k \<and> since \<le> ti_invoked_at r \<and> ti_status r = Inv_Success"

definition tperm_query_daily_usage :: "invocation_table \<Rightarrow> perm_key \<Rightarrow> millis \<Rightarrow> int" where
  "tperm_query_daily_usage l k since = int (count_where (ti_counts k since) l)"

definition tperm_query_daily_cost :: "invocation_table \<Rightarrow> perm_key \<Rightarrow> millis \<Rightarrow> int" where
  "tperm_query_daily_cost l k since = sum_where (ti_counts k since) ti_cost_cents l"

definition daily_usage_count :: "invocation_table \<Rightarrow> perm_key \<Rightarrow> millis \<Rightarrow> int" where
  "daily_usage_count l k now = tperm_query_daily_usage l k (now - one_day_ms)"

definition daily_cost_cents :: "invocation_table \<Rightarrow> perm_key \<Rightarrow> millis \<Rightarrow> int" where
  "daily_cost_cents l k now = tperm_query_daily_cost l k (now - one_day_ms)"

record record_input =
  ri_tenant :: ident
  ri_persona :: ident
  ri_tool :: ident
  ri_invoker_type :: invoker_type
  ri_invoker :: ident
  ri_invoker_user :: "ident option"
  ri_status :: invocation_status
  ri_input_hash :: string
  ri_output_size :: int
  ri_error :: "string option"
  ri_cost_cents :: int
  ri_duration :: millis
  ri_confirmation_token :: "ident option"
  ri_invoked_at :: "millis option"
  ri_completed_at :: "millis option"

definition tinv_cmd_record :: "invocation_table \<Rightarrow> invocation_row \<Rightarrow> invocation_table" where
  "tinv_cmd_record l r = l @ [r]"

definition invocation_of :: "record_input \<Rightarrow> ident \<Rightarrow> millis \<Rightarrow> invocation_row" where
  "invocation_of inp i now =
     (let invoked = or_default (ri_invoked_at inp) now in
      \<lparr> ti_id = i, ti_tenant = ri_tenant inp, ti_persona = ri_persona inp, ti_tool = ri_tool inp,
        ti_invoker_type = ri_invoker_type inp, ti_invoker = ri_invoker inp,
        ti_invoker_user = ri_invoker_user inp, ti_status = ri_status inp,
        ti_input_hash = ri_input_hash inp, ti_output_size = ri_output_size inp,
        ti_error = ri_error inp, ti_cost_cents = ri_cost_cents inp,
        ti_duration = ri_duration inp, ti_invoked_at = invoked,
        ti_completed_at = Some (or_default (ri_completed_at inp) invoked),
        ti_confirmation_token = ri_confirmation_token inp \<rparr>)"

definition record_invocation ::
  "invocation_table \<Rightarrow> record_input \<Rightarrow> ident \<Rightarrow> millis \<Rightarrow> invocation_table \<times> ident" where
  "record_invocation l inp i now = (tinv_cmd_record l (invocation_of inp i now), i)"

definition update_invocation_status ::
  "invocation_table \<Rightarrow> ident \<Rightarrow> invocation_status \<Rightarrow> int \<Rightarrow> string option \<Rightarrow> int \<Rightarrow> millis \<Rightarrow>
   millis \<Rightarrow> invocation_table" where
  "update_invocation_status l i st bytes err cost dur completed =
     fst (update_where (\<lambda>r. ti_id r = i)
       (\<lambda>r. r\<lparr>ti_status := st, ti_output_size := bytes, ti_error := err, ti_cost_cents := cost,
              ti_duration := dur, ti_completed_at := Some completed\<rparr>) l)"

definition get_invocation :: "invocation_table \<Rightarrow> ident \<Rightarrow> ident \<Rightarrow> invocation_row option" where
  "get_invocation l tenant i = select_one (\<lambda>r. ti_id r = i \<and> ti_tenant r = tenant) l"

definition list_invocations ::
  "invocation_table \<Rightarrow> ident \<Rightarrow> ident \<Rightarrow> nat \<Rightarrow> nat \<Rightarrow> invocation_row list" where
  "list_invocations l tenant persona limit offset =
     take limit (drop offset (sort_key (\<lambda>r. - ti_invoked_at r)
       (filter (\<lambda>r. ti_tenant r = tenant \<and> ti_persona r = persona) l)))"

definition daily_invocation_count :: "invocation_table \<Rightarrow> perm_key \<Rightarrow> bool \<Rightarrow> millis \<Rightarrow> int" where
  "daily_invocation_count l k success_only now =
     int (count_where (\<lambda>r. ti_key r = k \<and> now - one_day_ms \<le> ti_invoked_at r \<and>
        (success_only \<longrightarrow> ti_status r = Inv_Success)) l)"

definition list_pending_by_user ::
  "invocation_table \<Rightarrow> ident \<Rightarrow> ident \<Rightarrow> nat \<Rightarrow> invocation_row list" where
  "list_pending_by_user l tenant user limit =
     take limit (sort_key (\<lambda>r. - ti_invoked_at r)
       (filter (\<lambda>r. ti_tenant r = tenant \<and> ti_invoker_user r = Some user \<and>
          ti_status r = Inv_Pending_Confirmation) l))"

definition get_by_confirmation_token ::
  "invocation_table \<Rightarrow> ident \<Rightarrow> ident \<Rightarrow> invocation_row option" where
  "get_by_confirmation_token l tenant token =
     (case sort_key (\<lambda>r. - ti_invoked_at r)
        (filter (\<lambda>r. ti_tenant r = tenant \<and> ti_confirmation_token r = Some token) l) of
        [] \<Rightarrow> None | r # _ \<Rightarrow> Some r)"

definition prunable :: "millis \<Rightarrow> invocation_row \<Rightarrow> bool" where
  "prunable cutoff r \<longleftrightarrow> ti_invoked_at r < cutoff \<and> ti_status r \<noteq> Inv_Pending_Confirmation"

definition prune_invocations_before ::
  "invocation_table \<Rightarrow> millis \<Rightarrow> nat \<Rightarrow> invocation_table \<times> nat" where
  "prune_invocations_before l cutoff batch =
     (let ids = map ti_id (take batch (sort_key ti_invoked_at (filter (prunable cutoff) l)))
      in delete_where (\<lambda>r. ti_id r \<in> set ids) l)"

subsection \<open>Permission commands\<close>

datatype permission_command =
  Tp_Grant grant_input ident string millis
| Tp_Revoke ident ident string millis
| Tp_Revoke_Key ident string string millis

fun command_tenant :: "permission_command \<Rightarrow> ident" where
  "command_tenant (Tp_Grant g _ _ _) = gi_tenant g"
| "command_tenant (Tp_Revoke _ tenant _ _) = tenant"
| "command_tenant (Tp_Revoke_Key tenant _ _ _) = tenant"

fun grants :: "permission_command \<Rightarrow> perm_key \<Rightarrow> bool" where
  "grants (Tp_Grant g _ _ _) k = (gi_key g = k)"
| "grants _ k = False"

fun tp_exec :: "permission_table \<Rightarrow> permission_command \<Rightarrow> permission_table" where
  "tp_exec t (Tp_Grant g i k now) = fst (tp_grant t g i k now)"
| "tp_exec t (Tp_Revoke i tenant reason now) =
     (case tp_revoke t i tenant reason now of Inl _ \<Rightarrow> t | Inr (t', _) \<Rightarrow> t')"
| "tp_exec t (Tp_Revoke_Key tenant k reason now) =
     (case tp_revoke_by_key t tenant k reason now of Inl _ \<Rightarrow> t | Inr (t', _) \<Rightarrow> t')"

definition perms_ok :: "permission_table \<Rightarrow> bool" where
  "perms_ok t \<longleftrightarrow> distinct (map tp_key t)"

lemma fst_tp_grant [simp]: "fst (tp_grant t g i k now) = tperm_cmd_grant t g i k now"
  by (simp add: tp_grant_def)

lemma tp_key_update [simp]:
  "tp_key (r\<lparr>tp_revoked_at := a\<rparr>) = tp_key r"
  "tp_key (r\<lparr>tp_revocation_reason := b\<rparr>) = tp_key r"
  "tp_key (r\<lparr>tp_scope := c\<rparr>) = tp_key r"
  "tp_key (r\<lparr>tp_constraints := d\<rparr>) = tp_key r"
  "tp_key (r\<lparr>tp_granted_by := e\<rparr>) = tp_key r"
  "tp_key (r\<lparr>tp_granted_at := f\<rparr>) = tp_key r"
  "tp_key (r\<lparr>tp_expires_at := g\<rparr>) = tp_key r"
  "tp_key (r\<lparr>tp_revocation_key := h\<rparr>) = tp_key r"
  by (simp_all add: tp_key_def)

lemma map_tp_key_if:
  "(\<And>r. tp_key (f r) = tp_key r) \<Longrightarrow> map (tp_key \<circ> (\<lambda>r. if p r then f r else r)) t = map tp_key t"
  by (simp cong: map_cong)

lemma tp_exec_ok: "perms_ok t \<Longrightarrow> perms_ok (tp_exec t c)"
proof (cases c)
  case (Tp_Grant g i k now)
  assume ok: "perms_ok t"
  show ?thesis
  proof (cases "list_ex (\<lambda>r. tp_key r = gi_key g) t")
    case True
    with ok Tp_Grant show ?thesis by (simp add: perms_ok_def tperm_cmd_grant_def map_tp_key_if)
  next
    case False
    then have "gi_key g \<notin> tp_key ` set t" by (auto simp: list_ex_iff)
    with ok Tp_Grant False show ?thesis
      by (simp add: perms_ok_def tperm_cmd_grant_def) (simp add: tp_key_def gi_key_def)
  qed
qed (simp_all add: perms_ok_def tp_revoke_def tperm_cmd_revoke_def tp_revoke_by_key_def tperm_cmd_revoke_by_key_def update_where_def map_tp_key_if)

interpretation permissions: invariant_machine tp_exec perms_ok
  by unfold_locales (rule tp_exec_ok)

text \<open>What a command does to the row of one key.\<close>

lemma by_persona_tool_map:
  assumes "\<And>r. tp_key (f r) = tp_key r"
  shows "tp_by_persona_tool (map f t) k = map_option f (tp_by_persona_tool t k)"
  by (simp add: tp_by_persona_tool_def select_one_map assms)

lemma by_persona_tool_key:
  "tp_by_persona_tool t k = Some r \<Longrightarrow> tp_key r = k \<and> tp_tenant r = fst k"
  by (auto simp: tp_by_persona_tool_def tp_key_def dest: select_one_SomeD)

lemma grant_same_key:
  "\<exists>r. tp_by_persona_tool (tperm_cmd_grant t g i key now) (gi_key g) = Some r \<and>
     tp_constraints r = Some (gi_constraints g) \<and> tp_expires_at r = gi_expires_at g \<and>
     tp_revoked_at r = None \<and> tp_scope r = gi_scope g \<and> tp_granted_by r = gi_granted_by g"
proof (cases "list_ex (\<lambda>r. tp_key r = gi_key g) t")
  case True
  then have "tp_by_persona_tool t (gi_key g) \<noteq> None"
    by (auto simp: tp_by_persona_tool_def select_one_None_iff list_ex_iff)
  then obtain r where r: "tp_by_persona_tool t (gi_key g) = Some r" by blast
  then have "tp_key r = gi_key g"
    by (auto simp: tp_by_persona_tool_def dest: select_one_SomeD)
  with True r show ?thesis by (simp add: tperm_cmd_grant_def by_persona_tool_map)
next
  case False
  then have "select_one (\<lambda>r. tp_key r = gi_key g) t = None"
    by (auto simp: select_one_None_iff list_ex_iff)
  with False show ?thesis
    by (simp add: tperm_cmd_grant_def tp_by_persona_tool_def select_one_append)
       (simp add: tp_key_def gi_key_def)
qed

lemma grant_other_key:
  assumes "gi_key g \<noteq> k"
  shows "tp_by_persona_tool (tperm_cmd_grant t g i key now) k = tp_by_persona_tool t k"
proof (cases "list_ex (\<lambda>r. tp_key r = gi_key g) t")
  case True
  with assms show ?thesis
    by (cases "tp_by_persona_tool t k")
       (auto simp: tperm_cmd_grant_def by_persona_tool_map dest: by_persona_tool_key)
next
  case False
  with assms show ?thesis
    by (auto simp: tperm_cmd_grant_def tp_by_persona_tool_def select_one_append tp_key_def gi_key_def
        split: option.splits)
qed

lemma revoke_keeps_key:
  assumes "\<not> grants c k"
  shows "tp_by_persona_tool (tp_exec t c) k = None \<longleftrightarrow> tp_by_persona_tool t k = None"
  using assms
  by (cases c)
     (auto simp: grant_other_key tp_revoke_def tperm_cmd_revoke_def tp_revoke_by_key_def tperm_cmd_revoke_by_key_def update_where_def
        by_persona_tool_map)

lemma revoked_stays:
  assumes "\<not> grants c k" and "tp_by_persona_tool t k = Some r" and "tp_revoked_at r \<noteq> None"
  shows "tp_by_persona_tool (tp_exec t c) k = Some r"
  using assms
  by (cases c)
     (auto simp: grant_other_key tp_revoke_def tperm_cmd_revoke_def tp_revoke_by_key_def tperm_cmd_revoke_by_key_def update_where_def
        by_persona_tool_map)

lemma revoked_run_stays:
  assumes "\<forall>c \<in> set cs. \<not> grants c k" and "tp_by_persona_tool t k = Some r"
    and "tp_revoked_at r \<noteq> None"
  shows "tp_by_persona_tool (foldl tp_exec t cs) k = Some r"
  using assms by (induction cs arbitrary: t) (simp_all add: revoked_stays)

lemma other_tenant_row:
  assumes "command_tenant c \<noteq> fst k"
  shows "tp_by_persona_tool (tp_exec t c) k = tp_by_persona_tool t k"
proof (cases c)
  case (Tp_Grant g i key now)
  with assms have "gi_key g \<noteq> k" by (auto simp: gi_key_def)
  with Tp_Grant show ?thesis by (simp add: grant_other_key)
next
  case (Tp_Revoke i tenant reason now)
  with assms show ?thesis
    by (cases "tp_by_persona_tool t k")
       (auto simp: tp_revoke_def tperm_cmd_revoke_def update_where_def by_persona_tool_map dest: by_persona_tool_key)
next
  case (Tp_Revoke_Key tenant key reason now)
  with assms show ?thesis
    by (cases "tp_by_persona_tool t k")
       (auto simp: tp_revoke_by_key_def tperm_cmd_revoke_by_key_def update_where_def by_persona_tool_map
          dest: by_persona_tool_key)
qed

lemma check_cong:
  "tp_by_persona_tool t k = tp_by_persona_tool u k \<Longrightarrow> tp_check t k now = tp_check u k now"
  by (simp add: tp_check_def)

lemma check_Allowed_iff:
  "tp_check t k now = Allowed p \<longleftrightarrow>
     (\<exists>r. tp_by_persona_tool t k = Some r \<and> tp_revoked_at r = None \<and>
        \<not> (\<exists>e. tp_expires_at r = Some e \<and> e < now) \<and> p = row_to_permission r)"
  by (auto simp: tp_check_def split: option.splits)


subsection \<open>Properties\<close>

text \<open>
  right after a grant the check of that tenant, persona and tool allows it with exactly the
  granted constraints unless the grant has expired, whatever the table held before (a revoked row
  is revived), and every other check is unchanged.
\<close>

theorem grant_then_check:
  "if k \<noteq> gi_key g
   then tp_check (fst (tp_grant t g i key made)) k now = tp_check t k now
   else if (\<exists>e. gi_expires_at g = Some e \<and> e < now)
   then tp_check (fst (tp_grant t g i key made)) k now = Denied Expired
   else (\<exists>p. tp_check (fst (tp_grant t g i key made)) k now = Allowed p \<and>
          perm_constraints p = gi_constraints g \<and> perm_scope p = gi_scope g \<and>
          perm_granted_by p = gi_granted_by g \<and> perm_expires_at p = gi_expires_at g)"
proof (cases "k = gi_key g")
  case True
  obtain r where r: "tp_by_persona_tool (tperm_cmd_grant t g i key made) (gi_key g) = Some r"
    "tp_constraints r = Some (gi_constraints g)" "tp_expires_at r = gi_expires_at g"
    "tp_revoked_at r = None" "tp_scope r = gi_scope g" "tp_granted_by r = gi_granted_by g"
    using grant_same_key by blast
  show ?thesis
    by (cases "gi_expires_at g") (simp_all add: True r tp_check_def row_to_permission_def)
next
  case False
  then have "tp_check (fst (tp_grant t g i key made)) k now = tp_check t k now"
    by (simp only: fst_tp_grant) (rule check_cong, rule grant_other_key, simp)
  with False show ?thesis by simp
qed

text \<open>
  tenant isolation of the permission commands. No sequence of grants and revocations, by id or
  by revocation key, issued for other tenants changes any check of this tenant.
\<close>

theorem permission_tenant_isolation:
  assumes "\<forall>c \<in> set cs. command_tenant c \<noteq> tenant"
  shows "tp_check (foldl tp_exec t cs) (tenant, persona, tool) now =
         tp_check t (tenant, persona, tool) now"
  using assms
  by (induction cs arbitrary: t)
     (auto intro: check_cong [OF other_tenant_row, THEN trans])

lemma permission_tenant_isolation_witness:
  "tp_check (foldl tp_exec [] [Tp_Revoke_Key ''b'' ''k'' ''leak'' 4]) (''a'', ''p'', ''mail'') 9 =
   Denied Not_Granted"
  using permission_tenant_isolation [of "[Tp_Revoke_Key ''b'' ''k'' ''leak'' 4]" "''a''" "[]"]
  by (simp add: tp_check_def tp_by_persona_tool_def)

text \<open>
  a revocation takes effect at once and holds: after a successful revocation of the permission
  of a key, every later check of the key is refused as revoked until a new grant of the same key.
\<close>

theorem revocation_holds_until_grant:
  assumes "tp_by_persona_tool t k = Some r"
    and "tp_revoke t (tp_id r) (fst k) reason at_time = Inr (t', ok)"
    and "\<forall>c \<in> set cs. \<not> grants c k"
  shows "tp_check (foldl tp_exec t' cs) k now = Denied Revoked"
proof -
  have k: "tp_tenant r = fst k" using by_persona_tool_key [OF assms(1)] by simp
  let ?u = "r\<lparr>tp_revoked_at := Some at_time, tp_revocation_reason := Some (js_trim reason)\<rparr>"
  have t': "t' = map (\<lambda>r'. if tp_id r' = tp_id r \<and> tp_tenant r' = fst k \<and> tp_revoked_at r' = None
      then r'\<lparr>tp_revoked_at := Some at_time, tp_revocation_reason := Some (js_trim reason)\<rparr> else r') t"
    using assms(2) by (auto simp: tp_revoke_def tperm_cmd_revoke_def update_where_def split: if_splits)
  have "tp_by_persona_tool t' k = Some (if tp_revoked_at r = None then ?u else r)"
    by (simp add: t' by_persona_tool_map assms(1) k)
  then show ?thesis
    using revoked_run_stays [OF assms(3), of t']
    by (cases "tp_revoked_at r") (simp_all add: tp_check_def)
qed

text \<open>
  unreadable constraints are read as no constraints. A permission whose stored constraints do
  not parse passes the check and hands the pipeline neither a deny list nor a confirmation
  requirement nor a budget.
\<close>

theorem corrupt_constraints_fail_open:
  assumes "tp_by_persona_tool t k = Some r" and "tp_constraints r = None"
    and "tp_revoked_at r = None" and "tp_expires_at r = None"
  shows "\<exists>p. tp_check t k now = Allowed p \<and> perm_constraints p = no_constraints"
  using assms by (simp add: tp_check_def row_to_permission_def)

definition sample_permission :: "tool_constraints option \<Rightarrow> permission_row" where
  "sample_permission c =
     \<lparr> tp_id = ''perm1'', tp_tenant = ''a'', tp_persona = ''p'', tp_tool = ''mail'',
       tp_scope = Scope_Execute, tp_constraints = c, tp_granted_by = ''owner'',
       tp_granted_at = 1, tp_expires_at = None, tp_revoked_at = None,
       tp_revocation_reason = None, tp_revocation_key = ''rk'' \<rparr>"

lemma corrupt_constraints_fail_open_witness:
  "\<exists>p. tp_check [sample_permission None] (''a'', ''p'', ''mail'') 9 = Allowed p \<and>
     perm_constraints p = no_constraints"
  by (rule corrupt_constraints_fail_open [of _ _ "sample_permission None"])
     (simp_all add: tp_by_persona_tool_def tp_key_def sample_permission_def)

lemma revocation_holds_until_grant_witness:
  "tp_check (foldl tp_exec (fst (projr (tp_revoke [sample_permission None] ''perm1'' ''a'' ''leak'' 4)))
      [Tp_Revoke_Key ''a'' ''rk'' ''again'' 5]) (''a'', ''p'', ''mail'') 9 = Denied Revoked"
proof -
  let ?t = "[sample_permission None]"
  have "tp_revoke ?t (tp_id (sample_permission None)) (fst (''a'', ''p'', ''mail'')) ''leak'' 4 =
    Inr (fst (projr (tp_revoke ?t ''perm1'' ''a'' ''leak'' 4)), True)"
    by (simp add: tp_revoke_def tperm_cmd_revoke_def update_where_def sample_permission_def js_trim_def js_space_def)
  then show ?thesis
    by (rule revocation_holds_until_grant [rotated 1])
       (simp_all add: tp_by_persona_tool_def tp_key_def sample_permission_def)
qed

end
