(* ===== verification/Confirmation_Token.thy ===== *)
theory Confirmation_Token
  imports Js_Values
begin

text \<open>
  One-time confirmation tokens: the statements of
  \<^verbatim>\<open>src/storage/executors/confirmation-token-executors.ts\<close> and the store of
  \<^verbatim>\<open>src/conversation/confirmation-token-store.ts\<close>. The digest of \<^verbatim>\<open>createHash('sha256')\<close> is the
  parameter \<open>sha\<close>; ids, drawn from \<^verbatim>\<open>randomBytes\<close>, and clock reads are arguments. A token is
  consumed at most once whatever the interleaving of statements, and only by the tenant, persona,
  session, user and input it was issued for.
\<close>

subsection \<open>Statements\<close>

record token_row =
  ct_id :: ident
  ct_tenant :: ident
  ct_persona :: ident
  ct_session :: ident
  ct_user :: ident
  ct_topic :: string
  ct_rule :: string
  ct_hash :: string
  ct_issued_at :: millis
  ct_expires_at :: millis
  ct_consumed_at :: "millis option"

type_synonym token_table = "token_row list"

text \<open>\<^verbatim>\<open>id\<close> is the primary key: an insert of a present id throws.\<close>

datatype token_error = Token_Id_Exists

definition ctoken_cmd_insert :: "token_table \<Rightarrow> token_row \<Rightarrow> token_error + token_table" where
  "ctoken_cmd_insert t r =
     (if list_ex (\<lambda>q. ct_id q = ct_id r) t then Inl Token_Id_Exists else Inr (t @ [r]))"

definition ctoken_query_by_id :: "token_table \<Rightarrow> ident \<Rightarrow> token_row option" where
  "ctoken_query_by_id t i = select_one (\<lambda>r. ct_id r = i) t"

definition ctoken_cmd_consume :: "token_table \<Rightarrow> ident \<Rightarrow> millis \<Rightarrow> token_table \<times> nat" where
  "ctoken_cmd_consume t i now =
     update_where (\<lambda>r. ct_id r = i \<and> ct_consumed_at r = None) (\<lambda>r. r\<lparr>ct_consumed_at := Some now\<rparr>) t"

definition ctoken_cmd_prune_expired :: "token_table \<Rightarrow> millis \<Rightarrow> token_table \<times> nat" where
  "ctoken_cmd_prune_expired t before = delete_where (\<lambda>r. ct_expires_at r < before) t"

subsection \<open>The store\<close>

definition default_token_ttl :: millis where
  "default_token_ttl = 30 * 60 * 1000"

definition hash_input :: "(string \<Rightarrow> string) \<Rightarrow> string \<Rightarrow> string" where
  "hash_input sha text = js_prefix 32 (sha text)"

record token_context =
  tc_tenant :: ident
  tc_persona :: ident
  tc_session :: ident
  tc_user :: ident
  tc_input :: string

definition token_issue ::
  "(string \<Rightarrow> string) \<Rightarrow> millis \<Rightarrow> token_table \<Rightarrow> token_context \<Rightarrow> string \<Rightarrow> string \<Rightarrow> ident \<Rightarrow> millis \<Rightarrow>
   token_error + (token_table \<times> ident \<times> millis)" where
  "token_issue sha ttl t c topic rule i now =
     (case ctoken_cmd_insert t
        \<lparr> ct_id = i, ct_tenant = tc_tenant c, ct_persona = tc_persona c,
          ct_session = tc_session c, ct_user = tc_user c, ct_topic = topic, ct_rule = rule,
          ct_hash = hash_input sha (tc_input c), ct_issued_at = now, ct_expires_at = now + ttl,
          ct_consumed_at = None \<rparr> of
        Inl e \<Rightarrow> Inl e
      | Inr t' \<Rightarrow> Inr (t', i, now + ttl))"

datatype token_refusal =
  Token_Not_Found | Token_Already_Consumed | Token_Expired | Token_Context_Mismatch
| Token_Input_Changed

text \<open>\<open>None\<close> is success; \<open>checked\<close> and \<open>marked\<close> are the two clock reads.\<close>

definition token_consume ::
  "(string \<Rightarrow> string) \<Rightarrow> token_table \<Rightarrow> ident \<Rightarrow> token_context \<Rightarrow> millis \<Rightarrow> millis \<Rightarrow>
   token_table \<times> token_refusal option" where
  "token_consume sha t i c checked marked =
     (case ctoken_query_by_id t i of
        None \<Rightarrow> (t, Some Token_Not_Found)
      | Some r \<Rightarrow>
          if ct_consumed_at r \<noteq> None then (t, Some Token_Already_Consumed)
          else if ct_expires_at r < checked then (t, Some Token_Expired)
          else if ct_tenant r \<noteq> tc_tenant c \<or> ct_persona r \<noteq> tc_persona c \<or>
                  ct_session r \<noteq> tc_session c \<or> ct_user r \<noteq> tc_user c
               then (t, Some Token_Context_Mismatch)
          else if ct_hash r \<noteq> hash_input sha (tc_input c) then (t, Some Token_Input_Changed)
          else (let (t', n) = ctoken_cmd_consume t i marked in
                if n = 0 then (t', Some Token_Already_Consumed) else (t', None)))"

definition token_prune_expired :: "token_table \<Rightarrow> millis \<Rightarrow> token_table \<times> nat" where
  "token_prune_expired t now = ctoken_cmd_prune_expired t now"

subsection \<open>Any interleaving of statements\<close>

text \<open>
  Several processes share the table, so the statements of their calls interleave. A statement wins
  when it is the consuming update and changed a row.
\<close>

datatype token_statement =
  St_Insert token_row | St_Consume ident millis | St_Prune millis

fun token_statement_id :: "token_statement \<Rightarrow> ident option" where
  "token_statement_id (St_Consume i _) = Some i"
| "token_statement_id _ = None"

fun token_exec :: "token_statement \<Rightarrow> token_table \<Rightarrow> token_table \<times> bool" where
  "token_exec (St_Insert r) t =
     (case ctoken_cmd_insert t r of Inl _ \<Rightarrow> (t, False) | Inr t' \<Rightarrow> (t', False))"
| "token_exec (St_Consume i now) t = (let (t', n) = ctoken_cmd_consume t i now in (t', n > 0))"
| "token_exec (St_Prune before) t = (fst (ctoken_cmd_prune_expired t before), False)"

definition token_vacant :: "token_table \<Rightarrow> ident option \<Rightarrow> bool" where
  "token_vacant t k \<longleftrightarrow> (\<exists>r \<in> set t. k = Some (ct_id r) \<and> ct_consumed_at r = None)"

fun token_opens :: "token_statement \<Rightarrow> ident option \<Rightarrow> bool" where
  "token_opens (St_Insert r) k = (k = Some (ct_id r))"
| "token_opens _ k = False"

lemma consume_wins_iff:
  "snd (token_exec (St_Consume i now) t) \<longleftrightarrow> token_vacant t (Some i)"
  by (simp add: ctoken_cmd_consume_def token_vacant_def case_prod_beta eq_commute)

lemma consume_takes: "\<not> token_vacant (fst (token_exec (St_Consume i now) t)) (Some i)"
  by (simp add: ctoken_cmd_consume_def token_vacant_def case_prod_beta) (metis option.exhaust)

lemma token_taken_stays:
  assumes "\<not> token_vacant t k" and "\<not> token_opens a k"
  shows "\<not> token_vacant (fst (token_exec a t)) k"
  using assms
  by (cases a)
     (auto simp: ctoken_cmd_insert_def ctoken_cmd_consume_def ctoken_cmd_prune_expired_def
        token_vacant_def case_prod_beta)

lemma insert_prune_never_win [simp]:
  "\<not> snd (token_exec (St_Insert r) t)" "\<not> snd (token_exec (St_Prune before) t)"
  by (simp_all split: sum.splits)

lemma token_win_vacant: "snd (token_exec a t) \<Longrightarrow> token_vacant t (token_statement_id a)"
  by (cases a) (simp_all only: consume_wins_iff insert_prune_never_win token_statement_id.simps)

lemma token_win_takes:
  "snd (token_exec a t) \<Longrightarrow> \<not> token_vacant (fst (token_exec a t)) (token_statement_id a)"
  by (cases a) (simp_all only: consume_takes insert_prune_never_win token_statement_id.simps not_False_eq_True)

interpretation token_shot: one_shot token_exec token_statement_id token_vacant token_opens
  by unfold_locales (fact token_win_vacant token_win_takes token_taken_stays)+

lemma token_consume_ok_iff:
  "snd (token_consume sha t i c checked marked) = None \<longleftrightarrow>
     (\<exists>r. ctoken_query_by_id t i = Some r \<and> ct_consumed_at r = None \<and> checked \<le> ct_expires_at r \<and>
        ct_tenant r = tc_tenant c \<and> ct_persona r = tc_persona c \<and> ct_session r = tc_session c \<and>
        ct_user r = tc_user c \<and> ct_hash r = hash_input sha (tc_input c))"
proof (cases "ctoken_query_by_id t i")
  case (Some r)
  then have r: "r \<in> set t" "ct_id r = i"
    by (auto simp: ctoken_query_by_id_def dest: select_one_SomeD)
  have "snd (ctoken_cmd_consume t i marked) \<noteq> 0" if "ct_consumed_at r = None"
    using r that by (auto simp: ctoken_cmd_consume_def update_where_def filter_empty_conv)
  with Some show ?thesis
    by (cases "ct_consumed_at r") (auto simp: token_consume_def split: prod.splits)
qed (simp add: token_consume_def)

lemma token_consume_table:
  "fst (token_consume sha t i c checked marked) =
     (if snd (token_consume sha t i c checked marked) = None
      then fst (ctoken_cmd_consume t i marked) else t)"
proof (cases "ctoken_query_by_id t i")
  case (Some r)
  have "fst (ctoken_cmd_consume t i marked) = t" if "snd (ctoken_cmd_consume t i marked) = 0"
    using that by (auto simp: ctoken_cmd_consume_def update_where_def filter_empty_conv intro: map_idI)
  with Some show ?thesis by (auto simp: token_consume_def split: prod.splits)
qed (simp add: token_consume_def)

lemma query_after_issue:
  assumes "token_issue sha ttl t c topic rule i now = Inr (t', i', e)"
  shows "\<exists>r. ctoken_query_by_id t' i = Some r \<and> ct_consumed_at r = None \<and>
     ct_expires_at r = now + ttl \<and> ct_tenant r = tc_tenant c \<and> ct_persona r = tc_persona c \<and>
     ct_session r = tc_session c \<and> ct_user r = tc_user c \<and>
     ct_hash r = hash_input sha (tc_input c)"
proof -
  from assms have "\<forall>q \<in> set t. ct_id q \<noteq> i"
    by (auto simp: token_issue_def ctoken_cmd_insert_def list_ex_iff split: if_splits)
  then have "select_one (\<lambda>r. ct_id r = i) t = None" by (simp add: select_one_None_iff)
  with assms show ?thesis
    by (auto simp: token_issue_def ctoken_cmd_insert_def ctoken_query_by_id_def select_one_append
        split: if_splits)
qed

lemma query_after_consume:
  "ctoken_query_by_id (fst (ctoken_cmd_consume t i now)) j =
     map_option (\<lambda>r. if ct_id r = i \<and> ct_consumed_at r = None then r\<lparr>ct_consumed_at := Some now\<rparr> else r)
       (ctoken_query_by_id t j)"
  unfolding ctoken_query_by_id_def ctoken_cmd_consume_def by (rule select_one_update_where) simp

lemma consumed_is_final:
  assumes "snd (token_consume sha t i c checked marked) = None"
  shows "snd (token_consume sha (fst (token_consume sha t i c checked marked)) i c' checked' marked') =
     Some Token_Already_Consumed"
proof -
  from assms obtain r where r: "ctoken_query_by_id t i = Some r" "ct_consumed_at r = None"
    by (auto simp: token_consume_ok_iff)
  then have "ct_id r = i" by (auto simp: ctoken_query_by_id_def dest: select_one_SomeD)
  with r assms show ?thesis
    by (simp add: token_consume_table query_after_consume) (simp add: token_consume_def query_after_consume)
qed

subsection \<open>Properties\<close>

text \<open>
  however the inserts, consuming updates and prunings of any number of processes interleave, a
  token is consumed at most once for each time it was issued: the number of statements that report
  a consumed row is bounded by the number of issues, counting a token already open at the start.
\<close>

theorem token_consumed_at_most_once:
  "wins token_statement_id (Some i) sts (snd (run_attempts token_exec sts t)) \<le>
     (if token_vacant t (Some i) then 1 else 0) + count_where (\<lambda>st. token_opens st (Some i)) sts"
  by (rule token_shot.wins_bound)

text \<open>
  what a fresh token is good for. It is accepted exactly by the tenant, persona, session and
  user it was issued to, with an input of the same digest, until its expiry; and once accepted it
  is refused as already consumed for everybody, for ever.
\<close>

theorem issued_token_binding:
  assumes "token_issue sha ttl t c topic rule i now = Inr (t', i', e)"
  shows "e = now + ttl \<and> i' = i \<and>
     (snd (token_consume sha t' i c' checked marked) = None \<longleftrightarrow>
        checked \<le> e \<and> tc_tenant c' = tc_tenant c \<and> tc_persona c' = tc_persona c \<and>
        tc_session c' = tc_session c \<and> tc_user c' = tc_user c \<and>
        hash_input sha (tc_input c') = hash_input sha (tc_input c)) \<and>
     (snd (token_consume sha t' i c' checked marked) = None \<longrightarrow>
        snd (token_consume sha (fst (token_consume sha t' i c' checked marked)) i c'' checked' marked') =
        Some Token_Already_Consumed)"
proof -
  obtain r where r: "ctoken_query_by_id t' i = Some r" "ct_consumed_at r = None"
    "ct_expires_at r = now + ttl" "ct_tenant r = tc_tenant c" "ct_persona r = tc_persona c"
    "ct_session r = tc_session c" "ct_user r = tc_user c" "ct_hash r = hash_input sha (tc_input c)"
    using query_after_issue [OF assms] by blast
  have e: "e = now + ttl" "i' = i"
    using assms by (auto simp: token_issue_def split: sum.splits)
  have "snd (token_consume sha t' i c' checked marked) = None \<longleftrightarrow>
        checked \<le> e \<and> tc_tenant c' = tc_tenant c \<and> tc_persona c' = tc_persona c \<and>
        tc_session c' = tc_session c \<and> tc_user c' = tc_user c \<and>
        hash_input sha (tc_input c') = hash_input sha (tc_input c)"
    unfolding token_consume_ok_iff using r e by auto
  with e consumed_is_final show ?thesis by blast
qed

definition sample_context :: "string \<Rightarrow> token_context" where
  "sample_context input =
     \<lparr> tc_tenant = ''a'', tc_persona = ''p'', tc_session = ''s'', tc_user = ''u'', tc_input = input \<rparr>"

lemma issued_token_binding_witness:
  "\<exists>t' i' e. token_issue id default_token_ttl [] (sample_context ''x'') ''mail'' ''r'' ''cct_1'' 0 =
     Inr (t', i', e) \<and>
     snd (token_consume id t' ''cct_1'' (sample_context ''x'') 1800000 1800000) = None \<and>
     snd (token_consume id t' ''cct_1'' (sample_context ''y'') 5 5) \<noteq> None"
proof -
  obtain t' i' e where iss: "token_issue id default_token_ttl [] (sample_context ''x'') ''mail'' ''r''
    ''cct_1'' 0 = Inr (t', i', e)"
    by (simp add: token_issue_def ctoken_cmd_insert_def)
  note b = issued_token_binding [OF iss]
  have "snd (token_consume id t' ''cct_1'' (sample_context ''x'') 1800000 1800000) = None"
    using b [of "sample_context ''x''" 1800000 1800000] by (simp add: default_token_ttl_def)
  moreover have "snd (token_consume id t' ''cct_1'' (sample_context ''y'') 5 5) \<noteq> None"
    using b [of "sample_context ''y''" 5 5]
    by (simp add: sample_context_def hash_input_def js_prefix_def)
  ultimately show ?thesis using iss by blast
qed

end
