(* ===== verification/Audit_Log.thy ===== *)
theory Audit_Log
  imports Js_Values
begin

text \<open>
  The audit log and its per-tenant hash chain: the pure chain functions of
  \<^verbatim>\<open>src/audit/audit-hash-chain.ts\<close>, the statements of
  \<^verbatim>\<open>src/storage/executors/audit-log-executors.ts\<close> and the store of \<^verbatim>\<open>src/audit/audit-log-store.ts\<close>.
  The digest \<open>sha\<close> (node's \<^verbatim>\<open>createHash('sha256')\<close>, as hexadecimal text) and \<open>str\<close>
  (\<^verbatim>\<open>JSON.stringify\<close>) are parameters. Every log written through the store verifies, over every
  range and under any interleaving of writers; a deleted prefix is reported; and two logs that
  verify with the same length and the same last hash are equal or exhibit a digest collision.
\<close>

subsection \<open>Records and their canonical form\<close>

datatype event_kind = Ev_Request | Ev_Business

fun event_kind_name :: "event_kind \<Rightarrow> string" where
  "event_kind_name Ev_Request = ''request''"
| "event_kind_name Ev_Business = ''business''"

record audit_hash_input =
  hi_id :: ident
  hi_tenant :: ident
  hi_kind :: event_kind
  hi_created_at :: millis
  hi_seq :: int
  hi_prev :: string
  hi_method :: string
  hi_path :: string
  hi_request_id :: string
  hi_status :: int
  hi_latency :: rat
  hi_api_key_hash :: "string option"
  hi_user_id :: "string option"
  hi_user_email :: "string option"
  hi_actor_type :: "string option"
  hi_actor_id :: "string option"
  hi_action :: string
  hi_target_type :: "string option"
  hi_target_id :: "string option"
  hi_payload :: "string option"

definition json_opt_str :: "string option \<Rightarrow> json" where
  "json_opt_str x = (case x of None \<Rightarrow> JNull | Some s \<Rightarrow> JStr s)"

definition canonical_record :: "audit_hash_input \<Rightarrow> json" where
  "canonical_record x = JObj
     [ (''actionType'', JStr (hi_action x)),
       (''actorId'', json_opt_str (hi_actor_id x)),
       (''actorType'', json_opt_str (hi_actor_type x)),
       (''apiKeyHash'', json_opt_str (hi_api_key_hash x)),
       (''chainSeq'', JNum (of_int (hi_seq x))),
       (''createdAt'', JNum (of_int (hi_created_at x))),
       (''eventKind'', JStr (event_kind_name (hi_kind x))),
       (''id'', JStr (hi_id x)),
       (''latencyMs'', JNum (hi_latency x)),
       (''method'', JStr (hi_method x)),
       (''path'', JStr (hi_path x)),
       (''payloadJson'', json_opt_str (hi_payload x)),
       (''prevHash'', JStr (hi_prev x)),
       (''requestId'', JStr (hi_request_id x)),
       (''statusCode'', JNum (of_int (hi_status x))),
       (''targetId'', json_opt_str (hi_target_id x)),
       (''targetType'', json_opt_str (hi_target_type x)),
       (''tenantId'', JStr (hi_tenant x)),
       (''userEmail'', json_opt_str (hi_user_email x)),
       (''userId'', json_opt_str (hi_user_id x)) ]"

definition canonical_serialize :: "(json \<Rightarrow> string) \<Rightarrow> audit_hash_input \<Rightarrow> string" where
  "canonical_serialize str x = str (canonical_record x)"

definition genesis_hash :: string where
  "genesis_hash = replicate 64 (CHR ''0'')"

definition compute_record_hash ::
  "(string \<Rightarrow> string) \<Rightarrow> (json \<Rightarrow> string) \<Rightarrow> audit_hash_input \<Rightarrow> string" where
  "compute_record_hash sha str x = sha (canonical_serialize str x)"

subsection \<open>Verifying a chain\<close>

datatype break_reason =
  Seq_Gap int int | Prev_Hash_Mismatch string string | Record_Hash_Mismatch string string

record chain_break =
  cb_seq :: int
  cb_id :: ident
  cb_reason :: break_reason

record chain_verify_result =
  cv_ok :: bool
  cv_total :: nat
  cv_breaks :: "chain_break list"

text \<open>A verifiable row is a hash input with the stored hash.\<close>

type_synonym verifiable_row = "audit_hash_input \<times> string"

definition row_breaks ::
  "(string \<Rightarrow> string) \<Rightarrow> (json \<Rightarrow> string) \<Rightarrow> int \<Rightarrow> string \<Rightarrow> verifiable_row \<Rightarrow> chain_break list" where
  "row_breaks sha str expected_seq expected_prev r =
     (let x = fst r; stored = snd r; recomputed = compute_record_hash sha str x;
          brk = (\<lambda>why. \<lparr> cb_seq = hi_seq x, cb_id = hi_id x, cb_reason = why \<rparr>) in
      (if hi_seq x \<noteq> expected_seq then [brk (Seq_Gap expected_seq (hi_seq x))] else []) @
      (if hi_prev x \<noteq> expected_prev then [brk (Prev_Hash_Mismatch expected_prev (hi_prev x))] else []) @
      (if recomputed \<noteq> stored then [brk (Record_Hash_Mismatch recomputed stored)] else []))"

text \<open>The loop: after a gap the expected number is re-synchronised to the row's.\<close>

fun chain_breaks ::
  "(string \<Rightarrow> string) \<Rightarrow> (json \<Rightarrow> string) \<Rightarrow> int \<Rightarrow> string \<Rightarrow> verifiable_row list \<Rightarrow> chain_break list" where
  "chain_breaks sha str expected_seq expected_prev [] = []"
| "chain_breaks sha str expected_seq expected_prev (r # rs) =
     row_breaks sha str expected_seq expected_prev r @
     chain_breaks sha str (hi_seq (fst r) + 1) (snd r) rs"

definition verify_chain ::
  "(string \<Rightarrow> string) \<Rightarrow> (json \<Rightarrow> string) \<Rightarrow> verifiable_row list \<Rightarrow> (int \<times> string) option \<Rightarrow>
   chain_verify_result" where
  "verify_chain sha str rows start =
     (let (seq, prev) = or_default start (1, genesis_hash);
          breaks = chain_breaks sha str seq prev rows in
      \<lparr> cv_ok = (breaks = []), cv_total = length rows, cv_breaks = breaks \<rparr>)"

subsection \<open>Rows and statements\<close>

record audit_row =
  au_id :: ident
  au_tenant :: ident
  au_kind :: event_kind
  au_timestamp :: millis
  au_created_at :: millis
  au_method :: string
  au_path :: string
  au_request_id :: string
  au_status :: int
  au_latency :: rat
  au_api_key_hash :: "string option"
  au_user_id :: "string option"
  au_user_email :: "string option"
  au_actor_type :: "string option"
  au_actor_id :: "string option"
  au_action :: string
  au_target_type :: "string option"
  au_target_id :: "string option"
  au_payload :: "string option"
  au_seq :: "int option"
  au_prev :: "string option"
  au_hash :: "string option"

type_synonym audit_table = "audit_row list"

datatype audit_error = Unique_Violation

text \<open>
  The primary key and the partial unique index on \<^verbatim>\<open>(tenant_id, chain_seq)\<close> reject a colliding
  insert.
\<close>

definition audit_insert :: "audit_table \<Rightarrow> audit_row \<Rightarrow> audit_error + audit_table" where
  "audit_insert t row =
     (if list_ex (\<lambda>r. au_id r = au_id row \<or>
          au_tenant r = au_tenant row \<and> au_seq r \<noteq> None \<and> au_seq r = au_seq row) t
      then Inl Unique_Violation else Inr (t @ [row]))"

definition request_row :: "audit_hash_input \<Rightarrow> string \<Rightarrow> audit_row" where
  "request_row p h =
     \<lparr> au_id = hi_id p, au_tenant = hi_tenant p, au_kind = Ev_Request,
       au_timestamp = hi_created_at p, au_created_at = hi_created_at p,
       au_method = hi_method p, au_path = hi_path p, au_request_id = hi_request_id p,
       au_status = hi_status p, au_latency = hi_latency p,
       au_api_key_hash = hi_api_key_hash p, au_user_id = hi_user_id p,
       au_user_email = hi_user_email p, au_actor_type = hi_actor_type p,
       au_actor_id = hi_actor_id p, au_action = hi_action p,
       au_target_type = None, au_target_id = None, au_payload = hi_payload p,
       au_seq = Some (hi_seq p), au_prev = Some (hi_prev p), au_hash = Some h \<rparr>"

definition business_row :: "audit_hash_input \<Rightarrow> string \<Rightarrow> audit_row" where
  "business_row p h =
     \<lparr> au_id = hi_id p, au_tenant = hi_tenant p, au_kind = Ev_Business,
       au_timestamp = hi_created_at p, au_created_at = hi_created_at p,
       au_method = ''EVENT'', au_path = hi_path p, au_request_id = hi_request_id p,
       au_status = 200, au_latency = 0,
       au_api_key_hash = None, au_user_id = hi_user_id p,
       au_user_email = None, au_actor_type = hi_actor_type p,
       au_actor_id = hi_actor_id p, au_action = hi_action p,
       au_target_type = hi_target_type p, au_target_id = hi_target_id p,
       au_payload = hi_payload p,
       au_seq = Some (hi_seq p), au_prev = Some (hi_prev p), au_hash = Some h \<rparr>"

definition in_chain :: "ident \<Rightarrow> audit_row \<Rightarrow> bool" where
  "in_chain tenant r \<longleftrightarrow> au_tenant r = tenant \<and> au_seq r \<noteq> None"

definition seq_of :: "audit_row \<Rightarrow> int" where
  "seq_of r = or_default (au_seq r) 0"

definition audit_query_chain_tail :: "audit_table \<Rightarrow> ident \<Rightarrow> (int \<times> string option) option" where
  "audit_query_chain_tail t tenant =
     (case sort_key (\<lambda>r. - seq_of r) (filter (in_chain tenant) t) of
        [] \<Rightarrow> None | r # _ \<Rightarrow> Some (seq_of r, au_hash r))"

definition limit_rows :: "nat option \<Rightarrow> 'r list \<Rightarrow> 'r list" where
  "limit_rows limit rows = (case limit of None \<Rightarrow> rows | Some n \<Rightarrow> take n rows)"

definition in_range :: "int option \<Rightarrow> int option \<Rightarrow> audit_row \<Rightarrow> bool" where
  "in_range from to r \<longleftrightarrow>
     opt_all (\<lambda>a. a \<le> seq_of r) from \<and> opt_all (\<lambda>b. seq_of r \<le> b) to"

definition audit_query_chain_range ::
  "audit_table \<Rightarrow> ident \<Rightarrow> int option \<Rightarrow> int option \<Rightarrow> nat option \<Rightarrow> audit_row list" where
  "audit_query_chain_range t tenant from to limit =
     limit_rows limit (sort_key seq_of (filter (\<lambda>r. in_chain tenant r \<and> in_range from to r) t))"

record audit_filter =
  af_tenant :: ident
  af_kind :: "event_kind option"
  af_actor :: "string option"
  af_action :: "string option"
  af_target_type :: "string option"
  af_target_id :: "string option"

text \<open>An empty string is no filter: the clause is added only for a truthy parameter.\<close>

definition build_audit_where :: "audit_filter \<Rightarrow> audit_row \<Rightarrow> bool" where
  "build_audit_where p r \<longleftrightarrow>
     au_tenant r = af_tenant p \<and>
     (af_kind p \<noteq> None \<longrightarrow> Some (au_kind r) = af_kind p) \<and>
     (truthy (af_actor p) \<longrightarrow> au_actor_id r = af_actor p) \<and>
     (truthy (af_action p) \<longrightarrow> Some (au_action r) = af_action p) \<and>
     (truthy (af_target_type p) \<longrightarrow> au_target_type r = af_target_type p) \<and>
     (truthy (af_target_id p) \<longrightarrow> au_target_id r = af_target_id p)"

definition audit_query_by_id :: "audit_table \<Rightarrow> ident \<Rightarrow> ident \<Rightarrow> audit_row option" where
  "audit_query_by_id t tenant i = select_one (\<lambda>r. au_tenant r = tenant \<and> au_id r = i) t"

definition audit_query_list :: "audit_table \<Rightarrow> audit_filter \<Rightarrow> nat \<Rightarrow> nat \<Rightarrow> audit_row list" where
  "audit_query_list t p limit offset =
     take limit (drop offset (sort_key (\<lambda>r. - au_created_at r)
       (sort_key (\<lambda>r. - au_timestamp r) (filter (build_audit_where p) t))))"

definition audit_query_count :: "audit_table \<Rightarrow> audit_filter \<Rightarrow> nat" where
  "audit_query_count t p = count_where (build_audit_where p) t"

subsection \<open>The store\<close>

datatype actor_type = Actor_User | Actor_Api_Key | Actor_System

fun actor_type_name :: "actor_type \<Rightarrow> string" where
  "actor_type_name Actor_User = ''user''"
| "actor_type_name Actor_Api_Key = ''api_key''"
| "actor_type_name Actor_System = ''system''"

record request_audit_input =
  ra_tenant :: ident
  ra_request_id :: string
  ra_method :: string
  ra_path :: string
  ra_status :: int
  ra_latency :: rat
  ra_api_key :: "string option"
  ra_user_id :: "string option"
  ra_user_email :: "string option"
  ra_actor_type :: "actor_type option"
  ra_actor_id :: "string option"
  ra_action :: string
  ra_payload :: "json option"
  ra_created_at :: "millis option"

record business_audit_input =
  ba_tenant :: ident
  ba_actor_type :: actor_type
  ba_actor_id :: ident
  ba_action :: string
  ba_target_type :: string
  ba_target_id :: string
  ba_payload :: "json option"
  ba_request_id :: "string option"
  ba_created_at :: "millis option"

definition hash_api_key :: "(string \<Rightarrow> string) \<Rightarrow> string option \<Rightarrow> string option" where
  "hash_api_key sha k =
     (case k of None \<Rightarrow> None | Some s \<Rightarrow> if s = [] then None else Some (js_prefix 16 (sha s)))"

text \<open>Rows of the chain always carry their hash; a null one would read as the empty text.\<close>

definition read_chain_tail :: "audit_table \<Rightarrow> ident \<Rightarrow> int \<times> string" where
  "read_chain_tail t tenant =
     (case audit_query_chain_tail t tenant of
        None \<Rightarrow> (0, genesis_hash) | Some (seq, h) \<Rightarrow> (seq, or_default h []))"

definition request_hash_input ::
  "(string \<Rightarrow> string) \<Rightarrow> (json \<Rightarrow> string) \<Rightarrow> request_audit_input \<Rightarrow> ident \<Rightarrow> millis \<Rightarrow> int \<times> string \<Rightarrow>
   audit_hash_input" where
  "request_hash_input sha str inp i now tail =
     \<lparr> hi_id = i, hi_tenant = ra_tenant inp, hi_kind = Ev_Request,
       hi_created_at = or_default (ra_created_at inp) now,
       hi_seq = fst tail + 1, hi_prev = snd tail,
       hi_method = ra_method inp, hi_path = ra_path inp, hi_request_id = ra_request_id inp,
       hi_status = ra_status inp, hi_latency = of_int (js_round (ra_latency inp * 100)) / 100,
       hi_api_key_hash = hash_api_key sha (ra_api_key inp),
       hi_user_id = ra_user_id inp, hi_user_email = ra_user_email inp,
       hi_actor_type = map_option actor_type_name (ra_actor_type inp),
       hi_actor_id = ra_actor_id inp, hi_action = ra_action inp,
       hi_target_type = None, hi_target_id = None, hi_payload = map_option str (ra_payload inp) \<rparr>"

definition business_hash_input ::
  "(json \<Rightarrow> string) \<Rightarrow> business_audit_input \<Rightarrow> ident \<Rightarrow> millis \<Rightarrow> int \<times> string \<Rightarrow> audit_hash_input" where
  "business_hash_input str inp i now tail =
     \<lparr> hi_id = i, hi_tenant = ba_tenant inp, hi_kind = Ev_Business,
       hi_created_at = or_default (ba_created_at inp) now,
       hi_seq = fst tail + 1, hi_prev = snd tail,
       hi_method = ''EVENT'', hi_path = ''/audit/business/'' @ ba_action inp,
       hi_request_id = or_default (ba_request_id inp) (''audit:'' @ i),
       hi_status = 200, hi_latency = 0, hi_api_key_hash = None,
       hi_user_id = (if ba_actor_type inp = Actor_User then Some (ba_actor_id inp) else None),
       hi_user_email = None,
       hi_actor_type = Some (actor_type_name (ba_actor_type inp)),
       hi_actor_id = Some (ba_actor_id inp), hi_action = ba_action inp,
       hi_target_type = Some (ba_target_type inp), hi_target_id = Some (ba_target_id inp),
       hi_payload = map_option str (ba_payload inp) \<rparr>"

definition record_request_audit_log ::
  "(string \<Rightarrow> string) \<Rightarrow> (json \<Rightarrow> string) \<Rightarrow> audit_table \<Rightarrow> request_audit_input \<Rightarrow> ident \<Rightarrow> millis \<Rightarrow>
   audit_error + audit_table" where
  "record_request_audit_log sha str t inp i now =
     (let x = request_hash_input sha str inp i now (read_chain_tail t (ra_tenant inp)) in
      audit_insert t (request_row x (compute_record_hash sha str x)))"

definition record_business_audit_log ::
  "(string \<Rightarrow> string) \<Rightarrow> (json \<Rightarrow> string) \<Rightarrow> audit_table \<Rightarrow> business_audit_input \<Rightarrow> ident \<Rightarrow> millis \<Rightarrow>
   audit_error + (audit_table \<times> ident)" where
  "record_business_audit_log sha str t inp i now =
     (let x = business_hash_input str inp i now (read_chain_tail t (ba_tenant inp)) in
      case audit_insert t (business_row x (compute_record_hash sha str x)) of
        Inl e \<Rightarrow> Inl e | Inr t' \<Rightarrow> Inr (t', i))"

definition to_verifiable :: "audit_row \<Rightarrow> verifiable_row option" where
  "to_verifiable r =
     (case (au_seq r, au_prev r, au_hash r) of
        (Some s, Some p, Some h) \<Rightarrow> Some
          (\<lparr> hi_id = au_id r, hi_tenant = au_tenant r, hi_kind = au_kind r,
             hi_created_at = au_created_at r, hi_seq = s, hi_prev = p,
             hi_method = au_method r, hi_path = au_path r, hi_request_id = au_request_id r,
             hi_status = au_status r, hi_latency = au_latency r,
             hi_api_key_hash = au_api_key_hash r, hi_user_id = au_user_id r,
             hi_user_email = au_user_email r, hi_actor_type = au_actor_type r,
             hi_actor_id = au_actor_id r, hi_action = au_action r,
             hi_target_type = au_target_type r, hi_target_id = au_target_id r,
             hi_payload = au_payload r \<rparr>, h)
      | _ \<Rightarrow> None)"

definition verify_start ::
  "audit_table \<Rightarrow> ident \<Rightarrow> int option \<Rightarrow> verifiable_row list \<Rightarrow> (int \<times> string) option" where
  "verify_start t tenant from rows =
     (case rows of
        [] \<Rightarrow> None
      | r # _ \<Rightarrow>
          (let first_seq = hi_seq (fst r) in
           if first_seq \<le> 1 then None
           else (case audit_query_chain_range t tenant (Some (first_seq - 1)) (Some (first_seq - 1)) (Some 1) of
                   [p] \<Rightarrow> (case au_hash p of
                            Some h \<Rightarrow> Some (first_seq, h)
                          | None \<Rightarrow> if from \<noteq> None then Some (first_seq, hi_prev (fst r)) else None)
                 | _ \<Rightarrow> if from \<noteq> None then Some (first_seq, hi_prev (fst r)) else None)))"

definition verify_audit_chain ::
  "(string \<Rightarrow> string) \<Rightarrow> (json \<Rightarrow> string) \<Rightarrow> audit_table \<Rightarrow> ident \<Rightarrow> int option \<Rightarrow> int option \<Rightarrow>
   nat option \<Rightarrow> chain_verify_result" where
  "verify_audit_chain sha str t tenant from to limit =
     (let rows = List.map_filter to_verifiable (audit_query_chain_range t tenant from to limit) in
      verify_chain sha str rows (verify_start t tenant from rows))"

subsection \<open>Reading\<close>

record audit_log_record =
  al_row :: audit_row
  al_payload :: "json option"

text \<open>\<open>parse\<close> is \<^verbatim>\<open>JSON.parse\<close>, \<open>None\<close> when it throws; only an object is a payload.\<close>

definition safe_parse_payload :: "(string \<Rightarrow> json option) \<Rightarrow> string option \<Rightarrow> json option" where
  "safe_parse_payload parse col =
     (if \<not> truthy col then None
      else (case parse (the col) of Some (JObj ps) \<Rightarrow> Some (JObj ps) | _ \<Rightarrow> None))"

definition audit_log_from_row :: "(string \<Rightarrow> json option) \<Rightarrow> audit_row \<Rightarrow> audit_log_record" where
  "audit_log_from_row parse r = \<lparr> al_row = r, al_payload = safe_parse_payload parse (au_payload r) \<rparr>"

definition get_audit_log_by_id ::
  "(string \<Rightarrow> json option) \<Rightarrow> audit_table \<Rightarrow> ident \<Rightarrow> ident \<Rightarrow> audit_log_record option" where
  "get_audit_log_by_id parse t tenant i =
     map_option (audit_log_from_row parse) (audit_query_by_id t tenant i)"

definition query_audit_log ::
  "(string \<Rightarrow> json option) \<Rightarrow> audit_table \<Rightarrow> audit_filter \<Rightarrow> nat option \<Rightarrow> nat option \<Rightarrow>
   audit_log_record list" where
  "query_audit_log parse t p limit offset =
     map (audit_log_from_row parse)
       (audit_query_list t p (or_default limit 100) (or_default offset 0))"

definition count_audit_logs :: "audit_table \<Rightarrow> audit_filter \<Rightarrow> nat" where
  "count_audit_logs t p = audit_query_count t p"

subsection \<open>Well-linked chains\<close>

fun linked ::
  "(string \<Rightarrow> string) \<Rightarrow> (json \<Rightarrow> string) \<Rightarrow> int \<Rightarrow> string \<Rightarrow> audit_row list \<Rightarrow> bool" where
  "linked sha str s p [] = True"
| "linked sha str s p (r # rs) =
     (case to_verifiable r of
        None \<Rightarrow> False
      | Some (x, h) \<Rightarrow> hi_seq x = s \<and> hi_prev x = p \<and> compute_record_hash sha str x = h \<and>
                      linked sha str (s + 1) h rs)"

definition chain_rows :: "audit_table \<Rightarrow> ident \<Rightarrow> audit_row list" where
  "chain_rows t tenant = filter (in_chain tenant) t"

definition audit_ok :: "(string \<Rightarrow> string) \<Rightarrow> (json \<Rightarrow> string) \<Rightarrow> audit_table \<Rightarrow> bool" where
  "audit_ok sha str t \<longleftrightarrow> (\<forall>tenant. linked sha str 1 genesis_hash (chain_rows t tenant))"

fun consecutive :: "int \<Rightarrow> audit_row list \<Rightarrow> bool" where
  "consecutive s [] = True"
| "consecutive s (r # rs) = (seq_of r = s \<and> consecutive (s + 1) rs)"

definition last_hash :: "string \<Rightarrow> audit_row list \<Rightarrow> string" where
  "last_hash p rs = (if rs = [] then p else or_default (au_hash (last rs)) [])"

lemma last_hash_simps [simp]:
  "last_hash p [] = p" "last_hash p (rs @ [r]) = or_default (au_hash r) []"
  by (simp_all add: last_hash_def)

lemma last_hash_Cons [simp]: "last_hash p (r # rs) = last_hash (or_default (au_hash r) []) rs"
  by (simp add: last_hash_def)

lemma to_verifiable_SomeD:
  "to_verifiable r = Some (x, h) \<Longrightarrow>
     au_seq r = Some (hi_seq x) \<and> seq_of r = hi_seq x \<and> au_prev r = Some (hi_prev x) \<and>
     au_hash r = Some h"
  by (auto simp: to_verifiable_def seq_of_def split: option.splits)

lemma linked_consecutive: "linked sha str s p rs \<Longrightarrow> consecutive s rs"
  by (induction rs arbitrary: s p) (auto split: option.splits dest: to_verifiable_SomeD)

lemma linked_append:
  "linked sha str s p (rs @ qs) \<longleftrightarrow>
     linked sha str s p rs \<and> linked sha str (s + int (length rs)) (last_hash p rs) qs"
proof (induction rs arbitrary: s p)
  case (Cons r rs)
  then show ?case
    by (auto split: option.splits dest!: to_verifiable_SomeD simp: algebra_simps)
qed simp

lemma linked_drop:
  assumes "linked sha str s p rs" and "j \<le> length rs"
  shows "linked sha str (s + int j) (last_hash p (take j rs)) (drop j rs)"
proof -
  have "linked sha str s p (take j rs @ drop j rs)" using assms(1) by simp
  then have "linked sha str (s + int (length (take j rs))) (last_hash p (take j rs)) (drop j rs)"
    unfolding linked_append by blast
  moreover have "length (take j rs) = j" using assms(2) by simp
  ultimately show ?thesis by simp
qed

lemma linked_take: "linked sha str s p rs \<Longrightarrow> linked sha str s p (take j rs)"
  using linked_append [of sha str s p "take j rs" "drop j rs"] by simp

lemma linked_hash:
  assumes "linked sha str s p rs" and "r \<in> set rs"
  shows "au_hash r \<noteq> None \<and> au_seq r \<noteq> None"
  using assms
  by (induction rs arbitrary: s p) (auto split: option.splits dest!: to_verifiable_SomeD)

lemma linked_no_breaks:
  "linked sha str s p rs \<Longrightarrow> chain_breaks sha str s p (List.map_filter to_verifiable rs) = []"
  by (induction rs arbitrary: s p)
     (auto simp: row_breaks_def split: option.splits)

lemma consecutive_seqs:
  "consecutive s rs \<Longrightarrow> r \<in> set rs \<Longrightarrow> s \<le> seq_of r \<and> seq_of r < s + int (length rs)"
  by (induction rs arbitrary: s) force+

lemma consecutive_hit:
  "consecutive s rs \<Longrightarrow> s \<le> k \<Longrightarrow> k < s + int (length rs) \<Longrightarrow> \<exists>r \<in> set rs. seq_of r = k"
proof (induction rs arbitrary: s)
  case (Cons r rs)
  then show ?case by (cases "k = s") auto
qed simp

lemma consecutive_last:
  "consecutive s rs \<Longrightarrow> rs \<noteq> [] \<Longrightarrow> seq_of (last rs) = s + int (length rs) - 1"
  by (induction rs arbitrary: s) auto

lemma consecutive_last_unique:
  assumes "consecutive s rs" and "r \<in> set rs" and "seq_of r = s + int (length rs) - 1"
  shows "r = last rs"
  using assms
proof (induction rs arbitrary: s)
  case (Cons q rs)
  show ?case
  proof (cases "rs = []")
    case False
    with Cons.prems have "r \<noteq> q \<or> r \<in> set rs" by auto
    moreover have "r = q \<Longrightarrow> False" using Cons.prems False by simp
    ultimately show ?thesis using Cons False by (auto simp: algebra_simps)
  qed (use Cons.prems in simp)
qed simp

lemma consecutive_sorted: "consecutive s rs \<Longrightarrow> sorted (map seq_of rs)"
proof (induction rs arbitrary: s)
  case (Cons r rs)
  then show ?case using consecutive_seqs [of "s + 1" rs] by fastforce
qed simp

lemma consecutive_from:
  "consecutive s rs \<Longrightarrow> filter (\<lambda>r. a \<le> seq_of r) rs = drop (nat (a - s)) rs"
proof (induction rs arbitrary: s)
  case (Cons r rs)
  then have IH: "filter (\<lambda>r. a \<le> seq_of r) rs = drop (nat (a - (s + 1))) rs" by simp
  show ?case
  proof (cases "a \<le> s")
    case False
    then have "nat (a - s) = Suc (nat (a - (s + 1)))" by simp
    with IH Cons.prems False show ?thesis by simp
  qed (use IH Cons.prems in simp)
qed simp

lemma consecutive_to:
  "consecutive s rs \<Longrightarrow> filter (\<lambda>r. seq_of r \<le> b) rs = take (nat (b - s + 1)) rs"
proof (induction rs arbitrary: s)
  case (Cons r rs)
  then have IH: "filter (\<lambda>r. seq_of r \<le> b) rs = take (nat (b - (s + 1) + 1)) rs"
    using Cons.IH [of "s + 1"] by simp
  show ?case
  proof (cases "s \<le> b")
    case True
    then have "nat (b - s + 1) = Suc (nat (b - (s + 1) + 1))" by simp
    with IH Cons.prems True show ?thesis by simp
  next
    case False
    with IH Cons.prems show ?thesis by simp
  qed
qed simp

lemma chain_rows_consecutive: "audit_ok sha str t \<Longrightarrow> consecutive 1 (chain_rows t tenant)"
  by (auto simp: audit_ok_def intro: linked_consecutive)

subsection \<open>Appending\<close>

lemma request_row_verifiable:
  "to_verifiable (request_row (request_hash_input sha str inp i now tail) h) =
     Some (request_hash_input sha str inp i now tail, h)"
  by (simp add: to_verifiable_def request_row_def request_hash_input_def)

lemma business_row_verifiable:
  "to_verifiable (business_row (business_hash_input str inp i now tail) h) =
     Some (business_hash_input str inp i now tail, h)"
  by (simp add: to_verifiable_def business_row_def business_hash_input_def)

lemma chain_rows_append:
  "chain_rows (t @ [r]) tenant = chain_rows t tenant @ (if in_chain tenant r then [r] else [])"
  by (simp add: chain_rows_def)

text \<open>
  A tail that was read at any earlier moment still fits a row of the table, or is the genesis.
\<close>

definition tail_known :: "audit_table \<Rightarrow> ident \<Rightarrow> int \<times> string \<Rightarrow> bool" where
  "tail_known t tenant tail \<longleftrightarrow>
     tail = (0, genesis_hash) \<or>
     (\<exists>r \<in> set (chain_rows t tenant). seq_of r = fst tail \<and> au_hash r = Some (snd tail))"

lemma tail_known_append: "tail_known t tenant tail \<Longrightarrow> tail_known (t @ [r]) tenant tail"
  by (auto simp: tail_known_def chain_rows_append)

lemma read_tail_known:
  assumes "audit_ok sha str t"
  shows "tail_known t tenant (read_chain_tail t tenant)"
proof (cases "sort_key (\<lambda>r. - seq_of r) (chain_rows t tenant)")
  case Nil
  then show ?thesis
    by (simp add: tail_known_def read_chain_tail_def audit_query_chain_tail_def chain_rows_def)
next
  case (Cons r rs)
  then have r: "r \<in> set (chain_rows t tenant)" by (auto dest: sort_key_ConsD)
  then have "au_hash r \<noteq> None"
    using linked_hash [of sha str 1 genesis_hash "chain_rows t tenant" r] assms
    by (simp add: audit_ok_def)
  with r Cons show ?thesis
    by (auto simp: tail_known_def read_chain_tail_def audit_query_chain_tail_def chain_rows_def)
qed

text \<open>The unique index lets an insert through only if its tail is still the tail of the chain.\<close>

lemma fresh_tail_is_last:
  assumes ok: "audit_ok sha str t" and known: "tail_known t tenant tail"
    and fresh: "\<forall>r \<in> set (chain_rows t tenant). seq_of r \<noteq> fst tail + 1"
  shows "fst tail = int (length (chain_rows t tenant)) \<and>
         snd tail = last_hash genesis_hash (chain_rows t tenant)"
proof -
  let ?rs = "chain_rows t tenant"
  have c: "consecutive 1 ?rs" using chain_rows_consecutive [OF ok] .
  have bounds: "0 \<le> fst tail \<and> fst tail \<le> int (length ?rs)"
    using known consecutive_seqs [OF c] unfolding tail_known_def by force
  have n: "fst tail = int (length ?rs)"
    using consecutive_hit [OF c, of "fst tail + 1"] fresh bounds by force
  show ?thesis
  proof (cases "?rs = []")
    case True
    with known n show ?thesis by (simp add: tail_known_def)
  next
    case False
    then have "fst tail \<noteq> 0" using n by simp
    then obtain r where r: "r \<in> set ?rs" "seq_of r = fst tail" "au_hash r = Some (snd tail)"
      using known unfolding tail_known_def by auto
    have "r = last ?rs" using consecutive_last_unique [OF c r(1)] r(2) n by simp
    with r n False show ?thesis by (simp add: last_hash_def)
  qed
qed

lemma audit_insert_ok:
  assumes ok: "audit_ok sha str t" and ins: "audit_insert t row = Inr t'"
    and known: "tail_known t (hi_tenant x) (hi_seq x - 1, hi_prev x)"
    and row: "to_verifiable row = Some (x, compute_record_hash sha str x)"
  shows "audit_ok sha str t'"
proof -
  have t': "t' = t @ [row]"
    and nocol: "\<forall>r \<in> set t. \<not> (au_tenant r = au_tenant row \<and> au_seq r \<noteq> None \<and> au_seq r = au_seq row)"
    using ins by (auto simp: audit_insert_def list_ex_iff split: if_splits)
  have tenant: "au_tenant row = hi_tenant x" and seq: "au_seq row = Some (hi_seq x)"
    using row by (auto simp: to_verifiable_def split: option.splits)
  have "\<forall>r \<in> set (chain_rows t (hi_tenant x)). seq_of r \<noteq> fst (hi_seq x - 1, hi_prev x) + 1"
    using nocol tenant seq by (auto simp: chain_rows_def in_chain_def seq_of_def)
  note tl = fresh_tail_is_last [OF ok known this]
  show ?thesis
  proof (unfold audit_ok_def, intro allI)
    fix tn
    have old: "linked sha str 1 genesis_hash (chain_rows t tn)" using ok by (simp add: audit_ok_def)
    show "linked sha str 1 genesis_hash (chain_rows t' tn)"
    proof (cases "tn = hi_tenant x")
      case True
      then have "chain_rows t' tn = chain_rows t tn @ [row]"
        using tenant seq by (simp add: t' chain_rows_append in_chain_def)
      with old tl row True show ?thesis by (simp add: linked_append)
    next
      case False
      then have "chain_rows t' tn = chain_rows t tn"
        using tenant by (simp add: t' chain_rows_append in_chain_def)
      with old show ?thesis by simp
    qed
  qed
qed

subsection \<open>Interleaved writers\<close>

text \<open>
  A writer reads the tail of its tenant's chain and later inserts; between the two, other writers
  may do the same (on PostgreSQL when the advisory lock is not taken). A rejected insert leaves the
  table as it is.
\<close>

datatype audit_job =
  Job_Request request_audit_input ident millis | Job_Business business_audit_input ident millis

fun job_tenant :: "audit_job \<Rightarrow> ident" where
  "job_tenant (Job_Request inp _ _) = ra_tenant inp"
| "job_tenant (Job_Business inp _ _) = ba_tenant inp"

fun job_row ::
  "(string \<Rightarrow> string) \<Rightarrow> (json \<Rightarrow> string) \<Rightarrow> audit_job \<Rightarrow> int \<times> string \<Rightarrow> audit_row" where
  "job_row sha str (Job_Request inp i now) tail =
     (let x = request_hash_input sha str inp i now tail in request_row x (compute_record_hash sha str x))"
| "job_row sha str (Job_Business inp i now) tail =
     (let x = business_hash_input str inp i now tail in business_row x (compute_record_hash sha str x))"

record audit_world =
  aw_table :: audit_table
  aw_pending :: "ident \<Rightarrow> (audit_job \<times> int \<times> string) option"

datatype audit_event = Aud_Read ident audit_job | Aud_Insert ident

fun audit_step ::
  "(string \<Rightarrow> string) \<Rightarrow> (json \<Rightarrow> string) \<Rightarrow> audit_world \<Rightarrow> audit_event \<Rightarrow> audit_world" where
  "audit_step sha str w (Aud_Read p job) =
     w\<lparr>aw_pending := (aw_pending w)(p \<mapsto> (job, read_chain_tail (aw_table w) (job_tenant job)))\<rparr>"
| "audit_step sha str w (Aud_Insert p) =
     (case aw_pending w p of
        None \<Rightarrow> w
      | Some (job, tail) \<Rightarrow>
          (case audit_insert (aw_table w) (job_row sha str job tail) of
             Inl _ \<Rightarrow> w\<lparr>aw_pending := (aw_pending w)(p := None)\<rparr>
           | Inr t' \<Rightarrow> \<lparr> aw_table = t', aw_pending = (aw_pending w)(p := None) \<rparr>))"

definition audit_world_ok ::
  "(string \<Rightarrow> string) \<Rightarrow> (json \<Rightarrow> string) \<Rightarrow> audit_world \<Rightarrow> bool" where
  "audit_world_ok sha str w \<longleftrightarrow>
     audit_ok sha str (aw_table w) \<and>
     (\<forall>p job tail. aw_pending w p = Some (job, tail) \<longrightarrow>
        tail_known (aw_table w) (job_tenant job) tail)"

lemma job_row_verifiable:
  "\<exists>x. to_verifiable (job_row sha str job tail) = Some (x, compute_record_hash sha str x) \<and>
     hi_tenant x = job_tenant job \<and> hi_seq x = fst tail + 1 \<and> hi_prev x = snd tail"
proof (cases job)
  case (Job_Request inp i now)
  then show ?thesis
    by (simp add: Let_def request_row_verifiable) (simp add: request_hash_input_def)
next
  case (Job_Business inp i now)
  then show ?thesis
    by (simp add: Let_def business_row_verifiable) (simp add: business_hash_input_def)
qed

lemma job_insert_ok:
  assumes "audit_ok sha str t" and "tail_known t (job_tenant job) tail"
    and "audit_insert t (job_row sha str job tail) = Inr t'"
  shows "audit_ok sha str t'"
proof -
  obtain x where x: "to_verifiable (job_row sha str job tail) = Some (x, compute_record_hash sha str x)"
    "hi_tenant x = job_tenant job" "hi_seq x = fst tail + 1" "hi_prev x = snd tail"
    using job_row_verifiable by blast
  show ?thesis using audit_insert_ok [OF assms(1,3) _ x(1)] assms(2) x by simp
qed

lemma audit_insert_append: "audit_insert t row = Inr t' \<Longrightarrow> t' = t @ [row]"
  by (simp add: audit_insert_def split: if_splits)

lemma audit_step_ok:
  assumes w: "audit_world_ok sha str w"
  shows "audit_world_ok sha str (audit_step sha str w e)"
proof (cases e)
  case (Aud_Read p job)
  with w read_tail_known [of sha str "aw_table w" "job_tenant job"] show ?thesis
    by (auto simp: audit_world_ok_def)
next
  case (Aud_Insert p)
  show ?thesis
  proof (cases "aw_pending w p")
    case (Some jt)
    then obtain job tail where jt: "aw_pending w p = Some (job, tail)" by (cases jt) auto
    show ?thesis
    proof (cases "audit_insert (aw_table w) (job_row sha str job tail)")
      case (Inl e)
      with w jt Aud_Insert show ?thesis by (simp add: audit_world_ok_def)
    next
      case (Inr t')
      have ok: "audit_ok sha str (aw_table w)" and tl: "tail_known (aw_table w) (job_tenant job) tail"
        using w jt by (cases tail, auto simp: audit_world_ok_def)+
      have "audit_ok sha str t'" by (rule job_insert_ok [OF ok tl Inr])
      with w jt Aud_Insert Inr show ?thesis
        using audit_insert_append [OF Inr] tail_known_append by (simp add: audit_world_ok_def)
    qed
  qed (use w Aud_Insert in simp)
qed

interpretation audit_log: invariant_machine "audit_step sha str" "audit_world_ok sha str" for sha str
  by unfold_locales (rule audit_step_ok)

subsection \<open>Verifying a well-linked log\<close>

lemma consecutive_drop: "consecutive s rs \<Longrightarrow> consecutive (s + int j) (drop j rs)"
proof (induction rs arbitrary: s j)
  case (Cons r rs)
  show ?case
  proof (cases j)
    case (Suc i)
    with Cons.IH [of "s + 1" i] Cons.prems show ?thesis by (simp add: algebra_simps)
  qed (use Cons.prems in simp)
qed simp

lemma consecutive_map:
  "consecutive s rs \<Longrightarrow> (\<And>r. seq_of (f r) = seq_of r) \<Longrightarrow> consecutive s (map f rs)"
  by (induction rs arbitrary: s) simp_all

lemma consecutive_take: "consecutive s rs \<Longrightarrow> consecutive s (take j rs)"
proof (induction rs arbitrary: s j)
  case (Cons r rs)
  then show ?case by (cases j) simp_all
qed simp

lemma range_filter_split:
  "filter (\<lambda>r. in_chain tenant r \<and> in_range from to r) t =
     filter (\<lambda>r. opt_all (\<lambda>b. seq_of r \<le> b) to)
       (filter (\<lambda>r. opt_all (\<lambda>a. a \<le> seq_of r) from) (chain_rows t tenant))"
  unfolding chain_rows_def in_range_def filter_filter by (rule filter_cong) auto

lemma range_segment:
  assumes ok: "audit_ok sha str t"
  shows "\<exists>m. audit_query_chain_range t tenant from to limit =
     take m (drop (case from of None \<Rightarrow> 0 | Some a \<Rightarrow> nat (a - 1)) (chain_rows t tenant))"
proof -
  let ?rs = "chain_rows t tenant"
  let ?j = "case from of None \<Rightarrow> 0 | Some a \<Rightarrow> nat (a - 1)"
  have c: "consecutive 1 ?rs" using chain_rows_consecutive [OF ok] .
  have lo: "filter (\<lambda>r. opt_all (\<lambda>a. a \<le> seq_of r) from) ?rs = drop ?j ?rs"
    by (cases "from") (simp_all add: consecutive_from [OF c])
  have cd: "consecutive (1 + int ?j) (drop ?j ?rs)" by (rule consecutive_drop [OF c])
  have "\<exists>m. filter (\<lambda>r. opt_all (\<lambda>b. seq_of r \<le> b) to) (drop ?j ?rs) = take m (drop ?j ?rs)"
  proof (cases to)
    case None
    then show ?thesis by (intro exI [of _ "length ?rs"]) simp
  next
    case (Some b)
    show ?thesis unfolding Some opt_all_simps using consecutive_to [OF cd] by blast
  qed
  then obtain m where "filter (\<lambda>r. opt_all (\<lambda>b. seq_of r \<le> b) to) (drop ?j ?rs) = take m (drop ?j ?rs)" ..
  then have seg: "filter (\<lambda>r. in_chain tenant r \<and> in_range from to r) t = take m (drop ?j ?rs)"
    unfolding range_filter_split lo .
  have "sort_key seq_of (take m (drop ?j ?rs)) = take m (drop ?j ?rs)"
    by (rule sort_key_id_if_sorted, rule consecutive_sorted, rule consecutive_take [OF cd])
  with seg have "audit_query_chain_range t tenant from to limit = limit_rows limit (take m (drop ?j ?rs))"
    by (simp add: audit_query_chain_range_def)
  then show ?thesis by (cases limit) (auto simp: limit_rows_def)
qed

lemma verifiable_segment:
  "linked sha str s p rs \<Longrightarrow> linked sha str s p (take m rs) \<and>
   (take m rs \<noteq> [] \<longrightarrow> List.map_filter to_verifiable (take m rs) \<noteq> [] \<and>
      hi_seq (fst (hd (List.map_filter to_verifiable (take m rs)))) = s)"
  by (cases rs; cases m) (auto split: option.splits intro: linked_take)

text \<open>Every range of a well-linked log verifies.\<close>

lemma predecessor_row:
  assumes c: "consecutive 1 (chain_rows t tenant)" and j: "0 < j" "j \<le> length (chain_rows t tenant)"
  shows "audit_query_chain_range t tenant (Some (int j)) (Some (int j)) (Some 1) =
     [chain_rows t tenant ! (j - 1)]"
proof -
  let ?rs = "chain_rows t tenant"
  have d: "drop (j - 1) ?rs = ?rs ! (j - 1) # drop j ?rs"
    using j Cons_nth_drop_Suc [of "j - 1" ?rs] by simp
  have "consecutive (1 + int (j - 1)) (drop (j - 1) ?rs)" by (rule consecutive_drop [OF c])
  then have "consecutive (int j) (drop (j - 1) ?rs)" using j by (simp add: of_nat_diff)
  then have "consecutive (int j) (?rs ! (j - 1) # drop j ?rs)" unfolding d .
  from consecutive_to [OF this, of "int j"]
  have "filter (\<lambda>r. seq_of r \<le> int j) (?rs ! (j - 1) # drop j ?rs) = [?rs ! (j - 1)]" by simp
  moreover have "filter (\<lambda>r. int j \<le> seq_of r) ?rs = drop (j - 1) ?rs"
    using consecutive_from [OF c, of "int j"] j by (simp add: nat_diff_distrib)
  ultimately have "filter (\<lambda>r. in_chain tenant r \<and> in_range (Some (int j)) (Some (int j)) r) t = [?rs ! (j - 1)]"
    unfolding range_filter_split opt_all_simps by (simp only: d)
  then show ?thesis by (simp add: audit_query_chain_range_def limit_rows_def)
qed

lemma predecessor_found:
  assumes ok: "audit_ok sha str t" and j: "0 < j" "j \<le> length (chain_rows t tenant)"
  shows "\<exists>p h. audit_query_chain_range t tenant (Some (int j)) (Some (int j)) (Some 1) = [p] \<and>
     au_hash p = Some h \<and> h = last_hash genesis_hash (take j (chain_rows t tenant))"
proof -
  let ?rs = "chain_rows t tenant"
  have "?rs ! (j - 1) \<in> set ?rs" using j by simp
  then obtain h where h: "au_hash (?rs ! (j - 1)) = Some h"
    using linked_hash [of sha str 1 genesis_hash ?rs] ok unfolding audit_ok_def by blast
  have "take j ?rs \<noteq> []" "last (take j ?rs) = ?rs ! (j - 1)"
    using j take_Suc_conv_app_nth [of "j - 1" ?rs] by auto
  with h predecessor_row [OF chain_rows_consecutive [OF ok] j] show ?thesis
    by (simp add: last_hash_def)
qed

lemma well_linked_verifies:
  assumes ok: "audit_ok sha str t"
  shows "cv_ok (verify_audit_chain sha str t tenant from to limit)"
proof -
  let ?rs = "chain_rows t tenant"
  define j where "j = (case from of None \<Rightarrow> 0 | Some a \<Rightarrow> nat (a - 1))"
  obtain m where seg: "audit_query_chain_range t tenant from to limit = take m (drop j ?rs)"
    using range_segment [OF ok, of tenant "from" to limit] unfolding j_def by blast
  let ?rows = "List.map_filter to_verifiable (take m (drop j ?rs))"
  show ?thesis
  proof (cases "drop j ?rs = []")
    case True
    then show ?thesis using seg by (simp add: verify_audit_chain_def verify_chain_def verify_start_def)
  next
    case False
    then have j: "j < length ?rs" by simp
    have l: "linked sha str (1 + int j) (last_hash genesis_hash (take j ?rs)) (drop j ?rs)"
      using linked_drop [of sha str 1 genesis_hash ?rs j] ok j by (simp add: audit_ok_def)
    note vs = verifiable_segment [OF l, of m]
    have nobreak: "chain_breaks sha str (1 + int j) (last_hash genesis_hash (take j ?rs)) ?rows = []"
      using linked_no_breaks vs by blast
    show ?thesis
    proof (cases ?rows)
      case Nil
      then show ?thesis using seg by (simp add: verify_audit_chain_def verify_chain_def)
    next
      case (Cons r rows)
      then have first: "hi_seq (fst r) = 1 + int j" using vs by (cases "take m (drop j ?rs) = []") auto
      show ?thesis
      proof (cases "j = 0")
        case True
        then show ?thesis using nobreak first Cons seg
          by (simp add: verify_audit_chain_def verify_chain_def verify_start_def)
      next
        case False
        then obtain p h where "audit_query_chain_range t tenant (Some (int j)) (Some (int j)) (Some 1) = [p]"
          "au_hash p = Some h" "h = last_hash genesis_hash (take j ?rs)"
          using predecessor_found [OF ok, of j tenant] j by auto
        then have "verify_start t tenant from ?rows =
          Some (1 + int j, last_hash genesis_hash (take j ?rs))"
          using first False Cons by (simp add: verify_start_def)
        then show ?thesis using nobreak seg by (simp add: verify_audit_chain_def verify_chain_def)
      qed
    qed
  qed
qed

subsection \<open>Tampering\<close>

lemma json_opt_str_inject [simp]: "json_opt_str x = json_opt_str y \<longleftrightarrow> x = y"
  by (simp add: json_opt_str_def split: option.splits)

lemma event_kind_name_inject [simp]: "event_kind_name a = event_kind_name b \<longleftrightarrow> a = b"
  by (cases a; cases b) simp_all

lemma canonical_record_inject: "canonical_record x = canonical_record y \<longleftrightarrow> x = y"
  by (auto simp: canonical_record_def)

lemma chain_breaks_append:
  "chain_breaks sha str s p (xs @ [x]) = [] \<longleftrightarrow>
     chain_breaks sha str s p xs = [] \<and>
     hi_seq (fst x) = s + int (length xs) \<and>
     hi_prev (fst x) = (if xs = [] then p else snd (last xs)) \<and>
     compute_record_hash sha str (fst x) = snd x"
  by (induction xs arbitrary: s p) (auto simp: row_breaks_def Let_def split: if_splits)

lemma verify_chain_ok_iff:
  "cv_ok (verify_chain sha str rows start) \<longleftrightarrow>
     chain_breaks sha str (fst (or_default start (1, genesis_hash)))
       (snd (or_default start (1, genesis_hash))) rows = []"
  by (simp add: verify_chain_def Let_def case_prod_beta)

text \<open>Two different records whose canonical texts have the same digest.\<close>

definition collision ::
  "(string \<Rightarrow> string) \<Rightarrow> (json \<Rightarrow> string) \<Rightarrow> verifiable_row list \<Rightarrow> verifiable_row list \<Rightarrow> bool" where
  "collision sha str xs ys \<longleftrightarrow>
     (\<exists>x \<in> set xs. \<exists>y \<in> set ys. canonical_record (fst x) \<noteq> canonical_record (fst y) \<and>
        sha (str (canonical_record (fst x))) = sha (str (canonical_record (fst y))))"

lemma same_hash_same_chain:
  assumes "chain_breaks sha str s p xs = []" and "chain_breaks sha str s p ys = []"
    and "length xs = length ys" and "xs \<noteq> [] \<Longrightarrow> snd (last xs) = snd (last ys)"
  shows "xs = ys \<or> collision sha str xs ys"
  using assms
proof (induction xs arbitrary: ys rule: rev_induct)
  case (snoc x xs)
  then obtain y zs where ys: "ys = zs @ [y]" by (metis append_Nil2 length_0_conv rev_exhaust snoc_eq_iff_butlast)
  have len: "length xs = length zs" using snoc.prems(3) ys by simp
  have b: "chain_breaks sha str s p xs = []" "chain_breaks sha str s p zs = []"
    "hi_prev (fst x) = (if xs = [] then p else snd (last xs))"
    "hi_prev (fst y) = (if zs = [] then p else snd (last zs))"
    "compute_record_hash sha str (fst x) = snd x" "compute_record_hash sha str (fst y) = snd y"
    using snoc.prems(1,2) by (simp_all only: ys chain_breaks_append)
  have h: "snd x = snd y" using snoc.prems(4) ys by simp
  show ?case
  proof (cases "fst x = fst y")
    case False
    then have "collision sha str (xs @ [x]) ys"
      using b(5,6) h unfolding collision_def ys compute_record_hash_def canonical_serialize_def
      by (metis canonical_record_inject in_set_conv_decomp)
    then show ?thesis ..
  next
    case True
    then have "xs \<noteq> [] \<Longrightarrow> snd (last xs) = snd (last zs)" using b(3,4) len by (auto split: if_splits)
    then have "xs = zs \<or> collision sha str xs zs" using snoc.IH b(1,2) len by blast
    then show ?thesis
    proof
      assume "xs = zs"
      with True h show ?thesis by (simp add: ys prod_eq_iff)
    next
      assume "collision sha str xs zs"
      then show ?thesis unfolding collision_def ys by auto
    qed
  qed
qed simp

subsection \<open>Properties\<close>

definition empty_audit_world :: audit_world where
  "empty_audit_world = \<lparr> aw_table = [], aw_pending = (\<lambda>_. None) \<rparr>"

lemma empty_audit_world_ok: "audit_world_ok sha str empty_audit_world"
  by (simp add: audit_world_ok_def audit_ok_def empty_audit_world_def chain_rows_def)

text \<open>
  C8: an honest log always verifies. However any number of writers interleave their tail reads and
  their inserts, for any digest and any texts, the verification of any tenant over any range with
  any limit reports no break: the unique index on tenant and chain number is enough to keep the
  chain linear, also without the advisory lock.
\<close>

theorem honest_log_verifies:
  "cv_ok (verify_audit_chain sha str (aw_table (foldl (audit_step sha str) empty_audit_world es))
     tenant from to limit)"
proof -
  have "audit_world_ok sha str (foldl (audit_step sha str) empty_audit_world es)"
    by (rule audit_log.run_invar, rule empty_audit_world_ok)
  then show ?thesis by (intro well_linked_verifies) (simp add: audit_world_ok_def)
qed

text \<open>
  C9: tamper evidence. Two row sequences that both pass the verification from the genesis, have the
  same length and end in the same record hash are the same rows, field by field, unless two of
  their records have different canonical forms with the same digest: rewriting any earlier field
  of an anchored chain needs a collision of the hash.
\<close>

theorem verified_chains_tamper_evident:
  assumes "cv_ok (verify_chain sha str xs None)" and "cv_ok (verify_chain sha str ys None)"
    and "length xs = length ys" and "xs \<noteq> []" and "snd (last xs) = snd (last ys)"
  shows "xs = ys \<or> collision sha str xs ys"
  using assms by (intro same_hash_same_chain [of sha str 1 genesis_hash]) (simp_all add: verify_chain_ok_iff)

definition sample_business :: "ident \<Rightarrow> business_audit_input" where
  "sample_business target =
     \<lparr> ba_tenant = ''a'', ba_actor_type = Actor_System, ba_actor_id = ''mcp'',
       ba_action = ''grant'', ba_target_type = ''tool'', ba_target_id = target,
       ba_payload = None, ba_request_id = None, ba_created_at = Some 5 \<rparr>"

lemma verified_chains_tamper_evident_witness:
  "(let x = business_hash_input (\<lambda>_. ''j'') (sample_business ''t'') ''e1'' 0 (0, genesis_hash);
        y = business_hash_input (\<lambda>_. ''j'') (sample_business ''u'') ''e1'' 0 (0, genesis_hash) in
    [(x, ''j'')] = [(y, ''j'')] \<or> collision id (\<lambda>_. ''j'') [(x, ''j'')] [(y, ''j'')])"
  unfolding Let_def
  by (rule verified_chains_tamper_evident)
     (simp_all add: verify_chain_def row_breaks_def business_hash_input_def compute_record_hash_def
        canonical_serialize_def)

text \<open>
  a deleted prefix is reported. When the rows of a tenant up to some chain number are removed
  and some remain, the verification of the whole chain fails.
\<close>

theorem deleted_prefix_detected:
  assumes "audit_ok sha str t" and "1 \<le> k" and "k < length (chain_rows t tenant)"
  shows "\<not> cv_ok (verify_audit_chain sha str
     (filter (\<lambda>r. \<not> (in_chain tenant r \<and> seq_of r \<le> int k)) t) tenant None None None)"
proof -
  let ?t = "filter (\<lambda>r. \<not> (in_chain tenant r \<and> seq_of r \<le> int k)) t"
  let ?rs = "chain_rows t tenant"
  have c: "consecutive 1 ?rs" using chain_rows_consecutive [OF assms(1)] .
  have "filter (in_chain tenant) ?t = filter (\<lambda>r. int k + 1 \<le> seq_of r) ?rs"
    unfolding chain_rows_def filter_filter by (rule filter_cong) auto
  also have "\<dots> = drop k ?rs" by (simp add: consecutive_from [OF c])
  finally have rows: "filter (in_chain tenant) ?t = drop k ?rs" .
  have cd: "consecutive (1 + int k) (drop k ?rs)" by (rule consecutive_drop [OF c])
  have all: "audit_query_chain_range ?t tenant None None None = drop k ?rs"
    using sort_key_id_if_sorted [OF consecutive_sorted [OF cd]] rows
    by (simp add: audit_query_chain_range_def limit_rows_def in_range_def)
  have none: "audit_query_chain_range ?t tenant (Some (int k)) (Some (int k)) (Some 1) = []"
    by (auto simp: audit_query_chain_range_def limit_rows_def in_range_def filter_empty_conv)
  have l: "linked sha str (1 + int k) (last_hash genesis_hash (take k ?rs)) (drop k ?rs)"
    using linked_drop [of sha str 1 genesis_hash ?rs k] assms by (simp add: audit_ok_def)
  let ?vs = "List.map_filter to_verifiable (drop k ?rs)"
  have "?vs \<noteq> [] \<and> hi_seq (fst (hd ?vs)) = 1 + int k"
    using verifiable_segment [OF l, of "length ?rs"] assms(3) by simp
  then obtain v vs where v: "?vs = v # vs" "hi_seq (fst v) = 1 + int k" by (cases ?vs) auto
  then have "verify_start ?t tenant None ?vs = None"
    using none assms(2) by (simp add: verify_start_def)
  then have "verify_audit_chain sha str ?t tenant None None None = verify_chain sha str ?vs None"
    by (simp only: verify_audit_chain_def all Let_def)
  moreover have "\<not> cv_ok (verify_chain sha str ?vs None)"
    unfolding verify_chain_ok_iff v(1) using v(2) assms(2) by (simp add: row_breaks_def Let_def)
  ultimately show ?thesis by simp
qed

text \<open>
  a deleted suffix is not. A well-linked log whose last rows of a tenant are removed still
  verifies over every range: the chain alone does not notice truncation, only an anchor does.
\<close>

theorem truncation_undetected:
  assumes "audit_ok sha str t"
  shows "cv_ok (verify_audit_chain sha str
     (filter (\<lambda>r. \<not> (in_chain tenant r \<and> int k < seq_of r)) t) tn from to limit)"
proof (rule well_linked_verifies, unfold audit_ok_def, rule allI)
  fix tn'
  let ?t = "filter (\<lambda>r. \<not> (in_chain tenant r \<and> int k < seq_of r)) t"
  let ?rs = "chain_rows t tn'"
  have l: "linked sha str 1 genesis_hash ?rs" using assms by (simp add: audit_ok_def)
  have c: "consecutive 1 ?rs" using chain_rows_consecutive [OF assms] .
  show "linked sha str 1 genesis_hash (chain_rows ?t tn')"
  proof (cases "tn' = tenant")
    case True
    have "chain_rows ?t tn' = filter (\<lambda>r. seq_of r \<le> int k) ?rs"
      unfolding chain_rows_def filter_filter True by (rule filter_cong) auto
    also have "\<dots> = take k ?rs" by (simp add: consecutive_to [OF c])
    finally show ?thesis using linked_take [OF l] by simp
  next
    case False
    have "chain_rows ?t tn' = ?rs"
      unfolding chain_rows_def filter_filter using False by (intro filter_cong) (auto simp: in_chain_def)
    with l show ?thesis by simp
  qed
qed

text \<open>
  C25: nulled links hide a rewritten prefix. Take any well-linked log, overwrite the rows of a
  tenant up to some chain number with anything that keeps tenant, chain number and record hash,
  and set their \<^verbatim>\<open>prev_hash\<close> to null: the verification of the whole chain, asked for without a
  starting number, still reports no break, since rows without a link are left out of the walk
  while the last of them is accepted as the predecessor of the first row that is checked.
\<close>

theorem nulled_prefix_undetected:
  assumes ok: "audit_ok sha str t" and k: "1 \<le> k" "k < length (chain_rows t tenant)"
    and g: "\<And>r. au_tenant (g r) = au_tenant r \<and> au_seq (g r) = au_seq r \<and>
              au_hash (g r) = au_hash r \<and> au_prev (g r) = None"
  shows "cv_ok (verify_audit_chain sha str
     (map (\<lambda>r. if in_chain tenant r \<and> seq_of r \<le> int k then g r else r) t) tenant None None None)"
proof -
  let ?G = "\<lambda>r. if in_chain tenant r \<and> seq_of r \<le> int k then g r else r"
  let ?rs = "chain_rows t tenant" and ?t = "map ?G t"
  have c: "consecutive 1 ?rs" using chain_rows_consecutive [OF ok] .
  have keep: "in_chain tenant (?G r) = in_chain tenant r" "seq_of (?G r) = seq_of r" for r
    using g [of r] by (simp_all add: in_chain_def seq_of_def)
  have rows: "chain_rows ?t tenant = map ?G ?rs"
    using keep(1) by (simp only: chain_rows_def filter_map comp_def)
  have c': "consecutive 1 (chain_rows ?t tenant)"
    unfolding rows by (rule consecutive_map [OF c keep(2)])
  have lo: "\<forall>r \<in> set (take k ?rs). in_chain tenant r \<and> seq_of r \<le> int k"
    using consecutive_seqs [OF consecutive_take [OF c, of k]] k
    by (fastforce simp: chain_rows_def dest: in_set_takeD)
  have hi: "\<forall>r \<in> set (drop k ?rs). \<not> seq_of r \<le> int k"
    using consecutive_seqs [OF consecutive_drop [OF c, of k]] by force
  have "map ?G ?rs = map ?G (take k ?rs) @ map ?G (drop k ?rs)"
    by (simp only: map_append [symmetric] append_take_drop_id)
  also have "map ?G (take k ?rs) = map g (take k ?rs)" using lo by (intro map_cong) auto
  also have "map ?G (drop k ?rs) = drop k ?rs" using hi by (intro map_idI) auto
  finally have split: "map ?G ?rs = map g (take k ?rs) @ drop k ?rs" .
  have none: "to_verifiable (g r) = None" for r
    using g [of r] by (simp add: to_verifiable_def split: option.splits)
  have "audit_query_chain_range ?t tenant None None None = map ?G ?rs"
    using rows sort_key_id_if_sorted [OF consecutive_sorted [OF c']]
    by (simp add: audit_query_chain_range_def limit_rows_def in_range_def chain_rows_def)
  then have vs: "List.map_filter to_verifiable (audit_query_chain_range ?t tenant None None None) =
    List.map_filter to_verifiable (drop k ?rs)" (is "_ = ?vs")
    unfolding split by (simp add: List.map_filter_def none)
  have l: "linked sha str (1 + int k) (last_hash genesis_hash (take k ?rs)) (drop k ?rs)"
    using linked_drop [of sha str 1 genesis_hash ?rs k] ok k by (simp add: audit_ok_def)
  have "?vs \<noteq> [] \<and> hi_seq (fst (hd ?vs)) = 1 + int k"
    using verifiable_segment [OF l, of "length ?rs"] k by simp
  then obtain v ws where v: "?vs = v # ws" "hi_seq (fst v) = 1 + int k" by (cases ?vs) auto
  obtain h where h: "au_hash (?rs ! (k - 1)) = Some h" "h = last_hash genesis_hash (take k ?rs)"
    using predecessor_found [OF ok, of k tenant] predecessor_row [OF c, of k] k by auto
  have "map ?G ?rs ! (k - 1) = ?G (?rs ! (k - 1))" using k by (intro nth_map) simp
  then have "au_hash (map ?G ?rs ! (k - 1)) = Some h" using g [of "?rs ! (k - 1)"] h by simp
  then have "verify_start ?t tenant None ?vs = Some (1 + int k, h)"
    using predecessor_row [OF c', of k] v k by (simp add: verify_start_def rows)
  then show ?thesis
    unfolding verify_audit_chain_def Let_def vs verify_chain_ok_iff
    using linked_no_breaks [OF l] h by simp
qed

definition sample_world :: audit_world where
  "sample_world = foldl (audit_step id (\<lambda>_. ''j'')) empty_audit_world
     [Aud_Read ''w1'' (Job_Business (sample_business ''t'') ''e1'' 0), Aud_Insert ''w1'',
      Aud_Read ''w1'' (Job_Business (sample_business ''u'') ''e2'' 0), Aud_Insert ''w1'']"

lemma sample_world_ok: "audit_ok id (\<lambda>_. ''j'') (aw_table sample_world)"
proof -
  have "audit_world_ok id (\<lambda>_. ''j'') sample_world"
    unfolding sample_world_def by (rule audit_log.run_invar, rule empty_audit_world_ok)
  then show ?thesis by (simp only: audit_world_ok_def)
qed

lemma sample_world_length: "length (chain_rows (aw_table sample_world) ''a'') = 2"
  by code_simp

lemma deleted_prefix_detected_witness:
  "\<not> cv_ok (verify_audit_chain id (\<lambda>_. ''j'')
     (filter (\<lambda>r. \<not> (in_chain ''a'' r \<and> seq_of r \<le> int 1)) (aw_table sample_world)) ''a'' None None None)"
  by (rule deleted_prefix_detected) (simp_all add: sample_world_ok sample_world_length)

lemma truncation_undetected_witness:
  "cv_ok (verify_audit_chain id (\<lambda>_. ''j'')
     (filter (\<lambda>r. \<not> (in_chain ''a'' r \<and> int 1 < seq_of r)) (aw_table sample_world)) ''a'' None None None)"
  by (rule truncation_undetected) (rule sample_world_ok)

lemma nulled_prefix_undetected_witness:
  "cv_ok (verify_audit_chain id (\<lambda>_. ''j'')
     (map (\<lambda>r. if in_chain ''a'' r \<and> seq_of r \<le> int 1
               then r\<lparr>au_action := ''nothing_happened'', au_prev := None\<rparr> else r)
        (aw_table sample_world)) ''a'' None None None)"
  by (rule nulled_prefix_undetected) (simp_all add: sample_world_ok sample_world_length)

end
