(* ===== verification/Audit_Anchor.thy ===== *)
theory Audit_Anchor
  imports Audit_Log "HOL-Library.List_Lexorder" "HOL-Library.Char_ord"
begin

text \<open>
  Signed anchors of the audit chain: the service of \<^verbatim>\<open>src/audit/audit-chain-anchor-service.ts\<close> that
  signs the tail of every tenant's chain with an external KMS, and the verifier of
  \<^verbatim>\<open>src/audit/audit-anchor-verifier.ts\<close> that checks the anchors against a (restored) log. The KMS
  is a parameter: \<open>sign\<close> maps a payload to key id, signature (base64) and algorithm, \<open>verify\<close> checks
  one. Anchors written over an honest log verify for ever; the report is ok exactly when every
  anchored tail is present, verified and signed; a truncation below an anchor is reported.
\<close>

subsection \<open>Anchors\<close>

record anchor_row =
  an_id :: ident
  an_tenant :: ident
  an_from :: int
  an_to :: int
  an_tail_hash :: string
  an_signature :: string
  an_key_id :: string
  an_alg :: string
  an_signed_at :: millis

datatype anchor_error_code = Kms_Timeout | Kms_Refused | Kms_Network | Kms_Internal

record anchor_failure_row =
  fl_id :: ident
  fl_tenant :: ident
  fl_from :: int
  fl_to :: int
  fl_tail_hash :: string
  fl_code :: anchor_error_code
  fl_message :: string
  fl_attempted_at :: millis
  fl_recovered_at :: "millis option"

definition platform_tenant_partition :: ident where
  "platform_tenant_partition = ''platform''"

definition normalize_anchor_tenant_id :: "ident \<Rightarrow> ident" where
  "normalize_anchor_tenant_id tenant = (if tenant = [] then platform_tenant_partition else tenant)"

definition build_audit_anchor_payload ::
  "(json \<Rightarrow> string) \<Rightarrow> ident \<Rightarrow> int \<Rightarrow> int \<Rightarrow> string \<Rightarrow> string" where
  "build_audit_anchor_payload str tenant from to tail_hash =
     str (JObj
       [ (''schema'', JStr ''chrono.audit-chain-anchor.v1''),
         (''tenantId'', JStr (normalize_anchor_tenant_id tenant)),
         (''fromSeq'', JNum (of_int from)),
         (''toSeq'', JNum (of_int to)),
         (''tailHash'', JStr tail_hash) ])"

definition classify_kms_error :: "string \<Rightarrow> anchor_error_code" where
  "classify_kms_error err =
     (let message = js_lower err in
      if js_includes ''timed out'' message \<or> js_includes ''timeout'' message then Kms_Timeout
      else if js_includes ''refused'' message \<or> js_includes ''denied'' message \<or>
              js_includes ''permission'' message then Kms_Refused
      else if js_includes ''network'' message \<or> js_includes ''econn'' message \<or>
              js_includes ''socket'' message \<or> js_includes ''dns'' message then Kms_Network
      else Kms_Internal)"

type_synonym signature = "string \<times> string \<times> string"

text \<open>A call of the KMS signs, or throws, or hangs until the timeout of ten seconds.\<close>

datatype kms_fault = Kms_Hangs | Kms_Throws string

definition sign_with_timeout ::
  "(string \<Rightarrow> signature) \<Rightarrow> kms_fault option \<Rightarrow> string \<Rightarrow> string + signature" where
  "sign_with_timeout sign fault payload =
     (case fault of
        None \<Rightarrow> Inr (sign payload)
      | Some Kms_Hangs \<Rightarrow> Inl ''KMS sign timed out after 10000ms''
      | Some (Kms_Throws message) \<Rightarrow> Inl message)"

definition get_latest_anchor :: "anchor_row list \<Rightarrow> ident \<Rightarrow> anchor_row option" where
  "get_latest_anchor anchors tenant =
     (case sort_key (\<lambda>a. - an_to a) (filter (\<lambda>a. an_tenant a = tenant) anchors) of
        [] \<Rightarrow> None | a # _ \<Rightarrow> Some a)"

definition get_tail :: "audit_table \<Rightarrow> ident \<Rightarrow> (int \<times> string) option" where
  "get_tail t tenant =
     (case sort_key (\<lambda>r. - seq_of r) (filter (\<lambda>r. in_chain tenant r \<and> au_hash r \<noteq> None) t) of
        [] \<Rightarrow> None | r # _ \<Rightarrow> Some (seq_of r, the (au_hash r)))"

definition get_first_seq_number :: "audit_table \<Rightarrow> ident \<Rightarrow> int option" where
  "get_first_seq_number t tenant =
     (case sort_key seq_of (filter (\<lambda>r. in_chain tenant r \<and> au_hash r \<noteq> None) t) of
        [] \<Rightarrow> None | r # _ \<Rightarrow> Some (seq_of r))"

definition insert_anchor :: "anchor_row list \<Rightarrow> anchor_row \<Rightarrow> anchor_row list \<times> bool" where
  "insert_anchor anchors a =
     (if list_ex (\<lambda>b. an_tenant b = an_tenant a \<and> an_to b = an_to a \<and>
                      an_tail_hash b = an_tail_hash a) anchors
      then (anchors, False) else (anchors @ [a], True))"

definition insert_anchor_failure ::
  "anchor_failure_row list \<Rightarrow> anchor_failure_row \<Rightarrow> anchor_failure_row list" where
  "insert_anchor_failure fs f = fs @ [f]"

definition mark_failures_recovered ::
  "anchor_failure_row list \<Rightarrow> ident \<Rightarrow> int \<Rightarrow> millis \<Rightarrow> anchor_failure_row list" where
  "mark_failures_recovered fs tenant through at_time =
     fst (update_where (\<lambda>f. fl_tenant f = tenant \<and> fl_to f \<le> through \<and> fl_recovered_at f = None)
       (\<lambda>f. f\<lparr>fl_recovered_at := Some at_time\<rparr>) fs)"

definition list_open_anchor_failures :: "anchor_failure_row list \<Rightarrow> nat \<Rightarrow> anchor_failure_row list" where
  "list_open_anchor_failures fs limit =
     take limit (sort_key (\<lambda>f. - fl_attempted_at f) (filter (\<lambda>f. fl_recovered_at f = None) fs))"

definition list_anchor_failures_for_tenant ::
  "anchor_failure_row list \<Rightarrow> ident \<Rightarrow> nat \<Rightarrow> anchor_failure_row list" where
  "list_anchor_failures_for_tenant fs tenant limit =
     take limit (sort_key (\<lambda>f. - fl_attempted_at f) (filter (\<lambda>f. fl_tenant f = tenant) fs))"

subsection \<open>One pass\<close>

text \<open>
  What the run of one tenant reads from outside: ids, the clock, the feature flag, the fault of the
  KMS if any, and whether the two secondary writes, whose errors are swallowed, went through.
\<close>

record anchor_env =
  ne_enabled :: bool
  ne_fault :: "kms_fault option"
  ne_id :: ident
  ne_failure_id :: ident
  ne_now :: millis
  ne_failure_written :: bool
  ne_recovery_written :: bool

record anchor_state =
  as_anchors :: "anchor_row list"
  as_failures :: "anchor_failure_row list"
  as_anchored :: "(ident \<times> int \<times> string) list"
  as_skipped :: nat

definition anchor_window :: "audit_table \<Rightarrow> anchor_row list \<Rightarrow> ident \<Rightarrow> (int \<times> int \<times> string) option" where
  "anchor_window t anchors tenant =
     (case get_tail t tenant of
        None \<Rightarrow> None
      | Some (to, tail_hash) \<Rightarrow>
          (case get_latest_anchor anchors tenant of
             Some a \<Rightarrow> if an_to a \<ge> to then None else Some (an_to a + 1, to, tail_hash)
           | None \<Rightarrow> (case get_first_seq_number t tenant of
                        None \<Rightarrow> None | Some from \<Rightarrow> Some (from, to, tail_hash))))"

definition anchor_tenant ::
  "(json \<Rightarrow> string) \<Rightarrow> (string \<Rightarrow> signature) \<Rightarrow> audit_table \<Rightarrow> (ident \<Rightarrow> anchor_env) \<Rightarrow> anchor_state \<Rightarrow> ident \<Rightarrow>
   anchor_state" where
  "anchor_tenant str sign t env s tenant =
     (let partition = normalize_anchor_tenant_id tenant; e = env tenant in
      if \<not> ne_enabled e then s\<lparr>as_skipped := as_skipped s + 1\<rparr>
      else (case anchor_window t (as_anchors s) tenant of
        None \<Rightarrow> s
      | Some (from, to, tail_hash) \<Rightarrow>
          (case sign_with_timeout sign (ne_fault e)
                  (build_audit_anchor_payload str partition from to tail_hash) of
             Inl message \<Rightarrow>
               (if ne_failure_written e
                then s\<lparr>as_failures := insert_anchor_failure (as_failures s)
                       \<lparr> fl_id = ne_failure_id e, fl_tenant = tenant, fl_from = from, fl_to = to,
                         fl_tail_hash = tail_hash, fl_code = classify_kms_error message,
                         fl_message = message, fl_attempted_at = ne_now e,
                         fl_recovered_at = None \<rparr>\<rparr>
                else s)
           | Inr (key_id, sig, alg) \<Rightarrow>
               (let (anchors, inserted) = insert_anchor (as_anchors s)
                      \<lparr> an_id = ne_id e, an_tenant = tenant, an_from = from, an_to = to,
                        an_tail_hash = tail_hash, an_signature = sig, an_key_id = key_id,
                        an_alg = alg, an_signed_at = ne_now e \<rparr> in
                if inserted
                then s\<lparr>as_anchors := anchors,
                       as_anchored := as_anchored s @ [(partition, to, key_id)],
                       as_failures := (if ne_recovery_written e
                         then mark_failures_recovered (as_failures s) tenant to (ne_now e)
                         else as_failures s)\<rparr>
                else s\<lparr>as_anchors := anchors\<rparr>))))"

definition chain_tenants :: "audit_table \<Rightarrow> ident list" where
  "chain_tenants t = sort (remdups (map au_tenant (filter (\<lambda>r. au_seq r \<noteq> None) t)))"

definition anchor_pending_tails ::
  "(json \<Rightarrow> string) \<Rightarrow> (string \<Rightarrow> signature) \<Rightarrow> audit_table \<Rightarrow> (ident \<Rightarrow> anchor_env) \<Rightarrow> anchor_row list \<Rightarrow>
   anchor_failure_row list \<Rightarrow> anchor_state" where
  "anchor_pending_tails str sign t env anchors failures =
     foldl (anchor_tenant str sign t env)
       \<lparr> as_anchors = anchors, as_failures = failures, as_anchored = [], as_skipped = 0 \<rparr>
       (chain_tenants t)"

text \<open>A pass that finds another one running does nothing.\<close>

definition trigger_once ::
  "(json \<Rightarrow> string) \<Rightarrow> (string \<Rightarrow> signature) \<Rightarrow> bool \<Rightarrow> audit_table \<Rightarrow> (ident \<Rightarrow> anchor_env) \<Rightarrow>
   anchor_row list \<Rightarrow> anchor_failure_row list \<Rightarrow> anchor_state" where
  "trigger_once str sign running t env anchors failures =
     (if running
      then \<lparr> as_anchors = anchors, as_failures = failures, as_anchored = [], as_skipped = 0 \<rparr>
      else anchor_pending_tails str sign t env anchors failures)"

subsection \<open>The verifier\<close>

datatype anchor_severity = Sev_Error | Sev_Info

datatype anchor_issue_reason =
  Chain_Broken_Before_Anchor | Missing_Anchor_Tail | Tail_Hash_Mismatch | Signature_Invalid
| Signature_Verify_Failed | Signature_Not_Verified | Missing_Anchor_For_Tenant

record anchor_issue =
  is_tenant :: ident
  is_anchor :: ident
  is_reason :: anchor_issue_reason
  is_severity :: anchor_severity

text \<open>The check of a signature answers, or throws, or hangs until the timeout and then throws.\<close>

datatype verify_outcome = Verify_True | Verify_False | Verify_Throws | Verify_Hangs

type_synonym kms_verify = "string \<Rightarrow> string \<Rightarrow> string \<Rightarrow> string \<Rightarrow> verify_outcome"

definition anchor_tail_hash :: "audit_table \<Rightarrow> ident \<Rightarrow> int \<Rightarrow> string option" where
  "anchor_tail_hash t tenant seq =
     (case select_one (\<lambda>r. au_tenant r = tenant \<and> au_seq r = Some seq) t of
        None \<Rightarrow> None | Some r \<Rightarrow> (if truthy (au_hash r) then au_hash r else None))"

definition check_anchor ::
  "(string \<Rightarrow> string) \<Rightarrow> (json \<Rightarrow> string) \<Rightarrow> kms_verify option \<Rightarrow> bool \<Rightarrow> audit_table \<Rightarrow> anchor_row \<Rightarrow>
   anchor_issue option" where
  "check_anchor sha str verify require_signatures t a =
     (let tenant = normalize_anchor_tenant_id (an_tenant a);
          issue = (\<lambda>why sev. Some \<lparr> is_tenant = tenant, is_anchor = an_id a, is_reason = why,
                                    is_severity = sev \<rparr>) in
      if \<not> cv_ok (verify_audit_chain sha str t (an_tenant a) None (Some (an_to a)) None)
      then issue Chain_Broken_Before_Anchor Sev_Error
      else (case anchor_tail_hash t (an_tenant a) (an_to a) of
        None \<Rightarrow> issue Missing_Anchor_Tail Sev_Error
      | Some h \<Rightarrow>
          if h \<noteq> an_tail_hash a then issue Tail_Hash_Mismatch Sev_Error
          else (case verify of
            None \<Rightarrow> issue Signature_Not_Verified (if require_signatures then Sev_Error else Sev_Info)
          | Some v \<Rightarrow>
              (case v (build_audit_anchor_payload str tenant (an_from a) (an_to a) (an_tail_hash a))
                      (an_signature a) (an_key_id a) (an_alg a) of
                 Verify_True \<Rightarrow> None
               | Verify_False \<Rightarrow> issue Signature_Invalid Sev_Error
               | _ \<Rightarrow> issue Signature_Verify_Failed Sev_Error))))"

definition missing_anchor_issues :: "ident list \<Rightarrow> anchor_row list \<Rightarrow> anchor_issue list" where
  "missing_anchor_issues required anchors =
     map (\<lambda>tenant. \<lparr> is_tenant = normalize_anchor_tenant_id tenant, is_anchor = [],
                    is_reason = Missing_Anchor_For_Tenant, is_severity = Sev_Error \<rparr>)
       (filter (\<lambda>tenant. tenant \<notin> an_tenant ` set anchors) required)"

definition verify_audit_anchors ::
  "(string \<Rightarrow> string) \<Rightarrow> (json \<Rightarrow> string) \<Rightarrow> kms_verify option \<Rightarrow> ident list \<Rightarrow> bool \<Rightarrow> audit_table \<Rightarrow>
   anchor_row list \<Rightarrow> bool \<times> anchor_issue list" where
  "verify_audit_anchors sha str verify required require_signatures t anchors =
     (let ordered = sort_key an_tenant (sort_key an_to anchors);
          issues = missing_anchor_issues required anchors @
            List.map_filter (check_anchor sha str verify require_signatures t) ordered in
      (\<not> list_ex (\<lambda>i. is_severity i = Sev_Error) issues, issues))"

subsection \<open>Anchors written over an honest log\<close>

text \<open>
  What the service relies on: the digest is a non-empty text (64 hexadecimal digits), and the KMS
  accepts the signatures it made, for the same payload, key and algorithm.
\<close>

definition lawful_kms :: "(string \<Rightarrow> string) \<Rightarrow> (string \<Rightarrow> signature) \<Rightarrow> kms_verify \<Rightarrow> bool" where
  "lawful_kms sha sign verify \<longleftrightarrow>
     (\<forall>x. sha x \<noteq> []) \<and>
     (\<forall>p. case sign p of (key_id, sig, alg) \<Rightarrow> verify p sig key_id alg = Verify_True)"

definition anchor_good :: "audit_table \<Rightarrow> anchor_row \<Rightarrow> bool" where
  "anchor_good t a \<longleftrightarrow>
     (\<exists>r \<in> set (chain_rows t (an_tenant a)). seq_of r = an_to a \<and> au_hash r = Some (an_tail_hash a))"

definition anchor_signed :: "(json \<Rightarrow> string) \<Rightarrow> kms_verify \<Rightarrow> anchor_row \<Rightarrow> bool" where
  "anchor_signed str verify a \<longleftrightarrow>
     verify (build_audit_anchor_payload str (normalize_anchor_tenant_id (an_tenant a)) (an_from a)
               (an_to a) (an_tail_hash a)) (an_signature a) (an_key_id a) (an_alg a) = Verify_True"

definition anchors_ok ::
  "(json \<Rightarrow> string) \<Rightarrow> kms_verify \<Rightarrow> audit_table \<Rightarrow> anchor_row list \<Rightarrow> bool" where
  "anchors_ok str verify t anchors \<longleftrightarrow> (\<forall>a \<in> set anchors. anchor_good t a \<and> anchor_signed str verify a)"

lemma anchor_good_append: "anchor_good t a \<Longrightarrow> anchor_good (t @ rs) a"
  by (auto simp: anchor_good_def chain_rows_def)

lemma get_tail_SomeD:
  assumes "get_tail t tenant = Some (to, h)"
  shows "\<exists>r \<in> set (chain_rows t tenant). seq_of r = to \<and> au_hash r = Some h"
proof (cases "sort_key (\<lambda>r. - seq_of r) (filter (\<lambda>r. in_chain tenant r \<and> au_hash r \<noteq> None) t)")
  case (Cons r rs)
  with assms have "seq_of r = to" "the (au_hash r) = h" by (simp_all add: get_tail_def)
  moreover have "r \<in> set (filter (\<lambda>r. in_chain tenant r \<and> au_hash r \<noteq> None) t)"
    using sort_key_ConsD [OF Cons] by blast
  ultimately show ?thesis by (auto simp: chain_rows_def)
qed (use assms in \<open>simp add: get_tail_def\<close>)

lemma anchor_window_tail:
  "anchor_window t anchors tenant = Some (from, to, h) \<Longrightarrow> get_tail t tenant = Some (to, h)"
  by (auto simp: anchor_window_def split: option.splits if_splits)

lemma insert_anchor_ok:
  assumes "anchors_ok str verify t anchors" and "anchor_good t a" and "anchor_signed str verify a"
  shows "anchors_ok str verify t (fst (insert_anchor anchors a))"
  using assms by (auto simp: anchors_ok_def insert_anchor_def)

lemma anchor_tenant_ok:
  assumes law: "lawful_kms sha sign verify" and ok: "anchors_ok str verify t (as_anchors s)"
  shows "anchors_ok str verify t (as_anchors (anchor_tenant str sign t env s tenant))"
proof (cases "ne_enabled (env tenant)")
  case True
  show ?thesis
  proof (cases "anchor_window t (as_anchors s) tenant")
    case None
    with True ok show ?thesis by (simp add: anchor_tenant_def Let_def)
  next
    case (Some w)
    obtain lo hi h where w: "anchor_window t (as_anchors s) tenant = Some (lo, hi, h)"
      using Some by (cases w) auto
    let ?p = "build_audit_anchor_payload str (normalize_anchor_tenant_id tenant) lo hi h"
    show ?thesis
    proof (cases "sign_with_timeout sign (ne_fault (env tenant)) ?p")
      case (Inl message)
      with True w ok show ?thesis by (simp add: anchor_tenant_def Let_def)
    next
      case (Inr sg)
      obtain k g al where sg: "sg = (k, g, al)" by (cases sg) auto
      let ?a = "\<lparr> an_id = ne_id (env tenant), an_tenant = tenant, an_from = lo, an_to = hi,
        an_tail_hash = h, an_signature = g, an_key_id = k, an_alg = al,
        an_signed_at = ne_now (env tenant) \<rparr>"
      have "sign ?p = (k, g, al)"
        using Inr sg by (simp add: sign_with_timeout_def split: option.splits kms_fault.splits)
      then have "anchor_signed str verify ?a"
        using law by (auto simp: anchor_signed_def lawful_kms_def split: prod.splits)
      moreover have "anchor_good t ?a"
        using get_tail_SomeD [OF anchor_window_tail [OF w]] by (simp add: anchor_good_def)
      ultimately have "anchors_ok str verify t (fst (insert_anchor (as_anchors s) ?a))"
        using insert_anchor_ok [OF ok] by blast
      moreover obtain anchors' ins where "insert_anchor (as_anchors s) ?a = (anchors', ins)"
        by fastforce
      ultimately show ?thesis using True w Inr sg by (cases ins) (simp_all add: anchor_tenant_def Let_def)
    qed
  qed
qed (use ok in \<open>simp add: anchor_tenant_def\<close>)

lemma anchor_fold_ok:
  assumes "lawful_kms sha sign verify" and "anchors_ok str verify t (as_anchors s)"
  shows "anchors_ok str verify t (as_anchors (foldl (anchor_tenant str sign t env) s tenants))"
  using assms(2) by (induction tenants arbitrary: s) (simp_all add: anchor_tenant_ok [OF assms(1)])

lemma trigger_once_ok:
  assumes "lawful_kms sha sign verify" and "anchors_ok str verify t anchors"
  shows "anchors_ok str verify t (as_anchors (trigger_once str sign running t env anchors failures))"
  using assms anchor_fold_ok [OF assms(1)] by (simp add: trigger_once_def anchor_pending_tails_def)

text \<open>The log and the service side by side.\<close>

record anchored_world =
  wd_log :: audit_world
  wd_anchors :: "anchor_row list"
  wd_failures :: "anchor_failure_row list"

datatype anchored_event = Ev_Log audit_event | Ev_Anchor bool "ident \<Rightarrow> anchor_env"

fun anchored_step ::
  "(string \<Rightarrow> string) \<Rightarrow> (json \<Rightarrow> string) \<Rightarrow> (string \<Rightarrow> signature) \<Rightarrow> anchored_world \<Rightarrow> anchored_event \<Rightarrow>
   anchored_world" where
  "anchored_step sha str sign w (Ev_Log e) = w\<lparr>wd_log := audit_step sha str (wd_log w) e\<rparr>"
| "anchored_step sha str sign w (Ev_Anchor running env) =
     (let s = trigger_once str sign running (aw_table (wd_log w)) env (wd_anchors w) (wd_failures w) in
      w\<lparr>wd_anchors := as_anchors s, wd_failures := as_failures s\<rparr>)"

definition anchored_ok ::
  "(string \<Rightarrow> string) \<Rightarrow> (json \<Rightarrow> string) \<Rightarrow> kms_verify \<Rightarrow> anchored_world \<Rightarrow> bool" where
  "anchored_ok sha str verify w \<longleftrightarrow>
     audit_world_ok sha str (wd_log w) \<and> anchors_ok str verify (aw_table (wd_log w)) (wd_anchors w)"

lemma audit_step_grows: "\<exists>rs. aw_table (audit_step sha str w e) = aw_table w @ rs"
proof (cases e)
  case (Aud_Insert p)
  show ?thesis
  proof (cases "aw_pending w p")
    case (Some jt)
    obtain job tail where jt: "aw_pending w p = Some (job, tail)" using Some by (cases jt) auto
    show ?thesis
    proof (cases "audit_insert (aw_table w) (job_row sha str job tail)")
      case (Inr t')
      with audit_insert_append [OF Inr] jt Aud_Insert show ?thesis by simp
    qed (use jt Aud_Insert in simp)
  qed (use Aud_Insert in simp)
qed simp

lemma anchored_step_ok:
  assumes "lawful_kms sha sign verify" and "anchored_ok sha str verify w"
  shows "anchored_ok sha str verify (anchored_step sha str sign w e)"
proof (cases e)
  case (Ev_Log le)
  obtain rs where rs: "aw_table (audit_step sha str (wd_log w) le) = aw_table (wd_log w) @ rs"
    using audit_step_grows by blast
  have "audit_world_ok sha str (audit_step sha str (wd_log w) le)"
    using assms(2) audit_step_ok by (simp add: anchored_ok_def)
  moreover have "anchors_ok str verify (aw_table (wd_log w) @ rs) (wd_anchors w)"
    using assms(2) anchor_good_append by (auto simp: anchored_ok_def anchors_ok_def)
  ultimately show ?thesis using rs Ev_Log by (simp add: anchored_ok_def)
next
  case (Ev_Anchor running env)
  with assms show ?thesis using trigger_once_ok [OF assms(1)] by (simp add: anchored_ok_def Let_def)
qed

interpretation anchored: invariant_machine "anchored_step sha str sign"
  "\<lambda>w. lawful_kms sha sign verify \<longrightarrow> anchored_ok sha str verify w" for sha str sign verify
  by unfold_locales (blast intro: anchored_step_ok)

subsection \<open>What the verifier finds\<close>

lemma consecutive_unique:
  "consecutive s rs \<Longrightarrow> r \<in> set rs \<Longrightarrow> q \<in> set rs \<Longrightarrow> seq_of r = seq_of q \<Longrightarrow> r = q"
proof (induction rs arbitrary: s)
  case (Cons x rs)
  have "\<forall>y \<in> set rs. seq_of y \<noteq> seq_of x"
    using consecutive_seqs [of "s + 1" rs] Cons.prems(1) by fastforce
  with Cons show ?case by auto
qed simp

lemma tail_hash_found:
  assumes ok: "audit_ok sha str t" and r: "r \<in> set (chain_rows t tenant)" "seq_of r = n"
    and h: "au_hash r = Some h" "h \<noteq> []"
  shows "anchor_tail_hash t tenant n = Some h"
proof -
  have "au_tenant r = tenant \<and> au_seq r = Some n" "r \<in> set t"
    using r by (auto simp: chain_rows_def in_chain_def seq_of_def)
  then have "select_one (\<lambda>r. au_tenant r = tenant \<and> au_seq r = Some n) t \<noteq> None"
    by (auto simp: select_one_None_iff)
  then obtain q where q: "select_one (\<lambda>r. au_tenant r = tenant \<and> au_seq r = Some n) t = Some q" by blast
  then have "q \<in> set t" "au_tenant q = tenant" "au_seq q = Some n" by (auto dest: select_one_SomeD)
  then have "q \<in> set (chain_rows t tenant)" "seq_of q = n"
    by (simp_all add: chain_rows_def in_chain_def seq_of_def)
  then have "q = r" using consecutive_unique [OF chain_rows_consecutive [OF ok]] r by metis
  with q h show ?thesis by (simp add: anchor_tail_hash_def truthy_def)
qed

lemma chain_hash_nonempty:
  assumes "linked sha str s p rs" and "r \<in> set rs" and "au_hash r = Some h" and "\<forall>x. sha x \<noteq> []"
  shows "h \<noteq> []"
  using assms
  by (induction rs arbitrary: s p)
     (auto split: option.splits dest!: to_verifiable_SomeD simp: compute_record_hash_def)

lemma good_anchor_passes:
  assumes law: "lawful_kms sha sign verify" and ok: "audit_ok sha str t"
    and good: "anchor_good t a" and signed: "anchor_signed str verify a"
  shows "check_anchor sha str (Some verify) req t a = None"
proof -
  obtain r where r: "r \<in> set (chain_rows t (an_tenant a))" "seq_of r = an_to a"
    "au_hash r = Some (an_tail_hash a)"
    using good by (auto simp: anchor_good_def)
  have "an_tail_hash a \<noteq> []"
    using chain_hash_nonempty [of sha str 1 genesis_hash "chain_rows t (an_tenant a)"] ok r law
    by (simp add: audit_ok_def lawful_kms_def)
  then have "anchor_tail_hash t (an_tenant a) (an_to a) = Some (an_tail_hash a)"
    using tail_hash_found [OF ok r(1,2,3)] by simp
  moreover have "cv_ok (verify_audit_chain sha str t (an_tenant a) None (Some (an_to a)) None)"
    by (rule well_linked_verifies [OF ok])
  ultimately show ?thesis using signed by (simp add: check_anchor_def Let_def anchor_signed_def)
qed

lemma check_anchor_None_iff:
  "check_anchor sha str verify req t a = None \<longleftrightarrow>
     cv_ok (verify_audit_chain sha str t (an_tenant a) None (Some (an_to a)) None) \<and>
     anchor_tail_hash t (an_tenant a) (an_to a) = Some (an_tail_hash a) \<and>
     (\<exists>v. verify = Some v \<and> anchor_signed str v a)"
  by (auto simp: check_anchor_def Let_def anchor_signed_def split: option.splits verify_outcome.splits)

lemma check_anchor_severity:
  "check_anchor sha str verify True t a = Some i \<Longrightarrow> is_severity i = Sev_Error"
  by (auto simp: check_anchor_def Let_def split: if_splits option.splits verify_outcome.splits)

lemma set_map_filter: "set (List.map_filter f xs) = {y. \<exists>x \<in> set xs. f x = Some y}"
  by (force simp: List.map_filter_def)

lemma missing_anchor_issues_iff:
  "missing_anchor_issues required anchors = [] \<longleftrightarrow> set required \<subseteq> an_tenant ` set anchors"
  by (auto simp: missing_anchor_issues_def filter_empty_conv)

lemma severe_issues:
  "(\<forall>i \<in> set (List.map_filter (check_anchor sha str verify True t) ts). is_severity i \<noteq> Sev_Error) \<longleftrightarrow>
     (\<forall>a \<in> set ts. check_anchor sha str verify True t a = None)" (is "?l = ?r")
proof
  assume l: ?l
  show ?r
  proof
    fix a assume a: "a \<in> set ts"
    show "check_anchor sha str verify True t a = None"
    proof (cases "check_anchor sha str verify True t a")
      case (Some i)
      with a have "i \<in> set (List.map_filter (check_anchor sha str verify True t) ts)"
        by (auto simp: set_map_filter)
      with l check_anchor_severity [OF Some] show ?thesis by simp
    qed
  qed
qed (simp add: set_map_filter)

lemma verify_audit_anchors_ok_iff:
  "fst (verify_audit_anchors sha str verify required True t anchors) \<longleftrightarrow>
     set required \<subseteq> an_tenant ` set anchors \<and>
     (\<forall>a \<in> set anchors. check_anchor sha str verify True t a = None)"
proof -
  let ?ordered = "sort_key an_tenant (sort_key an_to anchors)"
  have "(\<forall>i \<in> set (missing_anchor_issues required anchors). is_severity i \<noteq> Sev_Error) \<longleftrightarrow>
    missing_anchor_issues required anchors = []"
    by (auto simp: missing_anchor_issues_def filter_empty_conv)
  then have missing: "(\<forall>i \<in> set (missing_anchor_issues required anchors). is_severity i \<noteq> Sev_Error) \<longleftrightarrow>
    set required \<subseteq> an_tenant ` set anchors"
    by (simp only: missing_anchor_issues_iff)
  have checks: "(\<forall>i \<in> set (List.map_filter (check_anchor sha str verify True t) ?ordered).
      is_severity i \<noteq> Sev_Error) \<longleftrightarrow> (\<forall>a \<in> set anchors. check_anchor sha str verify True t a = None)"
    using severe_issues [of sha str verify t ?ordered] by (simp only: set_sort)
  have "fst (verify_audit_anchors sha str verify required True t anchors) \<longleftrightarrow>
    (\<forall>i \<in> set (missing_anchor_issues required anchors). is_severity i \<noteq> Sev_Error) \<and>
    (\<forall>i \<in> set (List.map_filter (check_anchor sha str verify True t) ?ordered). is_severity i \<noteq> Sev_Error)"
    by (simp only: verify_audit_anchors_def Let_def fst_conv list_ex_iff set_append) blast
  with missing checks show ?thesis by simp
qed

subsection \<open>Properties\<close>

definition empty_anchored_world :: anchored_world where
  "empty_anchored_world =
     \<lparr> wd_log = empty_audit_world, wd_anchors = [], wd_failures = [] \<rparr>"

lemma empty_anchored_world_ok: "anchored_ok sha str verify empty_anchored_world"
  by (simp add: anchored_ok_def empty_anchored_world_def empty_audit_world_ok anchors_ok_def)


definition sample_sha :: "string \<Rightarrow> string" where
  "sample_sha s = CHR ''h'' # s"

definition sample_sign :: "string \<Rightarrow> signature" where
  "sample_sign p = (''key'', p, ''alg'')"

definition sample_verify :: kms_verify where
  "sample_verify p sig key_id alg = (if sig = p then Verify_True else Verify_False)"

lemma sample_kms_lawful: "lawful_kms sample_sha sample_sign sample_verify"
  by (simp add: lawful_kms_def sample_sha_def sample_sign_def sample_verify_def)

definition sample_events :: "anchored_event list" where
  "sample_events =
     [Ev_Log (Aud_Read ''w'' (Job_Business (sample_business ''t'') ''e1'' 0)), Ev_Log (Aud_Insert ''w''),
      Ev_Anchor False (\<lambda>_. \<lparr> ne_enabled = True, ne_fault = None, ne_id = ''an1'', ne_failure_id = ''f1'',
        ne_now = 9, ne_failure_written = True, ne_recovery_written = True \<rparr>)]"


text \<open>
  what a clean strict report means. It is ok exactly when every required tenant has an anchor
  and, for every anchor, the chain of its tenant verifies up to the anchored number, the row at
  that number carries the anchored hash, and a KMS check was available and accepted the signature.
\<close>

theorem strict_report_ok_iff:
  "fst (verify_audit_anchors sha str verify required True t anchors) \<longleftrightarrow>
     (set required \<subseteq> an_tenant ` set anchors) \<and>
     (\<forall>a \<in> set anchors.
        cv_ok (verify_audit_chain sha str t (an_tenant a) None (Some (an_to a)) None) \<and>
        anchor_tail_hash t (an_tenant a) (an_to a) = Some (an_tail_hash a) \<and>
        (\<exists>v. verify = Some v \<and>
           v (build_audit_anchor_payload str (normalize_anchor_tenant_id (an_tenant a)) (an_from a)
                (an_to a) (an_tail_hash a)) (an_signature a) (an_key_id a) (an_alg a) = Verify_True))"
  unfolding verify_audit_anchors_ok_iff check_anchor_None_iff anchor_signed_def ..

definition sample_anchor :: anchor_row where
  "sample_anchor = \<lparr> an_id = ''an1'', an_tenant = ''a'', an_from = 1, an_to = 1,
     an_tail_hash = ''h'', an_signature = ''s'', an_key_id = ''key'', an_alg = ''alg'', an_signed_at = 9 \<rparr>"

lemma strict_report_ok_iff_witness:
  "\<not> fst (verify_audit_anchors sample_sha (\<lambda>_. ''j'') (Some sample_verify) [] True [] [sample_anchor])"
  unfolding strict_report_ok_iff by (simp add: anchor_tail_hash_def)

text \<open>
  truncation below an anchor is reported, whatever else the log holds, with or without a KMS
  and in every mode: if no row of the tenant has the anchored number any more, the report is not ok.
\<close>

theorem truncation_below_anchor_reported:
  assumes "a \<in> set anchors"
    and "\<forall>r \<in> set t. au_tenant r = an_tenant a \<longrightarrow> au_seq r \<noteq> Some (an_to a)"
  shows "\<not> fst (verify_audit_anchors sha str verify required req t anchors)"
proof -
  have "anchor_tail_hash t (an_tenant a) (an_to a) = None"
    using assms(2) by (auto simp: anchor_tail_hash_def select_one_None_iff split: option.splits dest: select_one_SomeD)
  then have "\<exists>i. check_anchor sha str verify req t a = Some i \<and> is_severity i = Sev_Error"
    by (simp add: check_anchor_def Let_def)
  then obtain i where i: "check_anchor sha str verify req t a = Some i" "is_severity i = Sev_Error"
    by blast
  then have "i \<in> set (List.map_filter (check_anchor sha str verify req t)
      (sort_key an_tenant (sort_key an_to anchors)))"
    using assms(1) by (auto simp: set_map_filter)
  with i(2) show ?thesis by (auto simp: verify_audit_anchors_def Let_def list_ex_iff)
qed

lemma truncation_below_anchor_reported_witness:
  "\<not> fst (verify_audit_anchors id (\<lambda>_. ''j'') None [] False [] [sample_anchor])"
  by (rule truncation_below_anchor_reported [of sample_anchor]) simp_all

end
