(* ===== verification/Tool_Registry.thy ===== *)
theory Tool_Registry
  imports Js_Values
begin

text \<open>
  Tool adapters and their registry: \<^verbatim>\<open>src/agent/tool-adapter.ts\<close> and \<^verbatim>\<open>src/agent/tool-registry.ts\<close>. Of
  an adapter the pipeline uses the metadata and the optional risk predicate; what the tool does when
  it is invoked is outside the program. Ids are unique, and a frozen registry never changes again.
\<close>

record tool_metadata =
  tm_id :: ident
  tm_high_risk :: bool
  tm_default_timeout :: millis
  tm_default_max_per_day :: int

record tool_adapter =
  ad_metadata :: tool_metadata
  ad_is_high_risk :: "(json \<Rightarrow> bool) option"

record tool_result =
  tr_content :: "json list"
  tr_cost_cents :: int
  tr_output_size :: int

record tool_registry =
  rg_adapters :: "tool_adapter list"
  rg_frozen :: bool

definition new_registry :: tool_registry where
  "new_registry = \<lparr> rg_adapters = [], rg_frozen = False \<rparr>"

definition ad_id :: "tool_adapter \<Rightarrow> ident" where
  "ad_id a = tm_id (ad_metadata a)"

datatype registry_error = Registry_Frozen ident | Already_Registered ident

definition registry_get :: "tool_registry \<Rightarrow> ident \<Rightarrow> tool_adapter option" where
  "registry_get g i = select_one (\<lambda>a. ad_id a = i) (rg_adapters g)"

definition registry_has :: "tool_registry \<Rightarrow> ident \<Rightarrow> bool" where
  "registry_has g i = list_ex (\<lambda>a. ad_id a = i) (rg_adapters g)"

definition registry_list :: "tool_registry \<Rightarrow> tool_adapter list" where
  "registry_list g = rg_adapters g"

definition registry_register :: "tool_registry \<Rightarrow> tool_adapter \<Rightarrow> registry_error + tool_registry" where
  "registry_register g a =
     (if rg_frozen g then Inl (Registry_Frozen (ad_id a))
      else if registry_has g (ad_id a) then Inl (Already_Registered (ad_id a))
      else Inr (g\<lparr>rg_adapters := rg_adapters g @ [a]\<rparr>))"

definition registry_freeze :: "tool_registry \<Rightarrow> tool_registry" where
  "registry_freeze g = g\<lparr>rg_frozen := True\<rparr>"

datatype registry_command = Rg_Register tool_adapter | Rg_Freeze

fun registry_step :: "tool_registry \<Rightarrow> registry_command \<Rightarrow> tool_registry" where
  "registry_step g (Rg_Register a) = (case registry_register g a of Inl _ \<Rightarrow> g | Inr g' \<Rightarrow> g')"
| "registry_step g Rg_Freeze = registry_freeze g"

definition registry_ok :: "tool_registry \<Rightarrow> bool" where
  "registry_ok g \<longleftrightarrow> distinct (map ad_id (rg_adapters g))"

lemma registry_step_ok: "registry_ok g \<Longrightarrow> registry_ok (registry_step g c)"
  by (cases c) (auto simp: registry_ok_def registry_register_def registry_has_def registry_freeze_def list_ex_iff)

interpretation registry: invariant_machine registry_step registry_ok
  by unfold_locales (rule registry_step_ok)

lemma frozen_step: "rg_frozen g \<Longrightarrow> registry_step g c = g"
  by (cases c) (simp_all add: registry_register_def registry_freeze_def)

lemma frozen_run: "rg_frozen g \<Longrightarrow> foldl registry_step g cs = g"
  by (induction cs) (simp_all add: frozen_step)

lemma registry_get_id: "registry_get g i = Some a \<Longrightarrow> ad_id a = i \<and> a \<in> set (rg_adapters g)"
  by (auto simp: registry_get_def dest: select_one_SomeD)

subsection \<open>Properties\<close>

text \<open>
  after start-up the set of tools is fixed: whatever was registered before the freeze, no later
  sequence of registrations or freezes changes what any tool id resolves to, and every id resolves
  to the one adapter registered under it.
\<close>

theorem frozen_registry_is_final:
  "registry_get (foldl registry_step (registry_freeze (foldl registry_step new_registry cs)) later) i =
     registry_get (foldl registry_step new_registry cs) i \<and>
   registry_ok (foldl registry_step new_registry cs)"
proof -
  let ?g = "foldl registry_step new_registry cs"
  have "foldl registry_step (registry_freeze ?g) later = registry_freeze ?g"
    by (rule frozen_run) (simp add: registry_freeze_def)
  moreover have "registry_ok ?g"
    by (rule registry.run_invar) (simp add: registry_ok_def new_registry_def)
  ultimately show ?thesis by (simp add: registry_get_def registry_freeze_def)
qed

end
