(* ===== verification/Tool_Pipeline.thy ===== *)
theory Tool_Pipeline
  imports Tool_Registry Tool_Permission Agency_Authorization Confirmation_Token Circuit_Breaker
    Audit_Log "HOL-Library.List_Lexorder" "HOL-Library.Char_ord" "HOL-Library.Multiset"
begin

text \<open>
  The tool invocation pipeline, \<^verbatim>\<open>src/agent/tool-invocation-pipeline.ts\<close>, over the models of the
  services it calls: registry, agency authorizations, permissions and invocation log, confirmation
  tokens, circuit breakers and the audit log. \<^verbatim>\<open>invoke\<close> is asynchronous only where it awaits the
  tool, so it is modelled as two steps: \<open>begin_invoke\<close> runs every gate and admits the call to the
  breaker, \<open>finish_invoke\<close> settles the breaker and records the outcome; other calls may begin or
  finish in between. Clock reads, fresh ids and the tool's outcome are arguments.
\<close>

subsection \<open>Configuration, requests and state\<close>

text \<open>
  \<open>pc_sha\<close> and \<open>pc_str\<close> are the digest and \<^verbatim>\<open>JSON.stringify\<close>; the two texts are the messages of the
  breaker's errors.
\<close>

record pipeline_config =
  pc_registry :: tool_registry
  pc_sha :: "string \<Rightarrow> string"
  pc_str :: "json \<Rightarrow> string"
  pc_open_text :: "circuit_state \<Rightarrow> string"
  pc_timeout_text :: string

record invoke_request =
  rq_tenant :: ident
  rq_persona :: ident
  rq_tool :: ident
  rq_invoker_type :: invoker_type
  rq_invoker :: ident
  rq_user :: "ident option"
  rq_arguments :: json
  rq_token :: "ident option"
  rq_external_user :: "ident option"
  rq_session :: "ident option"

record invocation_context =
  cx_tenant :: ident
  cx_persona :: ident
  cx_tool :: ident
  cx_invoker_type :: invoker_type
  cx_invoker :: ident
  cx_user :: "ident option"
  cx_arguments :: json
  cx_token :: "ident option"
  cx_deadline :: millis

text \<open>\<open>ps_runs\<close> is a ghost: the contexts the tools have been invoked with, in order.\<close>

record pipeline_state =
  ps_permissions :: permission_table
  ps_agency :: agency_table
  ps_tokens :: token_table
  ps_invocations :: invocation_table
  ps_audit :: audit_table
  ps_breakers :: "ident \<Rightarrow> circuit_snapshot option"
  ps_runs :: "invocation_context list"

datatype decision_status =
  Ds_Tool_Not_Found | Ds_Denied_Permission | Ds_Denied_Quota | Ds_Denied_Budget
| Ds_Denied_Circuit_Open | Ds_Denied_Authorization | Ds_Pending_Confirmation | Ds_Failed | Ds_Timeout

datatype decision =
  Dec_Ok ident tool_result
| Dec_Refused ident decision_status "ident option"

record pending_call =
  pd_request :: invoke_request
  pd_breaker :: ident
  pd_hash :: string
  pd_started :: millis

text \<open>What one step reads from outside.\<close>

record invoke_env =
  ie_now :: millis
  ie_token_checked :: millis
  ie_token_marked :: millis
  ie_token_issued :: millis
  ie_token_id :: ident
  ie_started :: millis
  ie_breaker_now :: millis
  ie_finished :: millis
  ie_row_id :: ident
  ie_row_now :: millis
  ie_audit_id :: ident
  ie_audit_now :: millis
  ie_audit_works :: bool

subsection \<open>Helpers\<close>

fun stable_sort :: "json \<Rightarrow> json" where
  "stable_sort (JArr xs) = JArr (map stable_sort xs)"
| "stable_sort (JObj ps) = JObj (sort_key fst (map (\<lambda>(k, v). (k, stable_sort v)) ps))"
| "stable_sort j = j"

definition hash_args :: "pipeline_config \<Rightarrow> json \<Rightarrow> string" where
  "hash_args cfg args = js_prefix 32 (pc_sha cfg (pc_str cfg (stable_sort args)))"

fun first_text :: "json \<Rightarrow> string list \<Rightarrow> string option" where
  "first_text args [] = None"
| "first_text args (k # ks) =
     (case js_get args k of
        Some (JStr s) \<Rightarrow> if s \<noteq> [] then Some s else first_text args ks
      | _ \<Rightarrow> first_text args ks)"

definition extract_target :: "json \<Rightarrow> string option" where
  "extract_target args = first_text args [''recipient'', ''to'', ''target'', ''url'', ''calendarId'']"

fun deny_reason_text :: "permission_deny_reason \<Rightarrow> string" where
  "deny_reason_text Not_Granted = ''not_granted''"
| "deny_reason_text Expired = ''expired''"
| "deny_reason_text Revoked = ''revoked''"

fun token_refusal_text :: "token_refusal \<Rightarrow> string" where
  "token_refusal_text Token_Not_Found = ''token_not_found''"
| "token_refusal_text Token_Already_Consumed = ''token_already_consumed''"
| "token_refusal_text Token_Expired = ''token_expired''"
| "token_refusal_text Token_Context_Mismatch = ''token_context_mismatch''"
| "token_refusal_text Token_Input_Changed = ''token_input_changed''"

fun status_text :: "invocation_status \<Rightarrow> string" where
  "status_text Inv_Success = ''success''"
| "status_text Inv_Failed = ''failed''"
| "status_text Inv_Pending_Confirmation = ''pending_confirmation''"
| "status_text Inv_Denied_Permission = ''denied_permission''"
| "status_text Inv_Denied_Quota = ''denied_quota''"
| "status_text Inv_Denied_Budget = ''denied_budget''"
| "status_text Inv_Denied_Circuit_Open = ''denied_circuit_open''"
| "status_text Inv_Tool_Not_Found = ''tool_not_found''"
| "status_text Inv_Timeout = ''timeout''"

definition pipeline_breaker_options :: circuit_options where
  "pipeline_breaker_options =
     \<lparr> failure_threshold = 5, reset_timeout = 60000, half_open_max = 1, execution_timeout = 30000 \<rparr>"

definition get_breaker :: "pipeline_state \<Rightarrow> ident \<Rightarrow> circuit_snapshot" where
  "get_breaker s i = or_default (ps_breakers s i) initial_circuit"

definition set_breaker :: "pipeline_state \<Rightarrow> ident \<Rightarrow> circuit_snapshot \<Rightarrow> pipeline_state" where
  "set_breaker s i b = s\<lparr>ps_breakers := (ps_breakers s)(i \<mapsto> b)\<rparr>"

text \<open>A failing audit write is logged and swallowed.\<close>

definition write_audit ::
  "pipeline_config \<Rightarrow> pipeline_state \<Rightarrow> invoke_request \<Rightarrow> string \<Rightarrow> ident \<Rightarrow> (string \<times> json) list \<Rightarrow>
   invoke_env \<Rightarrow> pipeline_state" where
  "write_audit cfg s rq action target payload e =
     (if \<not> ie_audit_works e then s
      else (case record_business_audit_log (pc_sha cfg) (pc_str cfg) (ps_audit s)
              \<lparr> ba_tenant = rq_tenant rq, ba_actor_type = Actor_System, ba_actor_id = rq_invoker rq,
                ba_action = action, ba_target_type = ''tool_invocation'', ba_target_id = target,
                ba_payload = Some (JObj (payload @ [(''personaId'', JStr (rq_persona rq))])),
                ba_request_id = None, ba_created_at = None \<rparr> (ie_audit_id e) (ie_audit_now e) of
              Inl _ \<Rightarrow> s
            | Inr (t, _) \<Rightarrow> s\<lparr>ps_audit := t\<rparr>))"

definition request_record ::
  "pipeline_config \<Rightarrow> invoke_request \<Rightarrow> invocation_status \<Rightarrow> string option \<Rightarrow> ident option \<Rightarrow> record_input" where
  "request_record cfg rq st err token =
     \<lparr> ri_tenant = rq_tenant rq, ri_persona = rq_persona rq, ri_tool = rq_tool rq,
       ri_invoker_type = rq_invoker_type rq, ri_invoker = rq_invoker rq,
       ri_invoker_user = rq_user rq, ri_status = st,
       ri_input_hash = hash_args cfg (rq_arguments rq), ri_output_size = 0, ri_error = err,
       ri_cost_cents = 0, ri_duration = 0, ri_confirmation_token = token,
       ri_invoked_at = None, ri_completed_at = None \<rparr>"

definition record_denied ::
  "pipeline_config \<Rightarrow> pipeline_state \<Rightarrow> invoke_request \<Rightarrow> invocation_status \<Rightarrow> string \<Rightarrow> invoke_env \<Rightarrow>
   pipeline_state \<times> ident" where
  "record_denied cfg s rq st message e =
     (let (l, i) = record_invocation (ps_invocations s)
            (request_record cfg rq st (Some message) (rq_token rq)) (ie_row_id e) (ie_row_now e) in
      (write_audit cfg (s\<lparr>ps_invocations := l\<rparr>) rq (''tool.invocation.'' @ status_text st) i
         [(''toolId'', JStr (rq_tool rq)), (''reason'', JStr message)] e, i))"

definition refuse ::
  "pipeline_config \<Rightarrow> pipeline_state \<Rightarrow> invoke_request \<Rightarrow> invocation_status \<Rightarrow> decision_status \<Rightarrow> string \<Rightarrow>
   invoke_env \<Rightarrow> pipeline_state \<times> (decision + pending_call)" where
  "refuse cfg s rq st ds message e =
     (let (s', i) = record_denied cfg s rq st message e in (s', Inl (Dec_Refused i ds None)))"

subsection \<open>Confirmation\<close>

definition token_context_of :: "pipeline_config \<Rightarrow> invoke_request \<Rightarrow> token_context" where
  "token_context_of cfg rq =
     \<lparr> tc_tenant = rq_tenant rq, tc_persona = rq_persona rq,
       tc_session = or_default (rq_session rq) (''tool-'' @ rq_tool rq),
       tc_user = or_default (rq_external_user rq) (rq_invoker rq),
       tc_input = pc_str cfg (rq_arguments rq) \<rparr>"

text \<open>
  The result is the state and, unless the call may go on, its end; the outer option is \<open>None\<close> when
  the insert of the token throws, which ends the call without a record.
\<close>

definition handle_confirmation ::
  "pipeline_config \<Rightarrow> pipeline_state \<Rightarrow> invoke_request \<Rightarrow> tool_adapter \<Rightarrow> invoke_env \<Rightarrow>
   (pipeline_state \<times> (decision + pending_call) option) option" where
  "handle_confirmation cfg s rq adapter e =
     (if truthy (rq_token rq) then
        (case token_consume (pc_sha cfg) (ps_tokens s) (the (rq_token rq)) (token_context_of cfg rq)
                (ie_token_checked e) (ie_token_marked e) of
           (t, None) \<Rightarrow> Some (s\<lparr>ps_tokens := t\<rparr>, None)
         | (t, Some why) \<Rightarrow>
             (let (s', d) = refuse cfg (s\<lparr>ps_tokens := t\<rparr>) rq Inv_Denied_Permission
                    Ds_Denied_Permission (''confirmation invalid: '' @ token_refusal_text why) e in
              Some (s', Some d)))
      else
        (case token_issue (pc_sha cfg) default_token_ttl (ps_tokens s) (token_context_of cfg rq)
                (''tool.'' @ ad_id adapter) ''require_confirmation'' (ie_token_id e)
                (ie_token_issued e) of
           Inl _ \<Rightarrow> None
         | Inr (t, token, expires) \<Rightarrow>
             (let (l, i) = record_invocation (ps_invocations s)
                    (request_record cfg rq Inv_Pending_Confirmation None (Some token))
                    (ie_row_id e) (ie_row_now e);
                  s' = write_audit cfg (s\<lparr>ps_tokens := t, ps_invocations := l\<rparr>) rq
                    ''tool.invocation.pending_confirmation'' i
                    [(''toolId'', JStr (rq_tool rq)), (''confirmationTokenId'', JStr token),
                     (''expiresAt'', JNum (of_int expires))] e in
              Some (s', Some (Inl (Dec_Refused i Ds_Pending_Confirmation (Some token)))))))"

subsection \<open>The gates\<close>

definition target_refusal :: "tool_constraints \<Rightarrow> json \<Rightarrow> string option" where
  "target_refusal c args =
     (case extract_target args of
        None \<Rightarrow> None
      | Some target \<Rightarrow>
          if (case deny_list c of None \<Rightarrow> False | Some ds \<Rightarrow> target \<in> set ds)
          then Some (''target '' @ target @ '' in denyList'')
          else if (case allow_list c of None \<Rightarrow> False | Some as \<Rightarrow> as \<noteq> [] \<and> target \<notin> set as)
          then Some (''target '' @ target @ '' not in allowList'')
          else None)"

definition rq_key :: "invoke_request \<Rightarrow> perm_key" where
  "rq_key rq = (rq_tenant rq, rq_persona rq, rq_tool rq)"

definition quota_refusal ::
  "pipeline_state \<Rightarrow> invoke_request \<Rightarrow> tool_constraints \<Rightarrow> tool_adapter \<Rightarrow> millis \<Rightarrow> string option" where
  "quota_refusal s rq c adapter now =
     (let max_per_day = or_default (max_actions_per_day c) (tm_default_max_per_day (ad_metadata adapter)) in
      if max_per_day > 0 then
        (let used = daily_usage_count (ps_invocations s) (rq_key rq) now in
         if used \<ge> max_per_day
         then Some (''daily quota '' @ js_int_text max_per_day @ '' reached (used='' @ js_int_text used @ '')'')
         else None)
      else None)"

definition budget_refusal ::
  "pipeline_state \<Rightarrow> invoke_request \<Rightarrow> tool_constraints \<Rightarrow> millis \<Rightarrow> string option" where
  "budget_refusal s rq c now =
     (case budget_limit_cents c of
        None \<Rightarrow> None
      | Some limit \<Rightarrow>
          if limit \<ge> 0 then
            (let spent = daily_cost_cents (ps_invocations s) (rq_key rq) now in
             if spent \<ge> limit
             then Some (''daily budget '' @ js_int_text limit @ [CHR 0xA2] @ '' reached (spent='' @
                        js_int_text spent @ [CHR 0xA2] @ '')'')
             else None)
          else None)"

definition needs_confirmation :: "tool_adapter \<Rightarrow> json \<Rightarrow> tool_constraints \<Rightarrow> bool" where
  "needs_confirmation adapter args c \<longleftrightarrow>
     tm_high_risk (ad_metadata adapter) \<or>
     (case ad_is_high_risk adapter of None \<Rightarrow> False | Some risky \<Rightarrow> risky args) \<or>
     require_confirmation c = Some True"

subsection \<open>Recording outcomes\<close>

definition record_failed ::
  "pipeline_config \<Rightarrow> pipeline_state \<Rightarrow> pending_call \<Rightarrow> invocation_status \<Rightarrow> decision_status \<Rightarrow> string \<Rightarrow>
   invoke_env \<Rightarrow> pipeline_state \<times> decision" where
  "record_failed cfg s pd st ds reason e =
     (let rq = pd_request pd; duration = ie_finished e - pd_started pd;
          (l, i) = record_invocation (ps_invocations s)
            ((request_record cfg rq st (Some (js_prefix 500 reason)) (rq_token rq))
               \<lparr>ri_input_hash := pd_hash pd, ri_duration := duration,
                ri_invoked_at := Some (pd_started pd)\<rparr>) (ie_row_id e) (ie_row_now e) in
      (write_audit cfg (s\<lparr>ps_invocations := l\<rparr>) rq (''tool.invocation.'' @ status_text st) i
         [(''toolId'', JStr (rq_tool rq)), (''durationMs'', JNum (of_int duration)),
          (''error'', JStr (js_prefix 200 reason))] e,
       Dec_Refused i ds None))"

definition record_succeeded ::
  "pipeline_config \<Rightarrow> pipeline_state \<Rightarrow> pending_call \<Rightarrow> tool_result \<Rightarrow> invoke_env \<Rightarrow>
   pipeline_state \<times> decision" where
  "record_succeeded cfg s pd result e =
     (let rq = pd_request pd; duration = ie_finished e - pd_started pd;
          (l, i) = record_invocation (ps_invocations s)
            ((request_record cfg rq Inv_Success None (rq_token rq))
               \<lparr>ri_input_hash := pd_hash pd, ri_output_size := tr_output_size result,
                ri_cost_cents := tr_cost_cents result, ri_duration := duration,
                ri_invoked_at := Some (pd_started pd)\<rparr>) (ie_row_id e) (ie_row_now e) in
      (write_audit cfg (s\<lparr>ps_invocations := l\<rparr>) rq ''tool.invocation.success'' i
         [(''toolId'', JStr (rq_tool rq)), (''durationMs'', JNum (of_int duration)),
          (''outputSizeBytes'', JNum (of_int (tr_output_size result))),
          (''costCents'', JNum (of_int (tr_cost_cents result)))] e,
       Dec_Ok i result))"

subsection \<open>The two steps of a call\<close>

text \<open>The last synchronous part: the breaker admits the call and the tool starts, or it refuses.\<close>

definition start_tool ::
  "pipeline_config \<Rightarrow> pipeline_state \<Rightarrow> invoke_request \<Rightarrow> tool_adapter \<Rightarrow> invoke_env \<Rightarrow>
   pipeline_state \<times> (decision + pending_call)" where
  "start_tool cfg s rq adapter e =
     (let started = ie_started e;
          pd = \<lparr> pd_request = rq, pd_breaker = ad_id adapter,
                 pd_hash = hash_args cfg (rq_arguments rq), pd_started = started \<rparr>;
          ctx = \<lparr> cx_tenant = rq_tenant rq, cx_persona = rq_persona rq, cx_tool = rq_tool rq,
                  cx_invoker_type = rq_invoker_type rq, cx_invoker = rq_invoker rq,
                  cx_user = rq_user rq, cx_arguments = rq_arguments rq, cx_token = rq_token rq,
                  cx_deadline = started + tm_default_timeout (ad_metadata adapter) \<rparr>;
          (b, admitted) = cb_admit pipeline_breaker_options (get_breaker s (ad_id adapter)) (ie_breaker_now e);
          s1 = set_breaker s (ad_id adapter) b in
      if admitted then (s1\<lparr>ps_runs := ps_runs s1 @ [ctx]\<rparr>, Inr pd)
      else (let (s2, d) = record_failed cfg s1 pd Inv_Denied_Circuit_Open Ds_Denied_Circuit_Open
                   (pc_open_text cfg (circuit b)) e in (s2, Inl d)))"

definition begin_invoke ::
  "pipeline_config \<Rightarrow> pipeline_state \<Rightarrow> invoke_request \<Rightarrow> invoke_env \<Rightarrow>
   (pipeline_state \<times> (decision + pending_call)) option" where
  "begin_invoke cfg s rq e =
     (case registry_get (pc_registry cfg) (rq_tool rq) of
        None \<Rightarrow> Some (refuse cfg s rq Inv_Tool_Not_Found Ds_Tool_Not_Found
                  (''tool '' @ rq_tool rq @ '' not registered'') e)
      | Some adapter \<Rightarrow>
          (let now = ie_now e in
           if \<not> is_tool_allowed_for_principal (ps_agency s) (rq_tenant rq) (rq_persona rq)
                  (rq_tool rq) (rq_user rq) now
           then Some (refuse cfg s rq Inv_Denied_Permission Ds_Denied_Authorization
                  ''no active agency authorization covers this tool'' e)
           else (case tp_check (ps_permissions s) (rq_key rq) now of
             Denied why \<Rightarrow> Some (refuse cfg s rq Inv_Denied_Permission Ds_Denied_Permission
                  (''permission check failed: '' @ deny_reason_text why) e)
           | Allowed perm \<Rightarrow>
               (let c = perm_constraints perm in
                case target_refusal c (rq_arguments rq) of
                  Some m \<Rightarrow> Some (refuse cfg s rq Inv_Denied_Permission Ds_Denied_Permission m e)
                | None \<Rightarrow>
                 (case quota_refusal s rq c adapter now of
                    Some m \<Rightarrow> Some (refuse cfg s rq Inv_Denied_Quota Ds_Denied_Quota m e)
                  | None \<Rightarrow>
                   (case budget_refusal s rq c now of
                      Some m \<Rightarrow> Some (refuse cfg s rq Inv_Denied_Budget Ds_Denied_Budget m e)
                    | None \<Rightarrow>
                       if needs_confirmation adapter (rq_arguments rq) c then
                         (case handle_confirmation cfg s rq adapter e of
                            None \<Rightarrow> None
                          | Some (s', Some d) \<Rightarrow> Some (s', d)
                          | Some (s', None) \<Rightarrow> Some (start_tool cfg s' rq adapter e))
                       else Some (start_tool cfg s rq adapter e)))))))"

definition finish_invoke ::
  "pipeline_config \<Rightarrow> pipeline_state \<Rightarrow> pending_call \<Rightarrow> tool_result operation \<Rightarrow> invoke_env \<Rightarrow>
   pipeline_state \<times> decision" where
  "finish_invoke cfg s pd outcome e =
     (let settle = (\<lambda>ok. set_breaker s (pd_breaker pd)
            (cb_settle pipeline_breaker_options (get_breaker s (pd_breaker pd)) ok (ie_breaker_now e))) in
      case outcome of
        Op_Returns result \<Rightarrow> record_succeeded cfg (settle True) pd result e
      | Op_Throws message \<Rightarrow> record_failed cfg (settle False) pd Inv_Failed Ds_Failed message e
      | Op_Hangs \<Rightarrow> record_failed cfg (settle False) pd Inv_Timeout Ds_Timeout (pc_timeout_text cfg) e)"

text \<open>A call that nothing interrupts; \<open>e\<close> and \<open>e'\<close> are what its two steps read.\<close>

definition invoke ::
  "pipeline_config \<Rightarrow> pipeline_state \<Rightarrow> invoke_request \<Rightarrow> tool_result operation \<Rightarrow> invoke_env \<Rightarrow>
   invoke_env \<Rightarrow> (pipeline_state \<times> decision) option" where
  "invoke cfg s rq outcome e e' =
     (case begin_invoke cfg s rq e of
        None \<Rightarrow> None
      | Some (s', Inl d) \<Rightarrow> Some (s', d)
      | Some (s', Inr pd) \<Rightarrow> Some (finish_invoke cfg s' pd outcome e'))"

subsection \<open>What the steps leave alone\<close>

lemma write_audit_frame [simp]:
  "ps_permissions (write_audit cfg s rq a i p e) = ps_permissions s"
  "ps_agency (write_audit cfg s rq a i p e) = ps_agency s"
  "ps_tokens (write_audit cfg s rq a i p e) = ps_tokens s"
  "ps_invocations (write_audit cfg s rq a i p e) = ps_invocations s"
  "ps_breakers (write_audit cfg s rq a i p e) = ps_breakers s"
  "ps_runs (write_audit cfg s rq a i p e) = ps_runs s"
  by (simp_all add: write_audit_def split: sum.splits)

lemma set_breaker_frame [simp]:
  "ps_permissions (set_breaker s i b) = ps_permissions s"
  "ps_agency (set_breaker s i b) = ps_agency s"
  "ps_tokens (set_breaker s i b) = ps_tokens s"
  "ps_invocations (set_breaker s i b) = ps_invocations s"
  "ps_audit (set_breaker s i b) = ps_audit s"
  "ps_runs (set_breaker s i b) = ps_runs s"
  by (simp_all add: set_breaker_def)

lemma record_invocation_simps [simp]:
  "fst (record_invocation l inp i now) = l @ [invocation_of inp i now]"
  "snd (record_invocation l inp i now) = i"
  "ti_id (invocation_of inp i now) = i"
  "ti_status (invocation_of inp i now) = ri_status inp"
  "ti_key (invocation_of inp i now) = (ri_tenant inp, ri_persona inp, ri_tool inp)"
  "ti_invoked_at (invocation_of inp i now) = or_default (ri_invoked_at inp) now"
  "ti_confirmation_token (invocation_of inp i now) = ri_confirmation_token inp"
  "ti_input_hash (invocation_of inp i now) = ri_input_hash inp"
  "ti_cost_cents (invocation_of inp i now) = ri_cost_cents inp"
  by (simp_all add: record_invocation_def tinv_cmd_record_def invocation_of_def ti_key_def Let_def)

lemma request_record_simps [simp]:
  "ri_status (request_record cfg rq st err token) = st"
  "ri_tenant (request_record cfg rq st err token) = rq_tenant rq"
  "ri_persona (request_record cfg rq st err token) = rq_persona rq"
  "ri_tool (request_record cfg rq st err token) = rq_tool rq"
  "ri_invoked_at (request_record cfg rq st err token) = None"
  "ri_input_hash (request_record cfg rq st err token) = hash_args cfg (rq_arguments rq)"
  "ri_cost_cents (request_record cfg rq st err token) = 0"
  by (simp_all add: request_record_def)

text \<open>A row of the log describes a request that ended with a status and an id.\<close>

definition describes :: "pipeline_config \<Rightarrow> invocation_row \<Rightarrow> invoke_request \<Rightarrow> invocation_status \<Rightarrow> ident \<Rightarrow> bool" where
  "describes cfg row rq st i \<longleftrightarrow>
     ti_key row = rq_key rq \<and> ti_status row = st \<and> ti_id row = i \<and>
     ti_input_hash row = hash_args cfg (rq_arguments rq)"

definition appended ::
  "pipeline_config \<Rightarrow> pipeline_state \<Rightarrow> pipeline_state \<Rightarrow> invoke_request \<Rightarrow> invocation_status \<Rightarrow> ident \<Rightarrow> bool" where
  "appended cfg s s' rq st i \<longleftrightarrow>
     (\<exists>row. ps_invocations s' = ps_invocations s @ [row] \<and> describes cfg row rq st i)"

text \<open>\<open>quiet s s'\<close>: no tool ran and permissions and authorizations are as before.\<close>

definition quiet :: "pipeline_state \<Rightarrow> pipeline_state \<Rightarrow> bool" where
  "quiet s s' \<longleftrightarrow>
     ps_runs s' = ps_runs s \<and> ps_permissions s' = ps_permissions s \<and> ps_agency s' = ps_agency s"

lemma quiet_refl [simp]: "quiet s s"
  by (simp add: quiet_def)

lemma record_denied_effect:
  assumes "record_denied cfg s rq st m e = (s', i)"
  shows "appended cfg s s' rq st i \<and> quiet s s' \<and> i = ie_row_id e \<and>
         ps_tokens s' = ps_tokens s \<and> ps_breakers s' = ps_breakers s"
  using assms
  by (auto simp: record_denied_def appended_def describes_def quiet_def rq_key_def Let_def
      case_prod_beta)

lemma refuse_effect:
  assumes "refuse cfg s rq st ds m e = (s', r)"
  shows "r = Inl (Dec_Refused (ie_row_id e) ds None) \<and>
         appended cfg s s' rq st (ie_row_id e) \<and> quiet s s' \<and>
         ps_tokens s' = ps_tokens s \<and> ps_breakers s' = ps_breakers s"
proof -
  obtain s1 i where "record_denied cfg s rq st m e = (s1, i)" by fastforce
  with assms record_denied_effect [OF this] show ?thesis by (auto simp: refuse_def)
qed

lemma record_failed_effect:
  assumes "record_failed cfg s pd st ds m e = (s', d)"
    and "pd_hash pd = hash_args cfg (rq_arguments (pd_request pd))"
  shows "d = Dec_Refused (ie_row_id e) ds None \<and>
         appended cfg s s' (pd_request pd) st (ie_row_id e) \<and> quiet s s' \<and>
         ps_tokens s' = ps_tokens s \<and> ps_breakers s' = ps_breakers s"
  using assms
  by (auto simp: record_failed_def appended_def describes_def quiet_def rq_key_def Let_def
      case_prod_beta)

lemma record_succeeded_effect:
  assumes "record_succeeded cfg s pd result e = (s', d)"
    and "pd_hash pd = hash_args cfg (rq_arguments (pd_request pd))"
  shows "d = Dec_Ok (ie_row_id e) result \<and>
         appended cfg s s' (pd_request pd) Inv_Success (ie_row_id e) \<and> quiet s s' \<and>
         ps_tokens s' = ps_tokens s \<and> ps_breakers s' = ps_breakers s"
  using assms
  by (auto simp: record_succeeded_def appended_def describes_def quiet_def rq_key_def Let_def
      case_prod_beta)

text \<open>
  The status a decision is recorded with: \<open>Ds_Denied_Authorization\<close> has no status of its own in the
  log.
\<close>

fun recorded_status :: "decision_status \<Rightarrow> invocation_status" where
  "recorded_status Ds_Tool_Not_Found = Inv_Tool_Not_Found"
| "recorded_status Ds_Denied_Permission = Inv_Denied_Permission"
| "recorded_status Ds_Denied_Quota = Inv_Denied_Quota"
| "recorded_status Ds_Denied_Budget = Inv_Denied_Budget"
| "recorded_status Ds_Denied_Circuit_Open = Inv_Denied_Circuit_Open"
| "recorded_status Ds_Denied_Authorization = Inv_Denied_Permission"
| "recorded_status Ds_Pending_Confirmation = Inv_Pending_Confirmation"
| "recorded_status Ds_Failed = Inv_Failed"
| "recorded_status Ds_Timeout = Inv_Timeout"

fun decision_row :: "decision \<Rightarrow> ident \<times> invocation_status" where
  "decision_row (Dec_Ok i _) = (i, Inv_Success)"
| "decision_row (Dec_Refused i ds _) = (i, recorded_status ds)"

text \<open>A call that ended: one row was appended that matches the decision.\<close>

definition ended ::
  "pipeline_config \<Rightarrow> pipeline_state \<Rightarrow> pipeline_state \<Rightarrow> invoke_request \<Rightarrow> decision \<Rightarrow> bool" where
  "ended cfg s s' rq d \<longleftrightarrow>
     appended cfg s s' rq (snd (decision_row d)) (fst (decision_row d)) \<and> quiet s s'"

definition refused :: "decision \<Rightarrow> bool" where
  "refused d \<longleftrightarrow> (\<exists>i ds t. d = Dec_Refused i ds t)"

lemma refused_simps [simp]: "refused (Dec_Refused i ds t)" "\<not> refused (Dec_Ok i r)"
  by (simp_all add: refused_def)

lemma refused_status: "refused d \<Longrightarrow> snd (decision_row d) \<noteq> Inv_Success"
proof (cases d)
  case (Dec_Refused i ds t)
  then show ?thesis by (cases ds) simp_all
qed simp

lemma refuse_ends:
  assumes "refuse cfg s rq (recorded_status ds) ds m e = (s', r)"
  shows "\<exists>d. r = Inl d \<and> ended cfg s s' rq d \<and> refused d"
  using refuse_effect [OF assms] by (auto simp: ended_def)

lemmas refuse_ends_at =
  refuse_ends [of _ _ _ Ds_Tool_Not_Found, simplified]
  refuse_ends [of _ _ _ Ds_Denied_Authorization, simplified]
  refuse_ends [of _ _ _ Ds_Denied_Permission, simplified]
  refuse_ends [of _ _ _ Ds_Denied_Quota, simplified]
  refuse_ends [of _ _ _ Ds_Denied_Budget, simplified]

lemma confirmation_go_on:
  assumes "handle_confirmation cfg s rq adapter e = Some (s', None)"
  shows "\<exists>tok t. rq_token rq = Some tok \<and> tok \<noteq> [] \<and> s' = s\<lparr>ps_tokens := t\<rparr> \<and>
     token_consume (pc_sha cfg) (ps_tokens s) tok (token_context_of cfg rq)
       (ie_token_checked e) (ie_token_marked e) = (t, None)"
  using assms
  by (auto simp: handle_confirmation_def truthy_def Let_def case_prod_beta prod_eq_iff
      split: if_splits option.splits sum.splits)

lemma confirmation_ends:
  assumes "handle_confirmation cfg s rq adapter e = Some (s', Some r)"
  shows "\<exists>d. r = Inl d \<and> ended cfg s s' rq d \<and> refused d"
proof (cases "truthy (rq_token rq)")
  case True
  obtain t why where c: "token_consume (pc_sha cfg) (ps_tokens s) (the (rq_token rq))
      (token_context_of cfg rq) (ie_token_checked e) (ie_token_marked e) = (t, why)" by fastforce
  with assms True obtain w where w: "why = Some w"
    by (cases why) (simp_all add: handle_confirmation_def)
  obtain s1 r1 where r1: "refuse cfg (s\<lparr>ps_tokens := t\<rparr>) rq Inv_Denied_Permission Ds_Denied_Permission
      (''confirmation invalid: '' @ token_refusal_text w) e = (s1, r1)" by fastforce
  with assms True c w have "s1 = s'" "r1 = r" by (simp_all add: handle_confirmation_def)
  with refuse_ends_at(3) [OF r1] show ?thesis
    by (auto simp: ended_def appended_def quiet_def)
next
  case False
  show ?thesis
  proof (cases "token_issue (pc_sha cfg) default_token_ttl (ps_tokens s) (token_context_of cfg rq)
      (''tool.'' @ ad_id adapter) ''require_confirmation'' (ie_token_id e) (ie_token_issued e)")
    case (Inl err)
    with assms False show ?thesis by (simp add: handle_confirmation_def)
  next
    case (Inr p)
    obtain t token expires where "p = (t, token, expires)" by (cases p) auto
    with Inr assms False show ?thesis
      by (auto simp: handle_confirmation_def ended_def appended_def describes_def quiet_def
          rq_key_def Let_def case_prod_beta)
  qed
qed

text \<open>When the tool starts, its context is appended to the runs and the log is as before.\<close>

lemma start_tool_starts:
  assumes "start_tool cfg s rq adapter e = (s', Inr pd)"
  shows "(\<exists>ctx. ps_runs s' = ps_runs s @ [ctx] \<and> cx_tool ctx = rq_tool rq \<and>
            cx_persona ctx = rq_persona rq \<and> cx_tenant ctx = rq_tenant rq \<and>
            cx_arguments ctx = rq_arguments rq \<and> cx_token ctx = rq_token rq) \<and>
     ps_invocations s' = ps_invocations s \<and> ps_permissions s' = ps_permissions s \<and>
     ps_agency s' = ps_agency s \<and> ps_tokens s' = ps_tokens s \<and>
     pd_request pd = rq \<and> pd_breaker pd = ad_id adapter \<and> pd_started pd = ie_started e \<and>
     pd_hash pd = hash_args cfg (rq_arguments rq) \<and>
     snd (cb_admit pipeline_breaker_options (get_breaker s (ad_id adapter)) (ie_breaker_now e))"
  using assms by (auto simp: start_tool_def Let_def case_prod_beta split: if_splits)

lemma start_tool_ends:
  assumes "start_tool cfg s rq adapter e = (s', Inl d)"
  shows "ended cfg s s' rq d \<and>
     d = Dec_Refused (ie_row_id e) Ds_Denied_Circuit_Open None"
proof -
  let ?pd = "\<lparr> pd_request = rq, pd_breaker = ad_id adapter,
      pd_hash = hash_args cfg (rq_arguments rq), pd_started = ie_started e \<rparr>"
  obtain b adm where b: "cb_admit pipeline_breaker_options (get_breaker s (ad_id adapter))
      (ie_breaker_now e) = (b, adm)" by fastforce
  obtain s1 d1 where f: "record_failed cfg (set_breaker s (ad_id adapter) b) ?pd
      Inv_Denied_Circuit_Open Ds_Denied_Circuit_Open (pc_open_text cfg (circuit b)) e = (s1, d1)"
    by fastforce
  have "\<not> adm" "s' = s1" "d = d1"
    using assms b f by (auto simp: start_tool_def Let_def split: if_splits)
  with record_failed_effect [OF f] show ?thesis
    by (auto simp: ended_def appended_def quiet_def)
qed

subsection \<open>What a started call went through\<close>

definition token_accepted :: "pipeline_config \<Rightarrow> pipeline_state \<Rightarrow> invoke_request \<Rightarrow> invoke_env \<Rightarrow> bool" where
  "token_accepted cfg s rq e \<longleftrightarrow>
     (\<exists>tok. rq_token rq = Some tok \<and> tok \<noteq> [] \<and>
        snd (token_consume (pc_sha cfg) (ps_tokens s) tok (token_context_of cfg rq)
               (ie_token_checked e) (ie_token_marked e)) = None)"

definition passes_gates ::
  "pipeline_config \<Rightarrow> pipeline_state \<Rightarrow> invoke_request \<Rightarrow> invoke_env \<Rightarrow> tool_adapter \<Rightarrow> tool_constraints \<Rightarrow> bool" where
  "passes_gates cfg s rq e adapter c \<longleftrightarrow>
     registry_get (pc_registry cfg) (rq_tool rq) = Some adapter \<and>
     is_tool_allowed_for_principal (ps_agency s) (rq_tenant rq) (rq_persona rq) (rq_tool rq)
       (rq_user rq) (ie_now e) \<and>
     (\<exists>p. tp_check (ps_permissions s) (rq_key rq) (ie_now e) = Allowed p \<and> c = perm_constraints p) \<and>
     target_refusal c (rq_arguments rq) = None \<and>
     quota_refusal s rq c adapter (ie_now e) = None \<and>
     budget_refusal s rq c (ie_now e) = None \<and>
     (needs_confirmation adapter (rq_arguments rq) c \<longrightarrow> token_accepted cfg s rq e)"

lemma ended_tokens [simp]: "ended cfg (s\<lparr>ps_tokens := t\<rparr>) s' rq d = ended cfg s s' rq d"
  by (simp add: ended_def appended_def quiet_def)

text \<open>The call after its gates: confirmation if needed, then the breaker.\<close>

definition past_gates ::
  "pipeline_config \<Rightarrow> pipeline_state \<Rightarrow> invoke_request \<Rightarrow> tool_adapter \<Rightarrow> tool_constraints \<Rightarrow> invoke_env \<Rightarrow>
   (pipeline_state \<times> (decision + pending_call)) option" where
  "past_gates cfg s rq adapter c e =
     (if needs_confirmation adapter (rq_arguments rq) c then
        (case handle_confirmation cfg s rq adapter e of
           None \<Rightarrow> None
         | Some (s', Some d) \<Rightarrow> Some (s', d)
         | Some (s', None) \<Rightarrow> Some (start_tool cfg s' rq adapter e))
      else Some (start_tool cfg s rq adapter e))"

lemma past_gates_ends:
  assumes "past_gates cfg s rq adapter c e = Some (s', Inl d)"
  shows "ended cfg s s' rq d \<and> refused d"
proof (cases "needs_confirmation adapter (rq_arguments rq) c")
  case True
  with assms obtain s1 r where h: "handle_confirmation cfg s rq adapter e = Some (s1, r)"
    by (auto simp: past_gates_def split: option.splits)
  show ?thesis
  proof (cases r)
    case (Some r1)
    with True assms h have "s1 = s'" "r1 = Inl d" by (simp_all add: past_gates_def)
    with confirmation_ends [OF h [unfolded Some]] show ?thesis by simp
  next
    case None
    with True assms h have st: "start_tool cfg s1 rq adapter e = (s', Inl d)" by (simp add: past_gates_def)
    obtain t where "s1 = s\<lparr>ps_tokens := t\<rparr>" using confirmation_go_on [OF h [unfolded None]] by blast
    with start_tool_ends [OF st] show ?thesis by auto
  qed
next
  case False
  with assms have "start_tool cfg s rq adapter e = (s', Inl d)" by (simp add: past_gates_def)
  from start_tool_ends [OF this] show ?thesis by auto
qed

lemma past_gates_starts:
  assumes "past_gates cfg s rq adapter c e = Some (s', Inr pd)"
  shows "\<exists>t. start_tool cfg (s\<lparr>ps_tokens := t\<rparr>) rq adapter e = (s', Inr pd) \<and>
     (if needs_confirmation adapter (rq_arguments rq) c
      then token_accepted cfg s rq e \<and>
        t = fst (token_consume (pc_sha cfg) (ps_tokens s) (the (rq_token rq)) (token_context_of cfg rq)
              (ie_token_checked e) (ie_token_marked e))
      else t = ps_tokens s)"
proof (cases "needs_confirmation adapter (rq_arguments rq) c")
  case True
  with assms obtain s1 r where h: "handle_confirmation cfg s rq adapter e = Some (s1, r)"
    by (auto simp: past_gates_def split: option.splits)
  show ?thesis
  proof (cases r)
    case (Some r1)
    with True assms h have "r1 = Inr pd" by (simp add: past_gates_def)
    with confirmation_ends [OF h [unfolded Some]] show ?thesis by simp
  next
    case None
    with True assms h have st: "start_tool cfg s1 rq adapter e = (s', Inr pd)" by (simp add: past_gates_def)
    from confirmation_go_on [OF h [unfolded None]] st True show ?thesis
      by (auto simp: token_accepted_def)
  qed
next
  case False
  with assms have "start_tool cfg s rq adapter e = (s', Inr pd)" by (simp add: past_gates_def)
  with False show ?thesis by (intro exI [of _ "ps_tokens s"]) simp
qed

lemma begin_invoke_cases:
  assumes b: "begin_invoke cfg s rq e = Some (s', r)"
  obtains (ended) d where "r = Inl d" and "ended cfg s s' rq d" and "refused d"
  | (started) pd adapter c where "r = Inr pd" and "passes_gates cfg s rq e adapter c"
      and "past_gates cfg s rq adapter c e = Some (s', Inr pd)"
proof -
  have fin: thesis if "\<exists>d. r = Inl d \<and> ended cfg s s' rq d \<and> refused d"
    using that ended by blast
  show thesis
proof (cases "registry_get (pc_registry cfg) (rq_tool rq)")
  case None
  with b have "refuse cfg s rq Inv_Tool_Not_Found Ds_Tool_Not_Found
      (''tool '' @ rq_tool rq @ '' not registered'') e = (s', r)"
    by (simp add: begin_invoke_def)
  from refuse_ends_at(1) [OF this] ended show thesis by blast
next
  case (Some adapter)
  note adapter = this
  show thesis
  proof (cases "is_tool_allowed_for_principal (ps_agency s) (rq_tenant rq) (rq_persona rq)
      (rq_tool rq) (rq_user rq) (ie_now e)")
    case False
    with adapter b show thesis
          by (simp add: begin_invoke_def Let_def) (rule fin, rule refuse_ends_at(2), assumption)
  next
    case True
    note auth = this
    show thesis
    proof (cases "tp_check (ps_permissions s) (rq_key rq) (ie_now e)")
      case (Denied why)
      with adapter auth b show thesis
          by (simp add: begin_invoke_def Let_def) (rule fin, rule refuse_ends_at(3), assumption)
    next
      case (Allowed p)
      let ?c = "perm_constraints p"
      show thesis
      proof (cases "target_refusal ?c (rq_arguments rq)")
        case (Some m)
        with adapter auth Allowed b show thesis
          by (simp add: begin_invoke_def Let_def) (rule fin, rule refuse_ends_at(3), assumption)
      next
        case None
        note target = this
        show thesis
        proof (cases "quota_refusal s rq ?c adapter (ie_now e)")
          case (Some m)
          with adapter auth Allowed target b show thesis
          by (simp add: begin_invoke_def Let_def) (rule fin, rule refuse_ends_at(4), assumption)
        next
          case None
          note quota = this
          show thesis
          proof (cases "budget_refusal s rq ?c (ie_now e)")
            case (Some m)
            with adapter auth Allowed target quota b show thesis
          by (simp add: begin_invoke_def Let_def) (rule fin, rule refuse_ends_at(5), assumption)
          next
            case None
            then have p: "past_gates cfg s rq adapter ?c e = Some (s', r)"
              using adapter auth Allowed target quota b by (simp add: begin_invoke_def Let_def past_gates_def)
            show thesis
            proof (cases r)
              case (Inl d)
              with past_gates_ends p ended show thesis by blast
            next
              case (Inr pd)
              have "needs_confirmation adapter (rq_arguments rq) ?c \<longrightarrow> token_accepted cfg s rq e"
                using past_gates_starts [OF p [unfolded Inr]] by auto
              then have "passes_gates cfg s rq e adapter ?c"
                using adapter auth Allowed target quota None by (simp add: passes_gates_def)
              with started Inr p show thesis by blast
            qed
          qed
        qed
      qed
    qed
  qed
qed
qed

lemma started_call:
  assumes "past_gates cfg s rq adapter c e = Some (s', Inr pd)"
  shows "(\<exists>ctx. ps_runs s' = ps_runs s @ [ctx] \<and> cx_tool ctx = rq_tool rq \<and>
            cx_persona ctx = rq_persona rq \<and> cx_tenant ctx = rq_tenant rq \<and>
            cx_arguments ctx = rq_arguments rq \<and> cx_token ctx = rq_token rq) \<and>
     ps_invocations s' = ps_invocations s \<and> ps_permissions s' = ps_permissions s \<and>
     ps_agency s' = ps_agency s \<and> pd_request pd = rq \<and> pd_breaker pd = ad_id adapter \<and>
     pd_started pd = ie_started e \<and> pd_hash pd = hash_args cfg (rq_arguments rq) \<and>
     snd (cb_admit pipeline_breaker_options (get_breaker s (ad_id adapter)) (ie_breaker_now e))"
proof -
  obtain t where "start_tool cfg (s\<lparr>ps_tokens := t\<rparr>) rq adapter e = (s', Inr pd)"
    using past_gates_starts [OF assms] by blast
  from start_tool_starts [OF this] show ?thesis by (simp add: get_breaker_def)
qed

lemma finish_ends:
  assumes "finish_invoke cfg s pd outcome e = (s', d)"
    and hash: "pd_hash pd = hash_args cfg (rq_arguments (pd_request pd))"
  shows "ended cfg s s' (pd_request pd) d \<and> fst (decision_row d) = ie_row_id e \<and>
     snd (decision_row d) = (case outcome of Op_Returns _ \<Rightarrow> Inv_Success | Op_Throws _ \<Rightarrow> Inv_Failed
                             | Op_Hangs \<Rightarrow> Inv_Timeout) \<and>
     ps_tokens s' = ps_tokens s"
proof (cases outcome)
  case (Op_Returns r)
  with assms(1) record_succeeded_effect [OF _ hash] show ?thesis
    unfolding finish_invoke_def Let_def by (fastforce simp: ended_def appended_def quiet_def)
next
  case (Op_Throws m)
  with assms(1) record_failed_effect [OF _ hash] show ?thesis
    unfolding finish_invoke_def Let_def by (fastforce simp: ended_def appended_def quiet_def)
next
  case Op_Hangs
  with assms(1) record_failed_effect [OF _ hash] show ?thesis
    unfolding finish_invoke_def Let_def by (fastforce simp: ended_def appended_def quiet_def)
qed

lemma invoke_cases:
  assumes "invoke cfg s rq outcome e e' = Some (s', d)"
  obtains (ended) "ended cfg s s' rq d" and "refused d"
  | (ran) s1 pd adapter c where "passes_gates cfg s rq e adapter c"
      and "past_gates cfg s rq adapter c e = Some (s1, Inr pd)"
      and "finish_invoke cfg s1 pd outcome e' = (s', d)"
proof -
  from assms obtain s1 r where b: "begin_invoke cfg s rq e = Some (s1, r)"
    by (auto simp: invoke_def split: option.splits)
  from b show thesis
  proof (cases rule: begin_invoke_cases)
    case (ended d1)
    with assms b that(1) show thesis by (simp add: invoke_def)
  next
    case (started pd adapter c)
    with assms b that(2) show thesis by (simp add: invoke_def)
  qed
qed

lemma quota_refusal_None:
  "quota_refusal s rq c adapter now = None \<longleftrightarrow>
     (let m = or_default (max_actions_per_day c) (tm_default_max_per_day (ad_metadata adapter)) in
      m \<le> 0 \<or> daily_usage_count (ps_invocations s) (rq_key rq) now < m)"
  by (auto simp: quota_refusal_def Let_def)

lemma budget_refusal_None:
  "budget_refusal s rq c now = None \<longleftrightarrow>
     (case budget_limit_cents c of None \<Rightarrow> True
      | Some m \<Rightarrow> m < 0 \<or> daily_cost_cents (ps_invocations s) (rq_key rq) now < m)"
  by (auto simp: budget_refusal_def Let_def split: option.splits)

lemma target_refusal_None:
  "target_refusal c args = None \<longleftrightarrow>
     (case extract_target args of None \<Rightarrow> True
      | Some target \<Rightarrow> (\<forall>ds. deny_list c = Some ds \<longrightarrow> target \<notin> set ds) \<and>
          (\<forall>as. allow_list c = Some as \<longrightarrow> as = [] \<or> target \<in> set as))"
  by (auto simp: target_refusal_def split: option.splits)

text \<open>Successes of a key in a window of one day.\<close>

definition successes_in :: "invocation_table \<Rightarrow> perm_key \<Rightarrow> millis \<Rightarrow> nat" where
  "successes_in l k w =
     count_where (\<lambda>r. ti_key r = k \<and> ti_status r = Inv_Success \<and> w \<le> ti_invoked_at r \<and>
        ti_invoked_at r < w + one_day_ms) l"

lemma count_where_mono:
  "(\<And>r. r \<in> set t \<Longrightarrow> p r \<Longrightarrow> q r) \<Longrightarrow> count_where p t \<le> count_where q t"
  by (induction t) auto

lemma successes_bound:
  assumes "now \<le> at_time" and "at_time < w + one_day_ms"
  shows "int (successes_in l k w) \<le> daily_usage_count l k now"
  using assms
  by (auto simp: successes_in_def daily_usage_count_def tperm_query_daily_usage_def ti_counts_def
      intro!: count_where_mono)

definition pipeline_step ::
  "pipeline_config \<Rightarrow> pipeline_state \<Rightarrow> invoke_request \<times> tool_result operation \<times> invoke_env \<times> invoke_env \<Rightarrow>
   pipeline_state" where
  "pipeline_step cfg s call =
     (case call of (rq, outcome, e, e') \<Rightarrow>
        (case invoke cfg s rq outcome e e' of None \<Rightarrow> s | Some (s', _) \<Rightarrow> s'))"

lemma invoke_frame:
  assumes "invoke cfg s rq outcome e e' = Some (s', d)"
  shows "ps_permissions s' = ps_permissions s \<and> ps_agency s' = ps_agency s \<and>
     (\<exists>row. ps_invocations s' = ps_invocations s @ [row] \<and> ti_key row = rq_key rq \<and>
        ti_id row = fst (decision_row d) \<and> ti_status row = snd (decision_row d) \<and>
        ti_input_hash row = hash_args cfg (rq_arguments rq))"
  using assms
proof (cases rule: invoke_cases)
  case ended
  then show ?thesis by (auto simp: ended_def appended_def quiet_def describes_def)
next
  case (ran s1 pd adapter c)
  have "pd_request pd = rq" "pd_hash pd = hash_args cfg (rq_arguments rq)"
    using started_call [OF ran(2)] by auto
  with finish_ends [OF ran(3)] started_call [OF ran(2)] show ?thesis
    by (auto simp: ended_def appended_def quiet_def describes_def)
qed

lemma pipeline_step_permissions [simp]: "ps_permissions (pipeline_step cfg s call) = ps_permissions s"
  by (auto simp: pipeline_step_def split: prod.splits option.splits dest: invoke_frame)

lemma invoke_success_row:
  assumes "invoke cfg s rq outcome e e' = Some (s', d)"
    and row: "ps_invocations s' = ps_invocations s @ [row]" "ti_status row = Inv_Success"
  shows "\<exists>adapter c. passes_gates cfg s rq e adapter c \<and> ti_invoked_at row = ie_started e"
  using assms(1)
proof (cases rule: invoke_cases)
  case ended
  then have "ti_status row = snd (decision_row d)"
    using row(1) by (auto simp: ended_def appended_def describes_def)
  with row(2) refused_status [OF ended(2)] show ?thesis by simp
next
  case (ran s1 pd adapter c)
  have pd: "pd_started pd = ie_started e" "ps_invocations s1 = ps_invocations s"
    using started_call [OF ran(2)] by auto
  have "ti_invoked_at row = pd_started pd"
    using ran(3) row pd(2)
    by (cases outcome)
       (auto simp: finish_invoke_def record_succeeded_def record_failed_def Let_def case_prod_beta)
  with ran(1) pd(1) show ?thesis by auto
qed

lemma gate_constraints:
  assumes "passes_gates cfg s rq e adapter c" and "tp_by_persona_tool (ps_permissions s) (rq_key rq) = Some r"
  shows "tp_revoked_at r = None \<and> c = or_default (tp_constraints r) no_constraints"
  using assms by (auto simp: passes_gates_def check_Allowed_iff row_to_permission_def)

lemma quota_step:
  assumes perm: "tp_by_persona_tool (ps_permissions s) k = Some r" "tp_constraints r = Some c"
      "max_actions_per_day c = Some m" "0 < m"
    and clock: "ie_now e \<le> ie_started e"
    and bound: "\<And>w. int (successes_in (ps_invocations s) k w) \<le> m"
  shows "int (successes_in (ps_invocations (pipeline_step cfg s (rq, outcome, e, e'))) k w) \<le> m"
proof (cases "invoke cfg s rq outcome e e'")
  case None
  with bound show ?thesis by (simp add: pipeline_step_def)
next
  case (Some p)
  then obtain s' d where inv: "invoke cfg s rq outcome e e' = Some (s', d)" by (cases p) auto
  then obtain row where row: "ps_invocations s' = ps_invocations s @ [row]" "ti_key row = rq_key rq"
    using invoke_frame by blast
  let ?in = "ti_key row = k \<and> ti_status row = Inv_Success \<and> w \<le> ti_invoked_at row \<and>
      ti_invoked_at row < w + one_day_ms"
  have step: "ps_invocations (pipeline_step cfg s (rq, outcome, e, e')) = ps_invocations s @ [row]"
    using inv row by (simp add: pipeline_step_def)
  show ?thesis
  proof (cases ?in)
    case False
    then have "successes_in (ps_invocations s @ [row]) k w = successes_in (ps_invocations s) k w"
      by (simp add: successes_in_def)
    with bound [of w] step show ?thesis by simp
  next
    case True
    then obtain adapter g where g: "passes_gates cfg s rq e adapter g" "ti_invoked_at row = ie_started e"
      using invoke_success_row [OF inv row(1)] by blast
    have k: "rq_key rq = k" using True row(2) by simp
    then have "g = c" using gate_constraints [OF g(1)] perm by simp
    then have "daily_usage_count (ps_invocations s) k (ie_now e) < m"
      using g(1) perm(3,4) k by (simp add: passes_gates_def quota_refusal_None Let_def)
    moreover have "int (successes_in (ps_invocations s) k w) \<le> daily_usage_count (ps_invocations s) k (ie_now e)"
      using True g(2) clock by (intro successes_bound [of _ "ie_started e"]) auto
    moreover have "successes_in (ps_invocations s @ [row]) k w = Suc (successes_in (ps_invocations s) k w)"
      using True by (simp add: successes_in_def)
    ultimately show ?thesis using step by simp
  qed
qed

lemma quota_run:
  assumes "tp_by_persona_tool (ps_permissions s) k = Some r" "tp_constraints r = Some c"
      "max_actions_per_day c = Some m" "0 < m"
    and "\<forall>(rq, outcome, e, e') \<in> set calls. ie_now e \<le> ie_started e"
    and "\<And>w. int (successes_in (ps_invocations s) k w) \<le> m"
  shows "int (successes_in (ps_invocations (foldl (pipeline_step cfg) s calls)) k w) \<le> m"
  using assms
proof (induction calls arbitrary: s)
  case (Cons call calls)
  obtain rq outcome e e' where call: "call = (rq, outcome, e, e')" by (cases call) auto
  have "ie_now e \<le> ie_started e" using Cons.prems(5) call by simp
  then have "int (successes_in (ps_invocations (pipeline_step cfg s call)) k w) \<le> m" for w
    unfolding call using quota_step [OF Cons.prems(1-4) _ Cons.prems(6)] by blast
  with Cons.IH [of "pipeline_step cfg s call"] Cons.prems show ?case by simp
qed simp

text \<open>A key that no check allows: no call of it starts the tool.\<close>

definition runs_of :: "pipeline_state \<Rightarrow> perm_key \<Rightarrow> invocation_context list" where
  "runs_of s k = filter (\<lambda>x. (cx_tenant x, cx_persona x, cx_tool x) = k) (ps_runs s)"

lemma invoke_runs:
  assumes "invoke cfg s rq outcome e e' = Some (s', d)"
  shows "ps_runs s' = ps_runs s \<or>
     (\<exists>ctx adapter c. ps_runs s' = ps_runs s @ [ctx] \<and> (cx_tenant ctx, cx_persona ctx, cx_tool ctx) = rq_key rq \<and>
        cx_arguments ctx = rq_arguments rq \<and> passes_gates cfg s rq e adapter c \<and>
        snd (cb_admit pipeline_breaker_options (get_breaker s (ad_id adapter)) (ie_breaker_now e)))"
  using assms
proof (cases rule: invoke_cases)
  case ended
  then show ?thesis by (simp add: ended_def quiet_def)
next
  case (ran s1 pd adapter c)
  note st = started_call [OF ran(2)]
  have "quiet s1 s'" using finish_ends [OF ran(3)] st by (simp add: ended_def)
  with st ran(1) show ?thesis by (auto simp: quiet_def rq_key_def)
qed

text \<open>Two overlapping calls.\<close>

lemma begin_passes:
  assumes "passes_gates cfg s rq e adapter c" and "\<not> needs_confirmation adapter (rq_arguments rq) c"
  shows "begin_invoke cfg s rq e = Some (start_tool cfg s rq adapter e)"
proof -
  from assms(1) obtain p where "tp_check (ps_permissions s) (rq_key rq) (ie_now e) = Allowed p"
    "c = perm_constraints p" by (auto simp: passes_gates_def)
  with assms show ?thesis by (simp add: passes_gates_def begin_invoke_def Let_def)
qed

lemma start_closed:
  assumes "circuit (get_breaker s (ad_id adapter)) = Closed"
  shows "\<exists>s' pd. start_tool cfg s rq adapter e = (s', Inr pd) \<and>
     get_breaker s' (ad_id adapter) = get_breaker s (ad_id adapter)"
  using assms
  by (simp add: start_tool_def Let_def circuit_defs get_breaker_def set_breaker_def)

lemma passes_gates_frame:
  assumes "\<not> needs_confirmation adapter (rq_arguments rq) c"
    and "ps_permissions s' = ps_permissions s" and "ps_agency s' = ps_agency s"
    and "ps_invocations s' = ps_invocations s"
  shows "passes_gates cfg s' rq e adapter c = passes_gates cfg s rq e adapter c"
proof -
  have "quota_refusal s' rq c adapter now = quota_refusal s rq c adapter now"
    "budget_refusal s' rq c now = budget_refusal s rq c now" for now
    by (simp_all only: quota_refusal_def budget_refusal_def assms(4))
  with assms(1-3) show ?thesis by (simp add: passes_gates_def)
qed

lemma finish_success_row:
  "\<exists>row. ps_invocations (fst (finish_invoke cfg s pd (Op_Returns res) e)) = ps_invocations s @ [row] \<and>
     ti_key row = rq_key (pd_request pd) \<and> ti_status row = Inv_Success \<and>
     ti_invoked_at row = pd_started pd"
  by (simp add: finish_invoke_def record_succeeded_def Let_def case_prod_beta rq_key_def)

text \<open>Confirmation tokens across calls.\<close>

lemma consume_tokens:
  assumes "snd (token_consume sha t tok c ck mk) = None"
  shows "token_vacant t (Some tok) \<and> \<not> token_vacant (fst (token_consume sha t tok c ck mk)) (Some tok)"
proof -
  obtain r where "ctoken_query_by_id t tok = Some r" "ct_consumed_at r = None"
    using assms unfolding token_consume_ok_iff by blast
  then have "token_vacant t (Some tok)"
    by (auto simp: token_vacant_def ctoken_query_by_id_def dest!: select_one_SomeD)
  moreover have "fst (token_consume sha t tok c ck mk) = fst (token_exec (St_Consume tok mk) t)"
    using assms by (simp add: token_consume_table case_prod_beta)
  ultimately show ?thesis using consume_takes by simp
qed

lemma consume_keeps_taken:
  "\<not> token_vacant t k \<Longrightarrow> \<not> token_vacant (fst (token_consume sha t tok c ck mk)) k"
  using token_taken_stays [of t k "St_Consume tok mk"]
  by (simp add: token_consume_table case_prod_beta)

lemma issue_keeps_taken:
  assumes "token_issue sha ttl t c topic rule i now = Inr (t', j, x)" and "\<not> token_vacant t k"
    and "k \<noteq> Some i"
  shows "\<not> token_vacant t' k"
  using assms by (auto simp: token_issue_def ctoken_cmd_insert_def token_vacant_def split: if_splits)

lemma confirmation_keeps_taken:
  assumes "handle_confirmation cfg s rq adapter e = Some (s', r)" and "\<not> token_vacant (ps_tokens s) k"
    and "k \<noteq> Some (ie_token_id e)"
  shows "\<not> token_vacant (ps_tokens s') k"
proof (cases "truthy (rq_token rq)")
  case True
  obtain t why where c: "token_consume (pc_sha cfg) (ps_tokens s) (the (rq_token rq))
      (token_context_of cfg rq) (ie_token_checked e) (ie_token_marked e) = (t, why)" by fastforce
  have t: "\<not> token_vacant t k" using consume_keeps_taken [OF assms(2)] c by (metis fst_conv)
  show ?thesis
  proof (cases why)
    case None
    with assms True c t show ?thesis by (auto simp: handle_confirmation_def)
  next
    case (Some w)
    obtain s1 r1 where r1: "refuse cfg (s\<lparr>ps_tokens := t\<rparr>) rq Inv_Denied_Permission Ds_Denied_Permission
        (''confirmation invalid: '' @ token_refusal_text w) e = (s1, r1)" by fastforce
    with assms True c Some have "s1 = s'" by (simp add: handle_confirmation_def)
    with refuse_effect [OF r1] t show ?thesis by simp
  qed
next
  case False
  then show ?thesis
    using assms issue_keeps_taken
    by (auto simp: handle_confirmation_def Let_def case_prod_beta split: sum.splits)
qed

lemma past_gates_keeps_taken:
  assumes "past_gates cfg s rq adapter c e = Some (s', r)" and "\<not> token_vacant (ps_tokens s) k"
    and "k \<noteq> Some (ie_token_id e)"
  shows "\<not> token_vacant (ps_tokens s') k"
proof -
  have st: "ps_tokens s2 = ps_tokens s1" if "start_tool cfg s1 rq adapter e = (s2, q)" for s1 s2 q
  proof (cases q)
    case (Inl d)
    obtain b adm where b: "cb_admit pipeline_breaker_options (get_breaker s1 (ad_id adapter))
        (ie_breaker_now e) = (b, adm)" by fastforce
    then show ?thesis
      using that Inl by (auto simp: start_tool_def Let_def record_failed_def case_prod_beta split: if_splits)
  next
    case (Inr pd)
    with start_tool_starts that show ?thesis by blast
  qed
  show ?thesis
  proof (cases "needs_confirmation adapter (rq_arguments rq) c")
    case False
    with assms have "start_tool cfg s rq adapter e = (s', r)" by (simp add: past_gates_def)
    from st [OF this] assms(2) show ?thesis by simp
  next
    case True
    with assms(1) obtain s1 q where h: "handle_confirmation cfg s rq adapter e = Some (s1, q)"
      by (auto simp: past_gates_def split: option.splits)
    have taken: "\<not> token_vacant (ps_tokens s1) k" using confirmation_keeps_taken [OF h assms(2,3)] .
    show ?thesis
    proof (cases q)
      case (Some d)
      with True assms(1) h taken show ?thesis by (simp add: past_gates_def)
    next
      case None
      with True assms(1) h have "start_tool cfg s1 rq adapter e = (s', r)" by (simp add: past_gates_def)
      from st [OF this] taken show ?thesis by simp
    qed
  qed
qed

lemma begin_invoke_past:
  assumes "begin_invoke cfg s rq e = Some (s', r)"
  shows "(\<exists>st ds m. refuse cfg s rq st ds m e = (s', r)) \<or>
     (\<exists>adapter c. registry_get (pc_registry cfg) (rq_tool rq) = Some adapter \<and>
        past_gates cfg s rq adapter c e = Some (s', r))"
  using assms unfolding begin_invoke_def past_gates_def [symmetric] Let_def
  by (simp split: option.splits if_splits permission_check.splits) blast+

lemma begin_keeps_taken:
  assumes "begin_invoke cfg s rq e = Some (s', r)" and "\<not> token_vacant (ps_tokens s) k"
    and "k \<noteq> Some (ie_token_id e)"
  shows "\<not> token_vacant (ps_tokens s') k"
  using begin_invoke_past [OF assms(1)] past_gates_keeps_taken [OF _ assms(2,3)] assms(2) refuse_effect
  by metis

text \<open>
  A call of a high-risk tool as an attempt to use its token: it wins when the tool runs.
\<close>

type_synonym pipeline_call = "invoke_request \<times> tool_result operation \<times> invoke_env \<times> invoke_env"

definition risky_attempt :: "pipeline_config \<Rightarrow> pipeline_call \<Rightarrow> pipeline_state \<Rightarrow> pipeline_state \<times> bool" where
  "risky_attempt cfg call s =
     (let s' = pipeline_step cfg s call in
      (s', ps_runs s' \<noteq> ps_runs s \<and>
           (case registry_get (pc_registry cfg) (rq_tool (fst call)) of
              None \<Rightarrow> False | Some adapter \<Rightarrow> tm_high_risk (ad_metadata adapter))))"

definition call_token :: "pipeline_call \<Rightarrow> ident option" where
  "call_token call = rq_token (fst call)"

definition tokens_vacant :: "pipeline_state \<Rightarrow> ident option \<Rightarrow> bool" where
  "tokens_vacant s k = token_vacant (ps_tokens s) k"

definition call_issues :: "pipeline_call \<Rightarrow> ident option \<Rightarrow> bool" where
  "call_issues call k \<longleftrightarrow> k = Some (ie_token_id (fst (snd (snd call))))"

lemma invoke_tokens:
  assumes "invoke cfg s rq outcome e e' = Some (s', d)"
  shows "\<exists>s1 r. begin_invoke cfg s rq e = Some (s1, r) \<and> ps_tokens s' = ps_tokens s1"
proof -
  obtain s1 r where b: "begin_invoke cfg s rq e = Some (s1, r)"
    using assms by (auto simp: invoke_def split: option.splits)
  show ?thesis
  proof (cases r)
    case (Inl d1)
    with assms b show ?thesis by (simp add: invoke_def)
  next
    case (Inr pd)
    with assms b have f: "finish_invoke cfg s1 pd outcome e' = (s', d)" by (simp add: invoke_def)
    from b [unfolded Inr] have "pd_hash pd = hash_args cfg (rq_arguments (pd_request pd))"
      by (cases rule: begin_invoke_cases) (auto dest: started_call)
    from finish_ends [OF f this] b show ?thesis by auto
  qed
qed

lemma risky_run_uses_token:
  assumes "snd (risky_attempt cfg call s)"
  shows "tokens_vacant s (call_token call) \<and> \<not> tokens_vacant (fst (risky_attempt cfg call s)) (call_token call)"
proof -
  obtain rq outcome e e' where call: "call = (rq, outcome, e, e')" by (cases call) auto
  from assms obtain s' d where inv: "invoke cfg s rq outcome e e' = Some (s', d)"
    by (auto simp: risky_attempt_def pipeline_step_def call Let_def split: option.splits)
  have ran: "ps_runs s' \<noteq> ps_runs s" and step: "fst (risky_attempt cfg call s) = s'"
    using assms inv by (simp_all add: risky_attempt_def pipeline_step_def call Let_def)
  obtain ad where ad: "registry_get (pc_registry cfg) (rq_tool rq) = Some ad" "tm_high_risk (ad_metadata ad)"
    using assms by (auto simp: risky_attempt_def call Let_def split: option.splits)
  from inv show ?thesis
  proof (cases rule: invoke_cases)
    case ended
    with ran show ?thesis by (simp add: ended_def quiet_def)
  next
    case (ran s1 pd adapter c)
    have "adapter = ad" using ran(1) ad(1) by (simp add: passes_gates_def)
    then have need: "needs_confirmation adapter (rq_arguments rq) c" using ad(2) by (simp add: needs_confirmation_def)
    then obtain t where t: "start_tool cfg (s\<lparr>ps_tokens := t\<rparr>) rq adapter e = (s1, Inr pd)"
      "token_accepted cfg s rq e"
      "t = fst (token_consume (pc_sha cfg) (ps_tokens s) (the (rq_token rq)) (token_context_of cfg rq)
            (ie_token_checked e) (ie_token_marked e))"
      using past_gates_starts [OF ran(2)] by auto
    then obtain tok where tok: "rq_token rq = Some tok"
      "snd (token_consume (pc_sha cfg) (ps_tokens s) tok (token_context_of cfg rq)
            (ie_token_checked e) (ie_token_marked e)) = None"
      by (auto simp: token_accepted_def)
    have "ps_tokens s1 = t" using start_tool_starts [OF t(1)] by simp
    moreover have "ps_tokens s' = ps_tokens s1"
      using finish_ends [OF ran(3)] started_call [OF ran(2)] by auto
    ultimately show ?thesis
      using consume_tokens [OF tok(2)] tok(1) t(3) step by (simp add: tokens_vacant_def call_token_def call)
  qed
qed

lemma risky_keeps_taken:
  assumes "\<not> tokens_vacant s k" and "\<not> call_issues call k"
  shows "\<not> tokens_vacant (fst (risky_attempt cfg call s)) k"
proof -
  obtain rq outcome e e' where call: "call = (rq, outcome, e, e')" by (cases call) auto
  show ?thesis
  proof (cases "invoke cfg s rq outcome e e'")
    case None
    with assms(1) show ?thesis by (simp add: risky_attempt_def pipeline_step_def call Let_def)
  next
    case (Some p)
    then obtain s' d where inv: "invoke cfg s rq outcome e e' = Some (s', d)" by (cases p) auto
    obtain s1 r where b: "begin_invoke cfg s rq e = Some (s1, r)" "ps_tokens s' = ps_tokens s1"
      using invoke_tokens [OF inv] by blast
    have "\<not> token_vacant (ps_tokens s1) k"
      using begin_keeps_taken [OF b(1)] assms by (simp add: tokens_vacant_def call_issues_def call)
    with b(2) inv show ?thesis
      by (simp add: risky_attempt_def pipeline_step_def call Let_def tokens_vacant_def)
  qed
qed

interpretation risky_calls: one_shot "risky_attempt cfg" call_token tokens_vacant call_issues for cfg
  by unfold_locales (simp_all add: risky_run_uses_token risky_keeps_taken)

subsection \<open>Properties\<close>

text \<open>
  C1: complete mediation. Whenever a call makes the tool run, it runs once, with the arguments of
  the request, and every gate was passed in that very call: the tool is registered, an active
  authorization of the executing principal covers it, an unrevoked and unexpired permission exists,
  the target is neither denied nor missing from a non-empty allow list, the daily quota and budget
  are not used up, a needed confirmation token was consumed, and the breaker admitted the call.
\<close>

theorem tool_runs_only_through_all_gates:
  assumes "invoke cfg s rq outcome e e' = Some (s', d)" and "ps_runs s' \<noteq> ps_runs s"
  shows "\<exists>ctx adapter p.
     ps_runs s' = ps_runs s @ [ctx] \<and> cx_arguments ctx = rq_arguments rq \<and>
     registry_get (pc_registry cfg) (rq_tool rq) = Some adapter \<and>
     is_tool_allowed_for_principal (ps_agency s) (rq_tenant rq) (rq_persona rq) (rq_tool rq)
       (rq_user rq) (ie_now e) \<and>
     tp_check (ps_permissions s) (rq_key rq) (ie_now e) = Allowed p \<and>
     (case extract_target (rq_arguments rq) of None \<Rightarrow> True
      | Some target \<Rightarrow> (\<forall>ds. deny_list (perm_constraints p) = Some ds \<longrightarrow> target \<notin> set ds) \<and>
          (\<forall>as. allow_list (perm_constraints p) = Some as \<longrightarrow> as = [] \<or> target \<in> set as)) \<and>
     (let m = or_default (max_actions_per_day (perm_constraints p))
                (tm_default_max_per_day (ad_metadata adapter)) in
      m \<le> 0 \<or> daily_usage_count (ps_invocations s) (rq_key rq) (ie_now e) < m) \<and>
     (case budget_limit_cents (perm_constraints p) of None \<Rightarrow> True
      | Some m \<Rightarrow> m < 0 \<or> daily_cost_cents (ps_invocations s) (rq_key rq) (ie_now e) < m) \<and>
     (needs_confirmation adapter (rq_arguments rq) (perm_constraints p) \<longrightarrow> token_accepted cfg s rq e) \<and>
     snd (cb_admit pipeline_breaker_options (get_breaker s (ad_id adapter)) (ie_breaker_now e))"
proof -
  obtain ctx adapter c where r: "ps_runs s' = ps_runs s @ [ctx]" "cx_arguments ctx = rq_arguments rq"
    "passes_gates cfg s rq e adapter c"
    "snd (cb_admit pipeline_breaker_options (get_breaker s (ad_id adapter)) (ie_breaker_now e))"
    using invoke_runs [OF assms(1)] assms(2) by auto
  then obtain p where p: "c = perm_constraints p"
    "tp_check (ps_permissions s) (rq_key rq) (ie_now e) = Allowed p"
    by (auto simp: passes_gates_def)
  note g = r(3) [unfolded passes_gates_def target_refusal_None quota_refusal_None budget_refusal_None p(1)]
  show ?thesis
    by (rule exI [of _ ctx], rule exI [of _ adapter], rule exI [of _ p]) (use r(1,2,4) g p(2) in blast)
qed

text \<open>
  C4: every call that returns leaves exactly one new row in the invocation log, which carries the
  tenant, persona and tool of the request, the digest of its arguments, the returned invocation id
  and the status of the returned decision (a missing authorization is recorded as a denied
  permission).
\<close>

theorem every_call_recorded_once:
  assumes "invoke cfg s rq outcome e e' = Some (s', d)"
  shows "\<exists>row. ps_invocations s' = ps_invocations s @ [row] \<and> ti_key row = rq_key rq \<and>
     ti_id row = fst (decision_row d) \<and> ti_status row = snd (decision_row d) \<and>
     ti_input_hash row = hash_args cfg (rq_arguments rq)"
  using invoke_frame [OF assms] by blast

text \<open>
  C5: the daily quota. From an empty log, with a permission of at most \<open>m\<close> actions a day, any
  sequence of calls that do not overlap in time, for any tools and with any outcomes, leaves at
  most \<open>m\<close> successful invocations of that tenant, persona and tool in every window of 24 hours.
\<close>

theorem daily_quota_never_exceeded:
  assumes "tp_by_persona_tool (ps_permissions s) k = Some r" and "tp_constraints r = Some c"
    and "max_actions_per_day c = Some m" and "0 < m" and "ps_invocations s = []"
    and "\<forall>(rq, outcome, e, e') \<in> set calls. ie_now e \<le> ie_started e"
  shows "int (successes_in (ps_invocations (foldl (pipeline_step cfg) s calls)) k w) \<le> m"
  using assms by (intro quota_run [where r = r and c = c]) (simp_all add: successes_in_def)

text \<open>
  C28: the quota is checked before the tool is awaited and the success is recorded after it, so
  calls that overlap are not counted against each other. Whenever a request passes its gates with
  no confirmation needed and a closed breaker, two copies of it can both begin before either
  finishes, and both succeed: a use of \<open>m - 1\<close> ends at \<open>m + 1\<close>.
\<close>

theorem overlapping_calls_exceed_quota:
  assumes "passes_gates cfg s rq e adapter c" and "\<not> needs_confirmation adapter (rq_arguments rq) c"
    and "circuit (get_breaker s (ad_id adapter)) = Closed"
    and "w \<le> ie_started e" and "ie_started e < w + one_day_ms"
  shows "\<exists>s1 s2 pd1 pd2.
     begin_invoke cfg s rq e = Some (s1, Inr pd1) \<and> begin_invoke cfg s1 rq e = Some (s2, Inr pd2) \<and>
     successes_in (ps_invocations (fst (finish_invoke cfg (fst (finish_invoke cfg s2 pd1 (Op_Returns res) e1))
         pd2 (Op_Returns res) e2))) (rq_key rq) w = successes_in (ps_invocations s) (rq_key rq) w + 2"
proof -
  obtain s1 pd1 where st1: "start_tool cfg s rq adapter e = (s1, Inr pd1)"
    "get_breaker s1 (ad_id adapter) = get_breaker s (ad_id adapter)"
    using start_closed [OF assms(3)] by blast
  have f1: "ps_invocations s1 = ps_invocations s" "ps_permissions s1 = ps_permissions s"
    "ps_agency s1 = ps_agency s" "pd_request pd1 = rq" "pd_started pd1 = ie_started e"
    using start_tool_starts [OF st1(1)] by blast+
  have g1: "passes_gates cfg s1 rq e adapter c"
    using passes_gates_frame [OF assms(2) f1(2,3,1)] assms(1) by simp
  obtain s2 pd2 where st2: "start_tool cfg s1 rq adapter e = (s2, Inr pd2)"
    using start_closed [of s1 adapter cfg rq e] st1(2) assms(3) by auto
  have f2: "ps_invocations s2 = ps_invocations s1" "pd_request pd2 = rq" "pd_started pd2 = ie_started e"
    using start_tool_starts [OF st2] by blast+
  have b: "begin_invoke cfg s rq e = Some (s1, Inr pd1)" "begin_invoke cfg s1 rq e = Some (s2, Inr pd2)"
    using begin_passes [OF assms(1,2)] begin_passes [OF g1 assms(2)] st1 st2 by simp_all
  let ?f1 = "fst (finish_invoke cfg s2 pd1 (Op_Returns res) e1)"
  obtain r1 where r1: "ps_invocations ?f1 = ps_invocations s @ [r1]" "ti_key r1 = rq_key rq"
    "ti_status r1 = Inv_Success" "ti_invoked_at r1 = ie_started e"
    using finish_success_row [of cfg s2 pd1 res e1] unfolding f2(1) f1(1) f1(4,5) by blast
  obtain r2 where r2: "ps_invocations (fst (finish_invoke cfg ?f1 pd2 (Op_Returns res) e2)) =
      ps_invocations s @ [r1, r2]" "ti_key r2 = rq_key rq"
    "ti_status r2 = Inv_Success" "ti_invoked_at r2 = ie_started e"
    using finish_success_row [of cfg ?f1 pd2 res e2] unfolding r1(1) f2(2,3) by auto
  have "successes_in (ps_invocations s @ [r1, r2]) (rq_key rq) w = successes_in (ps_invocations s) (rq_key rq) w + 2"
    using r1(2-4) r2(2-4) assms(4,5) by (simp add: successes_in_def)
  with b r2(1) show ?thesis by auto
qed

text \<open>
  a revocation stops the tool. From any state whose permission row of a key is revoked, no
  sequence of calls, with whatever tokens and authorizations, makes that tool run for that key.
\<close>

theorem revoked_tool_never_runs:
  assumes "tp_by_persona_tool (ps_permissions s) k = Some r" and "tp_revoked_at r \<noteq> None"
  shows "runs_of (foldl (pipeline_step cfg) s calls) k = runs_of s k"
  using assms
proof (induction calls arbitrary: s)
  case (Cons call calls)
  obtain rq outcome e e' where call: "call = (rq, outcome, e, e')" by (cases call) auto
  have "runs_of (pipeline_step cfg s call) k = runs_of s k"
  proof (cases "invoke cfg s rq outcome e e'")
    case None
    then show ?thesis by (simp add: pipeline_step_def call)
  next
    case (Some p)
    then obtain s' d where inv: "invoke cfg s rq outcome e e' = Some (s', d)" by (cases p) auto
    have "rq_key rq \<noteq> k" if "passes_gates cfg s rq e adapter c" for adapter c
      using gate_constraints [OF that] Cons.prems by auto
    with invoke_runs [OF inv] have "runs_of s' k = runs_of s k" by (auto simp: runs_of_def)
    with inv show ?thesis by (simp add: pipeline_step_def call)
  qed
  with Cons show ?case by simp
qed simp


text \<open>
  C6: a confirmation token starts a high-risk tool at most once. Over any sequence of calls, with
  any requests, the runs of high-risk tools that carry a given token are bounded by the number of
  times the token was issued, counting one that is open at the start.
\<close>

theorem token_starts_one_risky_run:
  "wins call_token (Some tok) calls (snd (run_attempts (risky_attempt cfg) calls s)) \<le>
     (if tokens_vacant s (Some tok) then 1 else 0) + count_where (\<lambda>call. call_issues call (Some tok)) calls"
  by (rule risky_calls.wins_bound)

text \<open>
  C31: the recorded digest of the arguments does not depend on the order of their keys: two argument
  objects with the same entries under distinct keys have the same \<^verbatim>\<open>input_hash\<close>.
\<close>

theorem hash_args_order_independent:
  assumes "mset ps = mset qs" and "distinct (map fst ps)"
  shows "hash_args cfg (JObj ps) = hash_args cfg (JObj qs)"
proof -
  let ?f = "\<lambda>(k, v). (k, stable_sort v)"
  have m: "mset (map ?f ps) = mset (map ?f qs)" using assms(1) by simp
  have "map fst (map ?f ps) = map fst ps" by (induction ps) auto
  then have "distinct (map fst (map ?f ps))" using assms(2) by (simp only:)
  then have inj: "inj_on fst (set (map ?f ps))" by (simp only: distinct_map)
  have "sort_key fst (map ?f ps) = sort_key fst (map ?f qs)"
    by (rule sort_key_inj_key_eq) (use m inj in simp_all)
  then show ?thesis by (simp add: hash_args_def)
qed

subsection \<open>Witnesses\<close>

definition sample_adapter :: tool_adapter where
  "sample_adapter =
     \<lparr> ad_metadata = \<lparr> tm_id = ''mail'', tm_high_risk = False, tm_default_timeout = 30000,
                       tm_default_max_per_day = 50 \<rparr>, ad_is_high_risk = None \<rparr>"

definition sample_config :: pipeline_config where
  "sample_config =
     \<lparr> pc_registry = \<lparr> rg_adapters = [sample_adapter], rg_frozen = True \<rparr>, pc_sha = id,
       pc_str = (\<lambda>_. ''j''), pc_open_text = (\<lambda>_. ''open''), pc_timeout_text = ''timeout'' \<rparr>"

definition sample_limits :: tool_constraints where
  "sample_limits = no_constraints\<lparr>max_actions_per_day := Some 1\<rparr>"

definition sample_state :: "millis option \<Rightarrow> pipeline_state" where
  "sample_state revoked =
     \<lparr> ps_permissions = [(sample_permission (Some sample_limits))\<lparr>tp_revoked_at := revoked\<rparr>],
       ps_agency =
         [\<lparr> ag_id = ''g1'', ag_tenant = ''a'', ag_persona = ''p'', ag_principal = ''u'',
            ag_scope = All_Scopes, ag_scope_description = ''d'', ag_allowed_json = Some (JArr []),
            ag_denied_json = Some (JArr []), ag_status = Agency_Active, ag_granted_at = 1,
            ag_expires_at = None, ag_revoked_at = None, ag_revocation_reason = None,
            ag_revocation_key = ''k'' \<rparr>],
       ps_tokens = [], ps_invocations = [], ps_audit = [], ps_breakers = (\<lambda>_. None), ps_runs = [] \<rparr>"

definition sample_request :: invoke_request where
  "sample_request =
     \<lparr> rq_tenant = ''a'', rq_persona = ''p'', rq_tool = ''mail'', rq_invoker_type = Internal,
       rq_invoker = ''svc'', rq_user = Some ''u'', rq_arguments = JObj [(''to'', JStr ''x'')],
       rq_token = None, rq_external_user = None, rq_session = None \<rparr>"

definition sample_env :: "millis \<Rightarrow> ident \<Rightarrow> invoke_env" where
  "sample_env now i =
     \<lparr> ie_now = now, ie_token_checked = now, ie_token_marked = now, ie_token_issued = now,
       ie_token_id = ''t1'', ie_started = now, ie_breaker_now = now, ie_finished = now,
       ie_row_id = i, ie_row_now = now, ie_audit_id = i, ie_audit_now = now, ie_audit_works = True \<rparr>"

definition sample_outcome :: "tool_result operation" where
  "sample_outcome = Op_Returns \<lparr> tr_content = [], tr_cost_cents = 0, tr_output_size = 0 \<rparr>"

definition sample_result :: "pipeline_state \<times> decision" where
  "sample_result = the (invoke sample_config (sample_state None) sample_request sample_outcome
     (sample_env 5 ''r1'') (sample_env 6 ''r1''))"

lemma sample_invoke:
  "invoke sample_config (sample_state None) sample_request sample_outcome
     (sample_env 5 ''r1'') (sample_env 6 ''r1'') = Some sample_result"
  "length (ps_runs (fst sample_result)) = 1"
  "map ti_status (ps_invocations (fst sample_result)) = [Inv_Success]"
proof -
  have "\<not> Option.is_none (invoke sample_config (sample_state None) sample_request sample_outcome
     (sample_env 5 ''r1'') (sample_env 6 ''r1''))" by code_simp
  then show "invoke sample_config (sample_state None) sample_request sample_outcome
     (sample_env 5 ''r1'') (sample_env 6 ''r1'') = Some sample_result"
    by (auto simp: sample_result_def Option.is_none_def)
  show "length (ps_runs (fst sample_result)) = 1" by code_simp
  show "map ti_status (ps_invocations (fst sample_result)) = [Inv_Success]" by code_simp
qed

lemma tool_runs_only_through_all_gates_witness:
  "is_tool_allowed_for_principal (ps_agency (sample_state None)) ''a'' ''p'' ''mail'' (Some ''u'') 5 \<and>
   (\<exists>p. tp_check (ps_permissions (sample_state None)) (''a'', ''p'', ''mail'') 5 = Allowed p)"
proof -
  have "invoke sample_config (sample_state None) sample_request sample_outcome (sample_env 5 ''r1'')
      (sample_env 6 ''r1'') = Some (fst sample_result, snd sample_result)"
    using sample_invoke(1) by simp
  moreover have "ps_runs (fst sample_result) \<noteq> ps_runs (sample_state None)"
    using sample_invoke(2) by (auto simp: sample_state_def)
  ultimately show ?thesis
    using tool_runs_only_through_all_gates [of sample_config "sample_state None" sample_request
        sample_outcome "sample_env 5 ''r1''" "sample_env 6 ''r1''" "fst sample_result" "snd sample_result"]
    by (auto simp: sample_request_def sample_env_def rq_key_def)
qed

lemma every_call_recorded_once_witness:
  "\<exists>row. ps_invocations (fst sample_result) = ps_invocations (sample_state None) @ [row] \<and>
     ti_key row = rq_key sample_request"
  using every_call_recorded_once [of sample_config "sample_state None" sample_request
      sample_outcome "sample_env 5 ''r1''" "sample_env 6 ''r1''" "fst sample_result" "snd sample_result"]
    sample_invoke(1) by auto

definition sample_key :: perm_key where
  "sample_key = (''a'', ''p'', ''mail'')"

lemma sample_row:
  "tp_by_persona_tool (ps_permissions (sample_state w)) sample_key =
     Some ((sample_permission (Some sample_limits))\<lparr>tp_revoked_at := w\<rparr>)"
  by (simp add: sample_state_def tp_by_persona_tool_def tp_key_def sample_permission_def sample_key_def)

lemma daily_quota_never_exceeded_witness:
  "int (successes_in (ps_invocations (foldl (pipeline_step sample_config) (sample_state None)
      [(sample_request, sample_outcome, sample_env 5 ''r1'', sample_env 6 ''r1''),
       (sample_request, sample_outcome, sample_env 7 ''r2'', sample_env 8 ''r2'')])) sample_key 0) \<le> 1"
  by (rule daily_quota_never_exceeded [OF sample_row [of None], of sample_limits])
     (simp_all add: sample_permission_def sample_limits_def sample_env_def sample_state_def)

lemma sample_passes:
  "passes_gates sample_config (sample_state None) sample_request (sample_env 5 ''r1'') sample_adapter
     sample_limits"
proof -
  have "tp_check (ps_permissions (sample_state None)) (rq_key sample_request) 5 =
    Allowed (row_to_permission (sample_permission (Some sample_limits)))"
    by (simp add: tp_check_def tp_by_persona_tool_def rq_key_def sample_request_def sample_state_def
        sample_permission_def tp_key_def row_to_permission_def)
  then show ?thesis
    by (simp add: passes_gates_def sample_config_def sample_request_def sample_env_def registry_get_def
        ad_id_def sample_adapter_def is_tool_allowed_iff sample_state_def row_to_auth_def Let_def
        parse_tool_list_def auth_admits_def covers_principal_def row_to_permission_def
        sample_permission_def target_refusal_def sample_limits_def no_constraints_def
        quota_refusal_None daily_usage_count_def tperm_query_daily_usage_def budget_refusal_def
        needs_confirmation_def split: option.splits)
qed

lemma overlapping_calls_exceed_quota_witness:
  "\<exists>s1 s2 pd1 pd2.
     begin_invoke sample_config (sample_state None) sample_request (sample_env 5 ''r1'') = Some (s1, Inr pd1) \<and>
     begin_invoke sample_config s1 sample_request (sample_env 5 ''r1'') = Some (s2, Inr pd2) \<and>
     successes_in (ps_invocations (fst (finish_invoke sample_config
        (fst (finish_invoke sample_config s2 pd1 (Op_Returns \<lparr> tr_content = [], tr_cost_cents = 0, tr_output_size = 0 \<rparr>)
          (sample_env 6 ''r1'')))
        pd2 (Op_Returns \<lparr> tr_content = [], tr_cost_cents = 0, tr_output_size = 0 \<rparr>)
          (sample_env 7 ''r2'')))) (rq_key sample_request) 0 =
     successes_in (ps_invocations (sample_state None)) (rq_key sample_request) 0 + 2"
  by (rule overlapping_calls_exceed_quota [OF sample_passes])
     (simp_all add: needs_confirmation_def sample_adapter_def sample_limits_def no_constraints_def
        get_breaker_def sample_state_def initial_circuit_def sample_env_def one_day_ms_def)

lemma revoked_tool_never_runs_witness:
  "runs_of (foldl (pipeline_step sample_config) (sample_state (Some 3))
      [(sample_request, sample_outcome, sample_env 5 ''r1'', sample_env 6 ''r1'')]) sample_key =
   runs_of (sample_state (Some 3)) sample_key"
  by (rule revoked_tool_never_runs [OF sample_row]) simp

lemma hash_args_order_independent_witness:
  "hash_args sample_config (JObj [(''a'', JNull), (''b'', JBool True)]) =
   hash_args sample_config (JObj [(''b'', JBool True), (''a'', JNull)])"
  by (rule hash_args_order_independent) simp_all

end
