(* ===== verification/Email_Tool.thy ===== *)
theory Email_Tool
  imports Tool_Pipeline
begin

text \<open>
  What the e-mail tool, \<^verbatim>\<open>src/agent/tools/email-tool.ts\<close>, reads of its arguments to decide whom it
  sends to, set against the target the pipeline checks: the allow and deny lists bound neither
  \<^verbatim>\<open>cc\<close> and \<^verbatim>\<open>bcc\<close> nor, when a decoy key is present, \<^verbatim>\<open>to\<close>.
\<close>

subsection \<open>Recipients\<close>

text \<open>
  Whom \<^verbatim>\<open>src/agent/tools/email-tool.ts\<close> sends to: the argument \<^verbatim>\<open>to\<close> and the arrays \<^verbatim>\<open>cc\<close> and \<^verbatim>\<open>bcc\<close>.
\<close>

datatype email_error = Email_Missing string | Email_Malformed string

definition is_email :: "string \<Rightarrow> bool" where
  "is_email s \<longleftrightarrow>
     (let local = takeWhile (\<lambda>c. c \<noteq> CHR ''@'') s; rest = dropWhile (\<lambda>c. c \<noteq> CHR ''@'') s in
      local \<noteq> [] \<and> rest \<noteq> [] \<and> list_all (\<lambda>c. \<not> js_space c) s \<and>
      (let domain = tl rest in
       list_all (\<lambda>c. c \<noteq> CHR ''@'') domain \<and>
       list_ex (\<lambda>i. domain ! i = CHR ''.'') [1..<length domain - 1]))"

definition require_email :: "json \<Rightarrow> string \<Rightarrow> email_error + string" where
  "require_email args k =
     (case js_get args k of
        Some (JStr s) \<Rightarrow>
          if s = [] then Inl (Email_Missing k)
          else if length s > 998 then Inl (Email_Malformed k)
          else if \<not> is_email s then Inl (Email_Malformed k) else Inr s
      | _ \<Rightarrow> Inl (Email_Missing k))"

fun email_texts :: "json list \<Rightarrow> string list option" where
  "email_texts [] = Some []"
| "email_texts (JStr s # js) =
     (if is_email s then map_option (\<lambda>ss. s # ss) (email_texts js) else None)"
| "email_texts (_ # js) = None"

definition ensure_email_array :: "json option \<Rightarrow> string \<Rightarrow> email_error + string list" where
  "ensure_email_array v k =
     (case v of
        None \<Rightarrow> Inr []
      | Some (JArr js) \<Rightarrow>
          (case email_texts js of None \<Rightarrow> Inl (Email_Malformed k) | Some ss \<Rightarrow> Inr ss)
      | Some _ \<Rightarrow> Inl (Email_Malformed k))"

definition email_recipients :: "json \<Rightarrow> email_error + string list" where
  "email_recipients args =
     (case require_email args ''to'' of
        Inl err \<Rightarrow> Inl err
      | Inr to \<Rightarrow>
          (case ensure_email_array (js_get args ''cc'') ''cc'' of
             Inl err \<Rightarrow> Inl err
           | Inr cc \<Rightarrow>
               (case ensure_email_array (js_get args ''bcc'') ''bcc'' of
                  Inl err \<Rightarrow> Inl err | Inr bcc \<Rightarrow> Inr (to # cc @ bcc))))"

text \<open>An e-mail without copies.\<close>

lemma recipients_to_only:
  assumes "is_email a" and "length a \<le> 998"
    and "js_get args ''to'' = Some (JStr a)" and "js_get args ''cc'' = None" and "js_get args ''bcc'' = None"
  shows "email_recipients args = Inr [a]"
  using assms
  by (auto simp: email_recipients_def require_email_def ensure_email_array_def is_email_def Let_def)

subsection \<open>Properties\<close>

text \<open>
  C26: the lists do not bind the recipients. For every non-empty allow list and every deny list that
  let one address through, an e-mail can be addressed to any other well-formed address, denied or
  not allow-listed, and still pass the pipeline's check of the target: with the permitted address
  under the key \<^verbatim>\<open>recipient\<close>, which the pipeline looks at first and the tool never reads, or with the
  other address as a copy.
\<close>

theorem email_lists_bypassed:
  assumes "allow_list c = Some as" and "good \<in> set as" and "good \<noteq> []"
    and "\<forall>ds. deny_list c = Some ds \<longrightarrow> good \<notin> set ds"
    and "is_email bad" and "length bad \<le> 998" and "is_email good" and "length good \<le> 998"
  shows "target_refusal c (JObj [(''recipient'', JStr good), (''to'', JStr bad)]) = None \<and>
     email_recipients (JObj [(''recipient'', JStr good), (''to'', JStr bad)]) = Inr [bad] \<and>
     target_refusal c (JObj [(''to'', JStr good), (''bcc'', JArr [JStr bad])]) = None \<and>
     email_recipients (JObj [(''to'', JStr good), (''bcc'', JArr [JStr bad])]) = Inr [good, bad]"
proof -
  have t: "target_refusal c args = None" if "extract_target args = Some good" for args
    using assms(1,2,4) that by (auto simp: target_refusal_None)
  have "email_recipients (JObj [(''recipient'', JStr good), (''to'', JStr bad)]) = Inr [bad]"
    using assms(5,6) by (intro recipients_to_only) simp_all
  moreover have "good \<noteq> []" "bad \<noteq> []" using assms(3,5) by (auto simp: is_email_def)
  moreover have "email_recipients (JObj [(''to'', JStr good), (''bcc'', JArr [JStr bad])]) = Inr [good, bad]"
    using assms(5,7,8) \<open>good \<noteq> []\<close>
    by (simp add: email_recipients_def require_email_def ensure_email_array_def)
  ultimately show ?thesis using t by (simp add: extract_target_def)
qed

lemma email_lists_bypassed_witness:
  "target_refusal (no_constraints\<lparr>allow_list := Some [''a@x.io''], deny_list := Some [''b@x.io'']\<rparr>)
     (JObj [(''recipient'', JStr ''a@x.io''), (''to'', JStr ''b@x.io'')]) = None \<and>
   email_recipients (JObj [(''recipient'', JStr ''a@x.io''), (''to'', JStr ''b@x.io'')]) = Inr [''b@x.io'']"
proof -
  have e: "is_email ''a@x.io''" "is_email ''b@x.io''" by code_simp+
  show ?thesis
    using email_lists_bypassed [of "no_constraints\<lparr>allow_list := Some [''a@x.io''], deny_list := Some [''b@x.io'']\<rparr>"
        "[''a@x.io'']" "''a@x.io''" "''b@x.io''"] e
    by (simp add: no_constraints_def)
qed

end
