(* ===== verification/Edge_Outbox.thy ===== *)
theory Edge_Outbox
  imports Js_Values
begin

text \<open>
  The outbox of a device and the resolution of concurrent changes: \<^verbatim>\<open>src/edge/sync/outbox.ts\<close> and
  \<^verbatim>\<open>src/edge/sync/conflict.ts\<close>. A change made offline is queued with a sequence number of the device
  and a class that is derived from its operation; the whole outbox is written to disk as JSON and
  read back with every entry checked. Changes of several devices are grouped by their target; a
  change of the identity core is never merged, it is put before a person.

  The text of \<^verbatim>\<open>JSON.stringify\<close> is represented by its tree (see \<open>Js_Values\<close>), so a deep clone by a
  JSON round trip is the identity. A JavaScript number that may be NaN or infinite is a
  \<open>rat option\<close>; \<open>None\<close> is written as \<^verbatim>\<open>null\<close>.
\<close>

subsection \<open>Classes of changes\<close>

datatype change_class = Fact | Projection | Identity

definition identity_op_prefixes :: "string list" where
  "identity_op_prefixes =
     [''core-value.'', ''survival-anchor.'', ''narrative.'', ''decision-style.'',
      ''cognitive-model.'', ''personaRule.'', ''response-template.'', ''rt.'']"

definition identity_artifact_kinds :: "string list" where
  "identity_artifact_kinds =
     [''value_shift'', ''narrative_patch'', ''decision_style_patch'', ''cognitive_model_patch'',
      ''response_template'', ''rule'']"

definition classify_op_kind :: "string \<Rightarrow> change_class" where
  "classify_op_kind op =
     (if list_ex (\<lambda>p. js_starts_with p op) identity_op_prefixes
         \<or> List.member identity_artifact_kinds op
      then Identity
      else if js_starts_with ''projection.'' op then Projection
      else Fact)"

fun class_text :: "change_class \<Rightarrow> string" where
  "class_text Fact = ''fact''"
| "class_text Projection = ''projection''"
| "class_text Identity = ''identity''"

definition class_of_text :: "string \<Rightarrow> change_class option" where
  "class_of_text t =
     (if t = ''fact'' then Some Fact
      else if t = ''projection'' then Some Projection
      else if t = ''identity'' then Some Identity
      else None)"

lemma class_of_text_class_text [simp]: "class_of_text (class_text c) = Some c"
  by (cases c) (simp_all add: class_of_text_def)

subsection \<open>The outbox\<close>

record outbox_entry =
  oe_device :: ident
  oe_seq :: int
  oe_class :: change_class
  oe_op :: string
  oe_payload :: json
  oe_at :: "rat option"
  oe_synced :: bool

record edge_outbox =
  ob_device :: ident
  ob_entries :: "outbox_entry list"
  ob_next :: int

definition new_outbox :: "ident \<Rightarrow> edge_outbox" where
  "new_outbox d = \<lparr> ob_device = d, ob_entries = [], ob_next = 1 \<rparr>"

datatype outbox_error =
    Class_Mismatch string change_class change_class
  | Null_Document | Bad_Schema_Version | Malformed_Top
  | Entry_Not_Object | Entry_Device | Entry_Seq | Entry_Op | Entry_Class
  | Entry_Class_Drift string change_class change_class
  | Entry_Payload | Entry_At | Entry_Synced
  | Duplicate_Seq int | Next_Seq_Too_Low int int

definition outbox_enqueue ::
  "edge_outbox \<Rightarrow> change_class \<Rightarrow> string \<Rightarrow> json \<Rightarrow> rat option
     \<Rightarrow> outbox_error + (edge_outbox \<times> outbox_entry)" where
  "outbox_enqueue ob c op payload t =
     (let derived = classify_op_kind op in
      if derived \<noteq> c then Inl (Class_Mismatch op derived c)
      else let e = \<lparr> oe_device = ob_device ob, oe_seq = ob_next ob, oe_class = c, oe_op = op,
                     oe_payload = payload, oe_at = t, oe_synced = False \<rparr>
           in Inr (ob\<lparr>ob_entries := ob_entries ob @ [e], ob_next := ob_next ob + 1\<rparr>, e))"

definition outbox_pending :: "edge_outbox \<Rightarrow> outbox_entry list" where
  "outbox_pending ob = filter (\<lambda>e. \<not> oe_synced e) (ob_entries ob)"

text \<open>\<^verbatim>\<open>find\<close> gives the first entry with the number, and only that one is marked.\<close>

fun mark_first :: "int \<Rightarrow> outbox_entry list \<Rightarrow> outbox_entry list" where
  "mark_first n [] = []"
| "mark_first n (e # es) = (if oe_seq e = n then e\<lparr>oe_synced := True\<rparr> # es else e # mark_first n es)"

definition outbox_mark_synced :: "edge_outbox \<Rightarrow> int \<Rightarrow> edge_outbox \<times> bool" where
  "outbox_mark_synced ob n =
     (case List.find (\<lambda>e. oe_seq e = n) (ob_entries ob) of
        None \<Rightarrow> (ob, False)
      | Some _ \<Rightarrow> (ob\<lparr>ob_entries := mark_first n (ob_entries ob)\<rparr>, True))"

definition outbox_all :: "edge_outbox \<Rightarrow> outbox_entry list" where
  "outbox_all ob = ob_entries ob"

subsection \<open>Writing and reading back\<close>

definition json_at :: "rat option \<Rightarrow> json" where
  "json_at t = (case t of None \<Rightarrow> JNull | Some x \<Rightarrow> JNum x)"

definition entry_json :: "outbox_entry \<Rightarrow> json" where
  "entry_json e =
     JObj [(''deviceId'', JStr (oe_device e)), (''seq'', JNum (of_int (oe_seq e))),
           (''changeClass'', JStr (class_text (oe_class e))), (''opKind'', JStr (oe_op e)),
           (''payload'', oe_payload e), (''at'', json_at (oe_at e)),
           (''synced'', JBool (oe_synced e))]"

definition outbox_serialize :: "edge_outbox \<Rightarrow> json" where
  "outbox_serialize ob =
     JObj [(''schemaVersion'', JNum 1), (''deviceId'', JStr (ob_device ob)),
           (''nextSeq'', JNum (of_int (ob_next ob))),
           (''entries'', JArr (map entry_json (ob_entries ob)))]"

text \<open>
  \<^verbatim>\<open>typeof x === 'number' && Number.isInteger(x) && x >= 1\<close> and \<^verbatim>\<open>x !== null && typeof x === 'object'\<close>.
\<close>

definition js_positive_integer :: "json option \<Rightarrow> int option" where
  "js_positive_integer x =
     (case x of Some (JNum q) \<Rightarrow> if js_is_integer q \<and> 1 \<le> q then Some \<lfloor>q\<rfloor> else None | _ \<Rightarrow> None)"

fun js_is_object :: "json \<Rightarrow> bool" where
  "js_is_object (JObj _) = True"
| "js_is_object (JArr _) = True"
| "js_is_object _ = False"

definition validate_entry :: "json \<Rightarrow> ident \<Rightarrow> outbox_error + outbox_entry" where
  "validate_entry raw device =
     (if \<not> js_is_object raw then Inl Entry_Not_Object
      else if js_get raw ''deviceId'' \<noteq> Some (JStr device) then Inl Entry_Device
      else case js_positive_integer (js_get raw ''seq'') of
        None \<Rightarrow> Inl Entry_Seq
      | Some n \<Rightarrow>
        (case js_get raw ''opKind'' of
           Some (JStr op) \<Rightarrow>
             (if op = [] then Inl Entry_Op
              else case js_get raw ''changeClass'' of
                Some (JStr ct) \<Rightarrow>
                  (case class_of_text ct of
                     None \<Rightarrow> Inl Entry_Class
                   | Some c \<Rightarrow>
                     (let derived = classify_op_kind op in
                      if derived \<noteq> c then Inl (Entry_Class_Drift op derived c)
                      else case js_get raw ''payload'' of
                        None \<Rightarrow> Inl Entry_Payload
                      | Some payload \<Rightarrow>
                        (if \<not> js_is_object payload then Inl Entry_Payload
                         else case js_get raw ''at'' of
                           Some (JNum t) \<Rightarrow>
                             (case js_get raw ''synced'' of
                                Some (JBool y) \<Rightarrow>
                                  Inr \<lparr> oe_device = device, oe_seq = n, oe_class = c, oe_op = op,
                                        oe_payload = payload, oe_at = Some t, oe_synced = y \<rparr>
                              | _ \<Rightarrow> Inl Entry_Synced)
                         | _ \<Rightarrow> Inl Entry_At)))
              | _ \<Rightarrow> Inl Entry_Class)
         | _ \<Rightarrow> Inl Entry_Op))"

fun load_entries ::
  "ident \<Rightarrow> json list \<Rightarrow> int list \<Rightarrow> int \<Rightarrow> outbox_entry list
     \<Rightarrow> outbox_error + (outbox_entry list \<times> int)" where
  "load_entries device [] seen m acc = Inr (acc, m)"
| "load_entries device (raw # rest) seen m acc =
     (case validate_entry raw device of
        Inl x \<Rightarrow> Inl x
      | Inr e \<Rightarrow>
          if List.member seen (oe_seq e) then Inl (Duplicate_Seq (oe_seq e))
          else load_entries device rest (oe_seq e # seen) (max m (oe_seq e)) (acc @ [e]))"

definition outbox_from_serialized :: "json \<Rightarrow> outbox_error + edge_outbox" where
  "outbox_from_serialized doc =
     (if doc = JNull then Inl Null_Document
      else
        let version = (case js_get doc ''schemaVersion'' of
                         None \<Rightarrow> JNum 1 | Some JNull \<Rightarrow> JNum 1 | Some v \<Rightarrow> v)
        in if version \<noteq> JNum 1 then Inl Bad_Schema_Version
           else case (js_get doc ''deviceId'', js_positive_integer (js_get doc ''nextSeq''),
                      js_get doc ''entries'') of
             (Some (JStr device), Some n, Some (JArr raws)) \<Rightarrow>
               (case load_entries device raws [] 0 [] of
                  Inl x \<Rightarrow> Inl x
                | Inr (es, m) \<Rightarrow>
                    if n \<le> m then Inl (Next_Seq_Too_Low n m)
                    else Inr \<lparr> ob_device = device, ob_entries = es, ob_next = n \<rparr>)
           | _ \<Rightarrow> Inl Malformed_Top)"

subsection \<open>Resolution of concurrent changes\<close>

record change_ref =
  cr_device :: ident
  cr_seq :: int
  cr_class :: change_class
  cr_op :: string
  cr_target :: string

datatype resolution =
    Merge_Facts "change_ref list"
  | Rebuild_Projection string
  | Pending_Identity "change_ref list"

text \<open>\<^verbatim>\<open>String(v)\<close>; the decimal text of a number, \<^verbatim>\<open>Number.prototype.toString\<close>, is the argument \<open>num\<close>.\<close>

fun join_texts :: "string list \<Rightarrow> string" where
  "join_texts [] = []"
| "join_texts [s] = s"
| "join_texts (s # t # rest) = s @ '','' @ join_texts (t # rest)"

fun js_string :: "(rat \<Rightarrow> string) \<Rightarrow> json \<Rightarrow> string" where
  "js_string num JNull = ''null''"
| "js_string num (JBool b) = (if b then ''true'' else ''false'')"
| "js_string num (JNum x) = num x"
| "js_string num (JStr s) = s"
| "js_string num (JArr xs) = join_texts (map (\<lambda>x. if x = JNull then [] else js_string num x) xs)"
| "js_string num (JObj ps) = ''[object Object]''"

definition source_key :: "ident \<Rightarrow> int \<Rightarrow> string" where
  "source_key device n = device @ '':'' @ js_int_text n"

definition present :: "json option \<Rightarrow> json option" where
  "present x = (if x = Some JNull then None else x)"

definition to_change_ref :: "(rat \<Rightarrow> string) \<Rightarrow> outbox_entry \<Rightarrow> change_ref" where
  "to_change_ref num e =
     (let raw = (case present (js_get (oe_payload e) ''id'') of
                   None \<Rightarrow> present (js_get (oe_payload e) ''targetId'') | Some v \<Rightarrow> Some v);
          target = (case raw of
                      None \<Rightarrow> source_key (oe_device e) (oe_seq e)
                    | Some v \<Rightarrow>
                        if js_string num v = [] then source_key (oe_device e) (oe_seq e)
                        else js_string num v)
      in \<lparr> cr_device = oe_device e, cr_seq = oe_seq e, cr_class = oe_class e, cr_op = oe_op e,
           cr_target = target \<rparr>)"

definition cr_key :: "change_ref \<Rightarrow> string" where
  "cr_key c = source_key (cr_device c) (cr_seq c)"

fun dedupe_from :: "string list \<Rightarrow> change_ref list \<Rightarrow> change_ref list" where
  "dedupe_from seen [] = []"
| "dedupe_from seen (c # cs) =
     (if List.member seen (cr_key c) then dedupe_from seen cs
      else c # dedupe_from (cr_key c # seen) cs)"

definition dedupe_refs :: "change_ref list \<Rightarrow> change_ref list" where
  "dedupe_refs cs = dedupe_from [] cs"

definition is_identity :: "change_ref \<Rightarrow> bool" where
  "is_identity c \<longleftrightarrow> cr_class c = Identity"

definition is_fact :: "change_ref \<Rightarrow> bool" where
  "is_fact c \<longleftrightarrow> cr_class c = Fact"

text \<open>The error value is the number of targets in the group.\<close>

definition resolve_conflict :: "change_ref list \<Rightarrow> nat + resolution" where
  "resolve_conflict cs =
     (if cs = [] then Inr (Merge_Facts [])
      else if 1 < length (remdups (map cr_target cs)) then Inl (length (remdups (map cr_target cs)))
      else if list_ex is_identity cs then
        (let ids = filter is_identity cs in
         if length (remdups (map cr_key ids)) \<le> 1 then Inr (Pending_Identity ids)
         else Inr (Pending_Identity ids))
      else if list_all (\<lambda>c. cr_class c = Projection) cs then
        Inr (Rebuild_Projection (cr_target (hd cs)))
      else Inr (Merge_Facts (dedupe_refs (filter is_fact cs))))"

text \<open>A \<^verbatim>\<open>Map\<close> keeps its keys in the order of their first insertion.\<close>

fun group_add :: "(string \<times> change_ref list) list \<Rightarrow> change_ref \<Rightarrow> (string \<times> change_ref list) list" where
  "group_add [] c = [(cr_target c, [c])]"
| "group_add ((t, cs) # gs) c =
     (if t = cr_target c then (t, cs @ [c]) # gs else (t, cs) # group_add gs c)"

fun resolve_groups ::
  "(string \<times> change_ref list) list \<Rightarrow> nat + (string \<times> resolution) list" where
  "resolve_groups [] = Inr []"
| "resolve_groups ((t, cs) # gs) =
     (case resolve_conflict cs of
        Inl n \<Rightarrow> Inl n
      | Inr r \<Rightarrow>
          (case resolve_groups gs of Inl n \<Rightarrow> Inl n | Inr rs \<Rightarrow> Inr ((t, r) # rs)))"

definition resolve_conflicts_by_target :: "change_ref list \<Rightarrow> nat + (string \<times> resolution) list" where
  "resolve_conflicts_by_target cs = resolve_groups (foldl group_add [] cs)"

subsection \<open>The invariant of the outbox\<close>

definition entry_ok :: "edge_outbox \<Rightarrow> outbox_entry \<Rightarrow> bool" where
  "entry_ok ob e \<longleftrightarrow>
     1 \<le> oe_seq e \<and> oe_seq e < ob_next ob \<and> oe_class e = classify_op_kind (oe_op e)
     \<and> oe_device e = ob_device ob"

definition outbox_ok :: "edge_outbox \<Rightarrow> bool" where
  "outbox_ok ob \<longleftrightarrow>
     1 \<le> ob_next ob \<and> distinct (map oe_seq (ob_entries ob)) \<and> (\<forall>e \<in> set (ob_entries ob). entry_ok ob e)"

text \<open>What reading back demands of an entry beyond the invariant; \<open>outbox_enqueue\<close> does not check it.\<close>

definition storable :: "outbox_entry \<Rightarrow> bool" where
  "storable e \<longleftrightarrow> oe_op e \<noteq> [] \<and> js_is_object (oe_payload e) \<and> oe_at e \<noteq> None"

lemma outbox_enqueue_Inr_iff:
  "outbox_enqueue ob c op payload t = Inr (ob', e) \<longleftrightarrow>
     c = classify_op_kind op \<and>
     e = \<lparr> oe_device = ob_device ob, oe_seq = ob_next ob, oe_class = c, oe_op = op,
           oe_payload = payload, oe_at = t, oe_synced = False \<rparr> \<and>
     ob' = ob\<lparr>ob_entries := ob_entries ob @ [e], ob_next := ob_next ob + 1\<rparr>"
  by (auto simp: outbox_enqueue_def Let_def)

lemma mark_first_seqs [simp]: "map oe_seq (mark_first n es) = map oe_seq es"
  by (induction es) auto

lemma mark_first_ball:
  "(\<And>e. e \<in> set es \<Longrightarrow> P e \<and> P (e\<lparr>oe_synced := True\<rparr>)) \<Longrightarrow> \<forall>e \<in> set (mark_first n es). P e"
  by (induction es) auto

lemma mark_first_synced:
  "distinct (map oe_seq es) \<Longrightarrow> e \<in> set (mark_first n es) \<Longrightarrow> oe_seq e = n \<Longrightarrow> oe_synced e"
proof (induction es)
  case (Cons a es)
  show ?case
  proof (cases "oe_seq a = n")
    case True
    with Cons.prems show ?thesis by force
  next
    case False
    with Cons.prems have "e \<in> set (mark_first n es)" by auto
    with Cons show ?thesis by simp
  qed
qed simp

lemma outbox_mark_synced_fst:
  "fst (outbox_mark_synced ob n) = ob \<or>
   fst (outbox_mark_synced ob n) = ob\<lparr>ob_entries := mark_first n (ob_entries ob)\<rparr>"
  by (simp add: outbox_mark_synced_def split: option.splits)

lemma new_outbox_ok [simp]: "outbox_ok (new_outbox d)"
  by (simp add: outbox_ok_def new_outbox_def)

lemma outbox_enqueue_ok:
  assumes ok: "outbox_ok ob" and q: "outbox_enqueue ob c op payload t = Inr (ob', e)"
  shows "outbox_ok ob'"
proof -
  have "distinct (map oe_seq (ob_entries ob))" and "1 \<le> ob_next ob"
    and all: "\<And>x. x \<in> set (ob_entries ob) \<Longrightarrow> entry_ok ob x"
    using ok unfolding outbox_ok_def by blast+
  moreover have "ob_next ob \<notin> oe_seq ` set (ob_entries ob)"
    using all unfolding entry_ok_def by fastforce
  moreover have "\<And>x. x \<in> set (ob_entries ob) \<Longrightarrow> entry_ok ob' x"
    using all q unfolding entry_ok_def outbox_enqueue_Inr_iff by fastforce
  ultimately show ?thesis
    using q unfolding outbox_enqueue_Inr_iff outbox_ok_def by (auto simp: entry_ok_def)
qed

lemma outbox_mark_synced_ok:
  assumes "outbox_ok ob"
  shows "outbox_ok (fst (outbox_mark_synced ob n))"
proof -
  have "\<forall>e \<in> set (mark_first n (ob_entries ob)).
          entry_ok (ob\<lparr>ob_entries := mark_first n (ob_entries ob)\<rparr>) e"
    by (rule mark_first_ball) (use assms in \<open>simp add: outbox_ok_def entry_ok_def\<close>)
  then have "outbox_ok (ob\<lparr>ob_entries := mark_first n (ob_entries ob)\<rparr>)"
    using assms by (simp add: outbox_ok_def)
  then show ?thesis using outbox_mark_synced_fst [of ob n] assms by metis
qed

subsection \<open>Reading back what was written\<close>

lemma js_positive_integer_of_int [simp]:
  "1 \<le> n \<Longrightarrow> js_positive_integer (Some (JNum (of_int n))) = Some n"
  by (simp add: js_positive_integer_def)

lemma js_positive_integer_SomeD: "js_positive_integer x = Some n \<Longrightarrow> 1 \<le> n"
  by (auto simp: js_positive_integer_def le_floor_iff split: option.splits json.splits if_splits)

lemma validate_entry_json:
  assumes "entry_ok ob e" and "storable e"
  shows "validate_entry (entry_json e) (ob_device ob) = Inr e"
proof -
  obtain t where "oe_at e = Some t" using assms(2) by (auto simp: storable_def)
  then show ?thesis
    using assms by (simp add: validate_entry_def entry_json_def json_at_def entry_ok_def storable_def)
qed

lemma validate_entry_Inr:
  assumes "validate_entry raw device = Inr e"
  shows "1 \<le> oe_seq e \<and> oe_class e = classify_op_kind (oe_op e) \<and> oe_device e = device \<and> storable e"
  using assms
  by (auto simp: validate_entry_def storable_def Let_def js_positive_integer_SomeD
        split: if_splits option.splits json.splits)

lemma validate_entry_unstorable:
  assumes "\<not> storable e"
  shows "validate_entry (entry_json e) d \<noteq> Inr e'"
proof
  assume v: "validate_entry (entry_json e) d = Inr e'"
  have "oe_op e' = oe_op e \<and> oe_payload e' = oe_payload e \<and> oe_at e' = oe_at e"
    using v by (auto simp: validate_entry_def entry_json_def json_at_def Let_def
        split: if_splits option.splits)
  with validate_entry_Inr [OF v] assms show False by (simp add: storable_def)
qed

definition max_seq :: "int \<Rightarrow> outbox_entry list \<Rightarrow> int" where
  "max_seq m es = foldl max m (map oe_seq es)"

lemma max_seq_less: "m < n \<Longrightarrow> \<forall>e \<in> set es. oe_seq e < n \<Longrightarrow> max_seq m es < n"
  by (induction es arbitrary: m) (auto simp: max_seq_def)

lemma load_entries_json:
  assumes "\<forall>e \<in> set es. entry_ok ob e \<and> storable e" and "distinct (map oe_seq es)"
    and "oe_seq ` set es \<inter> set seen = {}"
  shows "load_entries (ob_device ob) (map entry_json es) seen m acc = Inr (acc @ es, max_seq m es)"
  using assms
proof (induction es arbitrary: seen m acc)
  case (Cons e es)
  then have "\<not> List.member seen (oe_seq e)" by auto
  moreover have "load_entries (ob_device ob) (map entry_json es) (oe_seq e # seen)
      (max m (oe_seq e)) (acc @ [e]) = Inr ((acc @ [e]) @ es, max_seq (max m (oe_seq e)) es)"
    using Cons.prems by (intro Cons.IH) auto
  ultimately show ?case
    using Cons.prems by (simp add: validate_entry_json max_seq_def)
qed (simp add: max_seq_def)

lemma outbox_reload:
  assumes "outbox_ok ob" and "\<forall>e \<in> set (ob_entries ob). storable e"
  shows "outbox_from_serialized (outbox_serialize ob) = Inr ob"
proof -
  have nx: "1 \<le> ob_next ob" using assms(1) by (simp add: outbox_ok_def)
  have "load_entries (ob_device ob) (map entry_json (ob_entries ob)) [] 0 []
      = Inr ([] @ ob_entries ob, max_seq 0 (ob_entries ob))"
    using assms by (intro load_entries_json) (auto simp: outbox_ok_def)
  moreover have "max_seq 0 (ob_entries ob) < ob_next ob"
    using assms(1) by (intro max_seq_less) (auto simp: outbox_ok_def entry_ok_def)
  ultimately show ?thesis
    using nx by (simp add: outbox_from_serialized_def outbox_serialize_def Let_def)
qed

lemma load_entries_Inr:
  "load_entries device raws seen m acc = Inr (es, k) \<Longrightarrow>
   \<exists>new. es = acc @ new \<and> k = max_seq m new \<and> distinct (map oe_seq new)
     \<and> oe_seq ` set new \<inter> set seen = {}
     \<and> (\<forall>e \<in> set new. 1 \<le> oe_seq e \<and> oe_class e = classify_op_kind (oe_op e)
           \<and> oe_device e = device \<and> storable e)"
proof (induction raws arbitrary: seen m acc)
  case (Cons raw raws)
  then obtain e where v: "validate_entry raw device = Inr e" and n: "oe_seq e \<notin> set seen"
    and r: "load_entries device raws (oe_seq e # seen) (max m (oe_seq e)) (acc @ [e]) = Inr (es, k)"
    by (auto split: sum.splits if_splits)
  obtain new where "es = (acc @ [e]) @ new" and "k = max_seq (max m (oe_seq e)) new"
    and "distinct (map oe_seq new)" and "oe_seq ` set new \<inter> set (oe_seq e # seen) = {}"
    and "\<forall>e \<in> set new. 1 \<le> oe_seq e \<and> oe_class e = classify_op_kind (oe_op e)
           \<and> oe_device e = device \<and> storable e"
    using Cons.IH [OF r] by blast
  with n validate_entry_Inr [OF v] show ?case
    by (intro exI [of _ "e # new"]) (auto simp: max_seq_def)
qed (auto simp: max_seq_def)

lemma max_seq_upper: "m \<le> max_seq m es \<and> (\<forall>e \<in> set es. oe_seq e \<le> max_seq m es)"
proof (induction es arbitrary: m)
  case (Cons e es)
  from Cons [of "max m (oe_seq e)"] show ?case by (auto simp: max_seq_def)
qed (simp add: max_seq_def)

text \<open>Whatever document is read, an outbox that comes of it satisfies the invariant.\<close>

lemma outbox_from_serialized_ok:
  assumes "outbox_from_serialized doc = Inr ob"
  shows "outbox_ok ob \<and> (\<forall>e \<in> set (ob_entries ob). storable e)"
proof -
  from assms obtain raws m where
    l: "load_entries (ob_device ob) raws [] 0 [] = Inr (ob_entries ob, m)" and m: "m < ob_next ob"
    by (auto simp: outbox_from_serialized_def Let_def
          split: if_splits option.splits json.splits sum.splits prod.splits)
  from load_entries_Inr [OF l] have "m = max_seq 0 (ob_entries ob)"
    and d: "distinct (map oe_seq (ob_entries ob))"
    and e: "\<forall>e \<in> set (ob_entries ob). 1 \<le> oe_seq e \<and> oe_class e = classify_op_kind (oe_op e)
           \<and> oe_device e = ob_device ob \<and> storable e" by auto
  with max_seq_upper [of 0 "ob_entries ob"] m have "1 \<le> ob_next ob"
    and "\<forall>e \<in> set (ob_entries ob). oe_seq e < ob_next ob" by force+
  with d e show ?thesis by (simp add: outbox_ok_def entry_ok_def)
qed

lemma load_entries_unstorable:
  "\<exists>e \<in> set es. \<not> storable e \<Longrightarrow> \<exists>x. load_entries d (map entry_json es) seen m acc = Inl x"
proof (induction es arbitrary: seen m acc)
  case (Cons e es)
  show ?case
  proof (cases "validate_entry (entry_json e) d")
    case (Inr e')
    then have "storable e" using validate_entry_unstorable by blast
    with Cons have "\<exists>x. load_entries d (map entry_json es) (oe_seq e' # seen) (max m (oe_seq e'))
        (acc @ [e']) = Inl x" by auto
    with Inr show ?thesis by auto
  qed simp
qed simp

lemma outbox_unstorable_unreadable:
  assumes "\<exists>e \<in> set (ob_entries ob). \<not> storable e"
  shows "\<exists>x. outbox_from_serialized (outbox_serialize ob) = Inl x"
proof -
  have "\<exists>x. load_entries (ob_device ob) (map entry_json (ob_entries ob)) [] 0 [] = Inl x"
    by (rule load_entries_unstorable [OF assms])
  then show ?thesis
    by (auto simp: outbox_from_serialized_def outbox_serialize_def Let_def split: option.splits)
qed

subsection \<open>Runs of an outbox\<close>

text \<open>A restart writes the outbox and reads it back; when that fails there is no outbox to go on with.\<close>

datatype outbox_command =
    Ob_Enqueue change_class string json "rat option"
  | Ob_Mark_Synced int
  | Ob_Restart

fun outbox_step :: "edge_outbox \<Rightarrow> outbox_command \<Rightarrow> edge_outbox" where
  "outbox_step ob (Ob_Enqueue c op payload t) =
     (case outbox_enqueue ob c op payload t of Inl _ \<Rightarrow> ob | Inr (ob', _) \<Rightarrow> ob')"
| "outbox_step ob (Ob_Mark_Synced n) = fst (outbox_mark_synced ob n)"
| "outbox_step ob Ob_Restart =
     (case outbox_from_serialized (outbox_serialize ob) of Inl _ \<Rightarrow> ob | Inr ob' \<Rightarrow> ob')"

fun storable_command :: "outbox_command \<Rightarrow> bool" where
  "storable_command (Ob_Enqueue c op payload t) = (op \<noteq> [] \<and> js_is_object payload \<and> t \<noteq> None)"
| "storable_command _ = True"

lemma outbox_step_ok: "outbox_ok ob \<Longrightarrow> outbox_ok (outbox_step ob k)"
  by (cases k)
     (auto split: sum.splits dest: outbox_enqueue_ok outbox_from_serialized_ok
       intro: outbox_mark_synced_ok)

lemma outbox_from_serialized_next:
  assumes "1 \<le> ob_next ob"
    and "outbox_from_serialized (outbox_serialize ob) = Inr ob'"
  shows "ob_next ob' = ob_next ob"
  using assms
  by (auto simp: outbox_from_serialized_def outbox_serialize_def Let_def
        split: sum.splits option.splits prod.splits if_splits)

lemma outbox_step_next: "outbox_ok ob \<Longrightarrow> ob_next ob \<le> ob_next (outbox_step ob k)"
proof (cases k)
  case (Ob_Mark_Synced n)
  with outbox_mark_synced_fst [of ob n] show ?thesis by auto
next
  case Ob_Restart
  assume "outbox_ok ob"
  then have "1 \<le> ob_next ob" by (simp add: outbox_ok_def)
  from outbox_from_serialized_next [OF this] Ob_Restart show ?thesis by (auto split: sum.splits)
qed (auto split: sum.splits simp: outbox_enqueue_Inr_iff)

interpretation outbox: ranked_machine outbox_step outbox_ok ob_next "\<lambda>_. True"
  by unfold_locales (auto intro: outbox_step_ok outbox_step_next)

lemma outbox_step_storable:
  assumes "outbox_ok ob" and "\<forall>e \<in> set (ob_entries ob). storable e" and "storable_command k"
  shows "\<forall>e \<in> set (ob_entries (outbox_step ob k)). storable e"
proof (cases k)
  case (Ob_Mark_Synced n)
  have "\<forall>e \<in> set (mark_first n (ob_entries ob)). storable e"
    by (rule mark_first_ball) (use assms in \<open>simp add: storable_def\<close>)
  with Ob_Mark_Synced outbox_mark_synced_fst [of ob n] assms(2) show ?thesis by auto
next
  case Ob_Restart
  with assms show ?thesis by (auto split: sum.splits dest: outbox_from_serialized_ok)
qed (use assms in \<open>auto simp: outbox_enqueue_Inr_iff storable_def split: sum.splits\<close>)

lemma outbox_run_storable:
  "outbox_ok ob \<Longrightarrow> \<forall>e \<in> set (ob_entries ob). storable e \<Longrightarrow> list_all storable_command ks \<Longrightarrow>
   \<forall>e \<in> set (ob_entries (foldl outbox_step ob ks)). storable e"
proof (induction ks arbitrary: ob)
  case (Cons k ks)
  then have "\<forall>e \<in> set (ob_entries (outbox_step ob k)). storable e"
    by (intro outbox_step_storable) auto
  moreover have "outbox_ok (outbox_step ob k)" using Cons.prems(1) by (rule outbox_step_ok)
  ultimately show ?case using Cons.IH [of "outbox_step ob k"] Cons.prems(3) by simp
qed simp

subsection \<open>Lemmas on conflict resolution\<close>

lemma source_key_inj:
  assumes eq: "source_key a m = source_key b n"
  shows "a = b \<and> m = n"
proof -
  have split: "\<And>d i. dropWhile (\<lambda>c. c \<noteq> CHR '':'') (rev (source_key d i)) = CHR '':'' # rev d"
    and take: "\<And>d i. takeWhile (\<lambda>c. c \<noteq> CHR '':'') (rev (source_key d i)) = rev (js_int_text i)"
    by (auto simp: source_key_def dropWhile_append takeWhile_append)
  from split [of a m] split [of b n] eq have "a = b" by simp
  moreover from take [of a m] take [of b n] eq have "js_int_text m = js_int_text n" by simp
  ultimately show ?thesis by (simp add: js_int_text_inj)
qed

lemma cr_key_iff: "cr_key a = cr_key b \<longleftrightarrow> cr_device a = cr_device b \<and> cr_seq a = cr_seq b"
  using source_key_inj by (auto simp: cr_key_def)

lemma dedupe_from_props:
  "distinct (map cr_key (dedupe_from seen cs)) \<and>
   cr_key ` set (dedupe_from seen cs) = cr_key ` set cs - set seen \<and>
   set (dedupe_from seen cs) \<subseteq> set cs"
proof (induction cs arbitrary: seen)
  case (Cons c cs)
  show ?case
  proof (cases "List.member seen (cr_key c)")
    case True
    with Cons [of seen] show ?thesis by (auto simp: insert_Diff_if)
  next
    case False
    with Cons [of "cr_key c # seen"] show ?thesis by auto
  qed
qed simp

lemma dedupe_refs_distinct: "distinct (map cr_key (dedupe_refs cs))"
  and dedupe_refs_keys: "cr_key ` set (dedupe_refs cs) = cr_key ` set cs"
  and dedupe_refs_subset: "set (dedupe_refs cs) \<subseteq> set cs"
  using dedupe_from_props [of "[]" cs] by (simp_all add: dedupe_refs_def)

definition group_of :: "string \<Rightarrow> change_ref list \<Rightarrow> change_ref list" where
  "group_of t cs = filter (\<lambda>c. cr_target c = t) cs"

definition groups_ok :: "(string \<times> change_ref list) list \<Rightarrow> change_ref list \<Rightarrow> bool" where
  "groups_ok gs cs \<longleftrightarrow>
     distinct (map fst gs) \<and> set (map fst gs) = cr_target ` set cs
     \<and> (\<forall>(t, g) \<in> set gs. g = group_of t cs)"

lemma group_add_fst:
  "map fst (group_add gs c) =
     (if cr_target c \<in> set (map fst gs) then map fst gs else map fst gs @ [cr_target c])"
  by (induction gs c rule: group_add.induct) auto

lemma group_add_mem:
  "distinct (map fst gs) \<Longrightarrow> (t, g) \<in> set (group_add gs c) \<Longrightarrow>
   (t \<noteq> cr_target c \<and> (t, g) \<in> set gs)
   \<or> (t = cr_target c \<and> (\<exists>g0. (t, g0) \<in> set gs \<and> g = g0 @ [c]))
   \<or> (t = cr_target c \<and> t \<notin> set (map fst gs) \<and> g = [c])"
proof (induction gs c rule: group_add.induct)
  case (2 s cs gs c)
  then show ?case by (cases "s = cr_target c") (auto simp: image_iff Bex_def)
qed auto

lemma groups_ok_add:
  assumes "groups_ok gs cs"
  shows "groups_ok (group_add gs c) (cs @ [c])"
proof -
  have d: "distinct (map fst gs)" and t: "set (map fst gs) = cr_target ` set cs"
    and g: "\<And>t g. (t, g) \<in> set gs \<Longrightarrow> g = group_of t cs"
    using assms unfolding groups_ok_def by auto
  have "g = group_of t (cs @ [c])" if "(t, g) \<in> set (group_add gs c)" for t g
    using group_add_mem [OF d that]
  proof (elim disjE conjE exE)
    assume "t = cr_target c" and "t \<notin> set (map fst gs)" and "g = [c]"
    then have "\<forall>x \<in> set cs. cr_target x \<noteq> t" unfolding t by blast
    with \<open>g = [c]\<close> \<open>t = cr_target c\<close> show ?thesis by (simp add: group_of_def)
  qed (auto simp: group_of_def dest: g)
  moreover have "distinct (map fst (group_add gs c))"
    and "set (map fst (group_add gs c)) = cr_target ` set (cs @ [c])"
    unfolding group_add_fst using d t by auto
  ultimately show ?thesis unfolding groups_ok_def by blast
qed

lemma groups_ok_all: "groups_ok (foldl group_add [] cs) cs"
  by (induction cs rule: rev_induct) (auto simp: groups_ok_def [of "[]"] intro: groups_ok_add)

text \<open>What a group of one target resolves to.\<close>

definition resolution_of :: "string \<Rightarrow> change_ref list \<Rightarrow> resolution" where
  "resolution_of t g =
     (if list_ex is_identity g then Pending_Identity (filter is_identity g)
      else if list_ex is_fact g then Merge_Facts (dedupe_refs (filter is_fact g))
      else Rebuild_Projection t)"

lemma resolve_conflict_group:
  assumes "g \<noteq> []" and "\<forall>c \<in> set g. cr_target c = t"
  shows "resolve_conflict g = Inr (resolution_of t g)"
proof -
  have "set (map cr_target g) = {t}" using assms by (cases g) auto
  then have one: "length (remdups (map cr_target g)) = 1" by (simp add: length_remdups_card_conv)
  have hd: "cr_target (hd g) = t" using assms by simp
  have "list_all (\<lambda>c. cr_class c = Projection) g \<longleftrightarrow> \<not> list_ex is_fact g"
    if "\<not> list_ex is_identity g"
    using that change_class.exhaust
    by (simp add: list_all_iff list_ex_iff is_fact_def is_identity_def) (metis change_class.distinct(1) change_class.exhaust)
  with one hd assms(1) show ?thesis
    by (simp add: resolve_conflict_def resolution_of_def Let_def)
qed

lemma resolve_groups_map:
  "\<forall>(t, g) \<in> set gs. g \<noteq> [] \<and> (\<forall>c \<in> set g. cr_target c = t) \<Longrightarrow>
   resolve_groups gs = Inr (map (\<lambda>(t, g). (t, resolution_of t g)) gs)"
proof (induction gs)
  case (Cons a gs)
  obtain t g where a: "a = (t, g)" by fastforce
  with Cons.prems have "resolve_conflict g = Inr (resolution_of t g)"
    by (intro resolve_conflict_group) auto
  with Cons a show ?case by simp
qed simp

text \<open>
  The resolutions refine the description by targets: one for each target that occurs, that of the
  target's own changes.
\<close>

lemma resolve_conflicts_by_target_spec:
  "\<exists>ts. distinct ts \<and> set ts = cr_target ` set cs \<and>
        resolve_conflicts_by_target cs = Inr (map (\<lambda>t. (t, resolution_of t (group_of t cs))) ts)"
proof -
  let ?gs = "foldl group_add [] cs"
  have ok: "groups_ok ?gs cs" by (rule groups_ok_all)
  have g: "g = group_of t cs \<and> t \<in> cr_target ` set cs" if m: "(t, g) \<in> set ?gs" for t g
  proof -
    have "t \<in> set (map fst ?gs)" using m by (metis fst_conv image_eqI set_map)
    with ok m show ?thesis unfolding groups_ok_def by blast
  qed
  have "resolve_groups ?gs = Inr (map (\<lambda>(t, g). (t, resolution_of t g)) ?gs)"
  proof (rule resolve_groups_map, clarify)
    fix t g' assume "(t, g') \<in> set ?gs"
    then have "g' = group_of t cs" and "t \<in> cr_target ` set cs" using g by blast+
    then show "g' \<noteq> [] \<and> (\<forall>c \<in> set g'. cr_target c = t)"
      by (auto simp: group_of_def filter_empty_conv)
  qed
  also have "map (\<lambda>(t, g). (t, resolution_of t g)) ?gs
      = map (\<lambda>t. (t, resolution_of t (group_of t cs))) (map fst ?gs)"
    unfolding map_map o_def
  proof (rule map_cong [OF refl])
    fix x assume "x \<in> set ?gs"
    with g [of "fst x" "snd x"] show "(case x of (t, g) \<Rightarrow> (t, resolution_of t g))
        = (fst x, resolution_of (fst x) (group_of (fst x) cs))" by (simp add: split_beta)
  qed
  finally have r: "resolve_conflicts_by_target cs
      = Inr (map (\<lambda>t. (t, resolution_of t (group_of t cs))) (map fst ?gs))"
    by (simp add: resolve_conflicts_by_target_def)
  show ?thesis
    by (rule exI [of _ "map fst ?gs"]) (use ok r in \<open>simp add: groups_ok_def\<close>)
qed

lemma resolve_mem:
  assumes "resolve_conflicts_by_target cs = Inr rs"
  shows "distinct (map fst rs)"
    and "(t, r) \<in> set rs \<longleftrightarrow> t \<in> cr_target ` set cs \<and> r = resolution_of t (group_of t cs)"
proof -
  obtain ts where "distinct ts" and "set ts = cr_target ` set cs"
    and "rs = map (\<lambda>t. (t, resolution_of t (group_of t cs))) ts"
    using resolve_conflicts_by_target_spec [of cs] assms by auto
  then show "distinct (map fst rs)"
    and "(t, r) \<in> set rs \<longleftrightarrow> t \<in> cr_target ` set cs \<and> r = resolution_of t (group_of t cs)"
    by (simp add: o_def, auto)
qed

lemma group_of_set: "c \<in> set (group_of t cs) \<longleftrightarrow> c \<in> set cs \<and> cr_target c = t"
  by (auto simp: group_of_def)

lemma resolution_of_identity:
  assumes "c \<in> set g" and "cr_class c = Identity"
  shows "resolution_of t g = Pending_Identity (filter is_identity g)"
  using assms by (auto simp: resolution_of_def list_ex_iff is_identity_def)

lemma resolution_of_merge:
  assumes "Merge_Facts fs = resolution_of t g"
  shows "fs = dedupe_refs (filter is_fact g) \<and> \<not> list_ex is_identity g"
  using assms by (simp add: resolution_of_def split: if_splits)

lemma resolution_of_fact:
  assumes "c \<in> set g" and "cr_class c = Fact" and "\<not> list_ex is_identity g"
  shows "resolution_of t g = Merge_Facts (dedupe_refs (filter is_fact g))"
  using assms by (auto simp: resolution_of_def list_ex_iff is_fact_def)

lemma fact_kept_iff:
  assumes c: "c \<in> set g" and f: "cr_class c = Fact"
  shows "(\<exists>fs. Merge_Facts fs = resolution_of t g \<and> (\<exists>k \<in> set fs. cr_key k = cr_key c))
         \<longleftrightarrow> \<not> list_ex is_identity g"
proof
  assume "\<not> list_ex is_identity g"
  from resolution_of_fact [OF c f this]
  have "resolution_of t g = Merge_Facts (dedupe_refs (filter is_fact g))" .
  moreover have "cr_key c \<in> cr_key ` set (dedupe_refs (filter is_fact g))"
    using c f by (simp add: dedupe_refs_keys is_fact_def)
  then have "\<exists>k \<in> set (dedupe_refs (filter is_fact g)). cr_key k = cr_key c" by force
  ultimately show "\<exists>fs. Merge_Facts fs = resolution_of t g \<and> (\<exists>k \<in> set fs. cr_key k = cr_key c)"
    by metis
qed (use resolution_of_merge in metis)

subsection \<open>Properties\<close>

text \<open>
  C11: Whatever is queued, marked and restarted, as long as every queued operation has a name, an
  object payload and a finite time, writing the outbox and reading it back gives the very same
  outbox: no change is lost, altered or reordered, no synced flag is lost, and the next sequence
  number goes on where it was.
\<close>

theorem outbox_survives_restart:
  assumes "list_all storable_command ks"
  shows "outbox_from_serialized (outbox_serialize (foldl outbox_step (new_outbox d) ks))
         = Inr (foldl outbox_step (new_outbox d) ks)"
proof (rule outbox_reload)
  show "outbox_ok (foldl outbox_step (new_outbox d) ks)"
    by (rule outbox.run_invar [OF new_outbox_ok])
  show "\<forall>e \<in> set (ob_entries (foldl outbox_step (new_outbox d) ks)). storable e"
    by (rule outbox_run_storable [OF new_outbox_ok _ assms]) (simp add: new_outbox_def)
qed

lemma outbox_survives_restart_witness:
  "outbox_from_serialized (outbox_serialize (foldl outbox_step (new_outbox ''d'')
     [Ob_Enqueue Fact ''memory.append'' (JObj []) (Some 5), Ob_Mark_Synced 1, Ob_Restart,
      Ob_Enqueue Identity ''core-value.update'' (JObj []) (Some 6)]))
   = Inr (foldl outbox_step (new_outbox ''d'')
     [Ob_Enqueue Fact ''memory.append'' (JObj []) (Some 5), Ob_Mark_Synced 1, Ob_Restart,
      Ob_Enqueue Identity ''core-value.update'' (JObj []) (Some 6)])"
  by (rule outbox_survives_restart) simp

text \<open>
  The pair of device and sequence number, by which the cloud recognises a change it has already
  seen, never names two changes: a change queued later gets a larger number, also across restarts.
\<close>

theorem sequence_numbers_never_reused:
  assumes "ob = foldl outbox_step (new_outbox d) ks"
    and "outbox_enqueue ob c op payload t = Inr (ob1, e1)"
    and "outbox_enqueue (foldl outbox_step ob1 ks') c' op' payload' t' = Inr (ob2, e2)"
  shows "oe_seq e1 < oe_seq e2 \<and> oe_device e1 = d
         \<and> (\<forall>e \<in> set (ob_entries ob). oe_seq e < oe_seq e1)"
proof -
  have ok: "outbox_ok ob" unfolding assms(1) by (rule outbox.run_invar [OF new_outbox_ok])
  have dev: "ob_device (foldl outbox_step o1 ks) = ob_device o1" for o1 ks
  proof (induction ks arbitrary: o1)
    case (Cons k ks)
    have "ob_device (outbox_step o1 k) = ob_device o1"
    proof (cases k)
      case (Ob_Mark_Synced n)
      with outbox_mark_synced_fst [of o1 n] show ?thesis by auto
    qed (auto simp: outbox_enqueue_Inr_iff outbox_from_serialized_def outbox_serialize_def Let_def
          split: sum.splits option.splits prod.splits if_splits)
    with Cons show ?case by simp
  qed simp
  have "outbox_ok ob1" by (rule outbox_enqueue_ok [OF ok assms(2)])
  then have "ob_next ob1 \<le> ob_next (foldl outbox_step ob1 ks')"
    by (rule outbox.run_rank) (simp add: list_all_iff)
  moreover have "ob_device ob = d" unfolding assms(1) dev by (simp add: new_outbox_def)
  ultimately show ?thesis
    using ok assms(2,3) unfolding outbox_enqueue_Inr_iff outbox_ok_def entry_ok_def by auto
qed

lemma sequence_numbers_never_reused_witness:
  "\<exists>ob1 e1 ob2 e2.
     outbox_enqueue (new_outbox ''d'') Fact ''m'' (JObj []) (Some 1) = Inr (ob1, e1) \<and>
     outbox_enqueue (foldl outbox_step ob1 [Ob_Mark_Synced 1, Ob_Restart]) Fact ''m'' (JObj [])
       (Some 2) = Inr (ob2, e2) \<and> oe_seq e1 < oe_seq e2"
proof -
  obtain ob1 e1 where a: "outbox_enqueue (foldl outbox_step (new_outbox ''d'') []) Fact ''m''
      (JObj []) (Some 1) = Inr (ob1, e1)"
    using outbox_enqueue_Inr_iff by (auto simp: classify_op_kind_def identity_op_prefixes_def
        identity_artifact_kinds_def)
  obtain ob2 e2 where b: "outbox_enqueue (foldl outbox_step ob1 [Ob_Mark_Synced 1, Ob_Restart])
      Fact ''m'' (JObj []) (Some 2) = Inr (ob2, e2)"
    using outbox_enqueue_Inr_iff by (auto simp: classify_op_kind_def identity_op_prefixes_def
        identity_artifact_kinds_def)
  from sequence_numbers_never_reused [OF refl a b] a b show ?thesis by auto
qed

text \<open>
  Resolving the changes of several devices never fails, gives one resolution for each target,
  and puts every change of the identity core before a person: it is listed as pending under its
  target, and no merge holds one. A merge holds facts of its own target only, each device and
  sequence number once. A fact is kept exactly when no identity change has the same target: one
  that has is in no resolution at all.
\<close>

theorem identity_changes_never_merged:
  "\<exists>rs. resolve_conflicts_by_target cs = Inr rs \<and> distinct (map fst rs) \<and>
     fst ` set rs = cr_target ` set cs \<and>
     (\<forall>c \<in> set cs. cr_class c = Identity \<longrightarrow>
        (\<exists>ids. (cr_target c, Pending_Identity ids) \<in> set rs \<and> c \<in> set ids)) \<and>
     (\<forall>t fs. (t, Merge_Facts fs) \<in> set rs \<longrightarrow>
        distinct (map (\<lambda>f. (cr_device f, cr_seq f)) fs) \<and>
        (\<forall>f \<in> set fs. f \<in> set cs \<and> cr_class f = Fact \<and> cr_target f = t)) \<and>
     (\<forall>c \<in> set cs. cr_class c = Fact \<longrightarrow>
        ((\<exists>fs. (cr_target c, Merge_Facts fs) \<in> set rs \<and>
            (\<exists>f \<in> set fs. cr_device f = cr_device c \<and> cr_seq f = cr_seq c))
         \<longleftrightarrow> \<not> (\<exists>i \<in> set cs. cr_class i = Identity \<and> cr_target i = cr_target c)))"
proof -
  obtain rs where rs: "resolve_conflicts_by_target cs = Inr rs"
    using resolve_conflicts_by_target_spec by blast
  note mem = resolve_mem(2) [OF rs]
  have targets: "fst ` set rs = cr_target ` set cs" using mem by force
  have pending: "(cr_target c, Pending_Identity (filter is_identity (group_of (cr_target c) cs)))
      \<in> set rs \<and> c \<in> set (filter is_identity (group_of (cr_target c) cs))"
    if "c \<in> set cs" "cr_class c = Identity" for c
  proof -
    have "c \<in> set (group_of (cr_target c) cs)" using that(1) by (simp add: group_of_set)
    from resolution_of_identity [OF this that(2), of "cr_target c"] this that show ?thesis
      by (simp add: mem is_identity_def)
  qed
  have merged: "distinct (map (\<lambda>f. (cr_device f, cr_seq f)) fs) \<and>
      (\<forall>f \<in> set fs. f \<in> set cs \<and> cr_class f = Fact \<and> cr_target f = t)"
    if "(t, Merge_Facts fs) \<in> set rs" for t fs
  proof -
    have fs: "fs = dedupe_refs (filter is_fact (group_of t cs))"
      using that mem resolution_of_merge by blast
    have "distinct (map cr_key fs)" unfolding fs by (rule dedupe_refs_distinct)
    then have "distinct (map (\<lambda>f. (cr_device f, cr_seq f)) fs)"
      by (auto simp: distinct_map inj_on_def cr_key_iff)
    moreover have "set fs \<subseteq> set (filter is_fact (group_of t cs))"
      unfolding fs by (rule dedupe_refs_subset)
    ultimately show ?thesis by (auto simp: group_of_set is_fact_def)
  qed
  have kept: "(\<exists>fs. (cr_target c, Merge_Facts fs) \<in> set rs \<and>
            (\<exists>f \<in> set fs. cr_device f = cr_device c \<and> cr_seq f = cr_seq c))
         \<longleftrightarrow> \<not> (\<exists>i \<in> set cs. cr_class i = Identity \<and> cr_target i = cr_target c)"
    if "c \<in> set cs" "cr_class c = Fact" for c
  proof -
    have "c \<in> set (group_of (cr_target c) cs)" using that(1) by (simp add: group_of_set)
    from fact_kept_iff [OF this that(2), of "cr_target c"]
    have k: "(\<exists>fs. Merge_Facts fs = resolution_of (cr_target c) (group_of (cr_target c) cs) \<and>
            (\<exists>f \<in> set fs. cr_device f = cr_device c \<and> cr_seq f = cr_seq c))
          \<longleftrightarrow> \<not> list_ex is_identity (group_of (cr_target c) cs)"
      unfolding cr_key_iff .
    have i: "list_ex is_identity (group_of (cr_target c) cs)
          \<longleftrightarrow> (\<exists>i \<in> set cs. cr_class i = Identity \<and> cr_target i = cr_target c)"
      by (auto simp: list_ex_iff group_of_set is_identity_def)
    have "cr_target c \<in> cr_target ` set cs" using that(1) by blast
    with k show ?thesis unfolding mem i by simp
  qed
  show ?thesis
  proof (intro exI [of _ rs] conjI [OF rs] conjI [OF resolve_mem(1) [OF rs]] conjI [OF targets])
    have "\<forall>c \<in> set cs. cr_class c = Identity \<longrightarrow>
        (\<exists>ids. (cr_target c, Pending_Identity ids) \<in> set rs \<and> c \<in> set ids)"
      using pending by blast
    moreover note merged kept
    ultimately show "(\<forall>c \<in> set cs. cr_class c = Identity \<longrightarrow>
        (\<exists>ids. (cr_target c, Pending_Identity ids) \<in> set rs \<and> c \<in> set ids)) \<and>
     (\<forall>t fs. (t, Merge_Facts fs) \<in> set rs \<longrightarrow>
        distinct (map (\<lambda>f. (cr_device f, cr_seq f)) fs) \<and>
        (\<forall>f \<in> set fs. f \<in> set cs \<and> cr_class f = Fact \<and> cr_target f = t)) \<and>
     (\<forall>c \<in> set cs. cr_class c = Fact \<longrightarrow>
        ((\<exists>fs. (cr_target c, Merge_Facts fs) \<in> set rs \<and>
            (\<exists>f \<in> set fs. cr_device f = cr_device c \<and> cr_seq f = cr_seq c))
         \<longleftrightarrow> \<not> (\<exists>i \<in> set cs. cr_class i = Identity \<and> cr_target i = cr_target c)))"
      by (intro conjI ballI allI impI) simp_all
  qed
qed

definition demo_change :: "ident \<Rightarrow> change_class \<Rightarrow> change_ref" where
  "demo_change d c =
     \<lparr> cr_device = d, cr_seq = 1, cr_class = c, cr_op = ''op'', cr_target = ''t'' \<rparr>"

lemma identity_changes_never_merged_witness:
  "\<exists>rs ids. resolve_conflicts_by_target [demo_change ''a'' Fact, demo_change ''b'' Identity] = Inr rs
     \<and> (''t'', Pending_Identity ids) \<in> set rs \<and> demo_change ''b'' Identity \<in> set ids
     \<and> \<not> (\<exists>fs. (''t'', Merge_Facts fs) \<in> set rs \<and>
            (\<exists>f \<in> set fs. cr_device f = ''a'' \<and> cr_seq f = 1))"
  using identity_changes_never_merged [of "[demo_change ''a'' Fact, demo_change ''b'' Identity]"]
  by (auto simp: demo_change_def)

lemma unstorable_stays:
  assumes "\<exists>e \<in> set (ob_entries ob). \<not> storable e"
  shows "\<exists>e \<in> set (ob_entries (outbox_step ob k)). \<not> storable e"
proof (cases k)
  case (Ob_Mark_Synced n)
  have "\<exists>e \<in> set (mark_first n es). \<not> storable e" if "\<exists>e \<in> set es. \<not> storable e" for es
    using that by (induction es) (auto simp: storable_def)
  from this [OF assms] outbox_mark_synced_fst [of ob n] assms Ob_Mark_Synced show ?thesis
    by (metis edge_outbox.select_convs(2) edge_outbox.surjective edge_outbox.update_convs(2)
        outbox_step.simps(2))
next
  case Ob_Restart
  with assms outbox_unstorable_unreadable [OF assms] show ?thesis by auto
qed (use assms in \<open>auto simp: outbox_enqueue_Inr_iff split: sum.splits\<close>)

lemma unstorable_stays_run:
  "\<exists>e \<in> set (ob_entries ob). \<not> storable e \<Longrightarrow>
   \<exists>e \<in> set (ob_entries (foldl outbox_step ob ks)). \<not> storable e"
  by (induction ks arbitrary: ob) (simp_all add: unstorable_stays)

text \<open>
  C31: \<open>outbox_enqueue\<close> accepts an operation without a name and a time that is not finite, which
  reading back refuses: after such a change the whole outbox, with all earlier changes, can never
  be read back, whatever is done afterwards.
\<close>

theorem unnamed_change_loses_outbox:
  assumes "outbox_enqueue ob c op payload t = Inr (ob', e)" and "op = [] \<or> t = None"
  shows "\<exists>x. outbox_from_serialized (outbox_serialize (foldl outbox_step ob' ks)) = Inl x"
proof -
  have "e \<in> set (ob_entries ob') \<and> \<not> storable e"
    using assms by (auto simp: outbox_enqueue_Inr_iff storable_def)
  then show ?thesis by (intro outbox_unstorable_unreadable unstorable_stays_run) blast
qed

lemma unnamed_change_loses_outbox_witness:
  "\<exists>ob' e x. outbox_enqueue (new_outbox ''d'') Fact [] (JObj []) (Some 1) = Inr (ob', e)
     \<and> outbox_from_serialized (outbox_serialize (foldl outbox_step ob' [])) = Inl x"
proof -
  obtain ob' e where a: "outbox_enqueue (new_outbox ''d'') Fact [] (JObj []) (Some 1) = Inr (ob', e)"
    using outbox_enqueue_Inr_iff by (auto simp: classify_op_kind_def identity_op_prefixes_def
        identity_artifact_kinds_def)
  with unnamed_change_loses_outbox [OF a, of "[]"] show ?thesis by blast
qed

end
