(* ===== verification/Workforce_Store.thy ===== *)
theory Workforce_Store
  imports Js_Values "HOL-Library.List_Lexorder" "HOL-Library.Char_ord" "HOL-Library.Product_Lexorder"
begin

text \<open>
  The tables of a digital workforce and the statements on them: the types of
  \<^verbatim>\<open>src/workforce/types.ts\<close> and the part of \<^verbatim>\<open>src/storage/org-workforce-store.ts\<close> that approvals and
  executions use. A row holds the values the store maps it to; every statement names the tenant.
  The summary of a task and the reason of an approval are localized sentences in the program, here
  values of a datatype. A primary key that is taken makes the insertion fail (\<open>None\<close>).
\<close>

subsection \<open>Levels of risk, in their order\<close>

datatype risk_level = Risk_Low | Risk_Medium | Risk_High

fun risk_order :: "risk_level \<Rightarrow> nat" where
  "risk_order Risk_Low = 0"
| "risk_order Risk_Medium = 1"
| "risk_order Risk_High = 2"

lemma risk_order_inj [simp]: "risk_order a = risk_order b \<longleftrightarrow> a = b"
  by (cases a; cases b) simp_all

instantiation risk_level :: linorder
begin

definition less_eq_risk_level :: "risk_level \<Rightarrow> risk_level \<Rightarrow> bool" where
  "less_eq_risk_level a b \<longleftrightarrow> risk_order a \<le> risk_order b"

definition less_risk_level :: "risk_level \<Rightarrow> risk_level \<Rightarrow> bool" where
  "less_risk_level a b \<longleftrightarrow> risk_order a < risk_order b"

instance
  by standard (auto simp: less_eq_risk_level_def less_risk_level_def)

end

instantiation risk_level :: order_bot
begin

definition bot_risk_level :: risk_level where
  "bot_risk_level = Risk_Low"

instance
  by standard (simp add: bot_risk_level_def less_eq_risk_level_def)

end

instantiation risk_level :: order_top
begin

definition top_risk_level :: risk_level where
  "top_risk_level = Risk_High"

instance
proof
  show "a \<le> (top :: risk_level)" for a
    by (cases a) (simp_all add: top_risk_level_def less_eq_risk_level_def)
qed

end

lemmas risk_le_simps = less_eq_risk_level_def less_risk_level_def

lemma risk_low_least [simp]: "Risk_Low \<le> a"
  and risk_high_greatest [simp]: "a \<le> Risk_High"
  and risk_high_le_iff [simp]: "Risk_High \<le> a \<longleftrightarrow> a = Risk_High"
  and risk_le_low_iff [simp]: "a \<le> Risk_Low \<longleftrightarrow> a = Risk_Low"
  by (cases a; simp add: risk_le_simps)+

subsection \<open>Rows\<close>

datatype employment_status = Emp_Active | Emp_Suspended | Emp_Offboarded

record digital_worker =
  dw_tenant :: ident
  dw_org :: ident
  dw_id :: ident
  dw_persona :: ident
  dw_position :: ident
  dw_display_name :: string
  dw_status :: employment_status
  dw_created_at :: millis
  dw_updated_at :: millis

datatype edge_type = Edge_Solid | Edge_Dotted | Edge_Escalation

record reporting_edge =
  re_id :: ident
  re_tenant :: ident
  re_org :: ident
  re_manager :: "ident option"
  re_report :: ident
  re_type :: edge_type
  re_created_at :: millis

datatype task_status =
    Task_Draft | Task_Delegated | Task_In_Progress | Task_Submitted | Task_Approved
  | Task_Rejected | Task_Blocked

datatype blocked_reason = Capability_Gap | Execution_Failure

datatype task_summary =
    Sum_Gap "string list"
  | Sum_Degraded "string list"
  | Sum_Exception string
  | Sum_Executed ident ident
  | Sum_Awaiting_Confirmation
  | Sum_Refused string string
  | Sum_Woken
  | Sum_Still_Missing "string list"
  | Sum_Attempts_Exhausted nat
  | Sum_Learning_Timeout int
  | Sum_Done string string

record org_task =
  tk_tenant :: ident
  tk_org :: ident
  tk_id :: ident
  tk_goal :: ident
  tk_parent :: "ident option"
  tk_assigned :: "ident option"
  tk_accountable :: ident
  tk_title :: string
  tk_type :: string
  tk_status :: task_status
  tk_risk :: risk_level
  tk_allows_tools :: bool
  tk_criteria :: string
  tk_capabilities :: "string list"
  tk_summary :: "task_summary option"
  tk_blocked :: "blocked_reason option"
  tk_due_at :: "millis option"
  tk_resume_count :: nat
  tk_last_wake :: "string option"
  tk_created_at :: millis
  tk_updated_at :: millis

datatype approval_subject = Task_Execution | Tool_Invocation

datatype approval_mode = Human_Only | Org_Or_Human

datatype approval_status = Ap_Pending | Ap_Approved | Ap_Rejected | Ap_Expired

datatype hard_signal = Outbound_Commitment | Sensitive_Data | Funds | Irreversible

datatype risk_rationale = Hard_Risk "hard_signal list" | By_Level risk_level

record org_approval =
  ap_tenant :: ident
  ap_org :: ident
  ap_id :: ident
  ap_subject_type :: approval_subject
  ap_subject :: ident
  ap_requester :: ident
  ap_risk :: risk_level
  ap_requires_human :: bool
  ap_mode :: approval_mode
  ap_status :: approval_status
  ap_worker :: "ident option"
  ap_user :: "ident option"
  ap_reason :: risk_rationale
  ap_correlation :: "ident option"
  ap_created_at :: millis
  ap_expires_at :: "millis option"
  ap_decided_at :: "millis option"
  ap_consumed_at :: "millis option"
  ap_arguments_hash :: "string option"

record workforce =
  wf_workers :: "digital_worker list"
  wf_edges :: "reporting_edge list"
  wf_tasks :: "org_task list"
  wf_approvals :: "org_approval list"

subsection \<open>Workers and reporting edges\<close>

definition get_worker :: "ident \<Rightarrow> workforce \<Rightarrow> ident \<Rightarrow> ident \<Rightarrow> digital_worker option" where
  "get_worker tn s org w =
     select_one (\<lambda>r. dw_tenant r = tn \<and> dw_org r = org \<and> dw_id r = w) (wf_workers s)"

definition list_workers :: "ident \<Rightarrow> workforce \<Rightarrow> ident \<Rightarrow> digital_worker list" where
  "list_workers tn s org =
     sort_key (\<lambda>r. (dw_created_at r, dw_id r))
       (filter (\<lambda>r. dw_tenant r = tn \<and> dw_org r = org) (wf_workers s))"

definition list_direct_reports :: "ident \<Rightarrow> workforce \<Rightarrow> ident \<Rightarrow> ident \<Rightarrow> ident list" where
  "list_direct_reports tn s org m =
     sort (map re_report
       (filter (\<lambda>r. re_tenant r = tn \<and> re_org r = org \<and> re_manager r = Some m) (wf_edges s)))"

subsection \<open>Tasks\<close>

definition task_at :: "ident \<Rightarrow> ident \<Rightarrow> ident \<Rightarrow> org_task \<Rightarrow> bool" where
  "task_at tn org i r \<longleftrightarrow> tk_tenant r = tn \<and> tk_org r = org \<and> tk_id r = i"

definition get_task :: "ident \<Rightarrow> workforce \<Rightarrow> ident \<Rightarrow> ident \<Rightarrow> org_task option" where
  "get_task tn s org i = select_one (task_at tn org i) (wf_tasks s)"

definition reason_of :: "task_status \<Rightarrow> blocked_reason option \<Rightarrow> blocked_reason option" where
  "reason_of st why = (if st = Task_Blocked then why else None)"

definition set_execution ::
  "task_status \<Rightarrow> task_summary option \<Rightarrow> blocked_reason option \<Rightarrow> millis \<Rightarrow> org_task \<Rightarrow> org_task" where
  "set_execution st note why now r =
     r\<lparr>tk_status := st, tk_summary := note, tk_blocked := reason_of st why, tk_updated_at := now\<rparr>"

definition update_task_execution ::
  "ident \<Rightarrow> workforce \<Rightarrow> ident \<Rightarrow> ident \<Rightarrow> task_status \<Rightarrow> task_summary option
     \<Rightarrow> blocked_reason option \<Rightarrow> millis \<Rightarrow> workforce" where
  "update_task_execution tn s org i st note why now =
     s\<lparr>wf_tasks := fst (update_where (task_at tn org i) (set_execution st note why now) (wf_tasks s))\<rparr>"

definition transition_task_if_status ::
  "ident \<Rightarrow> workforce \<Rightarrow> ident \<Rightarrow> ident \<Rightarrow> task_status \<Rightarrow> task_status \<Rightarrow> task_summary option
     \<Rightarrow> millis \<Rightarrow> ident option \<Rightarrow> blocked_reason option \<Rightarrow> workforce \<times> bool" where
  "transition_task_if_status tn s org i expected next_st note now assignee why =
     (let (t, n) = update_where
        (\<lambda>r. task_at tn org i r \<and> tk_status r = expected
             \<and> (assignee = None \<or> tk_assigned r = assignee))
        (set_execution next_st note why now) (wf_tasks s)
      in (s\<lparr>wf_tasks := t\<rparr>, 0 < n))"

definition reassign_if_held ::
  "ident \<Rightarrow> workforce \<Rightarrow> ident \<Rightarrow> ident \<Rightarrow> ident \<Rightarrow> ident \<Rightarrow> millis \<Rightarrow> workforce \<times> bool" where
  "reassign_if_held tn s org i holder new now =
     (let (t, n) = update_where
        (\<lambda>r. task_at tn org i r \<and> tk_assigned r = Some holder \<and> tk_status r = Task_Delegated)
        (\<lambda>r. r\<lparr>tk_assigned := Some new, tk_updated_at := now\<rparr>) (wf_tasks s)
      in (s\<lparr>wf_tasks := t\<rparr>, 0 < n))"

text \<open>A handoff moves a task whatever its status.\<close>

definition reassign_task_if_held ::
  "ident \<Rightarrow> workforce \<Rightarrow> ident \<Rightarrow> ident \<Rightarrow> ident \<Rightarrow> ident \<Rightarrow> millis \<Rightarrow> workforce \<times> bool" where
  "reassign_task_if_held tn s org i holder new now =
     (let (t, n) = update_where (\<lambda>r. task_at tn org i r \<and> tk_assigned r = Some holder)
        (\<lambda>r. r\<lparr>tk_assigned := Some new, tk_updated_at := now\<rparr>) (wf_tasks s)
      in (s\<lparr>wf_tasks := t\<rparr>, 0 < n))"

definition insert_task :: "org_task \<Rightarrow> workforce \<Rightarrow> workforce option" where
  "insert_task r s =
     (if list_ex (\<lambda>q. tk_id q = tk_id r) (wf_tasks s) then None
      else Some (s\<lparr>wf_tasks := wf_tasks s @ [r]\<rparr>))"

text \<open>
  The statements of the wake-up: both refuse an event the task has already seen, and count the
  attempt.
\<close>

definition wakeable :: "ident \<Rightarrow> ident \<Rightarrow> ident \<Rightarrow> string \<Rightarrow> org_task \<Rightarrow> bool" where
  "wakeable tn org i event r \<longleftrightarrow>
     task_at tn org i r \<and> tk_status r = Task_Blocked \<and> tk_last_wake r \<noteq> Some event"

definition wake_blocked_task ::
  "ident \<Rightarrow> workforce \<Rightarrow> ident \<Rightarrow> ident \<Rightarrow> task_summary \<Rightarrow> string \<Rightarrow> millis \<Rightarrow> workforce \<times> bool" where
  "wake_blocked_task tn s org i note event now =
     (let (t, n) = update_where (wakeable tn org i event)
        (\<lambda>r. r\<lparr>tk_status := Task_Delegated, tk_summary := Some note,
               tk_resume_count := tk_resume_count r + 1, tk_last_wake := Some event,
               tk_updated_at := now\<rparr>) (wf_tasks s)
      in (s\<lparr>wf_tasks := t\<rparr>, 0 < n))"

definition record_wake_attempt ::
  "ident \<Rightarrow> workforce \<Rightarrow> ident \<Rightarrow> ident \<Rightarrow> task_summary \<Rightarrow> string \<Rightarrow> millis \<Rightarrow> workforce \<times> bool" where
  "record_wake_attempt tn s org i note event now =
     (let (t, n) = update_where (wakeable tn org i event)
        (\<lambda>r. r\<lparr>tk_summary := Some note, tk_resume_count := tk_resume_count r + 1,
               tk_last_wake := Some event, tk_updated_at := now\<rparr>) (wf_tasks s)
      in (s\<lparr>wf_tasks := t\<rparr>, 0 < n))"

fun is_timeout_note :: "task_summary option \<Rightarrow> bool" where
  "is_timeout_note (Some (Sum_Learning_Timeout d)) = True"
| "is_timeout_note _ = False"

definition mark_learning_timeout ::
  "ident \<Rightarrow> workforce \<Rightarrow> ident \<Rightarrow> ident \<Rightarrow> task_summary \<Rightarrow> millis \<Rightarrow> workforce \<times> bool" where
  "mark_learning_timeout tn s org i note now =
     (let (t, n) = update_where
        (\<lambda>r. task_at tn org i r \<and> tk_status r = Task_Blocked \<and> \<not> is_timeout_note (tk_summary r))
        (\<lambda>r. r\<lparr>tk_summary := Some note, tk_updated_at := now\<rparr>) (wf_tasks s)
      in (s\<lparr>wf_tasks := t\<rparr>, 0 < n))"

subsection \<open>Approvals\<close>

definition approval_at :: "ident \<Rightarrow> ident \<Rightarrow> ident \<Rightarrow> org_approval \<Rightarrow> bool" where
  "approval_at tn org i r \<longleftrightarrow> ap_tenant r = tn \<and> ap_org r = org \<and> ap_id r = i"

definition insert_approval :: "org_approval \<Rightarrow> workforce \<Rightarrow> workforce option" where
  "insert_approval a s =
     (if list_ex (\<lambda>r. ap_id r = ap_id a) (wf_approvals s) then None
      else Some (s\<lparr>wf_approvals := wf_approvals s @ [a]\<rparr>))"

definition get_approval :: "ident \<Rightarrow> workforce \<Rightarrow> ident \<Rightarrow> ident \<Rightarrow> org_approval option" where
  "get_approval tn s org i = select_one (approval_at tn org i) (wf_approvals s)"

definition undecided :: "millis \<Rightarrow> org_approval \<Rightarrow> bool" where
  "undecided now r \<longleftrightarrow>
     ap_status r = Ap_Pending \<and> (case ap_expires_at r of None \<Rightarrow> True | Some x \<Rightarrow> now < x)"

definition decide_approval_if_pending ::
  "ident \<Rightarrow> workforce \<Rightarrow> ident \<Rightarrow> ident \<Rightarrow> approval_status \<Rightarrow> ident option \<Rightarrow> ident option \<Rightarrow> millis
     \<Rightarrow> workforce \<times> bool" where
  "decide_approval_if_pending tn s org i st w u now =
     (let (t, n) = update_where (\<lambda>r. approval_at tn org i r \<and> undecided now r)
        (\<lambda>r. r\<lparr>ap_status := st, ap_worker := w, ap_user := u, ap_decided_at := Some now\<rparr>)
        (wf_approvals s)
      in (s\<lparr>wf_approvals := t\<rparr>, 0 < n))"

definition consume_approval_if_unused ::
  "ident \<Rightarrow> workforce \<Rightarrow> ident \<Rightarrow> ident \<Rightarrow> millis \<Rightarrow> workforce \<times> bool" where
  "consume_approval_if_unused tn s org i now =
     (let (t, n) = update_where
        (\<lambda>r. approval_at tn org i r \<and> ap_status r = Ap_Approved \<and> ap_consumed_at r = None)
        (\<lambda>r. r\<lparr>ap_consumed_at := Some now\<rparr>) (wf_approvals s)
      in (s\<lparr>wf_approvals := t\<rparr>, 0 < n))"

definition get_approval_arguments_hash ::
  "ident \<Rightarrow> workforce \<Rightarrow> ident \<Rightarrow> ident \<Rightarrow> string option" where
  "get_approval_arguments_hash tn s org i =
     (case get_approval tn s org i of None \<Rightarrow> None | Some r \<Rightarrow> ap_arguments_hash r)"

definition set_approval_arguments_hash ::
  "ident \<Rightarrow> workforce \<Rightarrow> ident \<Rightarrow> ident \<Rightarrow> string \<Rightarrow> workforce" where
  "set_approval_arguments_hash tn s org i h =
     s\<lparr>wf_approvals := fst (update_where (approval_at tn org i)
        (\<lambda>r. r\<lparr>ap_arguments_hash := Some h\<rparr>) (wf_approvals s))\<rparr>"

definition expire_stale_approvals :: "ident \<Rightarrow> workforce \<Rightarrow> ident \<Rightarrow> millis \<Rightarrow> workforce" where
  "expire_stale_approvals tn s org now =
     s\<lparr>wf_approvals := fst (update_where
        (\<lambda>r. ap_tenant r = tn \<and> ap_org r = org \<and> ap_status r = Ap_Pending
             \<and> (case ap_expires_at r of None \<Rightarrow> False | Some x \<Rightarrow> x \<le> now))
        (\<lambda>r. r\<lparr>ap_status := Ap_Expired, ap_decided_at := Some now\<rparr>) (wf_approvals s))\<rparr>"

end
