(* ===== verification/Approval.thy ===== *)
theory Approval
  imports Workforce_Store
begin

text \<open>
  Risk grading and the approval gate of the digital workforce: \<^verbatim>\<open>src/workforce/execution-risk.ts\<close>,
  \<^verbatim>\<open>src/workforce/tool-risk-deriver.ts\<close> and \<^verbatim>\<open>src/workforce/approval-service.ts\<close>. The risk of an
  execution is only ever raised; a medium risk may be approved by the direct manager where the
  policy allows it, a high one by a person only; an approval is bound to its task and worker and is
  used up by one execution.
\<close>

subsection \<open>Risk of an execution\<close>

text \<open>An absent flag counts as false everywhere it is read, so a flag is a Boolean.\<close>

record risk_signals =
  rs_tool_risk :: "risk_level option"
  rs_outbound :: bool
  rs_sensitive :: bool
  rs_funds :: bool
  rs_irreversible :: bool
  rs_confirm :: bool

definition no_signals :: risk_signals where
  "no_signals = \<lparr> rs_tool_risk = None, rs_outbound = False, rs_sensitive = False, rs_funds = False,
                   rs_irreversible = False, rs_confirm = False \<rparr>"

record risk_assessment =
  ra_risk :: risk_level
  ra_requires_human :: bool
  ra_rationale :: risk_rationale

definition max_risk :: "risk_level \<Rightarrow> risk_level \<Rightarrow> risk_level" where
  "max_risk a b = (if risk_order b \<le> risk_order a then a else b)"

definition hard_hits :: "risk_signals \<Rightarrow> hard_signal list" where
  "hard_hits g =
     map snd (filter fst [(rs_outbound g, Outbound_Commitment), (rs_sensitive g, Sensitive_Data),
                          (rs_funds g, Funds), (rs_irreversible g, Irreversible)])"

definition assess_execution_risk :: "risk_level \<Rightarrow> risk_signals \<Rightarrow> risk_assessment" where
  "assess_execution_risk task_risk g =
     (let hit = hard_hits g in
      if hit \<noteq> [] then
        \<lparr> ra_risk = Risk_High, ra_requires_human = True, ra_rationale = Hard_Risk hit \<rparr>
      else
        let risk0 = max_risk task_risk (or_default (rs_tool_risk g) Risk_Low);
            risk = (if rs_confirm g then max_risk risk0 Risk_Medium else risk0)
        in \<lparr> ra_risk = risk, ra_requires_human = (risk = Risk_High), ra_rationale = By_Level risk \<rparr>)"

datatype approval_route = No_Approval | Route_Org_Or_Human | Route_Human_Only

definition route_approval :: "risk_assessment \<Rightarrow> bool \<Rightarrow> approval_route" where
  "route_approval a allow_worker =
     (if ra_requires_human a then Route_Human_Only
      else if ra_risk a = Risk_Low then No_Approval
      else if allow_worker then Route_Org_Or_Human else Route_Human_Only)"

text \<open>
  The risk a tool brings, from its registered metadata; \<open>None\<close> is an unregistered tool. The second
  component is the predicate on the arguments, when the adapter has one. The caller's declaration
  can raise the result and not lower it.
\<close>

definition derive_risk_signals ::
  "(bool \<times> ('a \<Rightarrow> bool) option) option \<Rightarrow> 'a \<Rightarrow> risk_signals option \<Rightarrow> risk_signals" where
  "derive_risk_signals adapter args declared =
     (let tool_high = (case adapter of
                         None \<Rightarrow> True
                       | Some (high, f) \<Rightarrow> high \<or> (case f of None \<Rightarrow> False | Some p \<Rightarrow> p args));
          d = or_default declared no_signals;
          declared_risk = or_default (rs_tool_risk d) Risk_Low
      in \<lparr> rs_tool_risk = Some (if tool_high then Risk_High else declared_risk),
           rs_outbound = rs_outbound d, rs_sensitive = rs_sensitive d, rs_funds = rs_funds d,
           rs_irreversible = rs_irreversible d, rs_confirm = (tool_high \<or> rs_confirm d) \<rparr>)"

subsection \<open>The approval service\<close>

datatype approval_error =
    Requester_Not_In_Org ident ident
  | Approver_Missing
  | Approval_Missing ident
  | Approval_Not_Pending approval_status
  | Human_Required
  | Mode_Human_Only
  | Self_Disposal
  | Approver_Not_Active
  | Approver_Not_Manager
  | Rejecter_Missing
  | Rejecter_Ambiguous
  | Answered_Or_Expired
  | Approval_Id_Taken

record approval_request =
  ri_org :: ident
  ri_subject_type :: approval_subject
  ri_subject :: ident
  ri_requester :: ident
  ri_task_risk :: risk_level
  ri_signals :: risk_signals
  ri_allow_worker :: bool
  ri_correlation :: "ident option"
  ri_ttl :: "millis option"

datatype request_result = Auto_Cleared | Pending_Approval org_approval

definition approval_of_request ::
  "ident \<Rightarrow> approval_request \<Rightarrow> risk_assessment \<Rightarrow> approval_route \<Rightarrow> ident \<Rightarrow> millis \<Rightarrow> org_approval" where
  "approval_of_request tn q a route i ts =
     \<lparr> ap_tenant = tn, ap_org = ri_org q, ap_id = i, ap_subject_type = ri_subject_type q,
       ap_subject = ri_subject q, ap_requester = ri_requester q, ap_risk = ra_risk a,
       ap_requires_human = ra_requires_human a,
       ap_mode = (if route = Route_Org_Or_Human then Org_Or_Human else Human_Only),
       ap_status = Ap_Pending, ap_worker = None, ap_user = None, ap_reason = ra_rationale a,
       ap_correlation = ri_correlation q, ap_created_at = ts,
       ap_expires_at = map_option (\<lambda>ttl. ts + ttl) (ri_ttl q), ap_decided_at = None,
       ap_consumed_at = None, ap_arguments_hash = None \<rparr>"

definition approval_request ::
  "ident \<Rightarrow> workforce \<Rightarrow> approval_request \<Rightarrow> ident \<Rightarrow> millis
     \<Rightarrow> approval_error + (workforce \<times> request_result)" where
  "approval_request tn s q i ts =
     (if get_worker tn s (ri_org q) (ri_requester q) = None then
        Inl (Requester_Not_In_Org (ri_requester q) (ri_org q))
      else
        let a = assess_execution_risk (ri_task_risk q) (ri_signals q);
            route = route_approval a (ri_allow_worker q)
        in if route = No_Approval then Inr (s, Auto_Cleared)
           else let row = approval_of_request tn q a route i ts
                in case insert_approval row s of
                     None \<Rightarrow> Inl Approval_Id_Taken
                   | Some s' \<Rightarrow> Inr (s', Pending_Approval row))"

definition require_pending ::
  "ident \<Rightarrow> workforce \<Rightarrow> ident \<Rightarrow> ident \<Rightarrow> approval_error + org_approval" where
  "require_pending tn s org i =
     (case get_approval tn s org i of
        None \<Rightarrow> Inl (Approval_Missing i)
      | Some a \<Rightarrow> if ap_status a \<noteq> Ap_Pending then Inl (Approval_Not_Pending (ap_status a)) else Inr a)"

definition assert_worker_may_dispose ::
  "ident \<Rightarrow> workforce \<Rightarrow> ident \<Rightarrow> org_approval \<Rightarrow> ident \<Rightarrow> approval_error option" where
  "assert_worker_may_dispose tn s org a w =
     (if ap_mode a \<noteq> Org_Or_Human then Some Mode_Human_Only
      else if w = ap_requester a then Some Self_Disposal
      else case get_worker tn s org w of
        None \<Rightarrow> Some Approver_Not_Active
      | Some d \<Rightarrow>
          if dw_status d \<noteq> Emp_Active then Some Approver_Not_Active
          else if \<not> List.member (list_direct_reports tn s org w) (ap_requester a) then
            Some Approver_Not_Manager
          else None)"

definition approve_by_human ::
  "ident \<Rightarrow> workforce \<Rightarrow> ident \<Rightarrow> ident \<Rightarrow> ident \<Rightarrow> millis \<Rightarrow> approval_error + workforce" where
  "approve_by_human tn s org i user now =
     (if js_trim user = [] then Inl Approver_Missing
      else case require_pending tn s org i of
        Inl e \<Rightarrow> Inl e
      | Inr _ \<Rightarrow>
          (case decide_approval_if_pending tn s org i Ap_Approved None (Some user) now of
             (s', ok) \<Rightarrow> if ok then Inr s' else Inl Answered_Or_Expired))"

definition approve_by_worker ::
  "ident \<Rightarrow> workforce \<Rightarrow> ident \<Rightarrow> ident \<Rightarrow> ident \<Rightarrow> millis \<Rightarrow> approval_error + workforce" where
  "approve_by_worker tn s org i w now =
     (case require_pending tn s org i of
        Inl e \<Rightarrow> Inl e
      | Inr a \<Rightarrow>
          if ap_requires_human a then Inl Human_Required
          else case assert_worker_may_dispose tn s org a w of
            Some e \<Rightarrow> Inl e
          | None \<Rightarrow>
              (case decide_approval_if_pending tn s org i Ap_Approved (Some w) None now of
                 (s', ok) \<Rightarrow> if ok then Inr s' else Inl Answered_Or_Expired))"

text \<open>The text of whoever rejects, trimmed; absent counts as empty.\<close>

definition approval_reject ::
  "ident \<Rightarrow> workforce \<Rightarrow> ident \<Rightarrow> ident \<Rightarrow> ident option \<Rightarrow> ident option \<Rightarrow> millis
     \<Rightarrow> approval_error + workforce" where
  "approval_reject tn s org i worker_id user_id now =
     (case require_pending tn s org i of
        Inl e \<Rightarrow> Inl e
      | Inr a \<Rightarrow>
          let human = js_trim (or_default user_id []); w = js_trim (or_default worker_id [])
          in if human = [] \<and> w = [] then Inl Rejecter_Missing
             else if human \<noteq> [] \<and> w \<noteq> [] then Inl Rejecter_Ambiguous
             else case (if w \<noteq> [] then assert_worker_may_dispose tn s org a w else None) of
               Some e \<Rightarrow> Inl e
             | None \<Rightarrow>
                 (case decide_approval_if_pending tn s org i Ap_Rejected
                         (if w \<noteq> [] then Some w else None) (if human \<noteq> [] then Some human else None) now of
                    (s', ok) \<Rightarrow> if ok then Inr s' else Inl Answered_Or_Expired))"

definition is_approval_cleared ::
  "ident \<Rightarrow> workforce \<Rightarrow> ident \<Rightarrow> ident \<Rightarrow> millis \<Rightarrow> workforce \<times> bool" where
  "is_approval_cleared tn s org i now =
     (let s' = expire_stale_approvals tn s org now
      in (s', map_option ap_status (get_approval tn s' org i) = Some Ap_Approved))"

record execution_check =
  ec_org :: ident
  ec_approval :: ident
  ec_subject_type :: approval_subject
  ec_subject :: ident
  ec_requester :: ident
  ec_risk :: risk_level

definition approval_covers :: "org_approval \<Rightarrow> execution_check \<Rightarrow> bool" where
  "approval_covers a c \<longleftrightarrow>
     ap_status a = Ap_Approved \<and> ap_subject_type a = ec_subject_type c \<and> ap_subject a = ec_subject c
     \<and> ap_requester a = ec_requester c \<and> risk_order (ec_risk c) \<le> risk_order (ap_risk a)"

definition is_execution_approval_cleared ::
  "ident \<Rightarrow> workforce \<Rightarrow> execution_check \<Rightarrow> millis \<Rightarrow> workforce \<times> bool" where
  "is_execution_approval_cleared tn s c now =
     (let s' = expire_stale_approvals tn s (ec_org c) now
      in (s', case get_approval tn s' (ec_org c) (ec_approval c) of
                None \<Rightarrow> False | Some a \<Rightarrow> approval_covers a c))"

definition consume_execution_approval ::
  "ident \<Rightarrow> workforce \<Rightarrow> execution_check \<Rightarrow> string option \<Rightarrow> millis \<Rightarrow> workforce \<times> bool" where
  "consume_execution_approval tn s c arguments_hash now =
     (case is_execution_approval_cleared tn s c now of
        (s1, cleared) \<Rightarrow>
          if \<not> cleared then (s1, False)
          else
            let bound = get_approval_arguments_hash tn s1 (ec_org c) (ec_approval c)
            in if bound \<noteq> None \<and> bound \<noteq> arguments_hash then (s1, False)
               else consume_approval_if_unused tn s1 (ec_org c) (ec_approval c) now)"

subsection \<open>The service as a machine\<close>

datatype approval_command =
    Apc_Request approval_request ident millis
  | Apc_Human ident ident ident millis
  | Apc_Worker ident ident ident millis
  | Apc_Reject ident ident "ident option" "ident option" millis
  | Apc_Cleared ident ident millis
  | Apc_Check execution_check millis
  | Apc_Consume execution_check "string option" millis
  | Apc_Bind ident ident string
  | Apc_Directory "digital_worker list" "reporting_edge list"

definition keep_on_error :: "'s \<Rightarrow> 'e + 's \<Rightarrow> 's" where
  "keep_on_error s r = (case r of Inl _ \<Rightarrow> s | Inr s' \<Rightarrow> s')"

fun approval_step :: "ident \<Rightarrow> workforce \<Rightarrow> approval_command \<Rightarrow> workforce" where
  "approval_step tn s (Apc_Request q i now) =
     (case approval_request tn s q i now of Inl _ \<Rightarrow> s | Inr (s', _) \<Rightarrow> s')"
| "approval_step tn s (Apc_Human org i u now) = keep_on_error s (approve_by_human tn s org i u now)"
| "approval_step tn s (Apc_Worker org i w now) = keep_on_error s (approve_by_worker tn s org i w now)"
| "approval_step tn s (Apc_Reject org i w u now) = keep_on_error s (approval_reject tn s org i w u now)"
| "approval_step tn s (Apc_Cleared org i now) = fst (is_approval_cleared tn s org i now)"
| "approval_step tn s (Apc_Check c now) = fst (is_execution_approval_cleared tn s c now)"
| "approval_step tn s (Apc_Consume c h now) = fst (consume_execution_approval tn s c h now)"
| "approval_step tn s (Apc_Bind org i h) = set_approval_arguments_hash tn s org i h"
| "approval_step tn s (Apc_Directory ws es) = s\<lparr>wf_workers := ws, wf_edges := es\<rparr>"

subsection \<open>Lemmas on risk\<close>

lemma max_risk_max [simp]: "max_risk a b = max a b"
  by (cases a; cases b; simp add: max_risk_def max_def risk_le_simps)

lemma hard_hits_Nil_iff [simp]:
  "hard_hits g = [] \<longleftrightarrow> \<not> rs_outbound g \<and> \<not> rs_sensitive g \<and> \<not> rs_funds g \<and> \<not> rs_irreversible g"
  by (simp add: hard_hits_def)

text \<open>What the grading amounts to: the maximum of its sources.\<close>

definition risk_floor :: "risk_level \<Rightarrow> risk_signals \<Rightarrow> risk_level" where
  "risk_floor task_risk g =
     Max {task_risk, or_default (rs_tool_risk g) bot, if rs_confirm g then Risk_Medium else bot,
          if rs_outbound g \<or> rs_sensitive g \<or> rs_funds g \<or> rs_irreversible g then top else bot}"

lemma assess_risk_floor: "ra_risk (assess_execution_risk task_risk g) = risk_floor task_risk g"
proof -
  obtain t where t: "or_default (rs_tool_risk g) Risk_Low = t" by blast
  show ?thesis
    by (cases task_risk; cases t)
       (simp_all add: assess_execution_risk_def Let_def risk_floor_def top_risk_level_def
         bot_risk_level_def t max_def risk_le_simps)
qed

lemma assess_requires_human:
  "ra_requires_human (assess_execution_risk t g) \<longleftrightarrow> ra_risk (assess_execution_risk t g) = Risk_High"
  by (auto simp: assess_execution_risk_def Let_def)

lemma route_approval_No [simp]:
  "route_approval (assess_execution_risk t g) w = No_Approval
     \<longleftrightarrow> ra_risk (assess_execution_risk t g) = Risk_Low"
  using assess_requires_human [of t g] by (auto simp: route_approval_def)

lemma route_approval_Org:
  "route_approval a w = Route_Org_Or_Human \<longleftrightarrow> \<not> ra_requires_human a \<and> ra_risk a \<noteq> Risk_Low \<and> w"
  by (auto simp: route_approval_def)

subsection \<open>The life of one approval\<close>

text \<open>
  How a command may change one row: the abstract state machine of an approval, with the conditions
  under which the service takes each step.
\<close>

inductive approval_moves ::
  "ident \<Rightarrow> workforce \<Rightarrow> approval_command \<Rightarrow> org_approval \<Rightarrow> org_approval \<Rightarrow> bool"
  for tn s c r where
  stays: "approval_moves tn s c r r"
| by_human: "c = Apc_Human (ap_org r) (ap_id r) u now \<Longrightarrow> ap_tenant r = tn \<Longrightarrow> undecided now r \<Longrightarrow>
    js_trim u \<noteq> [] \<Longrightarrow>
    approval_moves tn s c r
      (r\<lparr>ap_status := Ap_Approved, ap_worker := None, ap_user := Some u, ap_decided_at := Some now\<rparr>)"
| by_manager: "c = Apc_Worker (ap_org r) (ap_id r) w now \<Longrightarrow> ap_tenant r = tn \<Longrightarrow> undecided now r \<Longrightarrow>
    \<not> ap_requires_human r \<Longrightarrow> assert_worker_may_dispose tn s (ap_org r) r w = None \<Longrightarrow>
    approval_moves tn s c r
      (r\<lparr>ap_status := Ap_Approved, ap_worker := Some w, ap_user := None, ap_decided_at := Some now\<rparr>)"
| rejected: "c = Apc_Reject (ap_org r) (ap_id r) w u now \<Longrightarrow> ap_tenant r = tn \<Longrightarrow> undecided now r \<Longrightarrow>
    approval_moves tn s c r
      (r\<lparr>ap_status := Ap_Rejected, ap_worker := w', ap_user := u', ap_decided_at := Some now\<rparr>)"
| expired: "ap_status r = Ap_Pending \<Longrightarrow>
    approval_moves tn s c r (r\<lparr>ap_status := Ap_Expired, ap_decided_at := Some now\<rparr>)"
| consumed: "c = Apc_Consume k h now \<Longrightarrow> ap_status r = Ap_Approved \<Longrightarrow> ap_consumed_at r = None \<Longrightarrow>
    approval_moves tn s c r (r\<lparr>ap_consumed_at := Some now\<rparr>)"
| bound: "c = Apc_Bind (ap_org r) (ap_id r) h \<Longrightarrow>
    approval_moves tn s c r (r\<lparr>ap_arguments_hash := Some h\<rparr>)"

inductive_cases approval_movesE: "approval_moves tn s c r r'"

definition approvals_keyed :: "workforce \<Rightarrow> bool" where
  "approvals_keyed s \<longleftrightarrow> distinct (map ap_id (wf_approvals s))"

lemma get_approval_unique:
  assumes "approvals_keyed s" and "r \<in> set (wf_approvals s)" and "approval_at tn org i r"
  shows "get_approval tn s org i = Some r"
  unfolding get_approval_def
  by (rule select_one_unique [where key = ap_id])
     (use assms in \<open>auto simp: approvals_keyed_def approval_at_def\<close>)

lemma get_approval_SomeD:
  "get_approval tn s org i = Some r \<Longrightarrow> r \<in> set (wf_approvals s) \<and> approval_at tn org i r"
  unfolding get_approval_def by (rule select_one_SomeD)

abbreviation moved :: "ident \<Rightarrow> workforce \<Rightarrow> approval_command \<Rightarrow> workforce \<Rightarrow> bool" where
  "moved tn s c s' \<equiv> list_all2 (approval_moves tn s c) (wf_approvals s) (wf_approvals s')"

lemma moved_refl [simp]: "moved tn s c s"
  by (rule list.rel_refl) (rule approval_moves.stays)

lemma moved_expire [simp]: "moved tn s c (expire_stale_approvals tn s org now)"
  unfolding expire_stale_approvals_def
  by (simp, rule update_where_list_all2) (auto intro: approval_moves.intros)

lemma moved_human: "moved tn s (Apc_Human org i u now) (approval_step tn s (Apc_Human org i u now))"
proof -
  have "js_trim u \<noteq> [] \<Longrightarrow> moved tn s (Apc_Human org i u now)
      (fst (decide_approval_if_pending tn s org i Ap_Approved None (Some u) now))"
    unfolding decide_approval_if_pending_def
    by (simp add: split_beta Let_def, rule update_where_list_all2)
       (auto intro!: approval_moves.intros simp: approval_at_def)
  then show ?thesis
    by (auto simp: keep_on_error_def approve_by_human_def split: sum.splits prod.splits if_splits)
qed

lemma moved_worker:
  assumes k: "approvals_keyed s"
  shows "moved tn s (Apc_Worker org i w now) (approval_step tn s (Apc_Worker org i w now))"
proof -
  have "moved tn s (Apc_Worker org i w now)
      (fst (decide_approval_if_pending tn s org i Ap_Approved (Some w) None now))"
    if "require_pending tn s org i = Inr a" "\<not> ap_requires_human a"
      "assert_worker_may_dispose tn s org a w = None" for a
  proof -
    have g: "get_approval tn s org i = Some a"
      using that(1) by (auto simp: require_pending_def split: option.splits if_splits)
    have "r = a" if "r \<in> set (wf_approvals s)" "approval_at tn org i r" for r
      using get_approval_unique [OF k that] g by simp
    with that(2,3) show ?thesis
      unfolding decide_approval_if_pending_def
      by (simp add: split_beta Let_def, intro update_where_list_all2)
         (auto intro!: approval_moves.intros simp: approval_at_def)
  qed
  then show ?thesis
    by (auto simp: keep_on_error_def approve_by_worker_def
        split: sum.splits prod.splits if_splits option.splits)
qed

lemma moved_reject:
  "moved tn s (Apc_Reject org i w u now) (approval_step tn s (Apc_Reject org i w u now))"
proof -
  have "moved tn s (Apc_Reject org i w u now)
      (fst (decide_approval_if_pending tn s org i Ap_Rejected w' u' now))" for w' u'
    unfolding decide_approval_if_pending_def
    by (simp add: split_beta Let_def, rule update_where_list_all2)
       (auto intro!: approval_moves.intros simp: approval_at_def)
  moreover have "\<exists>w' u'. s' = fst (decide_approval_if_pending tn s org i Ap_Rejected w' u' now)"
    if "approval_reject tn s org i w u now = Inr s'" for s'
    using that
    by (auto simp: approval_reject_def Let_def split: sum.splits if_splits option.splits prod.splits)
       (metis fst_conv)+
  ultimately show ?thesis
    by (cases "approval_reject tn s org i w u now") (auto simp: keep_on_error_def)
qed

text \<open>Expiry and consumption hit different rows: a row that expires was pending.\<close>

lemma moved_consume_rows:
  assumes "s1 = expire_stale_approvals tn s org now"
  shows "moved tn s (Apc_Consume k h now) (fst (consume_approval_if_unused tn s1 org i now))"
proof -
  have "list_all2 (approval_moves tn s (Apc_Consume k h now)) t
      (fst (update_where (\<lambda>r. approval_at tn org i r \<and> ap_status r = Ap_Approved \<and> ap_consumed_at r = None)
        (\<lambda>r. r\<lparr>ap_consumed_at := Some now\<rparr>)
        (fst (update_where (\<lambda>r. ap_tenant r = tn \<and> ap_org r = org \<and> ap_status r = Ap_Pending
             \<and> (case ap_expires_at r of None \<Rightarrow> False | Some x \<Rightarrow> x \<le> now))
        (\<lambda>r. r\<lparr>ap_status := Ap_Expired, ap_decided_at := Some now\<rparr>) t))))" for t
    by (induction t) (auto simp: update_where_def intro: approval_moves.intros)
  then show ?thesis
    by (simp add: assms consume_approval_if_unused_def expire_stale_approvals_def split_beta Let_def)
qed

lemma consume_execution_approval_cases:
  "fst (consume_execution_approval tn s c h now) = expire_stale_approvals tn s (ec_org c) now \<or>
   fst (consume_execution_approval tn s c h now) =
     fst (consume_approval_if_unused tn (expire_stale_approvals tn s (ec_org c) now) (ec_org c)
       (ec_approval c) now)"
  by (simp add: consume_execution_approval_def is_execution_approval_cleared_def Let_def)

lemma moved_consume:
  "moved tn s (Apc_Consume c h now) (approval_step tn s (Apc_Consume c h now))"
  using consume_execution_approval_cases [of tn s c h now] moved_consume_rows [OF refl]
  by (metis approval_step.simps(7) moved_expire)

lemma moved_bind: "moved tn s (Apc_Bind org i h) (approval_step tn s (Apc_Bind org i h))"
  unfolding approval_step.simps set_approval_arguments_hash_def
  by (simp, rule update_where_list_all2) (auto intro!: approval_moves.intros simp: approval_at_def)

text \<open>Every command refines the machine of rows; a request may add one row.\<close>

definition fresh_row :: "ident \<Rightarrow> approval_command \<Rightarrow> org_approval \<Rightarrow> bool" where
  "fresh_row tn c r \<longleftrightarrow>
     (\<exists>q i now. let a = assess_execution_risk (ri_task_risk q) (ri_signals q);
                    route = route_approval a (ri_allow_worker q)
                in c = Apc_Request q i now \<and> route \<noteq> No_Approval
                   \<and> r = approval_of_request tn q a route i now)"

lemma approval_request_rows:
  assumes "approval_request tn s q i now = Inr (s', res)"
  shows "s' = s \<or> (\<exists>r. fresh_row tn (Apc_Request q i now) r \<and> ap_id r \<notin> ap_id ` set (wf_approvals s)
                   \<and> s' = s\<lparr>wf_approvals := wf_approvals s @ [r]\<rparr>)"
  using assms
  by (auto simp: approval_request_def insert_approval_def fresh_row_def Let_def list_ex_iff
        split: if_splits option.splits)

lemma approval_step_refines:
  assumes "approvals_keyed s"
  shows "\<exists>old new. wf_approvals (approval_step tn s c) = old @ new
           \<and> list_all2 (approval_moves tn s c) (wf_approvals s) old
           \<and> (new = [] \<or> (\<exists>r. new = [r] \<and> fresh_row tn c r \<and> ap_id r \<notin> ap_id ` set (wf_approvals s)))"
proof (cases "\<exists>q i now. c = Apc_Request q i now")
  case True
  then obtain q i now where c: "c = Apc_Request q i now" by blast
  show ?thesis
  proof (cases "approval_request tn s q i now")
    case (Inl e)
    then show ?thesis using c moved_refl [of tn s c] by (auto intro: exI [of _ "wf_approvals s"])
  next
    case (Inr p)
    obtain s' res where p: "p = (s', res)" by fastforce
    from approval_request_rows [OF Inr [unfolded p]] show ?thesis
    proof
      assume "s' = s"
      then show ?thesis using c Inr p moved_refl [of tn s c]
        by (auto intro: exI [of _ "wf_approvals s"])
    next
      assume "\<exists>r. fresh_row tn (Apc_Request q i now) r \<and> ap_id r \<notin> ap_id ` set (wf_approvals s)
                   \<and> s' = s\<lparr>wf_approvals := wf_approvals s @ [r]\<rparr>"
      then show ?thesis using c Inr p moved_refl [of tn s c] by fastforce
    qed
  qed
next
  case False
  have "moved tn s c (approval_step tn s c)"
    using False assms moved_human moved_worker moved_reject moved_consume moved_bind
    by (cases c) (simp_all add: is_approval_cleared_def is_execution_approval_cleared_def Let_def)
  then show ?thesis by blast
qed

lemma approval_moves_key:
  assumes "approval_moves tn s c r r'"
  shows "ap_id r' = ap_id r \<and> ap_org r' = ap_org r \<and> ap_tenant r' = ap_tenant r
     \<and> ap_subject r' = ap_subject r \<and> ap_subject_type r' = ap_subject_type r
     \<and> ap_requester r' = ap_requester r \<and> ap_risk r' = ap_risk r \<and> ap_mode r' = ap_mode r
     \<and> ap_requires_human r' = ap_requires_human r
     \<and> (ap_consumed_at r \<noteq> None \<longrightarrow> ap_consumed_at r' \<noteq> None)"
  using assms by (cases rule: approval_moves.cases) simp_all

lemma fresh_row_id: "fresh_row tn c r \<Longrightarrow>
   ap_tenant r = tn \<and> ap_status r = Ap_Pending \<and> ap_consumed_at r = None"
  by (auto simp: fresh_row_def Let_def approval_of_request_def)

text \<open>
  Every row after a command came from a row before it by a move, or is the fresh row of a request.
\<close>

lemma approval_step_row:
  assumes "approvals_keyed s" and "r' \<in> set (wf_approvals (approval_step tn s c))"
  shows "(\<exists>r \<in> set (wf_approvals s). approval_moves tn s c r r') \<or> fresh_row tn c r'"
proof -
  obtain old new where "wf_approvals (approval_step tn s c) = old @ new"
    and "list_all2 (approval_moves tn s c) (wf_approvals s) old"
    and "new = [] \<or> (\<exists>r. new = [r] \<and> fresh_row tn c r \<and> ap_id r \<notin> ap_id ` set (wf_approvals s))"
    using approval_step_refines [OF assms(1), of tn c] by blast
  with assms(2) show ?thesis by (auto dest: list_all2_set2D)
qed

lemma approval_step_row_kept:
  assumes "approvals_keyed s" and "r \<in> set (wf_approvals s)"
  shows "\<exists>r' \<in> set (wf_approvals (approval_step tn s c)). approval_moves tn s c r r'"
proof -
  obtain old new where "wf_approvals (approval_step tn s c) = old @ new"
    and "list_all2 (approval_moves tn s c) (wf_approvals s) old"
    using approval_step_refines [OF assms(1), of tn c] by blast
  with assms(2) show ?thesis by (auto dest: list_all2_set1D)
qed

lemma approval_step_keyed:
  assumes "approvals_keyed s"
  shows "approvals_keyed (approval_step tn s c)"
proof -
  obtain old new where w: "wf_approvals (approval_step tn s c) = old @ new"
    and l: "list_all2 (approval_moves tn s c) (wf_approvals s) old"
    and n: "new = [] \<or> (\<exists>r. new = [r] \<and> fresh_row tn c r \<and> ap_id r \<notin> ap_id ` set (wf_approvals s))"
    using approval_step_refines [OF assms, of tn c] by blast
  have "map ap_id old = map ap_id (wf_approvals s)"
    using l by (rule list_all2_map_eq) (simp add: approval_moves_key)
  then have d: "distinct (map ap_id old)" and e: "set (map ap_id old) = ap_id ` set (wf_approvals s)"
    using assms unfolding approvals_keyed_def by (metis, metis set_map)
  from n show ?thesis
  proof
    assume "\<exists>r. new = [r] \<and> fresh_row tn c r \<and> ap_id r \<notin> ap_id ` set (wf_approvals s)"
    then obtain r where "new = [r]" and "ap_id r \<notin> set (map ap_id old)" using e by metis
    with d show ?thesis unfolding approvals_keyed_def w by simp
  qed (use d w in \<open>simp add: approvals_keyed_def\<close>)
qed

subsection \<open>Invariants of approvals\<close>

definition approval_ok :: "org_approval \<Rightarrow> bool" where
  "approval_ok r \<longleftrightarrow>
     ap_risk r \<noteq> Risk_Low \<and> (ap_requires_human r \<longleftrightarrow> ap_risk r = Risk_High)
     \<and> (ap_requires_human r \<longrightarrow> ap_mode r = Human_Only)
     \<and> (ap_consumed_at r \<noteq> None \<longrightarrow> ap_status r = Ap_Approved)"

definition in_time :: "org_approval \<Rightarrow> millis \<Rightarrow> bool" where
  "in_time r now \<longleftrightarrow> (\<forall>x. ap_expires_at r = Some x \<longrightarrow> now < x)"

definition entitled :: "approval_command list \<Rightarrow> org_approval \<Rightarrow> bool" where
  "entitled cs r \<longleftrightarrow>
     (\<exists>u now. ap_user r = Some u \<and> js_trim u \<noteq> [] \<and> ap_decided_at r = Some now \<and> in_time r now
        \<and> Apc_Human (ap_org r) (ap_id r) u now \<in> set cs) \<or>
     (\<exists>w now. ap_worker r = Some w \<and> w \<noteq> ap_requester r \<and> ap_risk r = Risk_Medium
        \<and> ap_mode r = Org_Or_Human \<and> ap_decided_at r = Some now \<and> in_time r now
        \<and> Apc_Worker (ap_org r) (ap_id r) w now \<in> set cs)"

definition approvals_ok :: "approval_command list \<Rightarrow> workforce \<Rightarrow> bool" where
  "approvals_ok cs s \<longleftrightarrow> approvals_keyed s \<and>
     (\<forall>r \<in> set (wf_approvals s). approval_ok r \<and> (ap_status r = Ap_Approved \<longrightarrow> entitled cs r))"

lemma fresh_row_ok: "fresh_row tn c r \<Longrightarrow> approval_ok r \<and> ap_status r \<noteq> Ap_Approved"
  by (auto simp: fresh_row_def Let_def approval_of_request_def approval_ok_def route_approval_def
      assess_requires_human split: if_splits)

lemma undecided_in_time: "undecided now r \<Longrightarrow> ap_status r = Ap_Pending \<and> in_time r now"
  by (auto simp: undecided_def in_time_def split: option.splits)

lemma assert_worker_may_dispose_None:
  "assert_worker_may_dispose tn s org a w = None \<longleftrightarrow>
     ap_mode a = Org_Or_Human \<and> w \<noteq> ap_requester a \<and>
     (\<exists>d. get_worker tn s org w = Some d \<and> dw_status d = Emp_Active) \<and>
     ap_requester a \<in> set (list_direct_reports tn s org w)"
  by (auto simp: assert_worker_may_dispose_def split: option.splits)

lemma risk_medium: "approval_ok r \<Longrightarrow> \<not> ap_requires_human r \<Longrightarrow> ap_risk r = Risk_Medium"
  by (cases "ap_risk r") (simp_all add: approval_ok_def)

lemma entitled_mono: "entitled cs r \<Longrightarrow> entitled (cs @ ds) r"
  unfolding entitled_def by (metis Un_iff set_append)

lemma moves_ok:
  assumes m: "approval_moves tn s c r r'" and ok: "approval_ok r"
    and e: "ap_status r = Ap_Approved \<longrightarrow> entitled cs r"
  shows "approval_ok r' \<and> (ap_status r' = Ap_Approved \<longrightarrow> entitled (cs @ [c]) r')"
  using m
proof (cases rule: approval_moves.cases)
  case stays
  with ok e show ?thesis by (simp add: entitled_mono)
next
  case (by_human u now)
  have "in_time r now" using by_human undecided_in_time by blast
  with by_human ok show ?thesis
    by (simp add: approval_ok_def entitled_def) (auto simp: in_time_def)
next
  case (by_manager w now)
  have "in_time r now" using by_manager undecided_in_time by blast
  moreover have "ap_risk r = Risk_Medium" using by_manager ok by (simp add: risk_medium)
  ultimately show ?thesis using by_manager ok assert_worker_may_dispose_None [of tn s "ap_org r" r w]
    by (simp add: approval_ok_def entitled_def) (auto simp: in_time_def)
next
  case (rejected w u now w' u')
  with ok undecided_in_time [of now r] show ?thesis by (auto simp: approval_ok_def)
next
  case (expired now)
  with ok show ?thesis by (auto simp: approval_ok_def)
next
  case (consumed k h now)
  then have "entitled (cs @ [c]) r" using e entitled_mono by blast
  with consumed ok show ?thesis by (simp add: approval_ok_def entitled_def in_time_def)
next
  case (bound h)
  have "ap_status r = Ap_Approved \<longrightarrow> entitled (cs @ [c]) r" using e entitled_mono by blast
  with bound ok show ?thesis by (simp add: approval_ok_def entitled_def in_time_def)
qed

lemma approval_step_ok:
  assumes "approvals_ok cs s"
  shows "approvals_ok (cs @ [c]) (approval_step tn s c)"
proof -
  have k: "approvals_keyed s" using assms by (simp add: approvals_ok_def)
  have "approval_ok r' \<and> (ap_status r' = Ap_Approved \<longrightarrow> entitled (cs @ [c]) r')"
    if "r' \<in> set (wf_approvals (approval_step tn s c))" for r'
    using approval_step_row [OF k that]
  proof
    assume "\<exists>r \<in> set (wf_approvals s). approval_moves tn s c r r'"
    then obtain r where "r \<in> set (wf_approvals s)" and m: "approval_moves tn s c r r'" by blast
    with assms have "approval_ok r" "ap_status r = Ap_Approved \<longrightarrow> entitled cs r"
      by (simp_all add: approvals_ok_def)
    with m show ?thesis by (rule moves_ok)
  qed (simp add: fresh_row_ok)
  with approval_step_keyed [OF k] show ?thesis by (simp add: approvals_ok_def)
qed

lemma approval_run_ok:
  "wf_approvals s = [] \<Longrightarrow> approvals_ok cs (foldl (approval_step tn) s cs)"
proof (induction cs rule: rev_induct)
  case Nil
  then show ?case by (simp add: approvals_ok_def approvals_keyed_def)
next
  case (snoc c cs)
  then show ?case using approval_step_ok [of cs "foldl (approval_step tn) s cs" c tn] by simp
qed

subsection \<open>Consumption\<close>

text \<open>Consumption as an instance of \<open>guarded_one_shot\<close>: the key is the approval it uses up.\<close>

definition approval_attempt ::
  "ident \<Rightarrow> approval_command \<Rightarrow> workforce \<Rightarrow> workforce \<times> bool" where
  "approval_attempt tn c s =
     (approval_step tn s c,
      case c of Apc_Consume k h now \<Rightarrow> snd (consume_execution_approval tn s k h now) | _ \<Rightarrow> False)"

fun consumed_key :: "approval_command \<Rightarrow> (ident \<times> ident) option" where
  "consumed_key (Apc_Consume k h now) = Some (ec_org k, ec_approval k)"
| "consumed_key _ = None"

definition unconsumed :: "ident \<Rightarrow> workforce \<Rightarrow> (ident \<times> ident) option \<Rightarrow> bool" where
  "unconsumed tn s k \<longleftrightarrow>
     \<not> (\<exists>r \<in> set (wf_approvals s). ap_tenant r = tn \<and> k = Some (ap_org r, ap_id r)
          \<and> ap_consumed_at r \<noteq> None)"

lemma get_approval_expire:
  "get_approval tn (expire_stale_approvals tn s org now) org i =
     map_option (\<lambda>r. if ap_status r = Ap_Pending
                        \<and> (case ap_expires_at r of None \<Rightarrow> False | Some x \<Rightarrow> x \<le> now)
                     then r\<lparr>ap_status := Ap_Expired, ap_decided_at := Some now\<rparr> else r)
       (get_approval tn s org i)"
proof -
  have "get_approval tn (expire_stale_approvals tn s org now) org i =
     map_option (\<lambda>r. if ap_tenant r = tn \<and> ap_org r = org \<and> ap_status r = Ap_Pending
                        \<and> (case ap_expires_at r of None \<Rightarrow> False | Some x \<Rightarrow> x \<le> now)
                     then r\<lparr>ap_status := Ap_Expired, ap_decided_at := Some now\<rparr> else r)
       (get_approval tn s org i)"
    unfolding get_approval_def expire_stale_approvals_def
    by (simp, subst select_one_update_where) (simp_all add: approval_at_def)
  also have "\<dots> = map_option (\<lambda>r. if ap_status r = Ap_Pending
                        \<and> (case ap_expires_at r of None \<Rightarrow> False | Some x \<Rightarrow> x \<le> now)
                     then r\<lparr>ap_status := Ap_Expired, ap_decided_at := Some now\<rparr> else r)
       (get_approval tn s org i)"
  proof (cases "get_approval tn s org i")
    case (Some a)
    with get_approval_SomeD [OF Some] show ?thesis by (simp add: approval_at_def)
  qed simp
  finally show ?thesis .
qed

text \<open>What a consumption decides: everything is matched before anything is used up.\<close>

definition usable :: "ident \<Rightarrow> workforce \<Rightarrow> execution_check \<Rightarrow> string option \<Rightarrow> bool" where
  "usable tn s c h \<longleftrightarrow>
     (\<exists>a. get_approval tn s (ec_org c) (ec_approval c) = Some a \<and> approval_covers a c
        \<and> (ap_arguments_hash a = None \<or> ap_arguments_hash a = h) \<and> ap_consumed_at a = None)"

lemma expire_keyed: "approvals_keyed (expire_stale_approvals tn s org now) \<longleftrightarrow> approvals_keyed s"
  unfolding approvals_keyed_def expire_stale_approvals_def
  by (simp add: update_where_fst del: map_map, subst map_if_column) simp_all

lemma consume_hits:
  assumes "approvals_keyed s" and "get_approval tn s org i = Some a"
  shows "snd (consume_approval_if_unused tn s org i now)
         \<longleftrightarrow> ap_status a = Ap_Approved \<and> ap_consumed_at a = None"
proof -
  have a: "a \<in> set (wf_approvals s)" "approval_at tn org i a"
    using get_approval_SomeD [OF assms(2)] by simp_all
  have "r = a" if "r \<in> set (wf_approvals s)" "approval_at tn org i r" for r
    using get_approval_unique [OF assms(1) that] assms(2) by simp
  then have "(\<exists>r \<in> set (wf_approvals s). approval_at tn org i r \<and> ap_status r = Ap_Approved
      \<and> ap_consumed_at r = None) \<longleftrightarrow> ap_status a = Ap_Approved \<and> ap_consumed_at a = None"
    using a by blast
  then show ?thesis unfolding consume_approval_if_unused_def split_beta Let_def snd_conv update_where_hits .
qed

lemma consume_decides:
  assumes k: "approvals_keyed s"
  shows "snd (consume_execution_approval tn s c h now) \<longleftrightarrow> usable tn s c h"
    and "\<not> snd (consume_execution_approval tn s c h now) \<Longrightarrow>
         fst (consume_execution_approval tn s c h now) = expire_stale_approvals tn s (ec_org c) now"
proof -
  let ?s1 = "expire_stale_approvals tn s (ec_org c) now"
  have k1: "approvals_keyed ?s1" using k by (simp add: expire_keyed)
  have miss: "\<not> snd (consume_approval_if_unused tn ?s1 (ec_org c) (ec_approval c) now) \<Longrightarrow>
      fst (consume_approval_if_unused tn ?s1 (ec_org c) (ec_approval c) now) = ?s1"
    by (simp add: consume_approval_if_unused_def split_beta Let_def update_where_miss_id)
  show "snd (consume_execution_approval tn s c h now) \<longleftrightarrow> usable tn s c h"
  proof (cases "get_approval tn s (ec_org c) (ec_approval c)")
    case None
    then show ?thesis
      by (simp add: consume_execution_approval_def is_execution_approval_cleared_def Let_def
          get_approval_expire usable_def)
  next
    case (Some a)
    define b where "b = (if ap_status a = Ap_Pending
        \<and> (case ap_expires_at a of None \<Rightarrow> False | Some x \<Rightarrow> x \<le> now)
      then a\<lparr>ap_status := Ap_Expired, ap_decided_at := Some now\<rparr> else a)"
    have g: "get_approval tn ?s1 (ec_org c) (ec_approval c) = Some b"
      by (simp add: get_approval_expire Some b_def)
    have "approval_covers b c \<longleftrightarrow> approval_covers a c" "ap_arguments_hash b = ap_arguments_hash a"
      "ap_consumed_at b = ap_consumed_at a"
      by (auto simp: b_def approval_covers_def)
    moreover have "approval_covers b c \<Longrightarrow> ap_status b = Ap_Approved"
      by (simp add: approval_covers_def)
    ultimately show ?thesis
      using consume_hits [OF k1 g, of now] Some g
      by (auto simp: consume_execution_approval_def is_execution_approval_cleared_def Let_def
          usable_def get_approval_arguments_hash_def)
  qed
  show "fst (consume_execution_approval tn s c h now) = ?s1"
    if "\<not> snd (consume_execution_approval tn s c h now)"
    using that miss
    by (auto simp: consume_execution_approval_def is_execution_approval_cleared_def Let_def
        split: if_splits)
qed

lemma usable_unconsumed:
  assumes k: "approvals_keyed s" and u: "usable tn s c h"
  shows "unconsumed tn s (Some (ec_org c, ec_approval c))"
proof -
  obtain a where g: "get_approval tn s (ec_org c) (ec_approval c) = Some a"
    and n: "ap_consumed_at a = None" using u by (auto simp: usable_def)
  have "r = a" if "r \<in> set (wf_approvals s)" "ap_tenant r = tn" "ap_org r = ec_org c"
    "ap_id r = ec_approval c" for r
    using get_approval_unique [OF k that(1), of tn "ec_org c" "ec_approval c"] that g
    by (simp add: approval_at_def)
  with n show ?thesis by (auto simp: unconsumed_def)
qed

lemma approval_consume_takes:
  assumes "snd (consume_execution_approval tn s c h now)"
  shows "\<not> unconsumed tn (fst (consume_execution_approval tn s c h now)) (Some (ec_org c, ec_approval c))"
proof -
  let ?s1 = "expire_stale_approvals tn s (ec_org c) now"
  have e: "consume_execution_approval tn s c h now
      = consume_approval_if_unused tn ?s1 (ec_org c) (ec_approval c) now"
    using assms by (auto simp: consume_execution_approval_def is_execution_approval_cleared_def Let_def
        split: if_splits)
  with assms have "\<exists>r \<in> set (wf_approvals ?s1). approval_at tn (ec_org c) (ec_approval c) r
      \<and> ap_status r = Ap_Approved \<and> ap_consumed_at r = None"
    by (simp add: consume_approval_if_unused_def split_beta Let_def)
  then have "\<exists>r \<in> set (wf_approvals (fst (consume_approval_if_unused tn ?s1 (ec_org c) (ec_approval c) now))).
      ap_tenant r = tn \<and> ec_org c = ap_org r \<and> ec_approval c = ap_id r \<and> ap_consumed_at r \<noteq> None"
    by (simp add: consume_approval_if_unused_def split_beta Let_def) (auto simp: approval_at_def)
  then show ?thesis by (simp add: e unconsumed_def)
qed

lemma unconsumed_step:
  assumes k: "approvals_keyed s" and u: "\<not> unconsumed tn s key"
  shows "\<not> unconsumed tn (approval_step tn s c) key"
proof -
  obtain r where r: "r \<in> set (wf_approvals s)" "ap_tenant r = tn" "key = Some (ap_org r, ap_id r)"
    "ap_consumed_at r \<noteq> None" using u by (auto simp: unconsumed_def)
  obtain r' where "r' \<in> set (wf_approvals (approval_step tn s c))" "approval_moves tn s c r r'"
    using approval_step_row_kept [OF k r(1)] by blast
  with r approval_moves_key [of tn s c r r'] show ?thesis unfolding unconsumed_def by force
qed

interpretation approval_shot:
  guarded_one_shot "approval_attempt tn" consumed_key "unconsumed tn" "\<lambda>_ _. False" approvals_keyed
  for tn
proof
  fix s :: workforce and a k
  assume g: "approvals_keyed s"
  show "approvals_keyed (fst (approval_attempt tn a s))"
    using g by (simp add: approval_attempt_def approval_step_keyed)
  show "unconsumed tn s (consumed_key a)" if "snd (approval_attempt tn a s)"
    using that g by (cases a) (auto simp: approval_attempt_def consume_decides(1) intro: usable_unconsumed)
  show "\<not> unconsumed tn (fst (approval_attempt tn a s)) (consumed_key a)"
    if "snd (approval_attempt tn a s)"
    using that by (cases a) (auto simp: approval_attempt_def dest: approval_consume_takes)
  show "\<not> unconsumed tn (fst (approval_attempt tn a s)) k" if "\<not> unconsumed tn s k"
    using unconsumed_step [OF g that] by (simp add: approval_attempt_def)
qed

subsection \<open>Properties\<close>

text \<open>
  Whatever the order of requests, answers, expiries, uses and changes of the organisation, an
  approval is approved only because a person with a non-blank name approved that very approval
  before it expired, or because a worker other than the requester did, for a medium risk and with
  the policy that allows it. A high risk is never approved by a worker, and a low risk has no
  approval at all.
\<close>

theorem approvals_only_by_entitled:
  assumes "wf_approvals s0 = []" and "r \<in> set (wf_approvals (foldl (approval_step tn) s0 cs))"
  shows "ap_risk r \<noteq> Risk_Low \<and>
     (ap_consumed_at r \<noteq> None \<longrightarrow> ap_status r = Ap_Approved) \<and>
     (ap_status r = Ap_Approved \<longrightarrow>
        (\<exists>now. ap_decided_at r = Some now \<and> (\<forall>x. ap_expires_at r = Some x \<longrightarrow> now < x) \<and>
           ((\<exists>u. js_trim u \<noteq> [] \<and> Apc_Human (ap_org r) (ap_id r) u now \<in> set cs) \<or>
            (\<exists>w. w \<noteq> ap_requester r \<and> ap_risk r = Risk_Medium \<and> ap_mode r = Org_Or_Human
               \<and> Apc_Worker (ap_org r) (ap_id r) w now \<in> set cs))))"
proof -
  have ok: "approval_ok r" "ap_status r = Ap_Approved \<longrightarrow> entitled cs r"
    using approval_run_ok [OF assms(1), of cs tn] assms(2) by (simp_all add: approvals_ok_def)
  from ok(1) have "ap_risk r \<noteq> Risk_Low" "ap_consumed_at r \<noteq> None \<longrightarrow> ap_status r = Ap_Approved"
    by (simp_all add: approval_ok_def)
  with ok(2) show ?thesis unfolding entitled_def in_time_def by blast
qed

definition demo_worker :: "ident \<Rightarrow> digital_worker" where
  "demo_worker i = \<lparr> dw_tenant = ''t'', dw_org = ''o'', dw_id = i, dw_persona = i, dw_position = ''p'',
                     dw_display_name = i, dw_status = Emp_Active, dw_created_at = 0, dw_updated_at = 0 \<rparr>"

definition demo_workforce :: workforce where
  "demo_workforce =
     \<lparr> wf_workers = [demo_worker ''boss'', demo_worker ''ic''],
       wf_edges = [\<lparr> re_id = ''e'', re_tenant = ''t'', re_org = ''o'', re_manager = Some ''boss'', re_report = ''ic'',
                     re_type = Edge_Solid, re_created_at = 0 \<rparr>],
       wf_tasks = [], wf_approvals = [] \<rparr>"

definition demo_request :: "risk_level \<Rightarrow> approval_request" where
  "demo_request k =
     \<lparr> ri_org = ''o'', ri_subject_type = Task_Execution, ri_subject = ''task'', ri_requester = ''ic'',
       ri_task_risk = k, ri_signals = no_signals, ri_allow_worker = True, ri_correlation = None,
       ri_ttl = Some 100 \<rparr>"

lemma demo_approved_by_manager:
  "map ap_status (wf_approvals (foldl (approval_step ''t'') demo_workforce
     [Apc_Request (demo_request Risk_Medium) ''a'' 0, Apc_Worker ''o'' ''a'' ''boss'' 5])) = [Ap_Approved]"
  by code_simp

lemma approvals_only_by_entitled_witness:
  "\<exists>r \<in> set (wf_approvals (foldl (approval_step ''t'') demo_workforce
        [Apc_Request (demo_request Risk_Medium) ''a'' 0, Apc_Worker ''o'' ''a'' ''boss'' 5])).
     ap_status r = Ap_Approved \<and> ap_risk r \<noteq> Risk_Low"
proof -
  let ?s = "foldl (approval_step ''t'') demo_workforce
        [Apc_Request (demo_request Risk_Medium) ''a'' 0, Apc_Worker ''o'' ''a'' ''boss'' 5]"
  obtain r where r: "wf_approvals ?s = [r]" "ap_status r = Ap_Approved"
    using demo_approved_by_manager by (auto simp: map_eq_Cons_conv)
  have m: "r \<in> set (wf_approvals ?s)" by (simp only: r(1) list.set insert_iff simp_thms)
  have "wf_approvals demo_workforce = []" by (simp add: demo_workforce_def)
  from approvals_only_by_entitled [OF this m] m r(2) show ?thesis by blast
qed

text \<open>
  One approval lets at most one execution pass: in any sequence of operations the uses of an
  approval succeed at most once, and never when it was used before.
\<close>

theorem approval_used_at_most_once:
  assumes "distinct (map ap_id (wf_approvals s))"
  shows "wins consumed_key (Some (org, i)) cs (snd (run_attempts (approval_attempt tn) cs s)) \<le> 1"
  using approval_shot.guarded_at_most_one_win [of s cs "Some (org, i)" tn] assms
  by (simp add: approvals_keyed_def split: if_splits)

lemma approval_used_at_most_once_witness:
  "wins consumed_key (Some (''o'', ''a'')) [Apc_Human ''o'' ''a'' ''u'' 1]
     (snd (run_attempts (approval_attempt ''t'') [Apc_Human ''o'' ''a'' ''u'' 1] demo_workforce)) \<le> 1"
  by (rule approval_used_at_most_once) (simp add: demo_workforce_def)

text \<open>
  An execution uses up an approval exactly when it is approved and unused, made out for that
  task and that worker, for a risk of at least the present one, and with the same digest of the
  arguments where one was recorded; a request that does not match leaves the approval unused.
\<close>

theorem consume_matches_before_it_uses:
  assumes "distinct (map ap_id (wf_approvals s))"
    and "consume_execution_approval tn s c h now = (s', ok)"
  shows "(ok \<longleftrightarrow> (\<exists>a. get_approval tn s (ec_org c) (ec_approval c) = Some a \<and>
            ap_status a = Ap_Approved \<and> ap_consumed_at a = None \<and>
            ap_subject_type a = ec_subject_type c \<and> ap_subject a = ec_subject c \<and>
            ap_requester a = ec_requester c \<and> ec_risk c \<le> ap_risk a \<and>
            (ap_arguments_hash a = None \<or> ap_arguments_hash a = h)))
         \<and> (\<not> ok \<longrightarrow> s' = expire_stale_approvals tn s (ec_org c) now)"
proof -
  have "approvals_keyed s" using assms(1) by (simp add: approvals_keyed_def)
  from consume_decides [OF this, of tn c h now] assms(2) show ?thesis
    by (auto simp: usable_def approval_covers_def less_eq_risk_level_def)
qed

definition demo_check :: "risk_level \<Rightarrow> execution_check" where
  "demo_check k = \<lparr> ec_org = ''o'', ec_approval = ''a'', ec_subject_type = Task_Execution,
                    ec_subject = ''task'', ec_requester = ''ic'', ec_risk = k \<rparr>"

lemma consume_matches_before_it_uses_witness:
  "\<not> snd (consume_execution_approval ''t'' demo_workforce (demo_check Risk_High) None 7)
   \<and> fst (consume_execution_approval ''t'' demo_workforce (demo_check Risk_High) None 7)
     = expire_stale_approvals ''t'' demo_workforce ''o'' 7"
proof -
  obtain s' ok where c:
    "consume_execution_approval ''t'' demo_workforce (demo_check Risk_High) None 7 = (s', ok)" by fastforce
  have "distinct (map ap_id (wf_approvals demo_workforce))" by (simp add: demo_workforce_def)
  from consume_matches_before_it_uses [OF this c] c show ?thesis
    by (auto simp: demo_workforce_def get_approval_def demo_check_def)
qed

text \<open>
  The risk of an execution is never below the risk of its task, of its tool, or of what the
  caller declares. A high-risk tool, an unregistered one and every declared outbound, sensitive,
  funds or irreversible action make it high, and then only a person may approve; only a low risk
  goes without approval.
\<close>

theorem risk_only_raised:
  fixes adapter :: "(bool \<times> ('a \<Rightarrow> bool) option) option"
  assumes "a = assess_execution_risk task_risk (derive_risk_signals adapter args (Some d))"
    and "tool_high \<longleftrightarrow> (\<forall>high f. adapter = Some (high, f) \<longrightarrow> high \<or> (\<exists>p. f = Some p \<and> p args))"
  shows "task_risk \<le> ra_risk a \<and> or_default (rs_tool_risk d) Risk_Low \<le> ra_risk a \<and>
     (rs_confirm d \<longrightarrow> Risk_Medium \<le> ra_risk a) \<and>
     (tool_high \<or> rs_outbound d \<or> rs_sensitive d \<or> rs_funds d \<or> rs_irreversible d \<longrightarrow>
        ra_risk a = Risk_High) \<and>
     (ra_risk a = Risk_High \<longrightarrow> route_approval a w = Route_Human_Only) \<and>
     (route_approval a w = No_Approval \<longleftrightarrow> ra_risk a = Risk_Low)"
proof -
  define g where "g = derive_risk_signals adapter args (Some d)"
  have th: "rs_tool_risk g = Some (if tool_high then Risk_High else or_default (rs_tool_risk d) Risk_Low)"
    using assms(2) by (auto simp: g_def derive_risk_signals_def Let_def split: option.splits prod.splits)
  have g: "rs_outbound g = rs_outbound d" "rs_sensitive g = rs_sensitive d" "rs_funds g = rs_funds d"
    "rs_irreversible g = rs_irreversible d" "rs_confirm d \<Longrightarrow> rs_confirm g"
    by (simp_all add: g_def derive_risk_signals_def Let_def)
  have a: "a = assess_execution_risk task_risk g" using assms(1) by (simp add: g_def)
  have le: "x \<le> ra_risk a" if "x \<in> {task_risk, or_default (rs_tool_risk g) bot,
      if rs_confirm g then Risk_Medium else bot,
      if rs_outbound g \<or> rs_sensitive g \<or> rs_funds g \<or> rs_irreversible g then top else bot}" for x
    unfolding a assess_risk_floor risk_floor_def by (rule Max_ge) (simp, rule that)
  have "or_default (rs_tool_risk d) Risk_Low \<le> ra_risk a"
    using le [of "or_default (rs_tool_risk g) bot"] th by (auto split: if_splits)
  moreover have "Risk_Medium \<le> ra_risk a" if "rs_confirm d"
    using le [of Risk_Medium] g(5) [OF that] by simp
  moreover have "ra_risk a = Risk_High"
    if "tool_high \<or> rs_outbound d \<or> rs_sensitive d \<or> rs_funds d \<or> rs_irreversible d"
    using that le [of Risk_High] th g(1-4) by (auto simp: top_risk_level_def split: if_splits)
  moreover have "ra_risk a = Risk_High \<Longrightarrow> route_approval a w = Route_Human_Only"
    using assess_requires_human [of task_risk g] by (simp add: a route_approval_def)
  moreover have "route_approval a w = No_Approval \<longleftrightarrow> ra_risk a = Risk_Low" by (simp add: a)
  ultimately show ?thesis using le [of task_risk] by blast
qed

lemma risk_only_raised_witness:
  "ra_risk (assess_execution_risk Risk_Low
     (derive_risk_signals (None :: (bool \<times> (nat \<Rightarrow> bool) option) option) 0 (Some no_signals))) = Risk_High"
  using risk_only_raised [where adapter = "None :: (bool \<times> (nat \<Rightarrow> bool) option) option" and args = 0
      and tool_high = True and w = True and task_risk = Risk_Low and d = no_signals, OF refl]
  by simp

end
