(* ===== verification/Capability_Learning.thy ===== *)
theory Capability_Learning
  imports Workforce_Store
begin

text \<open>
  Capabilities of digital workers: the taxonomy and the gap detector of the kernel
  (\<^verbatim>\<open>packages/kernel/src/domain/capability\<close>: \<^verbatim>\<open>capability-taxonomy.ts\<close>, \<^verbatim>\<open>gap-detector.ts\<close>), the ledger of
  learning requests (\<^verbatim>\<open>src/storage/learning-request-store.ts\<close>,
  \<^verbatim>\<open>src/workforce/learning-request-service.ts\<close>), the search for a capable colleague
  (\<^verbatim>\<open>src/workforce/capability-assignment-service.ts\<close>) and the disposition of a gap
  (\<^verbatim>\<open>src/workforce/task-disposition-service.ts\<close>). The ledger has a unique index on the active
  requests of a persona and capability; the wording of the evidence is left out, its task is kept.
\<close>

subsection \<open>Taxonomy\<close>

definition known_capabilities :: "string list" where
  "known_capabilities =
     [''analysis'', ''compliance'', ''data_extraction'', ''escalation'', ''publishing'', ''qa'',
      ''reporting'', ''requirements'', ''research'', ''review'', ''support'', ''triage'', ''writing'']"

text \<open>\<^verbatim>\<open>replace(/\s+/g, '_')\<close>: a run of blanks becomes one underscore.\<close>

fun underscore_blanks :: "bool \<Rightarrow> string \<Rightarrow> string" where
  "underscore_blanks b [] = []"
| "underscore_blanks b (c # s) =
     (if js_space c then (if b then underscore_blanks True s else CHR ''_'' # underscore_blanks True s)
      else c # underscore_blanks False s)"

definition normalize_capability :: "string \<Rightarrow> string" where
  "normalize_capability raw = underscore_blanks False (js_lower (js_trim raw))"

definition normalize_capabilities :: "string list \<Rightarrow> string list" where
  "normalize_capabilities raw = sort (remdups (filter (\<lambda>n. n \<noteq> []) (map normalize_capability raw)))"

definition is_known_capability :: "string \<Rightarrow> bool" where
  "is_known_capability raw = List.member known_capabilities (normalize_capability raw)"

subsection \<open>The gap detector\<close>

record capability_gap =
  cg_capability :: string
  cg_task :: "ident option"
  cg_priority :: risk_level

text \<open>The priorities low, medium and high are those of \<open>risk_level\<close>; absent is medium.\<close>

definition detect_capability_gaps ::
  "string list \<Rightarrow> string list \<Rightarrow> risk_level option \<Rightarrow> ident option \<Rightarrow> capability_gap list" where
  "detect_capability_gaps required learned priority task =
     (let known = normalize_capabilities learned in
      map (\<lambda>c. \<lparr> cg_capability = c, cg_task = task, cg_priority = or_default priority Risk_Medium \<rparr>)
        (filter (\<lambda>c. \<not> List.member known c) (normalize_capabilities required)))"

subsection \<open>The ledger of learning requests\<close>

datatype learning_status = Learn_Pending | Learn_Learning | Learn_Passed | Learn_Failed | Learn_Cancelled

definition active_learning :: "learning_status \<Rightarrow> bool" where
  "active_learning st = List.member [Learn_Pending, Learn_Learning] st"

record learning_request =
  lr_id :: ident
  lr_tenant :: ident
  lr_org :: ident
  lr_persona :: ident
  lr_capability :: string
  lr_unknown :: bool
  lr_evidence :: "ident option"
  lr_priority :: risk_level
  lr_triggered_by :: "ident option"
  lr_status :: learning_status
  lr_created_at :: millis
  lr_updated_at :: millis

record capability_entry =
  ce_tenant :: ident
  ce_persona :: ident
  ce_capability :: string

text \<open>The counter numbers the calls of \<^verbatim>\<open>idgen\<close>, which is an argument of the operations.\<close>

record learning_state =
  ls_requests :: "learning_request list"
  ls_index :: "capability_entry list"
  ls_ids :: nat

datatype learning_error = Learning_Id_Taken | Learning_Active_Exists

definition active_for :: "ident \<Rightarrow> ident \<Rightarrow> string \<Rightarrow> learning_request \<Rightarrow> bool" where
  "active_for tn p c r \<longleftrightarrow>
     lr_tenant r = tn \<and> lr_persona r = p \<and> lr_capability r = c \<and> active_learning (lr_status r)"

definition insert_request ::
  "learning_request \<Rightarrow> learning_request list \<Rightarrow> learning_error + learning_request list" where
  "insert_request r t =
     (if list_ex (\<lambda>q. lr_id q = lr_id r) t then Inl Learning_Id_Taken
      else if active_learning (lr_status r)
              \<and> list_ex (active_for (lr_tenant r) (lr_persona r) (lr_capability r)) t
      then Inl Learning_Active_Exists
      else Inr (t @ [r]))"

definition find_active ::
  "ident \<Rightarrow> learning_request list \<Rightarrow> ident \<Rightarrow> string \<Rightarrow> learning_request option" where
  "find_active tn t p c =
     (case sort_key (\<lambda>r. (lr_created_at r, lr_id r)) (filter (active_for tn p c) t) of
        [] \<Rightarrow> None | r # _ \<Rightarrow> Some r)"

definition list_passed_capabilities ::
  "ident \<Rightarrow> learning_request list \<Rightarrow> ident \<Rightarrow> string list" where
  "list_passed_capabilities tn t p =
     sort (remdups (map lr_capability
       (filter (\<lambda>r. lr_tenant r = tn \<and> lr_persona r = p \<and> lr_status r = Learn_Passed) t)))"

definition list_indexed_capabilities ::
  "ident \<Rightarrow> capability_entry list \<Rightarrow> ident \<Rightarrow> string list" where
  "list_indexed_capabilities tn t p =
     sort (map ce_capability (filter (\<lambda>r. ce_tenant r = tn \<and> ce_persona r = p) t))"

text \<open>
  \<^verbatim>\<open>transitionStatus\<close>; moving a row back to an active status may hit the unique index, which makes
  the statement fail and leaves the table.
\<close>

definition transition_status ::
  "ident \<Rightarrow> learning_request list \<Rightarrow> ident \<Rightarrow> learning_status \<Rightarrow> learning_status \<Rightarrow> millis
     \<Rightarrow> learning_error + (learning_request list \<times> bool)" where
  "transition_status tn t i old new now =
     (let p = (\<lambda>r. lr_tenant r = tn \<and> lr_id r = i \<and> lr_status r = old) in
      if active_learning new \<and> \<not> active_learning old
         \<and> list_ex (\<lambda>r. p r \<and> list_ex (active_for tn (lr_persona r) (lr_capability r)) t) t
      then Inl Learning_Active_Exists
      else case update_where p (\<lambda>r. r\<lparr>lr_status := new, lr_updated_at := now\<rparr>) t of
        (t', n) \<Rightarrow> Inr (t', 0 < n))"

datatype register_kind = Gap_Registered | Gap_Deduped

record register_outcome =
  ro_capability :: string
  ro_kind :: register_kind
  ro_request :: learning_request

definition list_learned_capabilities ::
  "ident \<Rightarrow> bool \<Rightarrow> learning_state \<Rightarrow> ident \<Rightarrow> string list" where
  "list_learned_capabilities tn with_index ls p =
     (let from_ledger = list_passed_capabilities tn (ls_requests ls) p in
      if \<not> with_index then from_ledger
      else sort (remdups (list_indexed_capabilities tn (ls_index ls) p @ from_ledger)))"

definition request_of_gap ::
  "ident \<Rightarrow> ident \<Rightarrow> ident \<Rightarrow> capability_gap \<Rightarrow> ident \<Rightarrow> millis \<Rightarrow> learning_request" where
  "request_of_gap tn org p g i ts =
     \<lparr> lr_id = i, lr_tenant = tn, lr_org = org, lr_persona = p, lr_capability = cg_capability g,
       lr_unknown = (\<not> is_known_capability (cg_capability g)), lr_evidence = cg_task g,
       lr_priority = cg_priority g, lr_triggered_by = cg_task g, lr_status = Learn_Pending,
       lr_created_at = ts, lr_updated_at = ts \<rparr>"

text \<open>
  \<open>register_gap\<close> after its read: \<open>found\<close> is what the read of an active request gave, the state is
  the one at the time of the insertion, so that another process may have written in between. Both
  constraints give a message that counts as the conflict of an active request.
\<close>

definition register_gap_found ::
  "(nat \<Rightarrow> ident) \<Rightarrow> ident \<Rightarrow> learning_request option \<Rightarrow> learning_state \<Rightarrow> ident \<Rightarrow> ident
     \<Rightarrow> capability_gap \<Rightarrow> millis \<Rightarrow> learning_error + (learning_state \<times> register_outcome)" where
  "register_gap_found gen tn found ls org p g ts =
     (case found of
        Some r \<Rightarrow> Inr (ls, \<lparr> ro_capability = cg_capability g, ro_kind = Gap_Deduped, ro_request = r \<rparr>)
      | None \<Rightarrow>
          let r = request_of_gap tn org p g (gen (ls_ids ls)) ts; ls1 = ls\<lparr>ls_ids := ls_ids ls + 1\<rparr>
          in case insert_request r (ls_requests ls) of
               Inr t \<Rightarrow> Inr (ls1\<lparr>ls_requests := t\<rparr>,
                  \<lparr> ro_capability = cg_capability g, ro_kind = Gap_Registered, ro_request = r \<rparr>)
             | Inl e \<Rightarrow>
                 (case find_active tn (ls_requests ls) p (cg_capability g) of
                    Some won \<Rightarrow> Inr (ls1,
                      \<lparr> ro_capability = cg_capability g, ro_kind = Gap_Deduped, ro_request = won \<rparr>)
                  | None \<Rightarrow> Inl e))"

definition register_gap ::
  "(nat \<Rightarrow> ident) \<Rightarrow> ident \<Rightarrow> learning_state \<Rightarrow> ident \<Rightarrow> ident \<Rightarrow> capability_gap \<Rightarrow> millis
     \<Rightarrow> learning_error + (learning_state \<times> register_outcome)" where
  "register_gap gen tn ls org p g ts =
     register_gap_found gen tn (find_active tn (ls_requests ls) p (cg_capability g)) ls org p g ts"

fun register_gaps ::
  "(nat \<Rightarrow> ident) \<Rightarrow> ident \<Rightarrow> learning_state \<Rightarrow> ident \<Rightarrow> ident \<Rightarrow> capability_gap list \<Rightarrow> millis
     \<Rightarrow> learning_state \<times> (learning_error + register_outcome list)" where
  "register_gaps gen tn ls org p [] ts = (ls, Inr [])"
| "register_gaps gen tn ls org p (g # gs) ts =
     (case register_gap gen tn ls org p g ts of
        Inl e \<Rightarrow> (ls, Inl e)
      | Inr (ls1, o1) \<Rightarrow>
          (case register_gaps gen tn ls1 org p gs ts of
             (ls2, Inl e) \<Rightarrow> (ls2, Inl e)
           | (ls2, Inr os) \<Rightarrow> (ls2, Inr (o1 # os))))"

definition detect_and_register ::
  "(nat \<Rightarrow> ident) \<Rightarrow> ident \<Rightarrow> bool \<Rightarrow> learning_state \<Rightarrow> ident \<Rightarrow> ident \<Rightarrow> string list \<Rightarrow> ident option
     \<Rightarrow> risk_level option \<Rightarrow> millis \<Rightarrow> learning_state \<times> (learning_error + register_outcome list)" where
  "detect_and_register gen tn with_index ls org p required task priority ts =
     register_gaps gen tn ls org p
       (detect_capability_gaps required (list_learned_capabilities tn with_index ls p) priority task) ts"

subsection \<open>Delegation to a capable colleague, degradation\<close>

fun first_capable ::
  "(ident \<Rightarrow> string list) \<Rightarrow> string list \<Rightarrow> ident \<Rightarrow> digital_worker list \<Rightarrow> digital_worker option" where
  "first_capable learned need me [] = None"
| "first_capable learned need me (w # ws) =
     (if dw_id w = me then first_capable learned need me ws
      else if dw_status w \<noteq> Emp_Active then first_capable learned need me ws
      else if list_all (List.member (map normalize_capability (learned (dw_persona w)))) need then Some w
      else first_capable learned need me ws)"

definition find_capable_colleague ::
  "ident \<Rightarrow> bool \<Rightarrow> learning_state \<Rightarrow> workforce \<Rightarrow> ident \<Rightarrow> string list \<Rightarrow> ident
     \<Rightarrow> digital_worker option" where
  "find_capable_colleague tn with_index ls s org required me =
     (if required = [] then None
      else first_capable (list_learned_capabilities tn with_index ls)
             (remdups (map normalize_capability required)) me (list_workers tn s org))"

datatype disposition = Disp_Delegated ident | Disp_Degraded task_summary | Disp_Suspend

definition dispose ::
  "ident \<Rightarrow> bool \<Rightarrow> bool \<Rightarrow> learning_state \<Rightarrow> workforce \<Rightarrow> ident \<Rightarrow> org_task \<Rightarrow> ident \<Rightarrow> string list
     \<Rightarrow> millis \<Rightarrow> workforce \<times> disposition" where
  "dispose tn with_index allow_degrade ls s org task me missing now =
     (case find_capable_colleague tn with_index ls s org (tk_capabilities task) me of
        Some w \<Rightarrow>
          (case reassign_if_held tn s org (tk_id task) me (dw_id w) now of
             (s', ok) \<Rightarrow> if ok then (s', Disp_Delegated (dw_id w)) else (s', Disp_Suspend))
      | None \<Rightarrow>
          if allow_degrade then
            (let note = Sum_Degraded missing in
             case transition_task_if_status tn s org (tk_id task) Task_Delegated Task_Submitted
                    (Some note) now None None of
               (s', ok) \<Rightarrow> if ok then (s', Disp_Degraded note) else (s', Disp_Suspend))
          else (s, Disp_Suspend))"

subsection \<open>The gap detector computes a difference\<close>

lemma normalize_capabilities_set:
  "set (normalize_capabilities raw) = normalize_capability ` set raw - {[]}"
  by (auto simp: normalize_capabilities_def)

lemma normalize_capabilities_sorted [simp]:
  "sorted (normalize_capabilities raw)" "distinct (normalize_capabilities raw)"
  by (simp_all add: normalize_capabilities_def)

lemma detect_capability_gaps_map:
  "map cg_capability (detect_capability_gaps required learned priority task)
   = filter (\<lambda>c. c \<notin> normalize_capability ` set learned) (normalize_capabilities required)"
proof -
  have "filter (\<lambda>c. \<not> List.member (normalize_capabilities learned) c) (normalize_capabilities required)
      = filter (\<lambda>c. c \<notin> normalize_capability ` set learned) (normalize_capabilities required)"
    by (rule filter_cong [OF refl]) (auto simp: normalize_capabilities_set)
  then show ?thesis by (simp add: detect_capability_gaps_def Let_def o_def)
qed

lemma no_gap_iff:
  "detect_capability_gaps required learned priority task = []
   \<longleftrightarrow> normalize_capability ` set required \<subseteq> insert [] (normalize_capability ` set learned)"
proof -
  have "detect_capability_gaps required learned priority task = []
      \<longleftrightarrow> map cg_capability (detect_capability_gaps required learned priority task) = []" by simp
  also have "\<dots> \<longleftrightarrow> (\<forall>c \<in> set (normalize_capabilities required). c \<in> normalize_capability ` set learned)"
    unfolding detect_capability_gaps_map by (simp add: filter_empty_conv)
  finally show ?thesis by (auto simp: normalize_capabilities_set)
qed

lemma first_capable_SomeD:
  "first_capable learned need me ws = Some w \<Longrightarrow>
   w \<in> set ws \<and> dw_id w \<noteq> me \<and> dw_status w = Emp_Active
   \<and> set need \<subseteq> normalize_capability ` set (learned (dw_persona w))"
  by (induction ws) (auto simp: list_all_iff split: if_splits)

lemma list_workers_set: "w \<in> set (list_workers tn s org)
  \<longleftrightarrow> w \<in> set (wf_workers s) \<and> dw_tenant w = tn \<and> dw_org w = org"
  by (auto simp: list_workers_def)

lemma colleague_has_no_gap:
  assumes "find_capable_colleague tn with_index ls s org required me = Some w"
  shows "w \<in> set (wf_workers s) \<and> dw_tenant w = tn \<and> dw_org w = org \<and> dw_id w \<noteq> me
     \<and> dw_status w = Emp_Active
     \<and> detect_capability_gaps required (list_learned_capabilities tn with_index ls (dw_persona w)) pr t = []"
proof -
  have f: "first_capable (list_learned_capabilities tn with_index ls)
      (remdups (map normalize_capability required)) me (list_workers tn s org) = Some w"
    using assms by (auto simp: find_capable_colleague_def split: if_splits)
  from first_capable_SomeD [OF f] show ?thesis
    by (auto simp: list_workers_set no_gap_iff)
qed

subsection \<open>The ledger\<close>

definition request_slot :: "learning_request \<Rightarrow> ident \<times> ident \<times> string" where
  "request_slot r = (lr_tenant r, lr_persona r, lr_capability r)"

definition ledger_ok :: "learning_request list \<Rightarrow> bool" where
  "ledger_ok t \<longleftrightarrow>
     distinct (map lr_id t)
     \<and> distinct (map request_slot (filter (\<lambda>r. active_learning (lr_status r)) t))"

lemma active_for_slot:
  "active_for tn p c r \<longleftrightarrow> active_learning (lr_status r) \<and> request_slot r = (tn, p, c)"
  by (auto simp: active_for_def request_slot_def)

lemma active_unique:
  assumes "ledger_ok t" and "r \<in> set t" and "q \<in> set t" and "active_for tn p c r" and "active_for tn p c q"
  shows "r = q"
proof -
  have "inj_on request_slot {x \<in> set t. active_learning (lr_status x)}"
    using assms(1) by (simp add: ledger_ok_def distinct_map)
  from inj_onD [OF this, of r q] assms(2-) show ?thesis by (simp add: active_for_slot)
qed

lemma find_active_SomeD: "find_active tn t p c = Some r \<Longrightarrow> r \<in> set t \<and> active_for tn p c r"
  by (auto simp: find_active_def split: list.splits dest!: sort_key_ConsD)

lemma find_active_None_iff: "find_active tn t p c = None \<longleftrightarrow> (\<forall>r \<in> set t. \<not> active_for tn p c r)"
proof
  assume none: "\<forall>r \<in> set t. \<not> active_for tn p c r"
  show "find_active tn t p c = None"
    using none find_active_SomeD [of tn t p c] by (cases "find_active tn t p c") auto
next
  assume "find_active tn t p c = None"
  then have "filter (active_for tn p c) t = []"
    by (simp add: find_active_def split: list.splits)
  then show "\<forall>r \<in> set t. \<not> active_for tn p c r" by (simp add: filter_empty_conv)
qed

lemma find_active_unique:
  assumes "ledger_ok t" and "r \<in> set t" and "active_for tn p c r"
  shows "find_active tn t p c = Some r"
proof -
  have "find_active tn t p c \<noteq> None" using assms by (auto simp: find_active_None_iff)
  then obtain q where q: "find_active tn t p c = Some q" by blast
  with find_active_SomeD [OF q] active_unique [OF assms(1)] assms show ?thesis by blast
qed

lemma insert_request_ok:
  assumes "ledger_ok t" and "insert_request r t = Inr t'"
  shows "ledger_ok t' \<and> t' = t @ [r]"
proof -
  have t': "t' = t @ [r]" and i: "lr_id r \<notin> set (map lr_id t)"
    and a: "active_learning (lr_status r) \<Longrightarrow> \<forall>q \<in> set t. \<not> (active_learning (lr_status q) \<and> request_slot q = request_slot r)"
    using assms(2)
    by (simp_all add: insert_request_def list_ex_iff active_for_slot request_slot_def split: if_splits)
       force
  from a have "active_learning (lr_status r) \<Longrightarrow>
      request_slot r \<notin> set (map request_slot (filter (\<lambda>q. active_learning (lr_status q)) t))"
    by auto
  with i assms(1) show ?thesis by (simp add: ledger_ok_def t' del: set_map)
qed

lemma request_of_gap_active:
  "active_for tn p (cg_capability g) (request_of_gap tn org p g i ts)"
  by (simp add: active_for_def request_of_gap_def active_learning_def)

text \<open>What one registration gives: the active request of its slot, and nothing else changes.\<close>

lemma register_gap_result:
  assumes ok: "ledger_ok (ls_requests ls)" and g: "register_gap gen tn ls org p g ts = Inr (ls', res)"
  shows "ledger_ok (ls_requests ls') \<and> ls_index ls' = ls_index ls
     \<and> (ls_requests ls' = ls_requests ls
        \<or> ls_requests ls' = ls_requests ls @ [ro_request res] \<and> lr_status (ro_request res) = Learn_Pending)
     \<and> ro_capability res = cg_capability g
     \<and> ro_request res \<in> set (ls_requests ls') \<and> active_for tn p (cg_capability g) (ro_request res)"
proof (cases "find_active tn (ls_requests ls) p (cg_capability g)")
  case (Some r)
  with find_active_SomeD [OF Some] g ok show ?thesis
    by (auto simp: register_gap_def register_gap_found_def)
next
  case None
  let ?r = "request_of_gap tn org p g (gen (ls_ids ls)) ts"
  have st: "lr_status ?r = Learn_Pending" by (simp add: request_of_gap_def)
  obtain t where t: "insert_request ?r (ls_requests ls) = Inr t"
    and "ls_requests ls' = t" "ls_index ls' = ls_index ls" "ro_request res = ?r"
    "ro_capability res = cg_capability g"
    using g None by (auto simp: register_gap_def register_gap_found_def Let_def split: sum.splits)
  moreover have "ledger_ok t \<and> t = ls_requests ls @ [?r]" by (rule insert_request_ok [OF ok t])
  moreover have "active_for tn p (cg_capability g) ?r" by (rule request_of_gap_active)
  ultimately show ?thesis using st by (metis in_set_conv_decomp)
qed

text \<open>A registration for a slot that is active gives that request and changes nothing.\<close>

lemma register_gap_active:
  assumes "ledger_ok (ls_requests ls)" and "r \<in> set (ls_requests ls)"
    and "active_for tn p (cg_capability g) r"
  shows "register_gap gen tn ls org p g ts =
     Inr (ls, \<lparr> ro_capability = cg_capability g, ro_kind = Gap_Deduped, ro_request = r \<rparr>)"
  by (simp add: register_gap_def register_gap_found_def find_active_unique [OF assms])

lemma register_gaps_result:
  "ledger_ok (ls_requests ls) \<Longrightarrow> register_gaps gen tn ls org p gs ts = (ls', Inr os) \<Longrightarrow>
   ledger_ok (ls_requests ls') \<and> ls_index ls' = ls_index ls
   \<and> (\<exists>new. ls_requests ls' = ls_requests ls @ new \<and> (\<forall>r \<in> set new. lr_status r = Learn_Pending))
   \<and> list_all2 (\<lambda>g res. ro_capability res = cg_capability g \<and> ro_request res \<in> set (ls_requests ls')
        \<and> active_for tn p (cg_capability g) (ro_request res)) gs os"
proof (induction gs arbitrary: ls os)
  case (Cons g gs)
  obtain ls1 o1 os' where r: "register_gap gen tn ls org p g ts = Inr (ls1, o1)"
    and rs: "register_gaps gen tn ls1 org p gs ts = (ls', Inr os')" and os: "os = o1 # os'"
    using Cons.prems(2) by (auto split: sum.splits prod.splits)
  note r1 = register_gap_result [OF Cons.prems(1) r]
  then have "ledger_ok (ls_requests ls1)" by blast
  note IH = Cons.IH [OF this rs]
  obtain new where new: "ls_requests ls' = ls_requests ls1 @ new"
    "\<forall>r \<in> set new. lr_status r = Learn_Pending" using IH by blast
  have "\<exists>new. ls_requests ls' = ls_requests ls @ new \<and> (\<forall>r \<in> set new. lr_status r = Learn_Pending)"
    using r1
  proof (elim conjE disjE)
    assume "ls_requests ls1 = ls_requests ls @ [ro_request o1]"
      and "lr_status (ro_request o1) = Learn_Pending"
    with new show ?thesis by (intro exI [of _ "ro_request o1 # new"]) simp
  qed (use new in auto)
  moreover have "ro_request o1 \<in> set (ls_requests ls')" using r1 new by simp
  ultimately show ?case using IH r1 os by simp
qed simp

lemma register_gaps_active:
  assumes "ledger_ok (ls_requests ls)"
    and "list_all2 (\<lambda>g r. r \<in> set (ls_requests ls) \<and> active_for tn p (cg_capability g) r) gs rs"
  shows "register_gaps gen tn ls org p gs ts =
     (ls, Inr (map2 (\<lambda>g r. \<lparr> ro_capability = cg_capability g, ro_kind = Gap_Deduped, ro_request = r \<rparr>) gs rs))"
  using assms(2)
proof (induction rule: list_all2_induct)
  case (Cons g gs r rs)
  then have "register_gap gen tn ls org p g ts =
      Inr (ls, \<lparr> ro_capability = cg_capability g, ro_kind = Gap_Deduped, ro_request = r \<rparr>)"
    by (intro register_gap_active [OF assms(1)]) auto
  with Cons.IH show ?case by simp
qed simp

lemma learned_unchanged:
  assumes "ls_index ls' = ls_index ls" and "ls_requests ls' = ls_requests ls @ new"
    and "\<forall>r \<in> set new. lr_status r = Learn_Pending"
  shows "list_learned_capabilities tn wi ls' p = list_learned_capabilities tn wi ls p"
proof -
  have "filter (\<lambda>r. lr_tenant r = tn \<and> lr_persona r = p \<and> lr_status r = Learn_Passed) new = []"
    using assms(3) by (simp add: filter_empty_conv)
  then have "list_passed_capabilities tn (ls_requests ls') p
      = list_passed_capabilities tn (ls_requests ls) p"
    by (simp add: list_passed_capabilities_def assms(2))
  with assms(1) show ?thesis by (simp only: list_learned_capabilities_def)
qed

lemma list_all2_ro_map:
  "list_all2 (\<lambda>g res. ro_capability res = cg_capability g \<and> P (cg_capability g) (ro_request res)) gs os \<Longrightarrow>
   map cg_capability gs = map cg_capability gs' \<Longrightarrow>
   list_all2 (\<lambda>g. P (cg_capability g)) gs' (map ro_request os) \<and> map ro_capability os = map cg_capability gs"
proof (induction gs os arbitrary: gs' rule: list_all2_induct)
  case (Cons g gs r os)
  then obtain h hs where h: "gs' = h # hs" "cg_capability g = cg_capability h"
    "map cg_capability gs = map cg_capability hs" by (cases gs') auto
  from Cons.IH [OF h(3)] Cons.hyps h(1,2) show ?case by simp
qed simp

text \<open>
  Checking a task against a worker's capabilities registers exactly the capabilities the task
  requires and the worker has not learned, in alphabetical order, each as the one active request of
  its worker and capability. Checking again, for whatever task with the same requirements, adds no
  request and returns the same ones, so that blocked tasks share one learning.
\<close>

theorem gaps_registered_once:
  assumes "ledger_ok (ls_requests ls)"
    and "detect_and_register gen tn wi ls org p required task pr ts = (ls', Inr os)"
  shows "map ro_capability os
       = filter (\<lambda>c. c \<notin> normalize_capability ` set (list_learned_capabilities tn wi ls p))
           (normalize_capabilities required)
     \<and> (\<forall>res \<in> set os. ro_request res \<in> set (ls_requests ls') \<and>
          lr_tenant (ro_request res) = tn \<and> lr_persona (ro_request res) = p
          \<and> lr_capability (ro_request res) = ro_capability res \<and> active_learning (lr_status (ro_request res)))
     \<and> (\<exists>os'. detect_and_register gen tn wi ls' org' p required task' pr' ts' = (ls', Inr os')
          \<and> map ro_request os' = map ro_request os \<and> (\<forall>res \<in> set os'. ro_kind res = Gap_Deduped))
     \<and> ledger_ok (ls_requests ls')"
proof -
  let ?learned = "list_learned_capabilities tn wi ls p"
  let ?gs = "detect_capability_gaps required ?learned pr task"
  let ?gs' = "detect_capability_gaps required ?learned pr' task'"
  have reg: "register_gaps gen tn ls org p ?gs ts = (ls', Inr os)"
    using assms(2) by (simp add: detect_and_register_def)
  note R = register_gaps_result [OF assms(1) reg]
  then have l: "list_learned_capabilities tn wi ls' p = ?learned" by (metis learned_unchanged)
  have all: "list_all2 (\<lambda>g res. ro_capability res = cg_capability g \<and> (ro_request res \<in> set (ls_requests ls')
        \<and> active_for tn p (cg_capability g) (ro_request res))) ?gs os" using R by blast
  have same: "map cg_capability ?gs = map cg_capability ?gs'" by (simp only: detect_capability_gaps_map)
  have both: "list_all2 (\<lambda>g r. r \<in> set (ls_requests ls') \<and> active_for tn p (cg_capability g) r) ?gs'
        (map ro_request os) \<and> map ro_capability os = map cg_capability ?gs"
    by (rule list_all2_ro_map [OF all same])
  then have caps: "map ro_capability os = map cg_capability ?gs"
    and act: "list_all2 (\<lambda>g r. r \<in> set (ls_requests ls') \<and> active_for tn p (cg_capability g) r) ?gs'
        (map ro_request os)" by blast+
  have len: "length ?gs' = length (map ro_request os)" using act by (rule list_all2_lengthD)
  have again: "detect_and_register gen tn wi ls' org' p required task' pr' ts' =
      (ls', Inr (map2 (\<lambda>g r. \<lparr> ro_capability = cg_capability g, ro_kind = Gap_Deduped, ro_request = r \<rparr>)
         ?gs' (map ro_request os)))"
    unfolding detect_and_register_def l by (rule register_gaps_active) (use R act in blast)+
  have map2_request: "length gs = length rs \<Longrightarrow> map ro_request (map2 (\<lambda>g r. \<lparr> ro_capability =
      cg_capability g, ro_kind = Gap_Deduped, ro_request = r \<rparr>) gs rs) = rs" for gs rs
    by (induction gs rs rule: list_induct2) simp_all
  have "map ro_request (map2 (\<lambda>g r. \<lparr> ro_capability = cg_capability g, ro_kind = Gap_Deduped, ro_request = r \<rparr>)
         ?gs' (map ro_request os)) = map ro_request os"
    using len by (rule map2_request)
  moreover have "ro_request res \<in> set (ls_requests ls') \<and> lr_tenant (ro_request res) = tn
      \<and> lr_persona (ro_request res) = p \<and> lr_capability (ro_request res) = ro_capability res
      \<and> active_learning (lr_status (ro_request res))" if "res \<in> set os" for res
    using list_all2_set2D [OF all that] by (auto simp: active_for_def)
  moreover have "\<forall>res \<in> set (map2 (\<lambda>g r. \<lparr> ro_capability = cg_capability g, ro_kind = Gap_Deduped,
      ro_request = r \<rparr>) ?gs' (map ro_request os)). ro_kind res = Gap_Deduped" by auto
  moreover have "ledger_ok (ls_requests ls')" using R by blast
  ultimately show ?thesis
    using again caps unfolding detect_capability_gaps_map by blast
qed

lemma gaps_registered_once_witness:
  "\<exists>ls' os. detect_and_register (\<lambda>n. replicate n CHR ''i'') ''t'' True
        \<lparr> ls_requests = [], ls_index = [], ls_ids = 0 \<rparr> ''o'' ''p'' [''Research'', '' qa ''] None None 5
      = (ls', Inr os) \<and> map ro_capability os = [''qa'', ''research'']"
proof -
  let ?d = "detect_and_register (\<lambda>n. replicate n CHR ''i'') ''t'' True
        \<lparr> ls_requests = [], ls_index = [], ls_ids = 0 \<rparr> ''o'' ''p'' [''Research'', '' qa ''] None None 5"
  have "case snd ?d of Inr _ \<Rightarrow> True | _ \<Rightarrow> False" by code_simp
  then obtain ls' os where d: "?d = (ls', Inr os)" by (cases ?d) (auto split: sum.splits)
  have c: "filter (\<lambda>c. c \<notin> normalize_capability ` set (list_learned_capabilities ''t'' True
      \<lparr> ls_requests = [], ls_index = [], ls_ids = 0 \<rparr> ''p'')) (normalize_capabilities [''Research'', '' qa ''])
      = [''qa'', ''research'']" by code_simp
  have "ledger_ok (ls_requests \<lparr> ls_requests = [], ls_index = [], ls_ids = 0 \<rparr>)"
    by (simp add: ledger_ok_def)
  from gaps_registered_once [OF this d] d c show ?thesis by auto
qed

end
