(* ===== verification/Worker_Execution.thy ===== *)
theory Worker_Execution
  imports Approval Capability_Learning
begin

text \<open>
  The execution of a delegated task by a digital worker: \<^verbatim>\<open>src/workforce/worker-execution-service.ts\<close>
  and \<^verbatim>\<open>src/workforce/worker-execution-actor.ts\<close>. The method is split where it waits for the tool
  pipeline: \<open>begin_execution\<close> passes the gates (the preconditions, missing capabilities, the compiled
  arguments, the risk and its approval, the human principal, the compare-and-set on the task) and
  gives the call for the pipeline; \<open>finish_execution\<close> writes the outcome back. Between the two any
  other operation may run. The pipeline, the compiler of tool arguments and the tool schemas are the
  interfaces the service is given, so they are arguments here.
\<close>

subsection \<open>Types\<close>

record execute_input =
  xi_org :: ident
  xi_task :: ident
  xi_worker :: ident
  xi_principal :: ident
  xi_tool :: ident
  xi_args :: json
  xi_signals :: "risk_signals option"
  xi_approval :: "ident option"
  xi_token :: "ident option"

datatype compile_result = Compiled json | No_Rule | Compile_Failed string string

text \<open>
  What the service is built with: the learning service (with or without the index), the
  disposition service (with its \<^verbatim>\<open>allowDegrade\<close>), the compiler together with the schemas, and the
  deriver of risk signals. All of them are optional.
\<close>

record execution_deps =
  xd_learning :: "bool option"
  xd_disposition :: "bool option"
  xd_compile :: "(ident \<Rightarrow> ident \<Rightarrow> string \<Rightarrow> org_task \<Rightarrow> compile_result) option"
  xd_schema :: "(ident \<Rightarrow> bool) option"
  xd_risk :: "(ident \<Rightarrow> json \<Rightarrow> risk_signals option \<Rightarrow> risk_signals) option"
  xd_idgen :: "nat \<Rightarrow> ident"

text \<open>The call of the pipeline; its invoker type is always that of an organisation's worker.\<close>

record tool_call =
  tl_tenant :: ident
  tl_persona :: ident
  tl_tool :: ident
  tl_invoker :: ident
  tl_principal :: ident
  tl_args :: json
  tl_token :: "ident option"

datatype execution_error =
    Task_Missing ident
  | Not_The_Assignee
  | Not_Delegated task_status
  | Tools_Not_Allowed
  | Worker_Not_Active
  | Learning_Failed learning_error
  | Suspend_Conflict
  | Principal_Missing ident
  | Execution_Conflict

datatype execute_result =
    Xr_Executed ident json
  | Xr_Needs_Approval risk_level "risk_rationale option"
  | Xr_Needs_Confirmation ident string
  | Xr_Learning_Required "register_outcome list"
  | Xr_Delegated_To ident "register_outcome list"
  | Xr_Degraded task_summary "register_outcome list"
  | Xr_Compile_Failed string string
  | Xr_Failed string string
  | Xr_Throws execution_error

datatype pipeline_outcome =
    Po_Ok ident json
  | Po_Confirmation ident string "ident option"
  | Po_Refused ident string string
  | Po_Throws string

record exec_state =
  xs_wf :: workforce
  xs_learning :: learning_state

subsection \<open>The gates\<close>

definition require_executable_task ::
  "ident \<Rightarrow> workforce \<Rightarrow> ident \<Rightarrow> ident \<Rightarrow> ident \<Rightarrow> execution_error + org_task" where
  "require_executable_task tn s org i w =
     (case get_task tn s org i of
        None \<Rightarrow> Inl (Task_Missing i)
      | Some t \<Rightarrow>
          if tk_assigned t \<noteq> Some w then Inl Not_The_Assignee
          else if tk_status t \<noteq> Task_Delegated then Inl (Not_Delegated (tk_status t))
          else if \<not> tk_allows_tools t then Inl Tools_Not_Allowed
          else case get_worker tn s org w of
            None \<Rightarrow> Inl Worker_Not_Active
          | Some d \<Rightarrow> if dw_status d \<noteq> Emp_Active then Inl Worker_Not_Active else Inr t)"

definition persona_id_of_worker :: "ident \<Rightarrow> workforce \<Rightarrow> ident \<Rightarrow> ident \<Rightarrow> ident" where
  "persona_id_of_worker tn s org w =
     (case get_worker tn s org w of None \<Rightarrow> [] | Some d \<Rightarrow> dw_persona d)"

text \<open>The actor: the worker calls, the person is responsible; a blank person is refused.\<close>

definition resolve_worker_execution_actor ::
  "ident \<Rightarrow> ident option \<Rightarrow> execution_error + (ident \<times> ident)" where
  "resolve_worker_execution_actor w principal_id =
     (let p = js_trim (or_default principal_id []) in
      if p = [] then Inl (Principal_Missing w) else Inr (''worker:'' @ w, p))"

fun compile_first ::
  "(string \<Rightarrow> compile_result) \<Rightarrow> string list \<Rightarrow> json \<Rightarrow> execute_result + json" where
  "compile_first f [] args = Inr args"
| "compile_first f (c # cs) args =
     (case f c of
        Compiled a \<Rightarrow> Inr a
      | No_Rule \<Rightarrow> compile_first f cs args
      | Compile_Failed code why \<Rightarrow> Inl (Xr_Compile_Failed code why))"

definition compile_arguments ::
  "execution_deps \<Rightarrow> execute_input \<Rightarrow> ident \<Rightarrow> org_task \<Rightarrow> execute_result + json" where
  "compile_arguments d x persona t =
     (case (xd_compile d, xd_schema d) of
        (Some compiler, Some registered) \<Rightarrow>
          if tk_capabilities t = [] then Inr (xi_args x)
          else if \<not> registered (xi_tool x) then Inr (xi_args x)
          else compile_first (\<lambda>c. compiler persona (xi_tool x) c t) (tk_capabilities t) (xi_args x)
      | _ \<Rightarrow> Inr (xi_args x))"

definition execution_signals :: "execution_deps \<Rightarrow> execute_input \<Rightarrow> json \<Rightarrow> risk_signals" where
  "execution_signals d x args =
     (case xd_risk d of
        Some f \<Rightarrow> f (xi_tool x) args (xi_signals x)
      | None \<Rightarrow> or_default (xi_signals x) no_signals)"

definition execution_check_of :: "execute_input \<Rightarrow> risk_level \<Rightarrow> execution_check" where
  "execution_check_of x risk =
     \<lparr> ec_org = xi_org x, ec_approval = the (xi_approval x), ec_subject_type = Task_Execution,
       ec_subject = xi_task x, ec_requester = xi_worker x, ec_risk = risk \<rparr>"

text \<open>
  The approval gate: nothing for a low risk, else an approval is used up. The call passes no digest
  of the arguments. \<open>None\<close> lets the execution pass.
\<close>

definition approval_gate ::
  "ident \<Rightarrow> workforce \<Rightarrow> execute_input \<Rightarrow> risk_assessment \<Rightarrow> millis \<Rightarrow> workforce \<times> execute_result option" where
  "approval_gate tn s x a now =
     (if ra_risk a = Risk_Low then (s, None)
      else if \<not> truthy (xi_approval x) then
        (s, Some (Xr_Needs_Approval (ra_risk a) (Some (ra_rationale a))))
      else case consume_execution_approval tn s (execution_check_of x (ra_risk a)) None now of
        (s', cleared) \<Rightarrow>
          if cleared then (s', None) else (s', Some (Xr_Needs_Approval (ra_risk a) None)))"

definition gap_priority :: "org_task \<Rightarrow> risk_level" where
  "gap_priority t = tk_risk t"

text \<open>
  The capability gate: without a missing capability (or without a learning service) it lets the
  execution pass; else the gaps are registered and the task is delegated, degraded or blocked.
\<close>

definition gap_gate ::
  "execution_deps \<Rightarrow> ident \<Rightarrow> exec_state \<Rightarrow> execute_input \<Rightarrow> org_task \<Rightarrow> millis
     \<Rightarrow> exec_state \<times> execute_result option" where
  "gap_gate d tn st x t now =
     (case xd_learning d of
        None \<Rightarrow> (st, None)
      | Some with_index \<Rightarrow>
          if tk_capabilities t = [] then (st, None)
          else
            case detect_and_register (xd_idgen d) tn with_index (xs_learning st) (xi_org x)
                   (persona_id_of_worker tn (xs_wf st) (xi_org x) (xi_worker x)) (tk_capabilities t)
                   (Some (xi_task x)) (Some (gap_priority t)) now of
              (ls, Inl e) \<Rightarrow> (st\<lparr>xs_learning := ls\<rparr>, Some (Xr_Throws (Learning_Failed e)))
            | (ls, Inr os) \<Rightarrow>
                let st1 = st\<lparr>xs_learning := ls\<rparr>; caps = map ro_capability os
                in if os = [] then (st1, None)
                   else
                     case (case xd_disposition d of
                             None \<Rightarrow> (xs_wf st1, Disp_Suspend)
                           | Some degrade \<Rightarrow>
                               dispose tn with_index degrade ls (xs_wf st1) (xi_org x) t (xi_worker x)
                                 caps now) of
                       (s2, Disp_Delegated w) \<Rightarrow> (st1\<lparr>xs_wf := s2\<rparr>, Some (Xr_Delegated_To w os))
                     | (s2, Disp_Degraded note) \<Rightarrow> (st1\<lparr>xs_wf := s2\<rparr>, Some (Xr_Degraded note os))
                     | (s2, Disp_Suspend) \<Rightarrow>
                         (case transition_task_if_status tn s2 (xi_org x) (xi_task x) Task_Delegated
                                 Task_Blocked (Some (Sum_Gap caps)) now (Some (xi_worker x))
                                 (Some Capability_Gap) of
                            (s3, ok) \<Rightarrow>
                              (st1\<lparr>xs_wf := s3\<rparr>,
                               Some (if ok then Xr_Learning_Required os else Xr_Throws Suspend_Conflict))))"

definition call_of :: "ident \<Rightarrow> ident \<Rightarrow> execute_input \<Rightarrow> ident \<times> ident \<Rightarrow> json \<Rightarrow> tool_call" where
  "call_of tn persona x actor args =
     \<lparr> tl_tenant = tn, tl_persona = persona, tl_tool = xi_tool x, tl_invoker = fst actor,
       tl_principal = snd actor, tl_args = args,
       tl_token = (if truthy (xi_token x) then xi_token x else None) \<rparr>"

text \<open>The first half of \<^verbatim>\<open>execute\<close>, up to the call of the pipeline.\<close>

definition begin_execution ::
  "execution_deps \<Rightarrow> ident \<Rightarrow> exec_state \<Rightarrow> execute_input \<Rightarrow> millis
     \<Rightarrow> exec_state \<times> (execute_result + tool_call)" where
  "begin_execution d tn st x now =
     (case require_executable_task tn (xs_wf st) (xi_org x) (xi_task x) (xi_worker x) of
        Inl e \<Rightarrow> (st, Inl (Xr_Throws e))
      | Inr t \<Rightarrow>
          (case gap_gate d tn st x t now of
             (st1, Some r) \<Rightarrow> (st1, Inl r)
           | (st1, None) \<Rightarrow>
               let persona = persona_id_of_worker tn (xs_wf st1) (xi_org x) (xi_worker x)
               in case compile_arguments d x persona t of
                    Inl r \<Rightarrow> (st1, Inl r)
                  | Inr args \<Rightarrow>
                      let a = assess_execution_risk (tk_risk t) (execution_signals d x args)
                      in case approval_gate tn (xs_wf st1) x a now of
                           (s2, Some r) \<Rightarrow> (st1\<lparr>xs_wf := s2\<rparr>, Inl r)
                         | (s2, None) \<Rightarrow>
                             (case resolve_worker_execution_actor (xi_worker x) (Some (xi_principal x)) of
                                Inl e \<Rightarrow> (st1\<lparr>xs_wf := s2\<rparr>, Inl (Xr_Throws e))
                              | Inr actor \<Rightarrow>
                                  (case transition_task_if_status tn s2 (xi_org x) (xi_task x)
                                          Task_Delegated Task_In_Progress None now (Some (xi_worker x)) None of
                                     (s3, ok) \<Rightarrow>
                                       if ok then (st1\<lparr>xs_wf := s3\<rparr>, Inr (call_of tn persona x actor args))
                                       else (st1\<lparr>xs_wf := s3\<rparr>, Inl (Xr_Throws Execution_Conflict))))))"

text \<open>The second half, once the pipeline has answered.\<close>

definition finish_execution ::
  "ident \<Rightarrow> exec_state \<Rightarrow> execute_input \<Rightarrow> pipeline_outcome \<Rightarrow> millis \<Rightarrow> exec_state \<times> execute_result" where
  "finish_execution tn st x p now =
     (let write = (\<lambda>status note why.
        st\<lparr>xs_wf := update_task_execution tn (xs_wf st) (xi_org x) (xi_task x) status (Some note) why now\<rparr>)
      in case p of
           Po_Throws why \<Rightarrow>
             (write Task_Blocked (Sum_Exception why) (Some Execution_Failure), Xr_Failed ''failed'' why)
         | Po_Ok iv res \<Rightarrow>
             (write Task_Submitted (Sum_Executed (xi_tool x) iv) None, Xr_Executed iv res)
         | Po_Confirmation iv why tok \<Rightarrow>
             (write Task_Delegated Sum_Awaiting_Confirmation None,
              Xr_Needs_Confirmation (or_default tok []) why)
         | Po_Refused iv status why \<Rightarrow>
             (write Task_Blocked (Sum_Refused status why) (Some Execution_Failure), Xr_Failed status why))"

subsection \<open>Executions interleaved with everything else\<close>

text \<open>
  Begun executions wait for the pipeline in \<open>em_waiting\<close>. New tasks are not in progress; the
  learning events stand for whatever changes the ledger and the index.
\<close>

datatype exec_event =
    Xe_Begin execute_input millis
  | Xe_Finish nat pipeline_outcome millis
  | Xe_Approval approval_command
  | Xe_Reassign ident ident ident ident millis
  | Xe_Handoff ident ident ident ident millis
  | Xe_New_Task org_task
  | Xe_Wake ident ident task_summary string millis
  | Xe_Learning learning_state

record exec_machine =
  em_state :: exec_state
  em_waiting :: "execute_input list"

definition on_wf :: "(workforce \<Rightarrow> workforce) \<Rightarrow> exec_machine \<Rightarrow> exec_machine" where
  "on_wf f m = m\<lparr>em_state := (em_state m)\<lparr>xs_wf := f (xs_wf (em_state m))\<rparr>\<rparr>"

fun exec_step :: "execution_deps \<Rightarrow> ident \<Rightarrow> exec_machine \<Rightarrow> exec_event \<Rightarrow> exec_machine" where
  "exec_step d tn m (Xe_Begin x now) =
     (case begin_execution d tn (em_state m) x now of
        (st, Inl _) \<Rightarrow> m\<lparr>em_state := st\<rparr>
      | (st, Inr _) \<Rightarrow> m\<lparr>em_state := st, em_waiting := em_waiting m @ [x]\<rparr>)"
| "exec_step d tn m (Xe_Finish n p now) =
     (if n < length (em_waiting m) then
        m\<lparr>em_state := fst (finish_execution tn (em_state m) (em_waiting m ! n) p now),
          em_waiting := take n (em_waiting m) @ drop (Suc n) (em_waiting m)\<rparr>
      else m)"
| "exec_step d tn m (Xe_Approval c) = on_wf (\<lambda>s. approval_step tn s c) m"
| "exec_step d tn m (Xe_Reassign org i a b now) = on_wf (\<lambda>s. fst (reassign_if_held tn s org i a b now)) m"
| "exec_step d tn m (Xe_Handoff org i a b now) =
     on_wf (\<lambda>s. fst (reassign_task_if_held tn s org i a b now)) m"
| "exec_step d tn m (Xe_New_Task r) =
     (if tk_status r = Task_In_Progress then m
      else on_wf (\<lambda>s. case insert_task r s of None \<Rightarrow> s | Some s' \<Rightarrow> s') m)"
| "exec_step d tn m (Xe_Wake org i note e now) =
     on_wf (\<lambda>s. fst (wake_blocked_task tn s org i note e now)) m"
| "exec_step d tn m (Xe_Learning ls) = m\<lparr>em_state := (em_state m)\<lparr>xs_learning := ls\<rparr>\<rparr>"

subsection \<open>What the gates let through\<close>

text \<open>The statements on tasks leave the other tables alone.\<close>

lemma task_statements_keep [simp]:
  "wf_approvals (fst (transition_task_if_status tn s org i e n note now a why)) = wf_approvals s"
  "wf_workers (fst (transition_task_if_status tn s org i e n note now a why)) = wf_workers s"
  "wf_approvals (update_task_execution tn s org i st note' why now) = wf_approvals s"
  "wf_approvals (fst (reassign_if_held tn s org i h k now)) = wf_approvals s"
  "wf_approvals (fst (reassign_task_if_held tn s org i h k now)) = wf_approvals s"
  "wf_approvals (fst (wake_blocked_task tn s org i note'' ev now)) = wf_approvals s"
  by (simp_all add: transition_task_if_status_def update_task_execution_def reassign_if_held_def
      reassign_task_if_held_def wake_blocked_task_def split_beta Let_def)

lemma dispose_approvals [simp]:
  "wf_approvals (fst (dispose tn wi dg ls s org t me ms now)) = wf_approvals s"
  by (simp add: dispose_def Let_def split_beta split: option.split)

lemma gap_gate_approvals:
  "wf_approvals (xs_wf (fst (gap_gate d tn st x t now))) = wf_approvals (xs_wf st)"
proof -
  have "wf_approvals s3 = wf_approvals s"
    if "transition_task_if_status tn s org i e n nt u a why = (s3, ok)" for s s3 org i e n nt u a why ok
    using task_statements_keep(1) [of tn s org i e n nt u a why] that by simp
  moreover have "wf_approvals s2 = wf_approvals s"
    if "dispose tn wi dg ls s org t me ms u = (s2, r)" for wi dg ls s org t me ms u s2 r
    using dispose_approvals [of tn wi dg ls s org t me ms u] that by simp
  ultimately show ?thesis
    by (auto simp: gap_gate_def Let_def split: option.splits prod.splits sum.splits disposition.splits)
qed

lemma register_gaps_Nil_gaps:
  "register_gaps gen tn ls org p gs ts = (ls', Inr []) \<Longrightarrow> gs = [] \<and> ls' = ls"
  by (cases gs) (auto split: sum.splits prod.splits)

lemma gap_gate_passes:
  assumes "gap_gate d tn st x t now = (st1, None)"
  shows "st1 = st \<and> (\<forall>wi. xd_learning d = Some wi \<longrightarrow>
    normalize_capability ` set (tk_capabilities t) \<subseteq> insert [] (normalize_capability ` set
      (list_learned_capabilities tn wi (xs_learning st)
        (persona_id_of_worker tn (xs_wf st) (xi_org x) (xi_worker x)))))"
proof (cases "xd_learning d")
  case None
  with assms show ?thesis by (simp add: gap_gate_def)
next
  case (Some wi)
  show ?thesis
  proof (cases "tk_capabilities t = []")
    case True
    with assms Some show ?thesis by (simp add: gap_gate_def)
  next
    case False
    obtain ls where r: "detect_and_register (xd_idgen d) tn wi (xs_learning st) (xi_org x)
        (persona_id_of_worker tn (xs_wf st) (xi_org x) (xi_worker x)) (tk_capabilities t)
        (Some (xi_task x)) (Some (gap_priority t)) now = (ls, Inr [])"
      and st1: "st1 = st\<lparr>xs_learning := ls\<rparr>"
      using assms Some False
      by (auto simp: gap_gate_def Let_def split: prod.splits sum.splits if_splits disposition.splits)
    from register_gaps_Nil_gaps [OF r [unfolded detect_and_register_def]]
    show ?thesis using st1 Some by (simp add: no_gap_iff)
  qed
qed

lemma approval_gate_passes:
  assumes "approval_gate tn s x a now = (s2, None)"
  shows "(ra_risk a = Risk_Low \<and> s2 = s) \<or>
     (ra_risk a \<noteq> Risk_Low \<and> truthy (xi_approval x) \<and>
      snd (consume_execution_approval tn s (execution_check_of x (ra_risk a)) None now) \<and>
      s2 = fst (consume_execution_approval tn s (execution_check_of x (ra_risk a)) None now))"
  using assms by (auto simp: approval_gate_def split: if_splits prod.splits)

definition risk_of_call :: "execution_deps \<Rightarrow> org_task \<Rightarrow> execute_input \<Rightarrow> tool_call \<Rightarrow> risk_assessment" where
  "risk_of_call d t x c = assess_execution_risk (tk_risk t) (execution_signals d x (tl_args c))"

lemma begin_execution_passes:
  assumes "begin_execution d tn st x now = (st', Inr c)"
  obtains t s2 where
    "require_executable_task tn (xs_wf st) (xi_org x) (xi_task x) (xi_worker x) = Inr t"
    "gap_gate d tn st x t now = (st, None)"
    "compile_arguments d x (persona_id_of_worker tn (xs_wf st) (xi_org x) (xi_worker x)) t = Inr (tl_args c)"
    "approval_gate tn (xs_wf st) x (risk_of_call d t x c) now = (s2, None)"
    "js_trim (xi_principal x) \<noteq> []"
    "c = call_of tn (persona_id_of_worker tn (xs_wf st) (xi_org x) (xi_worker x)) x
           (''worker:'' @ xi_worker x, js_trim (xi_principal x)) (tl_args c)"
    "transition_task_if_status tn s2 (xi_org x) (xi_task x) Task_Delegated Task_In_Progress None now
       (Some (xi_worker x)) None = (xs_wf st', True)"
    "xs_learning st' = xs_learning st"
proof -
  obtain t where t: "require_executable_task tn (xs_wf st) (xi_org x) (xi_task x) (xi_worker x) = Inr t"
    using assms by (auto simp: begin_execution_def split: sum.splits)
  obtain st1 where g1: "gap_gate d tn st x t now = (st1, None)"
    using assms t by (auto simp: begin_execution_def split: prod.splits option.splits)
  then have st1: "st1 = st" using gap_gate_passes by blast
  note g = g1 [unfolded st1]
  let ?p = "persona_id_of_worker tn (xs_wf st) (xi_org x) (xi_worker x)"
  obtain args where a: "compile_arguments d x ?p t = Inr args"
    using assms t g by (auto simp: begin_execution_def Let_def split: sum.splits)
  let ?r = "assess_execution_risk (tk_risk t) (execution_signals d x args)"
  obtain s2 where ag: "approval_gate tn (xs_wf st) x ?r now = (s2, None)"
    using assms t g a by (auto simp: begin_execution_def Let_def split: prod.splits option.splits)
  obtain actor where r: "resolve_worker_execution_actor (xi_worker x) (Some (xi_principal x)) = Inr actor"
    using assms t g a ag by (auto simp: begin_execution_def Let_def split: sum.splits)
  then have actor: "actor = (''worker:'' @ xi_worker x, js_trim (xi_principal x))"
    and p: "js_trim (xi_principal x) \<noteq> []"
    by (auto simp: resolve_worker_execution_actor_def Let_def split: if_splits)
  obtain s3 where s3: "transition_task_if_status tn s2 (xi_org x) (xi_task x) Task_Delegated
      Task_In_Progress None now (Some (xi_worker x)) None = (s3, True)"
    and st': "st' = st\<lparr>xs_wf := s3\<rparr>" and c: "c = call_of tn ?p x actor args"
    using assms t g a ag r
    by (auto simp: begin_execution_def Let_def split: prod.splits if_splits)
  have args: "args = tl_args c" by (simp add: c call_of_def)
  show thesis
  proof (rule that [of t s2])
    show "approval_gate tn (xs_wf st) x (risk_of_call d t x c) now = (s2, None)"
      using ag by (simp only: risk_of_call_def args)
    show "compile_arguments d x ?p t = Inr (tl_args c)" using a by (simp only: args)
    show "c = call_of tn ?p x (''worker:'' @ xi_worker x, js_trim (xi_principal x)) (tl_args c)"
      using c by (simp only: actor args)
    show "transition_task_if_status tn s2 (xi_org x) (xi_task x) Task_Delegated Task_In_Progress None
        now (Some (xi_worker x)) None = (xs_wf st', True)" using s3 st' by simp
    show "xs_learning st' = xs_learning st" using st' by simp
  qed (fact t, fact g, fact p)
qed

subsection \<open>Approvals along a run\<close>

lemma approval_gate_approvals:
  "wf_approvals (fst (approval_gate tn s x a now)) = wf_approvals s \<or>
   (\<exists>k. wf_approvals (fst (approval_gate tn s x a now)) = wf_approvals (approval_step tn s (Apc_Consume k None now)))"
proof (cases "ra_risk a = Risk_Low \<or> \<not> truthy (xi_approval x)")
  case False
  then have "fst (approval_gate tn s x a now)
      = fst (consume_execution_approval tn s (execution_check_of x (ra_risk a)) None now)"
    by (simp add: approval_gate_def split_beta)
  then show ?thesis by auto
qed (auto simp: approval_gate_def)

lemma begin_execution_approvals:
  "wf_approvals (xs_wf (fst (begin_execution d tn st x now))) = wf_approvals (xs_wf st) \<or>
   (\<exists>k. wf_approvals (xs_wf (fst (begin_execution d tn st x now)))
        = wf_approvals (approval_step tn (xs_wf st) (Apc_Consume k None now)))"
proof (cases "require_executable_task tn (xs_wf st) (xi_org x) (xi_task x) (xi_worker x)")
  case (Inl e)
  then show ?thesis by (simp add: begin_execution_def)
next
  case (Inr t)
  obtain st1 r where g: "gap_gate d tn st x t now = (st1, r)" by fastforce
  show ?thesis
  proof (cases r)
    case (Some r')
    with Inr g gap_gate_approvals [of d tn st x t now] show ?thesis by (simp add: begin_execution_def)
  next
    case None
    with g gap_gate_passes have st1: "st1 = st" by blast
    let ?p = "persona_id_of_worker tn (xs_wf st) (xi_org x) (xi_worker x)"
    show ?thesis
    proof (cases "compile_arguments d x ?p t")
      case Inl
      with Inr g None st1 show ?thesis by (simp add: begin_execution_def)
    next
      case args: (Inr args)
      let ?a = "assess_execution_risk (tk_risk t) (execution_signals d x args)"
      have "wf_approvals (xs_wf (fst (begin_execution d tn st x now)))
          = wf_approvals (fst (approval_gate tn (xs_wf st) x ?a now))"
        using Inr g None st1 args
        by (auto simp: begin_execution_def Let_def split: prod.splits option.splits sum.splits)
           (metis fst_conv task_statements_keep(1))+
      with approval_gate_approvals [of tn "xs_wf st" x ?a now] show ?thesis by metis
    qed
  qed
qed

definition run_commands :: "exec_event list \<Rightarrow> approval_command set" where
  "run_commands es = {c. Xe_Approval c \<in> set es \<or> (\<exists>k h now. c = Apc_Consume k h now)}"

lemma exec_step_approvals:
  "wf_approvals (xs_wf (em_state (exec_step d tn m e))) = wf_approvals (xs_wf (em_state m)) \<or>
   (\<exists>c \<in> run_commands [e]. wf_approvals (xs_wf (em_state (exec_step d tn m e)))
        = wf_approvals (approval_step tn (xs_wf (em_state m)) c))"
proof (cases e)
  case (Xe_Begin x now)
  have "em_state (exec_step d tn m e) = fst (begin_execution d tn (em_state m) x now)"
    by (simp add: Xe_Begin split: prod.splits sum.splits)
  moreover have "Apc_Consume k None now \<in> run_commands [e]" for k by (simp add: run_commands_def)
  ultimately show ?thesis using begin_execution_approvals [of d tn "em_state m" x now] by metis
next
  case (Xe_Finish n p now)
  then show ?thesis
    by (simp add: finish_execution_def Let_def split: pipeline_outcome.split)
next
  case (Xe_New_Task r)
  then show ?thesis by (simp add: on_wf_def insert_task_def)
qed (auto simp: on_wf_def run_commands_def)

lemma approvals_keyed_cong: "wf_approvals s = wf_approvals s' \<Longrightarrow> approvals_keyed s = approvals_keyed s'"
  and unconsumed_cong: "wf_approvals s = wf_approvals s' \<Longrightarrow> unconsumed tn s k = unconsumed tn s' k"
  and approvals_ok_cong: "wf_approvals s = wf_approvals s' \<Longrightarrow> approvals_ok cs s = approvals_ok cs s'"
  by (simp_all add: approvals_keyed_def unconsumed_def approvals_ok_def)

lemma exec_step_keyed:
  assumes "approvals_keyed (xs_wf (em_state m))"
  shows "approvals_keyed (xs_wf (em_state (exec_step d tn m e)))"
  using exec_step_approvals [of d tn m e] approval_step_keyed [OF assms, of tn] assms
    approvals_keyed_cong by metis

lemma exec_step_unconsumed:
  assumes "approvals_keyed (xs_wf (em_state m))" and "\<not> unconsumed tn (xs_wf (em_state m)) k"
  shows "\<not> unconsumed tn (xs_wf (em_state (exec_step d tn m e))) k"
  using exec_step_approvals [of d tn m e] unconsumed_step [OF assms] assms(2) unconsumed_cong by metis

text \<open>The approvals of a run are those of a run of the approval service.\<close>

lemma exec_run_approvals:
  assumes "wf_approvals (xs_wf (em_state m)) = []"
  shows "\<exists>cs. set cs \<subseteq> run_commands es \<and> approvals_ok cs (xs_wf (em_state (foldl (exec_step d tn) m es)))"
proof (induction es rule: rev_induct)
  case Nil
  show ?case by (rule exI [of _ "[]"]) (simp add: approvals_ok_def approvals_keyed_def assms)
next
  case (snoc e es)
  let ?m = "foldl (exec_step d tn) m es"
  obtain cs where cs: "set cs \<subseteq> run_commands es" and ok: "approvals_ok cs (xs_wf (em_state ?m))"
    using snoc by blast
  have mono: "run_commands es \<subseteq> run_commands (es @ [e])" "run_commands [e] \<subseteq> run_commands (es @ [e])"
    by (auto simp: run_commands_def)
  show ?case
    using exec_step_approvals [of d tn ?m e]
  proof (elim disjE bexE)
    assume "wf_approvals (xs_wf (em_state (exec_step d tn ?m e))) = wf_approvals (xs_wf (em_state ?m))"
    with ok have "approvals_ok cs (xs_wf (em_state (exec_step d tn ?m e)))" using approvals_ok_cong by metis
    with cs mono show ?thesis by (intro exI [of _ cs]) auto
  next
    fix c assume c: "c \<in> run_commands [e]" and
      "wf_approvals (xs_wf (em_state (exec_step d tn ?m e)))
        = wf_approvals (approval_step tn (xs_wf (em_state ?m)) c)"
    with approval_step_ok [OF ok, of c tn]
    have "approvals_ok (cs @ [c]) (xs_wf (em_state (exec_step d tn ?m e)))"
      using approvals_ok_cong by metis
    with c cs mono show ?thesis by (intro exI [of _ "cs @ [c]"]) auto
  qed
qed

subsection \<open>Starts of risky executions\<close>

definition starts_risky :: "execution_deps \<Rightarrow> ident \<Rightarrow> exec_machine \<Rightarrow> exec_event \<Rightarrow> bool" where
  "starts_risky d tn m e =
     (case e of
        Xe_Begin x now \<Rightarrow>
          (case (begin_execution d tn (em_state m) x now,
                 get_task tn (xs_wf (em_state m)) (xi_org x) (xi_task x)) of
             ((st', Inr c), Some t) \<Rightarrow> ra_risk (risk_of_call d t x c) \<noteq> Risk_Low
           | _ \<Rightarrow> False)
      | _ \<Rightarrow> False)"

definition exec_attempt ::
  "execution_deps \<Rightarrow> ident \<Rightarrow> exec_event \<Rightarrow> exec_machine \<Rightarrow> exec_machine \<times> bool" where
  "exec_attempt d tn e m = (exec_step d tn m e, starts_risky d tn m e)"

fun exec_key :: "exec_event \<Rightarrow> (ident \<times> ident) option" where
  "exec_key (Xe_Begin x now) = Some (xi_org x, the (xi_approval x))"
| "exec_key _ = None"

lemma require_executable_task_Inr:
  "require_executable_task tn s org i w = Inr t \<Longrightarrow>
   get_task tn s org i = Some t \<and> tk_assigned t = Some w \<and> tk_status t = Task_Delegated
   \<and> tk_allows_tools t \<and> (\<exists>v. get_worker tn s org w = Some v \<and> dw_status v = Emp_Active)"
  by (auto simp: require_executable_task_def split: option.splits if_splits)

lemma starts_risky_consumes:
  assumes "starts_risky d tn m (Xe_Begin x now)"
  obtains k where "ec_org k = xi_org x" "ec_approval k = the (xi_approval x)"
    "snd (consume_execution_approval tn (xs_wf (em_state m)) k None now)"
    "wf_approvals (xs_wf (em_state (exec_step d tn m (Xe_Begin x now))))
       = wf_approvals (fst (consume_execution_approval tn (xs_wf (em_state m)) k None now))"
proof -
  obtain st' c t0 where b: "begin_execution d tn (em_state m) x now = (st', Inr c)"
    and t0: "get_task tn (xs_wf (em_state m)) (xi_org x) (xi_task x) = Some t0"
    and risk: "ra_risk (risk_of_call d t0 x c) \<noteq> Risk_Low"
    using assms by (auto simp: starts_risky_def split: prod.splits sum.splits option.splits)
  from b show thesis
  proof (rule begin_execution_passes)
    fix t s2
    assume "require_executable_task tn (xs_wf (em_state m)) (xi_org x) (xi_task x) (xi_worker x) = Inr t"
    then have t: "t = t0" using t0 require_executable_task_Inr by fastforce
    assume "approval_gate tn (xs_wf (em_state m)) x (risk_of_call d t x c) now = (s2, None)"
    from approval_gate_passes [OF this] risk t
    have cons: "snd (consume_execution_approval tn (xs_wf (em_state m))
        (execution_check_of x (ra_risk (risk_of_call d t x c))) None now)"
      and s2: "s2 = fst (consume_execution_approval tn (xs_wf (em_state m))
        (execution_check_of x (ra_risk (risk_of_call d t x c))) None now)" by auto
    assume tr: "transition_task_if_status tn s2 (xi_org x) (xi_task x) Task_Delegated Task_In_Progress
        None now (Some (xi_worker x)) None = (xs_wf st', True)"
    have "wf_approvals (xs_wf st') = wf_approvals s2"
      using task_statements_keep(1) [of tn s2 "xi_org x" "xi_task x" Task_Delegated Task_In_Progress
          None now "Some (xi_worker x)" None] tr by simp
    then have "wf_approvals (xs_wf (em_state (exec_step d tn m (Xe_Begin x now)))) = wf_approvals s2"
      by (simp add: b)
    with cons s2 show thesis
      by (intro that [of "execution_check_of x (ra_risk (risk_of_call d t x c))"])
         (simp_all add: execution_check_of_def)
  qed
qed

interpretation risky_execution:
  guarded_one_shot "exec_attempt d tn" exec_key "\<lambda>m. unconsumed tn (xs_wf (em_state m))" "\<lambda>_ _. False"
    "\<lambda>m. approvals_keyed (xs_wf (em_state m))"
  for d tn
proof
  fix m :: exec_machine and e k
  assume g: "approvals_keyed (xs_wf (em_state m))"
  show "approvals_keyed (xs_wf (em_state (fst (exec_attempt d tn e m))))"
    using exec_step_keyed [OF g] by (simp add: exec_attempt_def)
  show "unconsumed tn (xs_wf (em_state m)) (exec_key e)" if w: "snd (exec_attempt d tn e m)"
  proof -
    obtain x now where e: "e = Xe_Begin x now" and w': "starts_risky d tn m (Xe_Begin x now)"
      using w by (cases e) (auto simp: exec_attempt_def starts_risky_def)
    from w' show ?thesis
    proof (rule starts_risky_consumes)
      fix k assume k: "ec_org k = xi_org x" "ec_approval k = the (xi_approval x)"
        and "snd (consume_execution_approval tn (xs_wf (em_state m)) k None now)"
      then have "usable tn (xs_wf (em_state m)) k None" by (simp add: consume_decides(1) [OF g])
      from usable_unconsumed [OF g this] k show ?thesis by (simp add: e)
    qed
  qed
  show "\<not> unconsumed tn (xs_wf (em_state (fst (exec_attempt d tn e m)))) (exec_key e)"
    if w: "snd (exec_attempt d tn e m)"
  proof -
    obtain x now where e: "e = Xe_Begin x now" and w': "starts_risky d tn m (Xe_Begin x now)"
      using w by (cases e) (auto simp: exec_attempt_def starts_risky_def)
    from w' show ?thesis
    proof (rule starts_risky_consumes)
      fix k assume k: "ec_org k = xi_org x" "ec_approval k = the (xi_approval x)"
        and c: "snd (consume_execution_approval tn (xs_wf (em_state m)) k None now)"
        and eq: "wf_approvals (xs_wf (em_state (exec_step d tn m (Xe_Begin x now))))
          = wf_approvals (fst (consume_execution_approval tn (xs_wf (em_state m)) k None now))"
      from approval_consume_takes [OF c] k unconsumed_cong [OF eq] show ?thesis
        by (simp add: e exec_attempt_def)
    qed
  qed
  show "\<not> unconsumed tn (xs_wf (em_state (fst (exec_attempt d tn e m)))) k"
    if "\<not> unconsumed tn (xs_wf (em_state m)) k"
    using exec_step_unconsumed [OF g that] by (simp add: exec_attempt_def)
qed

subsection \<open>Which tasks are in progress\<close>

definition tasks_ok :: "ident \<Rightarrow> (ident \<times> ident) set \<Rightarrow> org_task list \<Rightarrow> bool" where
  "tasks_ok tn ks t \<longleftrightarrow>
     distinct (map tk_id t)
     \<and> (\<forall>r \<in> set t. tk_tenant r = tn \<longrightarrow>
          (tk_status r = Task_In_Progress \<longleftrightarrow> (tk_org r, tk_id r) \<in> ks))
     \<and> (\<forall>k \<in> ks. \<exists>r \<in> set t. tk_tenant r = tn \<and> k = (tk_org r, tk_id r))"

definition same_task :: "org_task \<Rightarrow> org_task \<Rightarrow> bool" where
  "same_task r q \<longleftrightarrow> tk_tenant r = tk_tenant q \<and> tk_org r = tk_org q \<and> tk_id r = tk_id q"

lemma update_where_task_ids:
  "(\<And>r. same_task (f r) r) \<Longrightarrow> map tk_id (fst (update_where p f t)) = map tk_id t"
  unfolding update_where_fst by (rule map_if_column) (simp add: same_task_def)

text \<open>The effect of an update on which tasks are in progress.\<close>

lemma tasks_ok_update:
  assumes ok: "tasks_ok tn ks t" and same: "\<And>r. same_task (f r) r"
    and hit: "\<And>r. r \<in> set t \<Longrightarrow> p r \<Longrightarrow> tk_tenant r = tn \<Longrightarrow>
        (tk_status (f r) = Task_In_Progress \<longleftrightarrow> (tk_org r, tk_id r) \<in> ks')"
    and miss: "\<And>r. r \<in> set t \<Longrightarrow> \<not> p r \<Longrightarrow> tk_tenant r = tn \<Longrightarrow>
        ((tk_org r, tk_id r) \<in> ks' \<longleftrightarrow> (tk_org r, tk_id r) \<in> ks)"
    and sub: "\<And>k. k \<in> ks' \<Longrightarrow> \<exists>r \<in> set t. tk_tenant r = tn \<and> k = (tk_org r, tk_id r)"
  shows "tasks_ok tn ks' (fst (update_where p f t))"
proof -
  have s: "tk_tenant (f r) = tk_tenant r" "tk_org (f r) = tk_org r" "tk_id (f r) = tk_id r" for r
    using same [of r] by (simp_all add: same_task_def)
  have "distinct (map tk_id (fst (update_where p f t)))"
    using ok update_where_task_ids [OF same] by (simp add: tasks_ok_def)
  moreover have "\<forall>r \<in> set (fst (update_where p f t)). tk_tenant r = tn \<longrightarrow>
      (tk_status r = Task_In_Progress \<longleftrightarrow> (tk_org r, tk_id r) \<in> ks')"
    unfolding ball_update_where using ok hit miss by (simp add: s tasks_ok_def)
  moreover have "\<forall>k \<in> ks'. \<exists>r \<in> set (fst (update_where p f t)). tk_tenant r = tn \<and> k = (tk_org r, tk_id r)"
    unfolding bex_update_where using sub by (auto simp: s)
  ultimately show ?thesis unfolding tasks_ok_def by blast
qed

lemma tasks_ok_keep:
  assumes ok: "tasks_ok tn ks t" and "\<And>r. same_task (f r) r"
    and "\<And>r. r \<in> set t \<Longrightarrow> p r \<Longrightarrow> tk_status (f r) = Task_In_Progress \<longleftrightarrow> tk_status r = Task_In_Progress"
  shows "tasks_ok tn ks (fst (update_where p f t))"
  by (rule tasks_ok_update [OF ok]) (use assms in \<open>auto simp: tasks_ok_def\<close>)

lemma set_execution_same: "same_task (set_execution st note' why now r) r"
  by (simp add: same_task_def set_execution_def)

lemma tasks_ok_transition:
  assumes "tasks_ok tn ks (wf_tasks s)" and "e \<noteq> Task_In_Progress" and "st \<noteq> Task_In_Progress"
  shows "tasks_ok tn ks (wf_tasks (fst (transition_task_if_status tn s org i e st note' now a why)))"
  unfolding transition_task_if_status_def split_beta Let_def
  by (simp, rule tasks_ok_keep [OF assms(1) set_execution_same])
     (use assms(2,3) in \<open>simp add: set_execution_def\<close>)

lemma tasks_ok_reassign:
  assumes "tasks_ok tn ks (wf_tasks s)"
  shows "tasks_ok tn ks (wf_tasks (fst (reassign_if_held tn s org i a b now)))"
    and "tasks_ok tn ks (wf_tasks (fst (reassign_task_if_held tn s org i a b now)))"
  unfolding reassign_if_held_def reassign_task_if_held_def split_beta Let_def
  by (simp_all, (rule tasks_ok_keep [OF assms], simp_all add: same_task_def)+)

lemma tasks_ok_wake:
  assumes "tasks_ok tn ks (wf_tasks s)"
  shows "tasks_ok tn ks (wf_tasks (fst (wake_blocked_task tn s org i note' e now)))"
  unfolding wake_blocked_task_def split_beta Let_def
  by (simp, rule tasks_ok_keep [OF assms]) (simp_all add: same_task_def wakeable_def)

lemma tasks_ok_insert:
  assumes "tasks_ok tn ks (wf_tasks s)" and "insert_task r s = Some s'" and "tk_status r \<noteq> Task_In_Progress"
  shows "tasks_ok tn ks (wf_tasks s')"
proof -
  have r: "tk_id r \<notin> tk_id ` set (wf_tasks s)" and s': "wf_tasks s' = wf_tasks s @ [r]"
    using assms(2) by (auto simp: insert_task_def list_ex_iff split: if_splits)
  have "(tk_org r, tk_id r) \<notin> ks"
  proof
    assume "(tk_org r, tk_id r) \<in> ks"
    then have "\<exists>q \<in> set (wf_tasks s). tk_tenant q = tn \<and> (tk_org r, tk_id r) = (tk_org q, tk_id q)"
      using assms(1) unfolding tasks_ok_def by blast
    with r show False by auto
  qed
  with assms(1,3) r show ?thesis unfolding tasks_ok_def s' by auto
qed

lemma tasks_ok_start:
  assumes ok: "tasks_ok tn ks (wf_tasks s)"
    and tr: "transition_task_if_status tn s org i Task_Delegated Task_In_Progress note' now a why = (s', True)"
  shows "tasks_ok tn (insert (org, i) ks) (wf_tasks s') \<and> (org, i) \<notin> ks"
proof -
  let ?p = "\<lambda>r. task_at tn org i r \<and> tk_status r = Task_Delegated \<and> (a = None \<or> tk_assigned r = a)"
  have s': "wf_tasks s' = fst (update_where ?p (set_execution Task_In_Progress note' why now) (wf_tasks s))"
    and "\<exists>r \<in> set (wf_tasks s). ?p r"
    using tr by (auto simp: transition_task_if_status_def split_beta Let_def)
  then obtain r where r: "r \<in> set (wf_tasks s)" "?p r" by blast
  have uniq: "q = r" if "q \<in> set (wf_tasks s)" "tk_id q = i" for q
    using ok r that by (auto simp: tasks_ok_def task_at_def distinct_map dest: inj_onD)
  have "tk_tenant r = tn \<longrightarrow> (tk_status r = Task_In_Progress \<longleftrightarrow> (tk_org r, tk_id r) \<in> ks)"
    using ok r(1) unfolding tasks_ok_def by blast
  with r(2) have new: "(org, i) \<notin> ks" by (auto simp: task_at_def)
  have "tasks_ok tn (insert (org, i) ks) (wf_tasks s')"
    unfolding s'
  proof (rule tasks_ok_update [OF ok set_execution_same])
    fix q assume q: "q \<in> set (wf_tasks s)" "\<not> ?p q" "tk_tenant q = tn"
    then have "tk_id q \<noteq> i" using uniq [of q] r(2) by blast
    then show "(tk_org q, tk_id q) \<in> insert (org, i) ks \<longleftrightarrow> (tk_org q, tk_id q) \<in> ks" by simp
  next
    fix k assume k: "k \<in> insert (org, i) ks"
    show "\<exists>r \<in> set (wf_tasks s). tk_tenant r = tn \<and> k = (tk_org r, tk_id r)"
    proof (cases "k = (org, i)")
      case True
      with r show ?thesis by (auto simp: task_at_def intro!: bexI [of _ r])
    next
      case False
      with k ok show ?thesis unfolding tasks_ok_def by blast
    qed
  qed (auto simp: set_execution_def task_at_def)
  with new show ?thesis by blast
qed

lemma tasks_ok_finish:
  assumes ok: "tasks_ok tn ks (wf_tasks s)" and st: "st \<noteq> Task_In_Progress"
  shows "tasks_ok tn (ks - {(org, i)}) (wf_tasks (update_task_execution tn s org i st note' why now))"
  unfolding update_task_execution_def
proof (simp, rule tasks_ok_update [OF ok set_execution_same])
  fix k assume "k \<in> ks - {(org, i)}"
  with ok show "\<exists>r \<in> set (wf_tasks s). tk_tenant r = tn \<and> k = (tk_org r, tk_id r)"
    unfolding tasks_ok_def by blast
qed (use st in \<open>auto simp: set_execution_def task_at_def\<close>)

lemma gap_gate_tasks:
  assumes ok: "tasks_ok tn ks (wf_tasks (xs_wf st))"
  shows "tasks_ok tn ks (wf_tasks (xs_wf (fst (gap_gate d tn st x t now))))"
proof -
  have d: "tasks_ok tn ks (wf_tasks s2)" if "dispose tn wi dg ls (xs_wf st) org t' me ms u = (s2, r)"
    for wi dg ls org t' me ms u s2 r
  proof -
    have "tasks_ok tn ks (wf_tasks (fst (dispose tn wi dg ls (xs_wf st) org t' me ms u)))"
      using ok by (simp add: dispose_def Let_def split_beta tasks_ok_reassign tasks_ok_transition
          split: option.split)
    with that show ?thesis by simp
  qed
  have tr: "tasks_ok tn ks (wf_tasks s3)"
    if "transition_task_if_status tn s2 org i Task_Delegated Task_Blocked nt u a why = (s3, b)"
      "tasks_ok tn ks (wf_tasks s2)" for s2 s3 org i nt u a why b
    using tasks_ok_transition [OF that(2), of Task_Delegated Task_Blocked org i nt u a why] that(1) by simp
  show ?thesis
    using ok
    by (auto simp: gap_gate_def Let_def dest: d tr split: option.splits prod.splits sum.splits disposition.splits)
qed

lemma consume_tasks [simp]:
  "wf_tasks (fst (consume_execution_approval tn s k h now)) = wf_tasks s"
  using consume_execution_approval_cases [of tn s k h now]
  by (auto simp: expire_stale_approvals_def consume_approval_if_unused_def split_beta Let_def)

lemma approval_step_tasks [simp]: "wf_tasks (approval_step tn s c) = wf_tasks s"
proof -
  have d: "wf_tasks (fst (decide_approval_if_pending tn s org i st w u now)) = wf_tasks s"
    for org i st w u now
    by (simp add: decide_approval_if_pending_def split_beta Let_def)
  have d': "wf_tasks s' = wf_tasks s" if "decide_approval_if_pending tn s org i st w u now = (s', ok)"
    for org i st w u now s' ok
    using d [of org i st w u now] that by simp
  show ?thesis
    by (cases c) (auto simp: keep_on_error_def approve_by_human_def approve_by_worker_def
        approval_reject_def approval_request_def insert_approval_def is_approval_cleared_def
        is_execution_approval_cleared_def expire_stale_approvals_def set_approval_arguments_hash_def
        Let_def dest: d' split: sum.splits prod.splits option.splits if_splits)
qed

definition waiting_key :: "execute_input \<Rightarrow> ident \<times> ident" where
  "waiting_key x = (xi_org x, xi_task x)"

definition progress_ok :: "ident \<Rightarrow> exec_machine \<Rightarrow> bool" where
  "progress_ok tn m \<longleftrightarrow>
     distinct (map waiting_key (em_waiting m))
     \<and> tasks_ok tn (waiting_key ` set (em_waiting m)) (wf_tasks (xs_wf (em_state m)))"

lemma failed_transition_tasks:
  "transition_task_if_status tn s org i e st note' now a why = (s', False) \<Longrightarrow> wf_tasks s' = wf_tasks s"
  by (auto simp: transition_task_if_status_def split_beta Let_def update_where_miss_id update_where_misses)

lemma approval_gate_tasks:
  "approval_gate tn s x a now = (s2, r) \<Longrightarrow> wf_tasks s2 = wf_tasks s"
  by (auto simp: approval_gate_def split: if_splits prod.splits)
     (metis consume_tasks fst_conv)+

lemma begin_execution_refused_tasks:
  assumes ok: "tasks_ok tn ks (wf_tasks (xs_wf st))" and b: "begin_execution d tn st x now = (st', Inl r)"
  shows "tasks_ok tn ks (wf_tasks (xs_wf st'))"
proof (cases "require_executable_task tn (xs_wf st) (xi_org x) (xi_task x) (xi_worker x)")
  case (Inl e)
  with b ok show ?thesis by (simp add: begin_execution_def)
next
  case (Inr t)
  obtain st1 q where g: "gap_gate d tn st x t now = (st1, q)" by fastforce
  have ok1: "tasks_ok tn ks (wf_tasks (xs_wf st1))" using gap_gate_tasks [OF ok, of d x t now] g by simp
  show ?thesis
  proof (cases q)
    case (Some q')
    with b Inr g ok1 show ?thesis by (simp add: begin_execution_def)
  next
    case None
    let ?p = "persona_id_of_worker tn (xs_wf st1) (xi_org x) (xi_worker x)"
    show ?thesis
    proof (cases "compile_arguments d x ?p t")
      case (Inl e)
      with b Inr g None ok1 show ?thesis by (simp add: begin_execution_def)
    next
      case args: (Inr args)
      obtain s2 q2 where a: "approval_gate tn (xs_wf st1) x
          (assess_execution_risk (tk_risk t) (execution_signals d x args)) now = (s2, q2)" by fastforce
      have s2: "wf_tasks s2 = wf_tasks (xs_wf st1)" using approval_gate_tasks [OF a] .
      have "wf_tasks (xs_wf st') = wf_tasks (xs_wf st1)"
        using b Inr g None args a s2
        by (auto simp: begin_execution_def Let_def dest: failed_transition_tasks
            split: option.splits sum.splits prod.splits if_splits)
      with ok1 show ?thesis by simp
    qed
  qed
qed

lemma finish_execution_tasks:
  assumes "tasks_ok tn ks (wf_tasks (xs_wf st))"
  shows "tasks_ok tn (ks - {waiting_key x}) (wf_tasks (xs_wf (fst (finish_execution tn st x p now))))"
  using tasks_ok_finish [OF assms]
  by (simp add: finish_execution_def Let_def waiting_key_def split: pipeline_outcome.split)

lemma begin_execution_started_tasks:
  assumes ok: "tasks_ok tn ks (wf_tasks (xs_wf st))" and b: "begin_execution d tn st x now = (st', Inr c)"
  shows "tasks_ok tn (insert (waiting_key x) ks) (wf_tasks (xs_wf st')) \<and> waiting_key x \<notin> ks"
  using b
proof (rule begin_execution_passes)
  fix t s2
  assume "approval_gate tn (xs_wf st) x (risk_of_call d t x c) now = (s2, None)"
    and tr: "transition_task_if_status tn s2 (xi_org x) (xi_task x) Task_Delegated Task_In_Progress None
      now (Some (xi_worker x)) None = (xs_wf st', True)"
  then have "tasks_ok tn ks (wf_tasks s2)" using ok approval_gate_tasks by metis
  from tasks_ok_start [OF this tr] show ?thesis by (simp add: waiting_key_def)
qed

lemma exec_step_progress:
  assumes "progress_ok tn m"
  shows "progress_ok tn (exec_step d tn m e)"
proof -
  let ?ks = "waiting_key ` set (em_waiting m)"
  have dist: "distinct (map waiting_key (em_waiting m))"
    and ok: "tasks_ok tn ?ks (wf_tasks (xs_wf (em_state m)))"
    using assms by (simp_all add: progress_ok_def)
  show ?thesis
  proof (cases e)
    case (Xe_Begin x now)
    obtain st r where b: "begin_execution d tn (em_state m) x now = (st, r)" by fastforce
    show ?thesis
    proof (cases r)
      case (Inl q)
      with begin_execution_refused_tasks [OF ok b [unfolded Inl]] dist b Xe_Begin show ?thesis
        by (simp add: progress_ok_def)
    next
      case (Inr c)
      with begin_execution_started_tasks [OF ok b [unfolded Inr]] dist b Xe_Begin show ?thesis
        by (auto simp: progress_ok_def)
    qed
  next
    case (Xe_Finish n p now)
    show ?thesis
    proof (cases "n < length (em_waiting m)")
      case True
      let ?x = "em_waiting m ! n"
      let ?rest = "take n (em_waiting m) @ drop (Suc n) (em_waiting m)"
      have split: "em_waiting m = take n (em_waiting m) @ ?x # drop (Suc n) (em_waiting m)"
        using True by (rule id_take_nth_drop)
      then have "distinct (map waiting_key (take n (em_waiting m) @ ?x # drop (Suc n) (em_waiting m)))"
        using dist by simp
      then have d': "distinct (map waiting_key ?rest)" and "waiting_key ?x \<notin> waiting_key ` set ?rest"
        by auto
      moreover have "?ks = insert (waiting_key ?x) (waiting_key ` set ?rest)"
        by (subst split) auto
      ultimately have "?ks - {waiting_key ?x} = waiting_key ` set ?rest" by blast
      with finish_execution_tasks [OF ok, of ?x p now] d' True Xe_Finish show ?thesis
        by (simp add: progress_ok_def)
    qed (use assms Xe_Finish in simp)
  next
    case (Xe_New_Task r)
    with dist ok show ?thesis
      by (auto simp: progress_ok_def on_wf_def intro: tasks_ok_insert split: option.splits)
  qed (use dist ok in \<open>auto simp: progress_ok_def on_wf_def intro: tasks_ok_reassign tasks_ok_wake\<close>)
qed

interpretation executions: invariant_machine "exec_step d tn" "progress_ok tn" for d tn
  by unfold_locales (rule exec_step_progress)

lemma exec_run_attempts:
  "foldl (\<lambda>m e. fst (exec_attempt d tn e m)) m es = foldl (exec_step d tn) m es"
  by (simp add: exec_attempt_def)

subsection \<open>Properties\<close>

text \<open>
  The pipeline is called for a task only when all of this held in the same call: the task was
  delegated to this worker and allows tools, the worker is active, no capability the task requires
  is missing, a person is named, and, unless the risk is low, an approval of this task and worker
  with at least this risk was still unused. The risk is that of the very arguments of the call; the
  call names the worker and the person, and runs in the worker's own persona.
\<close>

theorem tool_call_passes_every_gate:
  assumes "distinct (map ap_id (wf_approvals (xs_wf st)))"
    and "begin_execution d tn st x now = (st', Inr c)"
  shows "\<exists>t v a. get_task tn (xs_wf st) (xi_org x) (xi_task x) = Some t \<and>
     tk_assigned t = Some (xi_worker x) \<and> tk_status t = Task_Delegated \<and> tk_allows_tools t \<and>
     get_worker tn (xs_wf st) (xi_org x) (xi_worker x) = Some v \<and> dw_status v = Emp_Active \<and>
     (\<forall>wi. xd_learning d = Some wi \<longrightarrow> normalize_capability ` set (tk_capabilities t) - {[]} \<subseteq>
        normalize_capability ` set (list_learned_capabilities tn wi (xs_learning st) (dw_persona v))) \<and>
     js_trim (xi_principal x) \<noteq> [] \<and> tl_principal c = js_trim (xi_principal x) \<and>
     tl_invoker c = ''worker:'' @ xi_worker x \<and> tl_persona c = dw_persona v \<and> tl_tool c = xi_tool x \<and>
     a = assess_execution_risk (tk_risk t) (execution_signals d x (tl_args c)) \<and>
     (ra_risk a \<noteq> Risk_Low \<longrightarrow>
        (\<exists>p. get_approval tn (xs_wf st) (xi_org x) (the (xi_approval x)) = Some p \<and>
           ap_status p = Ap_Approved \<and> ap_consumed_at p = None \<and>
           ap_subject_type p = Task_Execution \<and> ap_subject p = xi_task x \<and>
           ap_requester p = xi_worker x \<and> ra_risk a \<le> ap_risk p))"
  using assms(2)
proof (rule begin_execution_passes)
  fix t :: org_task and s2 :: workforce
  let ?p = "persona_id_of_worker tn (xs_wf st) (xi_org x) (xi_worker x)"
  let ?a = "assess_execution_risk (tk_risk t) (execution_signals d x (tl_args c))"
  assume req: "require_executable_task tn (xs_wf st) (xi_org x) (xi_task x) (xi_worker x) = Inr t"
    and g: "gap_gate d tn st x t now = (st, None)"
    and ag: "approval_gate tn (xs_wf st) x (risk_of_call d t x c) now = (s2, None)"
    and pr: "js_trim (xi_principal x) \<noteq> []"
    and c: "c = call_of tn ?p x (''worker:'' @ xi_worker x, js_trim (xi_principal x)) (tl_args c)"
  obtain v where v: "get_worker tn (xs_wf st) (xi_org x) (xi_worker x) = Some v" "dw_status v = Emp_Active"
    and t: "get_task tn (xs_wf st) (xi_org x) (xi_task x) = Some t" "tk_assigned t = Some (xi_worker x)"
      "tk_status t = Task_Delegated" "tk_allows_tools t"
    using require_executable_task_Inr [OF req] by blast
  have p: "?p = dw_persona v" using v by (simp add: persona_id_of_worker_def)
  have call: "tl_principal c = js_trim (xi_principal x)" "tl_invoker c = ''worker:'' @ xi_worker x"
    "tl_persona c = dw_persona v" "tl_tool c = xi_tool x"
    by (subst c, simp add: call_of_def p)+
  have gap: "\<forall>wi. xd_learning d = Some wi \<longrightarrow> normalize_capability ` set (tk_capabilities t) - {[]} \<subseteq>
        normalize_capability ` set (list_learned_capabilities tn wi (xs_learning st) (dw_persona v))"
    using gap_gate_passes [OF g] p by auto
  have k: "approvals_keyed (xs_wf st)" using assms(1) by (simp add: approvals_keyed_def)
  have "\<exists>q. get_approval tn (xs_wf st) (xi_org x) (the (xi_approval x)) = Some q \<and>
           ap_status q = Ap_Approved \<and> ap_consumed_at q = None \<and>
           ap_subject_type q = Task_Execution \<and> ap_subject q = xi_task x \<and>
           ap_requester q = xi_worker x \<and> ra_risk ?a \<le> ap_risk q" if "ra_risk ?a \<noteq> Risk_Low"
  proof -
    have "snd (consume_execution_approval tn (xs_wf st) (execution_check_of x (ra_risk ?a)) None now)"
      using approval_gate_passes [OF ag] that by (simp add: risk_of_call_def)
    then have "usable tn (xs_wf st) (execution_check_of x (ra_risk ?a)) None"
      by (simp add: consume_decides(1) [OF k])
    then show ?thesis
      by (auto simp: usable_def approval_covers_def execution_check_of_def less_eq_risk_level_def)
  qed
  with t v call gap pr show ?thesis by blast
qed

definition demo_task :: org_task where
  "demo_task = \<lparr> tk_tenant = ''t'', tk_org = ''o'', tk_id = ''task'', tk_goal = ''g'', tk_parent = None,
     tk_assigned = Some ''ic'', tk_accountable = ''boss'', tk_title = [], tk_type = [], tk_status = Task_Delegated,
     tk_risk = Risk_High, tk_allows_tools = True, tk_criteria = [], tk_capabilities = [],
     tk_summary = None, tk_blocked = None, tk_due_at = None, tk_resume_count = 0, tk_last_wake = None,
     tk_created_at = 0, tk_updated_at = 0 \<rparr>"

definition demo_machine :: exec_machine where
  "demo_machine = \<lparr> em_state = \<lparr> xs_wf = demo_workforce\<lparr>wf_tasks := [demo_task]\<rparr>,
     xs_learning = \<lparr> ls_requests = [], ls_index = [], ls_ids = 0 \<rparr> \<rparr>, em_waiting = [] \<rparr>"

definition demo_deps :: execution_deps where
  "demo_deps = \<lparr> xd_learning = None, xd_disposition = None, xd_compile = None, xd_schema = None,
     xd_risk = None, xd_idgen = (\<lambda>_. []) \<rparr>"

definition demo_input :: execute_input where
  "demo_input = \<lparr> xi_org = ''o'', xi_task = ''task'', xi_worker = ''ic'', xi_principal = ''owner'',
     xi_tool = ''pay'', xi_args = JNull, xi_signals = None, xi_approval = Some ''a'', xi_token = None \<rparr>"

definition demo_approved :: "exec_event list" where
  "demo_approved = [Xe_Approval (Apc_Request (demo_request Risk_High) ''a'' 0),
                    Xe_Approval (Apc_Human ''o'' ''a'' ''owner'' 5)]"

definition demo_ready :: exec_machine where
  "demo_ready = foldl (exec_step demo_deps ''t'') demo_machine demo_approved"

lemma demo_begins:
  "\<exists>st' c. begin_execution demo_deps ''t'' (em_state demo_ready) demo_input 7 = (st', Inr c)"
proof -
  have "case snd (begin_execution demo_deps ''t'' (em_state demo_ready) demo_input 7) of
      Inr _ \<Rightarrow> True | Inl _ \<Rightarrow> False" by code_simp
  then show ?thesis by (metis sum.case_eq_if prod.collapse sum.collapse(2))
qed

lemma demo_ready_ids: "distinct (map ap_id (wf_approvals (xs_wf (em_state demo_ready))))"
  by code_simp

lemma demo_ready_task:
  "get_task ''t'' (xs_wf (em_state demo_ready)) ''o'' ''task'' = Some demo_task"
  by (simp del: approval_step.simps add: demo_ready_def demo_approved_def on_wf_def demo_machine_def get_task_def task_at_def
      demo_task_def)

lemma tool_call_passes_every_gate_witness:
  "\<exists>st' c t. begin_execution demo_deps ''t'' (em_state demo_ready) demo_input 7 = (st', Inr c) \<and>
     get_task ''t'' (xs_wf (em_state demo_ready)) ''o'' ''task'' = Some t \<and> tk_assigned t = Some ''ic''"
proof -
  obtain st' c where b: "begin_execution demo_deps ''t'' (em_state demo_ready) demo_input 7 = (st', Inr c)"
    using demo_begins by blast
  from tool_call_passes_every_gate [OF demo_ready_ids b] b show ?thesis
    by (auto simp: demo_input_def)
qed



text \<open>
  C3: In any run that starts without approvals, a call of the pipeline at a high risk was approved
  by a person: that person, with a non-blank name, approved the approval the call uses, before it
  expired and before the call.
\<close>

theorem high_risk_run_needs_a_person:
  assumes "wf_approvals (xs_wf (em_state m0)) = []" and "m = foldl (exec_step d tn) m0 es"
    and "begin_execution d tn (em_state m) x now = (st', Inr c)"
    and "get_task tn (xs_wf (em_state m)) (xi_org x) (xi_task x) = Some t"
    and "ra_risk (assess_execution_risk (tk_risk t) (execution_signals d x (tl_args c))) = Risk_High"
  shows "\<exists>u decided. js_trim u \<noteq> [] \<and>
     Xe_Approval (Apc_Human (xi_org x) (the (xi_approval x)) u decided) \<in> set es"
proof -
  obtain cs where cs: "set cs \<subseteq> run_commands es" and ok: "approvals_ok cs (xs_wf (em_state m))"
    using exec_run_approvals [OF assms(1), of es d tn] assms(2) by blast
  have k: "approvals_keyed (xs_wf (em_state m))" using ok by (simp add: approvals_ok_def)
  then have d: "distinct (map ap_id (wf_approvals (xs_wf (em_state m))))" by (simp add: approvals_keyed_def)
  from assms(3) show ?thesis
  proof (rule begin_execution_passes)
    fix t' :: org_task and s2 :: workforce
    assume "require_executable_task tn (xs_wf (em_state m)) (xi_org x) (xi_task x) (xi_worker x) = Inr t'"
    then have t': "t' = t" using assms(4) require_executable_task_Inr by fastforce
    assume "approval_gate tn (xs_wf (em_state m)) x (risk_of_call d t' x c) now = (s2, None)"
    from approval_gate_passes [OF this] assms(5) t'
    have "snd (consume_execution_approval tn (xs_wf (em_state m)) (execution_check_of x Risk_High) None now)"
      by (simp add: risk_of_call_def)
    then have "usable tn (xs_wf (em_state m)) (execution_check_of x Risk_High) None"
      by (simp add: consume_decides(1) [OF k])
    then obtain p where g: "get_approval tn (xs_wf (em_state m)) (xi_org x) (the (xi_approval x)) = Some p"
      and "ap_status p = Ap_Approved" and "risk_order Risk_High \<le> risk_order (ap_risk p)"
      unfolding usable_def approval_covers_def execution_check_of_def by auto
    moreover from this(3) have high: "ap_risk p = Risk_High" by (cases "ap_risk p") simp_all
    moreover have "p \<in> set (wf_approvals (xs_wf (em_state m)))" "ap_org p = xi_org x"
      "ap_id p = the (xi_approval x)"
      using get_approval_SomeD [OF g] by (simp_all add: approval_at_def)
    ultimately have "entitled cs p" using ok by (simp add: approvals_ok_def)
    with high obtain u decided where "js_trim u \<noteq> []"
      and "Apc_Human (xi_org x) (the (xi_approval x)) u decided \<in> set cs"
      using \<open>ap_org p = xi_org x\<close> \<open>ap_id p = the (xi_approval x)\<close> by (auto simp: entitled_def)
    with cs show ?thesis by (auto simp: run_commands_def)
  qed
qed

lemma high_risk_run_needs_a_person_witness:
  "\<exists>u decided. js_trim u \<noteq> [] \<and> Xe_Approval (Apc_Human ''o'' ''a'' u decided) \<in> set demo_approved"
proof -
  obtain st' c where b: "begin_execution demo_deps ''t'' (em_state demo_ready) demo_input 7 = (st', Inr c)"
    using demo_begins by blast
  have "wf_approvals (xs_wf (em_state demo_machine)) = []" by (simp add: demo_machine_def demo_workforce_def)
  moreover have "get_task ''t'' (xs_wf (em_state demo_ready)) (xi_org demo_input) (xi_task demo_input)
      = Some demo_task" using demo_ready_task by (simp add: demo_input_def)
  moreover have "ra_risk (assess_execution_risk (tk_risk demo_task)
      (execution_signals demo_deps demo_input (tl_args c))) = Risk_High"
    by (simp add: demo_task_def demo_deps_def demo_input_def execution_signals_def assess_execution_risk_def
        no_signals_def max_def less_eq_risk_level_def)
  ultimately show ?thesis
    using high_risk_run_needs_a_person [OF _ demo_ready_def b] by (simp add: demo_input_def)
qed

text \<open>
  C7: One approval starts at most one execution above a low risk, also when that execution came
  back for the second confirmation of the pipeline: whatever happens in between, a later execution
  with the same approval is let through only at a low risk. A confirmed retry of a risky call
  therefore needs another approval.
\<close>

theorem approval_starts_one_run:
  assumes "distinct (map ap_id (wf_approvals (xs_wf (em_state m))))"
    and "begin_execution d tn (em_state m) x now = (st1, Inr c)"
    and "get_task tn (xs_wf (em_state m)) (xi_org x) (xi_task x) = Some t"
    and "ra_risk (assess_execution_risk (tk_risk t) (execution_signals d x (tl_args c))) \<noteq> Risk_Low"
    and "m2 = foldl (exec_step d tn) (exec_step d tn m (Xe_Begin x now)) es"
    and "xi_org x2 = xi_org x" and "xi_approval x2 = xi_approval x"
    and "begin_execution d tn (em_state m2) x2 now2 = (st2, Inr c2)"
    and "get_task tn (xs_wf (em_state m2)) (xi_org x2) (xi_task x2) = Some t2"
  shows "ra_risk (assess_execution_risk (tk_risk t2) (execution_signals d x2 (tl_args c2))) = Risk_Low"
proof (rule ccontr)
  assume risky: "ra_risk (assess_execution_risk (tk_risk t2) (execution_signals d x2 (tl_args c2))) \<noteq> Risk_Low"
  let ?k = "exec_key (Xe_Begin x now)"
  have k: "approvals_keyed (xs_wf (em_state m))" using assms(1) by (simp add: approvals_keyed_def)
  have "snd (exec_attempt d tn (Xe_Begin x now) m)"
    using assms(2,3,4) by (simp add: exec_attempt_def starts_risky_def risk_of_call_def)
  from risky_execution.guarded_win_takes [OF k this] risky_execution.guard_kept [OF k, of d tn "Xe_Begin x now"]
  have "\<not> unconsumed tn (xs_wf (em_state (exec_step d tn m (Xe_Begin x now)))) ?k"
    and k1: "approvals_keyed (xs_wf (em_state (exec_step d tn m (Xe_Begin x now))))"
    by (simp_all add: exec_attempt_def)
  from risky_execution.guarded_taken_run [OF k1 this(1), of es d]
  have taken: "\<not> unconsumed tn (xs_wf (em_state m2)) ?k" and k2: "approvals_keyed (xs_wf (em_state m2))"
    unfolding exec_run_attempts assms(5) by simp_all
  have "snd (exec_attempt d tn (Xe_Begin x2 now2) m2)"
    using assms(8,9) risky by (simp add: exec_attempt_def starts_risky_def risk_of_call_def)
  from risky_execution.guarded_win_vacant [OF k2 this] taken assms(6,7) show False by simp
qed

lemma demo_machine_ids: "distinct (map ap_id (wf_approvals (xs_wf (em_state demo_ready))))"
  by (rule demo_ready_ids)

definition demo_low_task :: org_task where
  "demo_low_task = demo_task\<lparr>tk_id := ''low'', tk_risk := Risk_Low\<rparr>"

definition demo_retry :: exec_machine where
  "demo_retry = foldl (exec_step demo_deps ''t'')
     (exec_step demo_deps ''t'' demo_ready (Xe_Begin demo_input 7)) [Xe_New_Task demo_low_task]"

lemma demo_retry_begins:
  "\<exists>st' c t. begin_execution demo_deps ''t'' (em_state demo_retry) (demo_input\<lparr>xi_task := ''low''\<rparr>) 9
       = (st', Inr c) \<and> get_task ''t'' (xs_wf (em_state demo_retry)) ''o'' ''low'' = Some t"
proof -
  have "case snd (begin_execution demo_deps ''t'' (em_state demo_retry) (demo_input\<lparr>xi_task := ''low''\<rparr>) 9) of
      Inr _ \<Rightarrow> True | Inl _ \<Rightarrow> False" by code_simp
  moreover have "\<not> Option.is_none (get_task ''t'' (xs_wf (em_state demo_retry)) ''o'' ''low'')" by code_simp
  ultimately show ?thesis by (metis sum.case_eq_if prod.collapse sum.collapse(2) Option.is_none_def option.exhaust)
qed

lemma approval_starts_one_run_witness:
  "\<exists>st' c t. begin_execution demo_deps ''t'' (em_state demo_retry) (demo_input\<lparr>xi_task := ''low''\<rparr>) 9
       = (st', Inr c) \<and> get_task ''t'' (xs_wf (em_state demo_retry)) ''o'' ''low'' = Some t \<and>
     ra_risk (assess_execution_risk (tk_risk t) no_signals) = Risk_Low"
proof -
  obtain st' c where b: "begin_execution demo_deps ''t'' (em_state demo_ready) demo_input 7 = (st', Inr c)"
    using demo_begins by blast
  have t: "get_task ''t'' (xs_wf (em_state demo_ready)) (xi_org demo_input) (xi_task demo_input)
      = Some demo_task" using demo_ready_task by (simp add: demo_input_def)
  have r: "ra_risk (assess_execution_risk (tk_risk demo_task)
      (execution_signals demo_deps demo_input (tl_args c))) \<noteq> Risk_Low"
    by (simp add: demo_task_def demo_deps_def demo_input_def execution_signals_def assess_execution_risk_def
        no_signals_def max_def less_eq_risk_level_def)
  obtain st2 c2 t2 where b2: "begin_execution demo_deps ''t'' (em_state demo_retry)
      (demo_input\<lparr>xi_task := ''low''\<rparr>) 9 = (st2, Inr c2)"
    and t2: "get_task ''t'' (xs_wf (em_state demo_retry)) ''o'' ''low'' = Some t2"
    using demo_retry_begins by blast
  have t2': "get_task ''t'' (xs_wf (em_state demo_retry)) (xi_org (demo_input\<lparr>xi_task := ''low''\<rparr>))
      (xi_task (demo_input\<lparr>xi_task := ''low''\<rparr>)) = Some t2" using t2 by (simp add: demo_input_def)
  have "execution_signals demo_deps (demo_input\<lparr>xi_task := ''low''\<rparr>) (tl_args c2) = no_signals"
    by (simp add: execution_signals_def demo_deps_def demo_input_def)
  with approval_starts_one_run [OF demo_machine_ids b t r demo_retry_def _ _ b2 t2'] b2 t2 show ?thesis
    by auto
qed

lemma gap_gate_arguments: "gap_gate d tn st (x\<lparr>xi_args := args\<rparr>) t now = gap_gate d tn st x t now"
proof -
  have eqs: "xi_org (x\<lparr>xi_args := args\<rparr>) = xi_org x" "xi_task (x\<lparr>xi_args := args\<rparr>) = xi_task x"
    "xi_worker (x\<lparr>xi_args := args\<rparr>) = xi_worker x" by simp_all
  show ?thesis unfolding gap_gate_def eqs ..
qed

lemma approval_gate_arguments:
  "approval_gate tn s (x\<lparr>xi_args := args\<rparr>) a now = approval_gate tn s x a now"
proof -
  have eqs: "xi_org (x\<lparr>xi_args := args\<rparr>) = xi_org x" "xi_task (x\<lparr>xi_args := args\<rparr>) = xi_task x"
    "xi_worker (x\<lparr>xi_args := args\<rparr>) = xi_worker x"
    "xi_approval (x\<lparr>xi_args := args\<rparr>) = xi_approval x" by simp_all
  show ?thesis unfolding approval_gate_def execution_check_of_def eqs ..
qed

text \<open>
  The arguments an approval was given for do not bind the execution. The execution gate hands
  over no digest of the arguments, so an approval that carries one is never accepted, however well
  it matches; and one that carries none lets the call pass with any other arguments of the same
  risk.
\<close>

theorem approval_not_bound_to_arguments:
  assumes "distinct (map ap_id (wf_approvals (xs_wf st)))"
    and "xd_compile d = None"
    and "begin_execution d tn st x now = (st', Inr c)"
    and "get_task tn (xs_wf st) (xi_org x) (xi_task x) = Some t"
    and "ra_risk (assess_execution_risk (tk_risk t) (execution_signals d x (xi_args x))) \<noteq> Risk_Low"
    and "execution_signals d (x\<lparr>xi_args := args\<rparr>) args = execution_signals d x (xi_args x)"
  shows "get_approval_arguments_hash tn (xs_wf st) (xi_org x) (the (xi_approval x)) = None \<and>
     begin_execution d tn st (x\<lparr>xi_args := args\<rparr>) now = (st', Inr (c\<lparr>tl_args := args\<rparr>))"
  using assms(3)
proof (rule begin_execution_passes)
  fix t' :: org_task and s2 :: workforce
  let ?p = "persona_id_of_worker tn (xs_wf st) (xi_org x) (xi_worker x)"
  let ?x = "x\<lparr>xi_args := args\<rparr>"
  assume req: "require_executable_task tn (xs_wf st) (xi_org x) (xi_task x) (xi_worker x) = Inr t'"
    and g: "gap_gate d tn st x t' now = (st, None)"
    and args: "compile_arguments d x ?p t' = Inr (tl_args c)"
    and ag: "approval_gate tn (xs_wf st) x (risk_of_call d t' x c) now = (s2, None)"
    and pr: "js_trim (xi_principal x) \<noteq> []"
    and c: "c = call_of tn ?p x (''worker:'' @ xi_worker x, js_trim (xi_principal x)) (tl_args c)"
    and tr: "transition_task_if_status tn s2 (xi_org x) (xi_task x) Task_Delegated Task_In_Progress None
      now (Some (xi_worker x)) None = (xs_wf st', True)"
    and ls: "xs_learning st' = xs_learning st"
  have t': "t' = t" using require_executable_task_Inr [OF req] assms(4) by simp
  have xa: "tl_args c = xi_args x" using args assms(2) by (simp add: compile_arguments_def)
  have risk: "risk_of_call d t' x c = assess_execution_risk (tk_risk t) (execution_signals d ?x args)"
    by (simp add: risk_of_call_def xa t' assms(6))
  have k: "approvals_keyed (xs_wf st)" using assms(1) by (simp add: approvals_keyed_def)
  have "snd (consume_execution_approval tn (xs_wf st) (execution_check_of x (ra_risk (risk_of_call d t' x c))) None now)"
    using approval_gate_passes [OF ag] assms(5) by (simp add: risk_of_call_def xa t')
  then have "usable tn (xs_wf st) (execution_check_of x (ra_risk (risk_of_call d t' x c))) None"
    by (simp add: consume_decides(1) [OF k])
  then have hash: "get_approval_arguments_hash tn (xs_wf st) (xi_org x) (the (xi_approval x)) = None"
    by (auto simp: usable_def get_approval_arguments_hash_def execution_check_of_def)
  have gx: "gap_gate d tn st ?x t' now = (st, None)" using g by (simp only: gap_gate_arguments)
  have agx: "approval_gate tn (xs_wf st) ?x (assess_execution_risk (tk_risk t') (execution_signals d ?x args)) now
      = (s2, None)"
    using ag risk by (simp only: approval_gate_arguments t')
  have "begin_execution d tn st ?x now =
      (st\<lparr>xs_wf := xs_wf st'\<rparr>, Inr (call_of tn ?p ?x (''worker:'' @ xi_worker x, js_trim (xi_principal x)) args))"
    using req gx agx pr tr assms(2)
    by (simp add: begin_execution_def Let_def compile_arguments_def resolve_worker_execution_actor_def)
  moreover have "st\<lparr>xs_wf := xs_wf st'\<rparr> = st'" using ls by simp
  moreover have "call_of tn ?p ?x (''worker:'' @ xi_worker x, js_trim (xi_principal x)) args = c\<lparr>tl_args := args\<rparr>"
    by (subst c) (simp add: call_of_def)
  ultimately show ?thesis using hash by simp
qed

lemma approval_not_bound_to_arguments_witness:
  "\<exists>st' c. begin_execution demo_deps ''t'' (em_state demo_ready) demo_input 7 = (st', Inr c) \<and>
     begin_execution demo_deps ''t'' (em_state demo_ready) (demo_input\<lparr>xi_args := JStr ''all''\<rparr>) 7
       = (st', Inr (c\<lparr>tl_args := JStr ''all''\<rparr>))"
proof -
  obtain st' c where b: "begin_execution demo_deps ''t'' (em_state demo_ready) demo_input 7 = (st', Inr c)"
    using demo_begins by blast
  have t: "get_task ''t'' (xs_wf (em_state demo_ready)) (xi_org demo_input) (xi_task demo_input)
      = Some demo_task" using demo_ready_task by (simp add: demo_input_def)
  have r: "ra_risk (assess_execution_risk (tk_risk demo_task)
      (execution_signals demo_deps demo_input (xi_args demo_input))) \<noteq> Risk_Low"
    by (simp add: demo_task_def demo_deps_def demo_input_def execution_signals_def assess_execution_risk_def
        no_signals_def max_def less_eq_risk_level_def)
  have "xd_compile demo_deps = None" by (simp add: demo_deps_def)
  from approval_not_bound_to_arguments [OF demo_ready_ids this b t r] b show ?thesis
    by (auto simp: execution_signals_def demo_deps_def)
qed

end
