(* ===== verification/Task_Wake.thy ===== *)
theory Task_Wake
  imports Worker_Execution
begin

text \<open>
  Waking the tasks that wait for a capability: the handler of the event \<^verbatim>\<open>capability-learned\<close>
  (\<^verbatim>\<open>src/workforce/task-wake-handler.ts\<close>), the sweep for lost events
  (\<^verbatim>\<open>src/workforce/task-wake-reconciler.ts\<close>) and the listings of blocked tasks they start from
  (\<^verbatim>\<open>src/storage/org-workforce-store.ts\<close>). A sweep reads the clock once per task; the clock is the
  argument \<open>clk\<close>, indexed by the number of readings.
\<close>

subsection \<open>Listings of blocked tasks\<close>

text \<open>
  The rows of the join, each once, in the order of creation. The event's listing asks for a request
  of the persona and capability; the sweep's for any request of the same organisation, and for a
  task that was blocked by a missing capability.
\<close>

definition in_creation_order :: "org_task list \<Rightarrow> org_task list" where
  "in_creation_order = sort_key (\<lambda>t. (tk_created_at t, tk_id t))"

definition list_blocked_for_learned ::
  "ident \<Rightarrow> learning_state \<Rightarrow> workforce \<Rightarrow> ident \<Rightarrow> string \<Rightarrow> org_task list" where
  "list_blocked_for_learned tn ls s p c =
     in_creation_order (filter
       (\<lambda>t. tk_tenant t = tn \<and> tk_status t = Task_Blocked
          \<and> list_ex (\<lambda>r. lr_tenant r = tk_tenant t \<and> lr_triggered_by r = Some (tk_id t)
               \<and> lr_persona r = p \<and> lr_capability r = c) (ls_requests ls))
       (wf_tasks s))"

definition gap_blocked :: "ident \<Rightarrow> learning_state \<Rightarrow> org_task \<Rightarrow> bool" where
  "gap_blocked tn ls t \<longleftrightarrow>
     tk_tenant t = tn \<and> tk_status t = Task_Blocked \<and> tk_blocked t = Some Capability_Gap
     \<and> list_ex (\<lambda>r. lr_tenant r = tk_tenant t \<and> lr_org r = tk_org t
          \<and> lr_triggered_by r = Some (tk_id t)) (ls_requests ls)"

definition list_gap_blocked :: "ident \<Rightarrow> learning_state \<Rightarrow> workforce \<Rightarrow> ident \<Rightarrow> org_task list" where
  "list_gap_blocked tn ls s org =
     in_creation_order (filter (\<lambda>t. gap_blocked tn ls t \<and> tk_org t = org) (wf_tasks s))"

definition list_gap_blocked_all :: "ident \<Rightarrow> learning_state \<Rightarrow> workforce \<Rightarrow> org_task list" where
  "list_gap_blocked_all tn ls s =
     sort_key (\<lambda>t. (tk_org t, tk_created_at t, tk_id t)) (filter (gap_blocked tn ls) (wf_tasks s))"

subsection \<open>Waking one task\<close>

definition default_max_resume :: nat where
  "default_max_resume = 3"

datatype wake_outcome =
    Wake_Woke ident
  | Wake_Still_Blocked ident "string list"
  | Wake_Exhausted ident
  | Wake_Skipped ident
  | Wake_Lost ident

definition attempted :: "workforce \<times> bool \<Rightarrow> wake_outcome \<Rightarrow> ident \<Rightarrow> workforce \<times> wake_outcome" where
  "attempted r won i = (fst r, if snd r then won else Wake_Lost i)"

text \<open>
  The handler after its read of the task; the state is that of the statement, so that another
  replica may have written in between.
\<close>

definition wake_found ::
  "nat \<Rightarrow> bool \<Rightarrow> ident \<Rightarrow> org_task option \<Rightarrow> learning_state \<Rightarrow> workforce \<Rightarrow> ident \<Rightarrow> ident \<Rightarrow> ident
     \<Rightarrow> string \<Rightarrow> millis \<Rightarrow> workforce \<times> wake_outcome" where
  "wake_found mx wi tn found ls s org i p event now =
     (case found of
        None \<Rightarrow> (s, Wake_Lost i)
      | Some t \<Rightarrow>
          if tk_status t \<noteq> Task_Blocked then (s, Wake_Lost i)
          else if tk_last_wake t = Some event then (s, Wake_Skipped i)
          else if mx \<le> tk_resume_count t then
            attempted (record_wake_attempt tn s org i (Sum_Attempts_Exhausted mx) event now)
              (Wake_Exhausted i) i
          else
            let gaps = map cg_capability (detect_capability_gaps (tk_capabilities t)
                         (list_learned_capabilities tn wi ls p) None (Some i))
            in if gaps \<noteq> [] then
                 attempted (record_wake_attempt tn s org i (Sum_Still_Missing gaps) event now)
                   (Wake_Still_Blocked i gaps) i
               else attempted (wake_blocked_task tn s org i Sum_Woken event now) (Wake_Woke i) i)"

definition wake_one_task ::
  "nat \<Rightarrow> bool \<Rightarrow> ident \<Rightarrow> learning_state \<Rightarrow> workforce \<Rightarrow> ident \<Rightarrow> ident \<Rightarrow> ident \<Rightarrow> string \<Rightarrow> millis
     \<Rightarrow> workforce \<times> wake_outcome" where
  "wake_one_task mx wi tn ls s org i p event now =
     wake_found mx wi tn (get_task tn s org i) ls s org i p event now"

subsection \<open>The event\<close>

record learned_payload =
  lp_tenant :: "ident option"
  lp_persona :: "ident option"
  lp_capability :: "string option"
  lp_request :: "ident option"

fun wake_all ::
  "nat \<Rightarrow> bool \<Rightarrow> ident \<Rightarrow> learning_state \<Rightarrow> workforce \<Rightarrow> org_task list \<Rightarrow> ident \<Rightarrow> string
     \<Rightarrow> (nat \<Rightarrow> millis) \<Rightarrow> workforce \<times> wake_outcome list" where
  "wake_all mx wi tn ls s [] p event clk = (s, [])"
| "wake_all mx wi tn ls s (t # ts) p event clk =
     (case wake_one_task mx wi tn ls s (tk_org t) (tk_id t) p event (clk 0) of
        (s1, o1) \<Rightarrow>
          (case wake_all mx wi tn ls s1 ts p event (\<lambda>n. clk (Suc n)) of
             (s2, os) \<Rightarrow> (s2, o1 # os)))"

definition on_learned ::
  "nat \<Rightarrow> bool \<Rightarrow> ident \<Rightarrow> learning_state \<Rightarrow> workforce \<Rightarrow> learned_payload \<Rightarrow> (nat \<Rightarrow> millis)
     \<Rightarrow> workforce \<times> wake_outcome list" where
  "on_learned mx wi tn ls s e clk =
     (case (lp_persona e, lp_capability e, lp_request e) of
        (Some p, Some c, Some q) \<Rightarrow>
          if lp_tenant e \<noteq> Some tn then (s, [])
          else wake_all mx wi tn ls s (list_blocked_for_learned tn ls s p c) p q clk
      | _ \<Rightarrow> (s, []))"

subsection \<open>The sweep\<close>

definition default_learning_timeout :: millis where
  "default_learning_timeout = 7 * 24 * 60 * 60 * 1000"

definition persona_id_of_task :: "ident \<Rightarrow> workforce \<Rightarrow> ident \<Rightarrow> ident option \<Rightarrow> ident" where
  "persona_id_of_task tn s org a =
     (if \<not> truthy a then []
      else case get_worker tn s org (the a) of None \<Rightarrow> [] | Some w \<Rightarrow> dw_persona w)"

definition sweep_event :: "ident \<Rightarrow> string list \<Rightarrow> string" where
  "sweep_event p learned = ''reconcile:'' @ p @ '':'' @ js_string_array_text learned"

record reconcile_stats =
  rs_scanned :: nat
  rs_woke :: nat
  rs_still_blocked :: nat
  rs_timed_out :: nat
  rs_outcomes :: "wake_outcome list"

fun is_woke :: "wake_outcome \<Rightarrow> bool" where
  "is_woke (Wake_Woke i) = True"
| "is_woke _ = False"

definition timeout_days :: "millis \<Rightarrow> int" where
  "timeout_days ms = js_round (of_int ms / 86400000)"

text \<open>One turn of the loop; \<open>now\<close> is the time of the sweep, \<open>clk\<close> the one the handler reads.\<close>

definition reconcile_task ::
  "nat \<Rightarrow> millis \<Rightarrow> bool \<Rightarrow> ident \<Rightarrow> learning_state \<Rightarrow> workforce \<Rightarrow> org_task \<Rightarrow> millis \<Rightarrow> millis
     \<Rightarrow> workforce \<times> (wake_outcome \<times> bool) option" where
  "reconcile_task mx limit wi tn ls s t clk now =
     (let p = persona_id_of_task tn s (tk_org t) (tk_assigned t) in
      if p = [] then (s, None)
      else
        let event = sweep_event p (list_learned_capabilities tn wi ls p)
        in case wake_one_task mx wi tn ls s (tk_org t) (tk_id t) p event clk of
             (s1, res) \<Rightarrow>
               if \<not> is_woke res \<and> limit < now - tk_updated_at t then
                 (case mark_learning_timeout tn s1 (tk_org t) (tk_id t)
                         (Sum_Learning_Timeout (timeout_days limit)) now of
                    (s2, marked) \<Rightarrow> (s2, Some (res, marked)))
               else (s1, Some (res, False)))"

definition count_outcome :: "(wake_outcome \<times> bool) option \<Rightarrow> reconcile_stats \<Rightarrow> reconcile_stats" where
  "count_outcome r st =
     (case r of
        None \<Rightarrow> st
      | Some (res, marked) \<Rightarrow>
          st\<lparr>rs_woke := rs_woke st + (if is_woke res then 1 else 0),
             rs_still_blocked := rs_still_blocked st + (if is_woke res then 0 else 1),
             rs_timed_out := rs_timed_out st + (if marked then 1 else 0),
             rs_outcomes := rs_outcomes st @ [res]\<rparr>)"

fun reconcile_loop ::
  "nat \<Rightarrow> millis \<Rightarrow> bool \<Rightarrow> ident \<Rightarrow> learning_state \<Rightarrow> workforce \<Rightarrow> org_task list \<Rightarrow> (nat \<Rightarrow> millis)
     \<Rightarrow> millis \<Rightarrow> reconcile_stats \<Rightarrow> workforce \<times> reconcile_stats" where
  "reconcile_loop mx limit wi tn ls s [] clk now st = (s, st)"
| "reconcile_loop mx limit wi tn ls s (t # ts) clk now st =
     (case reconcile_task mx limit wi tn ls s t (clk 0) now of
        (s1, r) \<Rightarrow>
          reconcile_loop mx limit wi tn ls s1 ts (\<lambda>n. clk (Suc n)) now (count_outcome r st))"

definition reconcile_tasks ::
  "nat \<Rightarrow> millis \<Rightarrow> bool \<Rightarrow> ident \<Rightarrow> learning_state \<Rightarrow> workforce \<Rightarrow> org_task list \<Rightarrow> (nat \<Rightarrow> millis)
     \<Rightarrow> millis \<Rightarrow> workforce \<times> reconcile_stats" where
  "reconcile_tasks mx limit wi tn ls s blocked clk now =
     reconcile_loop mx limit wi tn ls s blocked clk now
       \<lparr> rs_scanned = length blocked, rs_woke = 0, rs_still_blocked = 0, rs_timed_out = 0,
         rs_outcomes = [] \<rparr>"

definition reconcile_once ::
  "nat \<Rightarrow> millis \<Rightarrow> bool \<Rightarrow> ident \<Rightarrow> learning_state \<Rightarrow> workforce \<Rightarrow> ident \<Rightarrow> (nat \<Rightarrow> millis) \<Rightarrow> millis
     \<Rightarrow> workforce \<times> reconcile_stats" where
  "reconcile_once mx limit wi tn ls s org clk now =
     reconcile_tasks mx limit wi tn ls s (list_gap_blocked tn ls s org) clk now"

definition reconcile_tenant ::
  "nat \<Rightarrow> millis \<Rightarrow> bool \<Rightarrow> ident \<Rightarrow> learning_state \<Rightarrow> workforce \<Rightarrow> (nat \<Rightarrow> millis) \<Rightarrow> millis
     \<Rightarrow> workforce \<times> reconcile_stats" where
  "reconcile_tenant mx limit wi tn ls s clk now =
     reconcile_tasks mx limit wi tn ls s (list_gap_blocked_all tn ls s) clk now"

subsection \<open>The statements on one row\<close>

text \<open>Task identifiers are a primary key, so a statement on a key changes at most one row.\<close>

definition task_ids_unique :: "workforce \<Rightarrow> bool" where
  "task_ids_unique s \<longleftrightarrow> distinct (map tk_id (wf_tasks s))"

definition on_task :: "ident \<Rightarrow> (org_task \<Rightarrow> org_task) \<Rightarrow> workforce \<Rightarrow> workforce" where
  "on_task i f s = s\<lparr>wf_tasks := map (\<lambda>r. if tk_id r = i then f r else r) (wf_tasks s)\<rparr>"

lemma on_task_tables [simp]:
  "wf_workers (on_task i f s) = wf_workers s"
  "wf_tasks (on_task i f s) = map (\<lambda>r. if tk_id r = i then f r else r) (wf_tasks s)"
  by (simp_all add: on_task_def)

lemma on_task_on_task:
  "(\<And>r. tk_id (f r) = tk_id r) \<Longrightarrow> on_task i g (on_task i f s) = on_task i (\<lambda>r. g (f r)) s"
  by (simp add: on_task_def o_def cong: map_cong if_cong)

lemma on_task_id [simp]: "on_task i (\<lambda>r. r) s = s"
  by (simp add: on_task_def)

lemma on_task_cong:
  assumes "task_ids_unique s" and "t \<in> set (wf_tasks s)" and "f t = g t"
  shows "on_task (tk_id t) f s = on_task (tk_id t) g s"
proof -
  have "r = t" if "r \<in> set (wf_tasks s)" "tk_id r = tk_id t" for r
    using assms(1,2) that by (auto simp: task_ids_unique_def distinct_map dest: inj_onD)
  then have "map (\<lambda>r. if tk_id r = tk_id t then f r else r) (wf_tasks s)
      = map (\<lambda>r. if tk_id r = tk_id t then g r else r) (wf_tasks s)"
    using assms(3) by (intro map_cong [OF refl]) metis
  then show ?thesis by (simp only: on_task_def)
qed

lemma on_task_unique:
  "task_ids_unique s \<Longrightarrow> (\<And>r. tk_id (f r) = tk_id r) \<Longrightarrow> task_ids_unique (on_task i f s)"
  by (simp only: task_ids_unique_def on_task_tables map_if_column)

lemma update_one_task:
  assumes u: "task_ids_unique s" and t: "t \<in> set (wf_tasks s)" and k: "\<And>r. q r \<Longrightarrow> tk_id r = tk_id t"
  shows "s\<lparr>wf_tasks := fst (update_where q f (wf_tasks s))\<rparr> = on_task (tk_id t) (if q t then f else (\<lambda>r. r)) s"
    and "0 < snd (update_where q f (wf_tasks s)) \<longleftrightarrow> q t"
proof -
  have same: "r = t" if "r \<in> set (wf_tasks s)" "tk_id r = tk_id t" for r
    using u t that by (auto simp: task_ids_unique_def distinct_map dest: inj_onD)
  have "map (\<lambda>r. if q r then f r else r) (wf_tasks s)
      = map (\<lambda>r. if tk_id r = tk_id t then (if q t then f else (\<lambda>r. r)) r else r) (wf_tasks s)"
  proof (rule map_cong [OF refl])
    fix r assume r: "r \<in> set (wf_tasks s)"
    show "(if q r then f r else r) = (if tk_id r = tk_id t then (if q t then f else (\<lambda>r. r)) r else r)"
    proof (cases "tk_id r = tk_id t")
      case True
      with same [OF r] show ?thesis by simp
    next
      case False
      with k show ?thesis by auto
    qed
  qed
  then show "s\<lparr>wf_tasks := fst (update_where q f (wf_tasks s))\<rparr> = on_task (tk_id t) (if q t then f else (\<lambda>r. r)) s"
    by (simp add: update_where_fst on_task_def)
  show "0 < snd (update_where q f (wf_tasks s)) \<longleftrightarrow> q t"
    unfolding update_where_hits using same k t by metis
qed

lemma get_task_unique:
  assumes "task_ids_unique s" and "t \<in> set (wf_tasks s)" and "tk_tenant t = tn" and "tk_org t = org"
  shows "get_task tn s org (tk_id t) = Some t"
  unfolding get_task_def
  by (rule select_one_unique [of tk_id]) (use assms in \<open>auto simp: task_ids_unique_def task_at_def\<close>)

lemma get_task_SomeD:
  "get_task tn s org i = Some t \<Longrightarrow>
   t \<in> set (wf_tasks s) \<and> tk_tenant t = tn \<and> tk_org t = org \<and> tk_id t = i"
  by (auto simp: get_task_def task_at_def dest: select_one_SomeD)

text \<open>What the handler does to the row it finds, and its answer.\<close>

definition missing_of :: "bool \<Rightarrow> ident \<Rightarrow> learning_state \<Rightarrow> ident \<Rightarrow> org_task \<Rightarrow> string list" where
  "missing_of wi tn ls p t =
     filter (\<lambda>c. c \<notin> normalize_capability ` set (list_learned_capabilities tn wi ls p))
       (normalize_capabilities (tk_capabilities t))"

definition wake_answer :: "nat \<Rightarrow> string list \<Rightarrow> string \<Rightarrow> org_task \<Rightarrow> wake_outcome" where
  "wake_answer mx missing event t =
     (if tk_status t \<noteq> Task_Blocked then Wake_Lost (tk_id t)
      else if tk_last_wake t = Some event then Wake_Skipped (tk_id t)
      else if mx \<le> tk_resume_count t then Wake_Exhausted (tk_id t)
      else if missing \<noteq> [] then Wake_Still_Blocked (tk_id t) missing
      else Wake_Woke (tk_id t))"

fun row_after :: "nat \<Rightarrow> wake_outcome \<Rightarrow> string \<Rightarrow> millis \<Rightarrow> org_task \<Rightarrow> org_task" where
  "row_after mx (Wake_Woke i) event now t =
     t\<lparr>tk_status := Task_Delegated, tk_summary := Some Sum_Woken,
       tk_resume_count := tk_resume_count t + 1, tk_last_wake := Some event, tk_updated_at := now\<rparr>"
| "row_after mx (Wake_Still_Blocked i gaps) event now t =
     t\<lparr>tk_summary := Some (Sum_Still_Missing gaps), tk_resume_count := tk_resume_count t + 1,
       tk_last_wake := Some event, tk_updated_at := now\<rparr>"
| "row_after mx (Wake_Exhausted i) event now t =
     t\<lparr>tk_summary := Some (Sum_Attempts_Exhausted mx), tk_resume_count := tk_resume_count t + 1,
       tk_last_wake := Some event, tk_updated_at := now\<rparr>"
| "row_after mx (Wake_Skipped i) event now t = t"
| "row_after mx (Wake_Lost i) event now t = t"

lemma row_after_eqs:
  "row_after mx (Wake_Woke i) event now = (\<lambda>t. t\<lparr>tk_status := Task_Delegated,
     tk_summary := Some Sum_Woken, tk_resume_count := tk_resume_count t + 1,
     tk_last_wake := Some event, tk_updated_at := now\<rparr>)"
  "row_after mx (Wake_Still_Blocked i gaps) event now = (\<lambda>t.
     t\<lparr>tk_summary := Some (Sum_Still_Missing gaps), tk_resume_count := tk_resume_count t + 1,
       tk_last_wake := Some event, tk_updated_at := now\<rparr>)"
  "row_after mx (Wake_Exhausted i) event now = (\<lambda>t.
     t\<lparr>tk_summary := Some (Sum_Attempts_Exhausted mx), tk_resume_count := tk_resume_count t + 1,
       tk_last_wake := Some event, tk_updated_at := now\<rparr>)"
  "row_after mx (Wake_Skipped i) event now = (\<lambda>t. t)"
  "row_after mx (Wake_Lost i) event now = (\<lambda>t. t)"
  by (simp_all add: fun_eq_iff)

lemma row_after_keeps [simp]:
  "tk_id (row_after mx a e now t) = tk_id t"
  "tk_tenant (row_after mx a e now t) = tk_tenant t"
  "tk_org (row_after mx a e now t) = tk_org t"
  "tk_assigned (row_after mx a e now t) = tk_assigned t"
  "tk_blocked (row_after mx a e now t) = tk_blocked t"
  "tk_capabilities (row_after mx a e now t) = tk_capabilities t"
  by (cases a; simp)+

lemma row_after_mono [simp]: "tk_resume_count t \<le> tk_resume_count (row_after mx a e now t)"
  by (cases a) simp_all

lemma wake_one_task_row:
  assumes u: "task_ids_unique s" and t: "t \<in> set (wf_tasks s)" "tk_tenant t = tn"
  shows "wake_one_task mx wi tn ls s (tk_org t) (tk_id t) p event now =
     (let a = wake_answer mx (missing_of wi tn ls p t) event t
      in (on_task (tk_id t) (row_after mx a event now) s, a))"
proof -
  let ?q = "wakeable tn (tk_org t) (tk_id t) event"
  have q: "tk_id r = tk_id t" if "?q r" for r using that by (simp add: wakeable_def task_at_def)
  have qt: "?q t \<longleftrightarrow> tk_status t = Task_Blocked \<and> tk_last_wake t \<noteq> Some event"
    using t by (simp add: wakeable_def task_at_def)
  note eqs = update_one_task [OF u t(1) q, where q = ?q]
  have gaps: "map cg_capability (detect_capability_gaps (tk_capabilities t)
      (list_learned_capabilities tn wi ls p) None (Some (tk_id t))) = missing_of wi tn ls p t"
    by (simp add: detect_capability_gaps_map missing_of_def)
  have rec: "attempted (record_wake_attempt tn s (tk_org t) (tk_id t) n event now) a (tk_id t) =
      (on_task (tk_id t) (\<lambda>r. r\<lparr>tk_summary := Some n, tk_resume_count := tk_resume_count r + 1,
               tk_last_wake := Some event, tk_updated_at := now\<rparr>) s, a)" if "?q t" for n a
    using that eqs by (simp add: attempted_def record_wake_attempt_def split_beta Let_def)
  have wake: "attempted (wake_blocked_task tn s (tk_org t) (tk_id t) n event now) a (tk_id t) =
      (on_task (tk_id t) (\<lambda>r. r\<lparr>tk_status := Task_Delegated, tk_summary := Some n,
               tk_resume_count := tk_resume_count r + 1, tk_last_wake := Some event,
               tk_updated_at := now\<rparr>) s, a)" if "?q t" for n a
    using that eqs by (simp add: attempted_def wake_blocked_task_def split_beta Let_def)
  show ?thesis
    using get_task_unique [OF u t refl] rec wake qt
    by (simp add: wake_one_task_def wake_found_def wake_answer_def gaps Let_def row_after_eqs)
qed

lemma wake_one_task_absent:
  assumes "get_task tn s org i = None"
  shows "wake_one_task mx wi tn ls s org i p event now = (s, Wake_Lost i)"
  using assms by (simp add: wake_one_task_def wake_found_def)

subsection \<open>Interface: a loop that treats each task on its own\<close>

text \<open>
  Both loops call, for each listed task, a step that only changes the row of that task. The provider
  promises this; then the whole loop is a map over the table.
\<close>

locale rowwise_loop =
  fixes loop :: "workforce \<Rightarrow> org_task list \<Rightarrow> (nat \<Rightarrow> millis) \<Rightarrow> workforce"
    and step :: "workforce \<Rightarrow> org_task \<Rightarrow> millis \<Rightarrow> workforce"
    and row :: "workforce \<Rightarrow> millis \<Rightarrow> org_task \<Rightarrow> org_task"
    and ours :: "org_task \<Rightarrow> bool"
  assumes loop_done: "loop s [] clk = s"
    and loop_more: "loop s (t # ts) clk = loop (step s t (clk 0)) ts (\<lambda>n. clk (Suc n))"
    and step_row: "task_ids_unique s \<Longrightarrow> t \<in> set (wf_tasks s) \<Longrightarrow> ours t \<Longrightarrow>
        step s t c = on_task (tk_id t) (row s c) s"
    and row_id: "tk_id (row s c t) = tk_id t"
    and row_stable: "row (on_task i f s) c = row s c"
begin

lemma loop_rows:
  assumes "task_ids_unique s" and "distinct (map tk_id ts)" and "set ts \<subseteq> set (wf_tasks s)"
    and "\<forall>t \<in> set ts. ours t"
  shows "\<exists>\<tau>. loop s ts clk = s\<lparr>wf_tasks := map (\<lambda>r. if tk_id r \<in> tk_id ` set ts
      then row s (\<tau> (tk_id r)) r else r) (wf_tasks s)\<rparr>"
  using assms
proof (induction ts arbitrary: s clk)
  case Nil
  then show ?case by (simp add: loop_done)
next
  case (Cons t ts)
  let ?s1 = "on_task (tk_id t) (row s (clk 0)) s"
  have step: "step s t (clk 0) = ?s1" using Cons.prems by (intro step_row) simp_all
  have "task_ids_unique ?s1" using Cons.prems(1) by (rule on_task_unique) (rule row_id)
  moreover have "set ts \<subseteq> set (wf_tasks ?s1)"
  proof
    fix r assume r: "r \<in> set ts"
    with Cons.prems(2) have "tk_id r \<noteq> tk_id t" by (metis distinct.simps(2) image_eqI list.set_map list.simps(9))
    moreover have "r \<in> set (wf_tasks s)" using r Cons.prems(3) by auto
    ultimately show "r \<in> set (wf_tasks ?s1)" by (auto intro: rev_image_eqI)
  qed
  moreover have "distinct (map tk_id ts)" and "\<forall>r \<in> set ts. ours r" using Cons.prems(2,4) by simp_all
  ultimately have "\<exists>\<tau>. loop ?s1 ts (\<lambda>n. clk (Suc n)) = ?s1\<lparr>wf_tasks := map (\<lambda>r.
      if tk_id r \<in> tk_id ` set ts then row ?s1 (\<tau> (tk_id r)) r else r) (wf_tasks ?s1)\<rparr>"
    by (intro Cons.IH)
  then obtain \<tau> where \<tau>: "loop ?s1 ts (\<lambda>n. clk (Suc n)) = ?s1\<lparr>wf_tasks := map (\<lambda>r.
      if tk_id r \<in> tk_id ` set ts then row s (\<tau> (tk_id r)) r else r) (wf_tasks ?s1)\<rparr>"
    unfolding row_stable by blast
  let ?\<tau> = "\<tau>(tk_id t := clk 0)"
  have "map (\<lambda>r. if tk_id r \<in> tk_id ` set ts then row s (\<tau> (tk_id r)) r else r) (wf_tasks ?s1)
      = map (\<lambda>r. if tk_id r \<in> tk_id ` set (t # ts) then row s (?\<tau> (tk_id r)) r else r) (wf_tasks s)"
    using Cons.prems(2) by (auto simp: row_id)
  then have "loop s (t # ts) clk = s\<lparr>wf_tasks := map (\<lambda>r. if tk_id r \<in> tk_id ` set (t # ts)
      then row s (?\<tau> (tk_id r)) r else r) (wf_tasks s)\<rparr>"
    by (simp only: loop_more step \<tau>) (simp add: on_task_def)
  then show ?case by blast
qed

end

lemma wake_all_fst:
  "fst (wake_all mx wi tn ls s (t # ts) p e clk) =
   fst (wake_all mx wi tn ls (fst (wake_one_task mx wi tn ls s (tk_org t) (tk_id t) p e (clk 0))) ts p e
     (\<lambda>n. clk (Suc n)))"
  by (simp add: split_beta)

lemma reconcile_loop_fst:
  "fst (reconcile_loop mx limit wi tn ls s ts clk now st) = fst (reconcile_loop mx limit wi tn ls s ts clk now st')"
proof (induction ts arbitrary: s clk st st')
  case (Cons t ts)
  show ?case unfolding reconcile_loop.simps split_beta by (rule Cons.IH)
qed simp

definition event_row ::
  "nat \<Rightarrow> bool \<Rightarrow> ident \<Rightarrow> learning_state \<Rightarrow> ident \<Rightarrow> string \<Rightarrow> millis \<Rightarrow> org_task \<Rightarrow> org_task" where
  "event_row mx wi tn ls p e c t = row_after mx (wake_answer mx (missing_of wi tn ls p t) e t) e c t"

definition sweep_row ::
  "nat \<Rightarrow> millis \<Rightarrow> bool \<Rightarrow> ident \<Rightarrow> learning_state \<Rightarrow> millis \<Rightarrow> workforce \<Rightarrow> millis \<Rightarrow> org_task \<Rightarrow> org_task" where
  "sweep_row mx limit wi tn ls now s c t =
     (let p = persona_id_of_task tn s (tk_org t) (tk_assigned t);
          e = sweep_event p (list_learned_capabilities tn wi ls p);
          t1 = event_row mx wi tn ls p e c t
      in if p = [] then t
         else if tk_status t1 = Task_Blocked \<and> limit < now - tk_updated_at t
                 \<and> \<not> is_timeout_note (tk_summary t1)
         then t1\<lparr>tk_summary := Some (Sum_Learning_Timeout (timeout_days limit)), tk_updated_at := now\<rparr>
         else t1)"

lemma event_row_keeps [simp]:
  "tk_id (event_row mx wi tn ls p e c t) = tk_id t"
  "tk_tenant (event_row mx wi tn ls p e c t) = tk_tenant t"
  "tk_org (event_row mx wi tn ls p e c t) = tk_org t"
  "tk_assigned (event_row mx wi tn ls p e c t) = tk_assigned t"
  "tk_blocked (event_row mx wi tn ls p e c t) = tk_blocked t"
  "tk_capabilities (event_row mx wi tn ls p e c t) = tk_capabilities t"
  by (simp_all add: event_row_def)

lemma sweep_row_keeps [simp]:
  "tk_id (sweep_row mx limit wi tn ls now s c t) = tk_id t"
  "tk_tenant (sweep_row mx limit wi tn ls now s c t) = tk_tenant t"
  "tk_org (sweep_row mx limit wi tn ls now s c t) = tk_org t"
  "tk_assigned (sweep_row mx limit wi tn ls now s c t) = tk_assigned t"
  "tk_blocked (sweep_row mx limit wi tn ls now s c t) = tk_blocked t"
  by (simp_all add: sweep_row_def Let_def)

lemma persona_id_of_task_on_task [simp]:
  "persona_id_of_task tn (on_task i f s) org a = persona_id_of_task tn s org a"
  by (simp add: persona_id_of_task_def get_worker_def)

lemma event_row_status:
  "tk_status t = Task_Blocked \<Longrightarrow>
   tk_status (event_row mx wi tn ls p e c t) =
     (if is_woke (wake_answer mx (missing_of wi tn ls p t) e t) then Task_Delegated else Task_Blocked)"
  by (simp add: event_row_def wake_answer_def)

lemma wake_one_task_event_row:
  assumes "task_ids_unique s" and "t \<in> set (wf_tasks s)" and "tk_tenant t = tn"
  shows "wake_one_task mx wi tn ls s (tk_org t) (tk_id t) p e c =
     (on_task (tk_id t) (event_row mx wi tn ls p e c) s, wake_answer mx (missing_of wi tn ls p t) e t)"
  using wake_one_task_row [OF assms]
    on_task_cong [OF assms(1,2), of "row_after mx (wake_answer mx (missing_of wi tn ls p t) e t) e c"
      "event_row mx wi tn ls p e c"]
  by (simp add: event_row_def Let_def)

lemma mark_timeout_row:
  assumes "task_ids_unique s" and "t \<in> set (wf_tasks s)" and "tk_tenant t = tn"
  shows "fst (mark_learning_timeout tn s (tk_org t) (tk_id t) n now) =
     on_task (tk_id t) (if tk_status t = Task_Blocked \<and> \<not> is_timeout_note (tk_summary t)
       then (\<lambda>r. r\<lparr>tk_summary := Some n, tk_updated_at := now\<rparr>) else (\<lambda>r. r)) s"
proof -
  let ?q = "\<lambda>r. task_at tn (tk_org t) (tk_id t) r \<and> tk_status r = Task_Blocked \<and> \<not> is_timeout_note (tk_summary r)"
  have "?q t \<longleftrightarrow> tk_status t = Task_Blocked \<and> \<not> is_timeout_note (tk_summary t)"
    using assms(3) by (simp add: task_at_def)
  moreover have "tk_id r = tk_id t" if "?q r" for r using that by (simp add: task_at_def)
  ultimately show ?thesis
    using update_one_task(1) [OF assms(1,2), of ?q "\<lambda>r. r\<lparr>tk_summary := Some n, tk_updated_at := now\<rparr>"]
    by (simp add: mark_learning_timeout_def split_beta Let_def)
qed

lemma reconcile_task_row:
  assumes u: "task_ids_unique s" and t: "t \<in> set (wf_tasks s)" and g: "gap_blocked tn ls t"
  shows "fst (reconcile_task mx limit wi tn ls s t c now)
    = on_task (tk_id t) (sweep_row mx limit wi tn ls now s c) s"
proof -
  let ?p = "persona_id_of_task tn s (tk_org t) (tk_assigned t)"
  let ?e = "sweep_event ?p (list_learned_capabilities tn wi ls ?p)"
  let ?f = "event_row mx wi tn ls ?p ?e c"
  let ?s1 = "on_task (tk_id t) ?f s"
  have tn: "tk_tenant t = tn" and b: "tk_status t = Task_Blocked" using g by (simp_all add: gap_blocked_def)
  note w = wake_one_task_event_row [OF u t tn, of mx wi ls ?p ?e c]
  have u1: "task_ids_unique ?s1" using u by (rule on_task_unique) simp
  have t1: "?f t \<in> set (wf_tasks ?s1)" using t by (auto intro: rev_image_eqI)
  have m: "fst (mark_learning_timeout tn ?s1 (tk_org t) (tk_id t) n now) =
     on_task (tk_id t) (\<lambda>r. (if tk_status (?f t) = Task_Blocked \<and> \<not> is_timeout_note (tk_summary (?f t))
       then (\<lambda>r. r\<lparr>tk_summary := Some n, tk_updated_at := now\<rparr>) else (\<lambda>r. r)) (?f r)) s" for n
    using mark_timeout_row [OF u1 t1, of tn n now] tn by (simp add: on_task_on_task)
  have st: "tk_status (?f t) = Task_Blocked \<longleftrightarrow> \<not> is_woke (wake_answer mx (missing_of wi tn ls ?p t) ?e t)"
    by (simp add: event_row_status [OF b])
  have "fst (reconcile_task mx limit wi tn ls s t c now) = on_task (tk_id t)
      (if ?p = [] then (\<lambda>r. r)
       else if tk_status (?f t) = Task_Blocked \<and> limit < now - tk_updated_at t \<and> \<not> is_timeout_note (tk_summary (?f t))
       then (\<lambda>r. (?f r)\<lparr>tk_summary := Some (Sum_Learning_Timeout (timeout_days limit)), tk_updated_at := now\<rparr>)
       else ?f) s"
    using m by (simp add: reconcile_task_def Let_def w st split_beta)
  also have "\<dots> = on_task (tk_id t) (sweep_row mx limit wi tn ls now s c) s"
    by (rule on_task_cong [OF u t]) (simp add: sweep_row_def Let_def)
  finally show ?thesis .
qed

interpretation event_loop:
  rowwise_loop "\<lambda>s ts clk. fst (wake_all mx wi tn ls s ts p e clk)"
    "\<lambda>s t c. fst (wake_one_task mx wi tn ls s (tk_org t) (tk_id t) p e c)"
    "\<lambda>s. event_row mx wi tn ls p e" "\<lambda>t. tk_tenant t = tn"
  for mx wi tn ls p e
  by unfold_locales (simp_all add: wake_all_fst wake_one_task_event_row del: wake_all.simps(2))

interpretation sweep_loop:
  rowwise_loop "\<lambda>s ts clk. fst (reconcile_loop mx limit wi tn ls s ts clk now st)"
    "\<lambda>s t c. fst (reconcile_task mx limit wi tn ls s t c now)"
    "sweep_row mx limit wi tn ls now" "gap_blocked tn ls"
  for mx limit wi tn ls now st
proof
  fix s t ts clk
  show "fst (reconcile_loop mx limit wi tn ls s (t # ts) clk now st) =
      fst (reconcile_loop mx limit wi tn ls (fst (reconcile_task mx limit wi tn ls s t (clk 0) now)) ts
        (\<lambda>n. clk (Suc n)) now st)"
    by (simp add: split_beta) (rule reconcile_loop_fst)
qed (simp_all add: reconcile_task_row sweep_row_def fun_eq_iff Let_def)

lemma listing_ids:
  assumes "task_ids_unique s"
  shows "distinct (map tk_id (sort_key k (filter q (wf_tasks s))))"
    and "r \<in> set (wf_tasks s) \<Longrightarrow> tk_id r \<in> tk_id ` set (sort_key k (filter q (wf_tasks s))) \<longleftrightarrow> q r"
proof -
  have inj: "inj_on tk_id (set (wf_tasks s))" and d: "distinct (wf_tasks s)"
    using assms by (simp_all add: task_ids_unique_def distinct_map)
  then show "distinct (map tk_id (sort_key k (filter q (wf_tasks s))))"
    by (simp add: distinct_map inj_on_subset)
  show "r \<in> set (wf_tasks s) \<Longrightarrow> tk_id r \<in> tk_id ` set (sort_key k (filter q (wf_tasks s))) \<longleftrightarrow> q r"
    using inj by (auto dest: inj_onD)
qed

lemma reconcile_once_rows:
  assumes u: "task_ids_unique s"
  shows "\<exists>\<tau>. fst (reconcile_once mx limit wi tn ls s org clk now) = s\<lparr>wf_tasks := map (\<lambda>r.
     if gap_blocked tn ls r \<and> tk_org r = org then sweep_row mx limit wi tn ls now s (\<tau> (tk_id r)) r else r)
     (wf_tasks s)\<rparr>"
proof -
  let ?ts = "list_gap_blocked tn ls s org"
  note ids = listing_ids [OF u, where k = "\<lambda>t. (tk_created_at t, tk_id t)"
      and q = "\<lambda>t. gap_blocked tn ls t \<and> tk_org t = org", folded in_creation_order_def]
  have d: "distinct (map tk_id ?ts)" and sub: "set ?ts \<subseteq> set (wf_tasks s)"
    and ours: "\<forall>t \<in> set ?ts. gap_blocked tn ls t"
    using ids(1) by (auto simp: list_gap_blocked_def in_creation_order_def)
  obtain \<tau> where \<tau>: "fst (reconcile_once mx limit wi tn ls s org clk now) = s\<lparr>wf_tasks := map (\<lambda>r.
      if tk_id r \<in> tk_id ` set ?ts then sweep_row mx limit wi tn ls now s (\<tau> (tk_id r)) r else r) (wf_tasks s)\<rparr>"
    unfolding reconcile_once_def reconcile_tasks_def
    using sweep_loop.loop_rows [OF u d sub ours] by blast
  have "map (\<lambda>r. if tk_id r \<in> tk_id ` set ?ts then sweep_row mx limit wi tn ls now s (\<tau> (tk_id r)) r else r)
      (wf_tasks s) = map (\<lambda>r. if gap_blocked tn ls r \<and> tk_org r = org
        then sweep_row mx limit wi tn ls now s (\<tau> (tk_id r)) r else r) (wf_tasks s)"
    by (rule map_cong [OF refl]) (simp add: list_gap_blocked_def ids(2))
  then show ?thesis by (intro exI [of _ \<tau>]) (simp only: \<tau>)
qed

lemma on_learned_rows:
  assumes u: "task_ids_unique s" and e: "lp_tenant e = Some tn" "lp_persona e = Some p"
    "lp_capability e = Some c" "lp_request e = Some q"
  shows "\<exists>\<tau>. fst (on_learned mx wi tn ls s e clk) = s\<lparr>wf_tasks := map (\<lambda>r.
     if r \<in> set (list_blocked_for_learned tn ls s p c)
     then event_row mx wi tn ls p q (\<tau> (tk_id r)) r else r) (wf_tasks s)\<rparr>"
proof -
  let ?ts = "list_blocked_for_learned tn ls s p c"
  let ?q = "\<lambda>t. tk_tenant t = tn \<and> tk_status t = Task_Blocked
          \<and> list_ex (\<lambda>r. lr_tenant r = tk_tenant t \<and> lr_triggered_by r = Some (tk_id t)
               \<and> lr_persona r = p \<and> lr_capability r = c) (ls_requests ls)"
  note ids = listing_ids [OF u, where k = "\<lambda>t. (tk_created_at t, tk_id t)" and q = ?q,
      folded in_creation_order_def, folded list_blocked_for_learned_def]
  have sub: "set ?ts \<subseteq> set (wf_tasks s)" and ours: "\<forall>t \<in> set ?ts. tk_tenant t = tn"
    by (auto simp: list_blocked_for_learned_def in_creation_order_def)
  have "fst (on_learned mx wi tn ls s e clk) = fst (wake_all mx wi tn ls s ?ts p q clk)"
    by (simp add: on_learned_def e)
  then obtain \<tau> where \<tau>: "fst (on_learned mx wi tn ls s e clk) = s\<lparr>wf_tasks := map (\<lambda>r.
      if tk_id r \<in> tk_id ` set ?ts then event_row mx wi tn ls p q (\<tau> (tk_id r)) r else r) (wf_tasks s)\<rparr>"
    using event_loop.loop_rows [OF u ids(1) sub ours, of mx wi ls p q clk] by auto
  have "map (\<lambda>r. if tk_id r \<in> tk_id ` set ?ts then event_row mx wi tn ls p q (\<tau> (tk_id r)) r else r)
      (wf_tasks s) = map (\<lambda>r. if r \<in> set ?ts
        then event_row mx wi tn ls p q (\<tau> (tk_id r)) r else r) (wf_tasks s)"
  proof (rule map_cong [OF refl])
    fix r assume "r \<in> set (wf_tasks s)"
    then have "tk_id r \<in> tk_id ` set ?ts \<longleftrightarrow> r \<in> set ?ts"
      by (simp add: ids(2)) (simp add: list_blocked_for_learned_def in_creation_order_def)
    then show "(if tk_id r \<in> tk_id ` set ?ts then event_row mx wi tn ls p q (\<tau> (tk_id r)) r else r)
        = (if r \<in> set ?ts then event_row mx wi tn ls p q (\<tau> (tk_id r)) r else r)" by simp
  qed
  then show ?thesis by (intro exI [of _ \<tau>]) (simp only: \<tau>)
qed

subsection \<open>A sweep in an unchanged state of learning\<close>

definition wake_state :: "org_task \<Rightarrow> ident \<times> task_status \<times> nat \<times> string option" where
  "wake_state r = (tk_id r, tk_status r, tk_resume_count r, tk_last_wake r)"

lemma event_row_last:
  "tk_status t = Task_Blocked \<Longrightarrow> tk_last_wake (event_row mx wi tn ls p e c t) = Some e"
  by (simp add: event_row_def wake_answer_def)

lemma event_row_seen:
  "tk_last_wake t = Some e \<Longrightarrow> event_row mx wi tn ls p e c t = t"
  by (simp add: event_row_def wake_answer_def)

lemma sweep_row_swept:
  assumes "tk_status t = Task_Blocked" and "persona_id_of_task tn s (tk_org t) (tk_assigned t) \<noteq> []"
  shows "tk_last_wake (sweep_row mx limit wi tn ls now s c t) =
    Some (sweep_event (persona_id_of_task tn s (tk_org t) (tk_assigned t))
      (list_learned_capabilities tn wi ls (persona_id_of_task tn s (tk_org t) (tk_assigned t))))"
  using assms by (simp add: sweep_row_def Let_def event_row_last)

lemma sweep_row_seen:
  assumes "persona_id_of_task tn s (tk_org t) (tk_assigned t) = [] \<or> tk_last_wake t =
    Some (sweep_event (persona_id_of_task tn s (tk_org t) (tk_assigned t))
      (list_learned_capabilities tn wi ls (persona_id_of_task tn s (tk_org t) (tk_assigned t))))"
  shows "wake_state (sweep_row mx limit wi tn ls now s c t) = wake_state t"
  using assms by (auto simp: sweep_row_def Let_def event_row_seen wake_state_def)

lemma sweep_row_twice:
  assumes "tk_status t = Task_Blocked" and "wf_workers s' = wf_workers s"
  shows "wake_state (sweep_row mx limit wi tn ls now' s' c' (sweep_row mx limit wi tn ls now s c t))
    = wake_state (sweep_row mx limit wi tn ls now s c t)"
proof (rule sweep_row_seen)
  have p: "persona_id_of_task tn s' org a = persona_id_of_task tn s org a" for org a
    using assms(2) by (simp add: persona_id_of_task_def get_worker_def)
  show "persona_id_of_task tn s' (tk_org (sweep_row mx limit wi tn ls now s c t))
          (tk_assigned (sweep_row mx limit wi tn ls now s c t)) = [] \<or>
    tk_last_wake (sweep_row mx limit wi tn ls now s c t) = Some (sweep_event
      (persona_id_of_task tn s' (tk_org (sweep_row mx limit wi tn ls now s c t))
        (tk_assigned (sweep_row mx limit wi tn ls now s c t)))
      (list_learned_capabilities tn wi ls (persona_id_of_task tn s'
        (tk_org (sweep_row mx limit wi tn ls now s c t)) (tk_assigned (sweep_row mx limit wi tn ls now s c t)))))"
    using sweep_row_swept [OF assms(1), of tn s] by (simp add: p) blast
qed

subsection \<open>Attempts are spent, never given back\<close>

definition tasks_grow :: "workforce \<Rightarrow> workforce \<Rightarrow> bool" where
  "tasks_grow s s' \<longleftrightarrow>
     (\<exists>g ns. wf_tasks s' = map g (wf_tasks s) @ ns
       \<and> (\<forall>r. same_task (g r) r \<and> tk_resume_count r \<le> tk_resume_count (g r))
       \<and> distinct (map tk_id ns) \<and> tk_id ` set ns \<inter> tk_id ` set (wf_tasks s) = {})"

lemma tasks_growI:
  "wf_tasks s' = map g (wf_tasks s) \<Longrightarrow>
   (\<And>r. same_task (g r) r \<and> tk_resume_count r \<le> tk_resume_count (g r)) \<Longrightarrow> tasks_grow s s'"
  unfolding tasks_grow_def by (intro exI [of _ g] exI [of _ "[]"]) simp

lemma tasks_grow_refl: "wf_tasks s' = wf_tasks s \<Longrightarrow> tasks_grow s s'"
  by (rule tasks_growI [of _ "\<lambda>r. r"]) (simp_all add: same_task_def)

lemma tasks_grow_update:
  assumes "wf_tasks s' = fst (update_where q f (wf_tasks s))"
    and "\<And>r. same_task (f r) r \<and> tk_resume_count r \<le> tk_resume_count (f r)"
  shows "tasks_grow s s'"
  by (rule tasks_growI [of _ "\<lambda>r. if q r then f r else r"])
     (use assms in \<open>simp_all add: update_where_fst same_task_def\<close>)

lemma tasks_grow_trans:
  assumes "tasks_grow s1 s2" and "tasks_grow s2 s3"
  shows "tasks_grow s1 s3"
proof -
  obtain g ns where g: "wf_tasks s2 = map g (wf_tasks s1) @ ns"
    "\<And>r. same_task (g r) r \<and> tk_resume_count r \<le> tk_resume_count (g r)"
    and ns: "distinct (map tk_id ns)" "tk_id ` set ns \<inter> tk_id ` set (wf_tasks s1) = {}"
    using assms(1) by (auto simp: tasks_grow_def)
  obtain h ms where h: "wf_tasks s3 = map h (wf_tasks s2) @ ms"
    "\<And>r. same_task (h r) r \<and> tk_resume_count r \<le> tk_resume_count (h r)"
    and ms: "distinct (map tk_id ms)" "tk_id ` set ms \<inter> tk_id ` set (wf_tasks s2) = {}"
    using assms(2) by (auto simp: tasks_grow_def)
  have ids: "tk_id (g r) = tk_id r" "tk_id (h r) = tk_id r" for r
    using g(2) h(2) by (simp_all add: same_task_def)
  have img: "tk_id ` g ` A = tk_id ` A" "tk_id ` h ` A = tk_id ` A" for A
    by (simp_all add: image_image ids)
  have "same_task (h (g r)) r \<and> tk_resume_count r \<le> tk_resume_count (h (g r))" for r
    using g(2) [of r] h(2) [of "g r"] by (simp add: same_task_def)
  moreover have "wf_tasks s3 = map (\<lambda>r. h (g r)) (wf_tasks s1) @ (map h ns @ ms)"
    using g(1) h(1) by simp
  moreover have "distinct (map tk_id (map h ns @ ms))"
    using ns ms g(1) by (simp add: o_def ids img Int_Un_distrib) blast
  moreover have "tk_id ` set (map h ns @ ms) \<inter> tk_id ` set (wf_tasks s1) = {}"
    using ns(2) ms(2) g(1) by (simp add: image_Un img Int_Un_distrib Int_Un_distrib2)
  ultimately show ?thesis
    unfolding tasks_grow_def by (intro exI [of _ "\<lambda>r. h (g r)"] exI [of _ "map h ns @ ms"]) simp
qed

lemma grow_set_execution:
  "tasks_grow s (update_task_execution tn s org i st n why now)"
  "tasks_grow s (fst (transition_task_if_status tn s org i e st' n' now a why))"
  unfolding update_task_execution_def transition_task_if_status_def split_beta Let_def
  by (rule tasks_grow_update, simp, simp add: set_execution_def same_task_def)+

lemma grow_statements:
  "tasks_grow s (fst (reassign_if_held tn s org i a b now))"
  "tasks_grow s (fst (reassign_task_if_held tn s org i a b now))"
  "tasks_grow s (fst (wake_blocked_task tn s org i n e now))"
  "tasks_grow s (fst (record_wake_attempt tn s org i n e now))"
  "tasks_grow s (fst (mark_learning_timeout tn s org i n now))"
  unfolding reassign_if_held_def reassign_task_if_held_def wake_blocked_task_def
    record_wake_attempt_def mark_learning_timeout_def split_beta Let_def
  by (rule tasks_grow_update, simp, simp add: same_task_def)+

lemma grow_insert:
  assumes "insert_task r s = Some s'"
  shows "tasks_grow s s'"
  unfolding tasks_grow_def
  by (rule exI [of _ "\<lambda>r. r"], rule exI [of _ "[r]"])
     (use assms in \<open>auto simp: insert_task_def list_ex_iff same_task_def split: if_splits\<close>)

lemma grow_dispose: "tasks_grow s (fst (dispose tn wi dg ls s org t me ms now))"
  by (simp add: dispose_def Let_def split_beta grow_statements grow_set_execution tasks_grow_refl
      split: option.split)

lemma grow_gap_gate: "tasks_grow (xs_wf st) (xs_wf (fst (gap_gate d tn st x t now)))"
proof -
  have d: "tasks_grow (xs_wf st) s2" if "dispose tn wi dg ls (xs_wf st) org t' me ms u = (s2, r)"
    for wi dg ls org t' me ms u s2 r
    using grow_dispose [of "xs_wf st" tn wi dg ls org t' me ms u] that by simp
  have tr: "tasks_grow (xs_wf st) s3"
    if "transition_task_if_status tn s2 org i e st' n u a why = (s3, b)" "tasks_grow (xs_wf st) s2"
    for s2 s3 org i e st' n u a why b
    using tasks_grow_trans [OF that(2) grow_set_execution(2) [of s2 tn org i e st' n u a why]] that(1)
    by simp
  show ?thesis
    by (auto simp: gap_gate_def Let_def intro: tasks_grow_refl dest: d tr
        split: option.splits prod.splits sum.splits disposition.splits)
qed

lemma grow_begin_execution:
  "tasks_grow (xs_wf st) (xs_wf (fst (begin_execution d tn st x now)))"
proof (cases "require_executable_task tn (xs_wf st) (xi_org x) (xi_task x) (xi_worker x)")
  case (Inl e)
  then show ?thesis by (simp add: begin_execution_def tasks_grow_refl)
next
  case (Inr t)
  obtain st1 q where g: "gap_gate d tn st x t now = (st1, q)" by fastforce
  have g1: "tasks_grow (xs_wf st) (xs_wf st1)" using grow_gap_gate [of st d tn x t now] g by simp
  show ?thesis
  proof (cases q)
    case (Some q')
    with Inr g g1 show ?thesis by (simp add: begin_execution_def)
  next
    case None
    let ?p = "persona_id_of_worker tn (xs_wf st1) (xi_org x) (xi_worker x)"
    show ?thesis
    proof (cases "compile_arguments d x ?p t")
      case (Inl e)
      with Inr g None g1 show ?thesis by (simp add: begin_execution_def)
    next
      case args: (Inr args)
      obtain s2 q2 where a: "approval_gate tn (xs_wf st1) x
          (assess_execution_risk (tk_risk t) (execution_signals d x args)) now = (s2, q2)" by fastforce
      have g2: "tasks_grow (xs_wf st1) s2" using approval_gate_tasks [OF a] by (rule tasks_grow_refl)
      have g3: "tasks_grow s2 s3" if "transition_task_if_status tn s2 org i e st' n u b why = (s3, ok)"
        for s3 org i e st' n u b why ok
        using grow_set_execution(2) [of s2 tn org i e st' n u b why] that by simp
      have "tasks_grow (xs_wf st1) (xs_wf (fst (begin_execution d tn st x now)))"
        using Inr g None args a g2
        by (auto simp: begin_execution_def Let_def dest: g3 intro: tasks_grow_trans [OF g2]
            split: option.splits sum.splits prod.splits)
      with g1 show ?thesis by (rule tasks_grow_trans)
    qed
  qed
qed

lemma grow_exec_step: "tasks_grow (xs_wf (em_state m)) (xs_wf (em_state (exec_step d tn m e)))"
proof (cases e)
  case (Xe_Begin x now)
  have "em_state (exec_step d tn m e) = fst (begin_execution d tn (em_state m) x now)"
    by (simp add: Xe_Begin split: prod.splits sum.splits)
  then show ?thesis using grow_begin_execution by simp
next
  case (Xe_Finish n p now)
  then show ?thesis
    by (simp add: finish_execution_def Let_def grow_set_execution tasks_grow_refl
        split: pipeline_outcome.split)
next
  case (Xe_New_Task r)
  then show ?thesis
    by (auto simp: on_wf_def tasks_grow_refl intro: grow_insert split: option.split)
qed (simp_all add: on_wf_def grow_statements tasks_grow_refl)

subsection \<open>Runs with events, sweeps and everything else\<close>

datatype wake_event =
    We_Learned learned_payload "nat \<Rightarrow> millis"
  | We_Sweep ident "nat \<Rightarrow> millis" millis
  | We_Sweep_All "nat \<Rightarrow> millis" millis
  | We_Other exec_event

definition put_wf :: "exec_machine \<Rightarrow> workforce \<Rightarrow> exec_machine" where
  "put_wf m s = m\<lparr>em_state := (em_state m)\<lparr>xs_wf := s\<rparr>\<rparr>"

fun wake_step ::
  "execution_deps \<Rightarrow> nat \<Rightarrow> millis \<Rightarrow> bool \<Rightarrow> ident \<Rightarrow> exec_machine \<Rightarrow> wake_event
     \<Rightarrow> exec_machine \<times> wake_outcome list" where
  "wake_step d mx limit wi tn m (We_Learned e clk) =
     (case on_learned mx wi tn (xs_learning (em_state m)) (xs_wf (em_state m)) e clk of
        (s, os) \<Rightarrow> (put_wf m s, os))"
| "wake_step d mx limit wi tn m (We_Sweep org clk now) =
     (case reconcile_once mx limit wi tn (xs_learning (em_state m)) (xs_wf (em_state m)) org clk now of
        (s, st) \<Rightarrow> (put_wf m s, rs_outcomes st))"
| "wake_step d mx limit wi tn m (We_Sweep_All clk now) =
     (case reconcile_tenant mx limit wi tn (xs_learning (em_state m)) (xs_wf (em_state m)) clk now of
        (s, st) \<Rightarrow> (put_wf m s, rs_outcomes st))"
| "wake_step d mx limit wi tn m (We_Other e) = (exec_step d tn m e, [])"

fun wake_run ::
  "execution_deps \<Rightarrow> nat \<Rightarrow> millis \<Rightarrow> bool \<Rightarrow> ident \<Rightarrow> exec_machine \<Rightarrow> wake_event list
     \<Rightarrow> exec_machine \<times> wake_outcome list" where
  "wake_run d mx limit wi tn m [] = (m, [])"
| "wake_run d mx limit wi tn m (e # es) =
     (case wake_step d mx limit wi tn m e of
        (m1, os1) \<Rightarrow> (case wake_run d mx limit wi tn m1 es of (m2, os2) \<Rightarrow> (m2, os1 @ os2)))"

text \<open>The attempts a task has left.\<close>

definition attempts_left :: "nat \<Rightarrow> ident \<Rightarrow> workforce \<Rightarrow> ident \<Rightarrow> nat" where
  "attempts_left mx tn s i =
     (case select_one (\<lambda>r. tk_tenant r = tn \<and> tk_id r = i) (wf_tasks s) of
        None \<Rightarrow> mx | Some r \<Rightarrow> mx - tk_resume_count r)"

definition spends :: "nat \<Rightarrow> ident \<Rightarrow> ident \<Rightarrow> workforce \<Rightarrow> workforce \<Rightarrow> wake_outcome list \<Rightarrow> bool" where
  "spends mx tn i s s' os \<longleftrightarrow>
     task_ids_unique s'
     \<and> count_list os (Wake_Woke i) + attempts_left mx tn s' i \<le> attempts_left mx tn s i"

lemma spends_trans:
  "spends mx tn i s1 s2 os \<Longrightarrow> spends mx tn i s2 s3 os' \<Longrightarrow> spends mx tn i s1 s3 (os @ os')"
  by (simp add: spends_def)

lemma grow_unique:
  assumes "tasks_grow s s'" and "task_ids_unique s"
  shows "task_ids_unique s'"
proof -
  obtain g ns where g: "wf_tasks s' = map g (wf_tasks s) @ ns" "\<And>r. same_task (g r) r"
    and ns: "distinct (map tk_id ns)" "tk_id ` set ns \<inter> tk_id ` set (wf_tasks s) = {}"
    using assms(1) by (auto simp: tasks_grow_def)
  have "tk_id (g r) = tk_id r" for r using g(2) [of r] by (simp add: same_task_def)
  then have "map tk_id (wf_tasks s') = map tk_id (wf_tasks s) @ map tk_id ns" by (simp add: g(1) o_def)
  with assms(2) ns show ?thesis by (auto simp: task_ids_unique_def)
qed

lemma grow_attempts_left:
  assumes "tasks_grow s s'"
  shows "attempts_left mx tn s' i \<le> attempts_left mx tn s i"
proof -
  let ?q = "\<lambda>r. tk_tenant r = tn \<and> tk_id r = i"
  obtain g ns where g: "wf_tasks s' = map g (wf_tasks s) @ ns"
    "\<And>r. same_task (g r) r \<and> tk_resume_count r \<le> tk_resume_count (g r)"
    using assms by (auto simp: tasks_grow_def)
  have "?q (g r) = ?q r" for r using g(2) [of r] by (simp add: same_task_def)
  then have "select_one ?q (wf_tasks s') = (case map_option g (select_one ?q (wf_tasks s)) of
      None \<Rightarrow> select_one ?q ns | Some r \<Rightarrow> Some r)"
    by (simp add: g(1) select_one_append select_one_map)
  then show ?thesis
    using g(2) by (auto simp: attempts_left_def intro: diff_le_mono2 split: option.split)
qed

lemma grow_spends:
  "tasks_grow s s' \<Longrightarrow> task_ids_unique s \<Longrightarrow> spends mx tn i s s' []"
  by (simp add: spends_def grow_unique grow_attempts_left)

lemma attempts_left_row:
  assumes "task_ids_unique s" and "t \<in> set (wf_tasks s)" and "tk_tenant t = tn"
  shows "attempts_left mx tn s (tk_id t) = mx - tk_resume_count t"
  using select_one_unique [of tk_id "wf_tasks s" t "\<lambda>r. tk_tenant r = tn \<and> tk_id r = tk_id t"] assms
  by (simp add: attempts_left_def task_ids_unique_def)

lemma wake_one_task_spends:
  assumes u: "task_ids_unique s"
  shows "spends mx tn i s (fst (wake_one_task mx wi tn ls s org j p e now))
     [snd (wake_one_task mx wi tn ls s org j p e now)]"
proof (cases "get_task tn s org j")
  case None
  from wake_one_task_absent [OF this] show ?thesis by (simp add: spends_def u)
next
  case (Some t)
  then have t: "t \<in> set (wf_tasks s)" "tk_tenant t = tn" "tk_org t = org" "tk_id t = j"
    using get_task_SomeD by blast+
  let ?a = "wake_answer mx (missing_of wi tn ls p t) e t"
  let ?s' = "on_task j (event_row mx wi tn ls p e now) s"
  have w: "wake_one_task mx wi tn ls s org j p e now = (?s', ?a)"
    using wake_one_task_event_row [OF u t(1,2)] t(3,4) by simp
  have g: "tasks_grow s ?s'"
    by (rule tasks_growI [of _ "\<lambda>r. if tk_id r = j then event_row mx wi tn ls p e now r else r"])
       (simp_all add: same_task_def event_row_def)
  show ?thesis
  proof (cases "?a = Wake_Woke i")
    case True
    then have i: "i = j" and c: "tk_resume_count t < mx"
      using t(4) by (auto simp: wake_answer_def split: if_splits)
    let ?t' = "event_row mx wi tn ls p e now t"
    have "?t' \<in> set (wf_tasks ?s')" using t by (auto intro: rev_image_eqI)
    then have "attempts_left mx tn ?s' j = mx - tk_resume_count ?t'"
      using attempts_left_row [OF grow_unique [OF g u], of ?t'] t by simp
    moreover have "tk_resume_count ?t' = tk_resume_count t + 1" using True by (simp add: event_row_def)
    moreover have "attempts_left mx tn s j = mx - tk_resume_count t"
      using attempts_left_row [OF u t(1,2)] t(4) by simp
    ultimately show ?thesis using c True i grow_unique [OF g u] by (simp add: spends_def w)
  next
    case False
    then show ?thesis using grow_spends [OF g u, of mx tn i] by (simp add: spends_def w)
  qed
qed

lemma wake_all_spends:
  "task_ids_unique s \<Longrightarrow>
   spends mx tn i s (fst (wake_all mx wi tn ls s ts p e clk)) (snd (wake_all mx wi tn ls s ts p e clk))"
proof (induction ts arbitrary: s clk)
  case Nil
  then show ?case by (simp add: spends_def)
next
  case (Cons t ts)
  note one = wake_one_task_spends [OF Cons.prems, of mx tn i wi ls "tk_org t" "tk_id t" p e "clk 0"]
  then have "task_ids_unique (fst (wake_one_task mx wi tn ls s (tk_org t) (tk_id t) p e (clk 0)))"
    by (simp add: spends_def)
  from spends_trans [OF one Cons.IH [OF this, of "\<lambda>n. clk (Suc n)"]] show ?case by (simp add: split_beta)
qed

lemma reconcile_task_spends:
  assumes "task_ids_unique s"
  shows "spends mx tn i s (fst (reconcile_task mx limit wi tn ls s t c now))
     (case snd (reconcile_task mx limit wi tn ls s t c now) of None \<Rightarrow> [] | Some (a, b) \<Rightarrow> [a])"
proof -
  have "spends mx tn i s1 (fst (mark_learning_timeout tn s1 org j n now)) []"
    if "task_ids_unique s1" for s1 org j n
    using grow_spends [OF grow_statements(5) that] .
  then have m: "spends mx tn i s (fst (mark_learning_timeout tn s1 org j n now)) os"
    if "spends mx tn i s s1 os" for s1 org j n os
    using spends_trans [OF that, of "fst (mark_learning_timeout tn s1 org j n now)" "[]"] that
    by (simp add: spends_def)
  note w = wake_one_task_spends [OF assms, of mx tn i wi ls "tk_org t" "tk_id t"]
  show ?thesis
    using w m [OF w] assms
    by (simp add: reconcile_task_def Let_def split_beta) (simp add: spends_def)
qed

lemma reconcile_loop_spends:
  "task_ids_unique s \<Longrightarrow>
   spends mx tn i s (fst (reconcile_loop mx limit wi tn ls s ts clk now st))
     (drop (length (rs_outcomes st)) (rs_outcomes (snd (reconcile_loop mx limit wi tn ls s ts clk now st))))
   \<and> take (length (rs_outcomes st)) (rs_outcomes (snd (reconcile_loop mx limit wi tn ls s ts clk now st)))
     = rs_outcomes st"
proof (induction ts arbitrary: s clk st)
  case Nil
  then show ?case by (simp add: spends_def)
next
  case (Cons t ts)
  let ?r = "reconcile_task mx limit wi tn ls s t (clk 0) now"
  let ?new = "case snd ?r of None \<Rightarrow> [] | Some (a, b) \<Rightarrow> [a]"
  let ?st1 = "count_outcome (snd ?r) st"
  let ?last = "reconcile_loop mx limit wi tn ls (fst ?r) ts (\<lambda>n. clk (Suc n)) now ?st1"
  note one = reconcile_task_spends [OF Cons.prems, of mx tn i limit wi ls t "clk 0" now]
  have new: "rs_outcomes ?st1 = rs_outcomes st @ ?new"
    by (simp add: count_outcome_def split: option.split prod.split)
  have "task_ids_unique (fst ?r)" using one by (simp add: spends_def)
  note IH = Cons.IH [OF this, of "\<lambda>n. clk (Suc n)" ?st1]
  then have pre: "rs_outcomes (snd ?last) = rs_outcomes st @ ?new
      @ drop (length (rs_outcomes ?st1)) (rs_outcomes (snd ?last))"
    using append_take_drop_id [of "length (rs_outcomes ?st1)" "rs_outcomes (snd ?last)"]
    by (metis append_assoc new)
  have "spends mx tn i s (fst ?last) (?new @ drop (length (rs_outcomes ?st1)) (rs_outcomes (snd ?last)))"
    using one IH by (blast intro: spends_trans)
  then show ?case
    using pre by (simp add: split_beta) (metis append_eq_conv_conj)
qed

lemma wake_step_spends:
  assumes "task_ids_unique (xs_wf (em_state m))"
  shows "spends mx tn i (xs_wf (em_state m)) (xs_wf (em_state (fst (wake_step d mx limit wi tn m e))))
     (snd (wake_step d mx limit wi tn m e))"
proof (cases e)
  case (We_Learned p clk)
  then show ?thesis
    using wake_all_spends [OF assms] assms
    by (simp add: on_learned_def put_wf_def split_beta split: option.split) (simp add: spends_def)
next
  case (We_Sweep org clk now)
  then show ?thesis
    using reconcile_loop_spends [OF assms, where st = "\<lparr> rs_scanned = k, rs_woke = 0,
        rs_still_blocked = 0, rs_timed_out = 0, rs_outcomes = [] \<rparr>" for k]
    by (simp add: reconcile_once_def reconcile_tasks_def put_wf_def split_beta)
next
  case (We_Sweep_All clk now)
  then show ?thesis
    using reconcile_loop_spends [OF assms, where st = "\<lparr> rs_scanned = k, rs_woke = 0,
        rs_still_blocked = 0, rs_timed_out = 0, rs_outcomes = [] \<rparr>" for k]
    by (simp add: reconcile_tenant_def reconcile_tasks_def put_wf_def split_beta)
next
  case (We_Other x)
  then show ?thesis using grow_spends [OF grow_exec_step assms] by simp
qed

lemma wake_run_spends:
  "task_ids_unique (xs_wf (em_state m)) \<Longrightarrow>
   spends mx tn i (xs_wf (em_state m)) (xs_wf (em_state (fst (wake_run d mx limit wi tn m es))))
     (snd (wake_run d mx limit wi tn m es))"
proof (induction es arbitrary: m)
  case Nil
  then show ?case by (simp add: spends_def)
next
  case (Cons e es)
  note one = wake_step_spends [OF Cons.prems, of mx tn i d limit wi e]
  then have "task_ids_unique (xs_wf (em_state (fst (wake_step d mx limit wi tn m e))))"
    by (simp add: spends_def)
  from spends_trans [OF one Cons.IH [OF this]] show ?case by (simp add: split_beta)
qed

subsection \<open>Properties\<close>

text \<open>
  Learning cannot keep a task in a loop: whatever events, sweeps, executions, handoffs and
  approvals happen in whatever order, a task is woken at most as often as it has attempts left, so
  at most the configured maximum (3 by default).
\<close>

theorem wake_ups_are_bounded:
  assumes "distinct (map tk_id (wf_tasks (xs_wf (em_state m))))"
  shows "count_list (snd (wake_run d mx limit wi tn m es)) (Wake_Woke i)
       \<le> attempts_left mx tn (xs_wf (em_state m)) i \<and>
     attempts_left mx tn (xs_wf (em_state m)) i \<le> mx"
proof -
  have "task_ids_unique (xs_wf (em_state m))" using assms by (simp add: task_ids_unique_def)
  from wake_run_spends [OF this, of mx tn i d limit wi es] show ?thesis
    by (auto simp: spends_def attempts_left_def split: option.split)
qed


text \<open>
  Repeating a sweep costs nothing: as long as nothing new is learned, a second sweep of the same
  organisation neither wakes a task nor spends an attempt, whenever it runs, while a different list
  of learned capabilities always counts as a new event.
\<close>

theorem repeated_sweep_spends_nothing:
  fixes s :: workforce
  assumes "distinct (map tk_id (wf_tasks s))"
    and "s1 = fst (reconcile_once mx limit wi tn ls s org clk now)"
    and "s2 = fst (reconcile_once mx limit wi tn ls s1 org clk' now')"
  shows "map (\<lambda>r. (tk_id r, tk_status r, tk_resume_count r, tk_last_wake r)) (wf_tasks s2)
       = map (\<lambda>r. (tk_id r, tk_status r, tk_resume_count r, tk_last_wake r)) (wf_tasks s1) \<and>
     (sweep_event p l = sweep_event p l' \<longleftrightarrow> l = l')"
proof -
  have u: "task_ids_unique s" using assms(1) by (simp add: task_ids_unique_def)
  obtain \<tau> where s1: "s1 = s\<lparr>wf_tasks := map (\<lambda>r. if gap_blocked tn ls r \<and> tk_org r = org
       then sweep_row mx limit wi tn ls now s (\<tau> (tk_id r)) r else r) (wf_tasks s)\<rparr>"
    using reconcile_once_rows [OF u] unfolding assms(2) by blast
  have tasks1: "wf_tasks s1 = map (\<lambda>r. if gap_blocked tn ls r \<and> tk_org r = org
       then sweep_row mx limit wi tn ls now s (\<tau> (tk_id r)) r else r) (wf_tasks s)"
    by (simp add: s1)
  have "map tk_id (wf_tasks s1) = map tk_id (wf_tasks s)"
    unfolding tasks1 by (simp cong: map_cong)
  then have u1: "task_ids_unique s1" using u by (simp only: task_ids_unique_def)
  obtain \<tau>' where s2: "s2 = s1\<lparr>wf_tasks := map (\<lambda>r. if gap_blocked tn ls r \<and> tk_org r = org
       then sweep_row mx limit wi tn ls now' s1 (\<tau>' (tk_id r)) r else r) (wf_tasks s1)\<rparr>"
    using reconcile_once_rows [OF u1] unfolding assms(3) by blast
  have w: "wf_workers s1 = wf_workers s" by (simp add: s1)
  have again: "wake_state (sweep_row mx limit wi tn ls now' s1 c' r) = wake_state r"
    if r: "r \<in> set (wf_tasks s1)" and g: "gap_blocked tn ls r" "tk_org r = org" for r c'
  proof -
    obtain q where q: "q \<in> set (wf_tasks s)" and
      rq: "r = (if gap_blocked tn ls q \<and> tk_org q = org
        then sweep_row mx limit wi tn ls now s (\<tau> (tk_id q)) q else q)"
      using r by (auto simp: s1)
    have swept: "gap_blocked tn ls q \<and> tk_org q = org" using g rq by (auto split: if_splits)
    then have "tk_status q = Task_Blocked" by (simp add: gap_blocked_def)
    from sweep_row_twice [OF this w] swept rq show ?thesis by simp
  qed
  have "map wake_state (wf_tasks s2) = map wake_state (wf_tasks s1)"
    unfolding s2 by (simp add: again)
  then show ?thesis
    by (simp add: wake_state_def [abs_def] sweep_event_def js_string_array_text_inj)
qed

text \<open>
  The two ways differ on a task that was not blocked by a missing capability but because its
  execution failed: if it once waited for a capability, an event that reports this capability
  delegates it again and overwrites the account of the failure, while a sweep leaves it alone.
\<close>

theorem event_overwrites_failure:
  fixes s :: workforce and t :: org_task and r :: learning_request
  assumes "distinct (map tk_id (wf_tasks s))" and "t \<in> set (wf_tasks s)"
    and "tk_status t = Task_Blocked" and "tk_blocked t = Some Execution_Failure"
    and "tk_resume_count t < mx" and "r \<in> set (ls_requests ls)"
    and "lr_tenant r = tk_tenant t" and "lr_triggered_by r = Some (tk_id t)"
    and "normalize_capability ` set (tk_capabilities t) \<subseteq>
           normalize_capability ` set (list_learned_capabilities (tk_tenant t) wi ls (lr_persona r))"
    and "tk_last_wake t \<noteq> Some q"
  shows "(\<exists>t' \<in> set (wf_tasks (fst (on_learned mx wi (tk_tenant t) ls s
            \<lparr> lp_tenant = Some (tk_tenant t), lp_persona = Some (lr_persona r),
              lp_capability = Some (lr_capability r), lp_request = Some q \<rparr> clk))).
         tk_id t' = tk_id t \<and> tk_status t' = Task_Delegated \<and> tk_summary t' = Some Sum_Woken) \<and>
     t \<in> set (wf_tasks (fst (reconcile_once mx limit wi (tk_tenant t) ls s (tk_org t) clk now)))"
proof -
  let ?tn = "tk_tenant t" and ?p = "lr_persona r"
  have u: "task_ids_unique s" using assms(1) by (simp add: task_ids_unique_def)
  obtain \<tau> where e: "fst (on_learned mx wi ?tn ls s \<lparr> lp_tenant = Some ?tn, lp_persona = Some ?p,
      lp_capability = Some (lr_capability r), lp_request = Some q \<rparr> clk) = s\<lparr>wf_tasks := map (\<lambda>r'.
     if r' \<in> set (list_blocked_for_learned ?tn ls s ?p (lr_capability r))
     then event_row mx wi ?tn ls ?p q (\<tau> (tk_id r')) r' else r') (wf_tasks s)\<rparr>"
    using on_learned_rows [OF u] by fastforce
  have listed: "t \<in> set (list_blocked_for_learned ?tn ls s ?p (lr_capability r))"
    using assms(2,3,6-8) by (auto simp: list_blocked_for_learned_def in_creation_order_def list_ex_iff)
  have m: "missing_of wi ?tn ls ?p t = []"
    using assms(9) by (auto simp: missing_of_def filter_empty_conv normalize_capabilities_set)
  have "event_row mx wi ?tn ls ?p q (\<tau> (tk_id t)) t = row_after mx (Wake_Woke (tk_id t)) q (\<tau> (tk_id t)) t"
    using assms(3,5,10) by (simp add: event_row_def wake_answer_def m)
  moreover have "event_row mx wi ?tn ls ?p q (\<tau> (tk_id t)) t \<in> set (wf_tasks (fst (on_learned mx wi ?tn ls s
      \<lparr> lp_tenant = Some ?tn, lp_persona = Some ?p, lp_capability = Some (lr_capability r),
        lp_request = Some q \<rparr> clk)))"
    unfolding e using assms(2) listed by (auto intro: rev_image_eqI)
  moreover obtain \<tau>' where sw: "fst (reconcile_once mx limit wi ?tn ls s (tk_org t) clk now) = s\<lparr>wf_tasks :=
     map (\<lambda>r. if gap_blocked ?tn ls r \<and> tk_org r = tk_org t
       then sweep_row mx limit wi ?tn ls now s (\<tau>' (tk_id r)) r else r) (wf_tasks s)\<rparr>"
    using reconcile_once_rows [OF u] by blast
  moreover have "\<not> gap_blocked ?tn ls t" using assms(4) by (simp add: gap_blocked_def)
  ultimately show ?thesis
    using assms(2) by (intro conjI bexI [of _ "event_row mx wi ?tn ls ?p q (\<tau> (tk_id t)) t"])
      (auto intro: rev_image_eqI)
qed

subsection \<open>Witnesses\<close>

text \<open>
  A task waits for a capability, is woken when it was learned, and then fails in its tool.
\<close>

definition demo_gap_task :: org_task where
  "demo_gap_task = demo_task\<lparr>tk_risk := Risk_Low, tk_capabilities := [''qa'']\<rparr>"

definition demo_passed :: learning_state where
  "demo_passed = \<lparr> ls_requests = [\<lparr> lr_id = ''r'', lr_tenant = ''t'', lr_org = ''o'', lr_persona = ''ic'',
       lr_capability = ''qa'', lr_unknown = False, lr_evidence = Some ''task'', lr_priority = Risk_Low,
       lr_triggered_by = Some ''task'', lr_status = Learn_Passed, lr_created_at = 1, lr_updated_at = 2 \<rparr>],
     ls_index = [], ls_ids = 1 \<rparr>"

definition demo_gap_deps :: execution_deps where
  "demo_gap_deps = demo_deps\<lparr>xd_learning := Some True, xd_idgen := (\<lambda>_. ''r'')\<rparr>"

definition demo_gap_machine :: exec_machine where
  "demo_gap_machine = foldl (exec_step demo_gap_deps ''t'')
     (demo_machine\<lparr>em_state := (em_state demo_machine)\<lparr>
        xs_wf := \<lparr> wf_workers = [(demo_worker ''ic'')\<lparr>dw_persona := ''ic''\<rparr>], wf_edges = [],
                  wf_tasks = [demo_gap_task], wf_approvals = [] \<rparr>\<rparr>\<rparr>)
     [Xe_Begin (demo_input\<lparr>xi_approval := None\<rparr>) 1, Xe_Learning demo_passed]"

definition demo_learned :: learned_payload where
  "demo_learned = \<lparr> lp_tenant = Some ''t'', lp_persona = Some ''ic'', lp_capability = Some ''qa'',
     lp_request = Some ''r'' \<rparr>"

definition demo_wake_events :: "wake_event list" where
  "demo_wake_events =
     [We_Learned demo_learned (\<lambda>_. 3), We_Other (Xe_Begin (demo_input\<lparr>xi_approval := None\<rparr>) 4),
      We_Other (Xe_Finish 0 (Po_Refused ''iv'' ''failed'' ''upstream 500'') 5)]"

definition demo_failed :: workforce where
  "demo_failed = xs_wf (em_state (fst (wake_run demo_gap_deps 3 default_learning_timeout True ''t''
     demo_gap_machine demo_wake_events)))"

lemma wake_ups_are_bounded_witness:
  "count_list (snd (wake_run demo_gap_deps 3 default_learning_timeout True ''t'' demo_gap_machine
     demo_wake_events)) (Wake_Woke ''task'') \<in> {1..3}"
proof -
  have d: "distinct (map tk_id (wf_tasks (xs_wf (em_state demo_gap_machine))))" by code_simp
  have "count_list (snd (wake_run demo_gap_deps 3 default_learning_timeout True ''t'' demo_gap_machine
     demo_wake_events)) (Wake_Woke ''task'') = 1" by code_simp
  with wake_ups_are_bounded [OF d, of demo_gap_deps 3 default_learning_timeout True "''t''"
      demo_wake_events "''task''"] show ?thesis by simp
qed


lemma repeated_sweep_spends_nothing_witness:
  "\<exists>s1. s1 = fst (reconcile_once 3 default_learning_timeout True ''t'' demo_passed
      (xs_wf (em_state demo_gap_machine)) ''o'' (\<lambda>_. 3) 3) \<and>
    map tk_resume_count (wf_tasks (fst (reconcile_once 3 default_learning_timeout True ''t'' demo_passed
      s1 ''o'' (\<lambda>_. 4) 4))) = [1]"
proof -
  let ?s = "xs_wf (em_state demo_gap_machine)"
  let ?s1 = "fst (reconcile_once 3 default_learning_timeout True ''t'' demo_passed ?s ''o'' (\<lambda>_. 3) 3)"
  have d: "distinct (map tk_id (wf_tasks ?s))" by code_simp
  have "map tk_resume_count (wf_tasks ?s1) = [1]" by code_simp
  then have one: "map tk_resume_count (wf_tasks s2) = [1]"
    if "map (\<lambda>r. (tk_id r, tk_status r, tk_resume_count r, tk_last_wake r)) (wf_tasks s2)
       = map (\<lambda>r. (tk_id r, tk_status r, tk_resume_count r, tk_last_wake r)) (wf_tasks ?s1)" for s2 :: workforce
    using arg_cong [OF that, of "map (\<lambda>(a, b, c, e). c)"] by (simp add: o_def)
  note again = repeated_sweep_spends_nothing [OF d refl refl, where mx = 3 and limit = default_learning_timeout
      and wi = True and tn = "''t''" and ls = demo_passed and org = "''o''" and clk = "\<lambda>_. 3" and now = 3
      and clk' = "\<lambda>_. 4" and now' = 4]
  show ?thesis by (intro exI conjI, rule refl, rule one, rule conjunct1 [OF again])
qed

lemma event_overwrites_failure_witness:
  "map tk_summary (wf_tasks demo_failed) = [Some (Sum_Refused ''failed'' ''upstream 500'')] \<and>
   (\<exists>t' \<in> set (wf_tasks (fst (on_learned 3 True ''t'' demo_passed demo_failed
      (demo_learned\<lparr>lp_request := Some ''again''\<rparr>) (\<lambda>_. 6)))).
    tk_status t' = Task_Delegated \<and> tk_summary t' = Some Sum_Woken)"
proof -
  let ?t = "hd (wf_tasks demo_failed)" and ?r = "hd (ls_requests demo_passed)"
  have d: "distinct (map tk_id (wf_tasks demo_failed))" and t: "?t \<in> set (wf_tasks demo_failed)"
    and b: "tk_status ?t = Task_Blocked" and f: "tk_blocked ?t = Some Execution_Failure"
    and c: "tk_resume_count ?t < 3" and r: "?r \<in> set (ls_requests demo_passed)"
    and rt: "lr_tenant ?r = tk_tenant ?t" and ri: "lr_triggered_by ?r = Some (tk_id ?t)"
    and k: "normalize_capability ` set (tk_capabilities ?t) \<subseteq> normalize_capability ` set
        (list_learned_capabilities (tk_tenant ?t) True demo_passed (lr_persona ?r))"
    and w: "tk_last_wake ?t \<noteq> Some ''again''"
    by code_simp+
  have e: "\<lparr> lp_tenant = Some (tk_tenant ?t), lp_persona = Some (lr_persona ?r),
      lp_capability = Some (lr_capability ?r), lp_request = Some ''again'' \<rparr>
      = demo_learned\<lparr>lp_request := Some ''again''\<rparr>" and tn: "tk_tenant ?t = ''t''" by code_simp+
  have "map tk_summary (wf_tasks demo_failed) = [Some (Sum_Refused ''failed'' ''upstream 500'')]"
    by code_simp
  with event_overwrites_failure [OF d t b f c r rt ri k w, where clk = "\<lambda>_. 6"] show ?thesis
    unfolding e unfolding tn by blast
qed

end
