(* ===== verification/Org_Store.thy ===== *)
theory Org_Store
  imports Capability_Learning "HOL-Library.AList"
begin

text \<open>
  The other tables of an organisation of digital workers and the statements on them
  (\<^verbatim>\<open>src/workforce/types.ts\<close>, \<^verbatim>\<open>src/storage/org-workforce-store.ts\<close>): positions, goals, reports,
  conversations, handoffs and escalations, beside the workers, reporting edges, tasks and approvals
  of \<open>workforce\<close> and the ledger of learning requests. \<open>None\<close> is an insertion that violates a primary
  key or unique index.
\<close>

datatype seniority = Sen_Exec | Sen_Lead | Sen_Senior | Sen_Ic

record org_position =
  op_id :: ident
  op_tenant :: ident
  op_org :: ident
  op_title :: string
  op_family :: string
  op_seniority :: seniority
  op_role :: string
  op_created_at :: millis

datatype goal_status = Goal_Proposed | Goal_Active | Goal_Completed | Goal_Cancelled

record org_goal =
  gl_id :: ident
  gl_tenant :: ident
  gl_org :: ident
  gl_owner :: ident
  gl_title :: string
  gl_description :: string
  gl_type :: string
  gl_status :: goal_status
  gl_playbook :: int
  gl_source :: "ident option"
  gl_created_at :: millis
  gl_updated_at :: millis

datatype report_type = Rep_Progress | Rep_Final | Rep_Blocker | Rep_Escalation

text \<open>The text of a report is a sentence in the program; here the facts it is made of.\<close>

datatype note_line = Line_Pending string | Line_Result "task_summary option"

datatype report_note =
    Note_Result task_summary
  | Note_Ready string string
  | Note_Summary string nat "note_line list"

record task_report =
  rp_id :: ident
  rp_tenant :: ident
  rp_org :: ident
  rp_task :: ident
  rp_from :: ident
  rp_to :: ident
  rp_type :: report_type
  rp_note :: report_note
  rp_created_at :: millis

datatype thread_type = Thread_Delegation | Thread_Report | Thread_Handoff | Thread_Coordination

datatype thread_status = Thread_Open | Thread_Closed

record org_thread =
  th_id :: ident
  th_tenant :: ident
  th_org :: ident
  th_type :: thread_type
  th_goal :: "ident option"
  th_task :: "ident option"
  th_creator :: ident
  th_status :: thread_status
  th_created_at :: millis
  th_updated_at :: millis

datatype message_type = Msg_Request | Msg_Response | Msg_Report | Msg_Note | Msg_Escalation

record org_message =
  mg_id :: ident
  mg_tenant :: ident
  mg_org :: ident
  mg_thread :: ident
  mg_from :: ident
  mg_to :: "ident option"
  mg_type :: message_type
  mg_content :: string
  mg_correlation :: "ident option"
  mg_created_at :: millis

datatype handoff_status = Hand_Proposed | Hand_Accepted | Hand_Rejected | Hand_Cancelled

record org_handoff =
  ho_id :: ident
  ho_tenant :: ident
  ho_org :: ident
  ho_task :: ident
  ho_from :: ident
  ho_to :: ident
  ho_reason :: string
  ho_status :: handoff_status
  ho_created_at :: millis
  ho_responded_at :: "millis option"

datatype escalation_status = Esc_Pending | Esc_Resolved | Esc_Reescalated | Esc_Cancelled

record org_escalation =
  es_id :: ident
  es_tenant :: ident
  es_org :: ident
  es_task :: ident
  es_from :: ident
  es_to :: ident
  es_parent :: "ident option"
  es_depth :: nat
  es_status :: escalation_status
  es_reason :: string
  es_resolution :: "string option"
  es_correlation :: "ident option"
  es_created_at :: millis
  es_decided_at :: "millis option"

text \<open>The counter numbers the calls of \<^verbatim>\<open>idgen\<close>, which is an argument of the operations.\<close>

record org_state =
  og_wf :: workforce
  og_positions :: "org_position list"
  og_goals :: "org_goal list"
  og_reports :: "task_report list"
  og_threads :: "org_thread list"
  og_messages :: "org_message list"
  og_handoffs :: "org_handoff list"
  og_escalations :: "org_escalation list"
  og_learning :: "learning_request list"
  og_ids :: nat

definition on_og_wf :: "(workforce \<Rightarrow> workforce) \<Rightarrow> org_state \<Rightarrow> org_state" where
  "on_og_wf f s = s\<lparr>og_wf := f (og_wf s)\<rparr>"

lemma on_og_wf_simps [simp]:
  "og_wf (on_og_wf f s) = f (og_wf s)"
  "og_positions (on_og_wf f s) = og_positions s"
  "og_goals (on_og_wf f s) = og_goals s"
  "og_reports (on_og_wf f s) = og_reports s"
  "og_handoffs (on_og_wf f s) = og_handoffs s"
  "og_escalations (on_og_wf f s) = og_escalations s"
  "og_ids (on_og_wf f s) = og_ids s"
  by (simp_all add: on_og_wf_def)

subsection \<open>Positions, workers and reporting edges\<close>

definition insert_position :: "org_position \<Rightarrow> org_state \<Rightarrow> org_state option" where
  "insert_position p s =
     (if list_ex (\<lambda>q. op_id q = op_id p
           \<or> op_tenant q = op_tenant p \<and> op_org q = op_org p \<and> op_role q = op_role p) (og_positions s)
      then None else Some (s\<lparr>og_positions := og_positions s @ [p]\<rparr>))"

definition list_positions :: "ident \<Rightarrow> org_state \<Rightarrow> ident \<Rightarrow> org_position list" where
  "list_positions tn s org =
     sort_key (\<lambda>p. (op_created_at p, op_id p))
       (filter (\<lambda>p. op_tenant p = tn \<and> op_org p = org) (og_positions s))"

definition insert_worker :: "digital_worker \<Rightarrow> org_state \<Rightarrow> org_state option" where
  "insert_worker w s =
     (if list_ex (\<lambda>q. dw_id q = dw_id w) (wf_workers (og_wf s)) then None
      else Some (on_og_wf (\<lambda>f. f\<lparr>wf_workers := wf_workers f @ [w]\<rparr>) s))"

definition insert_edge :: "reporting_edge \<Rightarrow> org_state \<Rightarrow> org_state option" where
  "insert_edge e s =
     (if list_ex (\<lambda>q. re_id q = re_id e
           \<or> re_tenant q = re_tenant e \<and> re_org q = re_org e \<and> re_report q = re_report e)
         (wf_edges (og_wf s))
      then None else Some (on_og_wf (\<lambda>f. f\<lparr>wf_edges := wf_edges f @ [e]\<rparr>) s))"

text \<open>The manager along a solid edge; an edge of another kind does not count.\<close>

definition get_manager_of :: "ident \<Rightarrow> workforce \<Rightarrow> ident \<Rightarrow> ident \<Rightarrow> ident option" where
  "get_manager_of tn s org w =
     (case sort (map (\<lambda>r. the (re_manager r)) (filter (\<lambda>r. re_tenant r = tn \<and> re_org r = org
              \<and> re_report r = w \<and> re_type r = Edge_Solid \<and> re_manager r \<noteq> None) (wf_edges s))) of
        [] \<Rightarrow> None | m # _ \<Rightarrow> Some m)"

definition edge_of :: "ident \<Rightarrow> ident \<Rightarrow> ident \<Rightarrow> reporting_edge \<Rightarrow> bool" where
  "edge_of tn org w r \<longleftrightarrow> re_tenant r = tn \<and> re_org r = org \<and> re_report r = w"

definition worker_at :: "ident \<Rightarrow> ident \<Rightarrow> ident \<Rightarrow> digital_worker \<Rightarrow> bool" where
  "worker_at tn org w r \<longleftrightarrow> dw_tenant r = tn \<and> dw_org r = org \<and> dw_id r = w"

definition reparent_worker ::
  "ident \<Rightarrow> workforce \<Rightarrow> ident \<Rightarrow> ident \<Rightarrow> ident option \<Rightarrow> millis \<Rightarrow> workforce \<times> bool" where
  "reparent_worker tn s org w m now =
     (let (es, n) = update_where (edge_of tn org w) (\<lambda>r. r\<lparr>re_manager := m\<rparr>) (wf_edges s);
          ws = fst (update_where (worker_at tn org w) (\<lambda>r. r\<lparr>dw_updated_at := now\<rparr>) (wf_workers s))
      in (s\<lparr>wf_edges := es, wf_workers := ws\<rparr>, 0 < n))"

definition set_employment ::
  "ident \<Rightarrow> workforce \<Rightarrow> ident \<Rightarrow> ident \<Rightarrow> employment_status \<Rightarrow> millis \<Rightarrow> workforce \<times> bool" where
  "set_employment tn s org w st now =
     (let (ws, n) = update_where (worker_at tn org w)
        (\<lambda>r. r\<lparr>dw_status := st, dw_updated_at := now\<rparr>) (wf_workers s)
      in (s\<lparr>wf_workers := ws\<rparr>, 0 < n))"

definition roles_unique :: "org_position list \<Rightarrow> bool" where
  "roles_unique ps \<longleftrightarrow> distinct (map (\<lambda>p. (op_tenant p, op_org p, op_role p)) ps)"

definition edges_unique :: "reporting_edge list \<Rightarrow> bool" where
  "edges_unique es \<longleftrightarrow> distinct (map (\<lambda>e. (re_tenant e, re_org e, re_report e)) es)"

definition rename_role :: "ident \<Rightarrow> org_state \<Rightarrow> ident \<Rightarrow> string \<Rightarrow> string \<Rightarrow> org_state option" where
  "rename_role tn s org old new =
     (let ps = fst (update_where (\<lambda>p. op_tenant p = tn \<and> op_org p = org \<and> op_role p = old)
                 (\<lambda>p. p\<lparr>op_role := new\<rparr>) (og_positions s))
      in if roles_unique ps then Some (s\<lparr>og_positions := ps\<rparr>) else None)"

text \<open>
  \<^verbatim>\<open>migrateOrgStructure\<close>: the twelve tables, in its order. The two unique indexes that contain the
  organisation may refuse the move.
\<close>

definition migrate_org :: "ident \<Rightarrow> org_state \<Rightarrow> ident \<Rightarrow> ident \<Rightarrow> (org_state \<times> nat) option" where
  "migrate_org tn s a b =
     (let wf = og_wf s;
          ws = fst (update_where (\<lambda>r. dw_tenant r = tn \<and> dw_org r = a) (\<lambda>r. r\<lparr>dw_org := b\<rparr>) (wf_workers wf));
          ps = fst (update_where (\<lambda>r. op_tenant r = tn \<and> op_org r = a) (\<lambda>r. r\<lparr>op_org := b\<rparr>) (og_positions s));
          es = fst (update_where (\<lambda>r. re_tenant r = tn \<and> re_org r = a) (\<lambda>r. r\<lparr>re_org := b\<rparr>) (wf_edges wf));
          gs = fst (update_where (\<lambda>r. gl_tenant r = tn \<and> gl_org r = a) (\<lambda>r. r\<lparr>gl_org := b\<rparr>) (og_goals s));
          ts = fst (update_where (\<lambda>r. tk_tenant r = tn \<and> tk_org r = a) (\<lambda>r. r\<lparr>tk_org := b\<rparr>) (wf_tasks wf));
          rs = fst (update_where (\<lambda>r. rp_tenant r = tn \<and> rp_org r = a) (\<lambda>r. r\<lparr>rp_org := b\<rparr>) (og_reports s));
          hs = fst (update_where (\<lambda>r. th_tenant r = tn \<and> th_org r = a) (\<lambda>r. r\<lparr>th_org := b\<rparr>) (og_threads s));
          ms = fst (update_where (\<lambda>r. mg_tenant r = tn \<and> mg_org r = a) (\<lambda>r. r\<lparr>mg_org := b\<rparr>) (og_messages s));
          os = fst (update_where (\<lambda>r. ho_tenant r = tn \<and> ho_org r = a) (\<lambda>r. r\<lparr>ho_org := b\<rparr>) (og_handoffs s));
          qs = fst (update_where (\<lambda>r. ap_tenant r = tn \<and> ap_org r = a) (\<lambda>r. r\<lparr>ap_org := b\<rparr>) (wf_approvals wf));
          xs = fst (update_where (\<lambda>r. es_tenant r = tn \<and> es_org r = a) (\<lambda>r. r\<lparr>es_org := b\<rparr>) (og_escalations s));
          ls = fst (update_where (\<lambda>r. lr_tenant r = tn \<and> lr_org r = a) (\<lambda>r. r\<lparr>lr_org := b\<rparr>) (og_learning s))
      in if roles_unique ps \<and> edges_unique es then
           Some (s\<lparr>og_wf := \<lparr> wf_workers = ws, wf_edges = es, wf_tasks = ts, wf_approvals = qs \<rparr>,
                   og_positions := ps, og_goals := gs, og_reports := rs, og_threads := hs,
                   og_messages := ms, og_handoffs := os, og_escalations := xs, og_learning := ls\<rparr>,
                 length (list_workers tn wf a))
         else None)"

text \<open>Which worker holds a role; of several the one that was created first.\<close>

definition role_by_position :: "ident \<Rightarrow> org_state \<Rightarrow> ident \<Rightarrow> (ident \<times> string) list" where
  "role_by_position tn s org = map (\<lambda>p. (op_id p, op_role p)) (list_positions tn s org)"

fun first_by_role :: "(ident \<times> string) list \<Rightarrow> digital_worker list \<Rightarrow> (string \<times> ident) list \<Rightarrow> (string \<times> ident) list" where
  "first_by_role roles [] m = m"
| "first_by_role roles (w # ws) m =
     (case map_of roles (dw_position w) of
        None \<Rightarrow> first_by_role roles ws m
      | Some r \<Rightarrow>
          if r \<noteq> [] \<and> map_of m r = None then first_by_role roles ws (m @ [(r, dw_id w)])
          else first_by_role roles ws m)"

definition worker_id_by_role :: "ident \<Rightarrow> org_state \<Rightarrow> ident \<Rightarrow> (string \<times> ident) list" where
  "worker_id_by_role tn s org =
     first_by_role (role_by_position tn s org) (list_workers tn (og_wf s) org) []"

subsection \<open>Goals, tasks and reports\<close>

definition insert_goal :: "org_goal \<Rightarrow> org_state \<Rightarrow> org_state option" where
  "insert_goal g s =
     (if list_ex (\<lambda>q. gl_id q = gl_id g) (og_goals s) then None
      else Some (s\<lparr>og_goals := og_goals s @ [g]\<rparr>))"

definition get_goal :: "ident \<Rightarrow> org_state \<Rightarrow> ident \<Rightarrow> ident \<Rightarrow> org_goal option" where
  "get_goal tn s org i =
     select_one (\<lambda>g. gl_tenant g = tn \<and> gl_org g = org \<and> gl_id g = i) (og_goals s)"

definition update_goal_status ::
  "ident \<Rightarrow> org_state \<Rightarrow> ident \<Rightarrow> ident \<Rightarrow> goal_status \<Rightarrow> millis \<Rightarrow> org_state" where
  "update_goal_status tn s org i st now =
     s\<lparr>og_goals := fst (update_where (\<lambda>g. gl_tenant g = tn \<and> gl_org g = org \<and> gl_id g = i)
        (\<lambda>g. g\<lparr>gl_status := st, gl_updated_at := now\<rparr>) (og_goals s))\<rparr>"

definition insert_org_task :: "org_task \<Rightarrow> org_state \<Rightarrow> org_state option" where
  "insert_org_task t s = map_option (\<lambda>f. s\<lparr>og_wf := f\<rparr>) (insert_task t (og_wf s))"

definition list_tasks_by_assignee :: "ident \<Rightarrow> workforce \<Rightarrow> ident \<Rightarrow> ident \<Rightarrow> org_task list" where
  "list_tasks_by_assignee tn s org w =
     sort_key (\<lambda>t. (tk_created_at t, tk_id t))
       (filter (\<lambda>t. tk_tenant t = tn \<and> tk_org t = org \<and> tk_assigned t = Some w) (wf_tasks s))"

definition insert_report :: "task_report \<Rightarrow> org_state \<Rightarrow> org_state option" where
  "insert_report r s =
     (if list_ex (\<lambda>q. rp_id q = rp_id r) (og_reports s) then None
      else Some (s\<lparr>og_reports := og_reports s @ [r]\<rparr>))"

definition list_reports_by_goal :: "ident \<Rightarrow> org_state \<Rightarrow> ident \<Rightarrow> ident \<Rightarrow> task_report list" where
  "list_reports_by_goal tn s org g =
     sort_key (\<lambda>r. (rp_created_at r, rp_id r))
       (filter (\<lambda>r. rp_tenant r = tn \<and> rp_org r = org
            \<and> list_ex (\<lambda>t. tk_id t = rp_task r \<and> tk_tenant t = rp_tenant r \<and> tk_org t = rp_org r
                 \<and> tk_goal t = g) (wf_tasks (og_wf s))) (og_reports s))"

subsection \<open>Conversations, handoffs and escalations\<close>

definition insert_thread :: "org_thread \<Rightarrow> org_state \<Rightarrow> org_state option" where
  "insert_thread t s =
     (if list_ex (\<lambda>q. th_id q = th_id t) (og_threads s) then None
      else Some (s\<lparr>og_threads := og_threads s @ [t]\<rparr>))"

definition get_thread :: "ident \<Rightarrow> org_state \<Rightarrow> ident \<Rightarrow> ident \<Rightarrow> org_thread option" where
  "get_thread tn s org i =
     select_one (\<lambda>r. th_tenant r = tn \<and> th_org r = org \<and> th_id r = i) (og_threads s)"

definition set_thread_status ::
  "ident \<Rightarrow> org_state \<Rightarrow> ident \<Rightarrow> ident \<Rightarrow> thread_status \<Rightarrow> millis \<Rightarrow> org_state" where
  "set_thread_status tn s org i st now =
     s\<lparr>og_threads := fst (update_where (\<lambda>r. th_tenant r = tn \<and> th_org r = org \<and> th_id r = i)
        (\<lambda>r. r\<lparr>th_status := st, th_updated_at := now\<rparr>) (og_threads s))\<rparr>"

definition insert_message :: "org_message \<Rightarrow> org_state \<Rightarrow> org_state option" where
  "insert_message m s =
     (if list_ex (\<lambda>q. mg_id q = mg_id m) (og_messages s) then None
      else Some (s\<lparr>og_messages := og_messages s @ [m]\<rparr>))"

definition insert_handoff :: "org_handoff \<Rightarrow> org_state \<Rightarrow> org_state option" where
  "insert_handoff h s =
     (if list_ex (\<lambda>q. ho_id q = ho_id h) (og_handoffs s) then None
      else Some (s\<lparr>og_handoffs := og_handoffs s @ [h]\<rparr>))"

definition handoff_at :: "ident \<Rightarrow> ident \<Rightarrow> ident \<Rightarrow> org_handoff \<Rightarrow> bool" where
  "handoff_at tn org i r \<longleftrightarrow> ho_tenant r = tn \<and> ho_org r = org \<and> ho_id r = i"

definition get_handoff :: "ident \<Rightarrow> org_state \<Rightarrow> ident \<Rightarrow> ident \<Rightarrow> org_handoff option" where
  "get_handoff tn s org i = select_one (handoff_at tn org i) (og_handoffs s)"

definition transition_handoff_if_proposed ::
  "ident \<Rightarrow> org_state \<Rightarrow> ident \<Rightarrow> ident \<Rightarrow> handoff_status \<Rightarrow> millis \<Rightarrow> org_state \<times> bool" where
  "transition_handoff_if_proposed tn s org i st now =
     (let (hs, n) = update_where (\<lambda>r. handoff_at tn org i r \<and> ho_status r = Hand_Proposed)
        (\<lambda>r. r\<lparr>ho_status := st, ho_responded_at := Some now\<rparr>) (og_handoffs s)
      in (s\<lparr>og_handoffs := hs\<rparr>, 0 < n))"

definition insert_escalation :: "org_escalation \<Rightarrow> org_state \<Rightarrow> org_state option" where
  "insert_escalation e s =
     (if list_ex (\<lambda>q. es_id q = es_id e) (og_escalations s) then None
      else Some (s\<lparr>og_escalations := og_escalations s @ [e]\<rparr>))"

definition escalation_at :: "ident \<Rightarrow> ident \<Rightarrow> ident \<Rightarrow> org_escalation \<Rightarrow> bool" where
  "escalation_at tn org i r \<longleftrightarrow> es_tenant r = tn \<and> es_org r = org \<and> es_id r = i"

definition get_escalation :: "ident \<Rightarrow> org_state \<Rightarrow> ident \<Rightarrow> ident \<Rightarrow> org_escalation option" where
  "get_escalation tn s org i = select_one (escalation_at tn org i) (og_escalations s)"

definition transition_escalation_if_pending ::
  "ident \<Rightarrow> org_state \<Rightarrow> ident \<Rightarrow> ident \<Rightarrow> escalation_status \<Rightarrow> string option \<Rightarrow> millis
     \<Rightarrow> org_state \<times> bool" where
  "transition_escalation_if_pending tn s org i st note now =
     (let (xs, n) = update_where (\<lambda>r. escalation_at tn org i r \<and> es_status r = Esc_Pending)
        (\<lambda>r. r\<lparr>es_status := st, es_resolution := note, es_decided_at := Some now\<rparr>) (og_escalations s)
      in (s\<lparr>og_escalations := xs\<rparr>, 0 < n))"

end
