(* ===== verification/Rooted_Tree.thy ===== *)
theory Rooted_Tree
  imports Main
begin

text \<open>
  Rooted trees as sets of pairs of an optional parent and a node: what the charts of organisations
  are. Every node has one parent, the root none, and no node is above itself.
\<close>

definition below :: "('a option \<times> 'a) set \<Rightarrow> ('a \<times> 'a) set" where
  "below P = {(m, w). (Some m, w) \<in> P}"

definition rooted_tree :: "'a set \<Rightarrow> ('a option \<times> 'a) set \<Rightarrow> bool" where
  "rooted_tree W P \<longleftrightarrow>
     finite W \<and> snd ` P = W
     \<and> (\<forall>a b w. (a, w) \<in> P \<longrightarrow> (b, w) \<in> P \<longrightarrow> a = b)
     \<and> (\<forall>m w. (Some m, w) \<in> P \<longrightarrow> m \<in> W)
     \<and> (\<exists>!w. (None, w) \<in> P)
     \<and> acyclic (below P)"

lemma below_insert [simp]:
  "below (insert (Some m, w) P) = insert (m, w) (below P)"
  "below (insert (None, w) P) = below P"
  by (auto simp: below_def)

lemma below_Un: "below (P \<union> Q) = below P \<union> below Q"
  by (auto simp: below_def)

lemma below_mono: "P \<subseteq> Q \<Longrightarrow> below P \<subseteq> below Q"
  by (auto simp: below_def)

lemma rooted_treeD:
  assumes "rooted_tree W P"
  shows "finite W" and "(a, w) \<in> P \<Longrightarrow> w \<in> W" and "(Some m, w) \<in> P \<Longrightarrow> m \<in> W"
    and "(a, w) \<in> P \<Longrightarrow> (b, w) \<in> P \<Longrightarrow> a = b" and "w \<in> W \<Longrightarrow> \<exists>a. (a, w) \<in> P"
    and "(None, v) \<in> P \<Longrightarrow> (None, w) \<in> P \<Longrightarrow> v = w" and "\<exists>r. (None, r) \<in> P"
    and "acyclic (below P)"
  using assms unfolding rooted_tree_def by (fastforce simp: image_iff)+

lemma rooted_treeI:
  assumes "finite W" and "\<And>a w. (a, w) \<in> P \<Longrightarrow> w \<in> W" and "\<And>w. w \<in> W \<Longrightarrow> \<exists>a. (a, w) \<in> P"
    and "\<And>a b w. (a, w) \<in> P \<Longrightarrow> (b, w) \<in> P \<Longrightarrow> a = b" and "\<And>m w. (Some m, w) \<in> P \<Longrightarrow> m \<in> W"
    and "(None, r) \<in> P" and "\<And>w. (None, w) \<in> P \<Longrightarrow> w = r" and "acyclic (below P)"
  shows "rooted_tree W P"
proof -
  have "snd ` P = W" using assms(2,3) by force
  moreover have "\<exists>!w. (None, w) \<in> P" using assms(6,7) by blast
  ultimately show ?thesis using assms(1,4,5,8) unfolding rooted_tree_def by blast
qed

lemma below_field: "rooted_tree W P \<Longrightarrow> below P \<subseteq> W \<times> W"
  using rooted_treeD(2,3) by (force simp: below_def)

lemma below_start:
  assumes "rooted_tree W P" and "(v, w) \<in> (below P)\<^sup>*"
  shows "v = w \<or> v \<in> W \<and> w \<in> W"
  using assms(2) below_field [OF assms(1)] by (induction rule: rtrancl_induct) auto

text \<open>Every node is below the root.\<close>

lemma tree_reaches:
  assumes t: "rooted_tree W P" and r: "(None, r) \<in> P" and w: "w \<in> W"
  shows "(r, w) \<in> (below P)\<^sup>*"
proof -
  have "finite (below P)" using below_field [OF t] rooted_treeD(1) [OF t]
    by (meson finite_SigmaI finite_subset)
  then have "wf (below P)" using rooted_treeD(8) [OF t] by (rule finite_acyclic_wf)
  then show ?thesis using w
  proof (induction w rule: wf_induct_rule)
    case (less w)
    obtain a where a: "(a, w) \<in> P" using rooted_treeD(5) [OF t less.prems] by blast
    show ?case
    proof (cases a)
      case None
      then have "w = r" using a r rooted_treeD(6) [OF t] by blast
      then show ?thesis by simp
    next
      case (Some m)
      then have m: "(m, w) \<in> below P" using a by (simp add: below_def)
      moreover have "m \<in> W" using a Some rooted_treeD(3) [OF t] by blast
      ultimately have "(r, m) \<in> (below P)\<^sup>*" using less.IH by blast
      with m show ?thesis by simp
    qed
  qed
qed

text \<open>A new leaf, a moved subtree, a grafted tree.\<close>

lemma tree_leaf:
  assumes t: "rooted_tree W P" and m: "m \<in> W" and w: "w \<notin> W"
  shows "rooted_tree (insert w W) (insert (Some m, w) P)"
proof -
  obtain r where r: "(None, r) \<in> P" using rooted_treeD(7) [OF t] by blast
  have "(w, m) \<notin> (below P)\<^sup>*" using below_start [OF t, of w m] m w by blast
  then have "acyclic (below (insert (Some m, w) P))"
    using rooted_treeD(8) [OF t] by (simp add: acyclic_insert)
  moreover have "\<exists>a. (a, v) \<in> insert (Some m, w) P" if "v \<in> insert w W" for v
    using that rooted_treeD(5) [OF t, of v] by blast
  ultimately show ?thesis
    by (intro rooted_treeI [of _ _ r])
      (use r m w rooted_treeD(1) [OF t] in \<open>auto dest: rooted_treeD(2,3,4,6) [OF t]\<close>)
qed

lemma tree_move:
  assumes t: "rooted_tree W P" and w: "w \<in> W" and m: "m \<in> W" and n: "(w, m) \<notin> (below P)\<^sup>*"
  shows "rooted_tree W (insert (Some m, w) {q \<in> P. snd q \<noteq> w})"
proof -
  let ?P = "{q \<in> P. snd q \<noteq> w}"
  obtain r where r: "(None, r) \<in> P" using rooted_treeD(7) [OF t] by blast
  then have wr: "w \<noteq> r" using tree_reaches [OF t r m] n by blast
  have sub: "below ?P \<subseteq> below P" by (rule below_mono) blast
  then have "(w, m) \<notin> (below ?P)\<^sup>*" using n rtrancl_mono by blast
  moreover have "acyclic (below ?P)" using sub rooted_treeD(8) [OF t] by (rule acyclic_subset [rotated])
  ultimately have "acyclic (below (insert (Some m, w) ?P))" by (simp add: acyclic_insert)
  moreover have "\<exists>a. (a, v) \<in> insert (Some m, w) ?P" if "v \<in> W" for v
  proof (cases "v = w")
    case False
    with rooted_treeD(5) [OF t that] show ?thesis by auto
  qed blast
  ultimately show ?thesis
    by (intro rooted_treeI [of _ _ r])
      (use r wr m w rooted_treeD(1) [OF t] in \<open>auto dest: rooted_treeD(2,3,4,6) [OF t]\<close>)
qed

lemma acyclic_disjoint_Un:
  assumes "acyclic r" and "acyclic s" and "Field r \<inter> Field s = {}"
  shows "acyclic (r \<union> s)"
proof -
  have c: "(x, y) \<in> r\<^sup>+ \<or> (x, y) \<in> s\<^sup>+" if "(x, y) \<in> (r \<union> s)\<^sup>+" for x y
    using that
  proof (induction rule: trancl_induct)
    case (step y z)
    then show ?case
    proof (elim disjE)
      assume y: "(x, y) \<in> r\<^sup>+"
      then have "y \<in> Field r" by (meson FieldI2 tranclD2)
      then have "(y, z) \<in> r" using step(2) assms(3) by (auto simp: Field_def)
      with y show ?thesis by (meson trancl.trancl_into_trancl)
    next
      assume y: "(x, y) \<in> s\<^sup>+"
      then have "y \<in> Field s" by (meson FieldI2 tranclD2)
      then have "(y, z) \<in> s" using step(2) assms(3) by (auto simp: Field_def)
      with y show ?thesis by (meson trancl.trancl_into_trancl)
    qed
  qed auto
  show ?thesis unfolding acyclic_def using c assms(1,2) by (auto simp: acyclic_def)
qed

lemma tree_graft:
  assumes t: "rooted_tree W P" and u: "rooted_tree V Q" and d: "W \<inter> V = {}"
    and m: "m \<in> W" and r: "(None, r) \<in> Q"
  shows "rooted_tree (W \<union> V) (P \<union> insert (Some m, r) {q \<in> Q. snd q \<noteq> r})"
proof -
  let ?Q = "{q \<in> Q. snd q \<noteq> r}"
  obtain k where k: "(None, k) \<in> P" using rooted_treeD(7) [OF t] by blast
  have rV: "r \<in> V" using rooted_treeD(2) [OF u r] .
  have root: "w = r" if "(None, w) \<in> Q" for w using that r rooted_treeD(6) [OF u] by blast
  have "Field (below P) \<subseteq> W" "Field (below Q) \<subseteq> V"
    using below_field [OF t] below_field [OF u] by (auto simp: Field_def)
  then have "acyclic (below P \<union> below Q)"
    using rooted_treeD(8) [OF t] rooted_treeD(8) [OF u] d by (intro acyclic_disjoint_Un) blast+
  moreover have "(r, m) \<notin> (below P \<union> below Q)\<^sup>*"
  proof
    assume "(r, m) \<in> (below P \<union> below Q)\<^sup>*"
    moreover have "w \<in> V" if "(r, w) \<in> (below P \<union> below Q)\<^sup>*" for w
      using that
    proof (induction rule: rtrancl_induct)
      case (step y z)
      then show ?case using below_field [OF t] below_field [OF u] d by blast
    qed (rule rV)
    ultimately show False using m d by blast
  qed
  ultimately have "acyclic (insert (m, r) (below P \<union> below Q))" by (simp add: acyclic_insert)
  moreover have "below (P \<union> insert (Some m, r) ?Q) \<subseteq> insert (m, r) (below P \<union> below Q)"
    by (auto simp: below_def)
  ultimately have ac: "acyclic (below (P \<union> insert (Some m, r) ?Q))" by (rule acyclic_subset)
  have ex: "\<exists>a. (a, v) \<in> P \<union> insert (Some m, r) ?Q" if "v \<in> W \<union> V" for v
  proof (cases "v = r")
    case False
    with that rooted_treeD(5) [OF t] rooted_treeD(5) [OF u] show ?thesis by auto
  qed blast
  have uniq: "a = b" if "(a, w) \<in> P \<union> insert (Some m, r) ?Q" "(b, w) \<in> P \<union> insert (Some m, r) ?Q" for a b w
    using that d rV rooted_treeD(2,4) [OF t] rooted_treeD(2,4) [OF u] by auto blast+
  show ?thesis
    by (rule rooted_treeI [of _ _ k, OF _ _ ex uniq _ _ _ ac])
      (use k m rV root rooted_treeD(1) [OF t] rooted_treeD(1) [OF u] in
        \<open>auto dest: rooted_treeD(2,3,6) [OF t] rooted_treeD(2,3) [OF u]\<close>)
qed

text \<open>Renaming the nodes of a tree.\<close>

lemma tree_image:
  assumes t: "rooted_tree W P" and f: "inj_on f W"
  shows "rooted_tree (f ` W) ((\<lambda>(a, w). (map_option f a, f w)) ` P)"
proof -
  let ?g = "\<lambda>(a, w). (map_option f a, f w)"
  obtain r where r: "(None, r) \<in> P" using rooted_treeD(7) [OF t] by blast
  have sub: "below (?g ` P) \<subseteq> map_prod f f ` below P"
  proof
    fix q assume "q \<in> below (?g ` P)"
    then obtain m w x y where q: "q = (m, w)" and p: "(x, y) \<in> P" "Some m = map_option f x" "w = f y"
      by (auto simp: below_def)
    then obtain z where z: "x = Some z" "m = f z" by (cases x) auto
    with p have "(z, y) \<in> below P" by (simp add: below_def)
    moreover have "q = map_prod f f (z, y)" using q p(3) z(2) by simp
    ultimately show "q \<in> map_prod f f ` below P" by blast
  qed
  have "acyclic (below (?g ` P))"
  proof -
    have step: "\<exists>x y. x \<in> W \<and> u = f x \<and> v = f y \<and> (x, y) \<in> (below P)\<^sup>+" if "(u, v) \<in> (below (?g ` P))\<^sup>+" for u v
      using that
    proof (induction rule: trancl_induct)
      case (base v)
      then obtain x y where "(x, y) \<in> below P" "u = f x" "v = f y" using sub by auto
      then show ?case using below_field [OF t] by blast
    next
      case (step v z)
      then obtain x y where xy: "x \<in> W" "u = f x" "v = f y" "(x, y) \<in> (below P)\<^sup>+" by blast
      obtain y' q where q: "(y', q) \<in> below P" "v = f y'" "z = f q" using step(2) sub by auto
      have "y \<in> W" using xy(4) below_field [OF t] by (meson mem_Sigma_iff subsetD tranclD2)
      moreover have "y' \<in> W" using q(1) below_field [OF t] by blast
      ultimately have "y = y'" using f xy(3) q(2) by (metis inj_onD)
      then have "(x, q) \<in> (below P)\<^sup>+" using xy(4) q(1) by (meson trancl.trancl_into_trancl)
      with xy q show ?case by blast
    qed
    show ?thesis
    proof (rule acyclicI, intro allI notI)
      fix u assume "(u, u) \<in> (below (?g ` P))\<^sup>+"
      then obtain x y where xy: "x \<in> W" "u = f x" "u = f y" "(x, y) \<in> (below P)\<^sup>+" using step by blast
      have "y \<in> W" using xy(4) below_field [OF t] by (meson mem_Sigma_iff subsetD tranclD2)
      then have "x = y" using f xy by (metis inj_onD)
      with xy(4) rooted_treeD(8) [OF t] show False by (auto simp: acyclic_def)
    qed
  qed
  moreover have "a = b" if ab: "(a, w) \<in> ?g ` P" "(b, w) \<in> ?g ` P" for a b w
  proof -
    obtain a1 w1 where 1: "(a1, w1) \<in> P" "a = map_option f a1" "w = f w1" using ab(1) by auto
    obtain b1 w2 where 2: "(b1, w2) \<in> P" "b = map_option f b1" "w = f w2" using ab(2) by auto
    have "w1 = w2" using f 1 2 rooted_treeD(2) [OF t] by (metis inj_onD)
    then show ?thesis using 1 2 rooted_treeD(4) [OF t] by metis
  qed
  moreover have "w = f r" if "(None, w) \<in> ?g ` P" for w
    using that r rooted_treeD(6) [OF t] by auto
  moreover have "m \<in> f ` W" if sm: "(Some m, w) \<in> ?g ` P" for m w
  proof -
    obtain x y where "(x, y) \<in> P" "Some m = map_option f x" using sm by auto
    then show ?thesis using rooted_treeD(3) [OF t] by (cases x) auto
  qed
  moreover have "\<exists>a. (a, w) \<in> ?g ` P" if w: "w \<in> f ` W" for w
  proof -
    obtain x where x: "x \<in> W" "w = f x" using w by blast
    then obtain a where "(a, x) \<in> P" using rooted_treeD(5) [OF t] by blast
    with x(2) show ?thesis by (intro exI [of _ "map_option f a"]) (force intro: rev_image_eqI)
  qed
  moreover have "w \<in> f ` W" if "(a, w) \<in> ?g ` P" for a w
    using that rooted_treeD(2) [OF t] by auto
  moreover have "(None, f r) \<in> ?g ` P" using r by (rule rev_image_eqI) simp
  ultimately show ?thesis
    using rooted_treeD(1) [OF t] by (intro rooted_treeI [of _ _ "f r"]) (blast intro: finite_imageI)+
qed

end
