(* ===== verification/Org_Chart.thy ===== *)
theory Org_Chart
  imports Org_Store Rooted_Tree
begin

text \<open>
  The chart of an organisation as it is built: \<^verbatim>\<open>src/workforce/org-chart-service.ts\<close> (bootstrap,
  hiring, who may delegate to whom). An operation reads the clock once here. The structures that
  \<open>validate_structure\<close> accepts are the rooted trees, and hiring and bootstrap keep every chart of a
  tenant a rooted tree.
\<close>

datatype chart_error =
    Chart_Empty
  | Chart_Duplicate_Role
  | Chart_Manager_Missing string
  | Chart_No_Root
  | Chart_Many_Roots
  | Chart_Cycle string
  | Chart_Constraint
  | Chart_No_Org ident
  | Chart_No_Manager ident
  | Chart_Role_Taken string
  | Chart_Self
  | Chart_Not_A_Report ident
  | Chart_No_Worker ident
  | Chart_Inactive ident
  | Chart_Root_Fixed
  | Chart_No_Edge ident
  | Chart_Reports_Left nat
  | Chart_Tasks_Left nat
  | Chart_Task_Moved ident
  | Chart_Absorbs_Itself

subsection \<open>The structure of a bootstrap\<close>

record worker_spec =
  ws_role :: string
  ws_title :: string
  ws_family :: string
  ws_seniority :: seniority
  ws_display :: string
  ws_persona :: ident
  ws_manager :: "string option"
  ws_edge :: "edge_type option"

text \<open>The first loop: each manager must be a role of the list; gives the number of roots.\<close>

fun count_roots :: "string list \<Rightarrow> worker_spec list \<Rightarrow> nat \<Rightarrow> chart_error + nat" where
  "count_roots roles [] n = Inr n"
| "count_roots roles (s # ss) n =
     (case ws_manager s of
        None \<Rightarrow> count_roots roles ss (Suc n)
      | Some m \<Rightarrow>
          if List.member roles m then count_roots roles ss n else Inl (Chart_Manager_Missing m))"

definition manager_of_role :: "worker_spec list \<Rightarrow> string \<Rightarrow> string option" where
  "manager_of_role specs r =
     (case map_of (map (\<lambda>s. (ws_role s, ws_manager s)) specs) r of None \<Rightarrow> None | Some m \<Rightarrow> m)"

text \<open>
  The inner loop: up the managers until there is none or a role comes back. It ends because every
  turn visits a new role of the list.
\<close>

function climb :: "worker_spec list \<Rightarrow> string list \<Rightarrow> string option \<Rightarrow> chart_error option" where
  "climb specs seen None = None"
| "climb specs seen (Some r) =
     (if List.member seen r then Some (Chart_Cycle r)
      else climb specs (r # seen) (manager_of_role specs r))"
  by pat_completeness auto

lemma manager_of_role_known: "manager_of_role specs r = Some m \<Longrightarrow> r \<in> ws_role ` set specs"
  by (auto simp: manager_of_role_def dest!: map_of_SomeD split: option.splits)

termination climb
proof (relation "measure (\<lambda>(specs, seen, cur). card (ws_role ` set specs - set seen)
      + (if cur = None then 0 else 1))")
  fix specs :: "worker_spec list" and seen and r :: string
  assume "\<not> List.member seen r"
  then have new: "r \<notin> set seen" by simp
  show "((specs, r # seen, manager_of_role specs r), specs, seen, Some r)
      \<in> measure (\<lambda>(specs, seen, cur). card (ws_role ` set specs - set seen) + (if cur = None then 0 else 1))"
  proof (cases "manager_of_role specs r")
    case None
    have "ws_role ` set specs - set (r # seen) \<subseteq> ws_role ` set specs - set seen" by auto
    then have "card (ws_role ` set specs - set (r # seen)) \<le> card (ws_role ` set specs - set seen)"
      by (intro card_mono) auto
    with None show ?thesis by simp
  next
    case (Some m)
    then have "ws_role ` set specs - set (r # seen) \<subset> ws_role ` set specs - set seen"
      using manager_of_role_known [OF Some] new by auto
    then have "card (ws_role ` set specs - set (r # seen)) < card (ws_role ` set specs - set seen)"
      by (intro psubset_card_mono) auto
    with Some show ?thesis by simp
  qed
qed simp

fun first_cycle :: "worker_spec list \<Rightarrow> worker_spec list \<Rightarrow> chart_error option" where
  "first_cycle specs [] = None"
| "first_cycle specs (s # ss) =
     (case climb specs [] (Some (ws_role s)) of
        Some e \<Rightarrow> Some e | None \<Rightarrow> first_cycle specs ss)"

definition validate_structure :: "worker_spec list \<Rightarrow> chart_error option" where
  "validate_structure specs =
     (let roles = map ws_role specs in
      if \<not> distinct roles then Some Chart_Duplicate_Role
      else case count_roots roles specs 0 of
        Inl e \<Rightarrow> Some e
      | Inr n \<Rightarrow>
          if n = 0 then Some Chart_No_Root
          else if n > 1 then Some Chart_Many_Roots
          else first_cycle specs specs)"

subsection \<open>Bootstrap and hiring\<close>

definition position_of_spec :: "ident \<Rightarrow> ident \<Rightarrow> worker_spec \<Rightarrow> ident \<Rightarrow> millis \<Rightarrow> org_position" where
  "position_of_spec tn org s i ts =
     \<lparr> op_id = i, op_tenant = tn, op_org = org, op_title = ws_title s, op_family = ws_family s,
       op_seniority = ws_seniority s, op_role = ws_role s, op_created_at = ts \<rparr>"

definition worker_of_spec ::
  "ident \<Rightarrow> ident \<Rightarrow> worker_spec \<Rightarrow> ident \<Rightarrow> ident \<Rightarrow> millis \<Rightarrow> digital_worker" where
  "worker_of_spec tn org s i p ts =
     \<lparr> dw_tenant = tn, dw_org = org, dw_id = i, dw_persona = ws_persona s, dw_position = p,
       dw_display_name = ws_display s, dw_status = Emp_Active, dw_created_at = ts, dw_updated_at = ts \<rparr>"

definition edge_row ::
  "ident \<Rightarrow> ident \<Rightarrow> ident \<Rightarrow> ident option \<Rightarrow> ident \<Rightarrow> edge_type option \<Rightarrow> millis \<Rightarrow> reporting_edge" where
  "edge_row tn org i m w k ts =
     \<lparr> re_id = i, re_tenant = tn, re_org = org, re_manager = m, re_report = w,
       re_type = or_default k Edge_Solid, re_created_at = ts \<rparr>"

text \<open>
  The loops of the bootstrap; a violated constraint stops them, what was written stays (the caller
  brings the transaction). The map of roles is updated like a JavaScript map.
\<close>

fun bootstrap_workers ::
  "(nat \<Rightarrow> ident) \<Rightarrow> ident \<Rightarrow> ident \<Rightarrow> millis \<Rightarrow> worker_spec list \<Rightarrow> (string \<times> ident) list \<Rightarrow> org_state
     \<Rightarrow> org_state \<times> (chart_error + (string \<times> ident) list)" where
  "bootstrap_workers gen tn org ts [] m s = (s, Inr m)"
| "bootstrap_workers gen tn org ts (x # xs) m s =
     (let p = gen (og_ids s); w = gen (Suc (og_ids s)); s1 = s\<lparr>og_ids := Suc (Suc (og_ids s))\<rparr> in
      case insert_position (position_of_spec tn org x p ts) s1 of
        None \<Rightarrow> (s1, Inl Chart_Constraint)
      | Some s2 \<Rightarrow>
          (case insert_worker (worker_of_spec tn org x w p ts) s2 of
             None \<Rightarrow> (s2, Inl Chart_Constraint)
           | Some s3 \<Rightarrow> bootstrap_workers gen tn org ts xs (AList.update (ws_role x) w m) s3))"

fun bootstrap_edges ::
  "(nat \<Rightarrow> ident) \<Rightarrow> ident \<Rightarrow> ident \<Rightarrow> millis \<Rightarrow> worker_spec list \<Rightarrow> (string \<times> ident) list \<Rightarrow> org_state
     \<Rightarrow> org_state \<times> chart_error option" where
  "bootstrap_edges gen tn org ts [] m s = (s, None)"
| "bootstrap_edges gen tn org ts (x # xs) m s =
     (let e = edge_row tn org (gen (og_ids s))
            (case ws_manager x of None \<Rightarrow> None | Some r \<Rightarrow> map_of m r)
            (the (map_of m (ws_role x))) (ws_edge x) ts;
          s1 = s\<lparr>og_ids := Suc (og_ids s)\<rparr>
      in case insert_edge e s1 of
           None \<Rightarrow> (s1, Some Chart_Constraint)
         | Some s2 \<Rightarrow> bootstrap_edges gen tn org ts xs m s2)"

definition bootstrap ::
  "(nat \<Rightarrow> ident) \<Rightarrow> ident \<Rightarrow> org_state \<Rightarrow> ident \<Rightarrow> worker_spec list \<Rightarrow> millis
     \<Rightarrow> org_state \<times> (chart_error + (string \<times> ident) list)" where
  "bootstrap gen tn s org specs ts =
     (if specs = [] then (s, Inl Chart_Empty)
      else case validate_structure specs of
        Some e \<Rightarrow> (s, Inl e)
      | None \<Rightarrow>
          (case bootstrap_workers gen tn org ts specs [] s of
             (s1, Inl e) \<Rightarrow> (s1, Inl e)
           | (s1, Inr m) \<Rightarrow>
               (case bootstrap_edges gen tn org ts specs m s1 of
                  (s2, Some e) \<Rightarrow> (s2, Inl e)
                | (s2, None) \<Rightarrow> (s2, Inr m))))"

fun last_by_role :: "(ident \<times> string) list \<Rightarrow> digital_worker list \<Rightarrow> (string \<times> ident) list \<Rightarrow> (string \<times> ident) list" where
  "last_by_role roles [] m = m"
| "last_by_role roles (w # ws) m =
     (case map_of roles (dw_position w) of
        None \<Rightarrow> last_by_role roles ws m
      | Some r \<Rightarrow> last_by_role roles ws (AList.update r (dw_id w) m))"

definition get_existing_chart :: "ident \<Rightarrow> org_state \<Rightarrow> ident \<Rightarrow> (string \<times> ident) list option" where
  "get_existing_chart tn s org =
     (let ws = list_workers tn (og_wf s) org in
      if ws = [] then None else Some (last_by_role (role_by_position tn s org) ws []))"

definition bootstrap_if_absent ::
  "(nat \<Rightarrow> ident) \<Rightarrow> ident \<Rightarrow> org_state \<Rightarrow> ident \<Rightarrow> worker_spec list \<Rightarrow> millis
     \<Rightarrow> org_state \<times> (chart_error + (string \<times> ident) list)" where
  "bootstrap_if_absent gen tn s org specs ts =
     (case get_existing_chart tn s org of
        Some m \<Rightarrow> (s, Inr m)
      | None \<Rightarrow> bootstrap gen tn s org specs ts)"

text \<open>Hiring: the manager of the new worker is given by its identifier.\<close>

definition hire_worker ::
  "(nat \<Rightarrow> ident) \<Rightarrow> ident \<Rightarrow> org_state \<Rightarrow> ident \<Rightarrow> worker_spec \<Rightarrow> ident \<Rightarrow> millis
     \<Rightarrow> org_state \<times> (chart_error + ident)" where
  "hire_worker gen tn s org x m ts =
     (if list_workers tn (og_wf s) org = [] then (s, Inl (Chart_No_Org org))
      else if get_worker tn (og_wf s) org m = None then (s, Inl (Chart_No_Manager m))
      else if list_ex (\<lambda>p. op_role p = ws_role x) (list_positions tn s org)
      then (s, Inl (Chart_Role_Taken (ws_role x)))
      else
        let p = gen (og_ids s); w = gen (Suc (og_ids s)); s1 = s\<lparr>og_ids := Suc (Suc (og_ids s))\<rparr> in
        case insert_position (position_of_spec tn org x p ts) s1 of
          None \<Rightarrow> (s1, Inl Chart_Constraint)
        | Some s2 \<Rightarrow>
            (case insert_worker (worker_of_spec tn org x w p ts) s2 of
               None \<Rightarrow> (s2, Inl Chart_Constraint)
             | Some s3 \<Rightarrow>
                 let s4 = s3\<lparr>og_ids := Suc (og_ids s3)\<rparr> in
                 case insert_edge (edge_row tn org (gen (og_ids s3)) (Some m) w (ws_edge x) ts) s4 of
                   None \<Rightarrow> (s4, Inl Chart_Constraint)
                 | Some s5 \<Rightarrow> (s5, Inr w)))"

definition assert_can_delegate ::
  "ident \<Rightarrow> workforce \<Rightarrow> ident \<Rightarrow> ident \<Rightarrow> ident \<Rightarrow> chart_error option" where
  "assert_can_delegate tn s org m w =
     (if m = w then Some Chart_Self
      else if \<not> List.member (list_direct_reports tn s org m) w then Some (Chart_Not_A_Report w)
      else None)"

subsection \<open>Which structures are accepted\<close>

lemma count_roots_Inr:
  "count_roots roles ss n = Inr k \<longleftrightarrow>
     (\<forall>s \<in> set ss. \<forall>m. ws_manager s = Some m \<longrightarrow> m \<in> set roles)
     \<and> k = n + length (filter (\<lambda>s. ws_manager s = None) ss)"
  by (induction ss arbitrary: n) (auto split: option.split)

lemma climb_path:
  assumes "climb specs seen (Some r) = None" and "(x, r) \<in> {(m, r). manager_of_role specs r = Some m}\<^sup>*"
  shows "x \<notin> set seen"
  using assms
proof (induction specs seen "Some r" arbitrary: r rule: climb.induct)
  case (2 specs seen r)
  let ?B = "{(m, r). manager_of_role specs r = Some m}"
  have r: "r \<notin> set seen" and rest: "climb specs (r # seen) (manager_of_role specs r) = None"
    using 2(2) by (auto split: if_splits)
  from 2(3) show ?case
  proof (cases rule: rtranclE)
    case base
    then show ?thesis using r by simp
  next
    case (step m)
    then have m: "manager_of_role specs r = Some m" by simp
    have "x \<notin> set (r # seen)"
      using 2(1) [OF _ m] r rest step(1) m by simp
    then show ?thesis by simp
  qed
qed

lemma climb_None_no_cycle:
  assumes "climb specs [] (Some r) = None"
  shows "(r, r) \<notin> {(m, r). manager_of_role specs r = Some m}\<^sup>+"
proof
  let ?B = "{(m, r). manager_of_role specs r = Some m}"
  assume "(r, r) \<in> ?B\<^sup>+"
  then obtain m where m: "(r, m) \<in> ?B\<^sup>*" "manager_of_role specs r = Some m"
    by (metis (mono_tags, lifting) case_prodD mem_Collect_eq tranclD2)
  then have "climb specs [r] (Some m) = None" using assms by simp
  from climb_path [OF this m(1)] show False by simp
qed

lemma climb_Some_cycle:
  assumes "climb specs seen cur = Some e"
    and "\<forall>c. cur = Some c \<longrightarrow> (\<forall>x \<in> set seen. (c, x) \<in> {(m, r). manager_of_role specs r = Some m}\<^sup>+)"
  shows "\<not> acyclic {(m, r). manager_of_role specs r = Some m}"
  using assms
proof (induction specs seen cur rule: climb.induct)
  case (2 specs seen r)
  let ?B = "{(m, r). manager_of_role specs r = Some m}"
  show ?case
  proof (cases "List.member seen r")
    case True
    then have "(r, r) \<in> ?B\<^sup>+" using 2(3) by simp
    then show ?thesis by (auto simp: acyclic_def)
  next
    case False
    have "(c, x) \<in> ?B\<^sup>+" if c: "manager_of_role specs r = Some c" and x: "x \<in> set (r # seen)" for c x
    proof -
      have cr: "(c, r) \<in> ?B" using c by simp
      show ?thesis
      proof (cases "x = r")
        case False
        then have "(r, x) \<in> ?B\<^sup>+" using x 2(3) by simp
        with cr show ?thesis by (rule trancl_into_trancl2)
      qed (use cr in blast)
    qed
    then show ?thesis using 2(1) [OF False] 2(2) False by auto
  qed
qed simp

lemma first_cycle_None_iff:
  "first_cycle specs ss = None \<longleftrightarrow> (\<forall>s \<in> set ss. climb specs [] (Some (ws_role s)) = None)"
  by (induction ss) (auto split: option.split)

lemma no_cycle_iff:
  "first_cycle specs specs = None \<longleftrightarrow> acyclic {(m, r). manager_of_role specs r = Some m}"
proof
  let ?B = "{(m, r). manager_of_role specs r = Some m}"
  assume f: "first_cycle specs specs = None"
  show "acyclic ?B"
    unfolding acyclic_def
  proof (intro allI notI)
    fix r assume c: "(r, r) \<in> ?B\<^sup>+"
    then obtain m where "manager_of_role specs r = Some m" by (metis (mono_tags, lifting) case_prodD mem_Collect_eq tranclD2)
    then obtain s where "s \<in> set specs" "r = ws_role s" using manager_of_role_known by fastforce
    with f c climb_None_no_cycle show False by (auto simp: first_cycle_None_iff)
  qed
next
  assume a: "acyclic {(m, r). manager_of_role specs r = Some m}"
  show "first_cycle specs specs = None"
    unfolding first_cycle_None_iff
  proof
    fix s assume "s \<in> set specs"
    show "climb specs [] (Some (ws_role s)) = None"
      using a climb_Some_cycle [of specs "[]" "Some (ws_role s)"]
      by (cases "climb specs [] (Some (ws_role s))") auto
  qed
qed

definition spec_pairs :: "worker_spec list \<Rightarrow> (string option \<times> string) set" where
  "spec_pairs specs = (\<lambda>s. (ws_manager s, ws_role s)) ` set specs"

lemma below_spec_pairs:
  assumes "distinct (map ws_role specs)"
  shows "below (spec_pairs specs) = {(m, r). manager_of_role specs r = Some m}"
proof -
  have "(\<exists>s \<in> set specs. ws_manager s = Some m \<and> ws_role s = r) \<longleftrightarrow> manager_of_role specs r = Some m" for m r
  proof
    assume "\<exists>s \<in> set specs. ws_manager s = Some m \<and> ws_role s = r"
    then have "(r, Some m) \<in> set (map (\<lambda>s. (ws_role s, ws_manager s)) specs)" by force
    then have "map_of (map (\<lambda>s. (ws_role s, ws_manager s)) specs) r = Some (Some m)"
      using assms by (intro map_of_is_SomeI) (simp_all add: o_def)
    then show "manager_of_role specs r = Some m" by (simp add: manager_of_role_def)
  next
    assume "manager_of_role specs r = Some m"
    then show "\<exists>s \<in> set specs. ws_manager s = Some m \<and> ws_role s = r"
      by (auto simp: manager_of_role_def dest!: map_of_SomeD split: option.splits) metis
  qed
  moreover have "(Some m, r) \<in> spec_pairs specs \<longleftrightarrow> (\<exists>s \<in> set specs. ws_manager s = Some m \<and> ws_role s = r)" for m r
    by (auto simp: spec_pairs_def image_iff) metis
  ultimately show ?thesis by (simp add: below_def)
qed

lemma one_root_iff:
  assumes "distinct (map ws_role specs)"
  shows "length (filter (\<lambda>s. ws_manager s = None) specs) = 1 \<longleftrightarrow> (\<exists>!r. (None, r) \<in> spec_pairs specs)"
proof -
  let ?N = "filter (\<lambda>s. ws_manager s = None) specs"
  have d: "distinct (map ws_role ?N)" using assms by (rule distinct_map_filter)
  have roots: "{r. (None, r) \<in> spec_pairs specs} = set (map ws_role ?N)"
    by (auto simp: spec_pairs_def image_iff) (metis (mono_tags, lifting))
  have "length ?N = card {r. (None, r) \<in> spec_pairs specs}"
    unfolding roots by (metis d distinct_card length_map)
  then show ?thesis by (simp add: card_1_singleton_iff Ex1_def set_eq_iff) (metis mem_Collect_eq singletonD singletonI)
qed

lemma validate_structure_iff:
  "validate_structure specs = None \<longleftrightarrow>
     distinct (map ws_role specs) \<and> rooted_tree (ws_role ` set specs) (spec_pairs specs)"
proof (cases "distinct (map ws_role specs)")
  case True
  let ?n = "length (filter (\<lambda>s. ws_manager s = None) specs)"
  let ?known = "\<forall>s \<in> set specs. \<forall>m. ws_manager s = Some m \<longrightarrow> m \<in> ws_role ` set specs"
  have c: "count_roots (map ws_role specs) specs 0 = Inr k \<longleftrightarrow> ?known \<and> k = ?n" for k
    by (simp add: count_roots_Inr)
  have "validate_structure specs = None \<longleftrightarrow> ?known \<and> ?n = 1 \<and> first_cycle specs specs = None"
  proof (cases "count_roots (map ws_role specs) specs 0")
    case (Inl e)
    then have "\<not> ?known" using c [of ?n] by auto
    with True Inl show ?thesis by (simp add: validate_structure_def)
  next
    case (Inr k)
    then have "?known \<and> k = ?n" using c [of k] by blast
    moreover have "?n \<noteq> 0 \<and> \<not> 1 < ?n \<longleftrightarrow> ?n = 1" by linarith
    ultimately show ?thesis using True Inr unfolding validate_structure_def Let_def by auto
  qed
  also have "\<dots> \<longleftrightarrow> ?known \<and> (\<exists>!r. (None, r) \<in> spec_pairs specs) \<and> acyclic (below (spec_pairs specs))"
    by (simp only: one_root_iff [OF True] no_cycle_iff below_spec_pairs [OF True])
  also have "\<dots> \<longleftrightarrow> rooted_tree (ws_role ` set specs) (spec_pairs specs)"
  proof -
    have "snd ` spec_pairs specs = ws_role ` set specs" by (force simp: spec_pairs_def)
    moreover have "a = b" if "(a, w) \<in> spec_pairs specs" "(b, w) \<in> spec_pairs specs" for a b w
      using that True by (auto simp: spec_pairs_def distinct_map dest: inj_onD)
    moreover have "?known \<longleftrightarrow> (\<forall>m w. (Some m, w) \<in> spec_pairs specs \<longrightarrow> m \<in> ws_role ` set specs)"
      by (force simp: spec_pairs_def)
    ultimately show ?thesis unfolding rooted_tree_def by (simp only: finite_imageI finite_set) blast
  qed
  finally show ?thesis using True by simp
qed (simp add: validate_structure_def)

subsection \<open>Charts in the tables\<close>

definition staff :: "ident \<Rightarrow> ident \<Rightarrow> workforce \<Rightarrow> ident set" where
  "staff tn org s = {dw_id w | w. w \<in> set (wf_workers s) \<and> dw_tenant w = tn \<and> dw_org w = org}"

definition chart :: "ident \<Rightarrow> ident \<Rightarrow> workforce \<Rightarrow> (ident option \<times> ident) set" where
  "chart tn org s =
     {(re_manager e, re_report e) | e. e \<in> set (wf_edges s) \<and> re_tenant e = tn \<and> re_org e = org}"

definition tables_keyed :: "workforce \<Rightarrow> bool" where
  "tables_keyed s \<longleftrightarrow> distinct (map dw_id (wf_workers s)) \<and> edges_unique (wf_edges s)"

text \<open>An organisation that does not exist has neither workers nor edges.\<close>

definition org_ok :: "ident \<Rightarrow> workforce \<Rightarrow> ident \<Rightarrow> bool" where
  "org_ok tn s org \<longleftrightarrow>
     staff tn org s = {} \<and> chart tn org s = {} \<or> rooted_tree (staff tn org s) (chart tn org s)"

lemma list_workers_mem:
  "w \<in> set (list_workers tn s org) \<longleftrightarrow> w \<in> set (wf_workers s) \<and> dw_tenant w = tn \<and> dw_org w = org"
  by (auto simp: list_workers_def)

lemma staff_list_workers: "staff tn org s = dw_id ` set (list_workers tn s org)"
  by (auto simp: staff_def list_workers_def)

lemma staff_mem:
  "x \<in> staff tn org s \<longleftrightarrow> (\<exists>w \<in> set (wf_workers s). dw_id w = x \<and> dw_tenant w = tn \<and> dw_org w = org)"
  by (auto simp: staff_def)

lemma no_workers_iff: "list_workers tn s org = [] \<longleftrightarrow> staff tn org s = {}"
  by (simp add: staff_list_workers)

lemma finite_staff [simp]: "finite (staff tn org s)"
  by (simp add: staff_list_workers)

lemma card_staff:
  assumes "tables_keyed s"
  shows "card (staff tn org s) = length (list_workers tn s org)"
proof -
  have "inj_on dw_id (set (list_workers tn s org))" "distinct (list_workers tn s org)"
    using assms by (auto simp: tables_keyed_def distinct_map list_workers_def intro: inj_on_subset)
  then show ?thesis by (simp add: staff_list_workers card_image distinct_card)
qed

lemma get_worker_staff: "get_worker tn s org w \<noteq> None \<longleftrightarrow> w \<in> staff tn org s"
  by (auto simp: get_worker_def select_one_None_iff staff_def)

lemma direct_reports_below: "w \<in> set (list_direct_reports tn s org m) \<longleftrightarrow> (m, w) \<in> below (chart tn org s)"
  by (auto simp: list_direct_reports_def below_def chart_def) metis

text \<open>All edges are solid in the charts the routes build; the kind of an edge never changes.\<close>

definition all_solid :: "ident \<Rightarrow> workforce \<Rightarrow> bool" where
  "all_solid tn s \<longleftrightarrow> (\<forall>e \<in> set (wf_edges s). re_tenant e = tn \<longrightarrow> re_type e = Edge_Solid)"

definition world_ok :: "ident \<Rightarrow> workforce \<Rightarrow> bool" where
  "world_ok tn s \<longleftrightarrow> tables_keyed s \<and> all_solid tn s \<and> (\<forall>org. org_ok tn s org)"

lemma same_tables_world:
  assumes "wf_edges s' = wf_edges s" and "map dw_id (wf_workers s') = map dw_id (wf_workers s)"
    and "\<And>org. staff tn org s' = staff tn org s" and "world_ok tn s"
  shows "world_ok tn s'"
  using assms by (simp add: world_ok_def tables_keyed_def all_solid_def org_ok_def chart_def)

lemma staff_update_workers:
  assumes "\<And>r. dw_tenant (f r) = dw_tenant r" "\<And>r. dw_org (f r) = dw_org r" "\<And>r. dw_id (f r) = dw_id r"
  shows "staff tn org (s\<lparr>wf_workers := fst (update_where p f (wf_workers s))\<rparr>) = staff tn org s"
    and "map dw_id (fst (update_where p f (wf_workers s))) = map dw_id (wf_workers s)"
proof -
  have "x \<in> staff tn org (s\<lparr>wf_workers := fst (update_where p f (wf_workers s))\<rparr>) \<longleftrightarrow> x \<in> staff tn org s"
    for x
    unfolding staff_mem by (auto simp: assms)
  then show "staff tn org (s\<lparr>wf_workers := fst (update_where p f (wf_workers s))\<rparr>) = staff tn org s"
    by blast
  show "map dw_id (fst (update_where p f (wf_workers s))) = map dw_id (wf_workers s)"
    using assms(3) by (simp add: update_where_fst cong: map_cong)
qed

lemma staff_update_eq:
  assumes "wf_workers s' = fst (update_where p f (wf_workers s))"
    and "\<And>r. dw_tenant (f r) = dw_tenant r" "\<And>r. dw_org (f r) = dw_org r" "\<And>r. dw_id (f r) = dw_id r"
  shows "staff tn org s' = staff tn org s"
    and "map dw_id (wf_workers s') = map dw_id (wf_workers s)"
proof -
  have "staff tn org s' = staff tn org (s\<lparr>wf_workers := fst (update_where p f (wf_workers s))\<rparr>)"
    by (simp add: staff_def assms(1))
  also have "\<dots> = staff tn org s" by (rule staff_update_workers [OF assms(2-4)])
  finally show "staff tn org s' = staff tn org s" .
  show "map dw_id (wf_workers s') = map dw_id (wf_workers s)"
    unfolding assms(1) by (rule staff_update_workers(2) [OF assms(2-4)])
qed

lemma chart_mem:
  "q \<in> chart tn org s \<longleftrightarrow> (\<exists>e \<in> set (wf_edges s). re_tenant e = tn \<and> re_org e = org
     \<and> q = (re_manager e, re_report e))"
  by (auto simp: chart_def)

lemma staff_cong: "wf_workers s' = wf_workers s \<Longrightarrow> staff tn org s' = staff tn org s"
  by (simp add: staff_def)



subsection \<open>Hiring and bootstrap keep the charts\<close>

lemma insert_worker_Some:
  "insert_worker w s = Some s' \<longleftrightarrow>
     (\<forall>q \<in> set (wf_workers (og_wf s)). dw_id q \<noteq> dw_id w)
     \<and> s' = on_og_wf (\<lambda>f. f\<lparr>wf_workers := wf_workers f @ [w]\<rparr>) s"
  by (auto simp: insert_worker_def list_ex_iff)

lemma insert_edge_Some:
  "insert_edge e s = Some s' \<longleftrightarrow>
     (\<forall>q \<in> set (wf_edges (og_wf s)). re_id q \<noteq> re_id e
        \<and> (re_tenant q, re_org q, re_report q) \<noteq> (re_tenant e, re_org e, re_report e))
     \<and> s' = on_og_wf (\<lambda>f. f\<lparr>wf_edges := wf_edges f @ [e]\<rparr>) s"
  by (auto simp: insert_edge_def list_ex_iff)

lemma insert_position_wf: "insert_position p s = Some s' \<Longrightarrow> og_wf s' = og_wf s \<and> og_ids s' = og_ids s"
  by (auto simp: insert_position_def split: if_splits)

lemma staff_append:
  "wf_workers s' = wf_workers s @ ws \<Longrightarrow>
   staff tn org s' = staff tn org s \<union> {dw_id w | w. w \<in> set ws \<and> dw_tenant w = tn \<and> dw_org w = org}"
  by (auto simp: staff_def)

lemma chart_append:
  "wf_edges s' = wf_edges s @ es \<Longrightarrow>
   chart tn org s' = chart tn org s
     \<union> {(re_manager e, re_report e) | e. e \<in> set es \<and> re_tenant e = tn \<and> re_org e = org}"
  by (auto simp: chart_def)

lemma new_leaf_world:
  fixes s s' :: workforce
  assumes ok: "world_ok tn s" and W: "wf_workers s' = wf_workers s @ [w]" and E: "wf_edges s' = wf_edges s @ [e]"
    and nw: "\<forall>q \<in> set (wf_workers s). dw_id q \<noteq> dw_id w"
    and ne: "\<forall>q \<in> set (wf_edges s). (re_tenant q, re_org q, re_report q) \<noteq> (re_tenant e, re_org e, re_report e)"
    and at: "dw_tenant w = tn" "dw_org w = org" "re_tenant e = tn" "re_org e = org"
    and e: "re_manager e = Some m" "re_report e = dw_id w" "re_type e = Edge_Solid"
    and m: "m \<in> staff tn org s"
  shows "world_ok tn s'"
proof -
  have k: "tables_keyed s'"
    using ok nw ne by (auto simp: world_ok_def tables_keyed_def edges_unique_def W E)
  have sol: "all_solid tn s'" using ok e(3) by (auto simp: world_ok_def all_solid_def E)
  have "org_ok tn s' org'" for org'
  proof (cases "org' = org")
    case False
    then show ?thesis using ok at
      by (auto simp: org_ok_def world_ok_def staff_append [OF W] chart_append [OF E])
  next
    case True
    have "org_ok tn s org" using ok by (simp add: world_ok_def)
    then have t: "rooted_tree (staff tn org s) (chart tn org s)" using m by (auto simp: org_ok_def)
    have "dw_id w \<notin> staff tn org s" using nw by (auto simp: staff_mem)
    from tree_leaf [OF t m this] have "rooted_tree (staff tn org s') (chart tn org s')"
      using at e by (simp add: staff_append [OF W] chart_append [OF E] conj_commute)
    then show ?thesis using True by (simp add: org_ok_def)
  qed
  with k sol show ?thesis by (simp add: world_ok_def)
qed

lemma hire_worker_Inr:
  assumes "hire_worker gen tn s org x m ts = (s', Inr w)"
  obtains p i where "get_worker tn (og_wf s) org m \<noteq> None"
    "\<forall>q \<in> set (wf_workers (og_wf s)). dw_id q \<noteq> w"
    "\<forall>q \<in> set (wf_edges (og_wf s)). (re_tenant q, re_org q, re_report q) \<noteq> (tn, org, w)"
    "wf_workers (og_wf s') = wf_workers (og_wf s) @ [worker_of_spec tn org x w p ts]"
    "wf_edges (og_wf s') = wf_edges (og_wf s) @ [edge_row tn org i (Some m) w (ws_edge x) ts]"
  using assms
  by (auto simp: hire_worker_def Let_def insert_worker_Some insert_edge_Some worker_of_spec_def
      edge_row_def dest!: insert_position_wf split: if_splits option.splits)

lemma hire_world:
  assumes ok: "world_ok tn (og_wf s)" and x: "ws_edge x = None"
    and h: "hire_worker gen tn s org x m ts = (s', Inr w)"
  shows "world_ok tn (og_wf s')"
  using h
proof (rule hire_worker_Inr)
  fix p i
  assume m: "get_worker tn (og_wf s) org m \<noteq> None"
    and n: "\<forall>q \<in> set (wf_workers (og_wf s)). dw_id q \<noteq> w"
      "\<forall>q \<in> set (wf_edges (og_wf s)). (re_tenant q, re_org q, re_report q) \<noteq> (tn, org, w)"
    and W: "wf_workers (og_wf s') = wf_workers (og_wf s) @ [worker_of_spec tn org x w p ts]"
    and E: "wf_edges (og_wf s') = wf_edges (og_wf s) @ [edge_row tn org i (Some m) w (ws_edge x) ts]"
  from m have "m \<in> staff tn org (og_wf s)" by (rule get_worker_staff [THEN iffD1])
  then show ?thesis
    by (rule new_leaf_world [OF ok W E, rotated -1])
      (use n x in \<open>simp_all add: worker_of_spec_def edge_row_def\<close>)
qed

text \<open>What the two loops of the bootstrap write.\<close>

lemma bootstrap_workers_Inr:
  assumes "bootstrap_workers gen tn org ts xs m s = (s', Inr m')" and "distinct (map ws_role xs)"
    and "distinct (map dw_id (wf_workers (og_wf s)))"
  shows "\<exists>ws. wf_workers (og_wf s') = wf_workers (og_wf s) @ ws \<and> wf_edges (og_wf s') = wf_edges (og_wf s)
     \<and> distinct (map dw_id (wf_workers (og_wf s')))
     \<and> list_all2 (\<lambda>x w. dw_tenant w = tn \<and> dw_org w = org \<and> map_of m' (ws_role x) = Some (dw_id w)) xs ws
     \<and> (\<forall>r. r \<notin> ws_role ` set xs \<longrightarrow> map_of m' r = map_of m r)"
  using assms
proof (induction xs arbitrary: m s)
  case (Cons x xs)
  let ?p = "gen (og_ids s)" and ?w = "gen (Suc (og_ids s))"
  let ?row = "worker_of_spec tn org x ?w ?p ts"
  obtain s2 where s2: "insert_position (position_of_spec tn org x ?p ts) (s\<lparr>og_ids := Suc (Suc (og_ids s))\<rparr>) = Some s2"
    using Cons.prems(1) by (auto simp: Let_def split: option.splits)
  then obtain s3 where s3: "insert_worker ?row s2 = Some s3"
    and rest: "bootstrap_workers gen tn org ts xs (AList.update (ws_role x) ?w m) s3 = (s', Inr m')"
    using Cons.prems(1) by (auto simp: Let_def split: option.splits)
  have w2: "og_wf s2 = og_wf s" using insert_position_wf [OF s2] by simp
  have w3: "wf_workers (og_wf s3) = wf_workers (og_wf s) @ [?row]" "wf_edges (og_wf s3) = wf_edges (og_wf s)"
    "\<forall>q \<in> set (wf_workers (og_wf s)). dw_id q \<noteq> dw_id ?row"
    using s3 by (auto simp: insert_worker_Some w2)
  have "distinct (map dw_id (wf_workers (og_wf s3)))" using Cons.prems(3) w3 by auto
  from Cons.IH [OF rest _ this] Cons.prems(2) obtain ws where ws:
    "wf_workers (og_wf s') = wf_workers (og_wf s3) @ ws" "wf_edges (og_wf s') = wf_edges (og_wf s3)"
    "distinct (map dw_id (wf_workers (og_wf s')))"
    "list_all2 (\<lambda>x w. dw_tenant w = tn \<and> dw_org w = org \<and> map_of m' (ws_role x) = Some (dw_id w)) xs ws"
    "\<forall>r. r \<notin> ws_role ` set xs \<longrightarrow> map_of m' r = map_of (AList.update (ws_role x) ?w m) r"
    by auto
  have "map_of m' (ws_role x) = Some ?w" using ws(5) Cons.prems(2) by (simp add: update_conv')
  then have "list_all2 (\<lambda>x w. dw_tenant w = tn \<and> dw_org w = org \<and> map_of m' (ws_role x) = Some (dw_id w))
      (x # xs) (?row # ws)"
    using ws(4) by (simp add: worker_of_spec_def)
  moreover have "\<forall>r. r \<notin> ws_role ` set (x # xs) \<longrightarrow> map_of m' r = map_of m r"
    using ws(5) by (simp add: update_conv')
  moreover have "wf_workers (og_wf s') = wf_workers (og_wf s) @ (?row # ws)" using ws(1) w3(1) by simp
  moreover have "wf_edges (og_wf s') = wf_edges (og_wf s)" using ws(2) w3(2) by simp
  ultimately show ?case using ws(3) by blast
qed simp

lemma bootstrap_edges_None:
  assumes "bootstrap_edges gen tn org ts xs m s = (s', None)" and "edges_unique (wf_edges (og_wf s))"
  shows "\<exists>es. wf_edges (og_wf s') = wf_edges (og_wf s) @ es \<and> wf_workers (og_wf s') = wf_workers (og_wf s)
     \<and> edges_unique (wf_edges (og_wf s'))
     \<and> list_all2 (\<lambda>x e. re_tenant e = tn \<and> re_org e = org \<and> re_type e = or_default (ws_edge x) Edge_Solid
          \<and> re_report e = the (map_of m (ws_role x))
          \<and> re_manager e = (case ws_manager x of None \<Rightarrow> None | Some r \<Rightarrow> map_of m r)) xs es"
  using assms
proof (induction xs arbitrary: s)
  case (Cons x xs)
  let ?e = "edge_row tn org (gen (og_ids s)) (case ws_manager x of None \<Rightarrow> None | Some r \<Rightarrow> map_of m r)
      (the (map_of m (ws_role x))) (ws_edge x) ts"
  obtain s2 where s2: "insert_edge ?e (s\<lparr>og_ids := Suc (og_ids s)\<rparr>) = Some s2"
    and rest: "bootstrap_edges gen tn org ts xs m s2 = (s', None)"
    using Cons.prems(1) by (auto simp: Let_def split: option.splits)
  have w2: "wf_workers (og_wf s2) = wf_workers (og_wf s)" "wf_edges (og_wf s2) = wf_edges (og_wf s) @ [?e]"
    "\<forall>q \<in> set (wf_edges (og_wf s)). (re_tenant q, re_org q, re_report q) \<noteq> (re_tenant ?e, re_org ?e, re_report ?e)"
    using s2 by (auto simp: insert_edge_Some)
  have "edges_unique (wf_edges (og_wf s2))"
    using Cons.prems(2) w2(3) unfolding edges_unique_def w2(2) by (auto simp del: prod.inject)
  from Cons.IH [OF rest this] obtain es where es:
    "wf_edges (og_wf s') = wf_edges (og_wf s2) @ es" "wf_workers (og_wf s') = wf_workers (og_wf s2)"
    "edges_unique (wf_edges (og_wf s'))"
    "list_all2 (\<lambda>x e. re_tenant e = tn \<and> re_org e = org \<and> re_type e = or_default (ws_edge x) Edge_Solid
          \<and> re_report e = the (map_of m (ws_role x))
          \<and> re_manager e = (case ws_manager x of None \<Rightarrow> None | Some r \<Rightarrow> map_of m r)) xs es"
    by blast
  show ?case
    by (rule exI [of _ "?e # es"]) (use es w2 in \<open>simp add: edge_row_def\<close>)
qed simp

lemma all2_set_eq:
  assumes "list_all2 (\<lambda>x y. R x y) xs ys" and "\<And>x y. x \<in> set xs \<Longrightarrow> R x y \<Longrightarrow> g y = f x"
  shows "g ` set ys = f ` set xs"
proof -
  have "list_all2 (\<lambda>x y. g y = f x) xs ys"
    using assms(2) by (rule list.rel_mono_strong [OF assms(1)])
  then have "map g ys = map f xs" by (induction rule: list_all2_induct) simp_all
  then show ?thesis by (metis list.set_map)
qed

lemma bootstrap_Inr:
  assumes "bootstrap gen tn s org specs ts = (s', Inr m')"
  obtains s1 where "validate_structure specs = None"
    "bootstrap_workers gen tn org ts specs [] s = (s1, Inr m')" "bootstrap_edges gen tn org ts specs m' s1 = (s', None)"
  using assms
  by (auto simp: bootstrap_def split: if_splits option.splits prod.splits sum.splits)

lemma bootstrap_world:
  assumes ok: "world_ok tn (og_wf s)" and none: "staff tn org (og_wf s) = {}"
    and solid: "\<forall>x \<in> set specs. ws_edge x = None"
    and b: "bootstrap gen tn s org specs ts = (s', Inr m')"
  shows "world_ok tn (og_wf s')"
  using b
proof (rule bootstrap_Inr)
  fix s1
  assume v: "validate_structure specs = None"
    and bw: "bootstrap_workers gen tn org ts specs [] s = (s1, Inr m')"
    and be: "bootstrap_edges gen tn org ts specs m' s1 = (s', None)"
  let ?f = "\<lambda>r. the (map_of m' r)"
  have d: "distinct (map ws_role specs)" and t: "rooted_tree (ws_role ` set specs) (spec_pairs specs)"
    using v by (simp_all add: validate_structure_iff)
  have keyed: "distinct (map dw_id (wf_workers (og_wf s)))" "edges_unique (wf_edges (og_wf s))"
    using ok by (simp_all add: world_ok_def tables_keyed_def)
  from bootstrap_workers_Inr [OF bw d keyed(1)] obtain ws where
    W1: "wf_workers (og_wf s1) = wf_workers (og_wf s) @ ws" and E1: "wf_edges (og_wf s1) = wf_edges (og_wf s)"
    and dw: "distinct (map dw_id (wf_workers (og_wf s1)))"
    and aw: "list_all2 (\<lambda>x w. dw_tenant w = tn \<and> dw_org w = org \<and> map_of m' (ws_role x) = Some (dw_id w)) specs ws"
    by blast
  from bootstrap_edges_None [OF be] keyed(2) E1 obtain es where
    E: "wf_edges (og_wf s') = wf_edges (og_wf s) @ es" and W2: "wf_workers (og_wf s') = wf_workers (og_wf s1)"
    and du: "edges_unique (wf_edges (og_wf s'))"
    and ae: "list_all2 (\<lambda>x e. re_tenant e = tn \<and> re_org e = org \<and> re_type e = or_default (ws_edge x) Edge_Solid
          \<and> re_report e = the (map_of m' (ws_role x))
          \<and> re_manager e = (case ws_manager x of None \<Rightarrow> None | Some r \<Rightarrow> map_of m' r)) specs es"
    by (metis (no_types, lifting))
  have W: "wf_workers (og_wf s') = wf_workers (og_wf s) @ ws" using W1 W2 by simp
  have known: "map_of m' r \<noteq> None" if "r \<in> ws_role ` set specs" for r
    using that list_all2_set1D [OF aw] by auto
  have man: "(case ws_manager x of None \<Rightarrow> None | Some r \<Rightarrow> map_of m' r) = map_option ?f (ws_manager x)"
    if "x \<in> set specs" for x
  proof (cases "ws_manager x")
    case (Some r)
    then have "(Some r, ws_role x) \<in> spec_pairs specs" using that by (force simp: spec_pairs_def)
    then have "r \<in> ws_role ` set specs" by (rule rooted_treeD(3) [OF t])
    with known [of r] Some show ?thesis by auto
  qed simp
  have rows: "\<forall>w \<in> set ws. dw_tenant w = tn \<and> dw_org w = org" "\<forall>e \<in> set es. re_tenant e = tn \<and> re_org e = org"
    using list_all2_set2D [OF aw] list_all2_set2D [OF ae] by blast+
  have sol: "\<forall>e \<in> set es. re_type e = Edge_Solid"
    using list_all2_set2D [OF ae] solid by fastforce
  have ids: "dw_id ` set ws = ?f ` ws_role ` set specs"
    unfolding image_image by (rule all2_set_eq [OF aw]) simp
  have pairs: "(\<lambda>e. (re_manager e, re_report e)) ` set es = (\<lambda>(a, w). (map_option ?f a, ?f w)) ` spec_pairs specs"
    unfolding spec_pairs_def image_image by (rule all2_set_eq [OF ae]) (simp add: man)
  have "map dw_id ws = map (\<lambda>x. ?f (ws_role x)) specs"
    using aw by (induction specs ws rule: list_all2_induct) auto
  moreover have "distinct (map dw_id ws)" using dw W1 by simp
  ultimately have "distinct (map ?f (map ws_role specs))" by (simp add: o_def)
  then have "inj_on ?f (ws_role ` set specs)" by (metis distinct_map list.set_map)
  from tree_image [OF t this] have tree: "rooted_tree (dw_id ` set ws) ((\<lambda>e. (re_manager e, re_report e)) ` set es)"
    by (simp only: ids pairs)
  have nochart: "chart tn org (og_wf s) = {}"
  proof -
    have "org_ok tn (og_wf s) org" using ok by (simp add: world_ok_def)
    then show ?thesis using none rooted_treeD(2,7) [of "{}"] by (fastforce simp: org_ok_def)
  qed
  have "org_ok tn (og_wf s') org'" for org'
  proof (cases "org' = org")
    case True
    have "staff tn org (og_wf s') = dw_id ` set ws"
      using rows none by (auto simp: staff_append [OF W])
    moreover have "chart tn org (og_wf s') = (\<lambda>e. (re_manager e, re_report e)) ` set es"
      using rows nochart by (auto simp: chart_append [OF E])
    ultimately show ?thesis using tree True by (simp add: org_ok_def)
  next
    case False
    then have "staff tn org' (og_wf s') = staff tn org' (og_wf s)" "chart tn org' (og_wf s') = chart tn org' (og_wf s)"
      using rows by (auto simp: staff_append [OF W] chart_append [OF E])
    then show ?thesis using ok by (simp add: org_ok_def world_ok_def)
  qed
  moreover have "all_solid tn (og_wf s')" using ok sol by (auto simp: world_ok_def all_solid_def E)
  moreover have "tables_keyed (og_wf s')" using dw du W2 by (simp add: tables_keyed_def)
  ultimately show ?thesis by (simp add: world_ok_def)
qed

lemma bootstrap_if_absent_world:
  assumes ok: "world_ok tn (og_wf s)" and solid: "\<forall>x \<in> set specs. ws_edge x = None"
    and b: "bootstrap_if_absent gen tn s org specs ts = (s', Inr m')"
  shows "world_ok tn (og_wf s')"
proof (cases "list_workers tn (og_wf s) org = []")
  case True
  then have "bootstrap gen tn s org specs ts = (s', Inr m')"
    using b by (simp add: bootstrap_if_absent_def get_existing_chart_def)
  with True show ?thesis using bootstrap_world [OF ok _ solid] by (simp add: no_workers_iff)
next
  case False
  with b ok show ?thesis by (simp add: bootstrap_if_absent_def get_existing_chart_def)
qed

end
