(* ===== verification/Org_Restructure.thy ===== *)
theory Org_Restructure
  imports Org_Chart
begin

text \<open>
  A chart after its bootstrap: \<^verbatim>\<open>src/workforce/org-restructure-service.ts\<close> (a new manager, offboarding,
  absorbing another organisation). An operation reads the clock once here. An operation that runs in
  a transaction gives the error alone: its writes are undone.
\<close>

subsection \<open>A new manager\<close>

text \<open>
  The search below a worker, breadth first. The bound of the source on the number of turns is the
  fuel; it never runs out first (\<open>subtree_search\<close>).
\<close>

fun visit_children ::
  "ident \<Rightarrow> ident list \<Rightarrow> ident list \<Rightarrow> ident list \<Rightarrow> bool \<times> ident list \<times> ident list" where
  "visit_children goal [] queue seen = (False, queue, seen)"
| "visit_children goal (c # cs) queue seen =
     (if c = goal then (True, queue, seen)
      else if List.member seen c then visit_children goal cs queue seen
      else visit_children goal cs (queue @ [c]) (seen @ [c]))"

fun search_below ::
  "nat \<Rightarrow> (ident \<Rightarrow> ident list) \<Rightarrow> ident \<Rightarrow> ident list \<Rightarrow> ident list \<Rightarrow> bool" where
  "search_below 0 children goal queue seen = False"
| "search_below (Suc n) children goal [] seen = False"
| "search_below (Suc n) children goal (q # queue) seen =
     (case visit_children goal (children q) queue seen of
        (found, queue', seen') \<Rightarrow> found \<or> search_below n children goal queue' seen')"

definition is_in_subtree :: "ident \<Rightarrow> workforce \<Rightarrow> ident \<Rightarrow> ident \<Rightarrow> ident \<Rightarrow> bool" where
  "is_in_subtree tn s org r c =
     (r = c \<or> search_below (length (list_workers tn s org) + 1) (list_direct_reports tn s org) c [r] [r])"

definition reparent ::
  "ident \<Rightarrow> workforce \<Rightarrow> ident \<Rightarrow> ident \<Rightarrow> ident \<Rightarrow> millis \<Rightarrow> chart_error + workforce" where
  "reparent tn s org w m now =
     (if w = m then Inl Chart_Self
      else if get_worker tn s org w = None then Inl (Chart_No_Worker w)
      else case get_worker tn s org m of
        None \<Rightarrow> Inl (Chart_No_Manager m)
      | Some d \<Rightarrow>
          if dw_status d \<noteq> Emp_Active then Inl (Chart_Inactive m)
          else if is_in_subtree tn s org w m then Inl (Chart_Cycle m)
          else case reparent_worker tn s org w (Some m) now of
            (s', ok) \<Rightarrow> if ok then Inr s' else Inl (Chart_No_Edge w))"

subsection \<open>Offboarding\<close>

definition in_hand_statuses :: "task_status list" where
  "in_hand_statuses = [Task_Delegated, Task_In_Progress, Task_Submitted]"

record offboard_input =
  ob_org :: ident
  ob_worker :: ident
  ob_reports_to :: "ident option"
  ob_tasks_to :: "ident option"

definition active_worker :: "ident \<Rightarrow> workforce \<Rightarrow> ident \<Rightarrow> ident \<Rightarrow> bool" where
  "active_worker tn s org w =
     (case get_worker tn s org w of None \<Rightarrow> False | Some d \<Rightarrow> dw_status d = Emp_Active)"

fun reparent_all ::
  "ident \<Rightarrow> workforce \<Rightarrow> ident \<Rightarrow> ident list \<Rightarrow> ident \<Rightarrow> millis \<Rightarrow> chart_error + workforce" where
  "reparent_all tn s org [] m now = Inr s"
| "reparent_all tn s org (w # ws) m now =
     (case reparent tn s org w m now of
        Inl e \<Rightarrow> Inl e | Inr s' \<Rightarrow> reparent_all tn s' org ws m now)"

fun reassign_all ::
  "ident \<Rightarrow> workforce \<Rightarrow> ident \<Rightarrow> org_task list \<Rightarrow> ident \<Rightarrow> ident \<Rightarrow> millis \<Rightarrow> chart_error + workforce" where
  "reassign_all tn s org [] w m now = Inr s"
| "reassign_all tn s org (t # ts) w m now =
     (case reassign_task_if_held tn s org (tk_id t) w m now of
        (s', ok) \<Rightarrow> if ok then reassign_all tn s' org ts w m now else Inl (Chart_Task_Moved (tk_id t)))"

definition in_hand :: "ident \<Rightarrow> workforce \<Rightarrow> ident \<Rightarrow> ident \<Rightarrow> org_task list" where
  "in_hand tn s org w =
     filter (\<lambda>t. List.member in_hand_statuses (tk_status t)) (list_tasks_by_assignee tn s org w)"

definition settle_reports ::
  "ident \<Rightarrow> workforce \<Rightarrow> offboard_input \<Rightarrow> millis \<Rightarrow> chart_error + workforce" where
  "settle_reports tn s x now =
     (let reports = list_direct_reports tn s (ob_org x) (ob_worker x) in
      if reports = [] then Inr s
      else if \<not> truthy (ob_reports_to x) then Inl (Chart_Reports_Left (length reports))
      else if \<not> active_worker tn s (ob_org x) (the (ob_reports_to x)) then
        Inl (Chart_Inactive (the (ob_reports_to x)))
      else reparent_all tn s (ob_org x) reports (the (ob_reports_to x)) now)"

definition settle_tasks ::
  "ident \<Rightarrow> workforce \<Rightarrow> offboard_input \<Rightarrow> millis \<Rightarrow> chart_error + workforce" where
  "settle_tasks tn s x now =
     (let tasks = in_hand tn s (ob_org x) (ob_worker x) in
      if tasks = [] then Inr s
      else if \<not> truthy (ob_tasks_to x) then Inl (Chart_Tasks_Left (length tasks))
      else if \<not> active_worker tn s (ob_org x) (the (ob_tasks_to x)) then
        Inl (Chart_Inactive (the (ob_tasks_to x)))
      else reassign_all tn s (ob_org x) tasks (ob_worker x) (the (ob_tasks_to x)) now)"

definition offboard :: "ident \<Rightarrow> workforce \<Rightarrow> offboard_input \<Rightarrow> millis \<Rightarrow> chart_error + workforce" where
  "offboard tn s x now =
     (if get_worker tn s (ob_org x) (ob_worker x) = None then Inl (Chart_No_Worker (ob_worker x))
      else if get_manager_of tn s (ob_org x) (ob_worker x) = None then Inl Chart_Root_Fixed
      else case settle_reports tn s x now of
        Inl e \<Rightarrow> Inl e
      | Inr s1 \<Rightarrow>
          (case settle_tasks tn s1 x now of
             Inl e \<Rightarrow> Inl e
           | Inr s2 \<Rightarrow>
               (case set_employment tn s2 (ob_org x) (ob_worker x) Emp_Offboarded now of
                  (s3, ok) \<Rightarrow> if ok then Inr s3 else Inl (Chart_No_Worker (ob_worker x)))))"

subsection \<open>Absorbing an organisation\<close>

definition find_root :: "ident \<Rightarrow> workforce \<Rightarrow> ident \<Rightarrow> ident option" where
  "find_root tn s org =
     map_option dw_id (List.find (\<lambda>w. get_manager_of tn s org (dw_id w) = None) (list_workers tn s org))"

definition renamed_role :: "string \<Rightarrow> ident \<Rightarrow> string" where
  "renamed_role r org = r @ ''__from_'' @ org"

fun rename_clashes ::
  "ident \<Rightarrow> ident \<Rightarrow> string list \<Rightarrow> org_position list \<Rightarrow> org_state \<Rightarrow> (string \<times> string) list
     \<Rightarrow> (org_state \<times> (string \<times> string) list) option" where
  "rename_clashes tn org taken [] s acc = Some (s, acc)"
| "rename_clashes tn org taken (p # ps) s acc =
     (if List.member taken (op_role p) then
        (case rename_role tn s org (op_role p) (renamed_role (op_role p) org) of
           None \<Rightarrow> None
         | Some s' \<Rightarrow>
             rename_clashes tn org taken ps s' (acc @ [(op_role p, renamed_role (op_role p) org)]))
      else rename_clashes tn org taken ps s acc)"

record absorb_result =
  ab_moved :: nat
  ab_renamed :: "(string \<times> string) list"
  ab_source_root :: ident

definition absorb ::
  "ident \<Rightarrow> org_state \<Rightarrow> ident \<Rightarrow> ident \<Rightarrow> ident \<Rightarrow> millis \<Rightarrow> chart_error + (org_state \<times> absorb_result)" where
  "absorb tn s target source mount now =
     (if target = source then Inl Chart_Absorbs_Itself
      else if list_workers tn (og_wf s) target = [] then Inl (Chart_No_Org target)
      else if list_workers tn (og_wf s) source = [] then Inl (Chart_No_Org source)
      else if get_worker tn (og_wf s) target mount = None then Inl (Chart_No_Worker mount)
      else if \<not> active_worker tn (og_wf s) target mount then Inl (Chart_Inactive mount)
      else case find_root tn (og_wf s) source of
        None \<Rightarrow> Inl Chart_No_Root
      | Some r \<Rightarrow>
          (case rename_clashes tn source (map op_role (list_positions tn s target))
                  (list_positions tn s source) s [] of
             None \<Rightarrow> Inl Chart_Constraint
           | Some (s1, renamed) \<Rightarrow>
               (case migrate_org tn s1 source target of
                  None \<Rightarrow> Inl Chart_Constraint
                | Some (s2, n) \<Rightarrow>
                    Inr (on_og_wf (\<lambda>f. fst (reparent_worker tn f target r (Some mount) now)) s2,
                         \<lparr> ab_moved = n, ab_renamed = renamed, ab_source_root = r \<rparr>))))"

subsection \<open>The search below a worker\<close>

lemma visit_children_spec:
  assumes "visit_children goal cs queue seen = (found, queue', seen')"
  shows "(found \<longleftrightarrow> goal \<in> set cs) \<and>
     (\<not> found \<longrightarrow> (\<exists>new. queue' = queue @ new \<and> seen' = seen @ new \<and> distinct new
         \<and> set new = set cs - set seen))"
  using assms
proof (induction cs arbitrary: queue seen)
  case (Cons c cs)
  show ?case
  proof (cases "c = goal \<or> List.member seen c")
    case True
    with Cons.prems Cons.IH [of queue seen] show ?thesis by (auto split: if_splits)
  next
    case False
    then have v: "visit_children goal cs (queue @ [c]) (seen @ [c]) = (found, queue', seen')"
      using Cons.prems by simp
    note IH = Cons.IH [OF v]
    show ?thesis
    proof (cases found)
      case True
      with IH show ?thesis by simp
    next
      case notfound: False
      then obtain new where new: "queue' = (queue @ [c]) @ new" "seen' = (seen @ [c]) @ new" "distinct new"
        "set new = set cs - set (seen @ [c])" using IH by blast
      have "goal \<notin> set cs" using IH notfound by blast
      moreover have "queue' = queue @ (c # new)" "seen' = seen @ (c # new)" using new by simp_all
      moreover have "distinct (c # new)" using new by simp
      moreover have "set (c # new) = set (c # cs) - set seen" using new False by auto
      ultimately show ?thesis using False notfound by (metis set_ConsD)
    qed
  qed
qed simp

lemma closed_reach:
  assumes "(x, goal) \<in> E\<^sup>*" and "x \<in> S" and "goal \<notin> S" and "\<And>x y. x \<in> S \<Longrightarrow> (x, y) \<in> E \<Longrightarrow> y \<in> S"
  shows False
  using assms(1-3) by (induction rule: converse_rtrancl_induct) (auto dest: assms(4))

lemma search_below_iff:
  assumes children: "\<And>x y. y \<in> set (children x) \<longleftrightarrow> (x, y) \<in> E"
    and W: "finite W" "\<And>x y. (x, y) \<in> E \<Longrightarrow> y \<in> W"
    and "set seen \<subseteq> W" and "distinct seen" and "distinct queue" and "set queue \<subseteq> set seen"
    and "goal \<notin> set seen"
    and "\<And>x y. x \<in> set seen - set queue \<Longrightarrow> (x, y) \<in> E \<Longrightarrow> y \<in> set seen"
    and "card W + length queue < n + length seen"
  shows "search_below n children goal queue seen \<longleftrightarrow> (\<exists>x \<in> set seen. (x, goal) \<in> E\<^sup>*)"
  using assms(4-)
proof (induction n arbitrary: queue seen)
  case 0
  have "length seen \<le> card W"
    using 0(1,2) W(1) by (metis card_mono distinct_card)
  with 0(7) show ?case by simp
next
  case (Suc n)
  show ?case
  proof (cases queue)
    case Nil
    then have "\<not> (\<exists>x \<in> set seen. (x, goal) \<in> E\<^sup>*)"
      using Suc.prems(5,6) closed_reach [of _ goal E "set seen"] by auto
    with Nil show ?thesis by simp
  next
    case (Cons q rest)
    obtain found queue' seen' where v: "visit_children goal (children q) rest seen = (found, queue', seen')"
      by (cases "visit_children goal (children q) rest seen")
    note spec = visit_children_spec [OF v]
    have q: "q \<in> set seen" using Suc.prems(4) Cons by auto
    show ?thesis
    proof (cases found)
      case True
      then have "(q, goal) \<in> E" using spec children by blast
      with True Cons v q show ?thesis by auto
    next
      case False
      then obtain new where new: "queue' = rest @ new" "seen' = seen @ new" "distinct new"
        "set new = set (children q) - set seen" using spec by blast
      have ng: "goal \<notin> set (children q)" using spec False by blast
      have "search_below n children goal queue' seen' \<longleftrightarrow> (\<exists>x \<in> set seen'. (x, goal) \<in> E\<^sup>*)"
      proof (rule Suc.IH)
        show "set seen' \<subseteq> W" using Suc.prems(1) new W(2) children by auto
        show "distinct seen'" using Suc.prems(2) new by auto
        show "distinct queue'" using Suc.prems(3,4) new Cons by auto
        show "set queue' \<subseteq> set seen'" using Suc.prems(4) new Cons by auto
        show "goal \<notin> set seen'" using Suc.prems(5) new ng by auto
        show "card W + length queue' < n + length seen'" using Suc.prems(7) new Cons by simp
        show "y \<in> set seen'" if "x \<in> set seen' - set queue'" "(x, y) \<in> E" for x y
        proof (cases "x = q")
          case True
          with that children new show ?thesis by auto
        next
          case False
          with that(1) new Cons have "x \<in> set seen - set queue" by auto
          with Suc.prems(6) that(2) new show ?thesis by auto
        qed
      qed
      also have "\<dots> \<longleftrightarrow> (\<exists>x \<in> set seen. (x, goal) \<in> E\<^sup>*)"
      proof
        assume "\<exists>x \<in> set seen'. (x, goal) \<in> E\<^sup>*"
        then obtain x where x: "x \<in> set seen'" "(x, goal) \<in> E\<^sup>*" by blast
        show "\<exists>x \<in> set seen. (x, goal) \<in> E\<^sup>*"
        proof (cases "x \<in> set seen")
          case False
          then have "(q, x) \<in> E" using x(1) new children by auto
          with x(2) q show ?thesis by (meson converse_rtrancl_into_rtrancl)
        qed (use x in blast)
      qed (use new in auto)
      finally show ?thesis using Cons v False by simp
    qed
  qed
qed

subsection \<open>Reachability in the tables\<close>

lemma is_in_subtree_iff:
  assumes k: "tables_keyed s" and ok: "org_ok tn s org" and r: "r \<in> staff tn org s"
  shows "is_in_subtree tn s org r c \<longleftrightarrow> (r, c) \<in> (below (chart tn org s))\<^sup>*"
proof (cases "r = c")
  case False
  have t: "rooted_tree (staff tn org s) (chart tn org s)" using ok r by (auto simp: org_ok_def)
  have "search_below (length (list_workers tn s org) + 1) (list_direct_reports tn s org) c [r] [r]
      \<longleftrightarrow> (\<exists>x \<in> set [r]. (x, c) \<in> (below (chart tn org s))\<^sup>*)"
    by (rule search_below_iff [where W = "staff tn org s"])
      (use r False below_field [OF t] card_staff [OF k, of tn org] in \<open>auto simp: direct_reports_below\<close>)
  with False show ?thesis by (simp add: is_in_subtree_def)
qed (simp add: is_in_subtree_def)

subsection \<open>What the statements do to charts\<close>

lemma reparent_worker_tables:
  "staff tn' org' (fst (reparent_worker tn s org w m now)) = staff tn' org' s"
  "tables_keyed (fst (reparent_worker tn s org w m now)) = tables_keyed s"
  "all_solid tn' (fst (reparent_worker tn s org w m now)) = all_solid tn' s"
  "wf_tasks (fst (reparent_worker tn s org w m now)) = wf_tasks s"
proof -
  have ws: "wf_workers (fst (reparent_worker tn s org w m now))
      = fst (update_where (worker_at tn org w) (\<lambda>r. r\<lparr>dw_updated_at := now\<rparr>) (wf_workers s))"
    by (simp add: reparent_worker_def Let_def split_beta)
  note staffed = staff_update_eq [OF ws]
  show "staff tn' org' (fst (reparent_worker tn s org w m now)) = staff tn' org' s"
    by (rule staffed(1)) simp_all
  have "map (\<lambda>e. (re_tenant e, re_org e, re_report e))
      (fst (update_where (edge_of tn org w) (\<lambda>r. r\<lparr>re_manager := m\<rparr>) t))
      = map (\<lambda>e. (re_tenant e, re_org e, re_report e)) t" for t
    by (induction t) (simp_all add: update_where_def)
  then show "tables_keyed (fst (reparent_worker tn s org w m now)) = tables_keyed s"
    using staffed(2) by (simp add: reparent_worker_def Let_def split_beta tables_keyed_def edges_unique_def)
  show "all_solid tn' (fst (reparent_worker tn s org w m now)) = all_solid tn' s"
    by (auto simp: reparent_worker_def Let_def split_beta all_solid_def)
qed (simp add: reparent_worker_def Let_def split_beta)

lemma reparent_worker_edges:
  "wf_edges (fst (reparent_worker tn s org w m now))
     = fst (update_where (edge_of tn org w) (\<lambda>r. r\<lparr>re_manager := m\<rparr>) (wf_edges s))"
  by (simp add: reparent_worker_def Let_def split_beta)

lemma reparent_worker_chart:
  assumes "w \<in> snd ` chart tn org s"
  shows "chart tn org (fst (reparent_worker tn s org w m now)) = insert (m, w) {q \<in> chart tn org s. snd q \<noteq> w}"
proof -
  obtain e where e: "e \<in> set (wf_edges s)" "re_tenant e = tn" "re_org e = org" "re_report e = w"
    using assms by (auto simp: chart_mem)
  have "q \<in> chart tn org (fst (reparent_worker tn s org w m now)) \<longleftrightarrow>
      (\<exists>e \<in> set (wf_edges s). re_tenant e = tn \<and> re_org e = org \<and>
         (re_report e = w \<and> q = (m, w) \<or> re_report e \<noteq> w \<and> q = (re_manager e, re_report e)))" for q
    unfolding chart_mem reparent_worker_edges bex_update_where by (auto simp: edge_of_def)
  then show ?thesis using e by (auto simp: chart_mem set_eq_iff)
qed

lemma reparent_worker_other_chart:
  "(tn', org') \<noteq> (tn, org) \<Longrightarrow>
   chart tn' org' (fst (reparent_worker tn s org w m now)) = chart tn' org' s"
  by (auto simp: chart_def reparent_worker_def Let_def split_beta update_where_def edge_of_def)

lemma reparent_worker_hits:
  "snd (reparent_worker tn s org w m now) \<longleftrightarrow> w \<in> snd ` chart tn org s"
  by (force simp: reparent_worker_def Let_def split_beta chart_def edge_of_def image_iff)

lemma reparent_Inr:
  assumes "reparent tn s org w m now = Inr s'"
  shows "w \<noteq> m \<and> w \<in> staff tn org s \<and> m \<in> staff tn org s \<and> active_worker tn s org m
     \<and> \<not> is_in_subtree tn s org w m \<and> w \<in> snd ` chart tn org s
     \<and> s' = fst (reparent_worker tn s org w (Some m) now)"
  using assms get_worker_staff [of tn s org w] get_worker_staff [of tn s org m]
    reparent_worker_hits [of tn s org w "Some m" now]
  by (auto simp: reparent_def active_worker_def split: if_splits option.splits prod.splits)

lemma reparent_world:
  assumes ok: "world_ok tn s" and r: "reparent tn s org w m now = Inr s'"
  shows "world_ok tn s'"
proof -
  note R = reparent_Inr [OF r]
  then have s': "s' = fst (reparent_worker tn s org w (Some m) now)" by blast
  have k: "tables_keyed s" and o: "org_ok tn s org'" for org' using ok by (simp_all add: world_ok_def)
  have t: "rooted_tree (staff tn org s) (chart tn org s)" using o [of org] R by (auto simp: org_ok_def)
  have n: "(w, m) \<notin> (below (chart tn org s))\<^sup>*" using R is_in_subtree_iff [OF k o [of org], of w m] by blast
  have "org_ok tn s' org'" for org'
  proof (cases "org' = org")
    case True
    have "rooted_tree (staff tn org s) (insert (Some m, w) {q \<in> chart tn org s. snd q \<noteq> w})"
      using tree_move [OF t _ _ n] R by blast
    with True R show ?thesis by (simp add: s' org_ok_def reparent_worker_tables reparent_worker_chart)
  next
    case False
    with o [of org'] show ?thesis
      by (simp add: s' org_ok_def reparent_worker_tables reparent_worker_other_chart)
  qed
  then show ?thesis using ok by (simp add: world_ok_def s' reparent_worker_tables)
qed

lemma reparent_all_world:
  "world_ok tn s \<Longrightarrow> reparent_all tn s org ws m now = Inr s' \<Longrightarrow> world_ok tn s'"
  by (induction ws arbitrary: s) (auto dest: reparent_world split: sum.splits)

lemma reassign_tables:
  "wf_edges (fst (reassign_task_if_held tn s org i a b now)) = wf_edges s"
  "wf_workers (fst (reassign_task_if_held tn s org i a b now)) = wf_workers s"
  by (simp_all add: reassign_task_if_held_def split_beta Let_def)

lemma reassign_all_tables:
  "reassign_all tn s org ts w m now = Inr s' \<Longrightarrow> wf_edges s' = wf_edges s \<and> wf_workers s' = wf_workers s"
proof (induction ts arbitrary: s)
  case (Cons t ts)
  obtain s1 ok where r: "reassign_task_if_held tn s org (tk_id t) w m now = (s1, ok)" by fastforce
  then have "wf_edges s1 = wf_edges s \<and> wf_workers s1 = wf_workers s"
    using reassign_tables [of tn s org "tk_id t" w m now] by simp
  with Cons r show ?case by (auto split: if_splits)
qed simp

lemma set_employment_world:
  assumes "world_ok tn s"
  shows "world_ok tn (fst (set_employment tn s org w st now))"
proof -
  have ws: "wf_workers (fst (set_employment tn s org w st now)) = fst (update_where (worker_at tn org w)
      (\<lambda>r. r\<lparr>dw_status := st, dw_updated_at := now\<rparr>) (wf_workers s))"
    by (simp add: set_employment_def split_beta Let_def)
  show ?thesis
    by (rule same_tables_world [OF _ staff_update_eq(2) [OF ws] staff_update_eq(1) [OF ws] assms])
      (simp_all add: set_employment_def split_beta Let_def)
qed

lemma settle_world:
  assumes "world_ok tn s"
  shows "settle_reports tn s x now = Inr s' \<Longrightarrow> world_ok tn s'"
    and "settle_tasks tn s x now = Inr s' \<Longrightarrow> world_ok tn s'"
proof -
  show "settle_reports tn s x now = Inr s' \<Longrightarrow> world_ok tn s'"
    using assms reparent_all_world [OF assms] by (auto simp: settle_reports_def Let_def split: if_splits)
  show "settle_tasks tn s x now = Inr s' \<Longrightarrow> world_ok tn s'"
  proof -
    assume "settle_tasks tn s x now = Inr s'"
    then have "wf_edges s' = wf_edges s \<and> wf_workers s' = wf_workers s"
      using reassign_all_tables [of tn s "ob_org x" _ "ob_worker x" _ now s']
      by (auto simp: settle_tasks_def Let_def split: if_splits)
    then show ?thesis by (intro same_tables_world [OF _ _ _ assms] staff_cong) simp_all
  qed
qed

lemma offboard_steps:
  assumes "offboard tn s x now = Inr s'"
  obtains s1 s2 where "settle_reports tn s x now = Inr s1" "settle_tasks tn s1 x now = Inr s2"
    "set_employment tn s2 (ob_org x) (ob_worker x) Emp_Offboarded now = (s', True)"
    "get_manager_of tn s (ob_org x) (ob_worker x) \<noteq> None" "ob_worker x \<in> staff tn (ob_org x) s"
  using assms get_worker_staff [of tn s "ob_org x" "ob_worker x"]
  by (auto simp: offboard_def split: if_splits sum.splits prod.splits)

lemma offboard_world:
  assumes "world_ok tn s" and "offboard tn s x now = Inr s'"
  shows "world_ok tn s'"
  using assms(2)
proof (rule offboard_steps)
  fix s1 s2
  assume "settle_reports tn s x now = Inr s1" and "settle_tasks tn s1 x now = Inr s2"
    and e: "set_employment tn s2 (ob_org x) (ob_worker x) Emp_Offboarded now = (s', True)"
  then have "world_ok tn s2" using assms(1) settle_world by blast
  from set_employment_world [OF this, of "ob_org x" "ob_worker x" Emp_Offboarded now] e
  show ?thesis by simp
qed

subsection \<open>An absorbed organisation hangs below its mount\<close>

lemma rename_clashes_wf: "rename_clashes tn org taken ps s acc = Some (s', ren) \<Longrightarrow> og_wf s' = og_wf s"
  by (induction ps arbitrary: s acc) (auto simp: rename_role_def Let_def split: if_splits option.splits)

lemma list_head_None: "(case xs of [] \<Rightarrow> None | x # _ \<Rightarrow> Some x) = None \<longleftrightarrow> xs = []"
  by (cases xs) simp_all

lemma manager_of_tree:
  assumes sol: "all_solid tn s" and t: "rooted_tree (staff tn org s) (chart tn org s)"
    and w: "w \<in> staff tn org s"
  shows "get_manager_of tn s org w = None \<longleftrightarrow> (None, w) \<in> chart tn org s"
proof -
  let ?F = "filter (\<lambda>r. re_tenant r = tn \<and> re_org r = org \<and> re_report r = w \<and> re_type r = Edge_Solid
      \<and> re_manager r \<noteq> None) (wf_edges s)"
  have "get_manager_of tn s org w = None \<longleftrightarrow> sort (map (\<lambda>r. the (re_manager r)) ?F) = []"
    unfolding get_manager_of_def list_head_None ..
  also have "\<dots> \<longleftrightarrow> ?F = []" by (simp only: sort_key_Nil_iff list.map_disc_iff)
  also have "\<dots> \<longleftrightarrow> \<not> (\<exists>m. (Some m, w) \<in> chart tn org s)"
  proof -
    have "e \<in> set ?F \<longleftrightarrow> e \<in> set (wf_edges s) \<and> re_tenant e = tn \<and> re_org e = org \<and> re_report e = w
        \<and> re_manager e \<noteq> None" for e
      using sol by (auto simp: all_solid_def)
    moreover have "?F = [] \<longleftrightarrow> (\<forall>e. e \<notin> set ?F)" by (simp only: set_empty [symmetric] all_not_in_conv)
    moreover have "(\<exists>m. (Some m, w) \<in> chart tn org s) \<longleftrightarrow> (\<exists>e \<in> set (wf_edges s). re_tenant e = tn
        \<and> re_org e = org \<and> re_report e = w \<and> re_manager e \<noteq> None)"
      unfolding chart_mem prod.inject not_None_eq eq_commute [of "Some _"] eq_commute [of w] by blast
    ultimately show ?thesis by blast
  qed
  also have "\<dots> \<longleftrightarrow> (None, w) \<in> chart tn org s"
    using rooted_treeD(5) [OF t w] rooted_treeD(4) [OF t] by (metis not_None_eq option.distinct(1))
  finally show ?thesis .
qed

lemma find_root_tree:
  assumes sol: "all_solid tn s" and t: "rooted_tree (staff tn org s) (chart tn org s)"
    and r: "find_root tn s org = Some r"
  shows "(None, r) \<in> chart tn org s"
proof -
  obtain w where w: "List.find (\<lambda>w. get_manager_of tn s org (dw_id w) = None) (list_workers tn s org) = Some w"
    and rw: "r = dw_id w"
    using r by (auto simp: find_root_def)
  then have "w \<in> set (list_workers tn s org)" "get_manager_of tn s org (dw_id w) = None"
    by (auto simp: find_Some_iff)
  then have "r \<in> staff tn org s" "get_manager_of tn s org r = None" using rw by (auto simp: staff_list_workers)
  with manager_of_tree [OF sol t] show ?thesis by blast
qed

lemma staff_disjoint:
  assumes "tables_keyed s" and "a \<noteq> b"
  shows "staff tn a s \<inter> staff tn b s = {}"
proof -
  have "w = v" if "w \<in> set (wf_workers s)" "v \<in> set (wf_workers s)" "dw_id w = dw_id v" for w v
    using assms(1) that by (auto simp: tables_keyed_def distinct_map dest: inj_onD)
  with assms(2) show ?thesis by (auto simp: staff_mem) blast
qed

lemma migrate_org_tables:
  assumes "migrate_org tn s a b = Some (s', n)"
  shows "wf_workers (og_wf s') = fst (update_where (\<lambda>r. dw_tenant r = tn \<and> dw_org r = a) (\<lambda>r. r\<lparr>dw_org := b\<rparr>) (wf_workers (og_wf s)))"
    and "wf_edges (og_wf s') = fst (update_where (\<lambda>r. re_tenant r = tn \<and> re_org r = a) (\<lambda>r. r\<lparr>re_org := b\<rparr>) (wf_edges (og_wf s)))"
    and "edges_unique (wf_edges (og_wf s'))"
  using assms by (auto simp: migrate_org_def Let_def split: if_splits)

lemma migrate_org_charts:
  assumes "migrate_org tn s a b = Some (s', n)"
  shows "staff tn org (og_wf s') = (if org = b then staff tn a (og_wf s) \<union> staff tn b (og_wf s)
      else if org = a then {} else staff tn org (og_wf s))"
    and "chart tn org (og_wf s') = (if org = b then chart tn a (og_wf s) \<union> chart tn b (og_wf s)
      else if org = a then {} else chart tn org (og_wf s))"
proof -
  have "x \<in> staff tn org (og_wf s') \<longleftrightarrow> x \<in> (if org = b then staff tn a (og_wf s) \<union> staff tn b (og_wf s)
      else if org = a then {} else staff tn org (og_wf s))" for x
    unfolding staff_mem migrate_org_tables(1) [OF assms] bex_update_where by (auto simp: staff_mem)
  then show "staff tn org (og_wf s') = (if org = b then staff tn a (og_wf s) \<union> staff tn b (og_wf s)
      else if org = a then {} else staff tn org (og_wf s))" by blast
  have "q \<in> chart tn org (og_wf s') \<longleftrightarrow> q \<in> (if org = b then chart tn a (og_wf s) \<union> chart tn b (og_wf s)
      else if org = a then {} else chart tn org (og_wf s))" for q
    unfolding chart_mem migrate_org_tables(2) [OF assms] bex_update_where by (auto simp: chart_mem)
  then show "chart tn org (og_wf s') = (if org = b then chart tn a (og_wf s) \<union> chart tn b (og_wf s)
      else if org = a then {} else chart tn org (og_wf s))" by blast
qed

lemma migrate_org_keyed:
  assumes "migrate_org tn s a b = Some (s', n)" and "world_ok tn (og_wf s)"
  shows "tables_keyed (og_wf s') \<and> all_solid tn (og_wf s')"
proof -
  have "map dw_id (wf_workers (og_wf s')) = map dw_id (wf_workers (og_wf s))"
    unfolding migrate_org_tables(1) [OF assms(1)] by (simp add: update_where_fst cong: map_cong)
  moreover have "all_solid tn (og_wf s')"
    using assms(2) unfolding all_solid_def migrate_org_tables(2) [OF assms(1)] ball_update_where
    by (simp add: world_ok_def all_solid_def)
  ultimately show ?thesis
    using assms(2) migrate_org_tables(3) [OF assms(1)] by (simp add: tables_keyed_def world_ok_def)
qed

lemma absorb_Inr:
  assumes "absorb tn s target source mount now = Inr (s', res)"
  obtains r s1 s2 n ren where "target \<noteq> source" "mount \<in> staff tn target (og_wf s)"
    "staff tn source (og_wf s) \<noteq> {}" "find_root tn (og_wf s) source = Some r" "og_wf s1 = og_wf s"
    "migrate_org tn s1 source target = Some (s2, n)"
    "s' = on_og_wf (\<lambda>f. fst (reparent_worker tn f target r (Some mount) now)) s2"
proof -
  from assms obtain r s1 s2 n ren where
    "target \<noteq> source" "get_worker tn (og_wf s) target mount \<noteq> None" "list_workers tn (og_wf s) source \<noteq> []"
    "find_root tn (og_wf s) source = Some r"
    "rename_clashes tn source (map op_role (list_positions tn s target)) (list_positions tn s source) s [] = Some (s1, ren)"
    "migrate_org tn s1 source target = Some (s2, n)"
    "s' = on_og_wf (\<lambda>f. fst (reparent_worker tn f target r (Some mount) now)) s2"
    by (auto simp: absorb_def split: if_splits option.splits prod.splits)
  then show ?thesis
    using get_worker_staff [of tn "og_wf s" target mount] no_workers_iff [of tn "og_wf s" source]
      rename_clashes_wf [of tn source "map op_role (list_positions tn s target)" _ s "[]" s1 ren]
    by (intro that [of r s1 s2 n]) blast+
qed

lemma absorb_world:
  assumes ok: "world_ok tn (og_wf s)" and a: "absorb tn s target source mount now = Inr (s', res)"
  shows "world_ok tn (og_wf s')"
  using a
proof (rule absorb_Inr)
  fix r s1 s2 n
  assume ne: "target \<noteq> source" and mount: "mount \<in> staff tn target (og_wf s)"
    and src: "staff tn source (og_wf s) \<noteq> {}" and root: "find_root tn (og_wf s) source = Some r"
    and s1: "og_wf s1 = og_wf s" and mig: "migrate_org tn s1 source target = Some (s2, n)"
    and s': "s' = on_og_wf (\<lambda>f. fst (reparent_worker tn f target r (Some mount) now)) s2"
  let ?W = "\<lambda>org. staff tn org (og_wf s)" and ?P = "\<lambda>org. chart tn org (og_wf s)"
  have k: "tables_keyed (og_wf s)" "all_solid tn (og_wf s)" and o: "org_ok tn (og_wf s) org" for org
    using ok by (simp_all add: world_ok_def)
  have tt: "rooted_tree (?W target) (?P target)" and ts: "rooted_tree (?W source) (?P source)"
    using o [of target] o [of source] mount src by (auto simp: org_ok_def)
  have r: "(None, r) \<in> ?P source" by (rule find_root_tree [OF k(2) ts root])
  have disj: "?W target \<inter> ?W source = {}" by (rule staff_disjoint [OF k(1) ne])
  then have rt: "r \<notin> ?W target" using rooted_treeD(2) [OF ts r] by blast
  note mc = migrate_org_charts [OF mig, unfolded s1] and mk = migrate_org_keyed [OF mig, unfolded s1, OF ok]
  have rin: "r \<in> snd ` chart tn target (og_wf s2)" using r by (force simp: mc)
  have "insert (Some mount, r) {q \<in> ?P source \<union> ?P target. snd q \<noteq> r}
      = ?P target \<union> insert (Some mount, r) {q \<in> ?P source. snd q \<noteq> r}"
    using rt rooted_treeD(2) [OF tt] by auto
  then have "rooted_tree (?W source \<union> ?W target) (insert (Some mount, r) {q \<in> ?P source \<union> ?P target. snd q \<noteq> r})"
    using tree_graft [OF tt ts disj mount r] by (simp add: Un_commute)
  then have "org_ok tn (og_wf s') target"
    by (simp add: s' org_ok_def reparent_worker_tables reparent_worker_chart [OF rin] mc)
  moreover have "org_ok tn (og_wf s') org" if "org \<noteq> target" for org
    using that o [of org] by (simp add: s' org_ok_def reparent_worker_tables reparent_worker_other_chart mc)
  ultimately have "\<forall>org. org_ok tn (og_wf s') org" by metis
  with mk show ?thesis by (simp add: world_ok_def s' reparent_worker_tables)
qed

subsection \<open>Any sequence of operations on the charts of a tenant\<close>

text \<open>
  The operations as the routes issue them: the kind of an edge is never given, and a failure undoes
  what was written, except that generated identifiers are not handed out again.
\<close>

datatype chart_event =
    Chart_Found ident "worker_spec list" millis
  | Chart_Hire ident worker_spec ident millis
  | Chart_Reparent ident ident ident millis
  | Chart_Offboard offboard_input millis
  | Chart_Absorb ident ident ident millis

definition solid_spec :: "worker_spec \<Rightarrow> worker_spec" where
  "solid_spec x = x\<lparr>ws_edge := None\<rparr>"

definition in_transaction :: "org_state \<Rightarrow> org_state \<times> (chart_error + 'a) \<Rightarrow> org_state" where
  "in_transaction s r = (case r of (s', Inl e) \<Rightarrow> s\<lparr>og_ids := og_ids s'\<rparr> | (s', Inr v) \<Rightarrow> s')"

fun chart_step :: "(nat \<Rightarrow> ident) \<Rightarrow> ident \<Rightarrow> org_state \<Rightarrow> chart_event \<Rightarrow> org_state" where
  "chart_step gen tn s (Chart_Found org specs ts) =
     in_transaction s (bootstrap_if_absent gen tn s org (map solid_spec specs) ts)"
| "chart_step gen tn s (Chart_Hire org x m ts) = in_transaction s (hire_worker gen tn s org (solid_spec x) m ts)"
| "chart_step gen tn s (Chart_Reparent org w m now) =
     (case reparent tn (og_wf s) org w m now of Inl e \<Rightarrow> s | Inr f \<Rightarrow> s\<lparr>og_wf := f\<rparr>)"
| "chart_step gen tn s (Chart_Offboard x now) =
     (case offboard tn (og_wf s) x now of Inl e \<Rightarrow> s | Inr f \<Rightarrow> s\<lparr>og_wf := f\<rparr>)"
| "chart_step gen tn s (Chart_Absorb target source mount now) =
     (case absorb tn s target source mount now of Inl e \<Rightarrow> s | Inr (s', res) \<Rightarrow> s')"

lemma in_transaction_world:
  assumes "world_ok tn (og_wf s)" and "\<And>s' v. r = (s', Inr v) \<Longrightarrow> world_ok tn (og_wf s')"
  shows "world_ok tn (og_wf (in_transaction s r))"
  using assms by (cases r; cases "snd r") (auto simp: in_transaction_def)

lemma chart_step_world:
  assumes ok: "world_ok tn (og_wf s)"
  shows "world_ok tn (og_wf (chart_step gen tn s e))"
proof (cases e)
  case (Chart_Found org specs ts)
  have "world_ok tn (og_wf s')"
    if "bootstrap_if_absent gen tn s org (map solid_spec specs) ts = (s', Inr v)" for s' v
    by (rule bootstrap_if_absent_world [OF ok _ that]) (simp add: solid_spec_def)
  then show ?thesis using Chart_Found ok by (simp add: in_transaction_world)
next
  case (Chart_Hire org x m ts)
  have "world_ok tn (og_wf s')" if "hire_worker gen tn s org (solid_spec x) m ts = (s', Inr v)" for s' v
    by (rule hire_world [OF ok _ that]) (simp add: solid_spec_def)
  then show ?thesis using Chart_Hire ok by (simp add: in_transaction_world)
next
  case (Chart_Reparent org w m now)
  then show ?thesis using ok reparent_world [OF ok] by (auto split: sum.split)
next
  case (Chart_Offboard x now)
  then show ?thesis using ok offboard_world [OF ok] by (auto split: sum.split)
next
  case (Chart_Absorb target source mount now)
  then show ?thesis using ok absorb_world [OF ok] by (auto split: sum.split)
qed

interpretation charts: invariant_machine "chart_step gen tn" "\<lambda>s. world_ok tn (og_wf s)" for gen tn
  by unfold_locales (rule chart_step_world)

lemma empty_world: "wf_workers s = [] \<Longrightarrow> wf_edges s = [] \<Longrightarrow> world_ok tn s"
  by (simp add: world_ok_def tables_keyed_def edges_unique_def all_solid_def org_ok_def staff_def chart_def)

subsection \<open>Handing over before leaving\<close>

lemma reparent_all_leaves:
  assumes "reparent_all tn s org ws m now = Inr s'" and "m \<noteq> w" and "(Some w, c) \<in> chart tn org s'"
  shows "(Some w, c) \<in> chart tn org s \<and> c \<notin> set ws"
  using assms(1)
proof (induction ws arbitrary: s)
  case (Cons v ws)
  obtain s1 where r: "reparent tn s org v m now = Inr s1" and rest: "reparent_all tn s1 org ws m now = Inr s'"
    using Cons.prems by (auto split: sum.splits)
  have "v \<in> snd ` chart tn org s" "s1 = fst (reparent_worker tn s org v (Some m) now)"
    using reparent_Inr [OF r] by blast+
  then have "chart tn org s1 = insert (Some m, v) {q \<in> chart tn org s. snd q \<noteq> v}"
    by (simp add: reparent_worker_chart)
  with Cons.IH [OF rest] assms(2) show ?case by auto
qed (use assms(3) in simp)

lemma reassign_all_leaves:
  assumes "reassign_all tn s org ts w m now = Inr s'" and "m \<noteq> w"
    and "t' \<in> set (wf_tasks s')" and "tk_assigned t' = Some w"
  shows "t' \<in> set (wf_tasks s) \<and> (tk_tenant t' = tn \<and> tk_org t' = org \<longrightarrow> tk_id t' \<notin> tk_id ` set ts)"
  using assms(1)
proof (induction ts arbitrary: s)
  case (Cons t ts)
  obtain s1 where r: "reassign_task_if_held tn s org (tk_id t) w m now = (s1, True)"
    and rest: "reassign_all tn s1 org ts w m now = Inr s'"
    using Cons.prems by (auto split: prod.splits if_splits)
  have in1: "t' \<in> set (wf_tasks s1)" and out: "tk_tenant t' = tn \<and> tk_org t' = org \<longrightarrow> tk_id t' \<notin> tk_id ` set ts"
    using Cons.IH [OF rest] by blast+
  have e: "wf_tasks s1 = fst (update_where (\<lambda>r. task_at tn org (tk_id t) r \<and> tk_assigned r = Some w)
      (\<lambda>r. r\<lparr>tk_assigned := Some m, tk_updated_at := now\<rparr>) (wf_tasks s))"
    using r by (auto simp: reassign_task_if_held_def Let_def split_beta)
  have "\<exists>r \<in> set (wf_tasks s1). r = t'" using in1 by blast
  then have "t' \<in> set (wf_tasks s) \<and> \<not> task_at tn org (tk_id t) t'"
    unfolding e bex_update_where using assms(2,4) by auto
  with out show ?case by (auto simp: task_at_def)
qed (use assms(3) in simp)

lemma in_hand_mem:
  "t \<in> set (in_hand tn s org w) \<longleftrightarrow> t \<in> set (wf_tasks s) \<and> tk_tenant t = tn \<and> tk_org t = org
     \<and> tk_assigned t = Some w \<and> tk_status t \<in> set in_hand_statuses"
  by (auto simp: in_hand_def list_tasks_by_assignee_def)

lemma settle_reports_leaves:
  assumes "settle_reports tn s x now = Inr s'" and "ob_reports_to x \<noteq> Some (ob_worker x)"
  shows "(Some (ob_worker x), c) \<notin> chart tn (ob_org x) s'"
proof
  assume c: "(Some (ob_worker x), c) \<in> chart tn (ob_org x) s'"
  let ?ws = "list_direct_reports tn s (ob_org x) (ob_worker x)"
  show False
  proof (cases "?ws = []")
    case True
    then have "s' = s" using assms(1) by (simp add: settle_reports_def)
    then show False using c True direct_reports_below [of c tn s "ob_org x" "ob_worker x"] by (simp add: below_def)
  next
    case False
    then have "reparent_all tn s (ob_org x) ?ws (the (ob_reports_to x)) now = Inr s'"
      and "truthy (ob_reports_to x)"
      using assms(1) by (auto simp: settle_reports_def Let_def split: if_splits)
    moreover from this have "the (ob_reports_to x) \<noteq> ob_worker x" using assms(2) by (cases "ob_reports_to x") (auto simp: truthy_def)
    ultimately have "(Some (ob_worker x), c) \<in> chart tn (ob_org x) s \<and> c \<notin> set ?ws"
      using reparent_all_leaves c by blast
    then show False using direct_reports_below [of c tn s "ob_org x" "ob_worker x"] by (simp add: below_def)
  qed
qed

lemma settle_tasks_leaves:
  assumes "settle_tasks tn s x now = Inr s'" and "ob_tasks_to x \<noteq> Some (ob_worker x)"
  shows "in_hand tn s' (ob_org x) (ob_worker x) = []"
proof -
  have "t \<notin> set (in_hand tn s' (ob_org x) (ob_worker x))" for t
  proof
    let ?ts = "in_hand tn s (ob_org x) (ob_worker x)"
    assume t: "t \<in> set (in_hand tn s' (ob_org x) (ob_worker x))"
    show False
    proof (cases "?ts = []")
      case True
      with assms(1) t show False by (simp add: settle_tasks_def)
    next
      case False
      then have "reassign_all tn s (ob_org x) ?ts (ob_worker x) (the (ob_tasks_to x)) now = Inr s'"
        and "truthy (ob_tasks_to x)"
        using assms(1) by (auto simp: settle_tasks_def Let_def split: if_splits)
      moreover from this have "the (ob_tasks_to x) \<noteq> ob_worker x" using assms(2) by (cases "ob_tasks_to x") (auto simp: truthy_def)
      moreover have "t \<in> set (wf_tasks s')" "tk_assigned t = Some (ob_worker x)" "tk_tenant t = tn" "tk_org t = ob_org x"
        "tk_status t \<in> set in_hand_statuses"
        using t unfolding in_hand_mem by blast+
      ultimately have "t \<in> set (wf_tasks s)" "tk_id t \<notin> tk_id ` set ?ts"
        using reassign_all_leaves by blast+
      with t show False unfolding in_hand_mem by (auto simp: in_hand_mem)
    qed
  qed
  then show ?thesis by (metis list.set_intros(1) list.exhaust)
qed

lemma set_employment_fields:
  "wf_workers (fst (set_employment tn s org w st now)) = fst (update_where (worker_at tn org w)
      (\<lambda>r. r\<lparr>dw_status := st, dw_updated_at := now\<rparr>) (wf_workers s))"
  "wf_edges (fst (set_employment tn s org w st now)) = wf_edges s"
  "wf_tasks (fst (set_employment tn s org w st now)) = wf_tasks s"
  "snd (set_employment tn s org w st now) = (0 < snd (update_where (worker_at tn org w)
      (\<lambda>r. r\<lparr>dw_status := st, dw_updated_at := now\<rparr>) (wf_workers s)))"
  by (simp_all add: set_employment_def Let_def split_beta del: update_where_hits)

lemma set_employment_worker:
  assumes "set_employment tn s org w st now = (s', ok)" and "get_worker tn s org w \<noteq> None"
  shows "\<exists>d. get_worker tn s' org w = Some d \<and> dw_status d = st" and "ok"
    and "wf_edges s' = wf_edges s" and "wf_tasks s' = wf_tasks s"
proof -
  obtain d where d: "get_worker tn s org w = Some d" using assms(2) by blast
  have at: "get_worker tn s org w = select_one (worker_at tn org w) (wf_workers s)" for s
    by (simp add: get_worker_def worker_at_def [abs_def])
  note e = set_employment_fields [of tn s org w st now, unfolded assms(1) fst_conv snd_conv]
  have "select_one (worker_at tn org w) (wf_workers s) = Some d" using d at by simp
  then have here: "worker_at tn org w d" "d \<in> set (wf_workers s)" by (auto dest: select_one_SomeD)
  have "get_worker tn s' org w
      = map_option (\<lambda>r. if worker_at tn org w r then r\<lparr>dw_status := st, dw_updated_at := now\<rparr> else r) (Some d)"
    unfolding d [symmetric] at e(1) by (rule select_one_update_where) (simp add: worker_at_def)
  with here(1) show "\<exists>d. get_worker tn s' org w = Some d \<and> dw_status d = st" by simp
  show "wf_edges s' = wf_edges s" and "wf_tasks s' = wf_tasks s" by (fact e(2), fact e(3))
  show ok unfolding e(4) update_where_hits using here by blast
qed

lemma set_employment_known:
  "snd (set_employment tn s org w st now) \<longleftrightarrow> get_worker tn s org w \<noteq> None"
  unfolding set_employment_fields(4) update_where_hits get_worker_def worker_at_def select_one_None_iff by blast

lemma chart_cong: "wf_edges s' = wf_edges s \<Longrightarrow> chart tn org s' = chart tn org s"
  by (simp add: chart_def)

lemma in_hand_cong: "wf_tasks s' = wf_tasks s \<Longrightarrow> in_hand tn s' org w = in_hand tn s org w"
  by (simp add: in_hand_def list_tasks_by_assignee_def)

lemma no_reports_iff: "list_direct_reports tn s org m = [] \<longleftrightarrow> (\<forall>c. (Some m, c) \<notin> chart tn org s)"
proof -
  have "list_direct_reports tn s org m = [] \<longleftrightarrow> (\<forall>c. c \<notin> set (list_direct_reports tn s org m))"
    by (metis list.set_intros(1) list.exhaust empty_iff list.set(1))
  then show ?thesis by (simp only: direct_reports_below) (simp add: below_def)
qed

lemma settle_tasks_tables:
  assumes "settle_tasks tn s x now = Inr s'"
  shows "wf_edges s' = wf_edges s \<and> wf_workers s' = wf_workers s"
  using assms reassign_all_tables [of tn s "ob_org x" _ "ob_worker x" _ now s']
  by (auto simp: settle_tasks_def Let_def split: if_splits)

text \<open>A worker named as its own successor.\<close>

lemma reparent_worker_status:
  "map_option dw_status (get_worker tn (fst (reparent_worker tn s org v m now)) org' w)
     = map_option dw_status (get_worker tn s org' w)"
proof -
  have ws: "wf_workers (fst (reparent_worker tn s org v m now))
      = fst (update_where (worker_at tn org v) (\<lambda>r. r\<lparr>dw_updated_at := now\<rparr>) (wf_workers s))"
    by (simp add: reparent_worker_def Let_def split_beta)
  have "get_worker tn (fst (reparent_worker tn s org v m now)) org' w
      = map_option (\<lambda>r. if worker_at tn org v r then r\<lparr>dw_updated_at := now\<rparr> else r) (get_worker tn s org' w)"
    unfolding get_worker_def ws by (rule select_one_update_where) simp
  then show ?thesis by (simp add: option.map_comp o_def if_distrib cong: if_cong)
qed

lemma active_worker_status:
  "active_worker tn s org w \<longleftrightarrow> map_option dw_status (get_worker tn s org w) = Some Emp_Active"
  by (simp add: active_worker_def split: option.split)

lemma reparent_all_to_manager:
  assumes "world_ok tn s" and "active_worker tn s org m" and "\<forall>c \<in> set ws. (Some m, c) \<in> chart tn org s"
  shows "\<exists>s'. reparent_all tn s org ws m now = Inr s' \<and> world_ok tn s'
     \<and> chart tn org s' = chart tn org s \<and> active_worker tn s' org m"
  using assms
proof (induction ws arbitrary: s)
  case (Cons c ws)
  have mc: "(Some m, c) \<in> chart tn org s" using Cons.prems(3) by simp
  then have "chart tn org s \<noteq> {}" by blast
  then have t: "rooted_tree (staff tn org s) (chart tn org s)"
    using Cons.prems(1) by (auto simp: world_ok_def org_ok_def)
  have b: "(m, c) \<in> below (chart tn org s)" using mc by (simp add: below_def)
  have acyc: "acyclic (below (chart tn org s))" by (rule rooted_treeD(8) [OF t])
  have "(c, m) \<notin> (below (chart tn org s))\<^sup>*"
    using b acyc by (meson acyclic_def rtrancl_into_trancl2)
  moreover have c: "c \<in> staff tn org s" by (rule rooted_treeD(2) [OF t mc])
  moreover have "c \<noteq> m" using b acyc by (auto simp: acyclic_def)
  ultimately have sub: "\<not> is_in_subtree tn s org c m" and ne: "c \<noteq> m"
    using is_in_subtree_iff [of s tn org c m] Cons.prems(1) by (simp_all add: world_ok_def)
  obtain d where d: "get_worker tn s org m = Some d" "dw_status d = Emp_Active"
    using Cons.prems(2) by (auto simp: active_worker_def split: option.splits)
  have hit: "snd (reparent_worker tn s org c (Some m) now)" unfolding reparent_worker_hits using mc by force
  obtain s1 where s1: "reparent_worker tn s org c (Some m) now = (s1, True)"
    using hit by (metis prod.collapse)
  have k: "get_worker tn s org c \<noteq> None" using c get_worker_staff [of tn s org c] by blast
  have r: "reparent tn s org c m now = Inr s1"
    unfolding reparent_def using ne sub d k s1 by simp
  have "c \<in> snd ` chart tn org s" using mc by (rule rev_image_eqI) simp
  then have "chart tn org s1 = insert (Some m, c) {q \<in> chart tn org s. snd q \<noteq> c}"
    by (rule reparent_worker_chart [of c tn org s "Some m" now, unfolded s1 fst_conv])
  also have "\<dots> = chart tn org s"
  proof -
    have "q \<in> insert (Some m, c) {q \<in> chart tn org s. snd q \<noteq> c} \<longleftrightarrow> q \<in> chart tn org s" for q
    proof (cases q)
      case (Pair a v)
      show ?thesis
      proof (cases "v = c")
        case True
        then have "(a, v) \<in> chart tn org s \<Longrightarrow> a = Some m" using rooted_treeD(4) [OF t mc, of a] by simp
        then show ?thesis using mc True Pair by auto
      qed (simp add: Pair)
    qed
    then show ?thesis by blast
  qed
  finally have ch: "chart tn org s1 = chart tn org s" .
  have "active_worker tn s1 org m"
    using Cons.prems(2) reparent_worker_status [of tn s org c "Some m" now org m, unfolded s1 fst_conv]
    by (simp add: active_worker_status)
  then obtain s' where "reparent_all tn s1 org ws m now = Inr s'" "world_ok tn s'"
      "chart tn org s' = chart tn org s1" "active_worker tn s' org m"
    using Cons.IH [OF reparent_world [OF Cons.prems(1) r]] Cons.prems(3) ch by auto
  then show ?case using r ch by simp
qed simp

lemma reassign_all_to_itself:
  assumes "\<forall>t \<in> set ts. \<exists>r \<in> set (wf_tasks s). task_at tn org (tk_id t) r \<and> tk_assigned r = Some w"
  shows "\<exists>s'. reassign_all tn s org ts w w now = Inr s'
     \<and> map (\<lambda>t. t\<lparr>tk_updated_at := 0\<rparr>) (wf_tasks s') = map (\<lambda>t. t\<lparr>tk_updated_at := 0\<rparr>) (wf_tasks s)"
  using assms
proof (induction ts arbitrary: s)
  case (Cons t ts)
  let ?p = "\<lambda>r. task_at tn org (tk_id t) r \<and> tk_assigned r = Some w"
  let ?f = "\<lambda>r. r\<lparr>tk_assigned := Some w, tk_updated_at := now\<rparr>"
  obtain s1 where hit: "reassign_task_if_held tn s org (tk_id t) w w now = (s1, True)"
    and e: "wf_tasks s1 = fst (update_where ?p ?f (wf_tasks s))"
    using Cons.prems by (auto simp: reassign_task_if_held_def Let_def split_beta)
  have "\<forall>u \<in> set ts. \<exists>r \<in> set (wf_tasks s1). task_at tn org (tk_id u) r \<and> tk_assigned r = Some w"
    unfolding e bex_update_where using Cons.prems by (auto simp: task_at_def)
  from Cons.IH [OF this] obtain s' where s': "reassign_all tn s1 org ts w w now = Inr s'"
    "map (\<lambda>t. t\<lparr>tk_updated_at := 0\<rparr>) (wf_tasks s') = map (\<lambda>t. t\<lparr>tk_updated_at := 0\<rparr>) (wf_tasks s1)"
    by blast
  have same: "tk_updated_at_update (\<lambda>_. 0) (?f r) = tk_updated_at_update (\<lambda>_. 0) r" if "?p r" for r :: org_task
    using that by (cases r) simp
  have "map (\<lambda>t. t\<lparr>tk_updated_at := 0\<rparr>) (wf_tasks s1) = map (\<lambda>t. t\<lparr>tk_updated_at := 0\<rparr>) (wf_tasks s)"
    unfolding e update_where_fst list.map_comp by (rule map_cong) (use same in \<open>simp_all only: o_apply split: if_split, blast+\<close>)
  with s' hit show ?case by auto
qed simp

text \<open>
  a worker that is offboarded, with a successor other than itself for its reports and for its
  tasks, is left with nobody that reports to it and with no task in hand.
\<close>

theorem offboarded_hands_over:
  assumes "offboard tn s x now = Inr s'"
    and "ob_reports_to x \<noteq> Some (ob_worker x)" and "ob_tasks_to x \<noteq> Some (ob_worker x)"
  shows "list_direct_reports tn s' (ob_org x) (ob_worker x) = []
    \<and> in_hand tn s' (ob_org x) (ob_worker x) = []
    \<and> (\<exists>d. get_worker tn s' (ob_org x) (ob_worker x) = Some d \<and> dw_status d = Emp_Offboarded)"
  using assms(1)
proof (rule offboard_steps)
  fix s1 s2
  assume r: "settle_reports tn s x now = Inr s1" and t: "settle_tasks tn s1 x now = Inr s2"
    and e: "set_employment tn s2 (ob_org x) (ob_worker x) Emp_Offboarded now = (s', True)"
  have "get_worker tn s2 (ob_org x) (ob_worker x) \<noteq> None"
    using e set_employment_known [of tn s2 "ob_org x" "ob_worker x" Emp_Offboarded now] by simp
  note w = set_employment_worker [OF e this]
  have "wf_edges s' = wf_edges s1" using w(3) settle_tasks_tables [OF t] by simp
  then have "list_direct_reports tn s' (ob_org x) (ob_worker x) = []"
    unfolding no_reports_iff using settle_reports_leaves [OF r assms(2)] chart_cong by blast
  moreover have "in_hand tn s' (ob_org x) (ob_worker x) = []"
    using settle_tasks_leaves [OF t assms(3)] in_hand_cong [OF w(4)] by simp
  ultimately show ?thesis using w(1) by blast
qed

lemma reparent_all_tasks:
  assumes "reparent_all tn s org ws m now = Inr s'"
  shows "wf_tasks s' = wf_tasks s"
  using assms
proof (induction ws arbitrary: s)
  case (Cons v ws)
  obtain s1 where r: "reparent tn s org v m now = Inr s1" and rest: "reparent_all tn s1 org ws m now = Inr s'"
    using Cons.prems by (auto split: sum.splits)
  have "wf_tasks s1 = wf_tasks s" using reparent_Inr [OF r] reparent_worker_tables(4) by metis
  with Cons.IH [OF rest] show ?case by simp
qed simp

lemma in_hand_ids:
  "i \<in> tk_id ` set (in_hand tn s org w) \<longleftrightarrow> (\<exists>r \<in> tk_updated_at_update (\<lambda>_. 0) ` set (wf_tasks s).
     tk_id r = i \<and> tk_tenant r = tn \<and> tk_org r = org \<and> tk_assigned r = Some w
     \<and> tk_status r \<in> set in_hand_statuses)"
  by (auto simp: image_iff in_hand_mem)

text \<open>
  the successor of an offboarded worker is not compared with the worker. An active worker that is
  not the root is offboarded although it is named as its own successor: everybody that reported to it
  still does, and every task it had in hand is still its own.
\<close>

theorem offboarded_to_itself:
  assumes "world_ok tn s" and "active_worker tn s org w" and "(None, w) \<notin> chart tn org s" and "w \<noteq> []"
  shows "\<exists>s'. offboard tn s \<lparr> ob_org = org, ob_worker = w, ob_reports_to = Some w, ob_tasks_to = Some w \<rparr> now
        = Inr s'
      \<and> set (list_direct_reports tn s' org w) = set (list_direct_reports tn s org w)
      \<and> tk_id ` set (in_hand tn s' org w) = tk_id ` set (in_hand tn s org w)
      \<and> (\<exists>d. get_worker tn s' org w = Some d \<and> dw_status d = Emp_Offboarded)"
proof -
  let ?x = "\<lparr> ob_org = org, ob_worker = w, ob_reports_to = Some w, ob_tasks_to = Some w \<rparr>"
  have truth: "truthy (Some w)" using assms(4) by (simp add: truthy_def)
  obtain d where d: "get_worker tn s org w = Some d" using assms(2) by (auto simp: active_worker_def split: option.splits)
  then have w: "w \<in> staff tn org s" using get_worker_staff [of tn s org w] by simp
  then have t: "rooted_tree (staff tn org s) (chart tn org s)" using assms(1) by (auto simp: world_ok_def org_ok_def)
  have root: "get_manager_of tn s org w \<noteq> None"
    using manager_of_tree [OF _ t w] assms(1,3) by (simp add: world_ok_def)
  obtain s1 where s1: "settle_reports tn s ?x now = Inr s1" "chart tn org s1 = chart tn org s"
    "active_worker tn s1 org w" "wf_tasks s1 = wf_tasks s"
  proof (cases "list_direct_reports tn s org w = []")
    case True
    with that [of s] assms(2) show ?thesis by (simp add: settle_reports_def)
  next
    case False
    have "\<forall>c \<in> set (list_direct_reports tn s org w). (Some w, c) \<in> chart tn org s"
      by (simp add: direct_reports_below below_def)
    from reparent_all_to_manager [OF assms(1,2) this] obtain s1 where
      s1: "reparent_all tn s org (list_direct_reports tn s org w) w now = Inr s1"
      "chart tn org s1 = chart tn org s" "active_worker tn s1 org w" by blast
    then have "settle_reports tn s ?x now = Inr s1" using False truth assms(2) by (simp add: settle_reports_def)
    with s1 reparent_all_tasks [OF s1(1)] show ?thesis by (intro that)
  qed
  obtain s2 where s2: "settle_tasks tn s1 ?x now = Inr s2"
    "tk_updated_at_update (\<lambda>_. 0) ` set (wf_tasks s2) = tk_updated_at_update (\<lambda>_. 0) ` set (wf_tasks s1)"
  proof (cases "in_hand tn s1 org w = []")
    case True
    with that [of s1] show ?thesis by (simp add: settle_tasks_def)
  next
    case False
    have "\<forall>t \<in> set (in_hand tn s1 org w). \<exists>r \<in> set (wf_tasks s1). task_at tn org (tk_id t) r \<and> tk_assigned r = Some w"
    proof
      fix u assume "u \<in> set (in_hand tn s1 org w)"
      then have "u \<in> set (wf_tasks s1)" "task_at tn org (tk_id u) u \<and> tk_assigned u = Some w"
        unfolding in_hand_mem task_at_def by blast+
      then show "\<exists>r \<in> set (wf_tasks s1). task_at tn org (tk_id u) r \<and> tk_assigned r = Some w" by blast
    qed
    from reassign_all_to_itself [OF this, of now] obtain s2 where
      s2: "reassign_all tn s1 org (in_hand tn s1 org w) w w now = Inr s2"
      "map (\<lambda>t. t\<lparr>tk_updated_at := 0\<rparr>) (wf_tasks s2) = map (\<lambda>t. t\<lparr>tk_updated_at := 0\<rparr>) (wf_tasks s1)" by blast
    then have "settle_tasks tn s1 ?x now = Inr s2" using False truth s1(3) by (simp add: settle_tasks_def)
    from that [OF this arg_cong [where f = set, OF s2(2), unfolded list.set_map]] show ?thesis .
  qed
  note tables = settle_tasks_tables [OF s2(1)]
  have "get_worker tn s2 org w = get_worker tn s1 org w" using tables by (simp add: get_worker_def)
  then have known: "get_worker tn s2 org w \<noteq> None" using s1(3) by (auto simp: active_worker_def split: option.splits)
  obtain s' where s': "set_employment tn s2 org w Emp_Offboarded now = (s', True)"
    using set_employment_known [of tn s2 org w Emp_Offboarded now] known by (metis (full_types) prod.collapse)
  note last = set_employment_worker [OF s' known]
  have "offboard tn s ?x now = Inr s'"
    unfolding offboard_def offboard_input.simps s1(1) sum.case s2(1) s' prod.case using d root by simp
  moreover have "wf_edges s' = wf_edges s1" using last(3) tables by simp
  from trans [OF chart_cong [OF this] s1(2)] have "chart tn org s' = chart tn org s" .
  then have "set (list_direct_reports tn s' org w) = set (list_direct_reports tn s org w)"
    by (auto simp: direct_reports_below)
  moreover have "tk_id ` set (in_hand tn s' org w) = tk_id ` set (in_hand tn s org w)"
  proof -
    have "i \<in> tk_id ` set (in_hand tn s' org w) \<longleftrightarrow> i \<in> tk_id ` set (in_hand tn s org w)" for i
      unfolding in_hand_ids last(4) s2(2) s1(4) ..
    then show ?thesis by blast
  qed
  ultimately show ?thesis using last(1) by blast
qed

text \<open>
  C10: from empty tables, whatever is bootstrapped, hired, moved, offboarded and absorbed, in whatever
  order and with whatever failures, the chart of every organisation with workers is a tree: every
  worker has one place, nobody is above itself, and one root is above everybody.
\<close>

theorem charts_stay_trees:
  assumes "wf_workers (og_wf s) = []" and "wf_edges (og_wf s) = []"
    and "staff tn org (og_wf (foldl (chart_step gen tn) s es)) \<noteq> {}"
  shows "rooted_tree (staff tn org (og_wf (foldl (chart_step gen tn) s es)))
      (chart tn org (og_wf (foldl (chart_step gen tn) s es)))
    \<and> (\<exists>r. (None, r) \<in> chart tn org (og_wf (foldl (chart_step gen tn) s es))
        \<and> (\<forall>w \<in> staff tn org (og_wf (foldl (chart_step gen tn) s es)).
             (r, w) \<in> (below (chart tn org (og_wf (foldl (chart_step gen tn) s es))))\<^sup>*))"
proof -
  have "world_ok tn (og_wf (foldl (chart_step gen tn) s es))"
    by (rule charts.run_invar) (rule empty_world [OF assms(1,2)])
  then have t: "rooted_tree (staff tn org (og_wf (foldl (chart_step gen tn) s es)))
      (chart tn org (og_wf (foldl (chart_step gen tn) s es)))"
    using assms(3) by (auto simp: world_ok_def org_ok_def)
  with rooted_treeD(7) [OF t] tree_reaches [OF t] show ?thesis by blast
qed

text \<open>
  C12: the search that guards a new manager answers exactly whether the manager is below the worker:
  its bound on the number of turns never ends it too early.
\<close>

theorem subtree_search_complete:
  assumes "world_ok tn s" and "w \<in> staff tn org s"
  shows "is_in_subtree tn s org w m \<longleftrightarrow> (w, m) \<in> (below (chart tn org s))\<^sup>*"
  using is_in_subtree_iff [OF _ _ assms(2)] assms(1) by (simp add: world_ok_def)

text \<open>
  C13: a list of positions passes the validation of a bootstrap exactly if its roles are distinct and
  the managers they name make them a tree with one root; the walk up the managers always ends.
\<close>

theorem validation_accepts_trees:
  "validate_structure specs = None \<longleftrightarrow>
     distinct (map ws_role specs) \<and> rooted_tree (ws_role ` set specs) (spec_pairs specs)"
  by (rule validate_structure_iff)

subsection \<open>The properties on concrete organisations\<close>

definition demo_spec :: "string \<Rightarrow> string option \<Rightarrow> worker_spec" where
  "demo_spec r m = \<lparr> ws_role = r, ws_title = r, ws_family = ''ops'', ws_seniority = Sen_Ic,
     ws_display = r, ws_persona = r, ws_manager = m, ws_edge = None \<rparr>"

definition demo_gen :: "nat \<Rightarrow> ident" where
  "demo_gen n = replicate n CHR ''i''"

definition empty_org :: org_state where
  "empty_org = \<lparr> og_wf = \<lparr> wf_workers = [], wf_edges = [], wf_tasks = [], wf_approvals = [] \<rparr>,
     og_positions = [], og_goals = [], og_reports = [], og_threads = [], og_messages = [],
     og_handoffs = [], og_escalations = [], og_learning = [], og_ids = 0 \<rparr>"

definition demo_chart :: org_state where
  "demo_chart = chart_step demo_gen ''t'' empty_org (Chart_Found ''o''
     [demo_spec ''ceo'' None, demo_spec ''lead'' (Some ''ceo''), demo_spec ''dev'' (Some ''lead'')] 1)"

lemma demo_chart_world: "world_ok ''t'' (og_wf demo_chart)"
  unfolding demo_chart_def by (rule chart_step_world) (simp add: empty_world empty_org_def)

theorem charts_stay_trees_witness:
  "rooted_tree (staff ''t'' ''o'' (og_wf demo_chart)) (chart ''t'' ''o'' (og_wf demo_chart))"
proof -
  have "list_workers ''t'' (og_wf demo_chart) ''o'' \<noteq> []" by code_simp
  then have "staff ''t'' ''o'' (og_wf (foldl (chart_step demo_gen ''t'') empty_org [Chart_Found ''o''
     [demo_spec ''ceo'' None, demo_spec ''lead'' (Some ''ceo''), demo_spec ''dev'' (Some ''lead'')] 1])) \<noteq> {}"
    by (simp add: no_workers_iff demo_chart_def)
  from charts_stay_trees [OF _ _ this] show ?thesis by (simp add: empty_org_def demo_chart_def)
qed

theorem subtree_search_witness:
  "is_in_subtree ''t'' (og_wf demo_chart) ''o'' ''iii'' ''iiiii''
   \<and> (''iii'', ''iiiii'') \<in> (below (chart ''t'' ''o'' (og_wf demo_chart)))\<^sup>*"
proof -
  have "''iii'' \<in> staff ''t'' ''o'' (og_wf demo_chart)" unfolding staff_list_workers by code_simp
  from subtree_search_complete [OF demo_chart_world this, of "''iiiii''"]
  have "is_in_subtree ''t'' (og_wf demo_chart) ''o'' ''iii'' ''iiiii''
     = ((''iii'', ''iiiii'') \<in> (below (chart ''t'' ''o'' (og_wf demo_chart)))\<^sup>*)" .
  moreover have "is_in_subtree ''t'' (og_wf demo_chart) ''o'' ''iii'' ''iiiii''" by code_simp
  ultimately show ?thesis by simp
qed

theorem offboarded_hands_over_witness:
  "\<exists>s'. offboard ''t'' (og_wf demo_chart) \<lparr> ob_org = ''o'', ob_worker = ''iii'', ob_reports_to = Some ''i'',
      ob_tasks_to = None \<rparr> 2 = Inr s' \<and> list_direct_reports ''t'' s' ''o'' ''iii'' = []"
proof -
  let ?x = "\<lparr> ob_org = ''o'', ob_worker = ''iii'', ob_reports_to = Some ''i'', ob_tasks_to = None \<rparr>"
  have "(case offboard ''t'' (og_wf demo_chart) ?x 2 of Inl e \<Rightarrow> False | Inr f \<Rightarrow> True)" by code_simp
  then obtain s' where s': "offboard ''t'' (og_wf demo_chart) ?x 2 = Inr s'" by (auto split: sum.splits)
  from offboarded_hands_over [OF s'] show ?thesis using s' by simp
qed

theorem offboarded_to_itself_witness:
  "\<exists>s'. offboard ''t'' (og_wf demo_chart) \<lparr> ob_org = ''o'', ob_worker = ''iii'', ob_reports_to = Some ''iii'',
      ob_tasks_to = Some ''iii'' \<rparr> 2 = Inr s'
     \<and> set (list_direct_reports ''t'' s' ''o'' ''iii'') = set (list_direct_reports ''t'' (og_wf demo_chart) ''o'' ''iii'')"
proof -
  have "active_worker ''t'' (og_wf demo_chart) ''o'' ''iii''" by code_simp
  moreover have "(None, ''iii'') \<notin> chart ''t'' ''o'' (og_wf demo_chart)"
  proof -
    have "list_all (\<lambda>e. re_manager e \<noteq> None \<or> re_report e \<noteq> ''iii'') (wf_edges (og_wf demo_chart))" by code_simp
    then show ?thesis by (auto simp: chart_mem list_all_iff)
  qed
  ultimately show ?thesis using offboarded_to_itself [OF demo_chart_world, of "''o''" "''iii''" 2] by blast
qed

end
