(* ===== verification/Org_Collaboration.thy ===== *)
theory Org_Collaboration
  imports Org_Chart
begin

text \<open>
  How the workers of an organisation work together: handing a task over
  (\<^verbatim>\<open>src/workforce/handoff-service.ts\<close>), asking up the chart for help
  (\<^verbatim>\<open>src/workforce/escalation-service.ts\<close>) and messages in threads
  (\<^verbatim>\<open>src/workforce/agent-communication-service.ts\<close>). An operation gives the new state and an error or
  a value; one that runs in a transaction leaves the tables as they were when it fails. The clock is
  read once per operation.
\<close>

definition next_id :: "(nat \<Rightarrow> ident) \<Rightarrow> org_state \<Rightarrow> ident" where
  "next_id gen s = gen (og_ids s)"

definition used_id :: "org_state \<Rightarrow> org_state" where
  "used_id s = s\<lparr>og_ids := Suc (og_ids s)\<rparr>"

text \<open>The writes of a failed transaction are undone; its identifiers are not handed out again.\<close>

definition undone :: "org_state \<Rightarrow> org_state \<Rightarrow> org_state" where
  "undone s s' = s\<lparr>og_ids := og_ids s'\<rparr>"

subsection \<open>Handoffs\<close>

datatype handoff_error =
    Hand_Itself
  | Hand_No_Task ident
  | Hand_Not_Holder
  | Hand_No_Recipient ident
  | Hand_Unknown ident
  | Hand_Answered handoff_status
  | Hand_Wrong_Recipient
  | Hand_Wrong_Proposer
  | Hand_Lost_Race
  | Hand_Stale
  | Hand_Constraint

definition handoff_row ::
  "ident \<Rightarrow> ident \<Rightarrow> ident \<Rightarrow> ident \<Rightarrow> ident \<Rightarrow> ident \<Rightarrow> string option \<Rightarrow> millis \<Rightarrow> org_handoff" where
  "handoff_row tn org i task a b reason now =
     \<lparr> ho_id = i, ho_tenant = tn, ho_org = org, ho_task = task, ho_from = a, ho_to = b,
       ho_reason = or_default reason [], ho_status = Hand_Proposed, ho_created_at = now,
       ho_responded_at = None \<rparr>"

definition propose_handoff ::
  "(nat \<Rightarrow> ident) \<Rightarrow> ident \<Rightarrow> org_state \<Rightarrow> ident \<Rightarrow> ident \<Rightarrow> ident \<Rightarrow> ident \<Rightarrow> string option \<Rightarrow> millis
     \<Rightarrow> org_state \<times> (handoff_error + org_handoff)" where
  "propose_handoff gen tn s org task a b reason now =
     (if a = b then (s, Inl Hand_Itself)
      else case get_task tn (og_wf s) org task of
        None \<Rightarrow> (s, Inl (Hand_No_Task task))
      | Some t \<Rightarrow>
          if tk_assigned t \<noteq> Some a then (s, Inl Hand_Not_Holder)
          else if get_worker tn (og_wf s) org b = None then (s, Inl (Hand_No_Recipient b))
          else let h = handoff_row tn org (next_id gen s) task a b reason now in
            case insert_handoff h (used_id s) of
              None \<Rightarrow> (used_id s, Inl Hand_Constraint)
            | Some s' \<Rightarrow> (s', Inr h))"

definition require_proposed :: "ident \<Rightarrow> org_state \<Rightarrow> ident \<Rightarrow> ident \<Rightarrow> handoff_error + org_handoff" where
  "require_proposed tn s org i =
     (case get_handoff tn s org i of
        None \<Rightarrow> Inl (Hand_Unknown i)
      | Some h \<Rightarrow> if ho_status h \<noteq> Hand_Proposed then Inl (Hand_Answered (ho_status h)) else Inr h)"

definition accept_handoff ::
  "ident \<Rightarrow> org_state \<Rightarrow> ident \<Rightarrow> ident \<Rightarrow> ident \<Rightarrow> millis \<Rightarrow> handoff_error + org_state" where
  "accept_handoff tn s org i who now =
     (case require_proposed tn s org i of
        Inl e \<Rightarrow> Inl e
      | Inr h \<Rightarrow>
          if who \<noteq> ho_to h then Inl Hand_Wrong_Recipient
          else case transition_handoff_if_proposed tn s org i Hand_Accepted now of
            (s1, ok) \<Rightarrow>
              if \<not> ok then Inl Hand_Lost_Race
              else case reassign_task_if_held tn (og_wf s1) org (ho_task h) (ho_from h) (ho_to h) now of
                (f, held) \<Rightarrow> if held then Inr (s1\<lparr>og_wf := f\<rparr>) else Inl Hand_Stale)"

definition reject_handoff ::
  "ident \<Rightarrow> org_state \<Rightarrow> ident \<Rightarrow> ident \<Rightarrow> ident \<Rightarrow> millis \<Rightarrow> handoff_error + org_state" where
  "reject_handoff tn s org i who now =
     (case require_proposed tn s org i of
        Inl e \<Rightarrow> Inl e
      | Inr h \<Rightarrow>
          if who \<noteq> ho_to h then Inl Hand_Wrong_Recipient
          else case transition_handoff_if_proposed tn s org i Hand_Rejected now of
            (s1, ok) \<Rightarrow> if ok then Inr s1 else Inl Hand_Lost_Race)"

definition cancel_handoff ::
  "ident \<Rightarrow> org_state \<Rightarrow> ident \<Rightarrow> ident \<Rightarrow> ident \<Rightarrow> millis \<Rightarrow> handoff_error + org_state" where
  "cancel_handoff tn s org i who now =
     (case require_proposed tn s org i of
        Inl e \<Rightarrow> Inl e
      | Inr h \<Rightarrow>
          if who \<noteq> ho_from h then Inl Hand_Wrong_Proposer
          else case transition_handoff_if_proposed tn s org i Hand_Cancelled now of
            (s1, ok) \<Rightarrow> if ok then Inr s1 else Inl Hand_Lost_Race)"

subsection \<open>Escalations\<close>

definition max_depth :: nat where
  "max_depth = 16"

datatype escalation_error =
    Esc_No_Task ident
  | Esc_Not_Holder
  | Esc_No_Reason
  | Esc_No_Manager
  | Esc_Unknown ident
  | Esc_Decided escalation_status
  | Esc_Wrong_Decider
  | Esc_No_Resolution
  | Esc_Too_Deep
  | Esc_Top
  | Esc_Wrong_Raiser
  | Esc_Lost_Race
  | Esc_Constraint

definition escalation_row ::
  "ident \<Rightarrow> ident \<Rightarrow> ident \<Rightarrow> ident \<Rightarrow> ident \<Rightarrow> ident \<Rightarrow> ident option \<Rightarrow> nat \<Rightarrow> string \<Rightarrow> ident option \<Rightarrow> millis
     \<Rightarrow> org_escalation" where
  "escalation_row tn org i task a b parent d reason corr now =
     \<lparr> es_id = i, es_tenant = tn, es_org = org, es_task = task, es_from = a, es_to = b, es_parent = parent,
       es_depth = d, es_status = Esc_Pending, es_reason = reason, es_resolution = None,
       es_correlation = corr, es_created_at = now, es_decided_at = None \<rparr>"

definition create_escalation ::
  "(nat \<Rightarrow> ident) \<Rightarrow> ident \<Rightarrow> org_state \<Rightarrow> ident \<Rightarrow> ident \<Rightarrow> ident \<Rightarrow> ident \<Rightarrow> ident option \<Rightarrow> nat \<Rightarrow> string
     \<Rightarrow> ident option \<Rightarrow> millis \<Rightarrow> org_state \<times> (escalation_error + org_escalation)" where
  "create_escalation gen tn s org task a b parent d reason corr now =
     (let e = escalation_row tn org (next_id gen s) task a b parent d reason corr now in
      case insert_escalation e (used_id s) of
        None \<Rightarrow> (used_id s, Inl Esc_Constraint)
      | Some s' \<Rightarrow> (s', Inr e))"

definition raise_escalation ::
  "(nat \<Rightarrow> ident) \<Rightarrow> ident \<Rightarrow> org_state \<Rightarrow> ident \<Rightarrow> ident \<Rightarrow> ident \<Rightarrow> string \<Rightarrow> ident option \<Rightarrow> millis
     \<Rightarrow> org_state \<times> (escalation_error + org_escalation)" where
  "raise_escalation gen tn s org task a reason corr now =
     (case get_task tn (og_wf s) org task of
        None \<Rightarrow> (s, Inl (Esc_No_Task task))
      | Some t \<Rightarrow>
          if tk_assigned t \<noteq> Some a then (s, Inl Esc_Not_Holder)
          else if js_trim reason = [] then (s, Inl Esc_No_Reason)
          else let m = get_manager_of tn (og_wf s) org a in
            if \<not> truthy m then (s, Inl Esc_No_Manager)
            else create_escalation gen tn s org task a (the m) None 0 reason corr now)"

definition require_pending_escalation :: "ident \<Rightarrow> org_state \<Rightarrow> ident \<Rightarrow> ident \<Rightarrow> escalation_error + org_escalation" where
  "require_pending_escalation tn s org i =
     (case get_escalation tn s org i of
        None \<Rightarrow> Inl (Esc_Unknown i)
      | Some e \<Rightarrow> if es_status e \<noteq> Esc_Pending then Inl (Esc_Decided (es_status e)) else Inr e)"

definition resolve_escalation ::
  "ident \<Rightarrow> org_state \<Rightarrow> ident \<Rightarrow> ident \<Rightarrow> ident \<Rightarrow> string \<Rightarrow> millis \<Rightarrow> escalation_error + org_state" where
  "resolve_escalation tn s org i who text now =
     (case require_pending_escalation tn s org i of
        Inl e \<Rightarrow> Inl e
      | Inr e \<Rightarrow>
          if who \<noteq> es_to e then Inl Esc_Wrong_Decider
          else if js_trim text = [] then Inl Esc_No_Resolution
          else case transition_escalation_if_pending tn s org i Esc_Resolved (Some text) now of
            (s', ok) \<Rightarrow> if ok then Inr s' else Inl Esc_Lost_Race)"

definition reescalate ::
  "(nat \<Rightarrow> ident) \<Rightarrow> ident \<Rightarrow> org_state \<Rightarrow> ident \<Rightarrow> ident \<Rightarrow> ident \<Rightarrow> string \<Rightarrow> millis
     \<Rightarrow> org_state \<times> (escalation_error + org_escalation)" where
  "reescalate gen tn s org i who reason now =
     (case require_pending_escalation tn s org i of
        Inl x \<Rightarrow> (s, Inl x)
      | Inr e \<Rightarrow>
          if who \<noteq> es_to e then (s, Inl Esc_Wrong_Decider)
          else if js_trim reason = [] then (s, Inl Esc_No_Reason)
          else if es_depth e + 1 > max_depth then (s, Inl Esc_Too_Deep)
          else let m = get_manager_of tn (og_wf s) org who in
            if \<not> truthy m then (s, Inl Esc_Top)
            else case transition_escalation_if_pending tn s org i Esc_Reescalated None now of
              (s1, ok) \<Rightarrow>
                if \<not> ok then (s, Inl Esc_Lost_Race)
                else case create_escalation gen tn s1 org (es_task e) who (the m) (Some (es_id e))
                            (es_depth e + 1) reason (es_correlation e) now of
                  (s2, Inl x) \<Rightarrow> (undone s s2, Inl x)
                | (s2, Inr e') \<Rightarrow> (s2, Inr e'))"

definition cancel_escalation ::
  "ident \<Rightarrow> org_state \<Rightarrow> ident \<Rightarrow> ident \<Rightarrow> ident \<Rightarrow> millis \<Rightarrow> escalation_error + org_state" where
  "cancel_escalation tn s org i who now =
     (case require_pending_escalation tn s org i of
        Inl e \<Rightarrow> Inl e
      | Inr e \<Rightarrow>
          if who \<noteq> es_from e then Inl Esc_Wrong_Raiser
          else case transition_escalation_if_pending tn s org i Esc_Cancelled None now of
            (s', ok) \<Rightarrow> if ok then Inr s' else Inl Esc_Lost_Race)"

subsection \<open>Messages\<close>

definition high_governance :: "message_type list" where
  "high_governance = [Msg_Request, Msg_Report, Msg_Escalation]"

datatype collab_error =
    Collab_No_Worker ident
  | Collab_No_Task ident
  | Collab_No_Goal ident
  | Collab_No_Thread ident
  | Collab_Closed
  | Collab_Empty
  | Collab_Untraceable message_type
  | Collab_Constraint

definition open_thread ::
  "(nat \<Rightarrow> ident) \<Rightarrow> ident \<Rightarrow> org_state \<Rightarrow> ident \<Rightarrow> thread_type \<Rightarrow> ident \<Rightarrow> ident option \<Rightarrow> ident option \<Rightarrow> millis
     \<Rightarrow> org_state \<times> (collab_error + org_thread)" where
  "open_thread gen tn s org k w goal task now =
     (if get_worker tn (og_wf s) org w = None then (s, Inl (Collab_No_Worker w))
      else if task \<noteq> None \<and> get_task tn (og_wf s) org (the task) = None
      then (s, Inl (Collab_No_Task (the task)))
      else if goal \<noteq> None \<and> get_goal tn s org (the goal) = None
      then (s, Inl (Collab_No_Goal (the goal)))
      else let t = \<lparr> th_id = next_id gen s, th_tenant = tn, th_org = org, th_type = k, th_goal = goal,
                     th_task = task, th_creator = w, th_status = Thread_Open, th_created_at = now,
                     th_updated_at = now \<rparr>
        in case insert_thread t (used_id s) of
             None \<Rightarrow> (used_id s, Inl Collab_Constraint)
           | Some s' \<Rightarrow> (s', Inr t))"

definition untraceable :: "org_thread \<Rightarrow> message_type \<Rightarrow> ident option \<Rightarrow> bool" where
  "untraceable t k corr \<longleftrightarrow>
     List.member high_governance k \<and> or_default corr [] = [] \<and> th_task t = None \<and> th_goal t = None"

definition send_message ::
  "(nat \<Rightarrow> ident) \<Rightarrow> ident \<Rightarrow> org_state \<Rightarrow> ident \<Rightarrow> ident \<Rightarrow> ident \<Rightarrow> ident option \<Rightarrow> message_type \<Rightarrow> string
     \<Rightarrow> ident option \<Rightarrow> millis \<Rightarrow> org_state \<times> (collab_error + org_message)" where
  "send_message gen tn s org thread a b k text corr now =
     (case get_thread tn s org thread of
        None \<Rightarrow> (s, Inl (Collab_No_Thread thread))
      | Some t \<Rightarrow>
          if th_status t \<noteq> Thread_Open then (s, Inl Collab_Closed)
          else if get_worker tn (og_wf s) org a = None then (s, Inl (Collab_No_Worker a))
          else if b \<noteq> None \<and> get_worker tn (og_wf s) org (the b) = None
          then (s, Inl (Collab_No_Worker (the b)))
          else if js_trim text = [] then (s, Inl Collab_Empty)
          else if untraceable t k corr then (s, Inl (Collab_Untraceable k))
          else let m = \<lparr> mg_id = next_id gen s, mg_tenant = tn, mg_org = org, mg_thread = thread,
                         mg_from = a, mg_to = b, mg_type = k, mg_content = text,
                         mg_correlation = corr, mg_created_at = now \<rparr>
            in case insert_message m (used_id s) of
                 None \<Rightarrow> (used_id s, Inl Collab_Constraint)
               | Some s' \<Rightarrow> (s', Inr m))"

definition close_thread ::
  "ident \<Rightarrow> org_state \<Rightarrow> ident \<Rightarrow> ident \<Rightarrow> millis \<Rightarrow> collab_error + org_state" where
  "close_thread tn s org thread now =
     (case get_thread tn s org thread of
        None \<Rightarrow> Inl (Collab_No_Thread thread)
      | Some t \<Rightarrow> Inr (set_thread_status tn s org thread Thread_Closed now))"

subsection \<open>A handoff is answered once\<close>

datatype handoff_event =
    Hev_Propose ident ident ident ident "string option" millis
  | Hev_Accept ident ident ident millis
  | Hev_Reject ident ident ident millis
  | Hev_Cancel ident ident ident millis

definition answer :: "org_state \<Rightarrow> handoff_error + org_state \<Rightarrow> org_state \<times> bool" where
  "answer s r = (case r of Inl e \<Rightarrow> (s, False) | Inr s' \<Rightarrow> (s', True))"

fun handoff_step :: "(nat \<Rightarrow> ident) \<Rightarrow> ident \<Rightarrow> handoff_event \<Rightarrow> org_state \<Rightarrow> org_state \<times> bool" where
  "handoff_step gen tn (Hev_Propose org task a b reason now) s =
     (fst (propose_handoff gen tn s org task a b reason now), False)"
| "handoff_step gen tn (Hev_Accept org i who now) s = answer s (accept_handoff tn s org i who now)"
| "handoff_step gen tn (Hev_Reject org i who now) s = answer s (reject_handoff tn s org i who now)"
| "handoff_step gen tn (Hev_Cancel org i who now) s = answer s (cancel_handoff tn s org i who now)"

fun handoff_key :: "handoff_event \<Rightarrow> ident \<times> ident" where
  "handoff_key (Hev_Propose org task a b reason now) = (org, task)"
| "handoff_key (Hev_Accept org i who now) = (org, i)"
| "handoff_key (Hev_Reject org i who now) = (org, i)"
| "handoff_key (Hev_Cancel org i who now) = (org, i)"

definition unanswered :: "ident \<Rightarrow> org_state \<Rightarrow> ident \<times> ident \<Rightarrow> bool" where
  "unanswered tn s k \<longleftrightarrow>
     (\<forall>r \<in> set (og_handoffs s). handoff_at tn (fst k) (snd k) r \<longrightarrow> ho_status r = Hand_Proposed)"

definition handoffs_keyed :: "org_state \<Rightarrow> bool" where
  "handoffs_keyed s \<longleftrightarrow> distinct (map ho_id (og_handoffs s))"

lemma insert_handoff_Some:
  "insert_handoff h s = Some s' \<Longrightarrow>
   (\<forall>q \<in> set (og_handoffs s). ho_id q \<noteq> ho_id h) \<and> s' = s\<lparr>og_handoffs := og_handoffs s @ [h]\<rparr>"
  by (auto simp: insert_handoff_def list_ex_iff split: if_splits)

lemma used_undone_simps [simp]:
  "og_wf (used_id s) = og_wf s" "og_handoffs (used_id s) = og_handoffs s"
  "og_escalations (used_id s) = og_escalations s" "og_threads (used_id s) = og_threads s"
  "og_messages (used_id s) = og_messages s" "og_goals (used_id s) = og_goals s"
  "og_reports (used_id s) = og_reports s"
  "og_wf (undone s t) = og_wf s" "og_handoffs (undone s t) = og_handoffs s"
  "og_escalations (undone s t) = og_escalations s" "og_threads (undone s t) = og_threads s"
  "og_messages (undone s t) = og_messages s" "og_goals (undone s t) = og_goals s"
  "og_reports (undone s t) = og_reports s"
  by (simp_all add: used_id_def undone_def)

lemma propose_handoffs:
  "og_handoffs (fst (propose_handoff gen tn s org task a b reason now)) = og_handoffs s
   \<or> (\<exists>h. og_handoffs (fst (propose_handoff gen tn s org task a b reason now)) = og_handoffs s @ [h]
        \<and> ho_status h = Hand_Proposed \<and> (\<forall>q \<in> set (og_handoffs s). ho_id q \<noteq> ho_id h))"
  by (auto simp: propose_handoff_def Let_def handoff_row_def dest!: insert_handoff_Some split: option.split)

lemma transition_handoff_fields:
  "og_handoffs (fst (transition_handoff_if_proposed tn s org i st now))
     = fst (update_where (\<lambda>r. handoff_at tn org i r \<and> ho_status r = Hand_Proposed)
         (\<lambda>r. r\<lparr>ho_status := st, ho_responded_at := Some now\<rparr>) (og_handoffs s))"
  "og_wf (fst (transition_handoff_if_proposed tn s org i st now)) = og_wf s"
  "snd (transition_handoff_if_proposed tn s org i st now)
     \<longleftrightarrow> (\<exists>r \<in> set (og_handoffs s). handoff_at tn org i r \<and> ho_status r = Hand_Proposed)"
  by (simp_all add: transition_handoff_if_proposed_def Let_def split_beta)

lemma require_proposed_Inr:
  "require_proposed tn s org i = Inr h \<Longrightarrow>
   get_handoff tn s org i = Some h \<and> h \<in> set (og_handoffs s) \<and> handoff_at tn org i h \<and> ho_status h = Hand_Proposed"
  by (auto simp: require_proposed_def get_handoff_def dest: select_one_SomeD split: option.splits if_splits)

text \<open>Each of the three answers transitions the handoff and may move the task.\<close>

lemma accept_Inr:
  assumes "accept_handoff tn s org i who now = Inr s'"
  obtains h s1 where "require_proposed tn s org i = Inr h" "who = ho_to h"
    "transition_handoff_if_proposed tn s org i Hand_Accepted now = (s1, True)"
    "reassign_task_if_held tn (og_wf s) org (ho_task h) (ho_from h) (ho_to h) now = (og_wf s', True)"
    "og_handoffs s' = og_handoffs s1"
  using assms transition_handoff_fields(2) [of tn s org i Hand_Accepted now]
  by (auto simp: accept_handoff_def split: sum.splits if_splits prod.splits)

lemma answer_Inr:
  assumes "handoff_step gen tn e s = (s', True)"
  shows "\<exists>st s1 h now. require_proposed tn s (fst (handoff_key e)) (snd (handoff_key e)) = Inr h
    \<and> st \<noteq> Hand_Proposed
    \<and> transition_handoff_if_proposed tn s (fst (handoff_key e)) (snd (handoff_key e)) st now = (s1, True)
    \<and> og_handoffs s' = og_handoffs s1"
proof (cases e)
  case (Hev_Accept org i who now)
  then have "accept_handoff tn s org i who now = Inr s'" using assms by (auto simp: answer_def split: sum.splits)
  then show ?thesis using Hev_Accept by (elim accept_Inr) auto
next
  case (Hev_Reject org i who now)
  then show ?thesis using assms
    by (auto simp: answer_def reject_handoff_def split: sum.splits if_splits prod.splits)
next
  case (Hev_Cancel org i who now)
  then show ?thesis using assms
    by (auto simp: answer_def cancel_handoff_def split: sum.splits if_splits prod.splits)
qed (use assms in simp)

lemma handoff_step_lost:
  assumes "handoff_step gen tn e s = (s', False)"
  shows "s' = s \<or> (\<exists>org task a b reason now. s' = fst (propose_handoff gen tn s org task a b reason now))"
proof (cases e)
  case (Hev_Propose org task a b reason now)
  then have "s' = fst (propose_handoff gen tn s org task a b reason now)" using assms by simp
  then show ?thesis by blast
qed (use assms in \<open>auto simp: answer_def split: sum.splits\<close>)

lemma handoff_step_handoffs:
  assumes "handoff_step gen tn e s = (s', ok)"
  shows "\<exists>p f. (\<forall>r. p r \<longrightarrow> ho_status r = Hand_Proposed)
      \<and> (\<forall>r. ho_id (f r) = ho_id r \<and> ho_org (f r) = ho_org r \<and> ho_tenant (f r) = ho_tenant r)
      \<and> (og_handoffs s' = fst (update_where p f (og_handoffs s))
       \<or> (\<exists>h. og_handoffs s' = og_handoffs s @ [h] \<and> ho_status h = Hand_Proposed
            \<and> (\<forall>q \<in> set (og_handoffs s). ho_id q \<noteq> ho_id h)))"
proof (cases ok)
  case True
  then have "handoff_step gen tn e s = (s', True)" using assms by simp
  from answer_Inr [OF this] obtain st s1 now where
    "transition_handoff_if_proposed tn s (fst (handoff_key e)) (snd (handoff_key e)) st now = (s1, True)"
    "og_handoffs s' = og_handoffs s1" by blast
  then have "og_handoffs s' = fst (update_where
      (\<lambda>r. handoff_at tn (fst (handoff_key e)) (snd (handoff_key e)) r \<and> ho_status r = Hand_Proposed)
      (\<lambda>r. r\<lparr>ho_status := st, ho_responded_at := Some now\<rparr>) (og_handoffs s))"
    using transition_handoff_fields(1) [of tn s "fst (handoff_key e)" "snd (handoff_key e)" st now] by simp
  then show ?thesis
    by (intro exI [of _ "\<lambda>r. handoff_at tn (fst (handoff_key e)) (snd (handoff_key e)) r \<and> ho_status r = Hand_Proposed"]
        exI [of _ "\<lambda>r. r\<lparr>ho_status := st, ho_responded_at := Some now\<rparr>"]) simp
next
  case False
  then have "og_handoffs s' = og_handoffs s \<or> (\<exists>h. og_handoffs s' = og_handoffs s @ [h]
      \<and> ho_status h = Hand_Proposed \<and> (\<forall>q \<in> set (og_handoffs s). ho_id q \<noteq> ho_id h))"
  proof -
    have "handoff_step gen tn e s = (s', False)" using assms False by simp
    from handoff_step_lost [OF this] show ?thesis
    proof (elim disjE exE)
      fix org task a b reason now
      assume "s' = fst (propose_handoff gen tn s org task a b reason now)"
      then show ?thesis using propose_handoffs [of gen tn s org task a b reason now] by blast
    qed blast
  qed
  then show ?thesis
    by (intro exI [of _ "\<lambda>r. False"] exI [of _ "\<lambda>r. r"]) (simp add: update_where_def)
qed

lemma handoffs_keyed_step: "handoffs_keyed s \<Longrightarrow> handoffs_keyed (fst (handoff_step gen tn e s))"
proof -
  assume k: "handoffs_keyed s"
  obtain s' ok where e: "handoff_step gen tn e s = (s', ok)" by fastforce
  from handoff_step_handoffs [OF this] obtain p f where
    f: "\<forall>r. ho_id (f r) = ho_id r" and o: "og_handoffs s' = fst (update_where p f (og_handoffs s))
       \<or> (\<exists>h. og_handoffs s' = og_handoffs s @ [h] \<and> (\<forall>q \<in> set (og_handoffs s). ho_id q \<noteq> ho_id h))"
    by blast
  have "map ho_id (fst (update_where p f (og_handoffs s))) = map ho_id (og_handoffs s)"
    using f by (simp add: update_where_fst cong: map_cong)
  then have "og_handoffs s' = fst (update_where p f (og_handoffs s)) \<Longrightarrow> ?thesis"
    using k e by (simp add: handoffs_keyed_def)
  moreover have ?thesis
    if "og_handoffs s' = og_handoffs s @ [h]" "\<forall>q \<in> set (og_handoffs s). ho_id q \<noteq> ho_id h" for h
  proof -
    have "ho_id h \<notin> ho_id ` set (og_handoffs s)" using that(2) by (metis imageE)
    then show ?thesis using k e that(1) by (simp add: handoffs_keyed_def)
  qed
  ultimately show ?thesis using o by blast
qed

lemma answered_stays:
  assumes "\<not> unanswered tn s k"
  shows "\<not> unanswered tn (fst (handoff_step gen tn e s)) k"
proof -
  obtain r where r: "r \<in> set (og_handoffs s)" "handoff_at tn (fst k) (snd k) r" "ho_status r \<noteq> Hand_Proposed"
    using assms by (auto simp: unanswered_def)
  obtain s' ok where e: "handoff_step gen tn e s = (s', ok)" by fastforce
  from handoff_step_handoffs [OF this] obtain p f where
    p: "\<forall>r. p r \<longrightarrow> ho_status r = Hand_Proposed" and o: "og_handoffs s' = fst (update_where p f (og_handoffs s))
       \<or> (\<exists>h. og_handoffs s' = og_handoffs s @ [h])"
    by blast
  have "\<exists>q \<in> set (fst (update_where p f (og_handoffs s))). handoff_at tn (fst k) (snd k) q \<and> ho_status q \<noteq> Hand_Proposed"
    unfolding bex_update_where using r p by blast
  with o r have "\<exists>q \<in> set (og_handoffs s'). handoff_at tn (fst k) (snd k) q \<and> ho_status q \<noteq> Hand_Proposed"
    by fastforce
  then show ?thesis unfolding e fst_conv unanswered_def by blast
qed

lemma keyed_unique:
  "handoffs_keyed s \<Longrightarrow> q \<in> set (og_handoffs s) \<Longrightarrow> r \<in> set (og_handoffs s) \<Longrightarrow> ho_id q = ho_id r \<Longrightarrow> q = r"
  by (auto simp: handoffs_keyed_def distinct_map dest: inj_onD)

interpretation handoff_shot:
  guarded_one_shot "handoff_step gen tn" handoff_key "unanswered tn" "\<lambda>e k. False" handoffs_keyed
  for gen tn
proof
  fix a :: handoff_event and s :: org_state and k
  assume k: "handoffs_keyed s"
  show "handoffs_keyed (fst (handoff_step gen tn a s))" by (rule handoffs_keyed_step [OF k])
  show "\<not> unanswered tn (fst (handoff_step gen tn a s)) k" if "\<not> unanswered tn s k"
    by (rule answered_stays [OF that])
  assume won: "snd (handoff_step gen tn a s)"
  then obtain s' where s': "handoff_step gen tn a s = (s', True)" by (metis (full_types) prod.collapse)
  from answer_Inr [OF this] obtain st s1 h now where
    h: "require_proposed tn s (fst (handoff_key a)) (snd (handoff_key a)) = Inr h" and st: "st \<noteq> Hand_Proposed"
    and tr: "transition_handoff_if_proposed tn s (fst (handoff_key a)) (snd (handoff_key a)) st now = (s1, True)"
    and o: "og_handoffs s' = og_handoffs s1" by blast
  note hh = require_proposed_Inr [OF h]
  show "unanswered tn s (handoff_key a)"
    unfolding unanswered_def
  proof (intro ballI impI)
    fix r assume "r \<in> set (og_handoffs s)" "handoff_at tn (fst (handoff_key a)) (snd (handoff_key a)) r"
    then have "r = h" using keyed_unique [OF k] hh by (simp add: handoff_at_def)
    then show "ho_status r = Hand_Proposed" using hh by simp
  qed
  have "\<exists>r \<in> set (og_handoffs s'). handoff_at tn (fst (handoff_key a)) (snd (handoff_key a)) r \<and> ho_status r \<noteq> Hand_Proposed"
    unfolding o transition_handoff_fields(1) [of tn s "fst (handoff_key a)" "snd (handoff_key a)" st now,
        unfolded tr fst_conv] bex_update_where
    using hh st by (intro bexI [of _ h]) (simp_all add: handoff_at_def)
  then show "\<not> unanswered tn (fst (handoff_step gen tn a s)) (handoff_key a)"
    unfolding s' fst_conv unanswered_def by blast
qed

lemma reassign_held:
  assumes "reassign_task_if_held tn f org i a b now = (g, ok)"
  shows "ok \<longleftrightarrow> (\<exists>r \<in> set (wf_tasks f). task_at tn org i r \<and> tk_assigned r = Some a)"
    and "wf_tasks g = fst (update_where (\<lambda>r. task_at tn org i r \<and> tk_assigned r = Some a)
        (\<lambda>r. r\<lparr>tk_assigned := Some b, tk_updated_at := now\<rparr>) (wf_tasks f))"
proof -
  have "snd (reassign_task_if_held tn f org i a b now)
      \<longleftrightarrow> (\<exists>r \<in> set (wf_tasks f). task_at tn org i r \<and> tk_assigned r = Some a)"
    "wf_tasks (fst (reassign_task_if_held tn f org i a b now))
      = fst (update_where (\<lambda>r. task_at tn org i r \<and> tk_assigned r = Some a)
        (\<lambda>r. r\<lparr>tk_assigned := Some b, tk_updated_at := now\<rparr>) (wf_tasks f))"
    by (simp_all add: reassign_task_if_held_def Let_def split_beta)
  then show "ok \<longleftrightarrow> (\<exists>r \<in> set (wf_tasks f). task_at tn org i r \<and> tk_assigned r = Some a)"
    and "wf_tasks g = fst (update_where (\<lambda>r. task_at tn org i r \<and> tk_assigned r = Some a)
        (\<lambda>r. r\<lparr>tk_assigned := Some b, tk_updated_at := now\<rparr>) (wf_tasks f))"
    unfolding assms fst_conv snd_conv .
qed

lemma moved_task_not_held:
  assumes "a \<noteq> b" and "reassign_task_if_held tn f org i a b now = (g, True)"
  shows "\<not> (\<exists>r \<in> set (wf_tasks g). task_at tn org i r \<and> tk_assigned r = Some a)"
  unfolding reassign_held(2) [OF assms(2)] bex_update_where using assms(1) by (simp add: task_at_def)

text \<open>
  of several handoffs by which the same worker offered the same task, one moves it: the recipient
  it names becomes its holder, and from then on nobody can accept any of the others.
\<close>

theorem accepted_handoff_is_final:
  assumes "distinct (map tk_id (wf_tasks (og_wf s)))"
    and "get_handoff tn s org i = Some h" and "ho_from h \<noteq> ho_to h"
    and "accept_handoff tn s org i who now = Inr s'"
    and "get_handoff tn s' org j = Some h'" and "ho_task h' = ho_task h" and "ho_from h' = ho_from h"
  shows "who = ho_to h
    \<and> (\<exists>t. get_task tn (og_wf s') org (ho_task h) = Some t \<and> tk_assigned t = Some (ho_to h))
    \<and> (\<exists>e. accept_handoff tn s' org j who' now' = Inl e)"
  using assms(4)
proof (rule accept_Inr)
  fix k s1
  assume k: "require_proposed tn s org i = Inr k" and who: "who = ho_to k"
    and re: "reassign_task_if_held tn (og_wf s) org (ho_task k) (ho_from k) (ho_to k) now = (og_wf s', True)"
  have kh: "k = h" using require_proposed_Inr [OF k] assms(2) by simp
  note re = re [unfolded kh]
  obtain t where t: "t \<in> set (wf_tasks (og_wf s))" "task_at tn org (ho_task h) t" "tk_assigned t = Some (ho_from h)"
    using reassign_held(1) [OF re] by blast
  let ?t = "t\<lparr>tk_assigned := Some (ho_to h), tk_updated_at := now\<rparr>"
  have "get_task tn (og_wf s) org (ho_task h) = Some t"
    unfolding get_task_def using t(2) by (intro select_one_unique [OF assms(1) t(1)]) (simp_all add: task_at_def)
  then have "get_task tn (og_wf s') org (ho_task h) = Some ?t"
    unfolding get_task_def reassign_held(2) [OF re] using t(2,3)
    by (subst select_one_update_where) (simp_all add: task_at_def)
  moreover have "accept_handoff tn s' org j who' now' \<noteq> Inr s2" for s2
  proof
    assume "accept_handoff tn s' org j who' now' = Inr s2"
    then show False
    proof (rule accept_Inr)
      fix k' s3
      assume k': "require_proposed tn s' org j = Inr k'"
        and re': "reassign_task_if_held tn (og_wf s') org (ho_task k') (ho_from k') (ho_to k') now' = (og_wf s2, True)"
      have "k' = h'" using require_proposed_Inr [OF k'] assms(5) by simp
      then show False
        using reassign_held(1) [OF re'] moved_task_not_held [OF assms(3) re] assms(6,7) by simp
    qed
  qed
  then have "\<exists>e. accept_handoff tn s' org j who' now' = Inl e"
    by (cases "accept_handoff tn s' org j who' now'") auto
  ultimately show ?thesis using who kh by auto
qed

text \<open>
  a handoff is answered at most once, by whomever and however: of all accepts, rejections and
  cancellations of it, interleaved with anything else on handoffs, one succeeds at most.
\<close>

theorem handoff_answered_once:
  assumes "handoffs_keyed s"
  shows "wins handoff_key (org, i) es (snd (run_attempts (handoff_step gen tn) es s)) \<le> 1"
proof -
  have "wins handoff_key (org, i) es (snd (run_attempts (handoff_step gen tn) es s))
      \<le> (if unanswered tn s (org, i) then 1 else 0)"
    by (rule handoff_shot.guarded_at_most_one_win [OF assms]) simp
  then show ?thesis by (simp split: if_splits)
qed

subsection \<open>Escalations are chains\<close>

datatype escalation_event =
    Eev_Raise ident ident ident string "ident option" millis
  | Eev_Resolve ident ident ident string millis
  | Eev_Again ident ident ident string millis
  | Eev_Cancel ident ident ident millis

fun escalation_step :: "(nat \<Rightarrow> ident) \<Rightarrow> ident \<Rightarrow> org_state \<Rightarrow> escalation_event \<Rightarrow> org_state" where
  "escalation_step gen tn s (Eev_Raise org task a reason corr now) =
     fst (raise_escalation gen tn s org task a reason corr now)"
| "escalation_step gen tn s (Eev_Resolve org i who text now) =
     (case resolve_escalation tn s org i who text now of Inl e \<Rightarrow> s | Inr s' \<Rightarrow> s')"
| "escalation_step gen tn s (Eev_Again org i who reason now) = fst (reescalate gen tn s org i who reason now)"
| "escalation_step gen tn s (Eev_Cancel org i who now) =
     (case cancel_escalation tn s org i who now of Inl e \<Rightarrow> s | Inr s' \<Rightarrow> s')"

text \<open>The link of an escalation to the one it continues.\<close>

definition continues :: "org_escalation \<Rightarrow> org_escalation \<Rightarrow> bool" where
  "continues e r \<longleftrightarrow> es_parent e = Some (es_id r) \<and> es_depth e = Suc (es_depth r) \<and> es_task e = es_task r
     \<and> es_tenant e = es_tenant r \<and> es_org e = es_org r \<and> es_from e = es_to r"

definition chains_ok :: "org_escalation list \<Rightarrow> bool" where
  "chains_ok es \<longleftrightarrow> distinct (map es_id es)
     \<and> (\<forall>e \<in> set es. es_depth e \<le> max_depth)
     \<and> (\<forall>e \<in> set es. es_parent e = None \<longleftrightarrow> es_depth e = 0)
     \<and> (\<forall>e \<in> set es. es_parent e \<noteq> None \<longrightarrow> (\<exists>r \<in> set es. continues e r \<and> es_status r = Esc_Reescalated))
     \<and> (\<forall>r \<in> set es. es_status r = Esc_Reescalated \<longrightarrow> (\<exists>e \<in> set es. es_parent e = Some (es_id r)))
     \<and> (\<forall>e \<in> set es. \<forall>f \<in> set es. es_parent e = es_parent f \<and> es_parent e \<noteq> None \<longrightarrow> e = f)"

definition same_link :: "org_escalation \<Rightarrow> org_escalation \<Rightarrow> bool" where
  "same_link e f \<longleftrightarrow> es_id f = es_id e \<and> es_parent f = es_parent e \<and> es_depth f = es_depth e
     \<and> es_task f = es_task e \<and> es_tenant f = es_tenant e \<and> es_org f = es_org e \<and> es_from f = es_from e
     \<and> es_to f = es_to e"

lemma same_link_continues: "same_link e e' \<Longrightarrow> same_link r r' \<Longrightarrow> continues e' r' = continues e r"
  by (simp add: same_link_def continues_def)

lemma chains_okD:
  assumes "chains_ok es"
  shows "e \<in> set es \<Longrightarrow> es_depth e \<le> max_depth" and "e \<in> set es \<Longrightarrow> es_parent e = None \<longleftrightarrow> es_depth e = 0"
    and "e \<in> set es \<Longrightarrow> es_parent e \<noteq> None \<Longrightarrow> \<exists>r \<in> set es. continues e r \<and> es_status r = Esc_Reescalated"
    and "r \<in> set es \<Longrightarrow> es_status r = Esc_Reescalated \<Longrightarrow> \<exists>e \<in> set es. es_parent e = Some (es_id r)"
    and "e \<in> set es \<Longrightarrow> f \<in> set es \<Longrightarrow> es_parent e = es_parent f \<Longrightarrow> es_parent e \<noteq> None \<Longrightarrow> e = f"
    and "e \<in> set es \<Longrightarrow> f \<in> set es \<Longrightarrow> es_id e = es_id f \<Longrightarrow> e = f"
  using assms unfolding chains_ok_def by (blast, blast, blast, blast, blast, metis distinct_map inj_onD)

text \<open>Rows change their status but not their links, and a row that becomes continued has its one successor.\<close>

lemma chains_step:
  assumes ok: "chains_ok es" and g: "\<And>r. same_link r (g r)"
    and keep: "\<And>r. r \<in> set es \<Longrightarrow> es_status r = Esc_Reescalated \<Longrightarrow> es_status (g r) = Esc_Reescalated"
    and cont: "\<And>r. r \<in> set es \<Longrightarrow> es_status (g r) = Esc_Reescalated \<Longrightarrow>
        es_status r = Esc_Reescalated \<or> (\<exists>c \<in> set new. es_parent c = Some (es_id r))"
    and new: "new = [] \<or> (\<exists>c. new = [c])"
    and c1: "\<And>c. c \<in> set new \<Longrightarrow> es_id c \<notin> es_id ` set es \<and> es_depth c \<le> max_depth
        \<and> (es_parent c = None \<longleftrightarrow> es_depth c = 0) \<and> es_status c = Esc_Pending"
    and c2: "\<And>c. c \<in> set new \<Longrightarrow> es_parent c \<noteq> None \<Longrightarrow>
        \<exists>r \<in> set es. continues c r \<and> es_status (g r) = Esc_Reescalated \<and> es_status r \<noteq> Esc_Reescalated"
  shows "chains_ok (map g es @ new)"
proof -
  have gcol: "es_id (g r) = es_id r" "es_parent (g r) = es_parent r" "es_depth (g r) = es_depth r" for r
    using g [of r] by (simp_all add: same_link_def)
  have ids: "map es_id (map g es) = map es_id es" by (simp add: gcol)
  have "distinct (map es_id (map g es @ new))"
  proof -
    have "distinct (map es_id es)" using ok by (simp add: chains_ok_def)
    moreover have "distinct (map es_id new)" using new by auto
    moreover have "es_id ` set es \<inter> es_id ` set new = {}"
    proof -
      have "i \<notin> es_id ` set es" if "i \<in> es_id ` set new" for i using that c1 by (metis imageE)
      then show ?thesis by blast
    qed
    ultimately show ?thesis unfolding map_append ids by simp
  qed
  moreover have "es_depth e \<le> max_depth \<and> (es_parent e = None \<longleftrightarrow> es_depth e = 0)"
    if e: "e \<in> set (map g es @ new)" for e
  proof (cases "e \<in> set new")
    case True
    then show ?thesis using c1 by blast
  next
    case False
    then obtain e0 where e0: "e0 \<in> set es" "e = g e0" using e by auto
    show ?thesis unfolding e0(2) gcol using chains_okD(1,2) [OF ok e0(1)] by blast
  qed
  moreover have "\<exists>r \<in> set (map g es @ new). continues e r \<and> es_status r = Esc_Reescalated"
    if e: "e \<in> set (map g es @ new)" "es_parent e \<noteq> None" for e
  proof (cases "e \<in> set new")
    case True
    from c2 [OF this e(2)] obtain r where r: "r \<in> set es" "continues e r" "es_status (g r) = Esc_Reescalated"
      by blast
    have "same_link e e" by (simp add: same_link_def)
    then have "continues e (g r)" using same_link_continues [OF _ g] r(2) by blast
    then show ?thesis using r(1,3) by (intro bexI [of _ "g r"]) simp_all
  next
    case False
    then obtain e0 where e0: "e0 \<in> set es" "e = g e0" using e(1) by auto
    then obtain r where "r \<in> set es" "continues e0 r" "es_status r = Esc_Reescalated"
      using chains_okD(3) [OF ok e0(1)] e(2) gcol(2) by auto
    then show ?thesis using keep same_link_continues [OF g g] e0(2) by (intro bexI [of _ "g r"]) auto
  qed
  moreover have "\<exists>e \<in> set (map g es @ new). es_parent e = Some (es_id r)"
    if r: "r \<in> set (map g es @ new)" "es_status r = Esc_Reescalated" for r
  proof -
    have "r \<notin> set new" using c1 r(2) by fastforce
    then obtain r0 where r0: "r0 \<in> set es" "r = g r0" using r(1) by auto
    from cont [OF r0(1)] r(2) r0(2)
    consider "es_status r0 = Esc_Reescalated" | c where "c \<in> set new" "es_parent c = Some (es_id r0)" by blast
    then show ?thesis
    proof cases
      case 1
      then obtain e where "e \<in> set es" "es_parent e = Some (es_id r0)" using chains_okD(4) [OF ok r0(1)] by blast
      then show ?thesis using r0(2) gcol by (intro bexI [of _ "g e"]) auto
    next
      case 2
      then show ?thesis using r0(2) gcol by auto
    qed
  qed
  moreover have "e = f" if ef: "e \<in> set (map g es @ new)" "f \<in> set (map g es @ new)"
    "es_parent e = es_parent f" "es_parent e \<noteq> None" for e f
  proof -
    have mixed: False if m: "e0 \<in> set es" "c \<in> set new" "es_parent e0 = es_parent c" "es_parent c \<noteq> None" for e0 c
    proof -
      obtain r where r: "r \<in> set es" "continues c r" "es_status r \<noteq> Esc_Reescalated" using c2 [OF m(2,4)] by blast
      obtain q where q: "q \<in> set es" "continues e0 q" "es_status q = Esc_Reescalated"
        using chains_okD(3) [OF ok m(1)] m(3,4) by auto
      have "es_id q = es_id r" using r(2) q(2) m(3) by (simp add: continues_def)
      then show False using chains_okD(6) [OF ok q(1) r(1)] q(3) r(3) by simp
    qed
    show ?thesis
    proof (cases "e \<in> set new"; cases "f \<in> set new")
      assume "e \<in> set new" "f \<in> set new"
      then show ?thesis using new by auto
    next
      assume en: "e \<in> set new" and fn: "f \<notin> set new"
      then obtain f0 where "f0 \<in> set es" "f = g f0" using ef(2) by auto
      then show ?thesis using mixed [of f0 e] en ef(3,4) gcol by simp
    next
      assume en: "e \<notin> set new" and fn: "f \<in> set new"
      then obtain e0 where "e0 \<in> set es" "e = g e0" using ef(1) by auto
      then show ?thesis using mixed [of e0 f] fn ef(3,4) gcol by simp
    next
      assume "e \<notin> set new" "f \<notin> set new"
      then obtain e0 f0 where "e0 \<in> set es" "e = g e0" "f0 \<in> set es" "f = g f0" using ef(1,2) by auto
      then show ?thesis using chains_okD(5) [OF ok] ef(3,4) gcol by auto
    qed
  qed
  ultimately show ?thesis unfolding chains_ok_def by blast
qed

definition decided :: "ident \<Rightarrow> ident \<Rightarrow> ident \<Rightarrow> escalation_status \<Rightarrow> string option \<Rightarrow> millis \<Rightarrow> org_escalation \<Rightarrow> org_escalation" where
  "decided tn org i st text now r =
     (if escalation_at tn org i r \<and> es_status r = Esc_Pending
      then r\<lparr>es_status := st, es_resolution := text, es_decided_at := Some now\<rparr> else r)"

lemma transition_escalations:
  "og_escalations (fst (transition_escalation_if_pending tn s org i st text now))
     = map (decided tn org i st text now) (og_escalations s)"
  by (simp add: transition_escalation_if_pending_def Let_def split_beta update_where_fst decided_def)

lemma decided_link [simp]: "same_link r (decided tn org i st text now r)"
  by (simp add: decided_def same_link_def)

lemma decided_status:
  "es_status (decided tn org i st text now r)
     = (if escalation_at tn org i r \<and> es_status r = Esc_Pending then st else es_status r)"
  by (simp add: decided_def)

lemma insert_escalation_Some:
  "insert_escalation e s = Some s' \<Longrightarrow>
   es_id e \<notin> es_id ` set (og_escalations s) \<and> og_escalations s' = og_escalations s @ [e]"
  by (auto simp: insert_escalation_def list_ex_iff split: if_splits)

lemma require_pending_escalation_Inr:
  "require_pending_escalation tn s org i = Inr e \<Longrightarrow>
   e \<in> set (og_escalations s) \<and> escalation_at tn org i e \<and> es_status e = Esc_Pending"
  by (auto simp: require_pending_escalation_def get_escalation_def dest: select_one_SomeD split: option.splits if_splits)

lemma create_Inr:
  assumes "create_escalation gen tn s org task a b parent d reason corr now = (s', Inr e)"
  shows "es_id e \<notin> es_id ` set (og_escalations s)" and "og_escalations s' = og_escalations s @ [e]"
    and "\<exists>i. e = escalation_row tn org i task a b parent d reason corr now"
  using assms by (auto simp: create_escalation_def Let_def dest!: insert_escalation_Some split: option.splits)

lemma create_Inl:
  "create_escalation gen tn s org task a b parent d reason corr now = (s', Inl e)
     \<Longrightarrow> og_escalations s' = og_escalations s"
  by (auto simp: create_escalation_def Let_def split: option.splits)

lemma raise_chains:
  assumes ok: "chains_ok (og_escalations s)"
  shows "chains_ok (og_escalations (fst (raise_escalation gen tn s org task a reason corr now)))"
proof -
  let ?m = "get_manager_of tn (og_wf s) org a"
  let ?c = "create_escalation gen tn s org task a (the ?m) None 0 reason corr now"
  have "og_escalations (fst (raise_escalation gen tn s org task a reason corr now)) = og_escalations s
      \<or> raise_escalation gen tn s org task a reason corr now = ?c"
    unfolding raise_escalation_def Let_def by (simp split: option.split)
  then consider "og_escalations (fst (raise_escalation gen tn s org task a reason corr now)) = og_escalations s"
    | s' e b where "raise_escalation gen tn s org task a reason corr now = (s', Inr e)"
      "create_escalation gen tn s org task a b None 0 reason corr now = (s', Inr e)"
  proof (elim disjE, goal_cases)
    case 1
    then show ?case by blast
  next
    case 2
    obtain s' r where c: "?c = (s', r)" by fastforce
    show ?case
    proof (cases r)
      case (Inl x)
      then show ?thesis using 2 c create_Inl [of gen tn s org task a "the ?m" None 0 reason corr now s' x] by simp
    next
      case (Inr e)
      then show ?thesis using 2 c by metis
    qed
  qed
  then show ?thesis
  proof cases
    case 2
    note c = create_Inr [OF 2(2)]
    have "chains_ok (map (\<lambda>r. r) (og_escalations s) @ [e])"
    proof (rule chains_step [OF ok])
      show "es_id c \<notin> es_id ` set (og_escalations s) \<and> es_depth c \<le> max_depth
          \<and> (es_parent c = None) = (es_depth c = 0) \<and> es_status c = Esc_Pending" if "c \<in> set [e]" for c
        using c(1,3) that by (auto simp: escalation_row_def)
      show "\<exists>r \<in> set (og_escalations s). continues c r \<and> es_status r = Esc_Reescalated \<and> es_status r \<noteq> Esc_Reescalated"
        if "c \<in> set [e]" "es_parent c \<noteq> None" for c
        using c(3) that by (auto simp: escalation_row_def)
    qed (simp_all add: same_link_def)
    then show ?thesis using 2(1) c(2) by simp
  qed (simp add: ok)
qed

lemma decide_chains:
  assumes "chains_ok es" and "st \<noteq> Esc_Reescalated"
  shows "chains_ok (map (decided tn org i st text now) es)"
proof -
  have "chains_ok (map (decided tn org i st text now) es @ [])"
    by (rule chains_step [OF assms(1)]) (use assms(2) in \<open>auto simp: decided_status split: if_splits\<close>)
  then show ?thesis by simp
qed

lemma again_Inr:
  assumes "reescalate gen tn s org i who reason now = (s', Inr e')"
  obtains e s1 m where "require_pending_escalation tn s org i = Inr e" "es_depth e + 1 \<le> max_depth" "who = es_to e"
    "transition_escalation_if_pending tn s org i Esc_Reescalated None now = (s1, True)"
    "create_escalation gen tn s1 org (es_task e) who m (Some (es_id e)) (es_depth e + 1) reason (es_correlation e) now
       = (s', Inr e')"
    "get_manager_of tn (og_wf s) org who = Some m"
  using assms
  by (auto simp: reescalate_def Let_def truthy_def split: sum.splits if_splits prod.splits)

lemma again_Inl:
  "reescalate gen tn s org i who reason now = (s', Inl x) \<Longrightarrow> og_escalations s' = og_escalations s"
  by (auto simp: reescalate_def Let_def split: sum.splits if_splits prod.splits)

lemma again_chains:
  assumes ok: "chains_ok (og_escalations s)" and again: "reescalate gen tn s org i who reason now = (s', Inr e')"
  shows "chains_ok (og_escalations s')"
  using again
proof (rule again_Inr)
  fix e s1 m
  assume e: "require_pending_escalation tn s org i = Inr e" and d: "es_depth e + 1 \<le> max_depth" and who: "who = es_to e"
    and tr: "transition_escalation_if_pending tn s org i Esc_Reescalated None now = (s1, True)"
    and cr: "create_escalation gen tn s1 org (es_task e) who m (Some (es_id e)) (es_depth e + 1) reason
        (es_correlation e) now = (s', Inr e')"
  let ?g = "decided tn org i Esc_Reescalated None now"
  note ee = require_pending_escalation_Inr [OF e] and c = create_Inr [OF cr]
  have s1: "og_escalations s1 = map ?g (og_escalations s)"
    using transition_escalations [of tn s org i Esc_Reescalated None now] tr by simp
  have ids: "es_id ` set (og_escalations s1) = es_id ` set (og_escalations s)"
  proof -
    have "es_id (?g r) = es_id r" for r using decided_link [of r] by (simp add: same_link_def)
    then show ?thesis unfolding s1 by (simp add: image_image)
  qed
  have cont: "continues e' e" using c(3) who ee by (auto simp: escalation_row_def continues_def escalation_at_def)
  have pend: "es_status e' = Esc_Pending" "es_depth e' = Suc (es_depth e)"
    using c(3) by (auto simp: escalation_row_def)
  have "chains_ok (map ?g (og_escalations s) @ [e'])"
  proof (rule chains_step [OF ok])
    show "es_status (?g r) = Esc_Reescalated" if "es_status r = Esc_Reescalated" for r
      using that by (simp add: decided_status)
    show "es_status r = Esc_Reescalated \<or> (\<exists>c \<in> set [e']. es_parent c = Some (es_id r))"
      if "r \<in> set (og_escalations s)" "es_status (?g r) = Esc_Reescalated" for r
    proof (cases "es_status r = Esc_Reescalated")
      case False
      then have "escalation_at tn org i r" using that(2) by (simp add: decided_status split: if_splits)
      then have "es_id r = es_id e" using ee by (simp add: escalation_at_def)
      then show ?thesis using cont by (simp add: continues_def)
    qed simp
    show "es_id c \<notin> es_id ` set (og_escalations s) \<and> es_depth c \<le> max_depth
        \<and> (es_parent c = None) = (es_depth c = 0) \<and> es_status c = Esc_Pending" if "c \<in> set [e']" for c
      using that c(1) ids d pend cont by (simp add: continues_def)
    show "\<exists>r \<in> set (og_escalations s). continues c r \<and> es_status (?g r) = Esc_Reescalated
        \<and> es_status r \<noteq> Esc_Reescalated" if "c \<in> set [e']" for c
      using that ee cont by (intro bexI [of _ e]) (simp_all add: decided_status)
  qed simp_all
  then show ?thesis using c(2) s1 by simp
qed

lemma escalation_step_chains:
  assumes ok: "chains_ok (og_escalations s)"
  shows "chains_ok (og_escalations (escalation_step gen tn s e))"
proof (cases e)
  case (Eev_Raise org task a reason corr now)
  then show ?thesis using raise_chains [OF ok] by simp
next
  case (Eev_Resolve org i who res now)
  have "chains_ok (og_escalations s')" if "resolve_escalation tn s org i who res now = Inr s'" for s'
    using that decide_chains [OF ok, of Esc_Resolved tn org i "Some res" now]
      transition_escalations [of tn s org i Esc_Resolved "Some res" now]
    by (auto simp: resolve_escalation_def split: sum.splits if_splits prod.splits)
  then show ?thesis using Eev_Resolve ok by (simp split: sum.split)
next
  case (Eev_Again org i who reason now)
  obtain s' r where r: "reescalate gen tn s org i who reason now = (s', r)" by fastforce
  then show ?thesis using Eev_Again ok again_chains [OF ok] again_Inl by (cases r) auto
next
  case (Eev_Cancel org i who now)
  have "chains_ok (og_escalations s')" if "cancel_escalation tn s org i who now = Inr s'" for s'
    using that decide_chains [OF ok, of Esc_Cancelled tn org i None now]
      transition_escalations [of tn s org i Esc_Cancelled None now]
    by (auto simp: cancel_escalation_def split: sum.splits if_splits prod.splits)
  then show ?thesis using Eev_Cancel ok by (simp split: sum.split)
qed

interpretation escalations: invariant_machine "escalation_step gen tn" "\<lambda>s. chains_ok (og_escalations s)" for gen tn
  by unfold_locales (rule escalation_step_chains)

text \<open>
  C14: whatever is raised, resolved, raised further and cancelled, the escalations of a tenant are
  chains: each is the first of its chain or continues exactly one other, one level deeper, about the
  same task and from whom that other was addressed to; an escalation has a successor exactly if it is
  marked as raised further, and never two; no chain is deeper than sixteen.
\<close>

theorem escalations_form_chains:
  assumes "og_escalations s = []"
    and "e \<in> set (og_escalations (foldl (escalation_step gen tn) s evs))"
  shows "es_depth e \<le> 16 \<and> (es_parent e = None \<longleftrightarrow> es_depth e = 0)
    \<and> (es_parent e \<noteq> None \<longrightarrow> (\<exists>r \<in> set (og_escalations (foldl (escalation_step gen tn) s evs)).
         continues e r \<and> es_status r = Esc_Reescalated))
    \<and> (es_status e = Esc_Reescalated \<longrightarrow>
         (\<exists>!c. c \<in> set (og_escalations (foldl (escalation_step gen tn) s evs)) \<and> es_parent c = Some (es_id e)))"
proof -
  let ?es = "og_escalations (foldl (escalation_step gen tn) s evs)"
  have ok: "chains_ok ?es"
    by (rule escalations.run_invar) (simp add: assms(1) chains_ok_def)
  have "\<exists>!c. c \<in> set ?es \<and> es_parent c = Some (es_id e)" if st: "es_status e = Esc_Reescalated"
  proof -
    obtain c where c: "c \<in> set ?es" "es_parent c = Some (es_id e)"
      using chains_okD(4) [OF ok assms(2) st] by blast
    have "d = c" if "d \<in> set ?es" "es_parent d = Some (es_id e)" for d
      using chains_okD(5) [OF ok that(1) c(1)] that(2) c(2) by simp
    with c show ?thesis by blast
  qed
  then show ?thesis
    using chains_okD(1-3) [OF ok assms(2)] by (simp add: max_depth_def)
qed

subsection \<open>Messages can be traced\<close>

datatype thread_event =
    Tev_Open ident thread_type ident "ident option" "ident option" millis
  | Tev_Send ident ident ident "ident option" message_type string "ident option" millis
  | Tev_Close ident ident millis

fun thread_step :: "(nat \<Rightarrow> ident) \<Rightarrow> ident \<Rightarrow> org_state \<Rightarrow> thread_event \<Rightarrow> org_state" where
  "thread_step gen tn s (Tev_Open org k w goal task now) = fst (open_thread gen tn s org k w goal task now)"
| "thread_step gen tn s (Tev_Send org thread a b k msg corr now) =
     fst (send_message gen tn s org thread a b k msg corr now)"
| "thread_step gen tn s (Tev_Close org thread now) =
     (case close_thread tn s org thread now of Inl e \<Rightarrow> s | Inr s' \<Rightarrow> s')"

text \<open>A thread names only tasks and goals that there are; a message of a governed kind has evidence.\<close>

definition thread_bound :: "org_state \<Rightarrow> org_thread \<Rightarrow> bool" where
  "thread_bound s t \<longleftrightarrow>
     (\<forall>i. th_task t = Some i \<longrightarrow> get_task (th_tenant t) (og_wf s) (th_org t) i \<noteq> None)
     \<and> (\<forall>i. th_goal t = Some i \<longrightarrow> get_goal (th_tenant t) s (th_org t) i \<noteq> None)"

definition message_traced :: "org_state \<Rightarrow> org_message \<Rightarrow> bool" where
  "message_traced s m \<longleftrightarrow> mg_type m \<in> set high_governance \<longrightarrow>
     truthy (mg_correlation m)
     \<or> (\<exists>t \<in> set (og_threads s). th_tenant t = mg_tenant m \<and> th_org t = mg_org m \<and> th_id t = mg_thread m
          \<and> (th_task t \<noteq> None \<or> th_goal t \<noteq> None))"

definition threads_ok :: "org_state \<Rightarrow> bool" where
  "threads_ok s \<longleftrightarrow> (\<forall>t \<in> set (og_threads s). thread_bound s t) \<and> (\<forall>m \<in> set (og_messages s). message_traced s m)"

lemma thread_bound_cong:
  "og_wf s' = og_wf s \<Longrightarrow> og_goals s' = og_goals s \<Longrightarrow> thread_bound s' t = thread_bound s t"
  by (simp add: thread_bound_def get_goal_def)

lemma open_thread_ok:
  assumes "threads_ok s" and "open_thread gen tn s org k w goal task now = (s', Inr t)"
  shows "threads_ok s'"
proof -
  have t: "th_tenant t = tn" "th_org t = org" "th_task t = task" "th_goal t = goal"
    and s': "og_threads s' = og_threads s @ [t]" "og_messages s' = og_messages s" "og_wf s' = og_wf s"
      "og_goals s' = og_goals s"
    and e: "task \<noteq> None \<Longrightarrow> get_task tn (og_wf s) org (the task) \<noteq> None"
      "goal \<noteq> None \<Longrightarrow> get_goal tn s org (the goal) \<noteq> None"
    using assms(2) unfolding open_thread_def insert_thread_def Let_def
    by (auto split: if_splits)
  have "thread_bound s t" using e by (auto simp: thread_bound_def t)
  then have "\<forall>t \<in> set (og_threads s'). thread_bound s' t"
    using assms(1) by (auto simp: threads_ok_def s'(1) thread_bound_cong [OF s'(3,4)])
  moreover have "\<forall>m \<in> set (og_messages s'). message_traced s' m"
    using assms(1) by (auto simp: threads_ok_def s' message_traced_def)
  ultimately show ?thesis by (simp add: threads_ok_def)
qed

lemma send_message_ok:
  assumes "threads_ok s" and "send_message gen tn s org thread a b k msg corr now = (s', Inr m)"
  shows "threads_ok s'"
proof -
  obtain t where t: "get_thread tn s org thread = Some t" "\<not> untraceable t k corr"
    and m: "mg_tenant m = tn" "mg_org m = org" "mg_thread m = thread" "mg_type m = k" "mg_correlation m = corr"
    and s': "og_threads s' = og_threads s" "og_messages s' = og_messages s @ [m]" "og_wf s' = og_wf s"
      "og_goals s' = og_goals s"
    using assms(2) unfolding send_message_def insert_message_def Let_def
    by (auto split: if_splits option.splits)
  from t(1) have "t \<in> set (og_threads s) \<and> th_tenant t = tn \<and> th_org t = org \<and> th_id t = thread"
    unfolding get_thread_def by (auto dest: select_one_SomeD)
  then have "message_traced s m"
    using t(2) by (cases corr) (auto simp: message_traced_def untraceable_def m truthy_def)
  then have "\<forall>m \<in> set (og_messages s'). message_traced s' m"
    using assms(1) by (auto simp: threads_ok_def s' message_traced_def)
  moreover have "\<forall>t \<in> set (og_threads s'). thread_bound s' t"
    using assms(1) by (simp add: threads_ok_def s'(1) thread_bound_cong [OF s'(3,4)])
  ultimately show ?thesis by (simp add: threads_ok_def)
qed

lemma close_thread_ok:
  assumes "threads_ok s" and "close_thread tn s org thread now = Inr s'"
  shows "threads_ok s'"
proof -
  let ?p = "\<lambda>r. th_tenant r = tn \<and> th_org r = org \<and> th_id r = thread"
  let ?f = "\<lambda>r. r\<lparr>th_status := Thread_Closed, th_updated_at := now\<rparr>"
  have s': "s' = set_thread_status tn s org thread Thread_Closed now"
    using assms(2) by (auto simp: close_thread_def split: option.splits)
  have cols: "og_threads s' = fst (update_where ?p ?f (og_threads s))" "og_messages s' = og_messages s"
    "og_wf s' = og_wf s" "og_goals s' = og_goals s"
    by (simp_all add: s' set_thread_status_def)
  have "\<forall>t \<in> set (og_threads s'). thread_bound s' t"
    using assms(1) unfolding cols(1) ball_update_where thread_bound_cong [OF cols(3,4)]
    by (auto simp: threads_ok_def thread_bound_def)
  moreover have "message_traced s' m" if m: "message_traced s m" for m
  proof -
    have "(\<exists>t \<in> set (og_threads s'). th_tenant t = mg_tenant m \<and> th_org t = mg_org m \<and> th_id t = mg_thread m
          \<and> (th_task t \<noteq> None \<or> th_goal t \<noteq> None))
      \<longleftrightarrow> (\<exists>t \<in> set (og_threads s). th_tenant t = mg_tenant m \<and> th_org t = mg_org m \<and> th_id t = mg_thread m
          \<and> (th_task t \<noteq> None \<or> th_goal t \<noteq> None))"
      unfolding cols(1) bex_update_where by (rule bex_cong) auto
    then show ?thesis using m by (simp only: message_traced_def)
  qed
  ultimately show ?thesis using assms(1) cols(2) by (simp add: threads_ok_def)
qed

lemma threads_ok_used: "threads_ok (used_id s) = threads_ok s"
proof -
  have "thread_bound (used_id s) t = thread_bound s t" for t by (rule thread_bound_cong) simp_all
  then show ?thesis by (simp add: threads_ok_def message_traced_def)
qed

lemma open_thread_Inl: "open_thread gen tn s org k w goal task now = (s', Inl e) \<Longrightarrow> s' = s \<or> s' = used_id s"
  by (auto simp: open_thread_def Let_def split: if_splits option.splits)

lemma send_message_Inl: "send_message gen tn s org thread a b k msg corr now = (s', Inl e) \<Longrightarrow> s' = s \<or> s' = used_id s"
  by (auto simp: send_message_def Let_def split: if_splits option.splits)

lemma thread_step_ok:
  assumes ok: "threads_ok s"
  shows "threads_ok (thread_step gen tn s e)"
proof (cases e)
  case (Tev_Open org k w goal task now)
  obtain s' r where r: "open_thread gen tn s org k w goal task now = (s', r)" by fastforce
  have "threads_ok s'"
  proof (cases r)
    case (Inl x)
    with open_thread_Inl r ok show ?thesis by (metis threads_ok_used)
  next
    case (Inr t)
    with open_thread_ok [OF ok] r show ?thesis by blast
  qed
  with Tev_Open r show ?thesis by simp
next
  case (Tev_Send org thread a b k msg corr now)
  obtain s' r where r: "send_message gen tn s org thread a b k msg corr now = (s', r)" by fastforce
  have "threads_ok s'"
  proof (cases r)
    case (Inl x)
    with send_message_Inl r ok show ?thesis by (metis threads_ok_used)
  next
    case (Inr t)
    with send_message_ok [OF ok] r show ?thesis by blast
  qed
  with Tev_Send r show ?thesis by simp
next
  case (Tev_Close org thread now)
  then show ?thesis using ok close_thread_ok [OF ok] by (simp split: sum.split)
qed

interpretation threads: invariant_machine "thread_step gen tn" threads_ok for gen tn
  by unfold_locales (rule thread_step_ok)

text \<open>
  every request, report and escalation message can be traced: it carries a correlation, or its
  thread is bound to a task or goal, and that task or goal was there when the thread was opened.
\<close>

theorem governed_messages_traced:
  assumes "og_threads s = []" and "og_messages s = []"
    and "m \<in> set (og_messages (foldl (thread_step gen tn) s evs))"
    and "mg_type m \<in> {Msg_Request, Msg_Report, Msg_Escalation}" and "\<not> truthy (mg_correlation m)"
  shows "\<exists>t \<in> set (og_threads (foldl (thread_step gen tn) s evs)).
      th_tenant t = mg_tenant m \<and> th_org t = mg_org m \<and> th_id t = mg_thread m
      \<and> ((\<exists>i. th_task t = Some i \<and> get_task (th_tenant t) (og_wf (foldl (thread_step gen tn) s evs)) (th_org t) i \<noteq> None)
         \<or> (\<exists>i. th_goal t = Some i \<and> get_goal (th_tenant t) (foldl (thread_step gen tn) s evs) (th_org t) i \<noteq> None))"
proof -
  have "threads_ok (foldl (thread_step gen tn) s evs)"
    by (rule threads.run_invar) (simp add: assms(1,2) threads_ok_def)
  then have t: "\<forall>t \<in> set (og_threads (foldl (thread_step gen tn) s evs)). thread_bound (foldl (thread_step gen tn) s evs) t"
    and m: "message_traced (foldl (thread_step gen tn) s evs) m"
    using assms(3) by (simp_all add: threads_ok_def)
  from m assms(4,5) obtain t where "t \<in> set (og_threads (foldl (thread_step gen tn) s evs))"
    "th_tenant t = mg_tenant m" "th_org t = mg_org m" "th_id t = mg_thread m" "th_task t \<noteq> None \<or> th_goal t \<noteq> None"
    by (auto simp: message_traced_def high_governance_def)
  with t show ?thesis by (intro bexI [of _ t]) (auto simp: thread_bound_def)
qed

subsection \<open>The properties on a concrete organisation\<close>

definition ex_worker :: "ident \<Rightarrow> digital_worker" where
  "ex_worker i = \<lparr> dw_tenant = ''t'', dw_org = ''o'', dw_id = i, dw_persona = i, dw_position = i,
     dw_display_name = i, dw_status = Emp_Active, dw_created_at = 0, dw_updated_at = 0 \<rparr>"

definition ex_edge :: "ident \<Rightarrow> ident option \<Rightarrow> reporting_edge" where
  "ex_edge w m = \<lparr> re_id = w, re_tenant = ''t'', re_org = ''o'', re_manager = m, re_report = w,
     re_type = Edge_Solid, re_created_at = 0 \<rparr>"

definition ex_task :: org_task where
  "ex_task = \<lparr> tk_tenant = ''t'', tk_org = ''o'', tk_id = ''k'', tk_goal = ''g'', tk_parent = None,
     tk_assigned = Some ''a'', tk_accountable = ''b'', tk_title = ''k'', tk_type = ''k'',
     tk_status = Task_Delegated, tk_risk = Risk_Low, tk_allows_tools = True, tk_criteria = [],
     tk_capabilities = [], tk_summary = None, tk_blocked = None, tk_due_at = None,
     tk_resume_count = 0, tk_last_wake = None, tk_created_at = 0, tk_updated_at = 0 \<rparr>"

definition ex_org :: org_state where
  "ex_org = \<lparr> og_wf = \<lparr> wf_workers = [ex_worker ''a'', ex_worker ''b'', ex_worker ''c''],
       wf_edges = [ex_edge ''a'' (Some ''b''), ex_edge ''b'' (Some ''c''), ex_edge ''c'' None],
       wf_tasks = [ex_task], wf_approvals = [] \<rparr>,
     og_positions = [], og_goals = [], og_reports = [], og_threads = [], og_messages = [],
     og_handoffs = [], og_escalations = [], og_learning = [], og_ids = 0 \<rparr>"

definition ex_gen :: "nat \<Rightarrow> ident" where
  "ex_gen n = replicate (Suc n) CHR ''n''"

theorem escalations_form_chains_witness:
  "\<exists>e \<in> set (og_escalations (foldl (escalation_step ex_gen ''t'') ex_org
       [Eev_Raise ''o'' ''k'' ''a'' ''stuck'' None 1, Eev_Again ''o'' ''n'' ''b'' ''stuck'' 2])).
     es_depth e = 1 \<and> es_parent e \<noteq> None"
proof -
  let ?s = "foldl (escalation_step ex_gen ''t'') ex_org
      [Eev_Raise ''o'' ''k'' ''a'' ''stuck'' None 1, Eev_Again ''o'' ''n'' ''b'' ''stuck'' 2]"
  have "list_ex (\<lambda>e. es_depth e = 1) (og_escalations ?s)" by code_simp
  then obtain e where e: "e \<in> set (og_escalations ?s)" "es_depth e = 1" by (auto simp: list_ex_iff)
  have "og_escalations ex_org = []" by (simp add: ex_org_def)
  from escalations_form_chains [OF this e(1)] e show ?thesis by (intro bexI [of _ e]) auto
qed

theorem governed_messages_traced_witness:
  "\<exists>m \<in> set (og_messages (foldl (thread_step ex_gen ''t'') ex_org
       [Tev_Open ''o'' Thread_Report ''a'' None (Some ''k'') 1,
        Tev_Send ''o'' ''n'' ''a'' (Some ''b'') Msg_Report ''done'' None 2])).
     mg_type m = Msg_Report \<and> mg_thread m = ''n''"
proof -
  let ?s = "foldl (thread_step ex_gen ''t'') ex_org [Tev_Open ''o'' Thread_Report ''a'' None (Some ''k'') 1,
        Tev_Send ''o'' ''n'' ''a'' (Some ''b'') Msg_Report ''done'' None 2]"
  have "list_ex (\<lambda>m. mg_type m = Msg_Report \<and> mg_correlation m = None \<and> mg_thread m = ''n'') (og_messages ?s)"
    by code_simp
  then obtain m where m: "m \<in> set (og_messages ?s)" "mg_type m = Msg_Report" "mg_correlation m = None"
    "mg_thread m = ''n''"
    by (auto simp: list_ex_iff)
  have "og_threads ex_org = []" "og_messages ex_org = []" by (simp_all add: ex_org_def)
  from governed_messages_traced [OF this m(1)] m show ?thesis by (auto simp: truthy_def)
qed

definition ex_offered :: org_state where
  "ex_offered = fst (run_attempts (handoff_step ex_gen ''t'')
     [Hev_Propose ''o'' ''k'' ''a'' ''b'' None 1, Hev_Propose ''o'' ''k'' ''a'' ''c'' None 2] ex_org)"

theorem accepted_handoff_is_final_witness:
  "\<exists>s' e. accept_handoff ''t'' ex_offered ''o'' ''n'' ''b'' 3 = Inr s'
     \<and> accept_handoff ''t'' s' ''o'' ''nn'' ''c'' 4 = Inl e"
proof -
  let ?h = "the (get_handoff ''t'' ex_offered ''o'' ''n'')"
  have "case accept_handoff ''t'' ex_offered ''o'' ''n'' ''b'' 3 of Inl e \<Rightarrow> False
      | Inr s' \<Rightarrow> get_handoff ''t'' s' ''o'' ''nn'' \<noteq> None
          \<and> ho_task (the (get_handoff ''t'' s' ''o'' ''nn'')) = ho_task ?h
          \<and> ho_from (the (get_handoff ''t'' s' ''o'' ''nn'')) = ho_from ?h"
    by code_simp
  then obtain s' h' where s': "accept_handoff ''t'' ex_offered ''o'' ''n'' ''b'' 3 = Inr s'"
    and h': "get_handoff ''t'' s' ''o'' ''nn'' = Some h'" "ho_task h' = ho_task ?h" "ho_from h' = ho_from ?h"
    by (auto split: sum.splits)
  have d: "distinct (map tk_id (wf_tasks (og_wf ex_offered)))" by code_simp
  have h: "get_handoff ''t'' ex_offered ''o'' ''n'' \<noteq> None \<and> ho_from ?h \<noteq> ho_to ?h" by code_simp
  then have "get_handoff ''t'' ex_offered ''o'' ''n'' = Some ?h" by simp
  from accepted_handoff_is_final [OF d this _ s' h'] h s' show ?thesis by blast
qed

theorem handoff_answered_once_witness:
  "wins handoff_key (''o'', ''n'') [Hev_Reject ''o'' ''n'' ''b'' 3, Hev_Cancel ''o'' ''n'' ''a'' 4]
     (snd (run_attempts (handoff_step ex_gen ''t'')
        [Hev_Reject ''o'' ''n'' ''b'' 3, Hev_Cancel ''o'' ''n'' ''a'' 4] ex_offered)) \<le> 1"
proof (rule handoff_answered_once)
  have "distinct (map ho_id (og_handoffs ex_offered))" by code_simp
  then show "handoffs_keyed ex_offered" by (simp add: handoffs_keyed_def)
qed

end
