(* ===== verification/Playbook_Text.thy ===== *)
theory Playbook_Text
  imports Main
begin

text \<open>
  The Chinese literals of \<^verbatim>\<open>src/workforce/decomposition-playbook.ts\<close>, byte by byte in UTF-8. Nothing
  depends on what they say.
\<close>

definition utf8 :: "nat list \<Rightarrow> string" where
  "utf8 bs = map char_of bs"

definition tx_research :: string where
  "tx_research = utf8 [
    231, 160, 148, 231, 169, 182, 228, 184, 187, 233, 162, 152, 239, 188, 154]"

definition tx_write :: string where
  "tx_write = utf8 [
    230, 146, 176, 229, 134, 153, 229, 136, 157, 231, 168, 191, 239, 188, 154]"

definition tx_review :: string where
  "tx_review = utf8 [
    229, 174, 161, 230, 160, 184, 229, 134, 133, 229, 174, 185, 239, 188, 154]"

definition tx_publish :: string where
  "tx_publish = utf8 [
    229, 135, 134, 229, 164, 135, 229, 143, 145, 229, 184, 131, 239, 188, 154]"

definition tx_research_ok :: string where
  "tx_research_ok = utf8 [
    230, 148, 182, 233, 155, 134, 229, 136, 176, 229, 143, 175, 229, 188, 149, 231, 148, 168,
     231, 154, 132, 228, 186, 139, 229, 174, 158, 228, 184, 142, 230, 157, 165, 230, 186, 144]"

definition tx_write_ok :: string where
  "tx_write_ok = utf8 [
    229, 136, 157, 231, 168, 191, 232, 166, 134, 231, 155, 150, 231, 160, 148, 231, 169, 182,
     232, 166, 129, 231, 130, 185, 227, 128, 129, 231, 187, 147, 230, 158, 132, 229, 174, 140,
     230, 149, 180]"

definition tx_review_ok :: string where
  "tx_review_ok = utf8 [
    228, 186, 139, 229, 174, 158, 47, 233, 163, 142, 230, 160, 188, 47, 229, 144, 136, 232, 167,
     132, 229, 157, 135, 233, 128, 154, 232, 191, 135, 239, 188, 140, 230, 160, 135, 230, 179,
     168, 228, 191, 174, 230, 148, 185]"

definition tx_publish_ok :: string where
  "tx_publish_ok = utf8 [
    229, 143, 145, 229, 184, 131, 230, 184, 133, 229, 141, 149, 229, 176, 177, 231, 187, 170,
     239, 188, 140, 229, 190, 133, 228, 186, 186, 231, 177, 187, 47, 228, 184, 138, 231, 186,
     167, 230, 156, 128, 231, 187, 136, 231, 161, 174, 232, 174, 164]"

definition tx_no_topic :: string where
  "tx_no_topic = utf8 [
    230, 156, 170, 229, 145, 189, 229, 144, 141, 228, 184, 187, 233, 162, 152]"

definition tx_no_ticket :: string where
  "tx_no_ticket = utf8 [
    230, 156, 170, 229, 145, 189, 229, 144, 141, 229, 183, 165, 229, 141, 149]"

definition tx_no_analysis :: string where
  "tx_no_analysis = utf8 [
    230, 156, 170, 229, 145, 189, 229, 144, 141, 229, 136, 134, 230, 158, 144]"

definition tx_triage :: string where
  "tx_triage = utf8 [
    229, 136, 134, 232, 175, 138, 229, 183, 165, 229, 141, 149, 239, 188, 154]"

definition tx_handle :: string where
  "tx_handle = utf8 [
    229, 164, 132, 231, 144, 134, 229, 183, 165, 229, 141, 149, 239, 188, 154]"

definition tx_escalate :: string where
  "tx_escalate = utf8 [
    229, 141, 135, 231, 186, 167, 229, 135, 134, 229, 164, 135, 239, 188, 154]"

definition tx_qa :: string where
  "tx_qa = utf8 [
    232, 180, 168, 230, 163, 128, 229, 183, 165, 229, 141, 149, 239, 188, 154]"

definition tx_triage_ok :: string where
  "tx_triage_ok = utf8 [
    229, 183, 165, 229, 141, 149, 229, 136, 134, 231, 177, 187, 227, 128, 129, 228, 188, 152,
     229, 133, 136, 231, 186, 167, 227, 128, 129, 230, 152, 175, 229, 144, 166, 233, 156, 128,
     229, 141, 135, 231, 186, 167, 229, 183, 178, 229, 136, 164, 229, 174, 154]"

definition tx_handle_ok :: string where
  "tx_handle_ok = utf8 [
    231, 187, 153, 229, 135, 186, 230, 150, 185, 230, 161, 136, 230, 136, 150, 232, 189, 172,
     228, 186, 164, 239, 188, 140, 232, 174, 176, 229, 189, 149, 229, 164, 132, 231, 144, 134,
     232, 191, 135, 231, 168, 139]"

definition tx_escalate_ok :: string where
  "tx_escalate_ok = utf8 [
    229, 141, 135, 231, 186, 167, 230, 157, 144, 230, 150, 153, 229, 176, 177, 231, 187, 170,
     239, 188, 140, 229, 190, 133, 228, 186, 186, 231, 177, 187, 47, 228, 184, 187, 231, 174,
     161, 230, 156, 128, 231, 187, 136, 231, 161, 174, 232, 174, 164]"

definition tx_qa_ok :: string where
  "tx_qa_ok = utf8 [
    230, 138, 189, 230, 163, 128, 229, 135, 134, 231, 161, 174, 230, 128, 167, 47, 229, 144,
     136, 232, 167, 132, 47, 228, 189, 147, 233, 170, 140, 239, 188, 140, 230, 160, 135, 230,
     179, 168, 233, 151, 174, 233, 162, 152]"

definition tx_clarify :: string where
  "tx_clarify = utf8 [
    230, 190, 132, 230, 184, 133, 233, 156, 128, 230, 177, 130, 239, 188, 154]"

definition tx_extract :: string where
  "tx_extract = utf8 [
    229, 143, 150, 230, 149, 176, 239, 188, 154]"

definition tx_analyze :: string where
  "tx_analyze = utf8 [
    229, 136, 134, 230, 158, 144, 239, 188, 154]"

definition tx_recheck :: string where
  "tx_recheck = utf8 [
    229, 164, 141, 230, 160, 184, 239, 188, 154]"

definition tx_report :: string where
  "tx_report = utf8 [
    230, 138, 165, 229, 145, 138, 239, 188, 154]"

definition tx_clarify_ok :: string where
  "tx_clarify_ok = utf8 [
    229, 136, 134, 230, 158, 144, 233, 151, 174, 233, 162, 152, 227, 128, 129, 229, 143, 163,
     229, 190, 132, 227, 128, 129, 228, 186, 164, 228, 187, 152, 229, 189, 162, 229, 188, 143,
     229, 183, 178, 230, 152, 142, 231, 161, 174]"

definition tx_extract_ok :: string where
  "tx_extract_ok = utf8 [
    230, 140, 137, 229, 143, 163, 229, 190, 132, 229, 143, 150, 229, 136, 176, 229, 143, 175,
     231, 148, 168, 230, 149, 176, 230, 141, 174, 233, 155, 134]"

definition tx_analyze_ok :: string where
  "tx_analyze_ok = utf8 [
    228, 186, 167, 229, 135, 186, 231, 187, 147, 232, 174, 186, 228, 184, 142, 232, 175, 129,
     230, 141, 174, 239, 188, 140, 230, 160, 135, 231, 189, 174, 228, 191, 161, 229, 186, 166,
     47, 229, 177, 128, 233, 153, 144]"

definition tx_recheck_ok :: string where
  "tx_recheck_ok = utf8 [
    229, 143, 163, 229, 190, 132, 47, 232, 174, 161, 231, 174, 151, 47, 231, 187, 147, 232, 174,
     186, 229, 164, 141, 230, 160, 184, 233, 128, 154, 232, 191, 135]"

definition tx_report_ok :: string where
  "tx_report_ok = utf8 [
    230, 138, 165, 229, 145, 138, 230, 184, 133, 230, 153, 176, 227, 128, 129, 233, 157, 162,
     229, 144, 145, 229, 143, 151, 228, 188, 151, 227, 128, 129, 229, 144, 171, 231, 187, 147,
     232, 174, 186, 228, 184, 142, 229, 187, 186, 232, 174, 174]"

definition tx_accuracy :: string where
  "tx_accuracy = utf8 [
    229, 135, 134, 231, 161, 174, 230, 128, 167]"

definition tx_completeness :: string where
  "tx_completeness = utf8 [
    229, 174, 140, 230, 149, 180, 230, 128, 167]"

definition tx_style :: string where
  "tx_style = utf8 [
    233, 163, 142, 230, 160, 188]"

definition tx_compliance :: string where
  "tx_compliance = utf8 [
    229, 144, 136, 232, 167, 132]"

definition tx_timeliness :: string where
  "tx_timeliness = utf8 [
    230, 151, 182, 230, 149, 136]"

definition tx_experience :: string where
  "tx_experience = utf8 [
    228, 189, 147, 233, 170, 140]"

definition tx_reproducible :: string where
  "tx_reproducible = utf8 [
    229, 143, 175, 229, 164, 141, 231, 142, 176]"

definition tx_explainable :: string where
  "tx_explainable = utf8 [
    229, 143, 175, 232, 167, 163, 233, 135, 138]"

definition tx_c1 :: string where
  "tx_c1 = utf8 [
    228, 186, 139, 229, 174, 158, 228, 184, 142, 229, 188, 149, 231, 148, 168, 230, 151, 160,
     232, 175, 175, 239, 188, 140, 228, 184, 141, 232, 135, 134, 233, 128, 160]"

definition tx_c2 :: string where
  "tx_c2 = utf8 [
    232, 166, 134, 231, 155, 150, 228, 184, 187, 233, 162, 152, 232, 166, 129, 231, 130, 185,
     239, 188, 140, 230, 151, 160, 230, 152, 142, 230, 152, 190, 233, 129, 151, 230, 188, 143]"

definition tx_c3 :: string where
  "tx_c3 = utf8 [
    232, 175, 173, 232, 168, 128, 230, 184, 133, 230, 153, 176, 227, 128, 129, 233, 157, 162,
     229, 144, 145, 231, 155, 174, 230, 160, 135, 232, 175, 187, 232, 128, 133]"

definition tx_c4 :: string where
  "tx_c4 = utf8 [
    228, 184, 141, 229, 144, 171, 230, 149, 143, 230, 132, 159, 47, 232, 182, 138, 231, 149,
     140, 229, 134, 133, 229, 174, 185, 239, 188, 140, 231, 172, 166, 229, 144, 136, 229, 143,
     145, 229, 184, 131, 232, 167, 132, 232, 140, 131]"

definition tx_s1 :: string where
  "tx_s1 = utf8 [
    233, 151, 174, 233, 162, 152, 229, 174, 154, 228, 189, 141, 230, 173, 163, 231, 161, 174,
     239, 188, 140, 230, 150, 185, 230, 161, 136, 229, 175, 185, 231, 151, 135]"

definition tx_s2 :: string where
  "tx_s2 = utf8 [
    229, 156, 168, 32, 83, 76, 65, 32, 229, 134, 133, 229, 147, 141, 229, 186, 148, 228, 184,
     142, 229, 164, 132, 231, 144, 134]"

definition tx_s3 :: string where
  "tx_s3 = utf8 [
    230, 182, 137, 232, 180, 166, 230, 136, 183, 47, 233, 128, 128, 230, 172, 190, 47, 233, 154,
     144, 231, 167, 129, 230, 140, 137, 230, 148, 191, 231, 173, 150, 232, 181, 176, 229, 141,
     135, 231, 186, 167]"

definition tx_s4 :: string where
  "tx_s4 = utf8 [
    232, 175, 173, 230, 176, 148, 228, 184, 147, 228, 184, 154, 227, 128, 129, 230, 184, 133,
     230, 153, 176, 227, 128, 129, 229, 143, 175, 230, 137, 167, 232, 161, 140]"

definition tx_d1 :: string where
  "tx_d1 = utf8 [
    229, 143, 150, 230, 149, 176, 229, 143, 163, 229, 190, 132, 230, 173, 163, 231, 161, 174,
     239, 188, 140, 232, 174, 161, 231, 174, 151, 230, 151, 160, 232, 175, 175]"

definition tx_d2 :: string where
  "tx_d2 = utf8 [
    232, 166, 134, 231, 155, 150, 233, 156, 128, 230, 177, 130, 233, 151, 174, 233, 162, 152,
     239, 188, 140, 230, 151, 160, 233, 129, 151, 230, 188, 143, 231, 187, 180, 229, 186, 166]"

definition tx_d3 :: string where
  "tx_d3 = utf8 [
    229, 143, 150, 230, 149, 176, 228, 184, 142, 229, 136, 134, 230, 158, 144, 230, 173, 165,
     233, 170, 164, 229, 143, 175, 229, 164, 141, 231, 142, 176]"

definition tx_d4 :: string where
  "tx_d4 = utf8 [
    231, 187, 147, 232, 174, 186, 230, 156, 137, 232, 175, 129, 230, 141, 174, 227, 128, 129,
     230, 156, 137, 231, 189, 174, 228, 191, 161, 229, 186, 166, 227, 128, 129, 230, 156, 137,
     229, 177, 128, 233, 153, 144]"

end
