(* ===== verification/Playbook_Registry.thy ===== *)
theory Playbook_Registry
  imports Workforce_Store Playbook_Text "HOL-Library.AList"
begin

text \<open>
  How a goal is split into tasks: the versioned rule packs (\<^verbatim>\<open>src/workforce/playbook-registry.ts\<close>) and
  the three reference packs (\<^verbatim>\<open>src/workforce/decomposition-playbook.ts\<close>). A pack carries its
  decomposition as a function; the source text of that function, which the fingerprint contains, is
  a field beside it. Versions are integers; what is no integer is refused by \<^verbatim>\<open>register\<close> at once.
\<close>

record task_spec =
  ts_role :: string
  ts_title :: string
  ts_type :: string
  ts_risk :: risk_level
  ts_tools :: bool
  ts_criteria :: string
  ts_capabilities :: "string list"
  ts_sla :: "int option"

datatype provenance = Prov_Reference | Prov_Distilled

fun provenance_text :: "provenance \<Rightarrow> string" where
  "provenance_text Prov_Reference = ''reference''"
| "provenance_text Prov_Distilled = ''distilled''"

record playbook =
  pb_type :: string
  pb_version :: int
  pb_provenance :: provenance
  pb_rubric :: "(string \<times> string) list"
  pb_source :: string
  pb_decompose :: "string \<Rightarrow> string \<Rightarrow> task_spec list"

subsection \<open>The registry\<close>

definition fingerprint_of :: "playbook \<Rightarrow> string" where
  "fingerprint_of pb =
     js_join [CHR 0x02]
       [pb_type pb, js_int_text (pb_version pb), provenance_text (pb_provenance pb),
        js_join [CHR 0x01] (map (\<lambda>(d, t). d @ [CHR 0x00] @ t) (pb_rubric pb)), pb_source pb]"

type_synonym registered_version = "playbook \<times> string"

record goal_type_versions =
  gv_by_version :: "(int \<times> registered_version) list"
  gv_active :: int

type_synonym playbook_registry = "(string \<times> goal_type_versions) list"

datatype registration_error = Version_Below_One string | Version_Differs string int

definition pb_register :: "playbook_registry \<Rightarrow> playbook \<Rightarrow> registration_error + playbook_registry" where
  "pb_register reg pb =
     (if pb_version pb < 1 then Inl (Version_Below_One (pb_type pb))
      else
        let e = (case map_of reg (pb_type pb) of
                   None \<Rightarrow> \<lparr> gv_by_version = [], gv_active = pb_version pb \<rparr> | Some e \<Rightarrow> e);
            fp = fingerprint_of pb
        in case map_of (gv_by_version e) (pb_version pb) of
             Some r \<Rightarrow> if snd r \<noteq> fp then Inl (Version_Differs (pb_type pb) (pb_version pb)) else Inr reg
           | None \<Rightarrow>
               Inr (AList.update (pb_type pb)
                 \<lparr> gv_by_version = gv_by_version e @ [(pb_version pb, (pb, fp))],
                   gv_active = (if pb_version pb > gv_active e then pb_version pb else gv_active e) \<rparr> reg))"

definition pb_get_active :: "playbook_registry \<Rightarrow> string \<Rightarrow> playbook option" where
  "pb_get_active reg g =
     (case map_of reg g of
        None \<Rightarrow> None
      | Some e \<Rightarrow> map_option fst (map_of (gv_by_version e) (gv_active e)))"

definition pb_get_version :: "playbook_registry \<Rightarrow> string \<Rightarrow> int \<Rightarrow> playbook option" where
  "pb_get_version reg g n =
     (case map_of reg g of None \<Rightarrow> None | Some e \<Rightarrow> map_option fst (map_of (gv_by_version e) n))"

definition pb_active_version :: "playbook_registry \<Rightarrow> string \<Rightarrow> int option" where
  "pb_active_version reg g = map_option gv_active (map_of reg g)"

definition pb_list_versions :: "playbook_registry \<Rightarrow> string \<Rightarrow> int list" where
  "pb_list_versions reg g =
     (case map_of reg g of None \<Rightarrow> [] | Some e \<Rightarrow> sort (map fst (gv_by_version e)))"

definition pb_goal_types :: "playbook_registry \<Rightarrow> string list" where
  "pb_goal_types reg = sort (map fst reg)"

subsection \<open>The reference packs\<close>

definition sla_2_days :: int where "sla_2_days = 2 * 24 * 60 * 60 * 1000"
definition sla_1_day :: int where "sla_1_day = 24 * 60 * 60 * 1000"
definition sla_4_hours :: int where "sla_4_hours = 4 * 60 * 60 * 1000"

definition spec_of ::
  "string \<Rightarrow> string \<Rightarrow> string \<Rightarrow> risk_level \<Rightarrow> bool \<Rightarrow> string \<Rightarrow> string list \<Rightarrow> int option \<Rightarrow> task_spec" where
  "spec_of r t k l x c q d =
     \<lparr> ts_role = r, ts_title = t, ts_type = k, ts_risk = l, ts_tools = x, ts_criteria = c,
       ts_capabilities = q, ts_sla = d \<rparr>"

definition or_text :: "string \<Rightarrow> string \<Rightarrow> string" where
  "or_text a b = (if a = [] then b else a)"

definition content_decompose :: "string \<Rightarrow> string \<Rightarrow> task_spec list" where
  "content_decompose title descr =
     (let topic = or_text (js_trim title) tx_no_topic in
      [spec_of ''researcher_ic'' (tx_research @ topic) ''research'' Risk_Low False tx_research_ok
         [''research''] None,
       spec_of ''writer_ic'' (tx_write @ topic) ''writing'' Risk_Low False tx_write_ok [''writing''] None,
       spec_of ''reviewer_ic'' (tx_review @ topic) ''review'' Risk_Medium False tx_review_ok
         [''review'', ''compliance''] None,
       spec_of ''publisher_ic'' (tx_publish @ topic) ''publish_prep'' Risk_High True tx_publish_ok
         [''publishing''] (Some sla_2_days)])"

definition content_playbook :: "string \<Rightarrow> playbook" where
  "content_playbook src =
     \<lparr> pb_type = ''content_piece'', pb_version = 1, pb_provenance = Prov_Reference,
       pb_rubric = [(tx_accuracy, tx_c1), (tx_completeness, tx_c2), (tx_style, tx_c3), (tx_compliance, tx_c4)],
       pb_source = src, pb_decompose = content_decompose \<rparr>"

definition ticket_decompose :: "string \<Rightarrow> string \<Rightarrow> task_spec list" where
  "ticket_decompose title descr =
     (let subject = or_text (js_trim title) tx_no_ticket in
      [spec_of ''triage_ic'' (tx_triage @ subject) ''triage'' Risk_Low False tx_triage_ok [''triage''] None,
       spec_of ''support_agent_ic'' (tx_handle @ subject) ''handle'' Risk_Medium False tx_handle_ok
         [''support''] None,
       spec_of ''escalation_ic'' (tx_escalate @ subject) ''escalation_prep'' Risk_High True tx_escalate_ok
         [''escalation'', ''compliance''] (Some sla_4_hours),
       spec_of ''qa_ic'' (tx_qa @ subject) ''qa'' Risk_Low False tx_qa_ok [''qa''] None])"

definition ticket_playbook :: "string \<Rightarrow> playbook" where
  "ticket_playbook src =
     \<lparr> pb_type = ''support_ticket'', pb_version = 1, pb_provenance = Prov_Reference,
       pb_rubric = [(tx_accuracy, tx_s1), (tx_timeliness, tx_s2), (tx_compliance, tx_s3), (tx_experience, tx_s4)],
       pb_source = src, pb_decompose = ticket_decompose \<rparr>"

definition analysis_decompose :: "string \<Rightarrow> string \<Rightarrow> task_spec list" where
  "analysis_decompose title descr =
     (let topic = or_text (js_trim title) tx_no_analysis in
      [spec_of ''analyst_lead_ic'' (tx_clarify @ topic) ''clarify'' Risk_Low False tx_clarify_ok
         [''requirements''] None,
       spec_of ''data_eng_ic'' (tx_extract @ topic) ''extract'' Risk_Medium True tx_extract_ok
         [''data_extraction''] (Some sla_1_day),
       spec_of ''analyst_ic'' (tx_analyze @ topic) ''analyze'' Risk_Low False tx_analyze_ok [''analysis''] None,
       spec_of ''reviewer_ic'' (tx_recheck @ topic) ''review'' Risk_Medium False tx_recheck_ok [''review''] None,
       spec_of ''reporter_ic'' (tx_report @ topic) ''report'' Risk_Low False tx_report_ok [''reporting''] None])"

definition analysis_playbook :: "string \<Rightarrow> playbook" where
  "analysis_playbook src =
     \<lparr> pb_type = ''data_analysis'', pb_version = 1, pb_provenance = Prov_Reference,
       pb_rubric = [(tx_accuracy, tx_d1), (tx_completeness, tx_d2), (tx_reproducible, tx_d3),
         (tx_explainable, tx_d4)],
       pb_source = src, pb_decompose = analysis_decompose \<rparr>"

text \<open>The source texts of the three functions are arguments: they are those of the compiled program.\<close>

definition reference_playbooks :: "string \<Rightarrow> string \<Rightarrow> string \<Rightarrow> playbook list" where
  "reference_playbooks a b c = [content_playbook a, ticket_playbook b, analysis_playbook c]"

definition register_all :: "playbook_registry \<Rightarrow> playbook list \<Rightarrow> playbook_registry" where
  "register_all = foldl (\<lambda>reg pb. case pb_register reg pb of Inl e \<Rightarrow> reg | Inr reg' \<Rightarrow> reg')"

definition default_registry :: "string \<Rightarrow> string \<Rightarrow> string \<Rightarrow> playbook_registry" where
  "default_registry a b c = register_all [] (reference_playbooks a b c)"

subsection \<open>Versions never change\<close>

definition registry_ok :: "playbook_registry \<Rightarrow> bool" where
  "registry_ok reg \<longleftrightarrow> (\<forall>g e. map_of reg g = Some e \<longrightarrow>
     gv_active e \<in> set (map fst (gv_by_version e))
     \<and> (\<forall>n \<in> set (map fst (gv_by_version e)). n \<le> gv_active e \<and> 1 \<le> n)
     \<and> (\<forall>n r. map_of (gv_by_version e) n = Some r \<longrightarrow>
          snd r = fingerprint_of (fst r) \<and> pb_type (fst r) = g \<and> pb_version (fst r) = n))"

lemma map_of_append_fresh:
  "map_of (xs @ [(k, v)]) n = (case map_of xs n of None \<Rightarrow> if n = k then Some v else None | Some w \<Rightarrow> Some w)"
  by (simp add: map_add_def split: option.split)

lemma pb_register_new:
  assumes "pb_register reg pb = Inr reg'"
  shows "reg' = reg \<or> (\<exists>e. e = (case map_of reg (pb_type pb) of
        None \<Rightarrow> \<lparr> gv_by_version = [], gv_active = pb_version pb \<rparr> | Some e \<Rightarrow> e)
      \<and> 1 \<le> pb_version pb \<and> map_of (gv_by_version e) (pb_version pb) = None
      \<and> reg' = AList.update (pb_type pb)
          \<lparr> gv_by_version = gv_by_version e @ [(pb_version pb, (pb, fingerprint_of pb))],
            gv_active = max (pb_version pb) (gv_active e) \<rparr> reg)"
  using assms
  by (auto simp: pb_register_def Let_def max_def split: if_splits option.splits)

lemma registry_okD:
  assumes "registry_ok reg" and "map_of reg g = Some e"
  shows "gv_active e \<in> set (map fst (gv_by_version e))"
    and "n \<in> set (map fst (gv_by_version e)) \<Longrightarrow> n \<le> gv_active e \<and> 1 \<le> n"
    and "map_of (gv_by_version e) n = Some r \<Longrightarrow>
      snd r = fingerprint_of (fst r) \<and> pb_type (fst r) = g \<and> pb_version (fst r) = n"
  using assms unfolding registry_ok_def by blast+

lemma pb_register_ok:
  assumes ok: "registry_ok reg" and r: "pb_register reg pb = Inr reg'"
  shows "registry_ok reg'"
  using pb_register_new [OF r]
proof (elim disjE exE conjE)
  fix e :: goal_type_versions
  let ?e = "\<lparr> gv_by_version = gv_by_version e @ [(pb_version pb, (pb, fingerprint_of pb))],
      gv_active = max (pb_version pb) (gv_active e) \<rparr>"
  assume e: "e = (case map_of reg (pb_type pb) of
        None \<Rightarrow> \<lparr> gv_by_version = [], gv_active = pb_version pb \<rparr> | Some e \<Rightarrow> e)"
    and v: "1 \<le> pb_version pb" and fresh: "map_of (gv_by_version e) (pb_version pb) = None"
    and reg': "reg' = AList.update (pb_type pb) ?e reg"
  have old: "(gv_by_version e = [] \<and> gv_active e = pb_version pb) \<or> map_of reg (pb_type pb) = Some e"
    using e by (auto split: option.splits)
  have act: "gv_active ?e \<in> set (map fst (gv_by_version ?e))"
    using old registry_okD(1) [OF ok] by (auto simp: max_def)
  have le: "n \<le> gv_active ?e \<and> 1 \<le> n" if n: "n \<in> set (map fst (gv_by_version ?e))" for n
  proof (cases "n = pb_version pb")
    case False
    then have "n \<in> set (map fst (gv_by_version e))" using n by simp
    then show ?thesis using old registry_okD(2) [OF ok, of "pb_type pb" e n] by auto
  qed (simp add: v)
  have row: "snd r = fingerprint_of (fst r) \<and> pb_type (fst r) = pb_type pb \<and> pb_version (fst r) = n"
    if n: "map_of (gv_by_version ?e) n = Some r" for n r
  proof (cases "map_of (gv_by_version e) n")
    case None
    then show ?thesis using n by (auto simp: map_of_append_fresh split: if_splits)
  next
    case (Some q)
    then have "q = r" using n by (simp add: map_of_append_fresh)
    then show ?thesis using old Some registry_okD(3) [OF ok, of "pb_type pb" e n r] by auto
  qed
  show "registry_ok reg'"
    unfolding registry_ok_def reg' update_conv'
  proof (intro allI impI)
    fix g f assume f: "((map_of reg)(pb_type pb \<mapsto> ?e)) g = Some f"
    show "gv_active f \<in> set (map fst (gv_by_version f))
        \<and> (\<forall>n \<in> set (map fst (gv_by_version f)). n \<le> gv_active f \<and> 1 \<le> n)
        \<and> (\<forall>n r. map_of (gv_by_version f) n = Some r \<longrightarrow>
             snd r = fingerprint_of (fst r) \<and> pb_type (fst r) = g \<and> pb_version (fst r) = n)"
    proof (cases "g = pb_type pb")
      case True
      then have "f = ?e" using f by simp
      then show ?thesis using act le row True by blast
    next
      case False
      then have "map_of reg g = Some f" using f by simp
      from registry_okD [OF ok this] show ?thesis by blast
    qed
  qed
qed (simp add: ok)

lemma pb_register_keeps:
  assumes r: "pb_register reg pb = Inr reg'" and v: "pb_get_version reg g n = Some p"
  shows "pb_get_version reg' g n = Some p"
  using pb_register_new [OF r]
proof (elim disjE exE conjE)
  fix e :: goal_type_versions
  assume e: "e = (case map_of reg (pb_type pb) of
        None \<Rightarrow> \<lparr> gv_by_version = [], gv_active = pb_version pb \<rparr> | Some e \<Rightarrow> e)"
    and reg': "reg' = AList.update (pb_type pb)
        \<lparr> gv_by_version = gv_by_version e @ [(pb_version pb, (pb, fingerprint_of pb))],
          gv_active = max (pb_version pb) (gv_active e) \<rparr> reg"
  show ?thesis
  proof (cases "g = pb_type pb")
    case True
    then obtain f r where f: "map_of reg (pb_type pb) = Some f" "map_of (gv_by_version f) n = Some r" "fst r = p"
      using v by (auto simp: pb_get_version_def split: option.splits)
    then show ?thesis using True e by (simp add: pb_get_version_def reg' update_conv' map_of_append_fresh)
  next
    case False
    then show ?thesis using v by (simp add: pb_get_version_def reg' update_conv')
  qed
qed (use v in simp)

definition register_step :: "playbook_registry \<Rightarrow> playbook \<Rightarrow> playbook_registry" where
  "register_step reg pb = (case pb_register reg pb of Inl e \<Rightarrow> reg | Inr reg' \<Rightarrow> reg')"

lemma register_all_step: "register_all = foldl register_step"
  by (simp add: register_all_def register_step_def [abs_def])

interpretation playbooks: invariant_machine register_step registry_ok
  by unfold_locales (auto simp: register_step_def pb_register_ok split: sum.split)

interpretation version_kept: invariant_machine register_step "\<lambda>reg. pb_get_version reg g n = Some p" for g n p
  by unfold_locales (auto simp: register_step_def pb_register_keeps split: sum.split)

text \<open>
  a version of a rule pack that was once accepted stays what it is whatever is registered later,
  and the pack in use for its goal type is one of that type with the highest version accepted.
\<close>

theorem registered_versions_final:
  assumes "pb_get_version (register_all [] ps) g n = Some p"
  shows "pb_get_version (register_all [] (ps @ qs)) g n = Some p \<and> pb_version p = n
    \<and> (\<exists>a. pb_get_active (register_all [] (ps @ qs)) g = Some a \<and> pb_type a = g
         \<and> (\<forall>m q. pb_get_version (register_all [] (ps @ qs)) g m = Some q \<longrightarrow> m \<le> pb_version a))"
proof -
  let ?reg = "register_all [] (ps @ qs)"
  have kept: "pb_get_version ?reg g n = Some p"
    unfolding register_all_step foldl_append
    by (rule version_kept.run_invar) (use assms in \<open>simp add: register_all_step\<close>)
  have ok: "registry_ok ?reg"
    unfolding register_all_step by (rule playbooks.run_invar) (simp add: registry_ok_def)
  obtain e r where e: "map_of ?reg g = Some e" "map_of (gv_by_version e) n = Some r" "fst r = p"
    using kept by (auto simp: pb_get_version_def split: option.splits)
  obtain a where a: "map_of (gv_by_version e) (gv_active e) = Some a"
    using registry_okD(1) [OF ok e(1)] by (metis map_of_eq_None_iff not_None_eq set_map)
  have "m \<le> pb_version (fst a)" if "pb_get_version ?reg g m = Some q" for m q
  proof -
    have "m \<in> set (map fst (gv_by_version e))"
      using that e(1) by (auto simp: pb_get_version_def dest: map_of_SomeD intro: rev_image_eqI split: option.splits)
    then show ?thesis using registry_okD(2) [OF ok e(1)] registry_okD(3) [OF ok e(1) a] by simp
  qed
  moreover have "pb_get_active ?reg g = Some (fst a)" using e(1) a by (simp add: pb_get_active_def)
  moreover have "pb_type (fst a) = g" "pb_version p = n"
    using registry_okD(3) [OF ok e(1) a] registry_okD(3) [OF ok e(1,2)] e(3) by simp_all
  ultimately show ?thesis using kept by blast
qed

theorem registered_versions_final_witness:
  "pb_get_version (register_all [] ([content_playbook ''src''] @ [(content_playbook ''other'')\<lparr>pb_version := 2\<rparr>]))
     ''content_piece'' 1 = Some (content_playbook ''src'')"
proof -
  have "pb_get_version (register_all [] [content_playbook ''src'']) ''content_piece'' 1 = Some (content_playbook ''src'')"
    by (simp add: register_all_def pb_register_def Let_def content_playbook_def pb_get_version_def)
  from registered_versions_final [OF this] show ?thesis by blast
qed

end
