(* ===== verification/Org_Planning.thy ===== *)
theory Org_Planning
  imports Org_Collaboration Playbook_Registry
begin

text \<open>
  Planning: a manager runs a goal (\<^verbatim>\<open>src/workforce/org-planning-service.ts\<close>) and the organisation runs
  goals on its own within limits (\<^verbatim>\<open>src/workforce/org-autorun-service.ts\<close>). The clock is read once per
  goal. The sentences of results and reports are the facts they are made of.
\<close>

record goal_request =
  gr_title :: string
  gr_description :: string
  gr_type :: string
  gr_source :: "ident option"

record goal_result =
  gx_goal :: ident
  gx_tasks :: nat
  gx_reports :: nat
  gx_summary :: report_note
  gx_steps :: nat
  gx_accountable :: nat
  gx_pending :: nat
  gx_status :: goal_status
  gx_playbook :: int

datatype plan_error =
    Plan_Unsupported string
  | Plan_No_Assignee string
  | Plan_Chart chart_error
  | Plan_Constraint

text \<open>The check before anything is written: every task has an assignee the manager may delegate to.\<close>

fun resolve_specs ::
  "ident \<Rightarrow> workforce \<Rightarrow> ident \<Rightarrow> ident \<Rightarrow> (string \<times> ident) list \<Rightarrow> task_spec list
     \<Rightarrow> plan_error + (task_spec \<times> ident) list" where
  "resolve_specs tn s org mgr roles [] = Inr []"
| "resolve_specs tn s org mgr roles (x # xs) =
     (let a = map_of roles (ts_role x) in
      if \<not> truthy a then Inl (Plan_No_Assignee (ts_role x))
      else case assert_can_delegate tn s org mgr (the a) of
        Some e \<Rightarrow> Inl (Plan_Chart e)
      | None \<Rightarrow>
          (case resolve_specs tn s org mgr roles xs of
             Inl e \<Rightarrow> Inl e | Inr rs \<Rightarrow> Inr ((x, the a) # rs)))"

definition goal_row ::
  "ident \<Rightarrow> ident \<Rightarrow> ident \<Rightarrow> ident \<Rightarrow> goal_request \<Rightarrow> int \<Rightarrow> millis \<Rightarrow> org_goal" where
  "goal_row tn org i mgr g v ts =
     \<lparr> gl_id = i, gl_tenant = tn, gl_org = org, gl_owner = mgr, gl_title = gr_title g,
       gl_description = gr_description g, gl_type = gr_type g, gl_status = Goal_Active,
       gl_playbook = v, gl_source = gr_source g, gl_created_at = ts, gl_updated_at = ts \<rparr>"

definition planned_task ::
  "ident \<Rightarrow> ident \<Rightarrow> ident \<Rightarrow> ident \<Rightarrow> task_spec \<Rightarrow> ident \<Rightarrow> ident \<Rightarrow> millis \<Rightarrow> org_task" where
  "planned_task tn org goal mgr x a i ts =
     \<lparr> tk_tenant = tn, tk_org = org, tk_id = i, tk_goal = goal, tk_parent = None, tk_assigned = Some a,
       tk_accountable = mgr, tk_title = ts_title x, tk_type = ts_type x, tk_status = Task_Delegated,
       tk_risk = ts_risk x, tk_allows_tools = ts_tools x, tk_criteria = ts_criteria x,
       tk_capabilities = ts_capabilities x, tk_summary = None, tk_blocked = None,
       tk_due_at = map_option (\<lambda>d. ts + d) (ts_sla x), tk_resume_count = 0, tk_last_wake = None,
       tk_created_at = ts, tk_updated_at = ts \<rparr>"

definition stub_result :: "task_spec \<Rightarrow> task_summary" where
  "stub_result x = Sum_Done (ts_type x) (ts_title x)"

definition report_row ::
  "ident \<Rightarrow> ident \<Rightarrow> ident \<Rightarrow> ident \<Rightarrow> ident \<Rightarrow> ident \<Rightarrow> report_type \<Rightarrow> report_note \<Rightarrow> millis \<Rightarrow> task_report" where
  "report_row tn org i task a b k n ts =
     \<lparr> rp_id = i, rp_tenant = tn, rp_org = org, rp_task = task, rp_from = a, rp_to = b, rp_type = k,
       rp_note = n, rp_created_at = ts \<rparr>"

text \<open>
  The loop over the tasks; \<open>lines\<close> are the lines of the summary so far with the identifier of their task.
\<close>

fun plan_loop ::
  "(nat \<Rightarrow> ident) \<Rightarrow> ident \<Rightarrow> ident \<Rightarrow> ident \<Rightarrow> ident \<Rightarrow> millis \<Rightarrow> (task_spec \<times> ident) list \<Rightarrow> org_state
     \<Rightarrow> (ident \<times> note_line) list \<Rightarrow> nat \<Rightarrow> nat
     \<Rightarrow> org_state \<times> (plan_error + (ident \<times> note_line) list \<times> nat \<times> nat)" where
  "plan_loop gen tn org goal mgr ts [] s lines pending steps = (s, Inr (lines, pending, steps))"
| "plan_loop gen tn org goal mgr ts ((x, a) # xs) s lines pending steps =
     (let i = next_id gen s in
      case insert_org_task (planned_task tn org goal mgr x a i ts) (used_id s) of
        None \<Rightarrow> (used_id s, Inl Plan_Constraint)
      | Some s1 \<Rightarrow>
          if ts_tools x then
            (case insert_report (report_row tn org (next_id gen s1) i a mgr Rep_Progress
                    (Note_Ready (ts_type x) (ts_title x)) ts) (used_id s1) of
               None \<Rightarrow> (used_id s1, Inl Plan_Constraint)
             | Some s2 \<Rightarrow>
                 plan_loop gen tn org goal mgr ts xs s2 (lines @ [(i, Line_Pending (ts_title x))])
                   (Suc pending) (steps + 2))
          else
            (let s2 = on_og_wf (\<lambda>f. update_task_execution tn f org i Task_Submitted
                                      (Some (stub_result x)) None ts) s1 in
             case insert_report (report_row tn org (next_id gen s2) i a mgr Rep_Final
                    (Note_Result (stub_result x)) ts) (used_id s2) of
               None \<Rightarrow> (used_id s2, Inl Plan_Constraint)
             | Some s3 \<Rightarrow>
                 plan_loop gen tn org goal mgr ts xs s3
                   (lines @ [(i, Line_Result (Some (stub_result x)))]) pending (steps + 3)))"

definition plan_body ::
  "(nat \<Rightarrow> ident) \<Rightarrow> ident \<Rightarrow> ident \<Rightarrow> ident \<Rightarrow> ident \<Rightarrow> goal_request \<Rightarrow> int \<Rightarrow> millis \<Rightarrow> (task_spec \<times> ident) list
     \<Rightarrow> org_state \<Rightarrow> org_state \<times> (plan_error + report_note \<times> nat \<times> goal_status \<times> nat)" where
  "plan_body gen tn org goal mgr g v ts xs s =
     (case insert_goal (goal_row tn org goal mgr g v ts) s of
        None \<Rightarrow> (s, Inl Plan_Constraint)
      | Some s1 \<Rightarrow>
          (case plan_loop gen tn org goal mgr ts xs s1 [] 0 1 of
             (s2, Inl e) \<Rightarrow> (s2, Inl e)
           | (s2, Inr (lines, pending, steps)) \<Rightarrow>
               let summary = Note_Summary (gr_title g) pending (map snd lines);
                   last_task = (if lines = [] then goal else fst (last lines))
               in case insert_report (report_row tn org (next_id gen s2) last_task mgr mgr Rep_Final
                         summary ts) (used_id s2) of
                    None \<Rightarrow> (used_id s2, Inl Plan_Constraint)
                  | Some s3 \<Rightarrow>
                      let st = (if pending > 0 then Goal_Active else Goal_Completed) in
                      (update_goal_status tn s3 org goal st ts, Inr (summary, pending, st, steps + 2))))"

definition run_goal ::
  "(nat \<Rightarrow> ident) \<Rightarrow> ident \<Rightarrow> playbook_registry \<Rightarrow> org_state \<Rightarrow> ident \<Rightarrow> ident \<Rightarrow> goal_request
     \<Rightarrow> (string \<times> ident) list \<Rightarrow> millis \<Rightarrow> org_state \<times> (plan_error + goal_result)" where
  "run_goal gen tn reg s org mgr g roles ts =
     (case pb_get_active reg (gr_type g) of
        None \<Rightarrow> (s, Inl (Plan_Unsupported (gr_type g)))
      | Some pb \<Rightarrow>
          (case resolve_specs tn (og_wf s) org mgr roles
                  (pb_decompose pb (gr_title g) (gr_description g)) of
             Inl e \<Rightarrow> (s, Inl e)
           | Inr xs \<Rightarrow>
               let goal = next_id gen s in
               (case plan_body gen tn org goal mgr g (pb_version pb) ts xs (used_id s) of
                  (s', Inl e) \<Rightarrow> (undone s s', Inl e)
                | (s', Inr (summary, pending, st, steps)) \<Rightarrow>
                    (s', Inr \<lparr> gx_goal = goal, gx_tasks = length xs,
                               gx_reports = length (list_reports_by_goal tn s' org goal),
                               gx_summary = summary, gx_steps = steps, gx_accountable = length xs,
                               gx_pending = pending, gx_status = st, gx_playbook = pb_version pb \<rparr>))))"

subsection \<open>Running on its own\<close>

text \<open>Limits as they come in: \<open>None\<close> is no finite number, and no known level of risk.\<close>

record autonomy_policy =
  au_max_goals :: "rat option"
  au_max_risk :: "risk_level option"

record queued_goal =
  qg_manager :: ident
  qg_title :: string
  qg_description :: string
  qg_type :: string

datatype autorun_outcome =
    Auto_Ran queued_goal goal_result
  | Auto_High_Risk queued_goal risk_level
  | Auto_Budget queued_goal
  | Auto_Unknown_Type queued_goal
  | Auto_Failed queued_goal plan_error

record autorun_result =
  ar_ran :: nat
  ar_high_risk :: nat
  ar_budget :: nat
  ar_failed :: nat
  ar_outcomes :: "autorun_outcome list"

definition autorun_budget :: "autonomy_policy \<Rightarrow> int" where
  "autorun_budget p = (case au_max_goals p of None \<Rightarrow> 0 | Some n \<Rightarrow> max 0 (floor n))"

definition autorun_ceiling :: "autonomy_policy \<Rightarrow> nat" where
  "autorun_ceiling p = risk_order (or_default (au_max_risk p) Risk_Medium)"

definition max_risk_of_specs :: "task_spec list \<Rightarrow> risk_level" where
  "max_risk_of_specs xs =
     foldl (\<lambda>m x. if risk_order (ts_risk x) > risk_order m then ts_risk x else m) Risk_Low xs"

definition max_task_risk_of :: "playbook_registry \<Rightarrow> queued_goal \<Rightarrow> risk_level option" where
  "max_task_risk_of reg q =
     map_option (\<lambda>pb. max_risk_of_specs (pb_decompose pb (qg_title q) (qg_description q)))
       (pb_get_active reg (qg_type q))"

definition queued_request :: "queued_goal \<Rightarrow> goal_request" where
  "queued_request q = \<lparr> gr_title = qg_title q, gr_description = qg_description q, gr_type = qg_type q,
     gr_source = None \<rparr>"

fun autorun_loop ::
  "(nat \<Rightarrow> ident) \<Rightarrow> ident \<Rightarrow> playbook_registry \<Rightarrow> ident \<Rightarrow> (string \<times> ident) list \<Rightarrow> int \<Rightarrow> nat \<Rightarrow> millis
     \<Rightarrow> queued_goal list \<Rightarrow> org_state \<Rightarrow> nat \<Rightarrow> autorun_outcome list \<Rightarrow> org_state \<times> nat \<times> autorun_outcome list" where
  "autorun_loop gen tn reg org roles budget max_risk ts [] s runs out = (s, runs, out)"
| "autorun_loop gen tn reg org roles budget max_risk ts (q # qs) s runs out =
     (if int runs \<ge> budget then
        autorun_loop gen tn reg org roles budget max_risk ts qs s runs (out @ [Auto_Budget q])
      else case max_task_risk_of reg q of
        None \<Rightarrow> autorun_loop gen tn reg org roles budget max_risk ts qs s runs (out @ [Auto_Unknown_Type q])
      | Some r \<Rightarrow>
          if risk_order r > max_risk then
            autorun_loop gen tn reg org roles budget max_risk ts qs s runs (out @ [Auto_High_Risk q r])
          else
            (case run_goal gen tn reg s org (qg_manager q) (queued_request q) roles ts of
               (s', Inl e) \<Rightarrow>
                 autorun_loop gen tn reg org roles budget max_risk ts qs s' runs (out @ [Auto_Failed q e])
             | (s', Inr x) \<Rightarrow>
                 autorun_loop gen tn reg org roles budget max_risk ts qs s' (Suc runs) (out @ [Auto_Ran q x])))"

fun is_high_risk :: "autorun_outcome \<Rightarrow> bool" where
  "is_high_risk (Auto_High_Risk q r) = True" | "is_high_risk _ = False"

fun is_budget :: "autorun_outcome \<Rightarrow> bool" where
  "is_budget (Auto_Budget q) = True" | "is_budget _ = False"

fun is_failed :: "autorun_outcome \<Rightarrow> bool" where
  "is_failed (Auto_Unknown_Type q) = True" | "is_failed (Auto_Failed q e) = True" | "is_failed _ = False"

definition run_cycle ::
  "(nat \<Rightarrow> ident) \<Rightarrow> ident \<Rightarrow> playbook_registry \<Rightarrow> org_state \<Rightarrow> ident \<Rightarrow> (string \<times> ident) list
     \<Rightarrow> queued_goal list \<Rightarrow> autonomy_policy \<Rightarrow> millis \<Rightarrow> org_state \<times> autorun_result" where
  "run_cycle gen tn reg s org roles queue p ts =
     (case autorun_loop gen tn reg org roles (autorun_budget p) (autorun_ceiling p) ts queue s 0 [] of
        (s', runs, out) \<Rightarrow>
          (s', \<lparr> ar_ran = runs, ar_high_risk = length (filter is_high_risk out),
                 ar_budget = length (filter is_budget out), ar_failed = length (filter is_failed out),
                 ar_outcomes = out \<rparr>))"

subsection \<open>What a goal writes\<close>

lemma resolve_specs_Inr:
  "resolve_specs tn s org mgr roles xs = Inr rs \<Longrightarrow> map fst rs = xs
     \<and> (\<forall>(x, a) \<in> set rs. a \<noteq> mgr \<and> a \<in> set (list_direct_reports tn s org mgr))"
proof (induction xs arbitrary: rs)
  case (Cons x xs)
  obtain a rs' where a: "map_of roles (ts_role x) = Some a"
    "assert_can_delegate tn s org mgr a = None" "resolve_specs tn s org mgr roles xs = Inr rs'" "rs = (x, a) # rs'"
    using Cons.prems by (auto simp: Let_def truthy_def split: if_splits option.splits sum.splits)
  moreover have "a \<noteq> mgr \<and> a \<in> set (list_direct_reports tn s org mgr)"
    using a(2) by (auto simp: assert_can_delegate_def split: if_splits)
  ultimately show ?case using Cons.IH [OF a(3)] by simp
qed simp

definition planned_as ::
  "ident \<Rightarrow> ident \<Rightarrow> ident \<Rightarrow> ident \<Rightarrow> millis \<Rightarrow> task_spec \<times> ident \<Rightarrow> org_task \<Rightarrow> bool" where
  "planned_as tn org goal mgr ts xa t \<longleftrightarrow>
     (let r = planned_task tn org goal mgr (fst xa) (snd xa) (tk_id t) ts in
      t = (if ts_tools (fst xa) then r
           else set_execution Task_Submitted (Some (stub_result (fst xa))) None ts r))"

text \<open>Nothing but tasks and reports is written in the loop; the rest of the organisation is a frame.\<close>

definition same_frame :: "org_state \<Rightarrow> org_state \<Rightarrow> bool" where
  "same_frame s s' \<longleftrightarrow> wf_workers (og_wf s') = wf_workers (og_wf s) \<and> wf_edges (og_wf s') = wf_edges (og_wf s)
     \<and> wf_approvals (og_wf s') = wf_approvals (og_wf s) \<and> og_positions s' = og_positions s
     \<and> og_threads s' = og_threads s \<and> og_messages s' = og_messages s \<and> og_handoffs s' = og_handoffs s
     \<and> og_escalations s' = og_escalations s \<and> og_learning s' = og_learning s"

lemma same_frame_trans: "same_frame a b \<Longrightarrow> same_frame b c \<Longrightarrow> same_frame a c"
  by (simp add: same_frame_def)

lemma insert_org_task_Some:
  "insert_org_task t s = Some s' \<Longrightarrow> (\<forall>q \<in> set (wf_tasks (og_wf s)). tk_id q \<noteq> tk_id t)
     \<and> s' = s\<lparr>og_wf := (og_wf s)\<lparr>wf_tasks := wf_tasks (og_wf s) @ [t]\<rparr>\<rparr>"
  by (auto simp: insert_org_task_def insert_task_def list_ex_iff split: if_splits)

lemma insert_report_Some:
  "insert_report r s = Some s' \<Longrightarrow> s' = s\<lparr>og_reports := og_reports s @ [r]\<rparr>"
  by (auto simp: insert_report_def split: if_splits)

lemma submit_new_task:
  assumes "\<forall>q \<in> set qs. tk_id q \<noteq> i" and "tk_id t = i" and "tk_tenant t = tn" and "tk_org t = org"
  shows "fst (update_where (task_at tn org i) f (qs @ [t])) = qs @ [f t]"
  using assms by (auto simp: update_where_def task_at_def intro!: map_idI)

text \<open>One turn of the loop: the task as it stands afterwards, and what the loop goes on with.\<close>

lemma plan_loop_turn:
  assumes "plan_loop gen tn org goal mgr ts ((x, a) # xs) s lines pending steps = (s', Inr r)"
  obtains s1 t lines' steps' where "planned_as tn org goal mgr ts (x, a) t"
    "wf_tasks (og_wf s1) = wf_tasks (og_wf s) @ [t]" "same_frame s s1" "og_goals s1 = og_goals s"
    "plan_loop gen tn org goal mgr ts xs s1 lines' (if ts_tools x then Suc pending else pending) steps' = (s', Inr r)"
proof -
  let ?i = "next_id gen s"
  let ?t = "planned_task tn org goal mgr x a ?i ts"
  obtain s1 where s1: "insert_org_task ?t (used_id s) = Some s1"
    using assms by (auto simp: Let_def split: option.splits)
  note i1 = insert_org_task_Some [OF s1]
  have id: "tk_id ?t = ?i" "tk_tenant ?t = tn" "tk_org ?t = org" by (simp_all add: planned_task_def)
  show thesis
  proof (cases "ts_tools x")
    case True
    obtain s2 where s2: "insert_report (report_row tn org (next_id gen s1) ?i a mgr Rep_Progress
        (Note_Ready (ts_type x) (ts_title x)) ts) (used_id s1) = Some s2"
      and rest: "plan_loop gen tn org goal mgr ts xs s2 (lines @ [(?i, Line_Pending (ts_title x))])
        (Suc pending) (steps + 2) = (s', Inr r)"
      using assms s1 True by (auto simp: Let_def split: option.splits)
    note r2 = insert_report_Some [OF s2]
    show thesis
    proof (rule that)
      show "planned_as tn org goal mgr ts (x, a) ?t" using True id(1) by (simp add: planned_as_def)
      show "wf_tasks (og_wf s2) = wf_tasks (og_wf s) @ [?t]" "same_frame s s2" "og_goals s2 = og_goals s"
        using i1 r2 by (simp_all add: same_frame_def used_id_def)
      show "plan_loop gen tn org goal mgr ts xs s2 (lines @ [(?i, Line_Pending (ts_title x))])
        (if ts_tools x then Suc pending else pending) (steps + 2) = (s', Inr r)" using True rest by simp
    qed
  next
    case False
    let ?s2 = "on_og_wf (\<lambda>f. update_task_execution tn f org ?i Task_Submitted (Some (stub_result x)) None ts) s1"
    let ?u = "set_execution Task_Submitted (Some (stub_result x)) None ts ?t"
    obtain s3 where s3: "insert_report (report_row tn org (next_id gen ?s2) ?i a mgr Rep_Final
        (Note_Result (stub_result x)) ts) (used_id ?s2) = Some s3"
      and rest: "plan_loop gen tn org goal mgr ts xs s3 (lines @ [(?i, Line_Result (Some (stub_result x)))])
        pending (steps + 3) = (s', Inr r)"
      using assms s1 False by (auto simp: Let_def split: option.splits)
    note r3 = insert_report_Some [OF s3]
    have "wf_tasks (og_wf ?s2) = fst (update_where (task_at tn org ?i)
        (set_execution Task_Submitted (Some (stub_result x)) None ts) (wf_tasks (og_wf s) @ [?t]))"
      using i1 by (simp add: update_task_execution_def)
    also have "\<dots> = wf_tasks (og_wf s) @ [?u]"
      using i1 id by (intro submit_new_task) simp_all
    finally have tasks: "wf_tasks (og_wf ?s2) = wf_tasks (og_wf s) @ [?u]" .
    show thesis
    proof (rule that)
      show "planned_as tn org goal mgr ts (x, a) ?u"
        using False id(1) by (simp add: planned_as_def set_execution_def)
      show "wf_tasks (og_wf s3) = wf_tasks (og_wf s) @ [?u]" using tasks r3 by simp
      show "same_frame s s3" "og_goals s3 = og_goals s"
        using i1 r3 by (simp_all add: same_frame_def used_id_def on_og_wf_def update_task_execution_def)
      show "plan_loop gen tn org goal mgr ts xs s3 (lines @ [(?i, Line_Result (Some (stub_result x)))])
        (if ts_tools x then Suc pending else pending) (steps + 3) = (s', Inr r)" using False rest by simp
    qed
  qed
qed

lemma plan_loop_Inr:
  assumes "plan_loop gen tn org goal mgr ts xs s lines pending steps = (s', Inr (lines', pending', steps'))"
  shows "\<exists>new. wf_tasks (og_wf s') = wf_tasks (og_wf s) @ new \<and> list_all2 (planned_as tn org goal mgr ts) xs new
     \<and> same_frame s s' \<and> og_goals s' = og_goals s
     \<and> pending' = pending + length (filter (\<lambda>(x, a). ts_tools x) xs)"
  using assms
proof (induction xs arbitrary: s lines pending steps)
  case (Cons xa xs)
  obtain x a where xa: "xa = (x, a)" by fastforce
  from Cons.prems [unfolded xa] show ?case
  proof (rule plan_loop_turn)
    fix s1 t lines1 steps1
    assume t: "planned_as tn org goal mgr ts (x, a) t" "wf_tasks (og_wf s1) = wf_tasks (og_wf s) @ [t]"
      "same_frame s s1" "og_goals s1 = og_goals s"
      and rest: "plan_loop gen tn org goal mgr ts xs s1 lines1 (if ts_tools x then Suc pending else pending) steps1
        = (s', Inr (lines', pending', steps'))"
    from Cons.IH [OF rest] obtain new where new: "wf_tasks (og_wf s') = wf_tasks (og_wf s1) @ new"
      "list_all2 (planned_as tn org goal mgr ts) xs new" "same_frame s1 s'" "og_goals s' = og_goals s1"
      "pending' = (if ts_tools x then Suc pending else pending) + length (filter (\<lambda>(x, a). ts_tools x) xs)"
      by blast
    show ?thesis
      by (rule exI [of _ "t # new"])
        (use t new same_frame_trans [OF t(3) new(3)] xa in \<open>simp split: if_splits\<close>)
  qed
qed (simp add: same_frame_def)

lemma plan_body_Inr:
  assumes "plan_body gen tn org goal mgr g v ts xs s = (s', Inr (summary, pending, st, steps))"
  shows "\<exists>new. wf_tasks (og_wf s') = wf_tasks (og_wf s) @ new \<and> list_all2 (planned_as tn org goal mgr ts) xs new
     \<and> same_frame s s' \<and> (\<exists>r. og_goals s' = og_goals s @ [r] \<and> gl_id r = goal \<and> gl_status r = st)
     \<and> st = (if (\<exists>(x, a) \<in> set xs. ts_tools x) then Goal_Active else Goal_Completed)"
proof -
  let ?row = "goal_row tn org goal mgr g v ts"
  obtain s1 where s1: "insert_goal ?row s = Some s1"
    using assms by (auto simp: plan_body_def split: option.splits)
  then have fresh: "\<forall>q \<in> set (og_goals s). gl_id q \<noteq> goal" and e1: "s1 = s\<lparr>og_goals := og_goals s @ [?row]\<rparr>"
    by (auto simp: insert_goal_def list_ex_iff goal_row_def split: if_splits)
  obtain s2 lines p st2 where l: "plan_loop gen tn org goal mgr ts xs s1 [] 0 1 = (s2, Inr (lines, p, st2))"
    using assms s1 by (auto simp: plan_body_def split: prod.splits sum.splits)
  from plan_loop_Inr [OF l] obtain new where new: "wf_tasks (og_wf s2) = wf_tasks (og_wf s1) @ new"
    "list_all2 (planned_as tn org goal mgr ts) xs new" "same_frame s1 s2" "og_goals s2 = og_goals s1"
    "p = 0 + length (filter (\<lambda>(x, a). ts_tools x) xs)" by blast
  obtain k s3 where i: "insert_report k (used_id s2) = Some s3"
    and s': "s' = update_goal_status tn s3 org goal st ts" and st: "st = (if p > 0 then Goal_Active else Goal_Completed)"
    using assms s1 l by (auto simp: plan_body_def Let_def split: option.splits)
  have s3: "og_wf s3 = og_wf s2" "og_goals s3 = og_goals s2" "same_frame s2 s3"
    using insert_report_Some [OF i] by (simp_all add: same_frame_def used_id_def)
  have goals: "og_goals s' = og_goals s @ [?row\<lparr>gl_status := st, gl_updated_at := ts\<rparr>]"
  proof -
    have "map (\<lambda>r. if gl_tenant r = tn \<and> gl_org r = org \<and> gl_id r = goal
        then r\<lparr>gl_status := st, gl_updated_at := ts\<rparr> else r) (og_goals s) = og_goals s"
      using fresh by (intro map_idI) auto
    then show ?thesis
      unfolding s' update_goal_status_def using s3(2) new(4) e1 by (simp add: update_where_fst goal_row_def)
  qed
  have "same_frame s s'" using new(3) s3(3) unfolding s' e1 by (simp add: same_frame_def update_goal_status_def)
  moreover have "wf_tasks (og_wf s') = wf_tasks (og_wf s) @ new"
    unfolding s' using new(1) s3(1) e1 by (simp add: update_goal_status_def)
  moreover have "p > 0 \<longleftrightarrow> (\<exists>(x, a) \<in> set xs. ts_tools x)"
    using new(5) by (auto simp: filter_empty_conv)
  then have "st = (if (\<exists>(x, a) \<in> set xs. ts_tools x) then Goal_Active else Goal_Completed)"
    unfolding st by (rule arg_cong)
  moreover have "gl_id (?row\<lparr>gl_status := st, gl_updated_at := ts\<rparr>) = goal
      \<and> gl_status (?row\<lparr>gl_status := st, gl_updated_at := ts\<rparr>) = st"
    by (simp add: goal_row_def)
  ultimately show ?thesis using new(2) goals by blast
qed

lemma run_goal_Inr:
  assumes "run_goal gen tn reg s org mgr g roles ts = (s', Inr x)"
  obtains pb xs new where "pb_get_active reg (gr_type g) = Some pb"
    "resolve_specs tn (og_wf s) org mgr roles (pb_decompose pb (gr_title g) (gr_description g)) = Inr xs"
    "wf_tasks (og_wf s') = wf_tasks (og_wf s) @ new" "list_all2 (planned_as tn org (gx_goal x) mgr ts) xs new"
    "same_frame s s'" "\<exists>r. og_goals s' = og_goals s @ [r] \<and> gl_id r = gx_goal x \<and> gl_status r = gx_status x"
    "gx_status x = (if (\<exists>(y, a) \<in> set xs. ts_tools y) then Goal_Active else Goal_Completed)"
    "gx_tasks x = length xs"
proof -
  obtain pb xs summary pending st steps where
    pb: "pb_get_active reg (gr_type g) = Some pb"
    and xs: "resolve_specs tn (og_wf s) org mgr roles (pb_decompose pb (gr_title g) (gr_description g)) = Inr xs"
    and b: "plan_body gen tn org (next_id gen s) mgr g (pb_version pb) ts xs (used_id s)
        = (s', Inr (summary, pending, st, steps))"
    and x: "gx_goal x = next_id gen s" "gx_status x = st" "gx_tasks x = length xs"
    using assms by (auto simp: run_goal_def Let_def split: option.splits sum.splits prod.splits)
  from plan_body_Inr [OF b] obtain new where new: "wf_tasks (og_wf s') = wf_tasks (og_wf s) @ new"
    "list_all2 (planned_as tn org (next_id gen s) mgr ts) xs new" "same_frame (used_id s) s'"
    "\<exists>r. og_goals s' = og_goals s @ [r] \<and> gl_id r = next_id gen s \<and> gl_status r = st"
    "st = (if (\<exists>(y, a) \<in> set xs. ts_tools y) then Goal_Active else Goal_Completed)" by auto
  have "same_frame s s'" using new(3) by (simp add: same_frame_def used_id_def)
  with pb xs new x show thesis by (intro that [of pb xs new]) simp_all
qed

lemma run_goal_Inl:
  "run_goal gen tn reg s org mgr g roles ts = (s', Inl e) \<Longrightarrow> s' = undone s s'"
  by (auto simp: run_goal_def Let_def undone_def split: option.splits sum.splits prod.splits)

lemma planned_as_fields:
  assumes "planned_as tn org goal mgr ts (x, a) t"
  shows "tk_goal t = goal \<and> tk_accountable t = mgr \<and> tk_assigned t = Some a \<and> tk_allows_tools t = ts_tools x
    \<and> tk_risk t = ts_risk x
    \<and> (if ts_tools x then tk_status t = Task_Delegated \<and> tk_summary t = None
       else tk_status t = Task_Submitted \<and> tk_summary t = Some (stub_result x))"
proof -
  let ?r = "planned_task tn org goal mgr x a (tk_id t) ts"
  from assms have t: "t = (if ts_tools x then ?r
      else set_execution Task_Submitted (Some (stub_result x)) None ts ?r)"
    unfolding planned_as_def Let_def fst_conv snd_conv .
  show ?thesis
  proof (cases "ts_tools x")
    case True
    then obtain i where "t = planned_task tn org goal mgr x a i ts" using t by metis
    then show ?thesis using True by (simp add: planned_task_def)
  next
    case False
    then obtain i where "t = set_execution Task_Submitted (Some (stub_result x)) None ts
        (planned_task tn org goal mgr x a i ts)" using t by metis
    then show ?thesis using False by (simp add: planned_task_def set_execution_def)
  qed
qed


subsection \<open>What runs on its own\<close>

lemma max_risk_bound:
  "x \<in> set xs \<Longrightarrow> risk_order (ts_risk x) \<le> risk_order (max_risk_of_specs xs)"
proof -
  have grow: "risk_order m \<le> risk_order (foldl (\<lambda>m x. if risk_order (ts_risk x) > risk_order m then ts_risk x else m) m xs)
      \<and> (\<forall>x \<in> set xs. risk_order (ts_risk x)
          \<le> risk_order (foldl (\<lambda>m x. if risk_order (ts_risk x) > risk_order m then ts_risk x else m) m xs))" for m
  proof (induction xs arbitrary: m)
    case (Cons y xs)
    show ?case using Cons.IH [of "if risk_order (ts_risk y) > risk_order m then ts_risk y else m"]
      by (auto split: if_splits)
  qed simp
  then show "x \<in> set xs \<Longrightarrow> risk_order (ts_risk x) \<le> risk_order (max_risk_of_specs xs)"
    unfolding max_risk_of_specs_def by blast
qed

text \<open>What a run of the loop may have done to the organisation.\<close>

definition grown_within :: "nat \<Rightarrow> org_state \<Rightarrow> org_state \<Rightarrow> bool" where
  "grown_within limit s s' \<longleftrightarrow> same_frame s s'
     \<and> (\<exists>new. wf_tasks (og_wf s') = wf_tasks (og_wf s) @ new \<and> (\<forall>t \<in> set new. risk_order (tk_risk t) \<le> limit))"

lemma grown_within_refl: "grown_within limit s s"
  by (simp add: grown_within_def same_frame_def)

lemma grown_within_trans:
  assumes "grown_within limit a b" and "grown_within limit b c"
  shows "grown_within limit a c"
proof -
  obtain m where m: "wf_tasks (og_wf b) = wf_tasks (og_wf a) @ m" "\<forall>t \<in> set m. risk_order (tk_risk t) \<le> limit"
    using assms(1) unfolding grown_within_def by blast
  obtain n where n: "wf_tasks (og_wf c) = wf_tasks (og_wf b) @ n" "\<forall>t \<in> set n. risk_order (tk_risk t) \<le> limit"
    using assms(2) unfolding grown_within_def by blast
  have "same_frame a c" using assms same_frame_trans unfolding grown_within_def by blast
  moreover have "wf_tasks (og_wf c) = wf_tasks (og_wf a) @ (m @ n)" using m(1) n(1) by simp
  moreover have "\<forall>t \<in> set (m @ n). risk_order (tk_risk t) \<le> limit" using m(2) n(2) by (simp add: ball_Un)
  ultimately show ?thesis unfolding grown_within_def by blast
qed

lemma grown_within_undone: "grown_within limit s (undone s u)"
  by (simp add: grown_within_def same_frame_def undone_def)

lemma run_goal_grown:
  assumes "run_goal gen tn reg s org (qg_manager q) (queued_request q) roles ts = (s', r)"
    and "max_task_risk_of reg q = Some k" and "risk_order k \<le> limit"
  shows "grown_within limit s s'"
proof (cases r)
  case (Inl e)
  have "s' = undone s s'" by (rule run_goal_Inl) (use assms(1) Inl in simp)
  then show ?thesis using grown_within_undone [of limit s s'] by (rule ssubst)
next
  case (Inr x)
  from assms(1) [unfolded Inr] show ?thesis
  proof (rule run_goal_Inr)
    fix pb xs new
    assume pb: "pb_get_active reg (gr_type (queued_request q)) = Some pb"
      and xs: "resolve_specs tn (og_wf s) org (qg_manager q) roles
        (pb_decompose pb (gr_title (queued_request q)) (gr_description (queued_request q))) = Inr xs"
      and n: "wf_tasks (og_wf s') = wf_tasks (og_wf s) @ new"
        "list_all2 (planned_as tn org (gx_goal x) (qg_manager q) ts) xs new" "same_frame s s'"
    have k: "k = max_risk_of_specs (map fst xs)"
      using assms(2) pb resolve_specs_Inr [OF xs] by (simp add: max_task_risk_of_def queued_request_def)
    have "risk_order (tk_risk t) \<le> limit" if t: "t \<in> set new" for t
    proof -
      obtain y a where y: "(y, a) \<in> set xs" "planned_as tn org (gx_goal x) (qg_manager q) ts (y, a) t"
        using list_all2_set2D [OF n(2) t] by fastforce
      then have "y \<in> set (map fst xs)" by force
      from max_risk_bound [OF this] show ?thesis using planned_as_fields [OF y(2)] assms(3) k by simp
    qed
    then show ?thesis using n by (auto simp: grown_within_def)
  qed
qed

lemma autorun_loop_limits:
  assumes "autorun_loop gen tn reg org roles budget limit ts qs s runs out = (s', runs', out')"
    and "int runs \<le> budget"
  shows "grown_within limit s s' \<and> int runs' \<le> budget \<and> length out' = length out + length qs"
  using assms
proof (induction qs arbitrary: s runs out)
  case (Cons q qs)
  consider "int runs \<ge> budget" | "int runs < budget" "max_task_risk_of reg q = None"
    | k where "int runs < budget" "max_task_risk_of reg q = Some k" "risk_order k > limit"
    | k where "int runs < budget" "max_task_risk_of reg q = Some k" "risk_order k \<le> limit"
    by (cases "max_task_risk_of reg q") (fastforce simp: not_le [symmetric])+
  then show ?case
  proof cases
    case 4
    obtain s1 r where r: "run_goal gen tn reg s org (qg_manager q) (queued_request q) roles ts = (s1, r)" by fastforce
    have g: "grown_within limit s s1" by (rule run_goal_grown [OF r 4(2,3)])
    show ?thesis
    proof (cases r)
      case (Inl e)
      then have "autorun_loop gen tn reg org roles budget limit ts qs s1 runs (out @ [Auto_Failed q e]) = (s', runs', out')"
        using Cons.prems(1) 4 r by simp
      from Cons.IH [OF this Cons.prems(2)] g grown_within_trans show ?thesis by auto
    next
      case (Inr x)
      then have "autorun_loop gen tn reg org roles budget limit ts qs s1 (Suc runs) (out @ [Auto_Ran q x]) = (s', runs', out')"
        using Cons.prems(1) 4 r by simp
      moreover have "int (Suc runs) \<le> budget" using 4(1) by simp
      ultimately show ?thesis using Cons.IH g grown_within_trans by fastforce
    qed
  qed (use Cons in fastforce)+
qed (simp add: grown_within_refl)


subsection \<open>The properties on a concrete organisation\<close>

definition ex_pack :: playbook where
  "ex_pack = \<lparr> pb_type = ''g'', pb_version = 1, pb_provenance = Prov_Reference, pb_rubric = [],
     pb_source = ''s'',
     pb_decompose = (\<lambda>t d. [spec_of ''r'' t ''think'' Risk_Low False [] [] None,
       spec_of ''r'' t ''act'' Risk_Medium True [] [] (Some 10)]) \<rparr>"

definition ex_goal :: goal_request where
  "ex_goal = \<lparr> gr_title = ''x'', gr_description = [], gr_type = ''g'', gr_source = None \<rparr>"

definition ex_queued :: queued_goal where
  "ex_queued = \<lparr> qg_manager = ''b'', qg_title = ''x'', qg_description = [], qg_type = ''g'' \<rparr>"



end
