(* ===== verification/Org_Wallet.thy ===== *)
theory Org_Wallet
  imports Org_Store
begin

text \<open>
  The treasury of an organisation: wallets, settlements and transactions
  (\<^verbatim>\<open>src/workforce/org-wallet-service.ts\<close> and its tables in \<^verbatim>\<open>src/storage/org-workforce-store.ts\<close>).
  Amounts are in minor units, so balances are integers; an amount that arrives as a number is rounded
  as the code rounds it. The counter numbers the calls of \<^verbatim>\<open>idgen\<close>.
\<close>

datatype wallet_status = Wallet_Active | Wallet_Frozen

record org_wallet =
  ow_id :: ident
  ow_tenant :: ident
  ow_org :: ident
  ow_balance :: int
  ow_currency :: string
  ow_status :: wallet_status
  ow_settled_at :: "millis option"
  ow_created_at :: millis
  ow_updated_at :: millis

datatype wallet_tx_type = Tx_Task_Payment | Tx_Platform_Fee | Tx_Refund

record wallet_settlement =
  os_id :: ident
  os_tenant :: ident
  os_org :: ident
  os_wallet :: ident
  os_source :: ident
  os_goal :: "ident option"
  os_total :: int
  os_currency :: string
  os_pct :: int
  os_platform :: int
  os_amount :: int
  os_created_at :: millis

record wallet_tx =
  wx_id :: ident
  wx_tenant :: ident
  wx_wallet :: ident
  wx_type :: wallet_tx_type
  wx_amount :: int
  wx_currency :: string
  wx_ref_type :: "string option"
  wx_ref :: "ident option"
  wx_created_at :: millis

record org_ledger =
  lg_wallets :: "org_wallet list"
  lg_settlements :: "wallet_settlement list"
  lg_transactions :: "wallet_tx list"
  lg_ids :: nat

record settle_input =
  si_org :: ident
  si_source :: ident
  si_goal :: "ident option"
  si_total :: rat
  si_currency :: string
  si_pct :: rat

datatype wallet_error =
    Wallet_Is_Frozen
  | Wallet_Other_Currency
  | Wallet_Not_Credited
  | Wallet_Constraint

subsection \<open>Statements\<close>

definition wallet_of :: "ident \<Rightarrow> ident \<Rightarrow> org_wallet \<Rightarrow> bool" where
  "wallet_of tn org w \<longleftrightarrow> ow_tenant w = tn \<and> ow_org w = org"

definition get_org_wallet :: "ident \<Rightarrow> org_ledger \<Rightarrow> ident \<Rightarrow> org_wallet option" where
  "get_org_wallet tn L org = select_one (wallet_of tn org) (lg_wallets L)"

definition insert_org_wallet :: "org_wallet \<Rightarrow> org_ledger \<Rightarrow> org_ledger option" where
  "insert_org_wallet w L =
     (if list_ex (wallet_of (ow_tenant w) (ow_org w)) (lg_wallets L) then Some L
      else if list_ex (\<lambda>q. ow_id q = ow_id w) (lg_wallets L) then None
      else Some (L\<lparr>lg_wallets := lg_wallets L @ [w]\<rparr>))"

definition fresh_wallet :: "ident \<Rightarrow> ident \<Rightarrow> ident \<Rightarrow> millis \<Rightarrow> string \<Rightarrow> org_wallet" where
  "fresh_wallet tn org i now cur =
     \<lparr> ow_id = i, ow_tenant = tn, ow_org = org, ow_balance = 0, ow_currency = cur,
       ow_status = Wallet_Active, ow_settled_at = None, ow_created_at = now, ow_updated_at = now \<rparr>"

definition get_or_create_wallet ::
  "ident \<Rightarrow> org_ledger \<Rightarrow> ident \<Rightarrow> ident \<Rightarrow> millis \<Rightarrow> string \<Rightarrow> (org_ledger \<times> org_wallet) option" where
  "get_or_create_wallet tn L org i now cur =
     (case get_org_wallet tn L org of
        Some w \<Rightarrow> Some (L, w)
      | None \<Rightarrow>
          (case insert_org_wallet (fresh_wallet tn org i now cur) L of
             None \<Rightarrow> None
           | Some L1 \<Rightarrow> map_option (\<lambda>w. (L1, w)) (get_org_wallet tn L1 org)))"

text \<open>The update is guarded by the balance that was read; \<open>None\<close> is a wallet that was not credited.\<close>

definition credit_org_wallet ::
  "ident \<Rightarrow> org_ledger \<Rightarrow> ident \<Rightarrow> int \<Rightarrow> millis \<Rightarrow> org_ledger \<times> int option" where
  "credit_org_wallet tn L org d now =
     (case get_org_wallet tn L org of
        None \<Rightarrow> (L, None)
      | Some w \<Rightarrow>
          if ow_status w \<noteq> Wallet_Active then (L, None)
          else
            let next = ow_balance w + d;
                (ws, n) = update_where
                  (\<lambda>r. wallet_of tn org r \<and> ow_status r = Wallet_Active \<and> ow_balance r = ow_balance w)
                  (\<lambda>r. r\<lparr>ow_balance := next, ow_settled_at := Some now, ow_updated_at := now\<rparr>)
                  (lg_wallets L)
            in (L\<lparr>lg_wallets := ws\<rparr>, if 0 < n then Some next else None))"

definition settlement_by_source :: "ident \<Rightarrow> org_ledger \<Rightarrow> ident \<Rightarrow> wallet_settlement option" where
  "settlement_by_source tn L task =
     select_one (\<lambda>r. os_tenant r = tn \<and> os_source r = task) (lg_settlements L)"

definition insert_settlement :: "wallet_settlement \<Rightarrow> org_ledger \<Rightarrow> org_ledger option" where
  "insert_settlement r L =
     (if list_ex (\<lambda>q. os_id q = os_id r \<or> os_tenant q = os_tenant r \<and> os_source q = os_source r)
           (lg_settlements L)
      then None else Some (L\<lparr>lg_settlements := lg_settlements L @ [r]\<rparr>))"

definition insert_wallet_tx :: "wallet_tx \<Rightarrow> org_ledger \<Rightarrow> org_ledger option" where
  "insert_wallet_tx t L =
     (if list_ex (\<lambda>q. wx_id q = wx_id t) (lg_transactions L) then None
      else Some (L\<lparr>lg_transactions := lg_transactions L @ [t]\<rparr>))"

definition list_wallet_transactions :: "ident \<Rightarrow> org_ledger \<Rightarrow> ident \<Rightarrow> wallet_tx list" where
  "list_wallet_transactions tn L w =
     sort_key (\<lambda>t. (wx_created_at t, wx_id t))
       (filter (\<lambda>t. wx_tenant t = tn \<and> wx_wallet t = w) (lg_transactions L))"

subsection \<open>Settlement\<close>

definition platform_share :: "int \<Rightarrow> int \<Rightarrow> int" where
  "platform_share gross pct = gross * pct div 100"

definition settlement_row ::
  "ident \<Rightarrow> ident \<Rightarrow> ident \<Rightarrow> settle_input \<Rightarrow> millis \<Rightarrow> wallet_settlement" where
  "settlement_row tn i wallet x now =
     (let gross = js_round (si_total x); pct = js_round (si_pct x); p = platform_share gross pct in
      \<lparr> os_id = i, os_tenant = tn, os_org = si_org x, os_wallet = wallet, os_source = si_source x,
        os_goal = si_goal x, os_total = gross, os_currency = si_currency x, os_pct = pct,
        os_platform = p, os_amount = gross - p, os_created_at = now \<rparr>)"

definition settlement_tx ::
  "ident \<Rightarrow> ident \<Rightarrow> ident \<Rightarrow> wallet_tx_type \<Rightarrow> int \<Rightarrow> string \<Rightarrow> ident \<Rightarrow> millis \<Rightarrow> wallet_tx" where
  "settlement_tx tn i wallet k n cur ref now =
     \<lparr> wx_id = i, wx_tenant = tn, wx_wallet = wallet, wx_type = k, wx_amount = n, wx_currency = cur,
       wx_ref_type = Some ''org_wallet_settlement'', wx_ref = Some ref, wx_created_at = now \<rparr>"

text \<open>The writes of a settlement on the wallet that was found or made.\<close>

definition post_settlement ::
  "(nat \<Rightarrow> ident) \<Rightarrow> ident \<Rightarrow> settle_input \<Rightarrow> millis \<Rightarrow> org_wallet \<Rightarrow> org_ledger
     \<Rightarrow> org_ledger \<times> (wallet_error + wallet_settlement)" where
  "post_settlement gen tn x now w L =
     (let k = lg_ids L; r = settlement_row tn (gen k) (ow_id w) x now;
          pay = settlement_tx tn (gen (k + 1)) (ow_id w) Tx_Task_Payment (os_total r) (si_currency x)
                  (gen k) now;
          fee = settlement_tx tn (gen (k + 2)) (ow_id w) Tx_Platform_Fee (- os_platform r)
                  (si_currency x) (gen k) now
      in case insert_settlement r L of
           None \<Rightarrow> (L, Inl Wallet_Constraint)
         | Some L1 \<Rightarrow>
             (case credit_org_wallet tn L1 (si_org x) (os_amount r) now of
                (L2, None) \<Rightarrow> (L2, Inl Wallet_Not_Credited)
              | (L2, Some _) \<Rightarrow>
                  (case insert_wallet_tx pay L2 of
                     None \<Rightarrow> (L2, Inl Wallet_Constraint)
                   | Some L3 \<Rightarrow>
                       (case insert_wallet_tx fee L3 of
                          None \<Rightarrow> (L3, Inl Wallet_Constraint)
                        | Some L4 \<Rightarrow>
                            (L4\<lparr>lg_ids := k + 3\<rparr>,
                             case settlement_by_source tn L4 (si_source x) of
                               None \<Rightarrow> Inl Wallet_Constraint | Some s \<Rightarrow> Inr s)))))"

text \<open>\<^verbatim>\<open>settleInTx\<close>; an error is thrown, and whoever opened the transaction rolls it back.\<close>

definition settle_in_tx ::
  "(nat \<Rightarrow> ident) \<Rightarrow> ident \<Rightarrow> settle_input \<Rightarrow> millis \<Rightarrow> org_ledger
     \<Rightarrow> org_ledger \<times> (wallet_error + wallet_settlement)" where
  "settle_in_tx gen tn x now L =
     (case settlement_by_source tn L (si_source x) of
        Some s \<Rightarrow> (L, Inr s)
      | None \<Rightarrow>
          (case get_or_create_wallet tn L (si_org x) (gen (lg_ids L)) now (si_currency x) of
             None \<Rightarrow> (L, Inl Wallet_Constraint)
           | Some (L1, w) \<Rightarrow>
               if ow_status w \<noteq> Wallet_Active then (L1, Inl Wallet_Is_Frozen)
               else if ow_currency w \<noteq> si_currency x then (L1, Inl Wallet_Other_Currency)
               else post_settlement gen tn x now w (L1\<lparr>lg_ids := lg_ids L1 + 1\<rparr>)))"

definition settle_valid :: "settle_input \<Rightarrow> bool" where
  "settle_valid x \<longleftrightarrow> 0 < js_round (si_total x) \<and> 0 \<le> js_round (si_pct x) \<and> js_round (si_pct x) \<le> 100"

text \<open>The identifiers drawn by a transaction that is rolled back are not drawn again.\<close>

definition rolled_back :: "org_ledger \<Rightarrow> org_ledger \<Rightarrow> org_ledger" where
  "rolled_back L L' = L\<lparr>lg_ids := lg_ids L'\<rparr>"

text \<open>The probe before the transaction: a wallet that is frozen or of another currency refuses.\<close>

definition wallet_refuses :: "ident \<Rightarrow> settle_input \<Rightarrow> org_ledger \<Rightarrow> bool" where
  "wallet_refuses tn x L =
     (case get_org_wallet tn L (si_org x) of
        None \<Rightarrow> False
      | Some w \<Rightarrow> ow_status w \<noteq> Wallet_Active \<or> ow_currency w \<noteq> si_currency x)"

definition settle_org_task_payment ::
  "(nat \<Rightarrow> ident) \<Rightarrow> ident \<Rightarrow> settle_input \<Rightarrow> millis \<Rightarrow> org_ledger
     \<Rightarrow> org_ledger \<times> (wallet_error + wallet_settlement option)" where
  "settle_org_task_payment gen tn x now L =
     (if \<not> settle_valid x then (L, Inr None)
      else case settlement_by_source tn L (si_source x) of
        Some s \<Rightarrow> (L, Inr (Some s))
      | None \<Rightarrow>
          if wallet_refuses tn x L then (L, Inr None)
          else case settle_in_tx gen tn x now L of
            (L', Inl e) \<Rightarrow> (rolled_back L L', Inl e)
          | (L', Inr s) \<Rightarrow> (L', Inr (Some s)))"

subsection \<open>The books\<close>

definition wallet_movements :: "org_ledger \<Rightarrow> org_wallet \<Rightarrow> int" where
  "wallet_movements L w =
     sum_where (\<lambda>t. wx_tenant t = ow_tenant w \<and> wx_wallet t = ow_id w) wx_amount (lg_transactions L)"

definition wallet_earnings :: "org_ledger \<Rightarrow> org_wallet \<Rightarrow> int" where
  "wallet_earnings L w =
     sum_where (\<lambda>s. os_tenant s = ow_tenant w \<and> os_wallet s = ow_id w) os_amount (lg_settlements L)"

definition settlement_ok :: "org_wallet list \<Rightarrow> wallet_settlement \<Rightarrow> bool" where
  "settlement_ok ws s \<longleftrightarrow>
     os_platform s + os_amount s = os_total s \<and> 0 \<le> os_platform s \<and> 0 \<le> os_amount s \<and> 0 < os_total s
     \<and> os_platform s = platform_share (os_total s) (os_pct s)
     \<and> (\<exists>w \<in> set ws. wallet_of (os_tenant s) (os_org s) w \<and> ow_id w = os_wallet s
           \<and> ow_currency w = os_currency s)"

definition books_balance :: "org_ledger \<Rightarrow> bool" where
  "books_balance L \<longleftrightarrow>
     (\<forall>w \<in> set (lg_wallets L). ow_balance w = wallet_movements L w \<and> ow_balance w = wallet_earnings L w)"

definition ledger_ok :: "org_ledger \<Rightarrow> bool" where
  "ledger_ok L \<longleftrightarrow>
     distinct (map ow_id (lg_wallets L))
     \<and> distinct (map (\<lambda>w. (ow_tenant w, ow_org w)) (lg_wallets L))
     \<and> distinct (map (\<lambda>s. (os_tenant s, os_source s)) (lg_settlements L))
     \<and> (\<forall>s \<in> set (lg_settlements L). settlement_ok (lg_wallets L) s)
     \<and> (\<forall>t \<in> set (lg_transactions L). \<exists>w \<in> set (lg_wallets L). ow_id w = wx_wallet t)
     \<and> books_balance L"

lemma platform_share_bounds:
  assumes "0 < n" and "0 \<le> p" and "p \<le> 100"
  shows "0 \<le> platform_share n p" and "platform_share n p \<le> n"
proof -
  show "0 \<le> platform_share n p" using assms by (simp add: platform_share_def pos_imp_zdiv_nonneg_iff)
  have "n * p \<le> n * 100" using assms by (intro mult_left_mono) auto
  then have "n * p div 100 \<le> n * 100 div 100" by (rule zdiv_mono1) simp
  then show "platform_share n p \<le> n" by (simp add: platform_share_def)
qed

lemma get_org_wallet_SomeD:
  "get_org_wallet tn L org = Some w \<Longrightarrow> w \<in> set (lg_wallets L) \<and> wallet_of tn org w"
  unfolding get_org_wallet_def by (rule select_one_SomeD)

lemma get_org_wallet_unique:
  assumes "ledger_ok L" and "w \<in> set (lg_wallets L)" and "wallet_of tn org w"
  shows "get_org_wallet tn L org = Some w"
  unfolding get_org_wallet_def using assms
  by (intro select_one_unique [where key = "\<lambda>w. (ow_tenant w, ow_org w)"])
    (auto simp: ledger_ok_def wallet_of_def)

lemma sum_where_0: "\<forall>r \<in> set t. \<not> p r \<Longrightarrow> sum_where p f t = 0"
  by (induction t) auto

text \<open>A wallet opened on the way changes nothing else.\<close>

lemma get_or_create_wallet_cases:
  assumes "get_or_create_wallet tn L org i now cur = Some (L1, w)"
  obtains "L1 = L" and "get_org_wallet tn L org = Some w"
  | "L1 = L\<lparr>lg_wallets := lg_wallets L @ [w]\<rparr>" and "w = fresh_wallet tn org i now cur"
    and "get_org_wallet tn L org = None" and "\<forall>q \<in> set (lg_wallets L). ow_id q \<noteq> i"
proof (cases "get_org_wallet tn L org")
  case (Some v)
  with assms that show ?thesis by (simp add: get_or_create_wallet_def)
next
  case None
  let ?f = "fresh_wallet tn org i now cur"
  have n: "\<forall>r \<in> set (lg_wallets L). \<not> wallet_of tn org r"
    using None by (simp add: get_org_wallet_def select_one_None_iff)
  have f: "wallet_of tn org ?f" by (simp add: wallet_of_def fresh_wallet_def)
  have ft: "ow_tenant ?f = tn" "ow_org ?f = org" "ow_id ?f = i" by (simp_all add: fresh_wallet_def)
  have u: "\<forall>q \<in> set (lg_wallets L). ow_id q \<noteq> i"
    using assms None n ft
    by (auto simp: get_or_create_wallet_def insert_org_wallet_def list_ex_iff split: if_splits)
  have ins: "insert_org_wallet ?f L = Some (L\<lparr>lg_wallets := lg_wallets L @ [?f]\<rparr>)"
    using n u ft by (auto simp: insert_org_wallet_def list_ex_iff)
  have g: "get_org_wallet tn (L\<lparr>lg_wallets := lg_wallets L @ [?f]\<rparr>) org = Some ?f"
    using None f by (simp add: get_org_wallet_def select_one_append)
  have "L1 = L\<lparr>lg_wallets := lg_wallets L @ [?f]\<rparr> \<and> w = ?f"
    using assms None ins g by (auto simp: get_or_create_wallet_def)
  with None u that show ?thesis by blast
qed

lemma opened_wallet_ok:
  assumes ok: "ledger_ok L" and w: "w = fresh_wallet tn org i now cur"
    and n: "get_org_wallet tn L org = None" and u: "\<forall>q \<in> set (lg_wallets L). ow_id q \<noteq> i"
  shows "ledger_ok (L\<lparr>lg_wallets := lg_wallets L @ [w]\<rparr>)"
proof -
  have no: "\<forall>q \<in> set (lg_wallets L). \<not> wallet_of tn org q"
    using n by (simp add: get_org_wallet_def select_one_None_iff)
  have id: "ow_id w = i" "ow_balance w = 0" "ow_tenant w = tn" "ow_org w = org"
    by (simp_all add: w fresh_wallet_def)
  have "\<forall>t \<in> set (lg_transactions L). wx_wallet t \<noteq> i" using ok u by (auto simp: ledger_ok_def)
  then have m: "wallet_movements L w = 0" by (auto simp: wallet_movements_def id intro: sum_where_0)
  have "\<forall>s \<in> set (lg_settlements L). os_wallet s \<noteq> i"
    using ok u unfolding ledger_ok_def settlement_ok_def by metis
  then have e: "wallet_earnings L w = 0" by (auto simp: wallet_earnings_def id intro: sum_where_0)
  have S: "settlement_ok (lg_wallets L @ [w]) s" if "settlement_ok (lg_wallets L) s" for s
    using that by (auto simp: settlement_ok_def)
  have M: "wallet_movements (L\<lparr>lg_wallets := ws\<rparr>) v = wallet_movements L v"
    "wallet_earnings (L\<lparr>lg_wallets := ws\<rparr>) v = wallet_earnings L v" for ws v
    by (simp_all add: wallet_movements_def wallet_earnings_def)
  have "books_balance (L\<lparr>lg_wallets := lg_wallets L @ [w]\<rparr>)"
    using ok m e id by (auto simp: ledger_ok_def books_balance_def M)
  then show ?thesis using ok no u id S by (auto simp: ledger_ok_def wallet_of_def)
qed

definition credited :: "int \<Rightarrow> millis \<Rightarrow> org_wallet \<Rightarrow> org_wallet" where
  "credited d now w =
     w\<lparr>ow_balance := ow_balance w + d, ow_settled_at := Some now, ow_updated_at := now\<rparr>"

lemma credited_fields [simp]:
  "ow_id (credited d now w) = ow_id w"
  "ow_tenant (credited d now w) = ow_tenant w"
  "ow_org (credited d now w) = ow_org w"
  "ow_currency (credited d now w) = ow_currency w"
  "ow_balance (credited d now w) = ow_balance w + d"
  "wallet_of tn org (credited d now w) = wallet_of tn org w"
  by (simp_all add: credited_def wallet_of_def)

definition posted ::
  "(nat \<Rightarrow> ident) \<Rightarrow> ident \<Rightarrow> settle_input \<Rightarrow> millis \<Rightarrow> org_wallet \<Rightarrow> org_ledger \<Rightarrow> org_ledger" where
  "posted gen tn x now w L =
     (let k = lg_ids L; r = settlement_row tn (gen k) (ow_id w) x now in
      \<lparr> lg_wallets = map (\<lambda>v. if wallet_of tn (si_org x) v then credited (os_amount r) now v else v)
          (lg_wallets L),
        lg_settlements = lg_settlements L @ [r],
        lg_transactions = lg_transactions L @
          [settlement_tx tn (gen (k + 1)) (ow_id w) Tx_Task_Payment (os_total r) (si_currency x) (gen k) now,
           settlement_tx tn (gen (k + 2)) (ow_id w) Tx_Platform_Fee (- os_platform r) (si_currency x)
             (gen k) now],
        lg_ids = k + 3 \<rparr>)"

lemma credit_org_wallet_active:
  assumes ok: "distinct (map (\<lambda>w. (ow_tenant w, ow_org w)) (lg_wallets L))"
    and w: "get_org_wallet tn L org = Some w" and a: "ow_status w = Wallet_Active"
  shows "credit_org_wallet tn L org d now =
     (L\<lparr>lg_wallets := map (\<lambda>v. if wallet_of tn org v then credited d now v else v) (lg_wallets L)\<rparr>,
      Some (ow_balance w + d))"
proof -
  have wm: "w \<in> set (lg_wallets L)" "wallet_of tn org w"
    using w by (auto dest: get_org_wallet_SomeD)
  have eq: "v = w" if "v \<in> set (lg_wallets L)" "wallet_of tn org v" for v
    using ok that wm by (auto simp: distinct_map wallet_of_def dest: inj_onD)
  let ?p = "\<lambda>r. wallet_of tn org r \<and> ow_status r = Wallet_Active \<and> ow_balance r = ow_balance w"
  let ?f = "\<lambda>r. r\<lparr>ow_balance := ow_balance w + d, ow_settled_at := Some now, ow_updated_at := now\<rparr>"
  have rows: "fst (update_where ?p ?f (lg_wallets L)) =
     map (\<lambda>v. if wallet_of tn org v then credited d now v else v) (lg_wallets L)"
    using eq a by (auto simp: update_where_def credited_def)
  have "0 < snd (update_where ?p ?f (lg_wallets L))"
    unfolding update_where_hits using wm a by blast
  with rows w a show ?thesis
    by (simp add: credit_org_wallet_def Let_def split_beta del: update_where_hits)
qed

lemma post_settlement_posted:
  assumes ok: "ledger_ok L" and w: "get_org_wallet tn L (si_org x) = Some w"
    and a: "ow_status w = Wallet_Active" and n: "settlement_by_source tn L (si_source x) = None"
    and p: "post_settlement gen tn x now w L = (L', Inr s)"
  shows "L' = posted gen tn x now w L" and "s = settlement_row tn (gen (lg_ids L)) (ow_id w) x now"
proof -
  define r where "r = settlement_row tn (gen (lg_ids L)) (ow_id w) x now"
  have rf: "os_tenant r = tn" "os_source r = si_source x" by (simp_all add: r_def settlement_row_def Let_def)
  obtain L1 where L1: "insert_settlement r L = Some L1"
    using p by (cases "insert_settlement r L") (auto simp: post_settlement_def r_def)
  then have L1': "L1 = L\<lparr>lg_settlements := lg_settlements L @ [r]\<rparr>"
    by (auto simp: insert_settlement_def split: if_splits)
  have w1: "get_org_wallet tn L1 (si_org x) = Some w" using w by (simp add: L1' get_org_wallet_def)
  have d: "distinct (map (\<lambda>w. (ow_tenant w, ow_org w)) (lg_wallets L1))"
    using ok by (simp add: L1' ledger_ok_def)
  note c = credit_org_wallet_active [OF d w1 a]
  define L2 where "L2 = L1\<lparr>lg_wallets := map (\<lambda>v. if wallet_of tn (si_org x) v
     then credited (os_amount r) now v else v) (lg_wallets L1)\<rparr>"
  have f: "settlement_by_source tn (L2\<lparr>lg_transactions := t\<rparr>) (si_source x) = Some r" for t
    using n rf by (simp add: L2_def L1' settlement_by_source_def select_one_append)
  define pay where "pay = settlement_tx tn (gen (lg_ids L + 1)) (ow_id w) Tx_Task_Payment (os_total r)
     (si_currency x) (gen (lg_ids L)) now"
  define fee where "fee = settlement_tx tn (gen (lg_ids L + 2)) (ow_id w) Tx_Platform_Fee (- os_platform r)
     (si_currency x) (gen (lg_ids L)) now"
  have "post_settlement gen tn x now w L =
     (case insert_wallet_tx pay L2 of
        None \<Rightarrow> (L2, Inl Wallet_Constraint)
      | Some L3 \<Rightarrow>
          (case insert_wallet_tx fee L3 of
             None \<Rightarrow> (L3, Inl Wallet_Constraint)
           | Some L4 \<Rightarrow>
               (L4\<lparr>lg_ids := lg_ids L + 3\<rparr>,
                case settlement_by_source tn L4 (si_source x) of
                  None \<Rightarrow> Inl Wallet_Constraint | Some s \<Rightarrow> Inr s)))"
    by (simp only: post_settlement_def Let_def r_def [symmetric] L1 option.case c L2_def [symmetric]
        pay_def [symmetric] fee_def [symmetric] prod.case)
  with p f have q: "L' = L2\<lparr>lg_transactions := lg_transactions L2 @ [pay, fee], lg_ids := lg_ids L + 3\<rparr>"
    "s = r"
    by (auto simp: insert_wallet_tx_def split: if_splits)
  show "L' = posted gen tn x now w L"
    unfolding q(1) posted_def Let_def r_def [symmetric] pay_def fee_def by (simp add: L2_def L1')
  show "s = settlement_row tn (gen (lg_ids L)) (ow_id w) x now" using q(2) by (simp add: r_def)
qed

lemma posted_ok:
  assumes ok: "ledger_ok L" and w: "get_org_wallet tn L (si_org x) = Some w"
    and n: "settlement_by_source tn L (si_source x) = None"
    and c: "ow_currency w = si_currency x" and v: "settle_valid x"
  shows "ledger_ok (posted gen tn x now w L)"
proof -
  define r where "r = settlement_row tn (gen (lg_ids L)) (ow_id w) x now"
  let ?L = "posted gen tn x now w L"
  let ?g = "\<lambda>u. if wallet_of tn (si_org x) u then credited (os_amount r) now u else u"
  have rf: "os_tenant r = tn" "os_org r = si_org x" "os_source r = si_source x" "os_wallet r = ow_id w"
    "os_currency r = si_currency x" "os_platform r + os_amount r = os_total r"
    "os_platform r = platform_share (os_total r) (os_pct r)" "os_total r = js_round (si_total x)"
    "os_pct r = js_round (si_pct x)"
    by (simp_all add: r_def settlement_row_def Let_def)
  have b: "0 \<le> os_platform r" "os_platform r \<le> os_total r" "0 < os_total r"
    using v platform_share_bounds [of "os_total r" "os_pct r"] by (simp_all add: rf settle_valid_def)
  have wm: "w \<in> set (lg_wallets L)" "ow_tenant w = tn" "ow_org w = si_org x"
    using w by (auto dest: get_org_wallet_SomeD simp: wallet_of_def)
  have W: "lg_wallets ?L = map ?g (lg_wallets L)" and S: "lg_settlements ?L = lg_settlements L @ [r]"
    by (simp_all add: posted_def Let_def r_def)
  have T: "lg_transactions ?L = lg_transactions L @
      [settlement_tx tn (gen (lg_ids L + 1)) (ow_id w) Tx_Task_Payment (os_total r) (si_currency x)
         (gen (lg_ids L)) now,
       settlement_tx tn (gen (lg_ids L + 2)) (ow_id w) Tx_Platform_Fee (- os_platform r) (si_currency x)
         (gen (lg_ids L)) now]"
    by (simp add: posted_def Let_def r_def)
  have g: "ow_id (?g u) = ow_id u" "ow_tenant (?g u) = ow_tenant u" "ow_org (?g u) = ow_org u"
    "ow_currency (?g u) = ow_currency u" "wallet_of a b (?g u) = wallet_of a b u" for u a b
    by simp_all
  have ids: "u = w" if "u \<in> set (lg_wallets L)" "ow_id u = ow_id w" for u
    using ok that wm by (auto simp: ledger_ok_def distinct_map dest: inj_onD)
  have own: "u = w" if "u \<in> set (lg_wallets L)" "wallet_of tn (si_org x) u" for u
    using ok that wm by (auto simp: ledger_ok_def wallet_of_def distinct_map dest: inj_onD)
  have M: "wallet_movements ?L (?g u) = wallet_movements L u + (if u = w then os_amount r else 0)"
    and E: "wallet_earnings ?L (?g u) = wallet_earnings L u + (if u = w then os_amount r else 0)"
    if "u \<in> set (lg_wallets L)" for u
  proof -
    have k: "ow_tenant u = tn \<and> ow_id u = ow_id w \<longleftrightarrow> u = w" using ids [OF that] wm by blast
    show "wallet_movements ?L (?g u) = wallet_movements L u + (if u = w then os_amount r else 0)"
      unfolding wallet_movements_def g T sum_where_simps using k rf(6)
      by (cases "u = w") (auto simp: settlement_tx_def)
    show "wallet_earnings ?L (?g u) = wallet_earnings L u + (if u = w then os_amount r else 0)"
      unfolding wallet_earnings_def g S sum_where_simps using k rf(1,4) by (cases "u = w") auto
  qed
  have B: "ow_balance (?g u) = ow_balance u + (if u = w then os_amount r else 0)"
    if "u \<in> set (lg_wallets L)" for u
  proof -
    have "wallet_of tn (si_org x) w" using wm by (simp add: wallet_of_def)
    then have "wallet_of tn (si_org x) u \<longleftrightarrow> u = w" using own [OF that] by blast
    then show ?thesis by simp
  qed
  have X: "(\<exists>u \<in> set (lg_wallets ?L). P u) \<longleftrightarrow> (\<exists>u \<in> set (lg_wallets L). P (?g u))" for P
    unfolding W set_map by blast
  have "settlement_ok (lg_wallets ?L) s" if "settlement_ok (lg_wallets L) s" for s
    using that unfolding settlement_ok_def X g .
  moreover have "settlement_ok (lg_wallets ?L) r"
    unfolding settlement_ok_def X g using wm b rf c by (auto simp: wallet_of_def)
  moreover have "\<exists>u \<in> set (lg_wallets ?L). ow_id u = wx_wallet t" if "t \<in> set (lg_transactions ?L)" for t
  proof -
    have "t \<in> set (lg_transactions L) \<or> wx_wallet t = ow_id w"
      using that unfolding T by (auto simp: settlement_tx_def)
    then have "\<exists>u \<in> set (lg_wallets L). ow_id u = wx_wallet t"
      using ok wm by (auto simp: ledger_ok_def)
    then show ?thesis unfolding X g .
  qed
  moreover have "distinct (map (\<lambda>s. (os_tenant s, os_source s)) (lg_settlements ?L))"
    using ok n unfolding S
    by (auto simp: ledger_ok_def settlement_by_source_def select_one_None_iff rf)
  moreover have "map ow_id (lg_wallets ?L) = map ow_id (lg_wallets L)"
    "map (\<lambda>w. (ow_tenant w, ow_org w)) (lg_wallets ?L) = map (\<lambda>w. (ow_tenant w, ow_org w)) (lg_wallets L)"
    unfolding W by (simp_all add: g del: credited_fields)
  moreover have "books_balance ?L"
    unfolding books_balance_def
  proof
    fix u assume "u \<in> set (lg_wallets ?L)"
    then have "u \<in> ?g ` set (lg_wallets L)" unfolding W set_map .
    then obtain u0 where u0: "u = ?g u0" "u0 \<in> set (lg_wallets L)" by (rule imageE)
    have "ow_balance u0 = wallet_movements L u0 \<and> ow_balance u0 = wallet_earnings L u0"
      using ok u0(2) unfolding ledger_ok_def books_balance_def by blast
    then show "ow_balance u = wallet_movements ?L u \<and> ow_balance u = wallet_earnings ?L u"
      unfolding u0(1) M [OF u0(2)] E [OF u0(2)] B [OF u0(2)] by simp
  qed
  ultimately show ?thesis using ok unfolding ledger_ok_def S by auto
qed

lemma ledger_ok_ids: "ledger_ok L \<Longrightarrow> ledger_ok (L\<lparr>lg_ids := k\<rparr>)"
proof -
  have "books_balance (L\<lparr>lg_ids := k\<rparr>) = books_balance L"
    by (simp add: books_balance_def wallet_movements_def wallet_earnings_def)
  then show "ledger_ok L \<Longrightarrow> ledger_ok (L\<lparr>lg_ids := k\<rparr>)" by (simp add: ledger_ok_def)
qed

text \<open>What a settlement does when it succeeds: nothing if the task was settled before, else one posting.\<close>

lemma settle_in_tx_cases:
  assumes "ledger_ok L" and "settle_in_tx gen tn x now L = (L', Inr s)"
  obtains (again) "settlement_by_source tn L (si_source x) = Some s" and "L' = L"
  | (paid) L1 w where "settlement_by_source tn L (si_source x) = None"
      and "get_or_create_wallet tn L (si_org x) (gen (lg_ids L)) now (si_currency x) = Some (L1, w)"
      and "ledger_ok (L1\<lparr>lg_ids := lg_ids L1 + 1\<rparr>)"
      and "get_org_wallet tn (L1\<lparr>lg_ids := lg_ids L1 + 1\<rparr>) (si_org x) = Some w"
      and "settlement_by_source tn (L1\<lparr>lg_ids := lg_ids L1 + 1\<rparr>) (si_source x) = None"
      and "ow_status w = Wallet_Active" and "ow_currency w = si_currency x"
      and "L' = posted gen tn x now w (L1\<lparr>lg_ids := lg_ids L1 + 1\<rparr>)"
      and "s = settlement_row tn (gen (lg_ids L + 1)) (ow_id w) x now"
proof (cases "settlement_by_source tn L (si_source x)")
  case (Some s')
  then have "s = s'" "L' = L" using assms(2) by (simp_all add: settle_in_tx_def)
  with Some show ?thesis by (intro again) simp_all
next
  case None
  have "get_or_create_wallet tn L (si_org x) (gen (lg_ids L)) now (si_currency x) \<noteq> None"
  proof
    assume "get_or_create_wallet tn L (si_org x) (gen (lg_ids L)) now (si_currency x) = None"
    with assms(2) None show False by (simp add: settle_in_tx_def)
  qed
  then obtain L1 w where g: "get_or_create_wallet tn L (si_org x) (gen (lg_ids L)) now (si_currency x) = Some (L1, w)"
    by auto
  have a: "ow_status w = Wallet_Active" "ow_currency w = si_currency x"
    and p: "post_settlement gen tn x now w (L1\<lparr>lg_ids := lg_ids L1 + 1\<rparr>) = (L', Inr s)"
    using assms(2) None g by (auto simp: settle_in_tx_def split: if_splits)
  have ok: "ledger_ok L1" and w: "get_org_wallet tn L1 (si_org x) = Some w"
    and n: "settlement_by_source tn L1 (si_source x) = None" and k: "lg_ids L1 = lg_ids L"
  proof -
    have "ledger_ok L1 \<and> get_org_wallet tn L1 (si_org x) = Some w
        \<and> lg_settlements L1 = lg_settlements L \<and> lg_ids L1 = lg_ids L"
      using g
    proof (cases rule: get_or_create_wallet_cases)
      case 1
      with assms(1) show ?thesis by simp
    next
      case 2
      have "wallet_of tn (si_org x) w" using 2(2) by (simp add: wallet_of_def fresh_wallet_def)
      with 2(3) have "get_org_wallet tn L1 (si_org x) = Some w"
        unfolding 2(1) by (simp add: get_org_wallet_def select_one_append)
      moreover have "ledger_ok L1" unfolding 2(1) using assms(1) 2(2-4) by (rule opened_wallet_ok)
      ultimately show ?thesis by (simp add: 2(1))
    qed
    with None show "ledger_ok L1" "get_org_wallet tn L1 (si_org x) = Some w"
      "settlement_by_source tn L1 (si_source x) = None" "lg_ids L1 = lg_ids L"
      by (simp_all add: settlement_by_source_def)
  qed
  have ok': "ledger_ok (L1\<lparr>lg_ids := lg_ids L1 + 1\<rparr>)" using ok by (rule ledger_ok_ids)
  have w': "get_org_wallet tn (L1\<lparr>lg_ids := lg_ids L1 + 1\<rparr>) (si_org x) = Some w"
    using w by (simp add: get_org_wallet_def)
  have n': "settlement_by_source tn (L1\<lparr>lg_ids := lg_ids L1 + 1\<rparr>) (si_source x) = None"
    using n by (simp add: settlement_by_source_def)
  note q = post_settlement_posted [OF ok' w' a(1) n' p]
  show ?thesis by (rule paid [OF None g ok' w' n' a q(1)]) (use q(2) k in simp)
qed

lemma settle_in_tx_ok:
  assumes ok: "ledger_ok L" and v: "settle_valid x" and s: "settle_in_tx gen tn x now L = (L', Inr s)"
  shows "ledger_ok L'"
  using ok s
proof (cases rule: settle_in_tx_cases)
  case again
  with ok show ?thesis by simp
next
  case (paid L1 w)
  show ?thesis unfolding paid(8) using paid(3,4,5,7) v by (rule posted_ok)
qed

lemma settle_org_task_payment_ok:
  assumes ok: "ledger_ok L"
  shows "ledger_ok (fst (settle_org_task_payment gen tn x now L))"
proof -
  have "ledger_ok (rolled_back L L')" for L' unfolding rolled_back_def by (rule ledger_ok_ids [OF ok])
  moreover have "settle_valid x \<Longrightarrow> settle_in_tx gen tn x now L = (L', Inr s) \<Longrightarrow> ledger_ok L'" for L' s
    using ok settle_in_tx_ok by blast
  ultimately show ?thesis using ok
    by (auto simp: settle_org_task_payment_def split: option.splits prod.splits sum.splits)
qed

text \<open>A settlement that is already in the books is never changed or removed.\<close>

lemma settle_in_tx_keeps:
  assumes "ledger_ok L" and "settle_in_tx gen tn x now L = (L', Inr s)"
  shows "set (lg_settlements L) \<subseteq> set (lg_settlements L')"
  using assms
proof (cases rule: settle_in_tx_cases)
  case (paid L1 w)
  have "lg_settlements L1 = lg_settlements L"
    using paid(2) by (cases rule: get_or_create_wallet_cases) auto
  then show ?thesis by (auto simp: paid(8) posted_def Let_def)
qed simp

definition org_balance :: "ident \<Rightarrow> org_ledger \<Rightarrow> ident \<Rightarrow> int" where
  "org_balance tn L org = (case get_org_wallet tn L org of None \<Rightarrow> 0 | Some w \<Rightarrow> ow_balance w)"

lemma posted_wallet:
  "get_org_wallet a (posted gen tn x now w L) b =
     map_option (\<lambda>v. if wallet_of tn (si_org x) v
        then credited (os_amount (settlement_row tn (gen (lg_ids L)) (ow_id w) x now)) now v else v)
       (get_org_wallet a L b)"
  unfolding get_org_wallet_def posted_def Let_def
  by (simp add: select_one_map if_distrib cong: if_cong)

lemma opened_wallet_balance:
  assumes "get_or_create_wallet tn L org i now cur = Some (L1, w)"
  shows "org_balance a L1 b = org_balance a L b" and "ow_balance w = org_balance tn L org"
    and "wallet_of tn org w"
proof -
  have f: "ow_balance (fresh_wallet tn org i now cur) = 0" "wallet_of tn org (fresh_wallet tn org i now cur)"
    by (simp_all add: fresh_wallet_def wallet_of_def)
  have s: "wallet_of tn org (fresh_wallet tn org i now cur)" using f by simp
  have "org_balance a L1 b = org_balance a L b \<and> ow_balance w = org_balance tn L org \<and> wallet_of tn org w"
    using assms
  proof (cases rule: get_or_create_wallet_cases)
    case 1
    then show ?thesis by (auto simp: org_balance_def dest: get_org_wallet_SomeD)
  next
    case 2
    have "get_org_wallet a L1 b = (case get_org_wallet a L b of
        None \<Rightarrow> if wallet_of a b w then Some w else None | Some v \<Rightarrow> Some v)"
      unfolding 2(1) get_org_wallet_def by (simp add: select_one_append split: option.split)
    with 2(2,3) f show ?thesis by (simp add: org_balance_def split: option.split)
  qed
  then show "org_balance a L1 b = org_balance a L b" "ow_balance w = org_balance tn L org" "wallet_of tn org w"
    by simp_all
qed

lemma org_balance_ids [simp]: "org_balance a (L\<lparr>lg_ids := k\<rparr>) b = org_balance a L b"
  by (simp add: org_balance_def get_org_wallet_def)

text \<open>
  The first settlement of a task pays the organisation that was named and nobody else; its balance
  grows by the gross amount less the share of the platform.
\<close>

lemma settle_in_tx_pays:
  assumes ok: "ledger_ok L" and s: "settle_in_tx gen tn x now L = (L', Inr s)"
    and n: "settlement_by_source tn L (si_source x) = None"
  shows "os_org s = si_org x" and "os_source s = si_source x" and "os_total s = js_round (si_total x)"
    and "os_amount s = js_round (si_total x) - platform_share (js_round (si_total x)) (js_round (si_pct x))"
    and "org_balance a L' b = org_balance a L b + (if a = tn \<and> b = si_org x then os_amount s else 0)"
    and "lg_settlements L' = lg_settlements L @ [s]"
proof -
  have "os_org s = si_org x \<and> os_source s = si_source x \<and> os_total s = js_round (si_total x)
     \<and> os_amount s = js_round (si_total x) - platform_share (js_round (si_total x)) (js_round (si_pct x))
     \<and> org_balance a L' b = org_balance a L b + (if a = tn \<and> b = si_org x then os_amount s else 0)
     \<and> lg_settlements L' = lg_settlements L @ [s]"
    using ok s
  proof (cases rule: settle_in_tx_cases)
    case again
    with n show ?thesis by simp
  next
    case (paid L1 w)
    note ob = opened_wallet_balance [OF paid(2)]
    have k: "lg_ids L1 = lg_ids L" and st: "lg_settlements L1 = lg_settlements L"
      using paid(2) by (cases rule: get_or_create_wallet_cases; simp)+
    have row: "settlement_row tn (gen (lg_ids (L1\<lparr>lg_ids := lg_ids L1 + 1\<rparr>))) (ow_id w) x now = s"
      by (simp add: paid(9) k)
    have row': "settlement_row tn (gen (Suc (lg_ids L1))) (ow_id w) x now = s"
      using row by simp
    have g: "get_org_wallet tn L1 (si_org x) = Some w" using paid(4) by (simp add: get_org_wallet_def)
    have "org_balance a L' b = org_balance a L1 b + (if a = tn \<and> b = si_org x then os_amount s else 0)"
    proof (cases "a = tn \<and> b = si_org x")
      case True
      then show ?thesis using paid(4) g ob(3)
        by (simp add: org_balance_def paid(8) posted_wallet row')
    next
      case False
      have "\<not> wallet_of tn (si_org x) v" if "get_org_wallet a L1 b = Some v" for v
        using get_org_wallet_SomeD [OF that] False by (auto simp: wallet_of_def)
      moreover have "get_org_wallet a (L1\<lparr>lg_ids := lg_ids L1 + 1\<rparr>) b = get_org_wallet a L1 b"
        by (simp add: get_org_wallet_def)
      ultimately show ?thesis using False
        by (auto simp: org_balance_def paid(8) posted_wallet split: option.split)
    qed
    moreover have "lg_settlements L' = lg_settlements L @ [s]"
      unfolding paid(8) posted_def Let_def row by (simp add: st)
    ultimately show ?thesis unfolding ob(1) by (simp add: paid(9) settlement_row_def Let_def)
  qed
  then show "os_org s = si_org x" "os_source s = si_source x" "os_total s = js_round (si_total x)"
    "os_amount s = js_round (si_total x) - platform_share (js_round (si_total x)) (js_round (si_pct x))"
    "org_balance a L' b = org_balance a L b + (if a = tn \<and> b = si_org x then os_amount s else 0)"
    "lg_settlements L' = lg_settlements L @ [s]"
    by blast+
qed

text \<open>No operation removes a settlement, so the first one of a task is the one that is found later.\<close>

lemma settlement_stays:
  assumes "settlement_by_source tn L t = Some s" and "lg_settlements L' = lg_settlements L @ xs"
  shows "settlement_by_source tn L' t = Some s"
  using assms by (simp add: settlement_by_source_def select_one_append)

lemma settle_in_tx_appends:
  assumes "ledger_ok L" and "settle_in_tx gen tn x now L = (L', Inr s)"
  shows "\<exists>xs. lg_settlements L' = lg_settlements L @ xs"
proof (cases "settlement_by_source tn L (si_source x)")
  case None
  then show ?thesis using settle_in_tx_pays(6) [OF assms] by blast
next
  case (Some s')
  with assms(2) show ?thesis by (auto simp: settle_in_tx_def)
qed

lemma settle_org_task_payment_appends:
  assumes "ledger_ok L"
  shows "\<exists>xs. lg_settlements (fst (settle_org_task_payment gen tn x now L)) = lg_settlements L @ xs"
  using settle_in_tx_appends [OF assms]
  by (auto simp: settle_org_task_payment_def rolled_back_def split: option.splits prod.splits sum.splits)

end
