(* ===== verification/Market_Tasks.thy ===== *)
theory Market_Tasks
  imports Prelude Js_Values
begin

text \<open>
  The table of market tasks, which digital persons and organisations share, with every statement
  that writes it: those of \<^verbatim>\<open>src/storage/executors/persona-core-executors.ts\<close> for persons and those of
  \<^verbatim>\<open>src/storage/org-workforce-store.ts\<close> for organisations. A statement is one atomic update; what its
  caller learns is whether a row changed.
\<close>

datatype market_status = Mkt_Open | Mkt_Accepted | Mkt_Completed | Mkt_Cancelled

datatype assignee_kind = Kind_Persona | Kind_Org

record market_task =
  mt_id :: ident
  mt_tenant :: ident
  mt_publisher :: ident
  mt_persona :: "ident option"
  mt_fork :: "ident option"
  mt_title :: string
  mt_description :: string
  mt_category :: string
  mt_reward :: rat
  mt_currency :: string
  mt_status :: market_status
  mt_quality :: "rat option"
  mt_growth :: "rat option"
  mt_published_at :: millis
  mt_accepted_at :: "millis option"
  mt_completed_at :: "millis option"
  mt_created_at :: millis
  mt_updated_at :: millis
  mt_kind :: assignee_kind
  mt_org :: "ident option"
  mt_verified :: bool

definition market_at :: "ident \<Rightarrow> ident \<Rightarrow> market_task \<Rightarrow> bool" where
  "market_at tn i r \<longleftrightarrow> mt_tenant r = tn \<and> mt_id r = i"

definition get_market_task :: "ident \<Rightarrow> market_task list \<Rightarrow> ident \<Rightarrow> market_task option" where
  "get_market_task tn ts i = select_one (market_at tn i) ts"

text \<open>\<^verbatim>\<open>publishTask\<close> inserts an open task; the primary key may refuse it.\<close>

definition publish_row ::
  "ident \<Rightarrow> ident \<Rightarrow> ident \<Rightarrow> string \<Rightarrow> string \<Rightarrow> string \<Rightarrow> rat \<Rightarrow> string \<Rightarrow> millis \<Rightarrow> market_task" where
  "publish_row tn i publisher title descr category reward cur now =
     \<lparr> mt_id = i, mt_tenant = tn, mt_publisher = publisher, mt_persona = None, mt_fork = None,
       mt_title = title, mt_description = descr, mt_category = category, mt_reward = reward,
       mt_currency = cur, mt_status = Mkt_Open, mt_quality = None, mt_growth = None,
       mt_published_at = now, mt_accepted_at = None, mt_completed_at = None, mt_created_at = now,
       mt_updated_at = now, mt_kind = Kind_Persona, mt_org = None, mt_verified = False \<rparr>"

definition market_cmd_publish :: "market_task \<Rightarrow> market_task list \<Rightarrow> market_task list \<times> nat" where
  "market_cmd_publish r ts = (if list_ex (\<lambda>q. mt_id q = mt_id r) ts then (ts, 0) else (ts @ [r], 1))"

text \<open>Taking an open task: for an organisation, for a person whose application was chosen, and directly.\<close>

definition mark_assigned_to_org ::
  "ident \<Rightarrow> ident \<Rightarrow> ident \<Rightarrow> millis \<Rightarrow> market_task list \<Rightarrow> market_task list \<times> nat" where
  "mark_assigned_to_org tn i org now =
     update_where (\<lambda>r. market_at tn i r \<and> mt_status r = Mkt_Open)
       (\<lambda>r. r\<lparr>mt_status := Mkt_Accepted, mt_kind := Kind_Org, mt_org := Some org,
              mt_accepted_at := Some now, mt_updated_at := now\<rparr>)"

definition market_cmd_accept_assignment ::
  "ident \<Rightarrow> ident \<Rightarrow> ident \<Rightarrow> millis \<Rightarrow> market_task list \<Rightarrow> market_task list \<times> nat" where
  "market_cmd_accept_assignment tn i p now =
     update_where (\<lambda>r. market_at tn i r \<and> mt_status r = Mkt_Open)
       (\<lambda>r. r\<lparr>mt_status := Mkt_Accepted, mt_persona := Some p, mt_accepted_at := Some now,
              mt_updated_at := now\<rparr>)"

definition market_cmd_accept_legacy ::
  "ident \<Rightarrow> ident \<Rightarrow> ident \<Rightarrow> ident option \<Rightarrow> millis \<Rightarrow> market_task list \<Rightarrow> market_task list \<times> nat" where
  "market_cmd_accept_legacy tn i p fork now =
     update_where (\<lambda>r. market_at tn i r \<and> mt_status r = Mkt_Open)
       (\<lambda>r. r\<lparr>mt_status := Mkt_Accepted, mt_persona := Some p, mt_fork := fork,
              mt_accepted_at := Some now, mt_updated_at := now\<rparr>)"

text \<open>Completing an accepted task, and putting it back on the market.\<close>

definition mark_completed_by_org ::
  "ident \<Rightarrow> ident \<Rightarrow> millis \<Rightarrow> market_task list \<Rightarrow> market_task list \<times> nat" where
  "mark_completed_by_org tn i now =
     update_where (\<lambda>r. market_at tn i r \<and> mt_status r = Mkt_Accepted)
       (\<lambda>r. r\<lparr>mt_status := Mkt_Completed, mt_completed_at := Some now, mt_updated_at := now\<rparr>)"

definition market_cmd_complete ::
  "ident \<Rightarrow> ident \<Rightarrow> rat \<Rightarrow> rat \<Rightarrow> millis \<Rightarrow> market_task list \<Rightarrow> market_task list \<times> nat" where
  "market_cmd_complete tn i q g now =
     update_where (\<lambda>r. market_at tn i r \<and> mt_status r = Mkt_Accepted)
       (\<lambda>r. r\<lparr>mt_status := Mkt_Completed, mt_quality := Some q, mt_growth := Some g,
              mt_completed_at := Some now, mt_updated_at := now\<rparr>)"

definition market_cmd_reopen ::
  "ident \<Rightarrow> ident \<Rightarrow> millis \<Rightarrow> market_task list \<Rightarrow> market_task list \<times> nat" where
  "market_cmd_reopen tn i now =
     update_where (\<lambda>r. market_at tn i r \<and> mt_status r = Mkt_Accepted)
       (\<lambda>r. r\<lparr>mt_status := Mkt_Open, mt_persona := None, mt_fork := None, mt_accepted_at := None,
              mt_updated_at := now\<rparr>)"

definition market_cmd_touch ::
  "ident \<Rightarrow> ident \<Rightarrow> millis \<Rightarrow> market_task list \<Rightarrow> market_task list \<times> nat" where
  "market_cmd_touch tn i now = update_where (market_at tn i) (\<lambda>r. r\<lparr>mt_updated_at := now\<rparr>)"

subsection \<open>Every statement of the table\<close>

datatype market_statement =
    St_Publish market_task
  | St_Assign_Org ident ident ident millis
  | St_Assign_Persona ident ident ident millis
  | St_Accept_Direct ident ident ident "ident option" millis
  | St_Complete_Org ident ident millis
  | St_Complete ident ident rat rat millis
  | St_Reopen ident ident millis
  | St_Touch ident ident millis

fun market_run :: "market_statement \<Rightarrow> market_task list \<Rightarrow> market_task list \<times> nat" where
  "market_run (St_Publish r) ts = market_cmd_publish r ts"
| "market_run (St_Assign_Org tn i org now) ts = mark_assigned_to_org tn i org now ts"
| "market_run (St_Assign_Persona tn i p now) ts = market_cmd_accept_assignment tn i p now ts"
| "market_run (St_Accept_Direct tn i p fork now) ts = market_cmd_accept_legacy tn i p fork now ts"
| "market_run (St_Complete_Org tn i now) ts = mark_completed_by_org tn i now ts"
| "market_run (St_Complete tn i q g now) ts = market_cmd_complete tn i q g now ts"
| "market_run (St_Reopen tn i now) ts = market_cmd_reopen tn i now ts"
| "market_run (St_Touch tn i now) ts = market_cmd_touch tn i now ts"

fun statement_key :: "market_statement \<Rightarrow> ident \<times> ident" where
  "statement_key (St_Publish r) = (mt_tenant r, mt_id r)"
| "statement_key (St_Assign_Org tn i org now) = (tn, i)"
| "statement_key (St_Assign_Persona tn i p now) = (tn, i)"
| "statement_key (St_Accept_Direct tn i p fork now) = (tn, i)"
| "statement_key (St_Complete_Org tn i now) = (tn, i)"
| "statement_key (St_Complete tn i q g now) = (tn, i)"
| "statement_key (St_Reopen tn i now) = (tn, i)"
| "statement_key (St_Touch tn i now) = (tn, i)"

fun is_taking :: "market_statement \<Rightarrow> bool" where
  "is_taking (St_Assign_Org tn i org now) = True"
| "is_taking (St_Assign_Persona tn i p now) = True"
| "is_taking (St_Accept_Direct tn i p fork now) = True"
| "is_taking _ = False"

fun is_completing :: "market_statement \<Rightarrow> bool" where
  "is_completing (St_Complete_Org tn i now) = True"
| "is_completing (St_Complete tn i q g now) = True"
| "is_completing _ = False"

fun is_offering :: "market_statement \<Rightarrow> bool" where
  "is_offering (St_Publish r) = True"
| "is_offering (St_Reopen tn i now) = True"
| "is_offering _ = False"

definition taking :: "market_statement \<Rightarrow> market_task list \<Rightarrow> market_task list \<times> bool" where
  "taking a ts = (fst (market_run a ts), is_taking a \<and> 0 < snd (market_run a ts))"

definition completing :: "market_statement \<Rightarrow> market_task list \<Rightarrow> market_task list \<times> bool" where
  "completing a ts = (fst (market_run a ts), is_completing a \<and> 0 < snd (market_run a ts))"

definition on_offer :: "market_task list \<Rightarrow> ident \<times> ident \<Rightarrow> bool" where
  "on_offer ts k \<longleftrightarrow> (\<exists>r \<in> set ts. market_at (fst k) (snd k) r \<and> mt_status r = Mkt_Open)"

definition incomplete :: "market_task list \<Rightarrow> ident \<times> ident \<Rightarrow> bool" where
  "incomplete ts k \<longleftrightarrow> (\<forall>r \<in> set ts. market_at (fst k) (snd k) r \<longrightarrow> mt_status r \<noteq> Mkt_Completed)"

definition market_keyed :: "market_task list \<Rightarrow> bool" where
  "market_keyed ts \<longleftrightarrow> distinct (map mt_id ts)"

lemmas market_cmd_defs = mark_assigned_to_org_def market_cmd_accept_assignment_def
  market_cmd_accept_legacy_def mark_completed_by_org_def market_cmd_complete_def
  market_cmd_reopen_def market_cmd_touch_def

interpretation offers: one_shot taking statement_key on_offer
    "\<lambda>a k. is_offering a \<and> statement_key a = k"
proof
  fix a :: market_statement and ts k
  show "on_offer ts (statement_key a)" if "snd (taking a ts)"
    using that by (cases a) (auto simp: taking_def on_offer_def market_cmd_defs)
  show "\<not> on_offer (fst (taking a ts)) (statement_key a)" if "snd (taking a ts)"
    using that by (cases a) (auto simp: taking_def on_offer_def market_cmd_defs market_at_def)
  show "\<not> on_offer (fst (taking a ts)) k"
    if "\<not> on_offer ts k" and "\<not> (is_offering a \<and> statement_key a = k)"
    using that by (cases a)
      (auto simp: taking_def on_offer_def market_cmd_defs market_at_def market_cmd_publish_def
        split: if_splits)
qed

lemma market_keyed_run: "market_keyed ts \<Longrightarrow> market_keyed (fst (market_run a ts))"
  by (cases a)
    (auto simp: market_keyed_def market_cmd_defs market_cmd_publish_def update_where_fst map_if_column
      list_ex_iff simp del: map_map)

lemma keyed_task_unique:
  "market_keyed ts \<Longrightarrow> q \<in> set ts \<Longrightarrow> r \<in> set ts \<Longrightarrow> market_at tn i q \<Longrightarrow> market_at tn i r \<Longrightarrow> q = r"
  by (auto simp: market_keyed_def market_at_def distinct_map dest: inj_onD)

lemma completed_row_kept:
  assumes r: "r \<in> set ts" "market_at tn i r" "mt_status r = Mkt_Completed"
  shows "\<exists>q \<in> set (fst (market_run a ts)). market_at tn i q \<and> mt_status q = Mkt_Completed"
proof (cases "\<exists>x. a = St_Publish x")
  case True
  with r show ?thesis by (auto simp: market_cmd_publish_def)
next
  case False
  with r show ?thesis
    by (cases a) (auto simp: market_cmd_defs market_at_def intro!: bexI [of _ r])
qed

interpretation completions: guarded_one_shot completing statement_key incomplete "\<lambda>a k. False" market_keyed
proof
  fix a :: market_statement and ts k
  assume k: "market_keyed ts"
  show "market_keyed (fst (completing a ts))" using market_keyed_run [OF k] by (simp add: completing_def)
  show "incomplete ts (statement_key a)" if "snd (completing a ts)"
  proof -
    have "\<exists>r \<in> set ts. market_at (fst (statement_key a)) (snd (statement_key a)) r \<and> mt_status r = Mkt_Accepted"
      using that by (cases a) (auto simp: completing_def market_cmd_defs)
    then obtain r where r: "r \<in> set ts" "market_at (fst (statement_key a)) (snd (statement_key a)) r"
      "mt_status r = Mkt_Accepted" by blast
    have "q = r" if "q \<in> set ts" "market_at (fst (statement_key a)) (snd (statement_key a)) q" for q
      by (rule keyed_task_unique [OF k that(1) r(1) that(2) r(2)])
    with r(3) show ?thesis by (auto simp: incomplete_def)
  qed
  show "\<not> incomplete (fst (completing a ts)) (statement_key a)" if "snd (completing a ts)"
    using that by (cases a) (auto simp: completing_def incomplete_def market_cmd_defs market_at_def)
  show "\<not> incomplete (fst (completing a ts)) k" if "\<not> incomplete ts k"
    using that completed_row_kept [of _ ts "fst k" "snd k" a]
    by (auto simp: completing_def incomplete_def)
qed

subsection \<open>A task is taken once and completed once\<close>

text \<open>
  C21: of all statements that take a task, for an organisation, for a chosen person or for a person
  that takes it directly, at most one succeeds for every time the task is put on the market; and of
  all statements that complete it, by either service, at most one ever succeeds, in any order.
\<close>

theorem task_taken_and_completed_once:
  assumes "market_keyed ts"
  shows "wins statement_key k as (snd (run_attempts taking as ts))
           \<le> (if on_offer ts k then 1 else 0) + count_where (\<lambda>a. is_offering a \<and> statement_key a = k) as
       \<and> wins statement_key k as (snd (run_attempts completing as ts)) \<le> (if incomplete ts k then 1 else 0)"
  using offers.wins_bound [of k as ts] completions.guarded_at_most_one_win [OF assms, of as k] by simp

theorem task_taken_and_completed_once_witness:
  "wins statement_key (''t'', ''m'')
     [St_Assign_Org ''t'' ''m'' ''o'' 1, St_Accept_Direct ''t'' ''m'' ''p'' None 2, St_Assign_Persona ''t'' ''m'' ''q'' 3]
     (snd (run_attempts taking
        [St_Assign_Org ''t'' ''m'' ''o'' 1, St_Accept_Direct ''t'' ''m'' ''p'' None 2, St_Assign_Persona ''t'' ''m'' ''q'' 3]
        [publish_row ''t'' ''m'' ''u'' ''x'' [] ''general'' 5 ''CRED'' 0])) \<le> 1"
  using task_taken_and_completed_once
    [where ts = "[publish_row ''t'' ''m'' ''u'' ''x'' [] ''general'' 5 ''CRED'' 0]" and k = "(''t'', ''m'')" and
      as = "[St_Assign_Org ''t'' ''m'' ''o'' 1, St_Accept_Direct ''t'' ''m'' ''p'' None 2, St_Assign_Persona ''t'' ''m'' ''q'' 3]"]
  by (simp add: market_keyed_def split: if_splits)

end
