(* ===== verification/Org_Bidding.thy ===== *)
theory Org_Bidding
  imports Org_Planning Org_Wallet Market_Tasks
begin

text \<open>
  An organisation takes a task from the market: it applies, the publisher delegates the task to it, a
  manager runs it as a goal, it is submitted, and the publisher's acceptance pays the treasury
  (\<^verbatim>\<open>src/workforce/org-bidding-service.ts\<close> with its tables in \<^verbatim>\<open>src/storage/org-workforce-store.ts\<close>). The
  operations that check before they open their transaction are two definitions, the check and the
  transaction, so that other operations may come between the two. The clock is read once per
  operation.
\<close>

datatype bid_status = Bid_Submitted | Bid_Assigned | Bid_Rejected | Bid_Withdrawn

record org_bid =
  ob_id :: ident
  ob_tenant :: ident
  ob_task :: ident
  ob_org :: ident
  ob_score :: nat
  ob_status :: bid_status
  ob_created_at :: millis
  ob_updated_at :: millis

datatype contract_status =
  Con_Assigned | Con_In_Progress | Con_Submitted | Con_Accepted | Con_Rejected | Con_Completed

record org_contract =
  oc_id :: ident
  oc_tenant :: ident
  oc_task :: ident
  oc_org :: ident
  oc_application :: "ident option"
  oc_goal :: "ident option"
  oc_status :: contract_status
  oc_assigned_at :: millis
  oc_submitted_at :: "millis option"
  oc_completed_at :: "millis option"
  oc_created_at :: millis
  oc_updated_at :: millis

record org_market =
  om_org :: org_state
  om_ledger :: org_ledger
  om_tasks :: "market_task list"
  om_bids :: "org_bid list"
  om_contracts :: "org_contract list"

datatype bid_error =
    Bid_Not_Available
  | Bid_Not_Publisher
  | Bid_No_Org
  | Bid_No_Application
  | Bid_Duplicate
  | Bid_State
  | Bid_Constraint
  | Bid_Plan plan_error
  | Bid_Wallet wallet_error

subsection \<open>Statements\<close>

definition bid_at :: "ident \<Rightarrow> ident \<Rightarrow> ident \<Rightarrow> org_bid \<Rightarrow> bool" where
  "bid_at tn task org r \<longleftrightarrow> ob_tenant r = tn \<and> ob_task r = task \<and> ob_org r = org"

definition get_org_bid :: "ident \<Rightarrow> org_bid list \<Rightarrow> ident \<Rightarrow> ident \<Rightarrow> org_bid option" where
  "get_org_bid tn bs task org = select_one (bid_at tn task org) bs"

definition insert_org_bid :: "org_bid \<Rightarrow> org_bid list \<Rightarrow> org_bid list option" where
  "insert_org_bid b bs =
     (if list_ex (\<lambda>q. ob_id q = ob_id b \<or> bid_at (ob_tenant b) (ob_task b) (ob_org b) q) bs then None
      else Some (bs @ [b]))"

definition set_org_bid_status ::
  "ident \<Rightarrow> org_bid list \<Rightarrow> ident \<Rightarrow> ident \<Rightarrow> bid_status \<Rightarrow> millis \<Rightarrow> org_bid list" where
  "set_org_bid_status tn bs task org st now =
     fst (update_where (bid_at tn task org) (\<lambda>r. r\<lparr>ob_status := st, ob_updated_at := now\<rparr>) bs)"

definition insert_org_contract :: "org_contract \<Rightarrow> org_contract list \<Rightarrow> org_contract list option" where
  "insert_org_contract c cs = (if list_ex (\<lambda>q. oc_id q = oc_id c) cs then None else Some (cs @ [c]))"

definition latest_contract :: "ident \<Rightarrow> org_contract list \<Rightarrow> ident \<Rightarrow> org_contract option" where
  "latest_contract tn cs task =
     (case rev (sort_key (\<lambda>c. (oc_created_at c, oc_id c))
              (filter (\<lambda>c. oc_tenant c = tn \<and> oc_task c = task) cs)) of
        [] \<Rightarrow> None | c # _ \<Rightarrow> Some c)"

definition contract_moved :: "contract_status \<Rightarrow> millis \<Rightarrow> ident option \<Rightarrow> org_contract \<Rightarrow> org_contract" where
  "contract_moved st now goal c =
     c\<lparr>oc_status := st, oc_updated_at := now,
       oc_goal := (case goal of None \<Rightarrow> oc_goal c | Some g \<Rightarrow> Some g),
       oc_submitted_at := (if st = Con_Submitted then Some now else oc_submitted_at c),
       oc_completed_at := (if st = Con_Accepted \<or> st = Con_Completed then Some now else oc_completed_at c)\<rparr>"

definition update_contract_status ::
  "ident \<Rightarrow> org_contract list \<Rightarrow> ident \<Rightarrow> contract_status \<Rightarrow> contract_status \<Rightarrow> millis \<Rightarrow> ident option
     \<Rightarrow> org_contract list \<times> nat" where
  "update_contract_status tn cs i a b now goal =
     update_where (\<lambda>c. oc_tenant c = tn \<and> oc_id c = i \<and> oc_status c = a) (contract_moved b now goal) cs"

subsection \<open>Applying and delegating\<close>

definition require_open_task :: "ident \<Rightarrow> org_market \<Rightarrow> ident \<Rightarrow> bid_error + market_task" where
  "require_open_task tn s i =
     (case get_market_task tn (om_tasks s) i of
        None \<Rightarrow> Inl Bid_Not_Available
      | Some t \<Rightarrow> if mt_status t \<noteq> Mkt_Open then Inl Bid_Not_Available else Inr t)"

definition used_org_id :: "org_market \<Rightarrow> org_market" where
  "used_org_id s = s\<lparr>om_org := used_id (om_org s)\<rparr>"

definition bid_row :: "ident \<Rightarrow> ident \<Rightarrow> ident \<Rightarrow> ident \<Rightarrow> nat \<Rightarrow> millis \<Rightarrow> org_bid" where
  "bid_row tn i task org score now =
     \<lparr> ob_id = i, ob_tenant = tn, ob_task = task, ob_org = org, ob_score = score,
       ob_status = Bid_Submitted, ob_created_at = now, ob_updated_at = now \<rparr>"

definition apply_as_org ::
  "(nat \<Rightarrow> ident) \<Rightarrow> ident \<Rightarrow> org_market \<Rightarrow> ident \<Rightarrow> ident \<Rightarrow> millis \<Rightarrow> org_market \<times> (bid_error + org_bid)" where
  "apply_as_org gen tn s task org now =
     (case require_open_task tn s task of
        Inl e \<Rightarrow> (s, Inl e)
      | Inr _ \<Rightarrow>
          let ws = list_workers tn (og_wf (om_org s)) org in
          if ws = [] then (s, Inl Bid_No_Org)
          else if get_org_bid tn (om_bids s) task org \<noteq> None then (s, Inl Bid_Duplicate)
          else
            let score = length (filter (\<lambda>w. dw_status w = Emp_Active) ws);
                b = bid_row tn (next_id gen (om_org s)) task org score now
            in (case insert_org_bid b (om_bids s) of
                  None \<Rightarrow> (used_org_id s, Inl Bid_Constraint)
                | Some bs \<Rightarrow>
                    (used_org_id (s\<lparr>om_bids := bs\<rparr>),
                     case get_org_bid tn bs task org of None \<Rightarrow> Inl Bid_Constraint | Some r \<Rightarrow> Inr r)))"

definition confirm_check ::
  "ident \<Rightarrow> org_market \<Rightarrow> ident \<Rightarrow> ident \<Rightarrow> ident \<Rightarrow> bid_error + org_bid" where
  "confirm_check tn s task org actor =
     (case require_open_task tn s task of
        Inl e \<Rightarrow> Inl e
      | Inr t \<Rightarrow>
          if mt_publisher t \<noteq> actor then Inl Bid_Not_Publisher
          else case get_org_bid tn (om_bids s) task org of
            None \<Rightarrow> Inl Bid_No_Application
          | Some b \<Rightarrow> if ob_status b \<noteq> Bid_Submitted then Inl Bid_No_Application else Inr b)"

definition contract_row :: "ident \<Rightarrow> ident \<Rightarrow> ident \<Rightarrow> ident \<Rightarrow> ident \<Rightarrow> millis \<Rightarrow> org_contract" where
  "contract_row tn i task org bid now =
     \<lparr> oc_id = i, oc_tenant = tn, oc_task = task, oc_org = org, oc_application = Some bid,
       oc_goal = None, oc_status = Con_Assigned, oc_assigned_at = now, oc_submitted_at = None,
       oc_completed_at = None, oc_created_at = now, oc_updated_at = now \<rparr>"

definition confirm_commit ::
  "(nat \<Rightarrow> ident) \<Rightarrow> ident \<Rightarrow> org_market \<Rightarrow> org_bid \<Rightarrow> ident \<Rightarrow> ident \<Rightarrow> millis
     \<Rightarrow> org_market \<times> (bid_error + org_contract)" where
  "confirm_commit gen tn s b task org now =
     (let c = contract_row tn (next_id gen (om_org s)) task org (ob_id b) now;
          (ts, n) = mark_assigned_to_org tn task org now (om_tasks s);
          bs = set_org_bid_status tn (om_bids s) task org Bid_Assigned now
      in if n = 0 then (used_org_id s, Inl Bid_Not_Available)
         else case insert_org_contract c (om_contracts s) of
           None \<Rightarrow> (used_org_id s, Inl Bid_Constraint)
         | Some cs \<Rightarrow>
             (case latest_contract tn cs task of
                None \<Rightarrow> (used_org_id s, Inl Bid_Constraint)
              | Some r \<Rightarrow>
                  (used_org_id (s\<lparr>om_tasks := ts, om_bids := bs, om_contracts := cs\<rparr>), Inr r)))"

definition confirm_assign_to_org ::
  "(nat \<Rightarrow> ident) \<Rightarrow> ident \<Rightarrow> org_market \<Rightarrow> ident \<Rightarrow> ident \<Rightarrow> ident \<Rightarrow> millis
     \<Rightarrow> org_market \<times> (bid_error + org_contract)" where
  "confirm_assign_to_org gen tn s task org actor now =
     (case confirm_check tn s task org actor of
        Inl e \<Rightarrow> (s, Inl e) | Inr b \<Rightarrow> confirm_commit gen tn s b task org now)"

subsection \<open>Starting, submitting and accepting\<close>

text \<open>
  Planning opens a transaction of its own, so the start is two: the contract is taken first and given
  back when planning fails.
\<close>

definition start_org_task ::
  "(nat \<Rightarrow> ident) \<Rightarrow> ident \<Rightarrow> playbook_registry \<Rightarrow> org_market \<Rightarrow> ident \<Rightarrow> ident \<Rightarrow> ident \<Rightarrow> string \<Rightarrow> millis
     \<Rightarrow> org_market \<times> (bid_error + org_contract \<times> goal_result)" where
  "start_org_task gen tn reg s task org mgr gtype now =
     (case latest_contract tn (om_contracts s) task of
        None \<Rightarrow> (s, Inl Bid_State)
      | Some c \<Rightarrow>
          if oc_org c \<noteq> org \<or> oc_status c \<noteq> Con_Assigned then (s, Inl Bid_State)
          else if get_worker tn (og_wf (om_org s)) org mgr = None then (s, Inl Bid_No_Org)
          else case get_market_task tn (om_tasks s) task of
            None \<Rightarrow> (s, Inl Bid_Not_Available)
          | Some t \<Rightarrow>
              let (cs1, n1) = update_contract_status tn (om_contracts s) (oc_id c) Con_Assigned
                    Con_In_Progress now None;
                  req = \<lparr> gr_title = mt_title t, gr_description = mt_description t, gr_type = gtype,
                          gr_source = Some task \<rparr>
              in if n1 = 0 then (s, Inl Bid_State)
                 else case run_goal gen tn reg (om_org s) org mgr req (worker_id_by_role tn (om_org s) org) now of
                   (og, Inl e) \<Rightarrow>
                     (s\<lparr>om_org := og,
                        om_contracts := fst (update_contract_status tn cs1 (oc_id c) Con_In_Progress
                          Con_Assigned now None)\<rparr>, Inl (Bid_Plan e))
                 | (og, Inr g) \<Rightarrow>
                     let (cs2, n2) = update_contract_status tn cs1 (oc_id c) Con_In_Progress
                           Con_In_Progress now (Some (gx_goal g));
                         s2 = s\<lparr>om_org := og, om_contracts := cs2\<rparr>
                     in if n2 = 0 then (s2, Inl Bid_State)
                        else (s2, case latest_contract tn cs2 task of
                                    None \<Rightarrow> Inl Bid_State | Some c' \<Rightarrow> Inr (c', g)))"

definition submit_org_task ::
  "ident \<Rightarrow> org_market \<Rightarrow> ident \<Rightarrow> ident \<Rightarrow> millis \<Rightarrow> org_market \<times> (bid_error + org_contract)" where
  "submit_org_task tn s task org now =
     (case latest_contract tn (om_contracts s) task of
        None \<Rightarrow> (s, Inl Bid_State)
      | Some c \<Rightarrow>
          if oc_org c \<noteq> org \<or> oc_status c \<noteq> Con_In_Progress then (s, Inl Bid_State)
          else
            let (cs, n) = update_contract_status tn (om_contracts s) (oc_id c) Con_In_Progress
                  Con_Submitted now None
            in if n = 0 then (s, Inl Bid_State)
               else (s\<lparr>om_contracts := cs\<rparr>,
                     case latest_contract tn cs task of None \<Rightarrow> Inl Bid_State | Some r \<Rightarrow> Inr r))"

record acceptance =
  ax_contract :: "org_contract option"
  ax_settlement :: "wallet_settlement option"
  ax_balance :: int

definition accept_check :: "ident \<Rightarrow> org_market \<Rightarrow> ident \<Rightarrow> ident \<Rightarrow> bid_error + market_task \<times> org_contract" where
  "accept_check tn s task actor =
     (case get_market_task tn (om_tasks s) task of
        None \<Rightarrow> Inl Bid_Not_Available
      | Some t \<Rightarrow>
          if mt_publisher t \<noteq> actor then Inl Bid_Not_Publisher
          else case latest_contract tn (om_contracts s) task of
            None \<Rightarrow> Inl Bid_State
          | Some c \<Rightarrow> if oc_status c \<noteq> Con_Submitted then Inl Bid_State else Inr (t, c))"

definition acceptance_input :: "market_task \<Rightarrow> org_contract \<Rightarrow> rat \<Rightarrow> settle_input" where
  "acceptance_input t c pct =
     \<lparr> si_org = oc_org c, si_source = mt_id t, si_goal = oc_goal c,
       si_total = of_int (js_round (mt_reward t * 100)), si_currency = mt_currency t, si_pct = pct \<rparr>"

definition acceptance_of ::
  "ident \<Rightarrow> org_market \<Rightarrow> ident \<Rightarrow> ident \<Rightarrow> wallet_settlement option \<Rightarrow> acceptance" where
  "acceptance_of tn s task org st =
     \<lparr> ax_contract = latest_contract tn (om_contracts s) task, ax_settlement = st,
       ax_balance = org_balance tn (om_ledger s) org \<rparr>"

definition accept_commit ::
  "(nat \<Rightarrow> ident) \<Rightarrow> ident \<Rightarrow> org_market \<Rightarrow> market_task \<Rightarrow> org_contract \<Rightarrow> rat \<Rightarrow> millis
     \<Rightarrow> org_market \<times> (bid_error + acceptance)" where
  "accept_commit gen tn s t c pct now =
     (let (cs, n1) = update_contract_status tn (om_contracts s) (oc_id c) Con_Submitted Con_Accepted now None;
          (ts, n2) = mark_completed_by_org tn (mt_id t) now (om_tasks s);
          s1 = s\<lparr>om_contracts := cs, om_tasks := ts\<rparr>
      in if n1 = 0 then (s, Inl Bid_State)
         else if n2 = 0 then (s, Inl Bid_State)
         else if js_round (mt_reward t * 100) \<le> 0 then
           (s1, Inr (acceptance_of tn s1 (mt_id t) (oc_org c) None))
         else case settle_in_tx gen tn (acceptance_input t c pct) now (om_ledger s) of
           (L, Inl e) \<Rightarrow> (s\<lparr>om_ledger := rolled_back (om_ledger s) L\<rparr>, Inl (Bid_Wallet e))
         | (L, Inr st) \<Rightarrow>
             let s2 = s1\<lparr>om_ledger := L\<rparr> in
             (s2, Inr (acceptance_of tn s2 (mt_id t) (oc_org c) (Some st))))"

definition accept_org_task ::
  "(nat \<Rightarrow> ident) \<Rightarrow> ident \<Rightarrow> org_market \<Rightarrow> ident \<Rightarrow> ident \<Rightarrow> rat option \<Rightarrow> millis
     \<Rightarrow> org_market \<times> (bid_error + acceptance)" where
  "accept_org_task gen tn s task actor pct now =
     (case accept_check tn s task actor of
        Inl e \<Rightarrow> (s, Inl e)
      | Inr (t, c) \<Rightarrow> accept_commit gen tn s t c (or_default pct 20) now)"

subsection \<open>Every event on the market of an organisation\<close>

text \<open>
  The two transactions take what their checks read, however old. \<open>Bid_Elsewhere\<close> is any work on the
  organisation itself (planning, restructuring) and \<open>Bid_Tasks\<close> any statement on the shared table
  of tasks, those for digital persons included. The routes admit a share of the platform between 0
  and 100 percent and whole amounts (\<^verbatim>\<open>src/server/schemas/api-schemas.ts\<close>).
\<close>

datatype bid_event =
    Bid_Apply ident ident millis
  | Bid_Confirm org_bid ident ident millis
  | Bid_Start playbook_registry ident ident ident string millis
  | Bid_Submit ident ident millis
  | Bid_Accept market_task org_contract int millis
  | Bid_Settle settle_input millis
  | Bid_Freeze ident wallet_status
  | Bid_Elsewhere org_state
  | Bid_Tasks market_statement

definition set_wallet_status :: "ident \<Rightarrow> ident \<Rightarrow> wallet_status \<Rightarrow> org_ledger \<Rightarrow> org_ledger" where
  "set_wallet_status tn org st L =
     L\<lparr>lg_wallets := fst (update_where (wallet_of tn org) (\<lambda>w. w\<lparr>ow_status := st\<rparr>) (lg_wallets L))\<rparr>"

fun bid_step :: "(nat \<Rightarrow> ident) \<Rightarrow> ident \<Rightarrow> org_market \<Rightarrow> bid_event \<Rightarrow> org_market" where
  "bid_step gen tn s (Bid_Apply task org now) = fst (apply_as_org gen tn s task org now)"
| "bid_step gen tn s (Bid_Confirm b task org now) = fst (confirm_commit gen tn s b task org now)"
| "bid_step gen tn s (Bid_Start reg task org mgr gtype now) =
     fst (start_org_task gen tn reg s task org mgr gtype now)"
| "bid_step gen tn s (Bid_Submit task org now) = fst (submit_org_task tn s task org now)"
| "bid_step gen tn s (Bid_Accept t c pct now) =
     (if 0 \<le> pct \<and> pct \<le> 100 then fst (accept_commit gen tn s t c (of_int pct) now) else s)"
| "bid_step gen tn s (Bid_Settle x now) =
     s\<lparr>om_ledger := fst (settle_org_task_payment gen tn x now (om_ledger s))\<rparr>"
| "bid_step gen tn s (Bid_Freeze org st) = s\<lparr>om_ledger := set_wallet_status tn org st (om_ledger s)\<rparr>"
| "bid_step gen tn s (Bid_Elsewhere og) = s\<lparr>om_org := og\<rparr>"
| "bid_step gen tn s (Bid_Tasks st) = s\<lparr>om_tasks := fst (market_run st (om_tasks s))\<rparr>"

lemma confirm_commit_ledger: "om_ledger (fst (confirm_commit gen tn s b task org now)) = om_ledger s"
  by (simp add: confirm_commit_def Let_def used_org_id_def split: prod.split option.split)

lemma apply_as_org_ledger: "om_ledger (fst (apply_as_org gen tn s task org now)) = om_ledger s"
  by (simp add: apply_as_org_def Let_def used_org_id_def split: sum.split option.split)

lemma start_org_task_ledger:
  "om_ledger (fst (start_org_task gen tn reg s task org mgr gtype now)) = om_ledger s"
  by (simp add: start_org_task_def Let_def split: option.split prod.split sum.split)

lemma submit_org_task_ledger: "om_ledger (fst (submit_org_task tn s task org now)) = om_ledger s"
  by (simp add: submit_org_task_def Let_def split: option.split prod.split)

lemma set_wallet_status_ok: "ledger_ok L \<Longrightarrow> ledger_ok (set_wallet_status tn org st L)"
proof -
  assume ok: "ledger_ok L"
  let ?f = "\<lambda>w. if wallet_of tn org w then w\<lparr>ow_status := st\<rparr> else w"
  let ?L = "set_wallet_status tn org st L"
  have W: "lg_wallets ?L = map ?f (lg_wallets L)" "lg_settlements ?L = lg_settlements L"
    "lg_transactions ?L = lg_transactions L"
    by (simp_all add: set_wallet_status_def update_where_fst)
  have f: "ow_id (?f w) = ow_id w" "ow_tenant (?f w) = ow_tenant w" "ow_org (?f w) = ow_org w"
    "ow_currency (?f w) = ow_currency w" "ow_balance (?f w) = ow_balance w"
    "wallet_of a b (?f w) = wallet_of a b w" for w a b
    by (simp_all add: wallet_of_def)
  have m: "wallet_movements ?L (?f w) = wallet_movements L w"
    "wallet_earnings ?L (?f w) = wallet_earnings L w" for w
    unfolding wallet_movements_def wallet_earnings_def W f by (rule refl)+
  have "books_balance ?L \<longleftrightarrow> books_balance L"
    unfolding books_balance_def W(1) set_map ball_simps(9) f m ..
  moreover have "settlement_ok (lg_wallets ?L) r \<longleftrightarrow> settlement_ok (lg_wallets L) r" for r
    unfolding settlement_ok_def W(1) set_map bex_simps(7) f ..
  moreover have "map ow_id (lg_wallets ?L) = map ow_id (lg_wallets L)"
    "map (\<lambda>w. (ow_tenant w, ow_org w)) (lg_wallets ?L) = map (\<lambda>w. (ow_tenant w, ow_org w)) (lg_wallets L)"
    unfolding W(1) map_map comp_def f by (rule refl)+
  moreover have "(\<exists>w \<in> set (lg_wallets ?L). ow_id w = i) \<longleftrightarrow> (\<exists>w \<in> set (lg_wallets L). ow_id w = i)" for i
    unfolding W(1) set_map bex_simps(7) f ..
  ultimately show "ledger_ok ?L" using ok unfolding ledger_ok_def W(2,3) by simp
qed

lemma accept_commit_ledger:
  assumes ok: "ledger_ok (om_ledger s)" and pct: "0 \<le> pct" "pct \<le> 100"
  shows "ledger_ok (om_ledger (fst (accept_commit gen tn s t c (of_int pct) now)))"
proof -
  let ?x = "acceptance_input t c (of_int pct)"
  have rb: "ledger_ok (rolled_back (om_ledger s) L)" for L
    unfolding rolled_back_def by (rule ledger_ok_ids [OF ok])
  have st: "ledger_ok L" if "settle_in_tx gen tn ?x now (om_ledger s) = (L, Inr r)"
    "\<not> js_round (mt_reward t * 100) \<le> 0" for L r
    by (rule settle_in_tx_ok [OF ok _ that(1)]) (use pct that(2) in \<open>simp add: settle_valid_def acceptance_input_def\<close>)
  show ?thesis
    using ok rb st unfolding accept_commit_def Let_def
    by (auto split: prod.split sum.split)
qed

lemma bid_step_ledger: "ledger_ok (om_ledger s) \<Longrightarrow> ledger_ok (om_ledger (bid_step gen tn s e))"
  by (cases e)
    (simp_all add: apply_as_org_ledger confirm_commit_ledger start_org_task_ledger submit_org_task_ledger
      accept_commit_ledger settle_org_task_payment_ok set_wallet_status_ok)

interpretation org_books: invariant_machine "bid_step gen tn" "\<lambda>s. ledger_ok (om_ledger s)" for gen tn
  by unfold_locales (rule bid_step_ledger)

subsection \<open>The books of every organisation\<close>

definition no_ledger :: org_ledger where
  "no_ledger = \<lparr> lg_wallets = [], lg_settlements = [], lg_transactions = [], lg_ids = 0 \<rparr>"

lemma no_ledger_ok: "ledger_ok no_ledger"
  by (simp add: ledger_ok_def no_ledger_def books_balance_def)

lemma sum_where_nonneg: "\<forall>r \<in> set t. 0 \<le> f r \<Longrightarrow> 0 \<le> sum_where p f t"
  by (induction t) auto

lemma ledger_ok_books:
  assumes "ledger_ok L" and "w \<in> set (lg_wallets L)"
  shows "ow_balance w = wallet_movements L w" and "ow_balance w = wallet_earnings L w" and "0 \<le> ow_balance w"
proof -
  show b: "ow_balance w = wallet_movements L w" "ow_balance w = wallet_earnings L w"
    using assms unfolding ledger_ok_def books_balance_def by blast+
  have "\<forall>r \<in> set (lg_settlements L). 0 \<le> os_amount r"
    using assms(1) by (auto simp: ledger_ok_def settlement_ok_def)
  then show "0 \<le> ow_balance w" unfolding b(2) wallet_earnings_def by (rule sum_where_nonneg)
qed

text \<open>
  C20: under any sequence of applications, delegations, starts, submissions, acceptances (on checks
  however old), settlements by an administrator, freezes, other work on the organisation and
  statements on the table of tasks, the books of every organisation agree: the balance of a treasury
  is the sum of its transactions and the sum of what its settlements left it, never negative; every
  settlement splits its amount between platform and organisation without remainder; and no task was
  settled twice.
\<close>

theorem org_books_balance:
  assumes "L = om_ledger (foldl (bid_step gen tn) (s\<lparr>om_ledger := no_ledger\<rparr>) es)"
  shows "(\<forall>w \<in> set (lg_wallets L). ow_balance w = wallet_movements L w
            \<and> ow_balance w = wallet_earnings L w \<and> 0 \<le> ow_balance w)
       \<and> (\<forall>r \<in> set (lg_settlements L). os_platform r + os_amount r = os_total r
            \<and> os_platform r = os_total r * os_pct r div 100 \<and> 0 \<le> os_platform r \<and> 0 \<le> os_amount r)
       \<and> distinct (map (\<lambda>r. (os_tenant r, os_source r)) (lg_settlements L))"
proof -
  have ok: "ledger_ok L"
    unfolding assms by (rule org_books.run_invar) (simp add: no_ledger_ok)
  then have "\<forall>r \<in> set (lg_settlements L). settlement_ok (lg_wallets L) r"
    and "distinct (map (\<lambda>r. (os_tenant r, os_source r)) (lg_settlements L))"
    by (simp_all add: ledger_ok_def)
  with ledger_ok_books [OF ok] show ?thesis
    unfolding settlement_ok_def platform_share_def by blast
qed

subsection \<open>What an acceptance pays\<close>

lemma accept_org_task_Inr:
  assumes "accept_org_task gen tn s task actor pct now = (s', Inr r)"
  obtains t c where "get_market_task tn (om_tasks s) task = Some t" and "mt_publisher t = actor"
    and "latest_contract tn (om_contracts s) task = Some c" and "oc_status c = Con_Submitted"
    and "accept_commit gen tn s t c (or_default pct 20) now = (s', Inr r)"
  using assms
  by (auto simp: accept_org_task_def accept_check_def split: option.splits if_splits)

lemma get_market_task_at: "get_market_task tn ts i = Some t \<Longrightarrow> t \<in> set ts \<and> mt_tenant t = tn \<and> mt_id t = i"
  unfolding get_market_task_def by (auto dest: select_one_SomeD simp: market_at_def)

lemma accept_commit_Inr:
  assumes "accept_commit gen tn s t c pct now = (s', Inr r)"
  shows "om_tasks s' = fst (mark_completed_by_org tn (mt_id t) now (om_tasks s))"
    and "\<exists>q \<in> set (om_tasks s). market_at tn (mt_id t) q \<and> mt_status q = Mkt_Accepted"
    and "om_contracts s' = fst (update_contract_status tn (om_contracts s) (oc_id c) Con_Submitted Con_Accepted now None)"
    and "\<exists>q \<in> set (om_contracts s). oc_tenant q = tn \<and> oc_id q = oc_id c \<and> oc_status q = Con_Submitted"
    and "js_round (mt_reward t * 100) \<le> 0 \<Longrightarrow> om_ledger s' = om_ledger s \<and> ax_settlement r = None"
    and "0 < js_round (mt_reward t * 100) \<Longrightarrow>
      \<exists>st. settle_in_tx gen tn (acceptance_input t c pct) now (om_ledger s) = (om_ledger s', Inr st)
         \<and> ax_settlement r = Some st"
proof -
  let ?u = "update_contract_status tn (om_contracts s) (oc_id c) Con_Submitted Con_Accepted now None"
  let ?m = "mark_completed_by_org tn (mt_id t) now (om_tasks s)"
  have n: "0 < snd ?u" "0 < snd ?m"
    using assms by (auto simp: accept_commit_def Let_def split: prod.splits if_splits)
  show "\<exists>q \<in> set (om_tasks s). market_at tn (mt_id t) q \<and> mt_status q = Mkt_Accepted"
    using n(2) by (simp add: mark_completed_by_org_def)
  show "\<exists>q \<in> set (om_contracts s). oc_tenant q = tn \<and> oc_id q = oc_id c \<and> oc_status q = Con_Submitted"
    using n(1) by (simp add: update_contract_status_def)
  have e: "accept_commit gen tn s t c pct now =
     (let s1 = s\<lparr>om_contracts := fst ?u, om_tasks := fst ?m\<rparr> in
      if js_round (mt_reward t * 100) \<le> 0 then (s1, Inr (acceptance_of tn s1 (mt_id t) (oc_org c) None))
      else case settle_in_tx gen tn (acceptance_input t c pct) now (om_ledger s) of
         (L, Inl e) \<Rightarrow> (s\<lparr>om_ledger := rolled_back (om_ledger s) L\<rparr>, Inl (Bid_Wallet e))
       | (L, Inr st) \<Rightarrow>
           (s1\<lparr>om_ledger := L\<rparr>, Inr (acceptance_of tn (s1\<lparr>om_ledger := L\<rparr>) (mt_id t) (oc_org c) (Some st))))"
    using n by (simp add: accept_commit_def Let_def split_beta)
  show "om_tasks s' = fst ?m" and "om_contracts s' = fst ?u"
    and "js_round (mt_reward t * 100) \<le> 0 \<Longrightarrow> om_ledger s' = om_ledger s \<and> ax_settlement r = None"
    and "0 < js_round (mt_reward t * 100) \<Longrightarrow>
      \<exists>st. settle_in_tx gen tn (acceptance_input t c pct) now (om_ledger s) = (om_ledger s', Inr st)
         \<and> ax_settlement r = Some st"
    using assms unfolding e Let_def
    by (auto simp: acceptance_of_def split: if_splits prod.splits sum.splits)
qed

lemma acceptance_input_fields [simp]:
  "si_org (acceptance_input t c pct) = oc_org c"
  "si_source (acceptance_input t c pct) = mt_id t"
  "js_round (si_total (acceptance_input t c pct)) = js_round (mt_reward t * 100)"
  "si_pct (acceptance_input t c pct) = pct"
  by (simp_all add: acceptance_input_def)

lemma settle_in_tx_again:
  "settlement_by_source tn L (si_source x) = Some st \<Longrightarrow> settle_in_tx gen tn x now L = (L, Inr st)"
  by (simp add: settle_in_tx_def)

text \<open>
  C23: an acceptance that succeeds was made by the publisher of the task, on a submitted contract, and
  completes the task. If the task was never settled before, the organisation that holds the contract
  gains the reward less the share of the platform, and no other balance moves; if it was, nothing is
  paid and the old settlement is returned.
\<close>

theorem acceptance_pays_assigned_org:
  assumes ok: "ledger_ok (om_ledger s)"
    and acc: "accept_org_task gen tn s task actor pct now = (s', Inr r)"
  shows "\<exists>t c. get_market_task tn (om_tasks s) task = Some t \<and> mt_publisher t = actor
     \<and> latest_contract tn (om_contracts s) task = Some c \<and> oc_status c = Con_Submitted
     \<and> (\<exists>q \<in> set (om_tasks s'). market_at tn task q \<and> mt_status q = Mkt_Completed)
     \<and> (let n = js_round (mt_reward t * 100); p = js_round (or_default pct 20) in
         if n \<le> 0 then om_ledger s' = om_ledger s
         else case settlement_by_source tn (om_ledger s) task of
           Some st \<Rightarrow> om_ledger s' = om_ledger s \<and> ax_settlement r = Some st
         | None \<Rightarrow> \<forall>a b. org_balance a (om_ledger s') b = org_balance a (om_ledger s) b
             + (if a = tn \<and> b = oc_org c then n - n * p div 100 else 0))"
proof -
  from acc obtain t c where t: "get_market_task tn (om_tasks s) task = Some t" "mt_publisher t = actor"
    and c: "latest_contract tn (om_contracts s) task = Some c" "oc_status c = Con_Submitted"
    and cm: "accept_commit gen tn s t c (or_default pct 20) now = (s', Inr r)"
    by (rule accept_org_task_Inr)
  have mt: "mt_id t = task" using get_market_task_at [OF t(1)] by simp
  note a = accept_commit_Inr [OF cm]
  have finished: "\<exists>q \<in> set (om_tasks s'). market_at tn task q \<and> mt_status q = Mkt_Completed"
    using a(2) unfolding a(1) mt mark_completed_by_org_def by (auto simp: market_at_def)
  let ?n = "js_round (mt_reward t * 100)" and ?p = "js_round (or_default pct 20)"
  have pay: "if ?n \<le> 0 then om_ledger s' = om_ledger s
      else case settlement_by_source tn (om_ledger s) task of
        Some st \<Rightarrow> om_ledger s' = om_ledger s \<and> ax_settlement r = Some st
      | None \<Rightarrow> \<forall>a b. org_balance a (om_ledger s') b = org_balance a (om_ledger s) b
          + (if a = tn \<and> b = oc_org c then ?n - ?n * ?p div 100 else 0)"
  proof (cases "?n \<le> 0")
    case True
    with a(5) show ?thesis by simp
  next
    case False
    with a(6) obtain st where st: "settle_in_tx gen tn (acceptance_input t c (or_default pct 20)) now (om_ledger s)
        = (om_ledger s', Inr st)" "ax_settlement r = Some st" by auto
    show ?thesis
    proof (cases "settlement_by_source tn (om_ledger s) task")
      case None
      then have "settlement_by_source tn (om_ledger s) (si_source (acceptance_input t c (or_default pct 20))) = None"
        by (simp add: mt)
      note settle_in_tx_pays(4,5) [OF ok st(1) this]
      with None False show ?thesis by (simp add: platform_share_def)
    next
      case (Some old)
      with st False settle_in_tx_again [where x = "acceptance_input t c (or_default pct 20)"] mt
      show ?thesis by simp
    qed
  qed
  show ?thesis using t c finished pay unfolding Let_def by blast
qed

text \<open>A settlement of a task, once made, stays the settlement of that task.\<close>

lemma bid_step_appends:
  assumes ok: "ledger_ok (om_ledger s)"
  shows "\<exists>xs. lg_settlements (om_ledger (bid_step gen tn s e)) = lg_settlements (om_ledger s) @ xs"
proof (cases e)
  case (Bid_Accept t c pct now)
  let ?r = "accept_commit gen tn s t c (of_int pct) now"
  have "\<exists>xs. lg_settlements (om_ledger (fst ?r)) = lg_settlements (om_ledger s) @ xs"
  proof (cases "settle_in_tx gen tn (acceptance_input t c (of_int pct)) now (om_ledger s)")
    case (Pair L o')
    show ?thesis
    proof (cases o')
      case (Inl er)
      with Pair show ?thesis
        by (simp add: accept_commit_def Let_def rolled_back_def split: prod.split)
    next
      case (Inr st)
      with Pair settle_in_tx_appends [OF ok, of gen tn _ now L st] show ?thesis
        by (auto simp: accept_commit_def Let_def split: prod.split)
    qed
  qed
  with Bid_Accept show ?thesis by simp
qed (use settle_org_task_payment_appends [OF ok] in
     \<open>simp_all add: apply_as_org_ledger confirm_commit_ledger start_org_task_ledger submit_org_task_ledger
        set_wallet_status_def\<close>)

lemma run_keeps_settlement:
  "ledger_ok (om_ledger s) \<Longrightarrow> settlement_by_source tn (om_ledger s) task = Some st \<Longrightarrow>
   settlement_by_source tn (om_ledger (foldl (bid_step gen tn) s es)) task = Some st"
proof (induction es arbitrary: s)
  case (Cons e es)
  obtain xs where "lg_settlements (om_ledger (bid_step gen tn s e)) = lg_settlements (om_ledger s) @ xs"
    using bid_step_appends [OF Cons.prems(1)] by blast
  then have "settlement_by_source tn (om_ledger (bid_step gen tn s e)) task = Some st"
    by (rule settlement_stays [OF Cons.prems(2)])
  with Cons.IH [OF bid_step_ledger [OF Cons.prems(1)]] show ?case by simp
qed simp

lemma settle_org_task_payment_found:
  assumes ok: "ledger_ok L" and p: "settle_org_task_payment gen tn x now L = (L', Inr (Some st))"
  shows "settlement_by_source tn L' (si_source x) = Some st"
proof (cases "settlement_by_source tn L (si_source x)")
  case (Some old)
  with p show ?thesis by (auto simp: settle_org_task_payment_def split: if_splits)
next
  case None
  have s: "settle_in_tx gen tn x now L = (L', Inr st)"
    using p None by (auto simp: settle_org_task_payment_def split: if_splits prod.splits sum.splits)
  have "os_source st = si_source x \<and> os_tenant st = tn"
    using ok s
  proof (cases rule: settle_in_tx_cases)
    case (paid L1 w)
    then show ?thesis by (simp add: settlement_row_def Let_def)
  qed (use None in simp)
  with None show ?thesis
    using settle_in_tx_pays(6) [OF ok s None]
    by (simp add: settlement_by_source_def select_one_append)
qed

text \<open>
  whoever settles a task first through the route of the administrators (for any organisation and
  any amount, the publisher is not asked) decides what is ever paid for it: a later acceptance by the
  publisher completes the task, moves no money, and returns the settlement of the other organisation.
\<close>

theorem settled_task_never_paid:
  assumes ok: "ledger_ok (om_ledger s)"
    and first: "settle_org_task_payment gen tn x now0 (om_ledger s) = (L, Inr (Some st))"
    and run: "s1 = foldl (bid_step gen tn) (s\<lparr>om_ledger := L\<rparr>) es"
    and acc: "accept_org_task gen tn s1 (si_source x) actor pct now = (s', Inr r)"
  shows "om_ledger s' = om_ledger s1 \<and> (ax_settlement r = None \<or> ax_settlement r = Some st)"
proof -
  have L: "ledger_ok L" using settle_org_task_payment_ok [OF ok, of gen tn x now0] first by simp
  then have ok1: "ledger_ok (om_ledger s1)" unfolding run by (intro org_books.run_invar) simp
  have found: "settlement_by_source tn (om_ledger s1) (si_source x) = Some st"
    unfolding run
    by (rule run_keeps_settlement) (use L settle_org_task_payment_found [OF ok first] in simp_all)
  from acc obtain t c where t: "get_market_task tn (om_tasks s1) (si_source x) = Some t"
    and cm: "accept_commit gen tn s1 t c (or_default pct 20) now = (s', Inr r)"
    by (rule accept_org_task_Inr)
  have mt: "mt_id t = si_source x" using get_market_task_at [OF t] by simp
  note a = accept_commit_Inr [OF cm]
  show ?thesis
  proof (cases "js_round (mt_reward t * 100) \<le> 0")
    case True
    with a(5) show ?thesis by simp
  next
    case False
    with a(6) settle_in_tx_again [where x = "acceptance_input t c (or_default pct 20)"] found mt
    show ?thesis by auto
  qed
qed

subsection \<open>A start that fails\<close>

lemma latest_contract_SomeD:
  assumes "latest_contract tn cs task = Some c"
  shows "c \<in> set cs" and "oc_tenant c = tn" and "oc_task c = task"
proof -
  let ?l = "sort_key (\<lambda>c. (oc_created_at c, oc_id c)) (filter (\<lambda>c. oc_tenant c = tn \<and> oc_task c = task) cs)"
  have "c \<in> set (rev ?l)"
    using assms unfolding latest_contract_def by (cases "rev ?l") (simp_all del: rev_eq_Cons_iff)
  then show "c \<in> set cs" "oc_tenant c = tn" "oc_task c = task" by simp_all
qed

lemma latest_contract_None_iff:
  "latest_contract tn cs task = None \<longleftrightarrow> (\<forall>c \<in> set cs. \<not> (oc_tenant c = tn \<and> oc_task c = task))"
proof -
  let ?l = "sort_key (\<lambda>c. (oc_created_at c, oc_id c)) (filter (\<lambda>c. oc_tenant c = tn \<and> oc_task c = task) cs)"
  have "latest_contract tn cs task = None \<longleftrightarrow> rev ?l = []"
    unfolding latest_contract_def by (cases "rev ?l") (simp_all del: rev_eq_Cons_iff rev_is_Nil_conv)
  then have "latest_contract tn cs task = None \<longleftrightarrow> filter (\<lambda>c. oc_tenant c = tn \<and> oc_task c = task) cs = []"
    by simp
  then show ?thesis by (simp add: filter_empty_conv)
qed

lemma contract_moved_fields [simp]:
  "oc_id (contract_moved st now g c) = oc_id c"
  "oc_tenant (contract_moved st now g c) = oc_tenant c"
  "oc_task (contract_moved st now g c) = oc_task c"
  "oc_org (contract_moved st now g c) = oc_org c"
  "oc_status (contract_moved st now g c) = st"
  by (simp_all add: contract_moved_def)

text \<open>Taken and given back, a contract differs in nothing but the time of its last change.\<close>

lemma given_back:
  assumes u: "\<forall>q \<in> set cs. oc_id q = oc_id c \<longrightarrow> q = c" and st: "oc_status c = Con_Assigned"
  shows "map (\<lambda>q. q\<lparr>oc_updated_at := 0\<rparr>)
      (fst (update_contract_status tn (fst (update_contract_status tn cs (oc_id c) Con_Assigned
         Con_In_Progress now None)) (oc_id c) Con_In_Progress Con_Assigned now None))
     = map (\<lambda>q. q\<lparr>oc_updated_at := 0\<rparr>) cs"
proof -
  have "c\<lparr>oc_status := Con_Assigned\<rparr> = c" using st by simp
  with u st show ?thesis
    by (auto simp: update_contract_status_def update_where_fst contract_moved_def)
qed

text \<open>
  a start that fails leaves nothing behind: no goal, no task and no report of the organisation, no
  money and no task of the market is touched, and the contract is assigned again, so that the start can
  be repeated; only the time of the last change of the contract and the identifiers drawn differ.
\<close>

theorem failed_start_gives_back:
  assumes k: "distinct (map oc_id (om_contracts s))"
    and f: "start_org_task gen tn reg s task org mgr gtype now = (s', Inl e)"
  shows "om_ledger s' = om_ledger s \<and> om_tasks s' = om_tasks s \<and> om_bids s' = om_bids s
     \<and> (om_org s')\<lparr>og_ids := 0\<rparr> = (om_org s)\<lparr>og_ids := 0\<rparr>
     \<and> map (\<lambda>c. c\<lparr>oc_updated_at := 0\<rparr>) (om_contracts s') = map (\<lambda>c. c\<lparr>oc_updated_at := 0\<rparr>) (om_contracts s)"
proof (cases "s' = s")
  case True
  then show ?thesis by simp
next
  case False
  then obtain c where c: "latest_contract tn (om_contracts s) task = Some c" "oc_org c = org"
    "oc_status c = Con_Assigned"
    using f by (auto simp: start_org_task_def split: option.splits if_splits)
  note cm = latest_contract_SomeD [OF c(1)]
  let ?u1 = "update_contract_status tn (om_contracts s) (oc_id c) Con_Assigned Con_In_Progress now None"
  have u: "\<forall>q \<in> set (om_contracts s). oc_id q = oc_id c \<longrightarrow> q = c"
    using k cm(1) by (auto simp: distinct_map dest: inj_onD)
  have n1: "0 < snd ?u1" unfolding update_contract_status_def update_where_hits using cm c(3) by blast
  obtain wk where w: "get_worker tn (og_wf (om_org s)) org mgr = Some wk"
    using f False c by (auto simp: start_org_task_def split: if_splits)
  then obtain t where t: "get_market_task tn (om_tasks s) task = Some t"
    using f False c by (auto simp: start_org_task_def split: option.splits)
  define req where "req = \<lparr> gr_title = mt_title t, gr_description = mt_description t, gr_type = gtype,
     gr_source = Some task \<rparr>"
  obtain og o' where rg: "run_goal gen tn reg (om_org s) org mgr req (worker_id_by_role tn (om_org s) org) now = (og, o')"
    by fastforce
  let ?u2 = "\<lambda>g. update_contract_status tn (fst ?u1) (oc_id c) Con_In_Progress Con_In_Progress now (Some (gx_goal g))"
  have q: "start_org_task gen tn reg s task org mgr gtype now =
     (case o' of
        Inl e \<Rightarrow>
          (s\<lparr>om_org := og, om_contracts := fst (update_contract_status tn (fst ?u1) (oc_id c) Con_In_Progress
             Con_Assigned now None)\<rparr>, Inl (Bid_Plan e))
      | Inr g \<Rightarrow>
          if snd (?u2 g) = 0 then (s\<lparr>om_org := og, om_contracts := fst (?u2 g)\<rparr>, Inl Bid_State)
          else (s\<lparr>om_org := og, om_contracts := fst (?u2 g)\<rparr>,
                case latest_contract tn (fst (?u2 g)) task of
                  None \<Rightarrow> Inl Bid_State | Some c' \<Rightarrow> Inr (c', g)))"
    unfolding start_org_task_def c(1) option.case
    using c(2,3) n1 w t rg by (cases o') (simp_all add: Let_def split_beta req_def)
  show ?thesis
  proof (cases o')
    case (Inl er)
    with rg have "og = undone (om_org s) og" using run_goal_Inl by blast
    then have "og\<lparr>og_ids := 0\<rparr> = (undone (om_org s) og)\<lparr>og_ids := 0\<rparr>" by (rule arg_cong)
    then have "og\<lparr>og_ids := 0\<rparr> = (om_org s)\<lparr>og_ids := 0\<rparr>" by (simp add: undone_def)
    with given_back [OF u c(3), of tn now] f Inl show ?thesis unfolding q by auto
  next
    case (Inr g)
    have in1: "contract_moved Con_In_Progress now None c \<in> set (fst ?u1)"
      using cm c(3) by (auto simp: update_contract_status_def update_where_fst)
    then have n2: "0 < snd (?u2 g)"
      unfolding update_contract_status_def [of tn "fst ?u1"] update_where_hits
      using cm by (intro bexI [of _ "contract_moved Con_In_Progress now None c"]) simp_all
    have "\<exists>r \<in> set (fst (?u2 g)). oc_tenant r = tn \<and> oc_task r = task"
      unfolding update_contract_status_def [of tn "fst ?u1"] bex_update_where
      using in1 cm by (intro bexI [of _ "contract_moved Con_In_Progress now None c"]) simp_all
    then have "latest_contract tn (fst (?u2 g)) task \<noteq> None" by (auto simp: latest_contract_None_iff)
    with n2 f Inr show ?thesis unfolding q by auto
  qed
qed

subsection \<open>The properties on a concrete market\<close>

definition ex_offer :: market_task where
  "ex_offer = publish_row ''t'' ''m'' ''u'' ''x'' [] ''general'' 5 ''CRED'' 0"

definition ex_market :: org_market where
  "ex_market = \<lparr> om_org = ex_org, om_ledger = no_ledger, om_tasks = [ex_offer], om_bids = [], om_contracts = [] \<rparr>"

definition ex_delegated :: org_market where
  "ex_delegated = fst (confirm_assign_to_org ex_gen ''t'' (fst (apply_as_org ex_gen ''t'' ex_market ''m'' ''o'' 1))
     ''m'' ''o'' ''u'' 2)"

definition ex_delivered :: org_market where
  "ex_delivered = ex_delegated\<lparr>om_contracts := map (\<lambda>c. c\<lparr>oc_status := Con_Submitted\<rparr>) (om_contracts ex_delegated)\<rparr>"

definition ex_payment :: "ident \<Rightarrow> settle_input" where
  "ex_payment org = \<lparr> si_org = org, si_source = ''m'', si_goal = None, si_total = 101, si_currency = ''CRED'', si_pct = 20 \<rparr>"

theorem org_books_balance_witness:
  "\<exists>w. w \<in> set (lg_wallets (om_ledger (foldl (bid_step ex_gen ''t'') (ex_market\<lparr>om_ledger := no_ledger\<rparr>)
       [Bid_Settle (ex_payment ''o'') 1]))) \<and> ow_balance w = 81
     \<and> wallet_movements (om_ledger (foldl (bid_step ex_gen ''t'') (ex_market\<lparr>om_ledger := no_ledger\<rparr>)
       [Bid_Settle (ex_payment ''o'') 1])) w = 81"
proof -
  let ?L = "om_ledger (foldl (bid_step ex_gen ''t'') (ex_market\<lparr>om_ledger := no_ledger\<rparr>) [Bid_Settle (ex_payment ''o'') 1])"
  have "list_ex (\<lambda>w. ow_balance w = 81) (lg_wallets ?L)" by code_simp
  then obtain w where w: "w \<in> set (lg_wallets ?L)" "ow_balance w = 81" by (auto simp: list_ex_iff)
  moreover have "ow_balance w = wallet_movements ?L w" using org_books_balance [OF refl] w(1) by blast
  ultimately show ?thesis by metis
qed

theorem acceptance_pays_assigned_org_witness:
  "\<exists>s' r. accept_org_task ex_gen ''t'' ex_delivered ''m'' ''u'' None 9 = (s', Inr r)
     \<and> org_balance ''t'' (om_ledger s') ''o'' = org_balance ''t'' (om_ledger ex_delivered) ''o'' + 400"
proof -
  let ?r = "accept_org_task ex_gen ''t'' ex_delivered ''m'' ''u'' None 9"
  have "case snd ?r of Inl e \<Rightarrow> False | Inr r \<Rightarrow> True" by code_simp
  then obtain s' r where r: "?r = (s', Inr r)" by (cases ?r) (auto split: sum.splits)
  have L: "om_ledger ex_delivered = no_ledger" by code_simp
  have t: "map_option (\<lambda>t. js_round (mt_reward t * 100)) (get_market_task ''t'' (om_tasks ex_delivered) ''m'') = Some 500"
    by code_simp
  have p: "js_round (or_default None 20) = 20" by code_simp
  have c: "map_option oc_org (latest_contract ''t'' (om_contracts ex_delivered) ''m'') = Some ''o''" by code_simp
  have n: "settlement_by_source ''t'' (om_ledger ex_delivered) ''m'' = None" by code_simp
  from acceptance_pays_assigned_org [OF _ r] n t c p
  have "\<forall>a b. org_balance a (om_ledger s') b = org_balance a (om_ledger ex_delivered) b
      + (if a = ''t'' \<and> b = ''o'' then 500 - 500 * 20 div 100 else 0)"
    by (auto simp: L no_ledger_ok)
  then have "org_balance ''t'' (om_ledger s') ''o'' = org_balance ''t'' (om_ledger ex_delivered) ''o'' + 400"
    by simp
  with r show ?thesis by blast
qed

theorem settled_task_never_paid_witness:
  "\<exists>s' r. accept_org_task ex_gen ''t''
       (ex_delivered\<lparr>om_ledger := fst (settle_org_task_payment ex_gen ''t'' (ex_payment ''other'') 8 (om_ledger ex_delivered))\<rparr>)
       ''m'' ''u'' None 9 = (s', Inr r)
     \<and> om_ledger s' = fst (settle_org_task_payment ex_gen ''t'' (ex_payment ''other'') 8 (om_ledger ex_delivered))"
proof -
  let ?p = "settle_org_task_payment ex_gen ''t'' (ex_payment ''other'') 8 (om_ledger ex_delivered)"
  let ?s = "ex_delivered\<lparr>om_ledger := fst ?p\<rparr>"
  let ?r = "accept_org_task ex_gen ''t'' ?s ''m'' ''u'' None 9"
  have "case snd ?r of Inl e \<Rightarrow> False | Inr r \<Rightarrow> True" by code_simp
  then obtain s' r where r: "?r = (s', Inr r)" by (cases ?r) (auto split: sum.splits)
  have "case snd ?p of Inr (Some st) \<Rightarrow> True | _ \<Rightarrow> False" by code_simp
  then obtain st where p: "?p = (fst ?p, Inr (Some st))"
    by (cases ?p) (auto split: sum.splits option.splits)
  have L: "ledger_ok (om_ledger ex_delivered)"
  proof -
    have "om_ledger ex_delivered = no_ledger" by code_simp
    then show ?thesis by (simp add: no_ledger_ok)
  qed
  have x: "si_source (ex_payment ''other'') = ''m''" by (simp add: ex_payment_def)
  have "om_ledger s' = om_ledger ?s"
    using settled_task_never_paid [OF L p _ r [folded x], where es = "[]"] by simp
  with r show ?thesis by auto
qed

theorem failed_start_gives_back_witness:
  "\<exists>s' e. start_org_task ex_gen ''t'' (register_all [] [ex_pack]) ex_delegated ''m'' ''o'' ''b'' ''g'' 5 = (s', Inl e)
     \<and> e = Bid_Plan (Plan_No_Assignee ''r'') \<and> om_ledger s' = om_ledger ex_delegated"
proof -
  let ?r = "start_org_task ex_gen ''t'' (register_all [] [ex_pack]) ex_delegated ''m'' ''o'' ''b'' ''g'' 5"
  have "case snd ?r of Inl e \<Rightarrow> e = Bid_Plan (Plan_No_Assignee ''r'') | Inr x \<Rightarrow> False" by code_simp
  then obtain s' e where r: "?r = (s', Inl e)" and e: "e = Bid_Plan (Plan_No_Assignee ''r'')"
    by (cases ?r) (auto split: sum.splits)
  have "distinct (map oc_id (om_contracts ex_delegated))" by code_simp
  from failed_start_gives_back [OF this r] r e show ?thesis by blast
qed

end
