(* ===== verification/Persona_Lease.thy ===== *)
theory Persona_Lease
  imports Prelude
begin

text \<open>
  The lease by which at most one instance works on a digital person for a purpose: \<^verbatim>\<open>PersonaLeaseStore\<close>,
  its executors and the validation of the kernel. \<open>db\<close> is the clock of the database, which alone decides
  whether a lease has expired; \<open>now\<close> is the clock of the caller.
\<close>

subsection \<open>The table\<close>

datatype lease_purpose = Lease_Earning | Lease_Compile

record persona_lease =
  le_tenant :: ident
  le_persona :: ident
  le_purpose :: lease_purpose
  le_token :: ident
  le_acquired :: millis
  le_expires :: millis

type_synonym lease_table = "persona_lease list"

type_synonym lease_key = "ident \<times> ident \<times> lease_purpose"

definition key_of_lease :: "persona_lease \<Rightarrow> lease_key" where
  "key_of_lease l = (le_tenant l, le_persona l, le_purpose l)"

definition lease_row :: "lease_key \<Rightarrow> lease_table \<Rightarrow> persona_lease option" where
  "lease_row k ls = select_one (\<lambda>l. key_of_lease l = k) ls"

text \<open>\<^verbatim>\<open>INSERT ... ON CONFLICT DO UPDATE ... WHERE expires_at <= now\<close>.\<close>

definition lease_cmd_acquire ::
  "lease_key \<Rightarrow> ident \<Rightarrow> millis \<Rightarrow> millis \<Rightarrow> millis \<Rightarrow> lease_table \<Rightarrow> lease_table \<times> nat" where
  "lease_cmd_acquire k token now ttl db ls =
     (case k of (tn, p, u) \<Rightarrow>
        if list_ex (\<lambda>l. key_of_lease l = k) ls
        then update_where (\<lambda>l. key_of_lease l = k \<and> le_expires l \<le> db)
               (\<lambda>l. l\<lparr>le_token := token, le_acquired := now, le_expires := db + ttl\<rparr>) ls
        else (ls @ [\<lparr> le_tenant = tn, le_persona = p, le_purpose = u, le_token = token, le_acquired = now,
               le_expires = db + ttl \<rparr>], 1))"

definition lease_cmd_release :: "lease_key \<Rightarrow> ident \<Rightarrow> lease_table \<Rightarrow> lease_table \<times> nat" where
  "lease_cmd_release k token ls = delete_where (\<lambda>l. key_of_lease l = k \<and> le_token l = token) ls"

definition lease_cmd_refresh :: "lease_key \<Rightarrow> ident \<Rightarrow> millis \<Rightarrow> millis \<Rightarrow> lease_table \<Rightarrow> lease_table \<times> nat" where
  "lease_cmd_refresh k token ttl db ls =
     update_where (\<lambda>l. key_of_lease l = k \<and> le_token l = token \<and> db < le_expires l)
       (\<lambda>l. l\<lparr>le_expires := db + ttl\<rparr>) ls"

subsection \<open>The store\<close>

datatype lease_complaint = Lease_No_Tenant | Lease_No_Persona | Lease_No_Token | Lease_Bad_Now | Lease_Bad_Ttl

text \<open>\<^verbatim>\<open>validateAcquireIntent\<close> and \<^verbatim>\<open>validateRefreshIntent\<close>, on values of the right types.\<close>

definition lease_complaints :: "lease_key \<Rightarrow> ident \<Rightarrow> millis \<Rightarrow> millis \<Rightarrow> lease_complaint list" where
  "lease_complaints k token now ttl =
     (case k of (tn, p, u) \<Rightarrow>
        (if tn = [] then [Lease_No_Tenant] else []) @ (if p = [] then [Lease_No_Persona] else [])
        @ (if token = [] then [Lease_No_Token] else []) @ (if now < 0 then [Lease_Bad_Now] else [])
        @ (if ttl \<le> 0 then [Lease_Bad_Ttl] else []))"

definition lease_expiry :: "millis \<Rightarrow> millis \<Rightarrow> millis" where
  "lease_expiry now ttl = now + ttl"

definition lease_expired :: "persona_lease \<Rightarrow> millis \<Rightarrow> bool" where
  "lease_expired l now \<longleftrightarrow> le_expires l \<le> now"

record lease_handle =
  lh_key :: lease_key
  lh_token :: ident
  lh_expires :: millis

definition acquire_lease ::
  "lease_key \<Rightarrow> ident \<Rightarrow> millis \<Rightarrow> millis \<Rightarrow> millis \<Rightarrow> lease_table
     \<Rightarrow> lease_table \<times> (lease_complaint list + lease_handle option)" where
  "acquire_lease k token now ttl db ls =
     (if lease_complaints k token now ttl \<noteq> [] then (ls, Inl (lease_complaints k token now ttl))
      else let (ls', n) = lease_cmd_acquire k token now ttl db ls in
           if n = 0 then (ls', Inr None)
           else (ls', Inr (Some \<lparr> lh_key = k, lh_token = token,
                  lh_expires = (case lease_row k ls' of Some l \<Rightarrow> le_expires l | None \<Rightarrow> lease_expiry now ttl) \<rparr>)))"

definition release_lease :: "lease_handle \<Rightarrow> lease_table \<Rightarrow> lease_table \<times> bool" where
  "release_lease h ls = (let (ls', n) = lease_cmd_release (lh_key h) (lh_token h) ls in (ls', 0 < n))"

definition refresh_lease ::
  "lease_handle \<Rightarrow> millis \<Rightarrow> millis \<Rightarrow> millis \<Rightarrow> lease_table
     \<Rightarrow> lease_table \<times> (lease_complaint list + lease_handle option)" where
  "refresh_lease h now ttl db ls =
     (if lease_complaints (lh_key h) (lh_token h) now ttl \<noteq> [] then (ls, Inl (lease_complaints (lh_key h) (lh_token h) now ttl))
      else let (ls', n) = lease_cmd_refresh (lh_key h) (lh_token h) ttl db ls in
           if n = 0 then (ls', Inr None)
           else (ls', Inr (Some (h\<lparr>lh_expires :=
                  (case lease_row (lh_key h) ls' of Some l \<Rightarrow> le_expires l | None \<Rightarrow> lease_expiry now ttl)\<rparr>))))"

text \<open>
  \<^verbatim>\<open>withLease\<close>: the body runs on a state of its own beside the table of leases, which others may change
  meanwhile (\<open>meanwhile\<close>); \<^verbatim>\<open>None\<close> says that the lease was not to be had.
\<close>

definition with_lease ::
  "lease_key \<Rightarrow> ident \<Rightarrow> millis \<Rightarrow> millis \<Rightarrow> millis \<Rightarrow> (lease_table \<Rightarrow> lease_table) \<Rightarrow> ('s \<Rightarrow> 's \<times> 'r)
     \<Rightarrow> lease_table \<times> 's \<Rightarrow> (lease_table \<times> 's) \<times> (lease_complaint list + 'r option)" where
  "with_lease k token now ttl db meanwhile body x =
     (case x of (ls, s) \<Rightarrow>
        (case acquire_lease k token now ttl db ls of
           (ls1, Inl es) \<Rightarrow> ((ls1, s), Inl es)
         | (ls1, Inr None) \<Rightarrow> ((ls1, s), Inr None)
         | (ls1, Inr (Some h)) \<Rightarrow>
             let (s', r) = body s in ((fst (release_lease h (meanwhile ls1)), s'), Inr (Some r))))"

subsection \<open>Exclusion\<close>

datatype lease_op =
    Lo_Acquire lease_key ident millis millis millis
  | Lo_Release lease_handle
  | Lo_Refresh lease_handle millis millis millis

fun lease_step :: "lease_table \<Rightarrow> lease_op \<Rightarrow> lease_table" where
  "lease_step ls (Lo_Acquire k token now ttl db) = fst (acquire_lease k token now ttl db ls)"
| "lease_step ls (Lo_Release h) = fst (release_lease h ls)"
| "lease_step ls (Lo_Refresh h now ttl db) = fst (refresh_lease h now ttl db ls)"

definition leases_keyed :: "lease_table \<Rightarrow> bool" where
  "leases_keyed ls \<longleftrightarrow> distinct (map key_of_lease ls)"

lemma key_of_lease_simps [simp]:
  "key_of_lease (l\<lparr>le_token := t\<rparr>) = key_of_lease l" "key_of_lease (l\<lparr>le_acquired := a\<rparr>) = key_of_lease l"
  "key_of_lease (l\<lparr>le_expires := e\<rparr>) = key_of_lease l"
  by (simp_all add: key_of_lease_def)

lemma lease_step_keyed: "leases_keyed ls \<Longrightarrow> leases_keyed (lease_step ls x)"
proof (cases x)
  case (Lo_Acquire k token now ttl db)
  assume "leases_keyed ls"
  then have "leases_keyed (fst (lease_cmd_acquire k token now ttl db ls))"
    by (auto simp: leases_keyed_def lease_cmd_acquire_def update_where_fst map_if_column list_ex_iff key_of_lease_def
        simp del: map_map split: prod.split)
  with \<open>leases_keyed ls\<close> Lo_Acquire show ?thesis by (simp add: acquire_lease_def split_beta)
next
  case (Lo_Release h)
  assume "leases_keyed ls"
  with Lo_Release show ?thesis
    by (simp add: leases_keyed_def release_lease_def lease_cmd_release_def delete_where_def distinct_map_filter)
next
  case (Lo_Refresh h now ttl db)
  assume "leases_keyed ls"
  with Lo_Refresh show ?thesis
    by (simp add: leases_keyed_def refresh_lease_def lease_cmd_refresh_def split_beta update_where_fst map_if_column
        del: map_map)
qed

interpretation leases: invariant_machine lease_step leases_keyed
  by unfold_locales (rule lease_step_keyed)

text \<open>Whether an operation leaves a live lease alone: it comes before the lease expires, and is not its holder's.\<close>

fun spares_lease :: "persona_lease \<Rightarrow> lease_op \<Rightarrow> bool" where
  "spares_lease l (Lo_Acquire k token now ttl db) = (db < le_expires l)"
| "spares_lease l (Lo_Release h) = (lh_key h = key_of_lease l \<longrightarrow> lh_token h \<noteq> le_token l)"
| "spares_lease l (Lo_Refresh h now ttl db) = (lh_key h = key_of_lease l \<longrightarrow> lh_token h \<noteq> le_token l)"

lemma lease_row_D: "lease_row k ls = Some l \<Longrightarrow> l \<in> set ls \<and> key_of_lease l = k"
  by (auto simp: lease_row_def dest: select_one_SomeD)

lemma lease_row_delete:
  "lease_row k ls = Some l \<Longrightarrow> \<not> p l \<Longrightarrow> lease_row k (filter (\<lambda>x. \<not> p x) ls) = Some l"
  unfolding lease_row_def by (induction ls) (auto split: if_splits)

lemma lease_row_update:
  assumes "lease_row k ls = Some l" "\<not> p l" "\<And>x. key_of_lease (f x) = key_of_lease x"
  shows "lease_row k (fst (update_where p f ls)) = Some l"
  using assms unfolding lease_row_def by (simp add: select_one_update_where)

lemma lease_step_spares:
  assumes l: "lease_row k ls = Some l" and s: "spares_lease l x"
  shows "lease_row k (lease_step ls x) = Some l"
proof (cases x)
  case (Lo_Acquire j token now ttl db)
  have "lease_row k (fst (lease_cmd_acquire j token now ttl db ls)) = Some l"
  proof (cases "list_ex (\<lambda>l. key_of_lease l = j) ls")
    case True
    have "\<not> (key_of_lease l = j \<and> le_expires l \<le> db)" using s Lo_Acquire by simp
    from lease_row_update [where p = "\<lambda>l. key_of_lease l = j \<and> le_expires l \<le> db", OF l this] True show ?thesis by (simp add: lease_cmd_acquire_def split: prod.split)
  next
    case False
    with l show ?thesis by (auto simp: lease_cmd_acquire_def lease_row_def select_one_append split: prod.split)
  qed
  with l Lo_Acquire show ?thesis by (simp add: acquire_lease_def split_beta)
next
  case (Lo_Release h)
  have "\<not> (key_of_lease l = lh_key h \<and> le_token l = lh_token h)" using s Lo_Release by auto
  from lease_row_delete [where p = "\<lambda>l. key_of_lease l = lh_key h \<and> le_token l = lh_token h", OF l this] Lo_Release show ?thesis
    by (simp add: release_lease_def lease_cmd_release_def delete_where_def)
next
  case (Lo_Refresh h now ttl db)
  have "\<not> (key_of_lease l = lh_key h \<and> le_token l = lh_token h \<and> db < le_expires l)" using s Lo_Refresh by auto
  from lease_row_update [where p = "\<lambda>l. key_of_lease l = lh_key h \<and> le_token l = lh_token h \<and> db < le_expires l", OF l this] l Lo_Refresh show ?thesis
    by (simp add: refresh_lease_def lease_cmd_refresh_def split_beta)
qed

lemma lease_run_spares:
  "lease_row k ls = Some l \<Longrightarrow> \<forall>x \<in> set xs. spares_lease l x \<Longrightarrow> lease_row k (foldl lease_step ls xs) = Some l"
  by (induction xs arbitrary: ls) (simp_all add: lease_step_spares)

lemma acquire_lease_Some:
  assumes "leases_keyed ls" "acquire_lease k token now ttl db ls = (ls', Inr (Some h))"
  obtains l where "lease_row k ls' = Some l" and "le_token l = token" and "le_expires l = db + ttl"
    and "h = \<lparr> lh_key = k, lh_token = token, lh_expires = db + ttl \<rparr>"
proof -
  obtain tn p u where k: "k = (tn, p, u)" by (cases k)
  let ?f = "\<lambda>l. l\<lparr>le_token := token, le_acquired := now, le_expires := db + ttl\<rparr>"
  let ?p = "\<lambda>l. key_of_lease l = k \<and> le_expires l \<le> db"
  have c: "ls' = fst (lease_cmd_acquire k token now ttl db ls)" "snd (lease_cmd_acquire k token now ttl db ls) \<noteq> 0"
    "lh_key h = k" "lh_token h = token"
    "lh_expires h = (case lease_row k ls' of Some l \<Rightarrow> le_expires l | None \<Rightarrow> lease_expiry now ttl)"
    using assms(2) by (auto simp: acquire_lease_def split_beta split: if_splits)
  have "\<exists>l. lease_row k ls' = Some l \<and> le_token l = token \<and> le_expires l = db + ttl"
  proof (cases "list_ex (\<lambda>l. key_of_lease l = k) ls")
    case True
    then have "\<not> (\<forall>l \<in> set ls. \<not> ?p l)" and ls': "ls' = fst (update_where ?p ?f ls)"
      using c(1,2) by (simp_all add: k lease_cmd_acquire_def update_where_misses)
    then obtain l where l: "l \<in> set ls" "?p l" by blast
    have "lease_row k ls = Some l" unfolding lease_row_def
      by (rule select_one_unique [where key = key_of_lease]) (use assms(1) l in \<open>auto simp: leases_keyed_def\<close>)
    then have "lease_row k ls' = Some (?f l)"
      unfolding ls' lease_row_def using l(2) by (subst select_one_update_where) simp_all
    then show ?thesis by simp
  next
    case False
    let ?r = "\<lparr> le_tenant = tn, le_persona = p, le_purpose = u, le_token = token, le_acquired = now, le_expires = db + ttl \<rparr>"
    have "select_one (\<lambda>l. key_of_lease l = k) ls = None" using False by (simp add: select_one_None_iff list_ex_iff)
    moreover have "key_of_lease ?r = k" by (simp add: key_of_lease_def k)
    ultimately have "select_one (\<lambda>l. key_of_lease l = k) (ls @ [?r]) = Some ?r" by (simp add: select_one_append)
    moreover have "ls' = ls @ [?r]" using c(1) False by (simp add: k lease_cmd_acquire_def)
    ultimately show ?thesis by (simp add: lease_row_def)
  qed
  then show thesis using c(3-5) by (auto intro: that)
qed

text \<open>
  C28: from the moment a lease is granted until it expires by the clock of the database, and as long as its
  holder neither releases nor renews it, every other request for it is turned down, whatever the clocks of the
  callers say and whatever else is acquired, released or renewed meanwhile; the row stays the holder's.
\<close>

theorem lease_is_exclusive:
  assumes "leases_keyed ls" and "acquire_lease k token now ttl db ls = (ls', Inr (Some h))"
    and "\<forall>x \<in> set xs. spares_lease \<lparr> le_tenant = fst k, le_persona = fst (snd k), le_purpose = snd (snd k),
           le_token = token, le_acquired = now, le_expires = db + ttl \<rparr> x"
    and "db' < db + ttl"
  shows "(\<exists>l. lease_row k (foldl lease_step ls' xs) = Some l \<and> le_token l = token \<and> le_expires l = lh_expires h)
    \<and> fst (acquire_lease k token' now' ttl' db' (foldl lease_step ls' xs)) = foldl lease_step ls' xs
    \<and> (\<forall>h'. snd (acquire_lease k token' now' ttl' db' (foldl lease_step ls' xs)) \<noteq> Inr (Some h'))"
proof -
  obtain l where l: "lease_row k ls' = Some l" "le_token l = token" "le_expires l = db + ttl"
    "h = \<lparr> lh_key = k, lh_token = token, lh_expires = db + ttl \<rparr>"
    by (rule acquire_lease_Some [OF assms(1,2)])
  have kl: "key_of_lease l = k" using lease_row_D [OF l(1)] by simp
  have "spares_lease l x" if "x \<in> set xs" for x
    using assms(3) that l(2,3) kl by (cases x) (fastforce simp: key_of_lease_def)+
  then have row: "lease_row k (foldl lease_step ls' xs) = Some l" using lease_run_spares [OF l(1)] by blast
  have "leases_keyed ls'" using lease_step_keyed [OF assms(1), of "Lo_Acquire k token now ttl db"] assms(2) by simp
  then have key: "leases_keyed (foldl lease_step ls' xs)" by (rule leases.run_invar)
  let ?ls = "foldl lease_step ls' xs"
  have ex: "list_ex (\<lambda>l. key_of_lease l = k) ?ls" using lease_row_D [OF row] by (auto simp: list_ex_iff)
  have "x = l" if "x \<in> set ?ls" "key_of_lease x = k" for x
    using key that lease_row_D [OF row] unfolding leases_keyed_def by (auto simp: distinct_map dest: inj_onD)
  then have none: "\<forall>x \<in> set ?ls. \<not> (key_of_lease x = k \<and> le_expires x \<le> db')" using l(3) assms(4) by auto
  have "lease_cmd_acquire k token' now' ttl' db' ?ls = (?ls, 0)"
    using ex update_where_miss_id [OF none] none
    by (auto simp: lease_cmd_acquire_def prod_eq_iff update_where_misses split: prod.split)
  then show ?thesis using row l by (simp add: acquire_lease_def)
qed

theorem lease_is_exclusive_witness:
  "snd (acquire_lease (''t'', ''p'', Lease_Earning) ''b'' 0 100 60
     (foldl lease_step (fst (acquire_lease (''t'', ''p'', Lease_Earning) ''a'' 5 100 10 []))
        [Lo_Acquire (''t'', ''p'', Lease_Earning) ''b'' 900 100 50,
         Lo_Release \<lparr> lh_key = (''t'', ''p'', Lease_Earning), lh_token = ''b'', lh_expires = 1000 \<rparr>])) = Inr None"
proof -
  let ?k = "(''t'', ''p'', Lease_Earning)"
  let ?h = "\<lparr> lh_key = ?k, lh_token = ''a'', lh_expires = 110 \<rparr>"
  let ?ls = "[\<lparr> le_tenant = ''t'', le_persona = ''p'', le_purpose = Lease_Earning, le_token = ''a'', le_acquired = 5,
    le_expires = 110 \<rparr>]"
  let ?xs = "[Lo_Acquire ?k ''b'' 900 100 50, Lo_Release \<lparr> lh_key = ?k, lh_token = ''b'', lh_expires = 1000 \<rparr>]"
  have a: "acquire_lease ?k ''a'' 5 100 10 [] = (?ls, Inr (Some ?h))" by code_simp
  have "leases_keyed []" by (simp add: leases_keyed_def)
  from lease_is_exclusive [OF this a, of ?xs 60 "''b''" 0 100]
  have "\<forall>h. snd (acquire_lease ?k ''b'' 0 100 60 (foldl lease_step ?ls ?xs)) \<noteq> Inr (Some h)" by simp
  moreover have "lease_complaints ?k ''b'' 0 100 = []" by (simp add: lease_complaints_def)
  ultimately show ?thesis unfolding a fst_conv
    by (auto simp: acquire_lease_def Let_def split: prod.splits if_splits)
qed

text \<open>Once the clock of the database reaches the expiry, the next request is granted.\<close>

lemma expired_lease_granted:
  assumes "leases_keyed ls" "lease_row k ls = Some l" "le_expires l \<le> db" "lease_complaints k token now ttl = []"
  shows "\<exists>ls' h. acquire_lease k token now ttl db ls = (ls', Inr (Some h)) \<and> lh_token h = token"
proof -
  have l: "l \<in> set ls" "key_of_lease l = k" using lease_row_D [OF assms(2)] by simp_all
  then have "snd (lease_cmd_acquire k token now ttl db ls) \<noteq> 0"
    using assms(3) by (auto simp: lease_cmd_acquire_def update_where_misses list_ex_iff split: prod.split)
  then show ?thesis using assms(4) by (simp add: acquire_lease_def split_beta)
qed

end
