(* ===== verification/Persona_Wallet.thy ===== *)
theory Persona_Wallet
  imports Js_Values
begin

text \<open>
  The wages of digital persons: the guard on every entry of the ledger
  (\<^verbatim>\<open>packages/kernel/src/domain/persona/wallet-ledger.ts\<close>), wallets, transactions, settlements and payouts
  (\<^verbatim>\<open>src/persona-core/persona-wallet-service.ts\<close>) and their statements
  (\<^verbatim>\<open>src/storage/executors/persona-core-executors.ts\<close>). A balance is a number of units, kept by the
  statements at whole hundredths; numbers are exact here, where the code uses binary fractions. The
  counter numbers the calls of \<^verbatim>\<open>generatePrefixedId\<close>.
\<close>

subsection \<open>The guard\<close>

datatype wallet_actor = Actor_Autonomous | Actor_Human | Actor_System

datatype wallet_direction = Dir_Credit | Dir_Debit

datatype purse_tx_type =
  Ptx_Task_Payment | Ptx_Platform_Fee | Ptx_Owner_Payout | Ptx_Persona_Reserve | Ptx_Refund

fun direction_of :: "purse_tx_type \<Rightarrow> wallet_direction" where
  "direction_of Ptx_Task_Payment = Dir_Credit"
| "direction_of Ptx_Platform_Fee = Dir_Debit"
| "direction_of Ptx_Owner_Payout = Dir_Debit"
| "direction_of Ptx_Persona_Reserve = Dir_Debit"
| "direction_of Ptx_Refund = Dir_Debit"

definition signed_amount :: "purse_tx_type \<Rightarrow> int \<Rightarrow> int" where
  "signed_amount k n = (if direction_of k = Dir_Debit then - \<bar>n\<bar> else \<bar>n\<bar>)"

datatype guard_refusal = Guard_Not_Positive | Guard_Direction wallet_direction | Guard_Autonomous

definition whole :: "rat \<Rightarrow> bool" where
  "whole x \<longleftrightarrow> of_int (floor x) = x"

definition wallet_guard ::
  "wallet_actor \<Rightarrow> wallet_direction \<Rightarrow> purse_tx_type \<Rightarrow> rat \<Rightarrow> guard_refusal option" where
  "wallet_guard actor dir k n =
     (if \<not> whole n \<or> n \<le> 0 then Some Guard_Not_Positive
      else if dir \<noteq> direction_of k then Some (Guard_Direction (direction_of k))
      else if dir = Dir_Debit \<and> actor = Actor_Autonomous then Some Guard_Autonomous
      else None)"

subsection \<open>Tables\<close>

datatype persona_status =
  Per_Draft | Per_Active | Per_Restricted | Per_Suspended | Per_Dormant | Per_Deceased | Per_Transferred

record persona_row =
  pr_id :: ident
  pr_tenant :: ident
  pr_owner :: ident
  pr_status :: persona_status
  pr_lifecycle :: "persona_status option"
  pr_growth :: rat
  pr_reputation :: rat
  pr_training :: rat
  pr_deceased_at :: "millis option"
  pr_updated_at :: millis

datatype purse_status = Purse_Active | Purse_Frozen

record persona_wallet =
  pw_id :: ident
  pw_tenant :: ident
  pw_persona :: ident
  pw_address :: string
  pw_balance :: rat
  pw_tokens :: rat
  pw_currency :: string
  pw_status :: purse_status
  pw_settled_at :: "millis option"
  pw_created_at :: millis
  pw_updated_at :: millis

record purse_tx =
  pt_id :: ident
  pt_tenant :: ident
  pt_wallet :: ident
  pt_type :: purse_tx_type
  pt_amount :: int
  pt_currency :: string
  pt_ref_type :: "string option"
  pt_ref :: "ident option"
  pt_created_at :: millis

record purse_settlement =
  sl_id :: ident
  sl_tenant :: ident
  sl_wallet :: ident
  sl_task :: ident
  sl_assignment :: ident
  sl_total :: int
  sl_currency :: string
  sl_owner_pct :: int
  sl_persona_pct :: int
  sl_platform_pct :: int
  sl_owner :: int
  sl_persona :: int
  sl_platform :: int
  sl_created_at :: millis
  sl_completed_at :: "millis option"

record payout_request =
  po_id :: ident
  po_tenant :: ident
  po_wallet :: ident
  po_amount :: int
  po_currency :: string
  po_user :: ident
  po_created_at :: millis
  po_completed_at :: "millis option"
  po_key :: "string option"

record purse_bank =
  bk_personas :: "persona_row list"
  bk_wallets :: "persona_wallet list"
  bk_txs :: "purse_tx list"
  bk_settlements :: "purse_settlement list"
  bk_payouts :: "payout_request list"
  bk_ids :: nat

datatype purse_error =
    Purse_Guard guard_refusal
  | Purse_Constraint
  | Purse_Key_Reused
  | Purse_Currency

subsection \<open>Amounts\<close>

definition to_minor :: "rat \<Rightarrow> int" where
  "to_minor x = js_round (x * 100)"

definition round_digits :: "nat \<Rightarrow> rat \<Rightarrow> rat" where
  "round_digits d x = of_int (js_round (x * 10 ^ d)) / 10 ^ d"

definition from_minor :: "int \<Rightarrow> rat" where
  "from_minor n = round_digits 4 (of_int n / 100)"

definition clamp_to :: "rat \<Rightarrow> rat \<Rightarrow> rat \<Rightarrow> rat" where
  "clamp_to x lo hi = min hi (max lo x)"

text \<open>\<^verbatim>\<open>ROUND\<close> of SQL rounds halves away from zero.\<close>

definition sql_round :: "rat \<Rightarrow> int" where
  "sql_round x = (if 0 \<le> x then floor (x + 1 / 2) else - floor (- x + 1 / 2))"

definition sql_round4 :: "rat \<Rightarrow> rat" where
  "sql_round4 x = of_int (sql_round (x * 10000)) / 10000"

subsection \<open>Statements\<close>

definition persona_status_of :: "persona_row \<Rightarrow> persona_status" where
  "persona_status_of p = (case pr_lifecycle p of Some s \<Rightarrow> s | None \<Rightarrow> pr_status p)"

definition persona_by_id :: "ident \<Rightarrow> purse_bank \<Rightarrow> ident \<Rightarrow> persona_row option" where
  "persona_by_id tn bk i = select_one (\<lambda>p. pr_tenant p = tn \<and> pr_id p = i) (bk_personas bk)"

definition persona_exists :: "ident \<Rightarrow> purse_bank \<Rightarrow> ident \<Rightarrow> ident \<Rightarrow> bool" where
  "persona_exists tn bk user i \<longleftrightarrow>
     list_ex (\<lambda>p. pr_tenant p = tn \<and> pr_owner p = user \<and> pr_id p = i) (bk_personas bk)"

definition wallet_by_persona :: "ident \<Rightarrow> purse_bank \<Rightarrow> ident \<Rightarrow> persona_wallet option" where
  "wallet_by_persona tn bk p = select_one (\<lambda>w. pw_tenant w = tn \<and> pw_persona w = p) (bk_wallets bk)"

definition wallet_for_owner :: "ident \<Rightarrow> purse_bank \<Rightarrow> ident \<Rightarrow> ident \<Rightarrow> persona_wallet option" where
  "wallet_for_owner tn bk user i =
     (case select_one (\<lambda>w. pw_tenant w = tn \<and> pw_id w = i
              \<and> list_ex (\<lambda>p. pr_id p = pw_persona w) (bk_personas bk)) (bk_wallets bk) of
        None \<Rightarrow> None
      | Some w \<Rightarrow>
          (case select_one (\<lambda>p. pr_id p = pw_persona w) (bk_personas bk) of
             None \<Rightarrow> None | Some p \<Rightarrow> if pr_owner p \<noteq> user then None else Some w))"

definition list_purse_txs :: "ident \<Rightarrow> purse_bank \<Rightarrow> ident \<Rightarrow> ident \<Rightarrow> purse_tx list option" where
  "list_purse_txs tn bk user i =
     map_option (\<lambda>w. rev (sort_key pt_created_at
        (filter (\<lambda>t. pt_tenant t = tn \<and> pt_wallet t = i) (bk_txs bk)))) (wallet_for_owner tn bk user i)"

definition purse_cmd_create_wallet ::
  "ident \<Rightarrow> ident \<Rightarrow> ident \<Rightarrow> string \<Rightarrow> millis \<Rightarrow> purse_bank \<Rightarrow> purse_bank option" where
  "purse_cmd_create_wallet i tn p address now bk =
     (if list_ex (\<lambda>w. pw_id w = i \<or> pw_persona w = p \<or> pw_address w = address) (bk_wallets bk) then None
      else Some (bk\<lparr>bk_wallets := bk_wallets bk @
        [\<lparr> pw_id = i, pw_tenant = tn, pw_persona = p, pw_address = address, pw_balance = 0,
           pw_tokens = 0, pw_currency = ''CRED'', pw_status = Purse_Active, pw_settled_at = None,
           pw_created_at = now, pw_updated_at = now \<rparr>]\<rparr>))"

definition purse_cmd_insert_tx :: "purse_tx \<Rightarrow> purse_bank \<Rightarrow> purse_bank option" where
  "purse_cmd_insert_tx t bk =
     (if list_ex (\<lambda>q. pt_id q = pt_id t) (bk_txs bk) then None
      else Some (bk\<lparr>bk_txs := bk_txs bk @ [t]\<rparr>))"

text \<open>\<^verbatim>\<open>None\<close> for the key is SQL's \<^verbatim>\<open>NULL\<close>, which the partial unique index leaves alone.\<close>

datatype payout_insert = Payout_Id_Taken | Payout_Key_Taken | Payout_Stored purse_bank

definition purse_cmd_create_payout :: "payout_request \<Rightarrow> purse_bank \<Rightarrow> payout_insert" where
  "purse_cmd_create_payout r bk =
     (if list_ex (\<lambda>q. po_id q = po_id r) (bk_payouts bk) then Payout_Id_Taken
      else if po_key r \<noteq> None
        \<and> list_ex (\<lambda>q. po_tenant q = po_tenant r \<and> po_key q = po_key r) (bk_payouts bk) then Payout_Key_Taken
      else Payout_Stored (bk\<lparr>bk_payouts := bk_payouts bk @ [r]\<rparr>))"

definition wallet_cents :: "persona_wallet \<Rightarrow> int" where
  "wallet_cents w = sql_round (pw_balance w * 100)"

definition debited :: "int \<Rightarrow> millis \<Rightarrow> persona_wallet \<Rightarrow> persona_wallet" where
  "debited n now w =
     w\<lparr>pw_balance := sql_round4 (of_int (wallet_cents w - n) / 100), pw_updated_at := now\<rparr>"

definition purse_cmd_debit ::
  "ident \<Rightarrow> ident \<Rightarrow> int \<Rightarrow> millis \<Rightarrow> purse_bank \<Rightarrow> purse_bank \<times> nat" where
  "purse_cmd_debit tn i n now bk =
     (let (ws, k) = update_where (\<lambda>w. pw_tenant w = tn \<and> pw_id w = i \<and> wallet_cents w \<ge> n)
        (debited n now) (bk_wallets bk)
      in (bk\<lparr>bk_wallets := ws\<rparr>, k))"

definition purse_cmd_create_settlement :: "purse_settlement \<Rightarrow> purse_bank \<Rightarrow> purse_bank option" where
  "purse_cmd_create_settlement s bk =
     (if list_ex (\<lambda>q. sl_id q = sl_id s \<or> sl_assignment q = sl_assignment s) (bk_settlements bk) then None
      else Some (bk\<lparr>bk_settlements := bk_settlements bk @ [s]\<rparr>))"

definition purse_cmd_settle ::
  "ident \<Rightarrow> ident \<Rightarrow> rat \<Rightarrow> rat \<Rightarrow> string \<Rightarrow> millis \<Rightarrow> purse_bank \<Rightarrow> purse_bank \<times> nat" where
  "purse_cmd_settle tn i owner persona cur now bk =
     (let (ws, k) = update_where (\<lambda>w. pw_tenant w = tn \<and> pw_id w = i \<and> pw_currency w = cur)
        (\<lambda>w. w\<lparr>pw_balance := sql_round4 (of_int (wallet_cents w + sql_round (owner * 100)) / 100),
               pw_tokens := pw_tokens w + persona, pw_settled_at := Some now, pw_updated_at := now\<rparr>)
        (bk_wallets bk)
      in (bk\<lparr>bk_wallets := ws\<rparr>, k))"

definition purse_cmd_complete_task ::
  "ident \<Rightarrow> ident \<Rightarrow> rat \<Rightarrow> rat \<Rightarrow> millis \<Rightarrow> purse_bank \<Rightarrow> purse_bank \<times> nat" where
  "purse_cmd_complete_task tn p payout tokens now bk =
     (let (ws, k) = update_where (\<lambda>w. pw_tenant w = tn \<and> pw_persona w = p)
        (\<lambda>w. w\<lparr>pw_balance := pw_balance w + payout, pw_tokens := pw_tokens w + tokens,
               pw_settled_at := Some now, pw_updated_at := now\<rparr>)
        (bk_wallets bk)
      in (bk\<lparr>bk_wallets := ws\<rparr>, k))"

definition settlement_by_assignment :: "ident \<Rightarrow> purse_bank \<Rightarrow> ident \<Rightarrow> purse_settlement option" where
  "settlement_by_assignment tn bk a =
     select_one (\<lambda>s. sl_tenant s = tn \<and> sl_assignment s = a) (bk_settlements bk)"

definition payout_by_id :: "ident \<Rightarrow> purse_bank \<Rightarrow> ident \<Rightarrow> payout_request option" where
  "payout_by_id tn bk i = select_one (\<lambda>r. po_tenant r = tn \<and> po_id r = i) (bk_payouts bk)"

definition payout_by_key :: "ident \<Rightarrow> purse_bank \<Rightarrow> string \<Rightarrow> payout_request option" where
  "payout_by_key tn bk k = select_one (\<lambda>r. po_tenant r = tn \<and> po_key r = Some k) (bk_payouts bk)"

subsection \<open>Operations\<close>

definition new_id :: "(nat \<Rightarrow> ident) \<Rightarrow> purse_bank \<Rightarrow> ident" where
  "new_id gen bk = gen (bk_ids bk)"

definition drawn :: "purse_bank \<Rightarrow> purse_bank" where
  "drawn bk = bk\<lparr>bk_ids := Suc (bk_ids bk)\<rparr>"

definition undo_bank :: "purse_bank \<Rightarrow> purse_bank \<Rightarrow> purse_bank" where
  "undo_bank bk bk' = bk\<lparr>bk_ids := bk_ids bk'\<rparr>"

text \<open>\<^verbatim>\<open>insertWalletTransactionInTx\<close>: the one way into the ledger. An error is thrown.\<close>

definition insert_purse_tx ::
  "(nat \<Rightarrow> ident) \<Rightarrow> wallet_actor \<Rightarrow> ident \<Rightarrow> ident \<Rightarrow> purse_tx_type \<Rightarrow> rat \<Rightarrow> string \<Rightarrow> string option
     \<Rightarrow> ident option \<Rightarrow> millis \<Rightarrow> purse_bank \<Rightarrow> purse_bank \<times> purse_error option" where
  "insert_purse_tx gen actor tn w k n cur rt ref now bk =
     (case wallet_guard actor (if n < 0 then Dir_Debit else Dir_Credit) k \<bar>n\<bar> of
        Some r \<Rightarrow> (bk, Some (Purse_Guard r))
      | None \<Rightarrow>
          (case purse_cmd_insert_tx \<lparr> pt_id = new_id gen bk, pt_tenant = tn, pt_wallet = w, pt_type = k,
                 pt_amount = js_round n, pt_currency = cur, pt_ref_type = rt, pt_ref = ref,
                 pt_created_at = now \<rparr> (drawn bk) of
             None \<Rightarrow> (drawn bk, Some Purse_Constraint)
           | Some bk' \<Rightarrow> (bk', None)))"

definition payout_row ::
  "ident \<Rightarrow> ident \<Rightarrow> ident \<Rightarrow> int \<Rightarrow> string \<Rightarrow> ident \<Rightarrow> string option \<Rightarrow> millis \<Rightarrow> payout_request" where
  "payout_row i tn w n cur user key now =
     \<lparr> po_id = i, po_tenant = tn, po_wallet = w, po_amount = n, po_currency = cur, po_user = user,
       po_created_at = now, po_completed_at = Some now, po_key = key \<rparr>"

text \<open>
  \<^verbatim>\<open>requestWalletPayout\<close>: the check, on what was read before, and the transaction. The inner \<open>None\<close> is the
  \<^verbatim>\<open>null\<close> of a refusal; an error is thrown after the transaction was rolled back.
\<close>

definition payout_check ::
  "ident \<Rightarrow> ident \<Rightarrow> ident \<Rightarrow> rat \<Rightarrow> purse_bank \<Rightarrow> (string \<times> int) option" where
  "payout_check tn user i amount bk =
     (case wallet_for_owner tn bk user i of
        None \<Rightarrow> None
      | Some w \<Rightarrow>
          let n = max 0 (js_round amount) in
          if pw_status w \<noteq> Purse_Active then None
          else if n \<le> 0 \<or> n > to_minor (pw_balance w) then None
          else Some (pw_currency w, n))"

definition payout_commit ::
  "(nat \<Rightarrow> ident) \<Rightarrow> ident \<Rightarrow> ident \<Rightarrow> ident \<Rightarrow> string \<Rightarrow> int \<Rightarrow> string option \<Rightarrow> millis \<Rightarrow> purse_bank
     \<Rightarrow> purse_bank \<times> (purse_error + payout_request option)" where
  "payout_commit gen tn user i cur n key now bk =
     (let p = new_id gen bk; bk0 = drawn bk in
      case purse_cmd_create_payout (payout_row p tn i n cur user key now) bk0 of
        Payout_Id_Taken \<Rightarrow> (bk0, Inl Purse_Constraint)
      | Payout_Key_Taken \<Rightarrow>
          (if truthy key then
             (case payout_by_key tn bk0 (the key) of
                None \<Rightarrow> (bk0, Inl Purse_Constraint)
              | Some old \<Rightarrow>
                  if po_amount old \<noteq> n \<or> po_wallet old \<noteq> i then (bk0, Inl Purse_Key_Reused)
                  else (bk0, Inr (Some old)))
           else (bk0, Inl Purse_Constraint))
      | Payout_Stored bk1 \<Rightarrow>
          (case purse_cmd_debit tn i n now bk1 of
             (bk2, k) \<Rightarrow>
               if k \<noteq> 1 then (bk0, Inr None)
               else case insert_purse_tx gen Actor_Human tn i Ptx_Owner_Payout (- of_int n)
                      cur (Some ''wallet_payout_request'') (Some p) now bk2 of
                 (bk3, Some e) \<Rightarrow> (undo_bank bk bk3, Inl e)
               | (bk3, None) \<Rightarrow> (bk3, Inr (payout_by_id tn bk3 p))))"

definition request_payout ::
  "(nat \<Rightarrow> ident) \<Rightarrow> ident \<Rightarrow> ident \<Rightarrow> ident \<Rightarrow> rat \<Rightarrow> string option \<Rightarrow> millis \<Rightarrow> purse_bank
     \<Rightarrow> purse_bank \<times> (purse_error + payout_request option)" where
  "request_payout gen tn user i amount key now bk =
     (case payout_check tn user i amount bk of
        None \<Rightarrow> (bk, Inr None)
      | Some (cur, n) \<Rightarrow> payout_commit gen tn user i cur n key now bk)"

subsection \<open>Exact amounts\<close>

lemma whole_of_int [simp]: "whole (of_int n)"
  by (simp add: whole_def)

lemma sql_round_of_int [simp]: "sql_round (of_int n) = n"
proof -
  have "floor (of_int m + 1 / 2 :: rat) = m" for m by (simp add: floor_unique)
  from this [of n] this [of "- n"] show ?thesis by (simp add: sql_round_def)
qed

lemma sql_round4_cents [simp]: "sql_round4 (of_int n / 100) = of_int n / 100"
proof -
  have "(of_int n / 100 * 10000 :: rat) = of_int (n * 100)" by simp
  then have "sql_round (of_int n / 100 * 10000) = n * 100" by (simp only: sql_round_of_int)
  then show ?thesis by (simp add: sql_round4_def)
qed

lemma to_minor_cents [simp]: "to_minor (of_int n / 100) = n"
  by (simp add: to_minor_def)

lemma from_minor_exact [simp]: "from_minor n = of_int n / 100"
proof -
  have "(of_int n / 100 * 10 ^ 4 :: rat) = of_int (n * 100)" by simp
  then have "js_round (of_int n / 100 * 10 ^ 4) = n * 100" by (simp only: js_round_of_int)
  then show ?thesis by (simp add: from_minor_def round_digits_def)
qed

lemma round_cents: "round_digits 2 x = of_int (to_minor x) / 100"
  by (simp add: round_digits_def to_minor_def)

lemma to_minor_round_cents [simp]: "to_minor (round_digits 2 x) = to_minor x"
  by (simp add: round_cents)

lemma wallet_guard_credit [simp]:
  "wallet_guard actor Dir_Credit Ptx_Task_Payment (of_int n) = None \<longleftrightarrow> 0 < n"
  by (simp add: wallet_guard_def not_le)

lemma wallet_guard_debit [simp]:
  "direction_of k = Dir_Debit \<Longrightarrow> actor \<noteq> Actor_Autonomous \<Longrightarrow>
   wallet_guard actor Dir_Debit k (of_int n) = None \<longleftrightarrow> 0 < n"
  by (simp add: wallet_guard_def not_le)

subsection \<open>The books\<close>

definition purse_movements :: "purse_bank \<Rightarrow> persona_wallet \<Rightarrow> int" where
  "purse_movements bk w =
     sum_where (\<lambda>t. pt_tenant t = pw_tenant w \<and> pt_wallet t = pw_id w) pt_amount (bk_txs bk)"

definition purse_earnings :: "purse_bank \<Rightarrow> persona_wallet \<Rightarrow> int" where
  "purse_earnings bk w =
     sum_where (\<lambda>s. sl_tenant s = pw_tenant w \<and> sl_wallet s = pw_id w) sl_owner (bk_settlements bk)"

definition purse_paid :: "purse_bank \<Rightarrow> persona_wallet \<Rightarrow> int" where
  "purse_paid bk w =
     sum_where (\<lambda>r. po_tenant r = pw_tenant w \<and> po_wallet r = pw_id w) po_amount (bk_payouts bk)"

definition split_ok :: "purse_settlement \<Rightarrow> bool" where
  "split_ok s \<longleftrightarrow> sl_owner s + sl_persona s + sl_platform s = sl_total s
     \<and> 0 < sl_total s \<and> 0 \<le> sl_owner s \<and> 0 \<le> sl_persona s \<and> 0 \<le> sl_platform s"

definition purse_ok :: "purse_bank \<Rightarrow> persona_wallet \<Rightarrow> bool" where
  "purse_ok bk w \<longleftrightarrow> pw_balance w = of_int (purse_movements bk w) / 100
     \<and> purse_movements bk w + purse_paid bk w = purse_earnings bk w \<and> 0 \<le> purse_movements bk w"

definition bank_ok :: "purse_bank \<Rightarrow> bool" where
  "bank_ok bk \<longleftrightarrow>
     distinct (map pw_id (bk_wallets bk)) \<and> distinct (map pw_persona (bk_wallets bk))
     \<and> distinct (map sl_assignment (bk_settlements bk))
     \<and> (\<forall>s \<in> set (bk_settlements bk). split_ok s \<and> (\<exists>w \<in> set (bk_wallets bk). pw_id w = sl_wallet s))
     \<and> (\<forall>t \<in> set (bk_txs bk). \<exists>w \<in> set (bk_wallets bk). pw_id w = pt_wallet t)
     \<and> (\<forall>r \<in> set (bk_payouts bk). \<exists>w \<in> set (bk_wallets bk). pw_id w = po_wallet r)
     \<and> (\<forall>w \<in> set (bk_wallets bk). purse_ok bk w)"

text \<open>
  Every event of the bank is an entry for one wallet: transactions that sum to what its balance gains,
  the settlements and payouts that explain them, and nothing else.
\<close>

definition entry_of ::
  "purse_bank \<Rightarrow> purse_bank \<Rightarrow> persona_wallet \<Rightarrow> (persona_wallet \<Rightarrow> persona_wallet)
     \<Rightarrow> purse_tx list \<Rightarrow> purse_settlement list \<Rightarrow> payout_request list \<Rightarrow> int \<Rightarrow> bool" where
  "entry_of bk bk' w g ts ss ps d \<longleftrightarrow>
     bk_wallets bk' = map (\<lambda>v. if pw_id v = pw_id w then g v else v) (bk_wallets bk)
     \<and> (\<forall>v. pw_id (g v) = pw_id v \<and> pw_tenant (g v) = pw_tenant v \<and> pw_persona (g v) = pw_persona v)
     \<and> pw_balance (g w) = pw_balance w + of_int d / 100
     \<and> bk_txs bk' = bk_txs bk @ ts \<and> bk_settlements bk' = bk_settlements bk @ ss
     \<and> bk_payouts bk' = bk_payouts bk @ ps
     \<and> (\<forall>t \<in> set ts. pt_tenant t = pw_tenant w \<and> pt_wallet t = pw_id w)
     \<and> (\<forall>s \<in> set ss. sl_tenant s = pw_tenant w \<and> sl_wallet s = pw_id w)
     \<and> (\<forall>r \<in> set ps. po_tenant r = pw_tenant w \<and> po_wallet r = pw_id w)
     \<and> sum_list (map pt_amount ts) = d \<and> sum_list (map sl_owner ss) - sum_list (map po_amount ps) = d"

lemma sum_where_all: "\<forall>r \<in> set t. p r \<Longrightarrow> sum_where p f t = sum_list (map f t)"
  by (induction t) auto

lemma sum_where_none: "\<forall>r \<in> set t. \<not> p r \<Longrightarrow> sum_where p f t = 0"
  by (induction t) auto

lemma wallet_id_unique:
  "bank_ok bk \<Longrightarrow> v \<in> set (bk_wallets bk) \<Longrightarrow> w \<in> set (bk_wallets bk) \<Longrightarrow> pw_id v = pw_id w \<Longrightarrow> v = w"
  by (auto simp: bank_ok_def distinct_map dest: inj_onD)

lemma wallet_persona_unique:
  "bank_ok bk \<Longrightarrow> v \<in> set (bk_wallets bk) \<Longrightarrow> w \<in> set (bk_wallets bk) \<Longrightarrow> pw_persona v = pw_persona w \<Longrightarrow> v = w"
  by (auto simp: bank_ok_def distinct_map dest: inj_onD)

lemma entry_ok:
  assumes ok: "bank_ok bk" and w: "w \<in> set (bk_wallets bk)" and e: "entry_of bk bk' w g ts ss ps d"
    and s: "\<forall>s \<in> set ss. split_ok s" "distinct (map sl_assignment (bk_settlements bk @ ss))"
    and n: "0 \<le> purse_movements bk w + d"
  shows "bank_ok bk'"
proof -
  let ?g = "\<lambda>v. if pw_id v = pw_id w then g v else v"
  have W: "bk_wallets bk' = map ?g (bk_wallets bk)" and T: "bk_txs bk' = bk_txs bk @ ts"
    and S: "bk_settlements bk' = bk_settlements bk @ ss" and P: "bk_payouts bk' = bk_payouts bk @ ps"
    using e by (simp_all add: entry_of_def)
  have R: "\<forall>t \<in> set ts. pt_wallet t = pw_id w" "\<forall>t \<in> set ss. sl_wallet t = pw_id w"
    "\<forall>t \<in> set ps. po_wallet t = pw_id w"
    using e by (simp_all add: entry_of_def)
  have f: "pw_id (?g v) = pw_id v" "pw_tenant (?g v) = pw_tenant v" "pw_persona (?g v) = pw_persona v" for v
    using e by (simp_all add: entry_of_def)
  have X: "(\<exists>v \<in> set (bk_wallets bk'). pw_id v = i) \<longleftrightarrow> (\<exists>v \<in> set (bk_wallets bk). pw_id v = i)" for i
    unfolding W set_map bex_simps(7) f ..
  have M: "purse_movements bk' (?g v) = purse_movements bk v + (if v = w then d else 0)"
    and E: "purse_earnings bk' (?g v) - purse_paid bk' (?g v)
        = purse_earnings bk v - purse_paid bk v + (if v = w then d else 0)"
    if v: "v \<in> set (bk_wallets bk)" for v
  proof -
    have k: "pw_id v = pw_id w \<longleftrightarrow> v = w" using wallet_id_unique [OF ok v w] by blast
    show "purse_movements bk' (?g v) = purse_movements bk v + (if v = w then d else 0)"
      unfolding purse_movements_def f T sum_where_simps using e k
      by (cases "v = w") (auto simp: entry_of_def sum_where_all sum_where_none)
    show "purse_earnings bk' (?g v) - purse_paid bk' (?g v)
        = purse_earnings bk v - purse_paid bk v + (if v = w then d else 0)"
      unfolding purse_earnings_def purse_paid_def f S P sum_where_simps using e k
      by (cases "v = w") (auto simp: entry_of_def sum_where_all sum_where_none)
  qed
  have "purse_ok bk' (?g v)" if v: "v \<in> set (bk_wallets bk)" for v
  proof (cases "v = w")
    case True
    have "purse_ok bk w" using ok w by (simp add: bank_ok_def)
    moreover have "pw_balance (?g w) = pw_balance w + of_int d / 100" using e by (simp add: entry_of_def)
    ultimately show ?thesis using M [OF v] E [OF v] n unfolding True purse_ok_def
      by (simp add: add_divide_distrib)
  next
    case False
    then have "pw_id v \<noteq> pw_id w" using wallet_id_unique [OF ok v w] by blast
    moreover have "purse_ok bk v" using ok v by (simp add: bank_ok_def)
    ultimately show ?thesis using M [OF v] E [OF v] False unfolding purse_ok_def by simp
  qed
  then have "\<forall>v \<in> set (bk_wallets bk'). purse_ok bk' v" unfolding W set_map by blast
  moreover have "map pw_id (bk_wallets bk') = map pw_id (bk_wallets bk)"
    "map pw_persona (bk_wallets bk') = map pw_persona (bk_wallets bk)"
    unfolding W map_map comp_def f by (rule refl)+
  moreover have "\<forall>t \<in> set (bk_txs bk'). \<exists>v \<in> set (bk_wallets bk'). pw_id v = pt_wallet t"
    "\<forall>t \<in> set (bk_payouts bk'). \<exists>v \<in> set (bk_wallets bk'). pw_id v = po_wallet t"
    "\<forall>t \<in> set (bk_settlements bk'). split_ok t \<and> (\<exists>v \<in> set (bk_wallets bk'). pw_id v = sl_wallet t)"
    unfolding X T S P using ok w R s(1) by (auto simp: bank_ok_def)
  ultimately show ?thesis using ok s(2) by (simp add: bank_ok_def S)
qed

lemma bank_ok_ids [simp]: "bank_ok (bk\<lparr>bk_ids := k\<rparr>) \<longleftrightarrow> bank_ok bk"
  by (simp add: bank_ok_def purse_ok_def purse_movements_def purse_earnings_def purse_paid_def)

lemma bank_ok_personas [simp]: "bank_ok (bk\<lparr>bk_personas := ps\<rparr>) \<longleftrightarrow> bank_ok bk"
  by (simp add: bank_ok_def purse_ok_def purse_movements_def purse_earnings_def purse_paid_def)

lemma bank_balance:
  assumes "bank_ok bk" and "w \<in> set (bk_wallets bk)"
  shows "pw_balance w = of_int (purse_movements bk w) / 100" and "wallet_cents w = purse_movements bk w"
    and "0 \<le> purse_movements bk w"
proof -
  have "purse_ok bk w" using assms by (simp add: bank_ok_def)
  then show b: "pw_balance w = of_int (purse_movements bk w) / 100" and "0 \<le> purse_movements bk w"
    by (simp_all add: purse_ok_def)
  show "wallet_cents w = purse_movements bk w" by (simp add: wallet_cents_def b)
qed

lemma update_one_wallet:
  assumes ok: "bank_ok bk" and w: "w \<in> set (bk_wallets bk)" "P w"
    and u: "\<And>v. v \<in> set (bk_wallets bk) \<Longrightarrow> P v \<Longrightarrow> pw_id v = pw_id w"
  shows "update_where P g (bk_wallets bk)
    = (map (\<lambda>v. if pw_id v = pw_id w then g v else v) (bk_wallets bk), 1)"
proof -
  have eq: "P v \<longleftrightarrow> pw_id v = pw_id w" if "v \<in> set (bk_wallets bk)" for v
    using u [OF that] wallet_id_unique [OF ok that w(1)] w(2) by blast
  have "count_where P (bk_wallets bk) \<le> 1"
    by (rule count_where_unique [where key = pw_id and k = "pw_id w"]) (use ok u in \<open>auto simp: bank_ok_def\<close>)
  moreover have "count_where P (bk_wallets bk) \<noteq> 0" using w by (auto simp: count_where_0_iff)
  ultimately have "snd (update_where P g (bk_wallets bk)) = 1" by (simp add: update_where_snd)
  moreover have "fst (update_where P g (bk_wallets bk))
      = map (\<lambda>v. if pw_id v = pw_id w then g v else v) (bk_wallets bk)"
    using eq by (simp add: update_where_fst)
  ultimately show ?thesis by (metis prod.collapse)
qed

lemma insert_purse_tx_None:
  assumes "insert_purse_tx gen actor tn w k n cur rt ref now bk = (bk', None)"
  shows "\<exists>t. bk' = bk\<lparr>bk_txs := bk_txs bk @ [t], bk_ids := Suc (bk_ids bk)\<rparr> \<and> pt_tenant t = tn
     \<and> pt_wallet t = w \<and> pt_amount t = js_round n \<and> pt_type t = k \<and> pt_ref t = ref
     \<and> pt_ref_type t = rt \<and> pt_currency t = cur"
proof -
  let ?t = "\<lparr> pt_id = new_id gen bk, pt_tenant = tn, pt_wallet = w, pt_type = k, pt_amount = js_round n,
     pt_currency = cur, pt_ref_type = rt, pt_ref = ref, pt_created_at = now \<rparr>"
  have "bk' = bk\<lparr>bk_txs := bk_txs bk @ [?t], bk_ids := Suc (bk_ids bk)\<rparr>"
    using assms
    by (auto simp: insert_purse_tx_def purse_cmd_insert_tx_def drawn_def split: option.splits if_splits)
  then show ?thesis by (intro exI [of _ ?t]) simp
qed

lemma debited_balance:
  assumes "bank_ok bk" and "w \<in> set (bk_wallets bk)"
  shows "pw_balance (debited n now w) = pw_balance w + of_int (- n) / 100"
proof -
  have "pw_balance (debited n now w) = of_int (purse_movements bk w - n) / 100"
    unfolding debited_def bank_balance(2) [OF assms] by (simp del: of_int_diff)
  then show ?thesis by (simp add: bank_balance(1) [OF assms] diff_divide_distrib)
qed

lemma payout_commit_cases:
  assumes ok: "bank_ok bk"
  obtains (same) k where "fst (payout_commit gen tn user i cur n key now bk) = bk\<lparr>bk_ids := k\<rparr>"
      and "\<forall>r. snd (payout_commit gen tn user i cur n key now bk) = Inr (Some r) \<longrightarrow>
             key \<noteq> None \<and> payout_by_key tn bk (the key) = Some r \<and> po_amount r = n \<and> po_wallet r = i"
  | (paid) bk3 w t where
      "payout_commit gen tn user i cur n key now bk
         = (bk3, Inr (payout_by_id tn bk3 (new_id gen bk)))"
      and "w \<in> set (bk_wallets bk)" and "pw_tenant w = tn" and "pw_id w = i" and "n \<le> purse_movements bk w"
      and "entry_of bk bk3 w (debited n now) [t] [] [payout_row (new_id gen bk) tn i n cur user key now] (- n)"
      and "pt_ref_type t = Some ''wallet_payout_request''"
proof -
  let ?r = "payout_commit gen tn user i cur n key now bk" and ?row = "payout_row (new_id gen bk) tn i n cur user key now"
  consider (key) "\<forall>bk1. purse_cmd_create_payout ?row (drawn bk) \<noteq> Payout_Stored bk1"
    | (new) bk1 where "purse_cmd_create_payout ?row (drawn bk) = Payout_Stored bk1"
    by blast
  then show thesis
  proof cases
    case key
    then have "fst ?r = bk\<lparr>bk_ids := Suc (bk_ids bk)\<rparr>"
      by (cases "purse_cmd_create_payout ?row (drawn bk)")
        (auto simp: payout_commit_def Let_def drawn_def split: option.splits)
    moreover have "key \<noteq> None \<and> payout_by_key tn bk (the key) = Some r \<and> po_amount r = n \<and> po_wallet r = i"
      if "snd ?r = Inr (Some r)" for r
    proof (cases "purse_cmd_create_payout ?row (drawn bk)")
      case Payout_Key_Taken
      with that show ?thesis
        by (auto simp: payout_commit_def Let_def drawn_def payout_by_key_def truthy_def
            split: option.splits if_splits)
    qed (use that key in \<open>simp_all add: payout_commit_def Let_def\<close>)
    ultimately show thesis by (intro same) simp_all
  next
    case new
    then have bk1: "bk1 = (drawn bk)\<lparr>bk_payouts := bk_payouts bk @ [?row]\<rparr>"
      by (auto simp: purse_cmd_create_payout_def drawn_def split: if_splits)
    obtain bk2 k where d: "purse_cmd_debit tn i n now bk1 = (bk2, k)" by fastforce
    show thesis
    proof (cases "k = 1")
      case False
      then have "fst ?r = bk\<lparr>bk_ids := Suc (bk_ids bk)\<rparr>"
        using new d by (simp add: payout_commit_def Let_def drawn_def)
      moreover have "snd ?r = Inr None" using new d False by (simp add: payout_commit_def Let_def)
      ultimately show thesis by (intro same) simp_all
    next
      case True
      let ?P = "\<lambda>w. pw_tenant w = tn \<and> pw_id w = i \<and> wallet_cents w \<ge> n"
      have ws: "bk_wallets bk1 = bk_wallets bk" by (simp add: bk1 drawn_def)
      have "snd (update_where ?P (debited n now) (bk_wallets bk)) = 1"
        using d True by (simp add: purse_cmd_debit_def ws split_beta)
      then have "\<exists>w \<in> set (bk_wallets bk). ?P w"
        using update_where_hits [of ?P "debited n now" "bk_wallets bk"] by simp
      then obtain w where w: "w \<in> set (bk_wallets bk)" "pw_tenant w = tn" "pw_id w = i" "n \<le> wallet_cents w"
        by blast
      have u: "update_where ?P (debited n now) (bk_wallets bk)
          = (map (\<lambda>v. if pw_id v = pw_id w then debited n now v else v) (bk_wallets bk), 1)"
        by (rule update_one_wallet [OF ok]) (use w in auto)
      have bk2: "bk2 = bk1\<lparr>bk_wallets := map (\<lambda>v. if pw_id v = pw_id w then debited n now v else v) (bk_wallets bk)\<rparr>"
        using d u by (simp add: purse_cmd_debit_def ws)
      obtain bk3 e where i3: "insert_purse_tx gen Actor_Human tn i Ptx_Owner_Payout (- of_int n) cur
          (Some ''wallet_payout_request'') (Some (new_id gen bk)) now bk2 = (bk3, e)" by fastforce
      show thesis
      proof (cases e)
        case (Some er)
        then have "fst ?r = bk\<lparr>bk_ids := bk_ids bk3\<rparr>"
          using new d i3 True by (simp add: payout_commit_def Let_def undo_bank_def)
        moreover have "snd ?r = Inl er" using new d i3 True Some by (simp add: payout_commit_def Let_def)
        ultimately show thesis by (intro same) simp_all
      next
        case None
        then obtain t where t: "bk3 = bk2\<lparr>bk_txs := bk_txs bk2 @ [t], bk_ids := Suc (bk_ids bk2)\<rparr>"
          "pt_tenant t = tn" "pt_wallet t = i" "pt_amount t = js_round (- of_int n)"
          "pt_ref_type t = Some ''wallet_payout_request''"
          using insert_purse_tx_None [OF i3 [unfolded None]] by blast
        have r: "?r = (bk3, Inr (payout_by_id tn bk3 (new_id gen bk)))"
          using new d i3 True None by (simp add: payout_commit_def Let_def)
        have am: "pt_amount t = - n" using t(4) js_round_of_int [of "- n"] by simp
        have bal: "pw_balance (debited n now w) = pw_balance w + of_int (- n) / 100"
          by (rule debited_balance [OF ok w(1)])
        have row: "po_tenant ?row = tn" "po_wallet ?row = i" "po_amount ?row = n"
          by (simp_all add: payout_row_def)
        have "entry_of bk bk3 w (debited n now) [t] [] [?row] (- n)"
          using t am w bal row by (simp add: entry_of_def bk2 bk1 drawn_def debited_def)
        with r w t(5) bank_balance(2) [OF ok w(1)] show thesis by (intro paid) simp_all
      qed
    qed
  qed
qed

lemma payout_commit_ok:
  assumes ok: "bank_ok bk"
  shows "bank_ok (fst (payout_commit gen tn user i cur n key now bk))"
  using ok
proof (cases rule: payout_commit_cases [of bk gen tn user i cur n key now])
  case (same k)
  then show ?thesis using ok by simp
next
  case (paid bk3 w t)
  have "bank_ok bk3"
    by (rule entry_ok [OF ok paid(2) paid(6)]) (use ok paid(5) in \<open>simp_all add: bank_ok_def\<close>)
  with paid(1) show ?thesis by simp
qed

subsection \<open>A key pays once\<close>

record payout_attempt =
  pa_tenant :: ident
  pa_user :: ident
  pa_wallet :: ident
  pa_currency :: string
  pa_amount :: int
  pa_key :: "string option"
  pa_at :: millis

definition try_payout :: "(nat \<Rightarrow> ident) \<Rightarrow> payout_attempt \<Rightarrow> purse_bank \<Rightarrow> purse_bank \<times> bool" where
  "try_payout gen a bk =
     (let bk' = fst (payout_commit gen (pa_tenant a) (pa_user a) (pa_wallet a) (pa_currency a) (pa_amount a)
             (pa_key a) (pa_at a) bk)
      in (bk', pa_key a \<noteq> None \<and> bk_payouts bk' \<noteq> bk_payouts bk))"

definition key_unused :: "purse_bank \<Rightarrow> ident \<times> string option \<Rightarrow> bool" where
  "key_unused bk k \<longleftrightarrow> (\<forall>r \<in> set (bk_payouts bk). \<not> (po_tenant r = fst k \<and> po_key r = snd k))"

lemma payout_commit_payouts:
  "bk_payouts (fst (payout_commit gen tn user i cur n key now bk)) = bk_payouts bk
   \<or> bk_payouts (fst (payout_commit gen tn user i cur n key now bk))
       = bk_payouts bk @ [payout_row (new_id gen bk) tn i n cur user key now]
     \<and> (key \<noteq> None \<longrightarrow> key_unused bk (tn, key))"
proof (cases "purse_cmd_create_payout (payout_row (new_id gen bk) tn i n cur user key now) (drawn bk)")
  case (Payout_Stored bk1)
  then have bk1: "bk_payouts bk1 = bk_payouts bk @ [payout_row (new_id gen bk) tn i n cur user key now]"
    and k: "key \<noteq> None \<longrightarrow> key_unused bk (tn, key)"
    by (auto simp: purse_cmd_create_payout_def drawn_def key_unused_def payout_row_def list_ex_iff
        split: if_splits)
  obtain bk2 m where d: "purse_cmd_debit tn i n now bk1 = (bk2, m)" by fastforce
  then have "bk_payouts bk2 = bk_payouts bk1" by (auto simp: purse_cmd_debit_def split: prod.splits)
  moreover obtain bk3 e where i3: "insert_purse_tx gen Actor_Human tn i Ptx_Owner_Payout (- of_int n) cur
      (Some ''wallet_payout_request'') (Some (new_id gen bk)) now bk2 = (bk3, e)" by fastforce
  moreover have "bk_payouts bk3 = bk_payouts bk2"
    using i3 by (auto simp: insert_purse_tx_def purse_cmd_insert_tx_def drawn_def split: option.splits if_splits)
  ultimately show ?thesis
    using Payout_Stored d bk1 k
    by (cases e) (simp_all add: payout_commit_def Let_def drawn_def undo_bank_def)
qed (auto simp: payout_commit_def Let_def drawn_def split: option.splits)

lemma payout_commit_personas:
  "bk_personas (fst (payout_commit gen tn user i cur n key now bk)) = bk_personas bk"
  by (auto simp: payout_commit_def Let_def drawn_def undo_bank_def purse_cmd_debit_def insert_purse_tx_def
      purse_cmd_insert_tx_def purse_cmd_create_payout_def
      split: payout_insert.splits option.splits if_splits prod.splits)

interpretation payout_keys: one_shot "try_payout gen" "\<lambda>a. (pa_tenant a, pa_key a)"
    "\<lambda>bk k. snd k \<noteq> None \<longrightarrow> key_unused bk k" "\<lambda>a k. False" for gen
proof
  fix a :: payout_attempt and bk k
  note p = payout_commit_payouts [of gen "pa_tenant a" "pa_user a" "pa_wallet a" "pa_currency a" "pa_amount a"
      "pa_key a" "pa_at a" bk]
  show "snd (pa_tenant a, pa_key a) \<noteq> None \<longrightarrow> key_unused bk (pa_tenant a, pa_key a)" if "snd (try_payout gen a bk)"
    using that p by (auto simp: try_payout_def Let_def)
  show "\<not> (snd (pa_tenant a, pa_key a) \<noteq> None \<longrightarrow> key_unused (fst (try_payout gen a bk)) (pa_tenant a, pa_key a))"
    if "snd (try_payout gen a bk)"
    using that p by (auto simp: try_payout_def Let_def key_unused_def payout_row_def)
  show "\<not> (snd k \<noteq> None \<longrightarrow> key_unused (fst (try_payout gen a bk)) k)"
    if "\<not> (snd k \<noteq> None \<longrightarrow> key_unused bk k)" and "\<not> False"
    using that p by (auto simp: try_payout_def Let_def key_unused_def)
qed

text \<open>
  C22: of all payouts with one idempotency key, in any order and from whatever wallets and amounts, at most
  one is stored; and a stored payout was covered by the balance of its wallet, which it lowers by exactly
  its amount.
\<close>

theorem keyed_payout_pays_once:
  assumes ok: "bank_ok bk" and key: "k \<noteq> None"
  shows "wins (\<lambda>a. (pa_tenant a, pa_key a)) (tn, k) as (snd (run_attempts (try_payout gen) as bk)) \<le> 1
     \<and> (\<forall>user i cur n now. fst (payout_commit gen tn user i cur n k now bk) \<noteq> bk\<lparr>bk_ids :=
            bk_ids (fst (payout_commit gen tn user i cur n k now bk))\<rparr> \<longrightarrow>
          (\<exists>w \<in> set (bk_wallets bk). pw_tenant w = tn \<and> pw_id w = i \<and> of_int n \<le> pw_balance w * 100
             \<and> (\<exists>v \<in> set (bk_wallets (fst (payout_commit gen tn user i cur n k now bk))).
                  pw_id v = i \<and> pw_balance v = pw_balance w - of_int n / 100)))"
proof (intro conjI allI impI)
  show "wins (\<lambda>a. (pa_tenant a, pa_key a)) (tn, k) as (snd (run_attempts (try_payout gen) as bk)) \<le> 1"
    by (rule payout_keys.at_most_one_win) simp
  fix user i cur n now
  let ?b = "fst (payout_commit gen tn user i cur n k now bk)"
  assume ch: "?b \<noteq> bk\<lparr>bk_ids := bk_ids ?b\<rparr>"
  from ok show "\<exists>w \<in> set (bk_wallets bk). pw_tenant w = tn \<and> pw_id w = i \<and> of_int n \<le> pw_balance w * 100
             \<and> (\<exists>v \<in> set (bk_wallets ?b). pw_id v = i \<and> pw_balance v = pw_balance w - of_int n / 100)"
  proof (cases rule: payout_commit_cases [of bk gen tn user i cur n k now])
    case (same m)
    then have "?b = bk\<lparr>bk_ids := bk_ids ?b\<rparr>" by simp
    with ch show ?thesis by simp
  next
    case (paid bk3 w t)
    have "of_int n \<le> pw_balance w * 100" using paid(5) bank_balance(1) [OF ok paid(2)] by simp
    moreover have "debited n now w \<in> set (bk_wallets ?b)" "pw_id (debited n now w) = i"
      "pw_balance (debited n now w) = pw_balance w - of_int n / 100"
      using paid(1,2,4,6) by (auto simp: entry_of_def)
    ultimately show ?thesis using paid(2,3,4) by blast
  qed
qed

definition paid_bank :: purse_bank where
  "paid_bank = \<lparr>
     bk_personas = [\<lparr> pr_id = ''p'', pr_tenant = ''t'', pr_owner = ''own'', pr_status = Per_Active,
       pr_lifecycle = Some Per_Active, pr_growth = 0, pr_reputation = 0, pr_training = 0,
       pr_deceased_at = None, pr_updated_at = 0 \<rparr>],
     bk_wallets = [\<lparr> pw_id = ''w'', pw_tenant = ''t'', pw_persona = ''p'', pw_address = ''addr'', pw_balance = 10,
       pw_tokens = 0, pw_currency = ''CRED'', pw_status = Purse_Active, pw_settled_at = None,
       pw_created_at = 0, pw_updated_at = 0 \<rparr>],
     bk_txs = [\<lparr> pt_id = ''tx'', pt_tenant = ''t'', pt_wallet = ''w'', pt_type = Ptx_Task_Payment,
       pt_amount = 1000, pt_currency = ''CRED'', pt_ref_type = None, pt_ref = None, pt_created_at = 0 \<rparr>],
     bk_settlements = [\<lparr> sl_id = ''s'', sl_tenant = ''t'', sl_wallet = ''w'', sl_task = ''m'', sl_assignment = ''a'',
       sl_total = 1000, sl_currency = ''CRED'', sl_owner_pct = 100, sl_persona_pct = 0, sl_platform_pct = 0,
       sl_owner = 1000, sl_persona = 0, sl_platform = 0, sl_created_at = 0, sl_completed_at = None \<rparr>],
     bk_payouts = [], bk_ids = 0 \<rparr>"

definition bank_gen :: "nat \<Rightarrow> ident" where
  "bank_gen n = replicate (Suc n) (CHR ''i'')"

definition payout_asked :: "int \<Rightarrow> payout_attempt" where
  "payout_asked n = \<lparr> pa_tenant = ''t'', pa_user = ''own'', pa_wallet = ''w'', pa_currency = ''CRED'',
     pa_amount = n, pa_key = Some ''k'', pa_at = 5 \<rparr>"

lemma paid_bank_ok: "bank_ok paid_bank"
  by (simp add: bank_ok_def paid_bank_def purse_ok_def purse_movements_def purse_earnings_def
      purse_paid_def split_ok_def)

theorem keyed_payout_pays_once_witness:
  "snd (run_attempts (try_payout bank_gen) [payout_asked 600, payout_asked 600] paid_bank) = [True, False]
   \<and> wins (\<lambda>a. (pa_tenant a, pa_key a)) (''t'', Some ''k'') [payout_asked 600, payout_asked 600]
       (snd (run_attempts (try_payout bank_gen) [payout_asked 600, payout_asked 600] paid_bank)) \<le> 1"
proof (intro conjI)
  show "snd (run_attempts (try_payout bank_gen) [payout_asked 600, payout_asked 600] paid_bank) = [True, False]"
    by code_simp
qed (rule keyed_payout_pays_once [OF paid_bank_ok, THEN conjunct1], simp)

text \<open>
  C38: the retry of a payout that succeeded is refused, instead of answered with the stored payout, as
  soon as the rest of the balance does not cover the amount a second time: the balance is checked
  before the key is looked up.
\<close>

theorem retried_payout_refused:
  assumes ok: "bank_ok bk" and w: "wallet_for_owner tn bk user i = Some w"
    and first: "request_payout gen tn user i amount (Some k) now bk = (bk', Inr (Some r))"
    and fresh: "payout_by_key tn bk k = None"
    and rest: "to_minor (pw_balance w) < 2 * js_round amount"
  shows "payout_by_key tn bk' k \<noteq> None \<and> request_payout gen tn user i amount (Some k) later bk' = (bk', Inr None)"
proof -
  let ?n = "max 0 (js_round amount)"
  have c: "payout_check tn user i amount bk = Some (pw_currency w, ?n)" and n: "0 < js_round amount"
    using first w by (auto simp: request_payout_def payout_check_def Let_def split: if_splits)
  have cm: "payout_commit gen tn user i (pw_currency w) ?n (Some k) now bk = (bk', Inr (Some r))"
    using first c by (simp add: request_payout_def)
  from ok show ?thesis
  proof (cases rule: payout_commit_cases [of bk gen tn user i "pw_currency w" ?n "Some k" now])
    case (same m)
    with cm fresh show ?thesis by auto
  next
    case (paid bk3 v t)
    have b: "bk3 = bk'" using paid(1) cm by simp
    have wf: "pw_tenant w = tn" "pw_id w = i" "w \<in> set (bk_wallets bk)"
      using w by (auto simp: wallet_for_owner_def split: option.splits if_splits dest!: select_one_SomeD)
    have v: "v = w" using wallet_id_unique [OF ok paid(2) wf(3)] paid(4) wf(2) by simp
    have ws: "bk_wallets bk' = map (\<lambda>u. if pw_id u = i then debited ?n now u else u) (bk_wallets bk)"
      and ps: "bk_payouts bk' = bk_payouts bk @ [payout_row (new_id gen bk) tn i ?n (pw_currency w) user (Some k) now]"
      using paid(4,6) b by (simp_all add: entry_of_def)
    have per: "bk_personas bk' = bk_personas bk" using payout_commit_personas [of gen tn user i _ _ _ now bk] cm
      by (metis fst_conv)
    have f: "pw_tenant (debited m x u) = pw_tenant u" "pw_id (debited m x u) = pw_id u"
      "pw_persona (debited m x u) = pw_persona u" for m x u
      by (simp_all add: debited_def)
    let ?P = "\<lambda>u. pw_tenant u = tn \<and> pw_id u = i \<and> list_ex (\<lambda>p. pr_id p = pw_persona u) (bk_personas bk)"
    obtain p where S: "select_one ?P (bk_wallets bk) = Some w"
      and p: "select_one (\<lambda>p. pr_id p = pw_persona w) (bk_personas bk) = Some p" "pr_owner p = user"
      using w by (auto simp: wallet_for_owner_def split: option.splits if_splits)
    have "?P (if pw_id u = i then debited ?n now u else u) \<longleftrightarrow> ?P u" for u by (simp add: f)
    then have "select_one ?P (bk_wallets bk') = Some (debited ?n now w)"
      unfolding ws select_one_map using S wf(2) by simp
    with p have "wallet_for_owner tn bk' user i = Some (debited ?n now w)"
      by (simp add: wallet_for_owner_def per f)
    moreover have "to_minor (pw_balance (debited ?n now w)) = to_minor (pw_balance w) - ?n"
    proof -
      have "pw_balance (debited ?n now w) = of_int (purse_movements bk w - ?n) / 100"
        unfolding debited_balance [OF ok wf(3)] bank_balance(1) [OF ok wf(3)] by (simp add: diff_divide_distrib)
      then show ?thesis unfolding bank_balance(1) [OF ok wf(3)] by (simp only: to_minor_cents)
    qed
    ultimately have "payout_check tn user i amount bk' = None"
      using rest n by (auto simp: payout_check_def Let_def)
    moreover have "payout_by_key tn bk' k \<noteq> None"
      by (simp add: payout_by_key_def ps select_one_None_iff payout_row_def)
    ultimately show ?thesis by (simp add: request_payout_def)
  qed
qed

theorem retried_payout_refused_witness:
  "let r1 = request_payout bank_gen ''t'' ''own'' ''w'' 600 (Some ''k'') 5 paid_bank in
   (\<exists>r. snd r1 = Inr (Some r))
   \<and> request_payout bank_gen ''t'' ''own'' ''w'' 600 (Some ''k'') 6 (fst r1) = (fst r1, Inr None)"
proof -
  let ?r1 = "request_payout bank_gen ''t'' ''own'' ''w'' 600 (Some ''k'') 5 paid_bank"
  let ?p = "hd (bk_payouts (fst ?r1))" and ?w = "hd (bk_wallets paid_bank)"
  have p: "snd ?r1 = Inr (Some ?p)" by code_simp
  then have r: "?r1 = (fst ?r1, Inr (Some ?p))" by (simp add: prod_eq_iff)
  have w: "wallet_for_owner ''t'' paid_bank ''own'' ''w'' = Some ?w" by code_simp
  have f: "payout_by_key ''t'' paid_bank ''k'' = None" by code_simp
  have b: "to_minor (pw_balance ?w) < 2 * js_round 600" by code_simp
  have q: "request_payout bank_gen ''t'' ''own'' ''w'' 600 (Some ''k'') 6 (fst ?r1) = (fst ?r1, Inr None)"
    by (rule retried_payout_refused [OF paid_bank_ok w r f b, THEN conjunct2])
  show ?thesis unfolding Let_def by (intro conjI exI, rule p, rule q)
qed

subsection \<open>New wallets, freezes and persons\<close>

definition set_purse_status :: "ident \<Rightarrow> ident \<Rightarrow> purse_status \<Rightarrow> purse_bank \<Rightarrow> purse_bank" where
  "set_purse_status tn i st bk =
     bk\<lparr>bk_wallets := fst (update_where (\<lambda>w. pw_tenant w = tn \<and> pw_id w = i)
        (\<lambda>w. w\<lparr>pw_status := st\<rparr>) (bk_wallets bk))\<rparr>"

lemma create_wallet_ok:
  assumes ok: "bank_ok bk" and c: "purse_cmd_create_wallet i tn p address now bk = Some bk'"
  shows "bank_ok bk'"
proof -
  let ?w = "\<lparr> pw_id = i, pw_tenant = tn, pw_persona = p, pw_address = address, pw_balance = 0,
     pw_tokens = 0, pw_currency = ''CRED'', pw_status = Purse_Active, pw_settled_at = None,
     pw_created_at = now, pw_updated_at = now \<rparr>"
  have bk': "bk' = bk\<lparr>bk_wallets := bk_wallets bk @ [?w]\<rparr>"
    and n: "\<forall>w \<in> set (bk_wallets bk). pw_id w \<noteq> i \<and> pw_persona w \<noteq> p"
    using c by (auto simp: purse_cmd_create_wallet_def list_ex_iff split: if_splits)
  have none: "\<forall>t \<in> set (bk_txs bk). pt_wallet t \<noteq> i" "\<forall>t \<in> set (bk_settlements bk). sl_wallet t \<noteq> i"
    "\<forall>t \<in> set (bk_payouts bk). po_wallet t \<noteq> i"
    using ok n unfolding bank_ok_def by metis+
  have same: "purse_movements bk' v = purse_movements bk v" "purse_earnings bk' v = purse_earnings bk v"
    "purse_paid bk' v = purse_paid bk v" for v
    by (simp_all add: bk' purse_movements_def purse_earnings_def purse_paid_def)
  have z: "purse_movements bk ?w = 0" "purse_earnings bk ?w = 0" "purse_paid bk ?w = 0"
    using none by (simp_all add: purse_movements_def purse_earnings_def purse_paid_def sum_where_none)
  have "purse_ok bk' ?w" using z by (simp add: purse_ok_def same)
  moreover have "purse_ok bk' v" if "v \<in> set (bk_wallets bk)" for v
    using ok that by (simp add: bank_ok_def purse_ok_def same)
  ultimately show ?thesis using ok n by (auto simp: bank_ok_def bk')
qed

lemma set_purse_status_ok:
  assumes ok: "bank_ok bk"
  shows "bank_ok (set_purse_status tn i st bk)"
proof (cases "\<exists>w \<in> set (bk_wallets bk). pw_tenant w = tn \<and> pw_id w = i")
  case False
  then have "set_purse_status tn i st bk = bk" by (simp add: set_purse_status_def update_where_miss_id)
  with ok show ?thesis by simp
next
  case True
  then obtain w where w: "w \<in> set (bk_wallets bk)" "pw_tenant w = tn" "pw_id w = i" by blast
  have u: "update_where (\<lambda>w. pw_tenant w = tn \<and> pw_id w = i) (\<lambda>w. w\<lparr>pw_status := st\<rparr>) (bk_wallets bk)
      = (map (\<lambda>v. if pw_id v = pw_id w then v\<lparr>pw_status := st\<rparr> else v) (bk_wallets bk), 1)"
    by (rule update_one_wallet [OF ok]) (use w in auto)
  have "entry_of bk (set_purse_status tn i st bk) w (\<lambda>w. w\<lparr>pw_status := st\<rparr>) [] [] [] 0"
    by (simp add: entry_of_def set_purse_status_def u)
  then show ?thesis
    by (rule entry_ok [OF ok w(1)]) (use ok bank_balance(3) [OF ok w(1)] in \<open>simp_all add: bank_ok_def\<close>)
qed

end
