(* ===== verification/Persona_Governance.thy ===== *)
theory Persona_Governance
  imports Persona_Wallet
begin

text \<open>
  Cases against digital persons: opening, the actions of a moderator, and the appeal of the owner
  (\<^verbatim>\<open>src/persona-core/persona-governance-service.ts\<close>). Events, memories and audit rows are left out, and
  so are the details, which are not interpreted. The check of an action, on what was read before, and its
  transaction are two definitions.
\<close>

datatype case_severity = Sev_Low | Sev_Medium | Sev_High | Sev_Critical

datatype case_status = Case_Open | Case_Action_Applied | Case_Appealed | Case_Resolved

datatype gov_action_type = Gov_Warning | Gov_Restriction | Gov_Suspension | Gov_Reinstate | Gov_Termination

record gov_case =
  gc_id :: ident
  gc_tenant :: ident
  gc_persona :: ident
  gc_task :: "ident option"
  gc_trigger :: string
  gc_severity :: case_severity
  gc_status :: case_status
  gc_opened_at :: millis
  gc_resolved_at :: "millis option"
  gc_appealed_at :: "millis option"

record gov_action =
  ga_id :: ident
  ga_tenant :: ident
  ga_case :: ident
  ga_type :: gov_action_type
  ga_seconds :: "int option"
  ga_actor :: ident
  ga_created_at :: millis

record governance =
  gv_bank :: purse_bank
  gv_cases :: "gov_case list"
  gv_actions :: "gov_action list"

fun severity_level :: "case_severity \<Rightarrow> int" where
  "severity_level Sev_Critical = 5"
| "severity_level Sev_High = 4"
| "severity_level Sev_Medium = 3"
| "severity_level Sev_Low = 1"

fun status_for_action :: "persona_status \<Rightarrow> gov_action_type \<Rightarrow> persona_status" where
  "status_for_action cur Gov_Restriction = Per_Restricted"
| "status_for_action cur Gov_Suspension = Per_Suspended"
| "status_for_action cur Gov_Termination = Per_Deceased"
| "status_for_action cur Gov_Reinstate = Per_Active"
| "status_for_action cur Gov_Warning = cur"

fun reputation_for_action :: "gov_action_type \<Rightarrow> int \<Rightarrow> rat" where
  "reputation_for_action Gov_Warning l = round_digits 4 (- (8 / 10) * of_int l)"
| "reputation_for_action Gov_Restriction l = round_digits 4 (- (15 / 10) * of_int l)"
| "reputation_for_action Gov_Suspension l = round_digits 4 (- (21 / 10) * of_int l)"
| "reputation_for_action Gov_Termination l = round_digits 4 (- 4 * of_int l)"
| "reputation_for_action Gov_Reinstate l = round_digits 4 (12 / 10 * of_int l)"

definition is_terminal_status :: "persona_status \<Rightarrow> bool" where
  "is_terminal_status st \<longleftrightarrow> st = Per_Deceased \<or> st = Per_Transferred"

fun to_legacy_status :: "persona_status \<Rightarrow> persona_status" where
  "to_legacy_status Per_Suspended = Per_Restricted"
| "to_legacy_status Per_Dormant = Per_Active"
| "to_legacy_status Per_Draft = Per_Active"
| "to_legacy_status st = st"

definition case_at :: "ident \<Rightarrow> ident \<Rightarrow> gov_case \<Rightarrow> bool" where
  "case_at tn i c \<longleftrightarrow> gc_tenant c = tn \<and> gc_id c = i"

definition case_by_id :: "ident \<Rightarrow> 'a governance_scheme \<Rightarrow> ident \<Rightarrow> gov_case option" where
  "case_by_id tn s i = select_one (case_at tn i) (gv_cases s)"

definition gov_cmd_create_case :: "gov_case \<Rightarrow> 'a governance_scheme \<Rightarrow> 'a governance_scheme option" where
  "gov_cmd_create_case c s =
     (if list_ex (\<lambda>q. gc_id q = gc_id c) (gv_cases s) then None
      else Some (s\<lparr>gv_cases := gv_cases s @ [c]\<rparr>))"

definition gov_cmd_create_action :: "gov_action \<Rightarrow> 'a governance_scheme \<Rightarrow> 'a governance_scheme option" where
  "gov_cmd_create_action a s =
     (if list_ex (\<lambda>q. ga_id q = ga_id a) (gv_actions s) then None
      else Some (s\<lparr>gv_actions := gv_actions s @ [a]\<rparr>))"

definition gov_cmd_update_case ::
  "ident \<Rightarrow> ident \<Rightarrow> case_status \<Rightarrow> millis option \<Rightarrow> 'a governance_scheme \<Rightarrow> 'a governance_scheme \<times> nat" where
  "gov_cmd_update_case tn i st resolved s =
     (let (cs, n) = update_where (\<lambda>c. case_at tn i c \<and> gc_status c \<noteq> Case_Resolved)
        (\<lambda>c. c\<lparr>gc_status := st, gc_resolved_at := resolved\<rparr>) (gv_cases s)
      in (s\<lparr>gv_cases := cs\<rparr>, n))"

definition gov_cmd_apply_to_persona ::
  "ident \<Rightarrow> ident \<Rightarrow> rat \<Rightarrow> persona_status \<Rightarrow> persona_status \<Rightarrow> millis \<Rightarrow> 'a governance_scheme
     \<Rightarrow> 'a governance_scheme" where
  "gov_cmd_apply_to_persona tn p delta st legacy now s =
     s\<lparr>gv_bank := (gv_bank s)\<lparr>bk_personas :=
        fst (update_where (\<lambda>r. pr_tenant r = tn \<and> pr_id r = p)
          (\<lambda>r. r\<lparr>pr_reputation := pr_reputation r + delta, pr_updated_at := now, pr_lifecycle := Some st,
                 pr_status := legacy,
                 pr_deceased_at := (if st = Per_Deceased then Some now else pr_deceased_at r)\<rparr>)
          (bk_personas (gv_bank s)))\<rparr>\<rparr>"

definition gov_cmd_appeal ::
  "ident \<Rightarrow> ident \<Rightarrow> millis \<Rightarrow> 'a governance_scheme \<Rightarrow> 'a governance_scheme \<times> nat" where
  "gov_cmd_appeal tn i now s =
     (let (cs, n) = update_where
        (\<lambda>c. case_at tn i c \<and> gc_status c \<noteq> Case_Resolved \<and> gc_status c \<noteq> Case_Appealed)
        (\<lambda>c. c\<lparr>gc_status := Case_Appealed, gc_appealed_at := Some now, gc_resolved_at := None\<rparr>) (gv_cases s)
      in (s\<lparr>gv_cases := cs\<rparr>, n))"

definition drawn_gov :: "'a governance_scheme \<Rightarrow> 'a governance_scheme" where
  "drawn_gov s = s\<lparr>gv_bank := drawn (gv_bank s)\<rparr>"

text \<open>Operations: \<open>None\<close> is the \<^verbatim>\<open>null\<close> of a refusal, an error a primary key that refuses.\<close>

definition open_case ::
  "(nat \<Rightarrow> ident) \<Rightarrow> ident \<Rightarrow> ident \<Rightarrow> ident option \<Rightarrow> string \<Rightarrow> case_severity \<Rightarrow> millis \<Rightarrow> 'a governance_scheme
     \<Rightarrow> 'a governance_scheme \<times> (purse_error + gov_case option)" where
  "open_case gen tn p task trigger sev now s =
     (case persona_by_id tn (gv_bank s) p of
        None \<Rightarrow> (s, Inr None)
      | Some _ \<Rightarrow>
          let i = new_id gen (gv_bank s) in
          (case gov_cmd_create_case \<lparr> gc_id = i, gc_tenant = tn, gc_persona = p, gc_task = task,
                 gc_trigger = trigger, gc_severity = sev, gc_status = Case_Open, gc_opened_at = now,
                 gc_resolved_at = None, gc_appealed_at = None \<rparr> (drawn_gov s) of
             None \<Rightarrow> (drawn_gov s, Inl Purse_Constraint)
           | Some s' \<Rightarrow> (s', Inr (case_by_id tn s' i))))"

definition action_check ::
  "ident \<Rightarrow> ident \<Rightarrow> 'a governance_scheme \<Rightarrow> (gov_case \<times> persona_row) option" where
  "action_check tn i s =
     (case case_by_id tn s i of
        None \<Rightarrow> None
      | Some c \<Rightarrow>
          if gc_status c = Case_Resolved then None
          else map_option (\<lambda>p. (c, p)) (persona_by_id tn (gv_bank s) (gc_persona c)))"

definition action_commit ::
  "(nat \<Rightarrow> ident) \<Rightarrow> ident \<Rightarrow> gov_case \<Rightarrow> persona_row \<Rightarrow> gov_action_type \<Rightarrow> int option \<Rightarrow> ident \<Rightarrow> millis
     \<Rightarrow> 'a governance_scheme \<Rightarrow> 'a governance_scheme \<times> (purse_error + (gov_case \<times> persona_status) option)" where
  "action_commit gen tn c p k seconds actor now s =
     (let i = new_id gen (gv_bank s); s0 = drawn_gov s;
          next = status_for_action (persona_status_of p) k;
          st = (if k = Gov_Reinstate then Case_Resolved else Case_Action_Applied)
      in case gov_cmd_create_action \<lparr> ga_id = i, ga_tenant = tn, ga_case = gc_id c, ga_type = k,
                ga_seconds = seconds, ga_actor = actor, ga_created_at = now \<rparr> s0 of
           None \<Rightarrow> (s0, Inl Purse_Constraint)
         | Some s1 \<Rightarrow>
             (case gov_cmd_update_case tn (gc_id c) st (if st = Case_Resolved then Some now else None) s1 of
                (s2, n) \<Rightarrow>
                  if n \<noteq> 1 then (s0, Inr None)
                  else
                    let s3 = gov_cmd_apply_to_persona tn (gc_persona c)
                          (reputation_for_action k (severity_level (gc_severity c))) next
                          (to_legacy_status next) now s2
                    in (s3, Inr (map_option (\<lambda>c'. (c', next)) (case_by_id tn s3 (gc_id c))))))"

definition apply_governance_action ::
  "(nat \<Rightarrow> ident) \<Rightarrow> ident \<Rightarrow> ident \<Rightarrow> gov_action_type \<Rightarrow> int option \<Rightarrow> ident \<Rightarrow> millis
     \<Rightarrow> 'a governance_scheme \<Rightarrow> 'a governance_scheme \<times> (purse_error + (gov_case \<times> persona_status) option)" where
  "apply_governance_action gen tn i k seconds actor now s =
     (case action_check tn i s of
        None \<Rightarrow> (s, Inr None)
      | Some (c, p) \<Rightarrow> action_commit gen tn c p k seconds actor now s)"

definition appeal_case ::
  "ident \<Rightarrow> ident \<Rightarrow> ident \<Rightarrow> millis \<Rightarrow> 'a governance_scheme \<Rightarrow> 'a governance_scheme \<times> gov_case option" where
  "appeal_case tn actor i now s =
     (case case_by_id tn s i of
        None \<Rightarrow> (s, None)
      | Some c \<Rightarrow>
          (case persona_by_id tn (gv_bank s) (gc_persona c) of
             None \<Rightarrow> (s, None)
           | Some p \<Rightarrow>
               if pr_owner p \<noteq> actor \<or> gc_status c = Case_Resolved \<or> gc_status c = Case_Appealed then (s, None)
               else (case gov_cmd_appeal tn i now s of
                       (s', n) \<Rightarrow> if n \<noteq> 1 then (s, None) else (s', case_by_id tn s' i))))"

end
