(* ===== verification/Persona_Market.thy ===== *)
theory Persona_Market
  imports Persona_Governance Market_Tasks
begin

text \<open>
  Digital persons on the market: publishing, applying, assigning, submitting, acceptance and rejection by
  the publisher, disputes, direct acceptance and completion by the owner, and the settlement of the reward
  (\<^verbatim>\<open>src/persona-core/persona-marketplace-service.ts\<close>, with its statements in
  \<^verbatim>\<open>src/storage/executors/persona-core-executors.ts\<close>). Memories, growth and reputation histories, events and
  audit rows are left out. Operations that check before their transaction are two definitions, the check
  and the transaction, so that other operations may come between them. The clock is read once per operation.
\<close>

datatype application_status = Apl_Submitted | Apl_Assigned | Apl_Rejected | Apl_Withdrawn

record task_application =
  al_id :: ident
  al_tenant :: ident
  al_task :: ident
  al_persona :: ident
  al_score :: rat
  al_status :: application_status
  al_created_at :: millis
  al_updated_at :: millis

datatype work_status =
    Work_Assigned
  | Work_In_Progress
  | Work_Submitted
  | Work_Accepted
  | Work_Rejected
  | Work_Disputed
  | Work_Completed

record work_assignment =
  wa_id :: ident
  wa_tenant :: ident
  wa_task :: ident
  wa_persona :: ident
  wa_application :: "ident option"
  wa_session :: "ident option"
  wa_status :: work_status
  wa_assigned_at :: millis
  wa_started_at :: "millis option"
  wa_submitted_at :: "millis option"
  wa_completed_at :: "millis option"

datatype result_status = Res_Submitted | Res_Accepted | Res_Rejected | Res_Disputed

record work_result =
  wr_id :: ident
  wr_tenant :: ident
  wr_task :: ident
  wr_assignment :: ident
  wr_uri :: string
  wr_evaluation :: string
  wr_quality :: "rat option"
  wr_rating :: "rat option"
  wr_status :: result_status
  wr_reason :: "string option"
  wr_created_at :: millis
  wr_updated_at :: millis
  wr_accepted_at :: "millis option"
  wr_rejected_at :: "millis option"
  wr_disputed_at :: "millis option"

record persona_market = governance +
  pm_tasks :: "market_task list"
  pm_applications :: "task_application list"
  pm_assignments :: "work_assignment list"
  pm_results :: "work_result list"

subsection \<open>Statements\<close>

definition task_application_of ::
  "ident \<Rightarrow> persona_market \<Rightarrow> ident \<Rightarrow> ident \<Rightarrow> task_application option" where
  "task_application_of tn s task p =
     select_one (\<lambda>a. al_tenant a = tn \<and> al_task a = task \<and> al_persona a = p) (pm_applications s)"

definition market_cmd_create_application ::
  "task_application \<Rightarrow> persona_market \<Rightarrow> persona_market option" where
  "market_cmd_create_application a s =
     (if list_ex (\<lambda>q. al_id q = al_id a
           \<or> al_tenant q = al_tenant a \<and> al_task q = al_task a \<and> al_persona q = al_persona a) (pm_applications s)
      then None else Some (s\<lparr>pm_applications := pm_applications s @ [a]\<rparr>))"

definition market_cmd_mark_applications ::
  "ident \<Rightarrow> ident \<Rightarrow> ident \<Rightarrow> millis \<Rightarrow> persona_market \<Rightarrow> persona_market" where
  "market_cmd_mark_applications tn task app now s =
     s\<lparr>pm_applications := fst (update_where (\<lambda>a. al_tenant a = tn \<and> al_task a = task)
        (\<lambda>a. a\<lparr>al_status := (if al_id a = app then Apl_Assigned else al_status a), al_updated_at := now\<rparr>)
        (pm_applications s))\<rparr>"

definition market_cmd_reject_application ::
  "ident \<Rightarrow> ident option \<Rightarrow> millis \<Rightarrow> persona_market \<Rightarrow> persona_market" where
  "market_cmd_reject_application tn app now s =
     (if truthy app then
        s\<lparr>pm_applications := fst (update_where (\<lambda>a. al_tenant a = tn \<and> al_id a = the app)
           (\<lambda>a. a\<lparr>al_status := Apl_Rejected, al_updated_at := now\<rparr>) (pm_applications s))\<rparr>
      else s)"

definition market_cmd_create_assignment ::
  "ident \<Rightarrow> ident \<Rightarrow> ident \<Rightarrow> ident \<Rightarrow> ident option \<Rightarrow> millis \<Rightarrow> persona_market \<Rightarrow> persona_market option" where
  "market_cmd_create_assignment i tn task p app now s =
     (if list_ex (\<lambda>q. wa_id q = i) (pm_assignments s) then None
      else Some (s\<lparr>pm_assignments := pm_assignments s @
        [\<lparr> wa_id = i, wa_tenant = tn, wa_task = task, wa_persona = p, wa_application = app,
           wa_session = None, wa_status = Work_Assigned, wa_assigned_at = now, wa_started_at = None,
           wa_submitted_at = None, wa_completed_at = None \<rparr>]\<rparr>))"

definition work_at :: "ident \<Rightarrow> ident \<Rightarrow> work_assignment \<Rightarrow> bool" where
  "work_at tn i a \<longleftrightarrow> wa_tenant a = tn \<and> wa_id a = i"

definition assignment_by_id :: "ident \<Rightarrow> persona_market \<Rightarrow> ident \<Rightarrow> work_assignment option" where
  "assignment_by_id tn s i = select_one (work_at tn i) (pm_assignments s)"

text \<open>
  \<^verbatim>\<open>ORDER BY assigned_at DESC LIMIT 1\<close>: of rows with the same time, where the statement leaves the choice
  open, the one that was stored first.
\<close>

definition latest_assignment :: "ident \<Rightarrow> persona_market \<Rightarrow> ident \<Rightarrow> work_assignment option" where
  "latest_assignment tn s task =
     (case sort_key (\<lambda>a. - wa_assigned_at a)
              (filter (\<lambda>a. wa_tenant a = tn \<and> wa_task a = task) (pm_assignments s)) of
        [] \<Rightarrow> None | a # _ \<Rightarrow> Some a)"

definition set_work :: "(work_assignment \<Rightarrow> bool) \<Rightarrow> (work_assignment \<Rightarrow> work_assignment)
    \<Rightarrow> persona_market \<Rightarrow> persona_market" where
  "set_work p f s = s\<lparr>pm_assignments := fst (update_where p f (pm_assignments s))\<rparr>"

definition market_cmd_submit_assignment :: "ident \<Rightarrow> ident \<Rightarrow> millis \<Rightarrow> persona_market \<Rightarrow> persona_market" where
  "market_cmd_submit_assignment tn i now =
     set_work (work_at tn i) (\<lambda>a. a\<lparr>wa_status := Work_Submitted, wa_submitted_at := Some now\<rparr>)"

definition market_cmd_accept_work :: "ident \<Rightarrow> ident \<Rightarrow> millis \<Rightarrow> persona_market \<Rightarrow> persona_market" where
  "market_cmd_accept_work tn i now =
     set_work (\<lambda>a. work_at tn i a \<and> wa_status a = Work_Submitted)
       (\<lambda>a. a\<lparr>wa_status := Work_Accepted, wa_completed_at := Some now\<rparr>)"

definition market_cmd_reject_work :: "ident \<Rightarrow> ident \<Rightarrow> persona_market \<Rightarrow> persona_market" where
  "market_cmd_reject_work tn i =
     set_work (\<lambda>a. work_at tn i a \<and> wa_status a = Work_Submitted) (\<lambda>a. a\<lparr>wa_status := Work_Rejected\<rparr>)"

definition market_cmd_dispute_work :: "ident \<Rightarrow> ident \<Rightarrow> persona_market \<Rightarrow> persona_market" where
  "market_cmd_dispute_work tn i = set_work (work_at tn i) (\<lambda>a. a\<lparr>wa_status := Work_Disputed\<rparr>)"

definition market_cmd_create_result ::
  "ident \<Rightarrow> ident \<Rightarrow> ident \<Rightarrow> ident \<Rightarrow> string \<Rightarrow> string \<Rightarrow> millis \<Rightarrow> persona_market \<Rightarrow> persona_market option" where
  "market_cmd_create_result i tn task a uri ev now s =
     (if list_ex (\<lambda>q. wr_id q = i) (pm_results s) then None
      else Some (s\<lparr>pm_results := pm_results s @
        [\<lparr> wr_id = i, wr_tenant = tn, wr_task = task, wr_assignment = a, wr_uri = uri,
           wr_evaluation = ev, wr_quality = None, wr_rating = None, wr_status = Res_Submitted,
           wr_reason = None, wr_created_at = now, wr_updated_at = now, wr_accepted_at = None,
           wr_rejected_at = None, wr_disputed_at = None \<rparr>]\<rparr>))"

definition latest_result :: "ident \<Rightarrow> persona_market \<Rightarrow> ident \<Rightarrow> work_result option" where
  "latest_result tn s a =
     (case sort_key (\<lambda>r. - wr_created_at r)
              (filter (\<lambda>r. wr_tenant r = tn \<and> wr_assignment r = a) (pm_results s)) of
        [] \<Rightarrow> None | r # _ \<Rightarrow> Some r)"

definition set_result :: "ident \<Rightarrow> ident \<Rightarrow> (work_result \<Rightarrow> work_result) \<Rightarrow> persona_market \<Rightarrow> persona_market" where
  "set_result tn i f s =
     s\<lparr>pm_results := fst (update_where (\<lambda>r. wr_tenant r = tn \<and> wr_id r = i) f (pm_results s))\<rparr>"

definition market_cmd_accept_result ::
  "ident \<Rightarrow> ident \<Rightarrow> rat \<Rightarrow> rat \<Rightarrow> millis \<Rightarrow> persona_market \<Rightarrow> persona_market" where
  "market_cmd_accept_result tn i q rating now =
     set_result tn i (\<lambda>r. r\<lparr>wr_status := Res_Accepted, wr_quality := Some q, wr_rating := Some rating,
       wr_accepted_at := Some now, wr_updated_at := now\<rparr>)"

definition market_cmd_reject_result ::
  "ident \<Rightarrow> ident \<Rightarrow> string \<Rightarrow> millis \<Rightarrow> persona_market \<Rightarrow> persona_market" where
  "market_cmd_reject_result tn i reason now =
     set_result tn i (\<lambda>r. r\<lparr>wr_status := Res_Rejected, wr_reason := Some reason,
       wr_rejected_at := Some now, wr_updated_at := now\<rparr>)"

definition market_cmd_dispute_result :: "ident \<Rightarrow> ident \<Rightarrow> millis \<Rightarrow> persona_market \<Rightarrow> persona_market" where
  "market_cmd_dispute_result tn i now =
     set_result tn i (\<lambda>r. r\<lparr>wr_status := Res_Disputed, wr_disputed_at := Some now, wr_updated_at := now\<rparr>)"

definition on_bank :: "(purse_bank \<Rightarrow> purse_bank) \<Rightarrow> persona_market \<Rightarrow> persona_market" where
  "on_bank f s = s\<lparr>gv_bank := f (gv_bank s)\<rparr>"

definition set_persona ::
  "ident \<Rightarrow> ident \<Rightarrow> (persona_row \<Rightarrow> persona_row) \<Rightarrow> persona_market \<Rightarrow> persona_market" where
  "set_persona tn p f =
     on_bank (\<lambda>bk. bk\<lparr>bk_personas := fst (update_where (\<lambda>r. pr_tenant r = tn \<and> pr_id r = p) f (bk_personas bk))\<rparr>)"

definition market_cmd_persona_accepted ::
  "ident \<Rightarrow> ident \<Rightarrow> rat \<Rightarrow> rat \<Rightarrow> millis \<Rightarrow> persona_market \<Rightarrow> persona_market" where
  "market_cmd_persona_accepted tn p growth rep now =
     set_persona tn p (\<lambda>r. r\<lparr>pr_growth := pr_growth r + growth, pr_reputation := pr_reputation r + rep,
       pr_lifecycle := Some Per_Active, pr_updated_at := now\<rparr>)"

definition market_cmd_persona_completed ::
  "ident \<Rightarrow> ident \<Rightarrow> rat \<Rightarrow> rat \<Rightarrow> rat \<Rightarrow> millis \<Rightarrow> persona_market \<Rightarrow> persona_market" where
  "market_cmd_persona_completed tn p growth rep hours now =
     set_persona tn p (\<lambda>r. r\<lparr>pr_growth := pr_growth r + growth, pr_reputation := pr_reputation r + rep,
       pr_training := pr_training r + hours, pr_lifecycle := Some Per_Active, pr_updated_at := now\<rparr>)"

subsection \<open>Publishing and taking a task\<close>

definition fresh :: "(nat \<Rightarrow> ident) \<Rightarrow> persona_market \<Rightarrow> ident" where
  "fresh gen s = new_id gen (gv_bank s)"

datatype market_refusal = Mar_Reward | Mar_Currency | Mar_Constraint | Mar_Purse purse_error

definition publish_task ::
  "(nat \<Rightarrow> ident) \<Rightarrow> ident \<Rightarrow> ident \<Rightarrow> string \<Rightarrow> string \<Rightarrow> string option \<Rightarrow> rat \<Rightarrow> string option \<Rightarrow> millis
     \<Rightarrow> persona_market \<Rightarrow> persona_market \<times> (market_refusal + market_task)" where
  "publish_task gen tn user title descr category reward cur now s =
     (if reward \<le> 0 then (s, Inl Mar_Reward)
      else if or_default cur ''CRED'' \<noteq> ''CRED'' then (s, Inl Mar_Currency)
      else
        let i = fresh gen s;
            (ts, n) = market_cmd_publish (publish_row tn i user title descr (or_default category ''general'')
              reward (or_default cur ''CRED'') now) (pm_tasks s);
            s' = (drawn_gov s)\<lparr>pm_tasks := ts\<rparr>
        in if n = 0 then (s', Inl Mar_Constraint)
           else (s', case get_market_task tn ts i of None \<Rightarrow> Inl Mar_Constraint | Some t \<Rightarrow> Inr t))"

text \<open>The ranking of an applicant, from the tasks of the category it completed.\<close>

definition completed_by :: "ident \<Rightarrow> ident \<Rightarrow> string option \<Rightarrow> persona_market \<Rightarrow> market_task list" where
  "completed_by tn p category s =
     filter (\<lambda>t. mt_tenant t = tn \<and> mt_persona t = Some p \<and> mt_status t = Mkt_Completed
        \<and> (case category of None \<Rightarrow> True | Some c \<Rightarrow> mt_category t = c)) (pm_tasks s)"

definition average :: "rat list \<Rightarrow> rat option" where
  "average xs = (if xs = [] then None else Some (sum_list xs / of_nat (length xs)))"

fun hours_of :: "market_task \<Rightarrow> rat list" where
  "hours_of t =
     (case (mt_accepted_at t, mt_completed_at t) of
        (Some a, Some b) \<Rightarrow> if a < b then [of_int (b - a) / 3600000] else []
      | _ \<Rightarrow> [])"

record ranking_stats =
  rk_completed :: nat
  rk_quality :: rat
  rk_speed :: rat

definition ranking_task_stats :: "ident \<Rightarrow> ident \<Rightarrow> string option \<Rightarrow> persona_market \<Rightarrow> ranking_stats" where
  "ranking_task_stats tn p category s =
     (let ts = completed_by tn p (if truthy category then category else None) s;
          avg_hours = or_default (average (concat (map hours_of ts))) 24
      in \<lparr> rk_completed = length ts,
           rk_quality = or_default (average (map (\<lambda>t. or_default (mt_quality t) 0) ts)) 0,
           rk_speed = clamp_to (1 - avg_hours / 72) (2 / 10) 1 \<rparr>)"

definition ranking_score :: "rat \<Rightarrow> rat \<Rightarrow> ranking_stats \<Rightarrow> rat" where
  "ranking_score reputation growth k =
     (let work = clamp_to (of_nat (min (rk_completed k) 20) / 20) 0 1 * clamp_to (rk_quality k) 0 1 * 100;
          rep = clamp_to reputation 0 100; gro = clamp_to growth 0 100;
          res = clamp_to (rk_speed k) 0 1 * 100
      in round_digits 4 (work * (35 / 100) + rep * (30 / 100) + gro * (20 / 100) + res * (15 / 100)))"

text \<open>A person of an owner, joined with its wallet.\<close>

definition owned_persona :: "ident \<Rightarrow> ident \<Rightarrow> ident \<Rightarrow> persona_market \<Rightarrow> persona_row option" where
  "owned_persona tn user p s =
     select_one (\<lambda>r. pr_tenant r = tn \<and> pr_owner r = user \<and> pr_id r = p
        \<and> list_ex (\<lambda>w. pw_persona w = pr_id r) (bk_wallets (gv_bank s))) (bk_personas (gv_bank s))"

definition apply_to_task ::
  "(nat \<Rightarrow> ident) \<Rightarrow> ident \<Rightarrow> ident \<Rightarrow> ident \<Rightarrow> ident \<Rightarrow> millis \<Rightarrow> persona_market
     \<Rightarrow> persona_market \<times> (market_refusal + task_application option)" where
  "apply_to_task gen tn user p task now s =
     (case (owned_persona tn user p s, get_market_task tn (pm_tasks s) task) of
        (Some r, Some t) \<Rightarrow>
          if persona_status_of r \<noteq> Per_Active \<or> mt_status t \<noteq> Mkt_Open
             \<or> task_application_of tn s task p \<noteq> None then (s, Inr None)
          else
            let a = \<lparr> al_id = fresh gen s, al_tenant = tn, al_task = task, al_persona = p,
                      al_score = ranking_score (pr_reputation r) (pr_growth r)
                        (ranking_task_stats tn p (Some (mt_category t)) s),
                      al_status = Apl_Submitted, al_created_at = now, al_updated_at = now \<rparr>
            in (case market_cmd_create_application a (drawn_gov s) of
                  None \<Rightarrow> (drawn_gov s, Inl Mar_Constraint)
                | Some s' \<Rightarrow> (s', Inr (task_application_of tn s' task p)))
      | _ \<Rightarrow> (s, Inr None))"

definition assign_check ::
  "ident \<Rightarrow> ident \<Rightarrow> ident \<Rightarrow> ident \<Rightarrow> persona_market \<Rightarrow> task_application option" where
  "assign_check tn actor p task s =
     (case (get_market_task tn (pm_tasks s) task, persona_by_id tn (gv_bank s) p,
            task_application_of tn s task p) of
        (Some t, Some r, Some a) \<Rightarrow>
          if mt_status t \<noteq> Mkt_Open \<or> mt_publisher t \<noteq> actor \<or> persona_status_of r \<noteq> Per_Active
             \<or> al_status a \<noteq> Apl_Submitted then None
          else (case latest_assignment tn s task of
                  None \<Rightarrow> Some a
                | Some w \<Rightarrow> if wa_status w = Work_Rejected \<or> wa_status w = Work_Completed then Some a else None)
      | _ \<Rightarrow> None)"

text \<open>What the statement on the table of tasks reports is not looked at.\<close>

definition assign_commit ::
  "(nat \<Rightarrow> ident) \<Rightarrow> ident \<Rightarrow> task_application \<Rightarrow> ident \<Rightarrow> ident \<Rightarrow> millis \<Rightarrow> persona_market
     \<Rightarrow> persona_market \<times> (market_refusal + work_assignment option)" where
  "assign_commit gen tn a p task now s =
     (let i = fresh gen s in
      case market_cmd_create_assignment i tn task p (Some (al_id a)) now (drawn_gov s) of
        None \<Rightarrow> (drawn_gov s, Inl Mar_Constraint)
      | Some s1 \<Rightarrow>
          let s2 = market_cmd_mark_applications tn task (al_id a) now s1;
              s3 = s2\<lparr>pm_tasks := fst (market_cmd_accept_assignment tn task p now (pm_tasks s2))\<rparr>
          in (s3, Inr (assignment_by_id tn s3 i)))"

definition assign_task ::
  "(nat \<Rightarrow> ident) \<Rightarrow> ident \<Rightarrow> ident \<Rightarrow> ident \<Rightarrow> ident \<Rightarrow> millis \<Rightarrow> persona_market
     \<Rightarrow> persona_market \<times> (market_refusal + work_assignment option)" where
  "assign_task gen tn actor p task now s =
     (case assign_check tn actor p task s of
        None \<Rightarrow> (s, Inr None) | Some a \<Rightarrow> assign_commit gen tn a p task now s)"

text \<open>Direct acceptance; whether a fork belongs to the person is a parameter.\<close>

definition take_check ::
  "(ident \<Rightarrow> ident \<Rightarrow> ident \<Rightarrow> bool) \<Rightarrow> ident \<Rightarrow> ident \<Rightarrow> ident \<Rightarrow> ident option \<Rightarrow> ident \<Rightarrow> persona_market \<Rightarrow> bool" where
  "take_check fork_of tn user p fork task s \<longleftrightarrow>
     (case (owned_persona tn user p s, get_market_task tn (pm_tasks s) task) of
        (Some r, Some t) \<Rightarrow> persona_status_of r = Per_Active \<and> mt_status t = Mkt_Open
          \<and> (truthy fork \<longrightarrow> fork_of tn p (the fork))
      | _ \<Rightarrow> False)"

definition take_commit ::
  "(nat \<Rightarrow> ident) \<Rightarrow> ident \<Rightarrow> ident \<Rightarrow> ident option \<Rightarrow> ident \<Rightarrow> millis \<Rightarrow> persona_market
     \<Rightarrow> persona_market \<times> (market_refusal + market_task option)" where
  "take_commit gen tn p fork task now s =
     (let ts = fst (market_cmd_accept_legacy tn task p fork now (pm_tasks s)) in
      case market_cmd_create_assignment (fresh gen s) tn task p None now (drawn_gov s) of
        None \<Rightarrow> (drawn_gov s, Inl Mar_Constraint)
      | Some s1 \<Rightarrow> (s1\<lparr>pm_tasks := ts\<rparr>, Inr (get_market_task tn ts task)))"

definition accept_task ::
  "(ident \<Rightarrow> ident \<Rightarrow> ident \<Rightarrow> bool) \<Rightarrow> (nat \<Rightarrow> ident) \<Rightarrow> ident \<Rightarrow> ident \<Rightarrow> ident \<Rightarrow> ident option \<Rightarrow> ident \<Rightarrow> millis
     \<Rightarrow> persona_market \<Rightarrow> persona_market \<times> (market_refusal + market_task option)" where
  "accept_task fork_of gen tn user p fork task now s =
     (if take_check fork_of tn user p fork task s then take_commit gen tn p fork task now s
      else (s, Inr None))"

subsection \<open>Settlement\<close>

record settlement_split =
  sp_owner :: rat
  sp_persona :: rat
  sp_platform :: rat

record settle_request =
  sr_actor :: ident
  sr_task :: ident
  sr_assignment :: ident
  sr_total :: rat
  sr_currency :: string
  sr_split :: settlement_split

definition share_of :: "int \<Rightarrow> int \<Rightarrow> int" where
  "share_of n pct = n * pct div 100"

definition persona_settlement ::
  "ident \<Rightarrow> ident \<Rightarrow> ident \<Rightarrow> ident \<Rightarrow> ident \<Rightarrow> int \<Rightarrow> string \<Rightarrow> int \<times> int \<times> int \<Rightarrow> millis \<Rightarrow> purse_settlement" where
  "persona_settlement i tn w task a n cur pcts now =
     (case pcts of (o_pct, p_pct, f_pct) \<Rightarrow>
        let ow = share_of n o_pct; pe = share_of n p_pct in
        \<lparr> sl_id = i, sl_tenant = tn, sl_wallet = w, sl_task = task, sl_assignment = a, sl_total = n,
          sl_currency = cur, sl_owner_pct = o_pct, sl_persona_pct = p_pct, sl_platform_pct = f_pct,
          sl_owner = ow, sl_persona = pe, sl_platform = n - ow - pe, sl_created_at = now,
          sl_completed_at = Some now \<rparr>)"

text \<open>
  The entries of a settlement: the payment, and the shares that leave the wallet where they are positive.
  The first refusal is thrown.
\<close>

fun insert_entries ::
  "(nat \<Rightarrow> ident) \<Rightarrow> ident \<Rightarrow> ident \<Rightarrow> string \<Rightarrow> ident \<Rightarrow> millis \<Rightarrow> (purse_tx_type \<times> int) list \<Rightarrow> purse_bank
     \<Rightarrow> purse_bank \<times> purse_error option" where
  "insert_entries gen tn w cur ref now [] bk = (bk, None)"
| "insert_entries gen tn w cur ref now ((k, n) # es) bk =
     (case insert_purse_tx gen Actor_System tn w k (of_int n) cur (Some ''wallet_settlement'') (Some ref)
             now bk of
        (bk', Some e) \<Rightarrow> (bk', Some e)
      | (bk', None) \<Rightarrow> insert_entries gen tn w cur ref now es bk')"

definition entries_of :: "purse_settlement \<Rightarrow> (purse_tx_type \<times> int) list" where
  "entries_of r =
     [(Ptx_Task_Payment, sl_total r)]
     @ (if 0 < sl_platform r then [(Ptx_Platform_Fee, - sl_platform r)] else [])
     @ (if 0 < sl_persona r then [(Ptx_Persona_Reserve, - sl_persona r)] else [])"

definition settle_bank ::
  "(nat \<Rightarrow> ident) \<Rightarrow> ident \<Rightarrow> ident \<Rightarrow> purse_settlement \<Rightarrow> millis \<Rightarrow> purse_bank
     \<Rightarrow> purse_bank \<times> (purse_error + purse_settlement option)" where
  "settle_bank gen tn w r now bk =
     (case purse_cmd_create_settlement r (drawn bk) of
        None \<Rightarrow> (drawn bk, Inl Purse_Constraint)
      | Some bk1 \<Rightarrow>
          let bk2 = fst (purse_cmd_settle tn w (from_minor (sl_owner r)) (from_minor (sl_persona r))
                (sl_currency r) now bk1)
          in (case insert_entries gen tn w (sl_currency r) (sl_id r) now (entries_of r) bk2 of
                (bk3, Some e) \<Rightarrow> (undo_bank bk bk3, Inl e)
              | (bk3, None) \<Rightarrow> (bk3, Inr (settlement_by_assignment tn bk3 (sl_assignment r)))))"

text \<open>\<^verbatim>\<open>settleTaskPayment\<close>: everything is read inside the transaction.\<close>

definition settle_task_payment ::
  "(nat \<Rightarrow> ident) \<Rightarrow> ident \<Rightarrow> settle_request \<Rightarrow> millis \<Rightarrow> persona_market
     \<Rightarrow> persona_market \<times> (purse_error + purse_settlement option)" where
  "settle_task_payment gen tn q now s =
     (case (get_market_task tn (pm_tasks s) (sr_task q), assignment_by_id tn s (sr_assignment q)) of
        (Some t, Some a) \<Rightarrow>
          if mt_publisher t \<noteq> sr_actor q \<or> \<not> truthy (mt_persona t) \<or> wa_task a \<noteq> sr_task q
             \<or> Some (wa_persona a) \<noteq> mt_persona t then (s, Inr None)
          else
            (case wallet_by_persona tn (gv_bank s) (wa_persona a) of
               None \<Rightarrow> (s, Inr None)
             | Some w \<Rightarrow>
                 if pw_status w \<noteq> Purse_Active then (s, Inr None)
                 else case settlement_by_assignment tn (gv_bank s) (sr_assignment q) of
                   Some old \<Rightarrow> (s, Inr (Some old))
                 | None \<Rightarrow>
                     let n = js_round (sr_total q); o_pct = js_round (sp_owner (sr_split q));
                         p_pct = js_round (sp_persona (sr_split q)); f_pct = js_round (sp_platform (sr_split q))
                     in if sr_currency q \<noteq> pw_currency w then (s, Inl Purse_Currency)
                        else if n \<le> 0 \<or> n \<noteq> to_minor (mt_reward t) \<or> o_pct + p_pct + f_pct \<noteq> 100 then (s, Inr None)
                        else
                          (case settle_bank gen tn (pw_id w)
                                  (persona_settlement (fresh gen s) tn (pw_id w) (sr_task q) (sr_assignment q) n
                                     (sr_currency q) (o_pct, p_pct, f_pct) now) now (gv_bank s) of
                             (bk, r) \<Rightarrow> (s\<lparr>gv_bank := bk\<rparr>, r)))
      | _ \<Rightarrow> (s, Inr None))"

subsection \<open>Submitting, accepting, rejecting and disputing\<close>

definition submit_task_result ::
  "(nat \<Rightarrow> ident) \<Rightarrow> ident \<Rightarrow> ident \<Rightarrow> ident \<Rightarrow> ident \<Rightarrow> string \<Rightarrow> string \<Rightarrow> millis \<Rightarrow> persona_market
     \<Rightarrow> persona_market \<times> (market_refusal + work_result option)" where
  "submit_task_result gen tn user task assignment uri ev now s =
     (case (assignment_by_id tn s assignment, get_market_task tn (pm_tasks s) task) of
        (Some a, Some t) \<Rightarrow>
          if wa_task a \<noteq> task \<or> \<not> persona_exists tn (gv_bank s) user (wa_persona a)
             \<or> wa_status a \<notin> {Work_Assigned, Work_In_Progress, Work_Rejected}
             \<or> mt_persona t \<noteq> Some (wa_persona a) then (s, Inr None)
          else
            (case market_cmd_create_result (fresh gen s) tn task assignment uri ev now (drawn_gov s) of
               None \<Rightarrow> (drawn_gov s, Inl Mar_Constraint)
             | Some s1 \<Rightarrow>
                 let s2 = market_cmd_submit_assignment tn assignment now s1;
                     s3 = s2\<lparr>pm_tasks := fst (market_cmd_touch tn task now (pm_tasks s2))\<rparr>
                 in (s3, Inr (latest_result tn s3 assignment)))
      | _ \<Rightarrow> (s, Inr None))"

text \<open>What an acceptance and a completion are worth.\<close>

definition reward_signal :: "rat \<Rightarrow> rat" where
  "reward_signal reward = max reward 1 / 100"

definition acceptance_growth :: "rat \<Rightarrow> rat \<Rightarrow> rat" where
  "acceptance_growth reward q = round_digits 4 (reward_signal reward * (6 / 10 + q))"

definition acceptance_reputation :: "rat \<Rightarrow> rat \<Rightarrow> rat \<Rightarrow> rat" where
  "acceptance_reputation reward q rating =
     round_digits 4 ((q - 1 / 2) * 8 + reward_signal reward * 3 + (rating - 3) * (8 / 10))"

definition market_accept_check ::
  "ident \<Rightarrow> ident \<Rightarrow> ident \<Rightarrow> persona_market \<Rightarrow> (market_task \<times> work_assignment \<times> work_result) option" where
  "market_accept_check tn actor task s =
     (case (get_market_task tn (pm_tasks s) task, latest_assignment tn s task) of
        (Some t, Some a) \<Rightarrow>
          if mt_publisher t \<noteq> actor \<or> \<not> truthy (mt_persona t) \<or> wa_status a \<noteq> Work_Submitted then None
          else
            (case (latest_result tn s (wa_id a), persona_by_id tn (gv_bank s) (wa_persona a),
                   wallet_by_persona tn (gv_bank s) (wa_persona a)) of
               (Some r, Some p, Some w) \<Rightarrow>
                 if wr_status r \<noteq> Res_Submitted \<or> is_terminal_status (persona_status_of p)
                    \<or> to_minor (mt_reward t) \<le> 0 \<or> pw_status w \<noteq> Purse_Active \<or> pw_currency w \<noteq> mt_currency t
                 then None else Some (t, a, r)
             | _ \<Rightarrow> None)
      | _ \<Rightarrow> None)"

text \<open>The acceptance proper, one transaction; \<open>False\<close> is the claim that was lost and rolled back.\<close>

definition market_accept_commit ::
  "ident \<Rightarrow> market_task \<Rightarrow> work_assignment \<Rightarrow> work_result \<Rightarrow> rat \<Rightarrow> rat \<Rightarrow> millis \<Rightarrow> persona_market
     \<Rightarrow> persona_market \<times> bool" where
  "market_accept_commit tn t a r quality rating now s =
     (let q = clamp_to quality 0 1; k = of_int (js_round (clamp_to rating 1 5));
          growth = acceptance_growth (mt_reward t) q;
          s1 = market_cmd_accept_work tn (wa_id a) now (market_cmd_accept_result tn (wr_id r) q k now s);
          (ts, n) = market_cmd_complete tn (mt_id t) q growth now (pm_tasks s1)
      in if n \<noteq> 1 then (s, False)
         else (market_cmd_persona_accepted tn (wa_persona a) growth
                 (acceptance_reputation (mt_reward t) q k) now (s1\<lparr>pm_tasks := ts\<rparr>), True))"

definition standard_split :: settlement_split where
  "standard_split = \<lparr> sp_owner = 60, sp_persona = 20, sp_platform = 20 \<rparr>"

definition acceptance_request :: "ident \<Rightarrow> market_task \<Rightarrow> work_assignment \<Rightarrow> settle_request" where
  "acceptance_request actor t a =
     \<lparr> sr_actor = actor, sr_task = mt_id t, sr_assignment = wa_id a,
       sr_total = of_int (to_minor (mt_reward t)), sr_currency = mt_currency t, sr_split = standard_split \<rparr>"

text \<open>The settlement follows in a transaction of its own.\<close>

definition accept_submitted_task ::
  "(nat \<Rightarrow> ident) \<Rightarrow> ident \<Rightarrow> ident \<Rightarrow> ident \<Rightarrow> rat \<Rightarrow> rat \<Rightarrow> millis \<Rightarrow> persona_market
     \<Rightarrow> persona_market \<times> (purse_error + (market_task \<times> work_assignment \<times> work_result) option)" where
  "accept_submitted_task gen tn actor task quality rating now s =
     (case market_accept_check tn actor task s of
        None \<Rightarrow> (s, Inr None)
      | Some (t, a, r) \<Rightarrow>
          (case market_accept_commit tn t a r quality rating now s of
             (s1, False) \<Rightarrow> (s1, Inr None)
           | (s1, True) \<Rightarrow>
               (case settle_task_payment gen tn (acceptance_request actor t a) now s1 of
                  (s2, Inl e) \<Rightarrow> (s2, Inl e)
                | (s2, Inr None) \<Rightarrow> (s2, Inr None)
                | (s2, Inr (Some st)) \<Rightarrow>
                    (s2, Inr (case (get_market_task tn (pm_tasks s2) task, assignment_by_id tn s2 (wa_id a),
                                    latest_result tn s2 (wa_id a)) of
                                (Some t', Some a', Some r') \<Rightarrow> Some (t', a', r')
                              | _ \<Rightarrow> None)))))"

definition market_reject_check ::
  "ident \<Rightarrow> ident \<Rightarrow> ident \<Rightarrow> persona_market \<Rightarrow> (work_assignment \<times> work_result) option" where
  "market_reject_check tn actor task s =
     (case (get_market_task tn (pm_tasks s) task, latest_assignment tn s task) of
        (Some t, Some a) \<Rightarrow>
          if mt_publisher t \<noteq> actor \<or> wa_status a \<noteq> Work_Submitted then None
          else (case latest_result tn s (wa_id a) of
                  None \<Rightarrow> None
                | Some r \<Rightarrow> if wr_status r \<noteq> Res_Submitted then None else Some (a, r))
      | _ \<Rightarrow> None)"

definition market_reject_commit ::
  "ident \<Rightarrow> ident \<Rightarrow> work_assignment \<Rightarrow> work_result \<Rightarrow> string \<Rightarrow> millis \<Rightarrow> persona_market \<Rightarrow> persona_market \<times> bool" where
  "market_reject_commit tn task a r reason now s =
     (let s1 = market_cmd_reject_application tn (wa_application a) now
                 (market_cmd_reject_work tn (wa_id a) (market_cmd_reject_result tn (wr_id r) reason now s));
          (ts, n) = market_cmd_reopen tn task now (pm_tasks s1)
      in if n \<noteq> 1 then (s, False) else (s1\<lparr>pm_tasks := ts\<rparr>, True))"

definition reject_submitted_task ::
  "ident \<Rightarrow> ident \<Rightarrow> ident \<Rightarrow> string \<Rightarrow> millis \<Rightarrow> persona_market
     \<Rightarrow> persona_market \<times> (market_task \<times> work_assignment \<times> work_result) option" where
  "reject_submitted_task tn actor task reason now s =
     (case market_reject_check tn actor task s of
        None \<Rightarrow> (s, None)
      | Some (a, r) \<Rightarrow>
          (case market_reject_commit tn task a r reason now s of
             (s1, False) \<Rightarrow> (s1, None)
           | (s1, True) \<Rightarrow>
               (s1, case (get_market_task tn (pm_tasks s1) task, assignment_by_id tn s1 (wa_id a),
                          latest_result tn s1 (wa_id a)) of
                      (Some t', Some a', Some r') \<Rightarrow> Some (t', a', r')
                    | _ \<Rightarrow> None)))"

definition dispute_commit ::
  "ident \<Rightarrow> ident \<Rightarrow> work_assignment \<Rightarrow> work_result option \<Rightarrow> millis \<Rightarrow> persona_market \<Rightarrow> persona_market" where
  "dispute_commit tn task a r now s =
     (let s1 = market_cmd_dispute_work tn (wa_id a) s;
          s2 = (case r of None \<Rightarrow> s1 | Some x \<Rightarrow> market_cmd_dispute_result tn (wr_id x) now s1)
      in s2\<lparr>pm_tasks := fst (market_cmd_touch tn task now (pm_tasks s2))\<rparr>)"

text \<open>The case is opened first, in a transaction of its own.\<close>

definition dispute_task ::
  "(nat \<Rightarrow> ident) \<Rightarrow> ident \<Rightarrow> ident \<Rightarrow> ident \<Rightarrow> millis \<Rightarrow> persona_market
     \<Rightarrow> persona_market \<times> (purse_error + gov_case option)" where
  "dispute_task gen tn actor task now s =
     (case (get_market_task tn (pm_tasks s) task, latest_assignment tn s task) of
        (Some t, Some a) \<Rightarrow>
          if mt_publisher t \<noteq> actor \<or> \<not> truthy (mt_persona t)
             \<or> wa_status a \<noteq> Work_Submitted \<and> wa_status a \<noteq> Work_Accepted then (s, Inr None)
          else
            (case open_case gen tn (the (mt_persona t)) (Some task) ''task_dispute'' Sev_Medium now s of
               (s1, Inl e) \<Rightarrow> (s1, Inl e)
             | (s1, Inr None) \<Rightarrow> (s1, Inr None)
             | (s1, Inr (Some c)) \<Rightarrow>
                 let s2 = dispute_commit tn task a (latest_result tn s (wa_id a)) now s1 in
                 (s2, Inr (case_by_id tn s2 (gc_id c))))
      | _ \<Rightarrow> (s, Inr None))"

subsection \<open>Completion by the owner\<close>

record completion =
  cp_task :: market_task
  cp_persona :: ident
  cp_wallet :: persona_wallet
  cp_assignment :: work_assignment

definition complete_check :: "ident \<Rightarrow> ident \<Rightarrow> ident \<Rightarrow> persona_market \<Rightarrow> completion option" where
  "complete_check tn user task s =
     (case get_market_task tn (pm_tasks s) task of
        None \<Rightarrow> None
      | Some t \<Rightarrow>
          if mt_status t \<noteq> Mkt_Accepted \<or> \<not> truthy (mt_persona t) then None
          else
            let p = the (mt_persona t) in
            (case (owned_persona tn user p s, wallet_by_persona tn (gv_bank s) p, latest_assignment tn s task) of
               (Some r, Some w, Some a) \<Rightarrow>
                 if is_terminal_status (persona_status_of r) \<or> pw_status w \<noteq> Purse_Active
                    \<or> pw_currency w \<noteq> mt_currency t
                    \<or> settlement_by_assignment tn (gv_bank s) (wa_id a) \<noteq> None then None
                 else Some \<lparr> cp_task = t, cp_persona = p, cp_wallet = w, cp_assignment = a \<rparr>
             | _ \<Rightarrow> None))"

definition completion_growth :: "rat \<Rightarrow> rat \<Rightarrow> rat \<Rightarrow> rat" where
  "completion_growth reward q hours = round_digits 4 (reward_signal reward * (6 / 10 + q) + hours * (15 / 100))"

definition completion_reputation :: "rat \<Rightarrow> rat \<Rightarrow> rat" where
  "completion_reputation reward q = round_digits 4 ((q - 1 / 2) * 8 + reward_signal reward * 3)"

definition completion_payout :: "rat \<Rightarrow> rat \<Rightarrow> rat" where
  "completion_payout reward q = round_digits 2 (reward * max q (2 / 10))"

text \<open>
  The payment of a completion, inside its transaction: the balance moves first, then the settlement and
  its one entry, where there is anything to pay.
\<close>

definition completion_settlement ::
  "ident \<Rightarrow> ident \<Rightarrow> persona_wallet \<Rightarrow> ident \<Rightarrow> ident \<Rightarrow> int \<Rightarrow> millis \<Rightarrow> purse_settlement" where
  "completion_settlement i tn w task a n now =
     \<lparr> sl_id = i, sl_tenant = tn, sl_wallet = pw_id w, sl_task = task, sl_assignment = a, sl_total = n,
       sl_currency = pw_currency w, sl_owner_pct = 100, sl_persona_pct = 0, sl_platform_pct = 0,
       sl_owner = n, sl_persona = 0, sl_platform = 0, sl_created_at = now, sl_completed_at = Some now \<rparr>"

definition pay_completion ::
  "(nat \<Rightarrow> ident) \<Rightarrow> ident \<Rightarrow> completion \<Rightarrow> rat \<Rightarrow> rat \<Rightarrow> millis \<Rightarrow> purse_bank \<Rightarrow> purse_bank \<times> purse_error option" where
  "pay_completion gen tn c payout tokens now bk =
     (let n = to_minor payout; w = cp_wallet c;
          bk1 = fst (purse_cmd_complete_task tn (cp_persona c) payout tokens now bk)
      in if n \<le> 0 then (bk1, None)
         else
           let i = new_id gen bk1; a = wa_id (cp_assignment c);
               r = completion_settlement i tn w (mt_id (cp_task c)) a n now
           in (case purse_cmd_create_settlement r (drawn bk1) of
                 None \<Rightarrow> (undo_bank bk (drawn bk1), Some Purse_Constraint)
               | Some bk2 \<Rightarrow>
                   (case insert_purse_tx gen Actor_System tn (pw_id w) Ptx_Task_Payment (of_int n)
                           (pw_currency w) (Some ''wallet_settlement'') (Some i) now bk2 of
                      (bk3, Some e) \<Rightarrow> (undo_bank bk bk3, Some e)
                    | (bk3, None) \<Rightarrow> (bk3, None))))"

definition complete_commit ::
  "(nat \<Rightarrow> ident) \<Rightarrow> ident \<Rightarrow> completion \<Rightarrow> rat \<Rightarrow> rat \<Rightarrow> millis \<Rightarrow> persona_market
     \<Rightarrow> persona_market \<times> (purse_error + bool)" where
  "complete_commit gen tn c quality hours now s =
     (let q = clamp_to quality 0 1; h = max 0 hours; t = cp_task c;
          growth = completion_growth (mt_reward t) q h;
          (ts, n) = market_cmd_complete tn (mt_id t) q growth now (pm_tasks s)
      in if n \<noteq> 1 then (s, Inr False)
         else (case pay_completion gen tn c (completion_payout (mt_reward t) q)
                      (round_digits 2 (growth * 8)) now (gv_bank s) of
                 (bk, Some e) \<Rightarrow> (s\<lparr>gv_bank := bk\<rparr>, Inl e)
               | (bk, None) \<Rightarrow>
                   (market_cmd_persona_completed tn (cp_persona c) growth
                      (completion_reputation (mt_reward t) q) h now (s\<lparr>pm_tasks := ts, gv_bank := bk\<rparr>),
                    Inr True)))"

definition complete_task ::
  "(nat \<Rightarrow> ident) \<Rightarrow> ident \<Rightarrow> ident \<Rightarrow> ident \<Rightarrow> rat \<Rightarrow> rat \<Rightarrow> millis \<Rightarrow> persona_market
     \<Rightarrow> persona_market \<times> (purse_error + (market_task \<times> persona_wallet \<times> persona_row) option)" where
  "complete_task gen tn user task quality hours now s =
     (case complete_check tn user task s of
        None \<Rightarrow> (s, Inr None)
      | Some c \<Rightarrow>
          (case complete_commit gen tn c quality hours now s of
             (s1, Inl e) \<Rightarrow> (s1, Inl e)
           | (s1, Inr False) \<Rightarrow> (s1, Inr None)
           | (s1, Inr True) \<Rightarrow>
               (s1, Inr (case (get_market_task tn (pm_tasks s1) task,
                               wallet_by_persona tn (gv_bank s1) (cp_persona c),
                               owned_persona tn user (cp_persona c) s1) of
                           (Some t', Some w', Some r') \<Rightarrow> Some (t', w', r')
                         | _ \<Rightarrow> None))))"

end
