(* ===== verification/Persona_Books.thy ===== *)
theory Persona_Books
  imports Persona_Market
begin

text \<open>
  The books of digital persons over everything that can happen to them: wallets that appear and are
  frozen, settlements of the publisher, completions of the owner, payouts, and every operation of the
  market and of the moderators in between.
\<close>

subsection \<open>Settlements\<close>

text \<open>The entries that one settlement makes, and what an event adds to the settlements and the ledger.\<close>

definition entry_key :: "purse_tx \<Rightarrow> purse_tx_type \<times> int \<times> string" where
  "entry_key t = (pt_type t, pt_amount t, pt_currency t)"

definition of_settlement :: "purse_settlement \<Rightarrow> purse_tx \<Rightarrow> bool" where
  "of_settlement s t \<longleftrightarrow> pt_tenant t = sl_tenant s \<and> pt_ref_type t = Some ''wallet_settlement'' \<and> pt_ref t = Some (sl_id s)"

definition posted_for :: "purse_settlement \<Rightarrow> purse_tx list \<Rightarrow> bool" where
  "posted_for s ts \<longleftrightarrow> map entry_key ts = map (\<lambda>(k, n). (k, n, sl_currency s)) (entries_of s)
     \<and> (\<forall>t \<in> set ts. of_settlement s t)"

definition journal_of :: "purse_bank \<Rightarrow> purse_settlement list \<Rightarrow> purse_tx list \<Rightarrow> bool" where
  "journal_of bk ss ts \<longleftrightarrow>
     ss = [] \<and> (\<forall>t \<in> set ts. pt_ref_type t \<noteq> Some ''wallet_settlement'')
     \<or> (\<exists>s. ss = [s] \<and> posted_for s ts \<and> (\<forall>x \<in> set (bk_settlements bk). sl_id x \<noteq> sl_id s))"

lemma insert_entries_None:
  "insert_entries gen tn w cur ref now es bk = (bk', None) \<Longrightarrow>
   \<exists>ts k. bk' = bk\<lparr>bk_txs := bk_txs bk @ ts, bk_ids := k\<rparr> \<and> map pt_amount ts = map snd es
     \<and> map entry_key ts = map (\<lambda>(k, n). (k, n, cur)) es
     \<and> (\<forall>t \<in> set ts. pt_tenant t = tn \<and> pt_wallet t = w \<and> pt_ref_type t = Some ''wallet_settlement'' \<and> pt_ref t = Some ref)"
proof (induction es arbitrary: bk)
  case Nil
  then show ?case by (intro exI [of _ "[]"] exI [of _ "bk_ids bk"]) simp
next
  case (Cons e es)
  obtain k n where e: "e = (k, n)" by fastforce
  obtain b o' where i: "insert_purse_tx gen Actor_System tn w k (of_int n) cur (Some ''wallet_settlement'')
      (Some ref) now bk = (b, o')" by fastforce
  have o': "o' = None" using Cons.prems i e by (cases o') auto
  obtain t where t: "b = bk\<lparr>bk_txs := bk_txs bk @ [t], bk_ids := Suc (bk_ids bk)\<rparr>" "pt_tenant t = tn"
    "pt_wallet t = w" "pt_amount t = n" "entry_key t = (k, n, cur)" "pt_ref_type t = Some ''wallet_settlement''"
    "pt_ref t = Some ref"
    using insert_purse_tx_None [OF i [unfolded o']] by (auto simp: entry_key_def)
  have "insert_entries gen tn w cur ref now es b = (bk', None)" using Cons.prems i e o' by simp
  from Cons.IH [OF this] obtain ts m where ts: "bk' = b\<lparr>bk_txs := bk_txs b @ ts, bk_ids := m\<rparr>"
    "map pt_amount ts = map snd es" "map entry_key ts = map (\<lambda>(k, n). (k, n, cur)) es"
    "\<forall>t \<in> set ts. pt_tenant t = tn \<and> pt_wallet t = w \<and> pt_ref_type t = Some ''wallet_settlement'' \<and> pt_ref t = Some ref"
    by blast
  show ?case using t ts e by (intro exI [of _ "t # ts"] exI [of _ m]) simp
qed

lemma entries_sum: "sum_list (map snd (entries_of r)) = sl_total r
    - (if 0 < sl_platform r then sl_platform r else 0) - (if 0 < sl_persona r then sl_persona r else 0)"
  by (simp add: entries_of_def)

lemma split_entries: "split_ok r \<Longrightarrow> sum_list (map snd (entries_of r)) = sl_owner r"
  by (auto simp: entries_sum split_ok_def)

lemma persona_settlement_split:
  assumes "0 < n" and "0 \<le> o'" "0 \<le> p" "0 \<le> f" "o' + p + f = (100::int)"
  shows "split_ok (persona_settlement i tn w task a n cur (o', p, f) now)"
proof -
  have "n * o' div 100 + n * p div 100 \<le> (n * o' + n * p) div 100"
    by (metis div_add1_eq le_add_same_cancel1 pos_imp_zdiv_nonneg_iff zero_less_numeral mod_pos_pos_trivial
        Euclidean_Rings.pos_mod_sign add_nonneg_nonneg)
  also have "n * o' + n * p = n * (o' + p)" by (simp add: distrib_left)
  also have "n * (o' + p) div 100 \<le> n * 100 div 100"
    by (rule zdiv_mono1) (use assms in \<open>simp_all add: mult_left_mono\<close>)
  finally have "n * o' div 100 + n * p div 100 \<le> n" by simp
  with assms show ?thesis
    by (simp add: split_ok_def persona_settlement_def share_of_def Let_def pos_imp_zdiv_nonneg_iff)
qed

lemma settle_bank_cases:
  assumes ok: "bank_ok bk" and w: "w \<in> set (bk_wallets bk)" "pw_tenant w = tn" "pw_currency w = sl_currency r"
    and r: "sl_wallet r = pw_id w" "sl_tenant r = tn" "split_ok r"
  obtains (refused) k e where "settle_bank gen tn (pw_id w) r now bk = (bk\<lparr>bk_ids := k\<rparr>, Inl e)"
  | (settled) bk' g ts where "settle_bank gen tn (pw_id w) r now bk
        = (bk', Inr (settlement_by_assignment tn bk' (sl_assignment r)))"
      and "entry_of bk bk' w g ts [r] [] (sl_owner r)" and "bk_personas bk' = bk_personas bk"
      and "\<forall>s \<in> set (bk_settlements bk). sl_assignment s \<noteq> sl_assignment r"
      and "journal_of bk [r] ts"
      and "\<forall>v. pw_status (g v) = pw_status v \<and> pw_currency (g v) = pw_currency v"
proof (cases "purse_cmd_create_settlement r (drawn bk)")
  case None
  show thesis by (rule refused [of "Suc (bk_ids bk)" Purse_Constraint]) (simp add: settle_bank_def None, simp add: drawn_def)
next
  case (Some bk1)
  then have bk1: "bk1 = (drawn bk)\<lparr>bk_settlements := bk_settlements bk @ [r]\<rparr>"
    and new: "\<forall>s \<in> set (bk_settlements bk). sl_assignment s \<noteq> sl_assignment r"
      "\<forall>s \<in> set (bk_settlements bk). sl_id s \<noteq> sl_id r"
    by (auto simp: purse_cmd_create_settlement_def drawn_def list_ex_iff split: if_splits)
  let ?c = "from_minor (sl_owner r)"
  let ?g = "\<lambda>v. v\<lparr>pw_balance := sql_round4 (of_int (wallet_cents v + sql_round (?c * 100)) / 100),
     pw_tokens := pw_tokens v + from_minor (sl_persona r), pw_settled_at := Some now, pw_updated_at := now\<rparr>"
  let ?P = "\<lambda>v. pw_tenant v = tn \<and> pw_id v = pw_id w \<and> pw_currency v = sl_currency r"
  have u: "update_where ?P ?g (bk_wallets bk)
      = (map (\<lambda>v. if pw_id v = pw_id w then ?g v else v) (bk_wallets bk), 1)"
    by (rule update_one_wallet [OF ok w(1)]) (use w in auto)
  have ws: "bk_wallets bk1 = bk_wallets bk" by (simp add: bk1 drawn_def)
  define bk2 where "bk2 = bk1\<lparr>bk_wallets := map (\<lambda>v. if pw_id v = pw_id w then ?g v else v) (bk_wallets bk)\<rparr>"
  have s: "purse_cmd_settle tn (pw_id w) ?c (from_minor (sl_persona r)) (sl_currency r) now bk1 = (bk2, 1)"
    unfolding purse_cmd_settle_def ws u bk2_def by simp
  obtain bk3 e where e: "insert_entries gen tn (pw_id w) (sl_currency r) (sl_id r) now (entries_of r) bk2 = (bk3, e)"
    by fastforce
  have eq: "settle_bank gen tn (pw_id w) r now bk = (case e of Some x \<Rightarrow> (undo_bank bk bk3, Inl x)
      | None \<Rightarrow> (bk3, Inr (settlement_by_assignment tn bk3 (sl_assignment r))))"
    unfolding settle_bank_def Some option.case Let_def s fst_conv e by (cases e) simp_all
  show thesis
  proof (cases e)
    case (Some x)
    with eq show thesis by (intro refused [of "bk_ids bk3" x]) (simp add: undo_bank_def)
  next
    case None
    obtain ts k where ts: "bk3 = bk2\<lparr>bk_txs := bk_txs bk2 @ ts, bk_ids := k\<rparr>"
      "map pt_amount ts = map snd (entries_of r)"
      "map entry_key ts = map (\<lambda>(k, n). (k, n, sl_currency r)) (entries_of r)"
      "\<forall>t \<in> set ts. pt_tenant t = tn \<and> pt_wallet t = pw_id w \<and> pt_ref_type t = Some ''wallet_settlement''
         \<and> pt_ref t = Some (sl_id r)"
      using insert_entries_None [OF e [unfolded None]] by blast
    have "pw_balance (?g w) = of_int (wallet_cents w + sl_owner r) / 100" by (simp del: of_int_add)
    then have b: "pw_balance (?g w) = pw_balance w + of_int (sl_owner r) / 100"
      unfolding bank_balance(2) [OF ok w(1)] bank_balance(1) [OF ok w(1)] by (simp add: add_divide_distrib)
    have "sum_list (map pt_amount ts) = sl_owner r" unfolding ts(2) by (rule split_entries [OF r(3)])
    then have "entry_of bk bk3 w ?g ts [r] [] (sl_owner r)"
      unfolding entry_of_def using b ts(1,4) r w(2) by (simp add: bk2_def bk1 drawn_def)
    moreover have "journal_of bk [r] ts"
      using ts(3,4) new(2) r(2) by (auto simp: journal_of_def posted_for_def of_settlement_def)
    ultimately show thesis using eq None new ts by (intro settled [of bk3 ?g ts]) (simp_all add: bk2_def bk1 drawn_def)
  qed
qed

definition split_in_range :: "settlement_split \<Rightarrow> bool" where
  "split_in_range p \<longleftrightarrow> 0 \<le> js_round (sp_owner p) \<and> 0 \<le> js_round (sp_persona p) \<and> 0 \<le> js_round (sp_platform p)"

lemma wallet_by_persona_D:
  "wallet_by_persona tn bk p = Some w \<Longrightarrow> w \<in> set (bk_wallets bk) \<and> pw_tenant w = tn \<and> pw_persona w = p"
  by (auto simp: wallet_by_persona_def dest: select_one_SomeD)

definition rated_settlement ::
  "ident \<Rightarrow> ident \<Rightarrow> settle_request \<Rightarrow> persona_wallet \<Rightarrow> millis \<Rightarrow> purse_settlement" where
  "rated_settlement i tn q w now =
     persona_settlement i tn (pw_id w) (sr_task q) (sr_assignment q) (js_round (sr_total q)) (sr_currency q)
       (js_round (sp_owner (sr_split q)), js_round (sp_persona (sr_split q)), js_round (sp_platform (sr_split q))) now"

lemma settle_task_payment_cases:
  assumes ok: "bank_ok (gv_bank s)" and q: "split_in_range (sr_split q)"
  obtains (old) r where "settle_task_payment gen tn q now s = (s, r)"
      and "\<forall>x. r = Inr (Some x) \<longrightarrow> settlement_by_assignment tn (gv_bank s) (sr_assignment q) = Some x"
  | (refused) k e where "settle_task_payment gen tn q now s = (s\<lparr>gv_bank := (gv_bank s)\<lparr>bk_ids := k\<rparr>\<rparr>, Inl e)"
  | (settled) t a w bk g ts where "get_market_task tn (pm_tasks s) (sr_task q) = Some t"
      and "assignment_by_id tn s (sr_assignment q) = Some a" and "mt_persona t = Some (wa_persona a)"
      and "wa_task a = sr_task q" and "mt_publisher t = sr_actor q"
      and "wallet_by_persona tn (gv_bank s) (wa_persona a) = Some w" and "pw_status w = Purse_Active"
      and "js_round (sr_total q) = to_minor (mt_reward t)"
      and "settle_task_payment gen tn q now s
          = (s\<lparr>gv_bank := bk\<rparr>, Inr (settlement_by_assignment tn bk (sr_assignment q)))"
      and "split_ok (rated_settlement (fresh gen s) tn q w now)"
      and "entry_of (gv_bank s) bk w g ts [rated_settlement (fresh gen s) tn q w now] []
             (sl_owner (rated_settlement (fresh gen s) tn q w now))"
      and "bk_personas bk = bk_personas (gv_bank s)"
      and "\<forall>x \<in> set (bk_settlements (gv_bank s)). sl_assignment x \<noteq> sr_assignment q"
      and "journal_of (gv_bank s) [rated_settlement (fresh gen s) tn q w now] ts"
proof -
  let ?r = "settle_task_payment gen tn q now s"
  show thesis
  proof (cases "get_market_task tn (pm_tasks s) (sr_task q)")
    case None
    then show thesis by (intro old [of "snd ?r"]) (auto simp: settle_task_payment_def)
  next
    case t: (Some t)
    show thesis
    proof (cases "assignment_by_id tn s (sr_assignment q)")
      case None
      with t show thesis by (intro old [of "snd ?r"]) (auto simp: settle_task_payment_def)
    next
      case a: (Some a)
      show thesis
      proof (cases "mt_publisher t \<noteq> sr_actor q \<or> \<not> truthy (mt_persona t) \<or> wa_task a \<noteq> sr_task q
             \<or> Some (wa_persona a) \<noteq> mt_persona t")
        case True
        with t a show thesis by (intro old [of "snd ?r"]) (auto simp: settle_task_payment_def)
      next
        case right: False
        show thesis
        proof (cases "wallet_by_persona tn (gv_bank s) (wa_persona a)")
          case None
          with t a right show thesis by (intro old [of "snd ?r"]) (auto simp: settle_task_payment_def)
        next
          case w: (Some w)
          show thesis
          proof (cases "pw_status w \<noteq> Purse_Active \<or> settlement_by_assignment tn (gv_bank s) (sr_assignment q) \<noteq> None")
            case True
            with t a right w show thesis by (intro old [of "snd ?r"]) (auto simp: settle_task_payment_def)
          next
            case new: False
            let ?n = "js_round (sr_total q)" and ?o = "js_round (sp_owner (sr_split q))"
              and ?p = "js_round (sp_persona (sr_split q))" and ?f = "js_round (sp_platform (sr_split q))"
            show thesis
            proof (cases "sr_currency q \<noteq> pw_currency w \<or> ?n \<le> 0 \<or> ?n \<noteq> to_minor (mt_reward t) \<or> ?o + ?p + ?f \<noteq> 100")
              case True
              with t a right w new show thesis by (intro old [of "snd ?r"]) (auto simp: settle_task_payment_def Let_def)
            next
              case go: False
              let ?st = "rated_settlement (fresh gen s) tn q w now"
              have sp: "split_ok ?st" unfolding rated_settlement_def
                by (rule persona_settlement_split) (use go q in \<open>auto simp: split_in_range_def\<close>)
              have st: "sl_wallet ?st = pw_id w" "sl_tenant ?st = tn" "sl_currency ?st = sr_currency q"
                "sl_assignment ?st = sr_assignment q"
                by (simp_all add: rated_settlement_def persona_settlement_def Let_def)
              note wd = wallet_by_persona_D [OF w]
              have wt: "pw_tenant w = tn" using wd by simp
              have eq: "?r = (case settle_bank gen tn (pw_id w) ?st now (gv_bank s) of (bk, r) \<Rightarrow> (s\<lparr>gv_bank := bk\<rparr>, r))"
                using t a right w new go by (simp add: settle_task_payment_def Let_def rated_settlement_def)
              have cur: "pw_currency w = sl_currency ?st" using go st(3) by simp
              show thesis
              proof (cases rule: settle_bank_cases [OF ok conjunct1 [OF wd] wt cur st(1,2) sp, of gen now,
                    case_names refused settled])
                case (refused k e)
                with eq show thesis by (intro that(2)) simp
              next
                case (settled bk g ts)
                show thesis
                proof (rule that(3) [OF t a _ _ _ w])
                  show "?r = (s\<lparr>gv_bank := bk\<rparr>, Inr (settlement_by_assignment tn bk (sr_assignment q)))"
                    using eq settled(1) st(4) by simp
                qed (use right new go settled sp st(4) in auto)
              qed
            qed
          qed
        qed
      qed
    qed
  qed
qed

subsection \<open>Completions\<close>

text \<open>
  What the check of a completion saw stays true of the wallet: its row is never deleted and never changes
  hands.
\<close>

definition same_purse :: "persona_wallet \<Rightarrow> persona_wallet \<Rightarrow> bool" where
  "same_purse v w \<longleftrightarrow> pw_id v = pw_id w \<and> pw_tenant v = pw_tenant w \<and> pw_persona v = pw_persona w"

definition observed :: "ident \<Rightarrow> completion \<Rightarrow> purse_bank \<Rightarrow> bool" where
  "observed tn c bk \<longleftrightarrow> 0 \<le> mt_reward (cp_task c) \<and> pw_tenant (cp_wallet c) = tn
     \<and> pw_persona (cp_wallet c) = cp_persona c \<and> (\<exists>w \<in> set (bk_wallets bk). same_purse w (cp_wallet c))"

lemma pay_completion_cases:
  assumes ok: "bank_ok bk" and c: "observed tn c bk" and n: "0 \<le> to_minor payout"
    and cents: "payout = of_int (to_minor payout) / 100"
  obtains (refused) k e where "pay_completion gen tn c payout tokens now bk = (bk\<lparr>bk_ids := k\<rparr>, Some e)"
  | (paid) w bk' g ts ss where "w \<in> set (bk_wallets bk)" and "same_purse w (cp_wallet c)"
      and "pay_completion gen tn c payout tokens now bk = (bk', None)"
      and "entry_of bk bk' w g ts ss [] (to_minor payout)" and "\<forall>s \<in> set ss. split_ok s"
      and "distinct (map sl_assignment (bk_settlements bk @ ss))" and "bk_personas bk' = bk_personas bk"
      and "map sl_total ss = (if to_minor payout = 0 then [] else [to_minor payout])"
      and "journal_of bk ss ts"
      and "0 < to_minor payout \<longrightarrow> ss = [completion_settlement (new_id gen bk) tn (cp_wallet c)
             (mt_id (cp_task c)) (wa_id (cp_assignment c)) (to_minor payout) now]"
proof -
  let ?r = "pay_completion gen tn c payout tokens now bk" and ?n = "to_minor payout"
  let ?g = "\<lambda>w. w\<lparr>pw_balance := pw_balance w + payout, pw_tokens := pw_tokens w + tokens,
               pw_settled_at := Some now, pw_updated_at := now\<rparr>"
  let ?P = "\<lambda>w. pw_tenant w = tn \<and> pw_persona w = cp_persona c"
  obtain w where w: "w \<in> set (bk_wallets bk)" "same_purse w (cp_wallet c)" "pw_tenant w = tn"
    "pw_persona w = cp_persona c" "pw_id w = pw_id (cp_wallet c)"
    using c by (auto simp: observed_def same_purse_def)
  have one: "pw_id v = pw_id w" if "v \<in> set (bk_wallets bk)" "?P v" for v
  proof -
    have "v = w" by (rule wallet_persona_unique [OF ok that(1) w(1)]) (simp add: that(2) w(4))
    then show ?thesis by simp
  qed
  have u: "update_where ?P ?g (bk_wallets bk) = (map (\<lambda>v. if pw_id v = pw_id w then ?g v else v) (bk_wallets bk), 1)"
    by (rule update_one_wallet [OF ok w(1)]) (simp add: w(3,4), erule (1) one)
  define bk1 where "bk1 = bk\<lparr>bk_wallets := map (\<lambda>v. if pw_id v = pw_id w then ?g v else v) (bk_wallets bk)\<rparr>"
  have m: "fst (purse_cmd_complete_task tn (cp_persona c) payout tokens now bk) = bk1"
    unfolding purse_cmd_complete_task_def u bk1_def by simp
  have b: "pw_balance (?g w) = pw_balance w + of_int ?n / 100" using cents by simp
  have d: "distinct (map sl_assignment (bk_settlements bk))" using ok by (simp add: bank_ok_def)
  show thesis
  proof (cases "?n \<le> 0")
    case True
    then have z: "?n = 0" using n by simp
    then have "?r = (bk1, None)" by (simp add: pay_completion_def Let_def m)
    moreover have "entry_of bk bk1 w ?g [] [] [] ?n" using b z unfolding entry_of_def bk1_def by simp
    ultimately show thesis using w z d by (intro paid [of w bk1 ?g "[]" "[]"]) (simp_all add: bk1_def journal_of_def)
  next
    case pos: False
    let ?i = "new_id gen bk1"
    let ?s = "completion_settlement ?i tn (cp_wallet c) (mt_id (cp_task c)) (wa_id (cp_assignment c)) ?n now"
    have s: "sl_tenant ?s = tn" "sl_wallet ?s = pw_id w" "sl_owner ?s = ?n" "split_ok ?s" "sl_total ?s = ?n"
      using pos w(5) by (simp_all add: completion_settlement_def split_ok_def)
    show thesis
    proof (cases "purse_cmd_create_settlement ?s (drawn bk1)")
      case None
      show thesis
        by (rule refused [of "Suc (bk_ids bk)" Purse_Constraint])
          (use pos None in \<open>simp add: pay_completion_def Let_def m\<close>, simp add: undo_bank_def drawn_def bk1_def)
    next
      case (Some bk2)
      then have bk2: "bk2 = (drawn bk1)\<lparr>bk_settlements := bk_settlements bk @ [?s]\<rparr>"
        and new: "\<forall>x \<in> set (bk_settlements bk). sl_assignment x \<noteq> sl_assignment ?s"
          "\<forall>x \<in> set (bk_settlements bk). sl_id x \<noteq> sl_id ?s"
        by (auto simp: purse_cmd_create_settlement_def drawn_def bk1_def list_ex_iff split: if_splits)
      obtain bk3 e where e: "insert_purse_tx gen Actor_System tn (pw_id (cp_wallet c)) Ptx_Task_Payment (of_int ?n)
          (pw_currency (cp_wallet c)) (Some ''wallet_settlement'') (Some ?i) now bk2 = (bk3, e)" by fastforce
      have eq: "?r = (case e of None \<Rightarrow> (bk3, None) | Some x \<Rightarrow> (undo_bank bk bk3, Some x))"
        using pos Some e by (cases e) (simp_all add: pay_completion_def Let_def m)
      show thesis
      proof (cases e)
        case (Some x)
        with eq show thesis by (intro refused [of "bk_ids bk3" x]) (simp add: undo_bank_def)
      next
        case None
        obtain t where t: "bk3 = bk2\<lparr>bk_txs := bk_txs bk2 @ [t], bk_ids := Suc (bk_ids bk2)\<rparr>"
          "pt_tenant t = tn" "pt_wallet t = pw_id w" "pt_amount t = ?n"
          "pt_type t = Ptx_Task_Payment" "pt_currency t = pw_currency (cp_wallet c)"
          "pt_ref_type t = Some ''wallet_settlement''" "pt_ref t = Some ?i"
          using insert_purse_tx_None [OF e [unfolded None]] w(5) by auto
        have "posted_for ?s [t]" using t(2,4-8)
          by (simp add: posted_for_def entry_key_def of_settlement_def entries_of_def completion_settlement_def)
        then have "journal_of bk [?s] [t]" using new(2) by (auto simp: journal_of_def)
        moreover have "entry_of bk bk3 w ?g [t] [?s] [] ?n"
          unfolding entry_of_def using b t s w by (simp add: bk2 bk1_def drawn_def)
        ultimately show thesis
        proof (intro paid [OF w(1,2)])
          show "?r = (bk3, None)" using eq None by simp
          show "distinct (map sl_assignment (bk_settlements bk @ [?s]))" using d new by auto
        qed (use s pos t in \<open>simp_all add: bk2 bk1_def drawn_def new_id_def\<close>)
      qed
    qed
  qed
qed

lemma completion_payout_cents: "completion_payout r q = of_int (to_minor (completion_payout r q)) / 100"
  by (simp add: completion_payout_def round_cents)

lemma js_round_nonneg: "0 \<le> x \<Longrightarrow> 0 \<le> js_round x"
  by (simp add: js_round_def)

lemma completion_payout_nonneg: "0 \<le> r \<Longrightarrow> 0 \<le> to_minor (completion_payout r q)"
  unfolding completion_payout_def to_minor_round_cents unfolding to_minor_def
  by (intro js_round_nonneg mult_nonneg_nonneg) auto

subsection \<open>Everything that happens\<close>

definition books :: "'a governance_scheme \<Rightarrow>
    persona_wallet list \<times> purse_tx list \<times> purse_settlement list \<times> payout_request list" where
  "books s = (bk_wallets (gv_bank s), bk_txs (gv_bank s), bk_settlements (gv_bank s), bk_payouts (gv_bank s))"

lemma bank_ok_books: "books s' = books s \<Longrightarrow> bank_ok (gv_bank s') = bank_ok (gv_bank s)"
  by (auto simp: books_def bank_ok_def purse_ok_def purse_movements_def purse_earnings_def purse_paid_def)

named_theorems books_kept \<open>operations that leave the books alone\<close>

lemma books_simps [books_kept, simp]:
  fixes s :: persona_market
  shows "books (drawn_gov s) = books s" "books (s\<lparr>pm_tasks := ts\<rparr>) = books s"
    "books (s\<lparr>pm_assignments := xs\<rparr>) = books s" "books (s\<lparr>pm_applications := as\<rparr>) = books s"
    "books (s\<lparr>pm_results := rs\<rparr>) = books s"
    "books (set_work p f s) = books s" "books (set_result tn i g s) = books s" "books (set_persona tn i h s) = books s"
    "books (s\<lparr>gv_bank := (gv_bank s)\<lparr>bk_ids := k\<rparr>\<rparr>) = books s"
  by (simp_all add: books_def drawn_gov_def drawn_def set_work_def set_result_def set_persona_def on_bank_def)

lemmas market_cmd_work_defs = market_cmd_submit_assignment_def market_cmd_accept_work_def
  market_cmd_reject_work_def market_cmd_dispute_work_def market_cmd_accept_result_def
  market_cmd_reject_result_def market_cmd_dispute_result_def market_cmd_persona_accepted_def
  market_cmd_persona_completed_def

lemma publish_task_books [books_kept]: "books (fst (publish_task gen tn user title d cat r cur now s)) = books s"
  by (simp add: publish_task_def Let_def split: prod.split)

lemma apply_to_task_books [books_kept]: "books (fst (apply_to_task gen tn user p task now s)) = books s"
  by (auto simp: apply_to_task_def Let_def market_cmd_create_application_def split: option.split)

lemma assign_commit_books [books_kept]: "books (fst (assign_commit gen tn a p task now s)) = books s"
  by (auto simp: assign_commit_def Let_def market_cmd_create_assignment_def market_cmd_mark_applications_def
      split: option.split)

lemma take_commit_books [books_kept]: "books (fst (take_commit gen tn p fork task now s)) = books s"
  by (auto simp: take_commit_def Let_def market_cmd_create_assignment_def split: option.split)

lemma submit_task_result_books [books_kept]:
  "books (fst (submit_task_result gen tn user task a uri ev now s)) = books s"
  by (auto simp: submit_task_result_def Let_def market_cmd_create_result_def market_cmd_work_defs
      split: option.split)

lemma market_accept_commit_books [books_kept]:
  "books (fst (market_accept_commit tn t a r q k now s)) = books s"
  by (simp add: market_accept_commit_def Let_def market_cmd_work_defs split: prod.split)

lemma market_reject_commit_books [books_kept]:
  "books (fst (market_reject_commit tn task a r reason now s)) = books s"
  by (simp add: market_reject_commit_def Let_def market_cmd_reject_application_def market_cmd_work_defs
      split: prod.split)

lemma dispute_commit_books [books_kept]: "books (dispute_commit tn task a r now s) = books s"
  by (simp add: dispute_commit_def Let_def market_cmd_work_defs split: option.split)

lemma open_case_books [books_kept]:
  fixes s :: persona_market
  shows "books (fst (open_case gen tn p task tr sev now s)) = books s"
  by (auto simp: open_case_def Let_def gov_cmd_create_case_def books_def drawn_gov_def drawn_def split: option.split)

lemma dispute_task_books [books_kept]: "books (fst (dispute_task gen tn actor task now s)) = books s"
  using open_case_books [of gen tn _ "Some task" "''task_dispute''" Sev_Medium now s]
  by (auto simp: dispute_task_def dispute_commit_books Let_def split: option.split prod.split sum.split)
    (metis fst_conv)+

lemma action_commit_books [books_kept]:
  fixes s :: persona_market
  shows "books (fst (action_commit gen tn c p k secs actor now s)) = books s"
  by (auto simp: action_commit_def Let_def gov_cmd_create_action_def gov_cmd_update_case_def
      gov_cmd_apply_to_persona_def books_def drawn_gov_def drawn_def split: option.split prod.split)

lemma appeal_case_books [books_kept]:
  fixes s :: persona_market
  shows "books (fst (appeal_case tn actor i now s)) = books s"
  by (auto simp: appeal_case_def gov_cmd_appeal_def books_def split: option.split prod.split)

datatype persona_event =
    Pe_Wallet ident ident string millis
  | Pe_Freeze ident purse_status
  | Pe_Payout ident ident string int "string option" millis
  | Pe_Settle settle_request millis
  | Pe_Complete completion rat rat millis
  | Pe_Publish ident string string "string option" rat "string option" millis
  | Pe_Apply ident ident ident millis
  | Pe_Assign task_application ident ident millis
  | Pe_Take ident "ident option" ident millis
  | Pe_Submit ident ident ident string string millis
  | Pe_Accept market_task work_assignment work_result rat rat millis
  | Pe_Reject ident work_assignment work_result string millis
  | Pe_Dispute ident ident millis
  | Pe_Open_Case ident "ident option" string case_severity millis
  | Pe_Action gov_case persona_row gov_action_type "int option" ident millis
  | Pe_Appeal ident ident millis

text \<open>
  One event is one transaction, on rows that an earlier check may have read long ago. The settlement of
  an acceptance is an event of its own, \<open>Pe_Settle\<close>. The schema of the settlement's route keeps the split
  in range, and a completion pays a wallet that its check did see.
\<close>

fun persona_step :: "(nat \<Rightarrow> ident) \<Rightarrow> ident \<Rightarrow> persona_market \<Rightarrow> persona_event \<Rightarrow> persona_market" where
  "persona_step gen tn s (Pe_Wallet i p address now) =
     (case purse_cmd_create_wallet i tn p address now (gv_bank s) of None \<Rightarrow> s | Some bk \<Rightarrow> s\<lparr>gv_bank := bk\<rparr>)"
| "persona_step gen tn s (Pe_Freeze i st) = on_bank (set_purse_status tn i st) s"
| "persona_step gen tn s (Pe_Payout user i cur n key now) =
     on_bank (\<lambda>bk. fst (payout_commit gen tn user i cur n key now bk)) s"
| "persona_step gen tn s (Pe_Settle q now) =
     (if split_in_range (sr_split q) then fst (settle_task_payment gen tn q now s) else s)"
| "persona_step gen tn s (Pe_Complete c q h now) =
     (if observed tn c (gv_bank s) then fst (complete_commit gen tn c q h now s) else s)"
| "persona_step gen tn s (Pe_Publish user title d cat r cur now) =
     fst (publish_task gen tn user title d cat r cur now s)"
| "persona_step gen tn s (Pe_Apply user p task now) = fst (apply_to_task gen tn user p task now s)"
| "persona_step gen tn s (Pe_Assign a p task now) = fst (assign_commit gen tn a p task now s)"
| "persona_step gen tn s (Pe_Take p fork task now) = fst (take_commit gen tn p fork task now s)"
| "persona_step gen tn s (Pe_Submit user task a uri ev now) =
     fst (submit_task_result gen tn user task a uri ev now s)"
| "persona_step gen tn s (Pe_Accept t a r q k now) = fst (market_accept_commit tn t a r q k now s)"
| "persona_step gen tn s (Pe_Reject task a r reason now) = fst (market_reject_commit tn task a r reason now s)"
| "persona_step gen tn s (Pe_Dispute actor task now) = fst (dispute_task gen tn actor task now s)"
| "persona_step gen tn s (Pe_Open_Case p task tr sev now) = fst (open_case gen tn p task tr sev now s)"
| "persona_step gen tn s (Pe_Action c p k secs actor now) = fst (action_commit gen tn c p k secs actor now s)"
| "persona_step gen tn s (Pe_Appeal actor i now) = fst (appeal_case tn actor i now s)"

lemma movements_nonneg: "bank_ok bk \<Longrightarrow> w \<in> set (bk_wallets bk) \<Longrightarrow> 0 \<le> d \<Longrightarrow> 0 \<le> purse_movements bk w + d"
  using bank_balance(3) [of bk w] by simp

lemma settle_task_payment_ok:
  assumes ok: "bank_ok (gv_bank s)" and q: "split_in_range (sr_split q)"
  shows "bank_ok (gv_bank (fst (settle_task_payment gen tn q now s)))"
  using ok q
proof (cases rule: settle_task_payment_cases [of s q gen tn now])
  case (settled t a w bk g ts)
  let ?r = "rated_settlement (fresh gen s) tn q w now"
  have w: "w \<in> set (bk_wallets (gv_bank s))" using wallet_by_persona_D [OF settled(6)] by simp
  have "sl_assignment ?r = sr_assignment q" by (simp add: rated_settlement_def persona_settlement_def Let_def)
  then have "distinct (map sl_assignment (bk_settlements (gv_bank s) @ [?r]))"
    using ok settled(13) by (auto simp: bank_ok_def)
  then have "bank_ok bk"
    by (rule entry_ok [OF ok w settled(11) _ _ movements_nonneg [OF ok w], rotated])
      (use settled(10) in \<open>simp_all add: split_ok_def\<close>)
  with settled(9) show ?thesis by simp
qed (use ok in simp_all)

lemma complete_commit_cases:
  assumes ok: "bank_ok (gv_bank s)" and c: "observed tn c (gv_bank s)"
  obtains (nothing) k r where "complete_commit gen tn c q h now s = (s\<lparr>gv_bank := (gv_bank s)\<lparr>bk_ids := k\<rparr>\<rparr>, r)"
      and "r \<noteq> Inr True"
  | (paid) w bk g ts ss ts' u n where "w \<in> set (bk_wallets (gv_bank s))" and "same_purse w (cp_wallet c)"
      and "complete_commit gen tn c q h now s = (set_persona tn (cp_persona c) u (s\<lparr>pm_tasks := ts', gv_bank := bk\<rparr>), Inr True)"
      and "n = to_minor (completion_payout (mt_reward (cp_task c)) (clamp_to q 0 1))"
      and "entry_of (gv_bank s) bk w g ts ss [] n" and "\<forall>x \<in> set ss. split_ok x"
      and "distinct (map sl_assignment (bk_settlements (gv_bank s) @ ss))"
      and "map sl_total ss = (if n = 0 then [] else [n])"
      and "journal_of (gv_bank s) ss ts"
proof -
  let ?q = "clamp_to q 0 1" and ?t = "cp_task c"
  let ?p = "completion_payout (mt_reward ?t) ?q"
  let ?g = "completion_growth (mt_reward ?t) ?q (max 0 h)"
  obtain ts' m where m: "market_cmd_complete tn (mt_id ?t) ?q ?g now (pm_tasks s) = (ts', m)" by fastforce
  have n: "0 \<le> to_minor ?p" by (rule completion_payout_nonneg) (use c in \<open>simp add: observed_def\<close>)
  show thesis
  proof (cases "m = 1")
    case False
    then have "complete_commit gen tn c q h now s = (s, Inr False)" using m by (simp add: complete_commit_def Let_def)
    then show thesis by (intro that(1) [of "bk_ids (gv_bank s)" "Inr False"]) simp_all
  next
    case True
    show thesis
    proof (cases rule: pay_completion_cases [OF ok c n completion_payout_cents, of gen "round_digits 2 (?g * 8)" now])
      case (1 k e)
      with m True show thesis by (intro that(1) [of k "Inl e"]) (simp_all add: complete_commit_def Let_def)
    next
      case (2 w bk g ts ss)
      have "complete_commit gen tn c q h now s = (market_cmd_persona_completed tn (cp_persona c) ?g
          (completion_reputation (mt_reward ?t) ?q) (max 0 h) now (s\<lparr>pm_tasks := ts', gv_bank := bk\<rparr>), Inr True)"
        using m True 2(3) by (simp add: complete_commit_def Let_def)
      with 2 show thesis unfolding market_cmd_persona_completed_def by (intro that(2)) (simp_all del: map_append)
    qed
  qed
qed

lemma complete_commit_ok:
  assumes ok: "bank_ok (gv_bank s)" and c: "observed tn c (gv_bank s)"
  shows "bank_ok (gv_bank (fst (complete_commit gen tn c q h now s)))"
  using ok c
proof (cases rule: complete_commit_cases [of s tn c gen q h now])
  case (paid w bk g ts ss ts' u n)
  have "0 \<le> n" unfolding paid(4) by (rule completion_payout_nonneg) (use c in \<open>simp add: observed_def\<close>)
  then have "bank_ok bk"
    by (rule entry_ok [OF ok paid(1,5,6,7) movements_nonneg [OF ok paid(1)]])
  with paid(3) show ?thesis by (simp add: set_persona_def on_bank_def)
qed (use ok in simp)

lemma persona_step_ok: "bank_ok (gv_bank s) \<Longrightarrow> bank_ok (gv_bank (persona_step gen tn s e))"
  by (cases e)
    (auto simp: on_bank_def set_purse_status_ok payout_commit_ok settle_task_payment_ok complete_commit_ok
      bank_ok_books [OF publish_task_books] bank_ok_books [OF apply_to_task_books]
      bank_ok_books [OF assign_commit_books] bank_ok_books [OF take_commit_books]
      bank_ok_books [OF submit_task_result_books] bank_ok_books [OF market_accept_commit_books]
      bank_ok_books [OF market_reject_commit_books] bank_ok_books [OF dispute_task_books]
      bank_ok_books [OF open_case_books] bank_ok_books [OF action_commit_books]
      bank_ok_books [OF appeal_case_books] create_wallet_ok split: option.split)

interpretation persona_books: invariant_machine "persona_step gen tn" "\<lambda>s. bank_ok (gv_bank s)" for gen tn
  by unfold_locales (rule persona_step_ok)

subsection \<open>The books of every digital person\<close>

definition no_purses :: "persona_row list \<Rightarrow> purse_bank" where
  "no_purses ps = \<lparr> bk_personas = ps, bk_wallets = [], bk_txs = [], bk_settlements = [], bk_payouts = [], bk_ids = 0 \<rparr>"

lemma no_purses_ok: "bank_ok (no_purses ps)"
  by (simp add: bank_ok_def no_purses_def)

text \<open>
  C15: whatever is done to digital persons and in whatever order, the balance of every wallet is the sum of
  its ledger, which is what its settlements gave its owner less what was paid out, and is never negative;
  the three shares of a settlement add up to its total; and no assignment is settled twice, by whichever
  of the two ways it is paid.
\<close>

theorem persona_books_balance:
  assumes "bk = gv_bank (foldl (persona_step gen tn) (s\<lparr>gv_bank := no_purses ps\<rparr>) es)"
  shows "(\<forall>w \<in> set (bk_wallets bk). pw_balance w = of_int (purse_movements bk w) / 100
            \<and> purse_movements bk w = purse_earnings bk w - purse_paid bk w \<and> 0 \<le> pw_balance w)
       \<and> (\<forall>x \<in> set (bk_settlements bk). sl_owner x + sl_persona x + sl_platform x = sl_total x
            \<and> 0 \<le> sl_owner x \<and> 0 \<le> sl_persona x \<and> 0 \<le> sl_platform x)
       \<and> distinct (map sl_assignment (bk_settlements bk))"
proof -
  have ok: "bank_ok bk" unfolding assms by (rule persona_books.run_invar) (simp add: no_purses_ok)
  then have "\<forall>w \<in> set (bk_wallets bk). purse_ok bk w" and "\<forall>x \<in> set (bk_settlements bk). split_ok x"
    and "distinct (map sl_assignment (bk_settlements bk))"
    by (simp_all add: bank_ok_def)
  then show ?thesis unfolding purse_ok_def split_ok_def by (auto simp: algebra_simps)
qed

text \<open>A person that takes a task of 12.34, is paid by its publisher, and pays half of it out.\<close>

definition wage_gen :: "nat \<Rightarrow> ident" where
  "wage_gen n = replicate (Suc n) (CHR ''x'')"

definition wage_person :: "ident \<Rightarrow> ident \<Rightarrow> persona_status \<Rightarrow> persona_row" where
  "wage_person p owner st = \<lparr> pr_id = p, pr_tenant = ''t'', pr_owner = owner, pr_status = Per_Active,
     pr_lifecycle = Some st, pr_growth = 0, pr_reputation = 50, pr_training = 0, pr_deceased_at = None,
     pr_updated_at = 0 \<rparr>"

definition wage_market :: "persona_row list \<Rightarrow> persona_market" where
  "wage_market ps = \<lparr> gv_bank = no_purses ps, gv_cases = [], gv_actions = [], pm_tasks = [],
     pm_applications = [], pm_assignments = [], pm_results = [] \<rparr>"

definition wage_events :: "persona_event list" where
  "wage_events =
     [Pe_Wallet ''w'' ''p'' ''addr'' 1, Pe_Publish ''pub'' ''title'' '''' None (1234 / 100) None 2,
      Pe_Take ''p'' None ''x'' 3, Pe_Submit ''own'' ''x'' ''xx'' ''uri'' ''{}'' 4,
      Pe_Settle \<lparr> sr_actor = ''pub'', sr_task = ''x'', sr_assignment = ''xx'', sr_total = 1234,
        sr_currency = ''CRED'', sr_split = standard_split \<rparr> 5,
      Pe_Payout ''own'' ''w'' ''CRED'' 370 (Some ''k'') 6]"

theorem persona_books_balance_witness:
  "\<exists>bk. bk = gv_bank (foldl (persona_step wage_gen ''t'') ((wage_market [])\<lparr>gv_bank := no_purses
        [wage_person ''p'' ''own'' Per_Active]\<rparr>) wage_events)
     \<and> map pw_balance (bk_wallets bk) = [37 / 10] \<and> map pt_amount (bk_txs bk) = [1234, - 248, - 246, - 370]
     \<and> distinct (map sl_assignment (bk_settlements bk))"
proof -
  let ?bk = "gv_bank (foldl (persona_step wage_gen ''t'') ((wage_market [])\<lparr>gv_bank := no_purses
        [wage_person ''p'' ''own'' Per_Active]\<rparr>) wage_events)"
  have "map pw_balance (bk_wallets ?bk) = [37 / 10] \<and> map pt_amount (bk_txs ?bk) = [1234, - 248, - 246, - 370]"
    by code_simp
  moreover have "distinct (map sl_assignment (bk_settlements ?bk))"
    by (rule persona_books_balance [OF refl, of wage_gen "''t''" "[wage_person ''p'' ''own'' Per_Active]"
          "wage_market []" wage_events, THEN conjunct2, THEN conjunct2])
  ultimately show ?thesis by (intro exI [of _ ?bk] conjI refl) simp_all
qed

end
