(* ===== verification/Persona_Work.thy ===== *)
theory Persona_Work
  imports Persona_Books
begin

text \<open>
  What the operations of the market mean for a digital person: the pay of a completion and of an
  acceptance, the final state of a case, the range of a ranking; and where two operations that are each
  right do not fit together.
\<close>

subsection \<open>Which assignment is the latest\<close>

lemma in_set_nonempty: "x \<in> set xs \<Longrightarrow> xs \<noteq> []"
  by auto

lemma latest_assignment_new:
  assumes n: "a \<in> set (pm_assignments s)" "wa_tenant a = tn" "wa_task a = task"
    and l: "\<forall>b \<in> set (pm_assignments s). b = a \<or> wa_assigned_at b < wa_assigned_at a"
  shows "latest_assignment tn s task = Some a"
proof -
  let ?xs = "filter (\<lambda>a. wa_tenant a = tn \<and> wa_task a = task) (pm_assignments s)"
  have m: "a \<in> set ?xs" using n by simp
  then have "?xs \<noteq> []" by (rule in_set_nonempty)
  then obtain x rest where x: "sort_key (\<lambda>a. - wa_assigned_at a) ?xs = x # rest"
    by (metis list.exhaust sort_key_Nil_iff)
  from sort_key_ConsD [OF x] m have "x \<in> set ?xs" and "- wa_assigned_at x \<le> - wa_assigned_at a" by auto
  then have "x = a" using l by fastforce
  with x show ?thesis by (simp add: latest_assignment_def)
qed

lemma latest_assignment_SomeD:
  assumes "latest_assignment tn s task = Some a"
  shows "a \<in> set (pm_assignments s) \<and> wa_tenant a = tn \<and> wa_task a = task"
proof -
  let ?xs = "filter (\<lambda>a. wa_tenant a = tn \<and> wa_task a = task) (pm_assignments s)"
  obtain rest where "sort_key (\<lambda>a. - wa_assigned_at a) ?xs = a # rest"
    using assms by (auto simp: latest_assignment_def split: list.splits)
  from sort_key_ConsD [OF this] show ?thesis by auto
qed

lemma latest_assignment_cong:
  "pm_assignments s' = pm_assignments s \<Longrightarrow> latest_assignment tn s' task = latest_assignment tn s task"
  by (simp add: latest_assignment_def)

lemma latest_result_cong: "pm_results s' = pm_results s \<Longrightarrow> latest_result tn s' a = latest_result tn s a"
  by (simp add: latest_result_def)

lemma lookups_bank [simp]:
  "latest_assignment tn (s\<lparr>gv_bank := b\<rparr>) task = latest_assignment tn s task"
  "latest_result tn (s\<lparr>gv_bank := b\<rparr>) a = latest_result tn s a"
  "assignment_by_id tn (s\<lparr>gv_bank := b\<rparr>) i = assignment_by_id tn s i"
  by (simp_all add: latest_assignment_def latest_result_def assignment_by_id_def)

lemma lookups_tasks [simp]:
  "latest_assignment tn (s\<lparr>pm_tasks := ts\<rparr>) task = latest_assignment tn s task"
  "latest_result tn (s\<lparr>pm_tasks := ts\<rparr>) a = latest_result tn s a"
  "assignment_by_id tn (s\<lparr>pm_tasks := ts\<rparr>) i = assignment_by_id tn s i"
  by (simp_all add: latest_assignment_def latest_result_def assignment_by_id_def)

lemma get_market_task_D:
  "get_market_task tn ts task = Some t \<Longrightarrow> t \<in> set ts \<and> market_at tn task t"
  by (auto simp: get_market_task_def dest: select_one_SomeD)

text \<open>A statement on one task of the table reports one row where its guard holds.\<close>

lemma one_task:
  assumes k: "market_keyed ts" and t: "get_market_task tn ts task = Some t" and g: "P t"
  shows "snd (update_where (\<lambda>r. market_at tn task r \<and> P r) f ts) = 1"
    and "(\<And>r. market_at tn task (f r) = market_at tn task r) \<Longrightarrow>
      get_market_task tn (fst (update_where (\<lambda>r. market_at tn task r \<and> P r) f ts)) task = Some (f t)"
proof -
  note d = get_market_task_D [OF t]
  have e: "r = t" if "r \<in> set ts" "market_at tn task r" for r
    by (rule keyed_task_unique [OF k that(1) conjunct1 [OF d] that(2) conjunct2 [OF d]])
  have "count_where (\<lambda>r. market_at tn task r \<and> P r) ts \<le> 1"
    by (rule count_where_unique [where key = mt_id and k = task])
      (use k in \<open>auto simp: market_keyed_def market_at_def\<close>)
  moreover have "count_where (\<lambda>r. market_at tn task r \<and> P r) ts \<noteq> 0" using d g by (auto simp: count_where_0_iff)
  ultimately show "snd (update_where (\<lambda>r. market_at tn task r \<and> P r) f ts) = 1" by (simp add: update_where_snd)
  assume f: "\<And>r. market_at tn task (f r) = market_at tn task r"
  show "get_market_task tn (fst (update_where (\<lambda>r. market_at tn task r \<and> P r) f ts)) task = Some (f t)"
    using t d g by (simp add: get_market_task_def select_one_update_where f)
qed

subsection \<open>A second taking\<close>

lemma accept_legacy_miss:
  assumes "market_keyed ts" and "get_market_task tn ts task = Some t" and "mt_status t \<noteq> Mkt_Open"
  shows "fst (market_cmd_accept_legacy tn task p fork now ts) = ts"
proof -
  note d = get_market_task_D [OF assms(2)]
  have "r = t" if "r \<in> set ts" "market_at tn task r" for r
    by (rule keyed_task_unique [OF assms(1) that(1) conjunct1 [OF d] that(2) conjunct2 [OF d]])
  then have "\<forall>r \<in> set ts. \<not> (market_at tn task r \<and> mt_status r = Mkt_Open)" using assms(3) by blast
  then show ?thesis unfolding market_cmd_accept_legacy_def by (rule update_where_miss_id)
qed

lemma take_commit_Inr:
  assumes "take_commit gen tn p fork task now s = (s', Inr r)"
  shows "s' = (drawn_gov s)\<lparr>pm_tasks := fst (market_cmd_accept_legacy tn task p fork now (pm_tasks s)),
      pm_assignments := pm_assignments s @
        [\<lparr> wa_id = fresh gen s, wa_tenant = tn, wa_task = task, wa_persona = p, wa_application = None,
           wa_session = None, wa_status = Work_Assigned, wa_assigned_at = now, wa_started_at = None,
           wa_submitted_at = None, wa_completed_at = None \<rparr>]\<rparr>
    \<and> r = get_market_task tn (pm_tasks s') task
    \<and> (\<forall>b \<in> set (pm_assignments s). wa_id b \<noteq> fresh gen s)"
  using assms
  by (auto simp: take_commit_def Let_def market_cmd_create_assignment_def drawn_gov_def list_ex_iff
      split: option.splits if_splits)

text \<open>
  two persons may take one task at the same time. The statement of the second changes nothing, but what
  it reports is not looked at: the second person is told that it succeeded and gets an assignment, which is
  the latest of the task from then on. It can not be submitted, since the task belongs to the first; and the
  work of the first can neither be accepted nor rejected, since only the latest assignment is looked at.
\<close>

theorem second_taking_strands_task:
  assumes k: "market_keyed (pm_tasks s)" and t: "get_market_task tn (pm_tasks s) task = Some t"
    and both: "take_check fork_of tn user1 p1 fork1 task s" "take_check fork_of tn user2 p2 fork2 task s"
    and other: "p1 \<noteq> p2" and clock: "\<forall>a \<in> set (pm_assignments s). wa_assigned_at a < later" "now < later"
    and first: "take_commit gen tn p1 fork1 task now s = (s1, Inr r1)"
    and second: "take_commit gen tn p2 fork2 task later s1 = (s2, Inr r2)"
  shows "pm_tasks s2 = pm_tasks s1 \<and> r2 = r1 \<and> (\<exists>t1. r1 = Some t1 \<and> mt_persona t1 = Some p1)
     \<and> (\<forall>actor. market_accept_check tn actor task s2 = None \<and> market_reject_check tn actor task s2 = None)
     \<and> (\<exists>a. latest_assignment tn s2 task = Some a \<and> wa_persona a = p2
          \<and> (\<forall>user uri ev moment. submit_task_result gen tn user task (wa_id a) uri ev moment s2 = (s2, Inr None)))"
proof -
  note c1 = take_commit_Inr [OF first] and c2 = take_commit_Inr [OF second]
  have open_t: "mt_status t = Mkt_Open" using both(1) t by (auto simp: take_check_def split: option.splits)
  let ?t1 = "t\<lparr>mt_status := Mkt_Accepted, mt_persona := Some p1, mt_fork := fork1,
              mt_accepted_at := Some now, mt_updated_at := now\<rparr>"
  have T1: "pm_tasks s1 = fst (market_cmd_accept_legacy tn task p1 fork1 now (pm_tasks s))" using c1 by simp
  have t1: "get_market_task tn (pm_tasks s1) task = Some ?t1"
    unfolding T1 market_cmd_accept_legacy_def by (rule one_task(2) [OF k t]) (simp_all add: market_at_def open_t)
  have k1: "market_keyed (pm_tasks s1)"
    unfolding T1 using market_keyed_run [OF k, of "St_Accept_Direct tn task p1 fork1 now"] by simp
  have T2: "pm_tasks s2 = pm_tasks s1"
    using c2 accept_legacy_miss [OF k1 t1] by simp
  let ?a = "\<lparr> wa_id = fresh gen s1, wa_tenant = tn, wa_task = task, wa_persona = p2, wa_application = None,
           wa_session = None, wa_status = Work_Assigned, wa_assigned_at = later, wa_started_at = None,
           wa_submitted_at = None, wa_completed_at = None \<rparr>"
  have A: "pm_assignments s2 = pm_assignments s1 @ [?a]" using c2 by simp
  have "\<forall>b \<in> set (pm_assignments s1). wa_assigned_at b < later" using c1 clock by auto
  then have l: "latest_assignment tn s2 task = Some ?a"
    by (intro latest_assignment_new) (auto simp: A)
  have "\<forall>b \<in> set (pm_assignments s1). \<not> work_at tn (fresh gen s1) b" using c2 by (auto simp: work_at_def)
  then have "select_one (work_at tn (fresh gen s1)) (pm_assignments s1) = None" by (simp add: select_one_None_iff)
  then have i: "assignment_by_id tn s2 (fresh gen s1) = Some ?a"
    by (simp add: assignment_by_id_def A select_one_append work_at_def)
  have "market_accept_check tn actor task s2 = None" "market_reject_check tn actor task s2 = None" for actor
    by (simp_all add: market_accept_check_def market_reject_check_def l split: option.split)
  moreover have "submit_task_result gen tn user task (fresh gen s1) uri ev moment s2 = (s2, Inr None)" for user uri ev moment
    using other by (simp add: submit_task_result_def i T2 t1)
  ultimately show ?thesis using T2 t1 c1 c2 l by simp
qed

definition two_persons :: persona_market where
  "two_persons = foldl (persona_step wage_gen ''t'')
     (wage_market [wage_person ''p'' ''own'' Per_Active, wage_person ''q'' ''rival'' Per_Active])
     [Pe_Wallet ''w'' ''p'' ''addr'' 1, Pe_Wallet ''v'' ''q'' ''addr2'' 1,
      Pe_Publish ''pub'' ''title'' '''' None 10 None 2]"

definition no_forks :: "ident \<Rightarrow> ident \<Rightarrow> ident \<Rightarrow> bool" where
  "no_forks tn p f = False"

theorem second_taking_strands_task_witness:
  "let s1 = fst (take_commit wage_gen ''t'' ''p'' None ''x'' 3 two_persons) in
   let s2 = fst (take_commit wage_gen ''t'' ''q'' None ''x'' 4 s1) in
   pm_tasks s2 = pm_tasks s1 \<and> market_accept_check ''t'' ''pub'' ''x'' s2 = None"
proof -
  let ?r1 = "take_commit wage_gen ''t'' ''p'' None ''x'' 3 two_persons"
  let ?r2 = "take_commit wage_gen ''t'' ''q'' None ''x'' 4 (fst ?r1)"
  obtain t where t: "get_market_task ''t'' (pm_tasks two_persons) ''x'' = Some t"
    by (cases "get_market_task ''t'' (pm_tasks two_persons) ''x''")
      (simp_all add: eq_commute [of None], code_simp)
  have k: "market_keyed (pm_tasks two_persons)" by code_simp
  have b: "take_check no_forks ''t'' ''own'' ''p'' None ''x'' two_persons"
    "take_check no_forks ''t'' ''rival'' ''q'' None ''x'' two_persons" by code_simp+
  have c: "\<forall>a \<in> set (pm_assignments two_persons). wa_assigned_at a < 4" by code_simp
  have f: "snd ?r1 = Inr (projr (snd ?r1))" "snd ?r2 = Inr (projr (snd ?r2))" by code_simp+
  have "?r1 = (fst ?r1, Inr (projr (snd ?r1)))" "?r2 = (fst ?r2, Inr (projr (snd ?r2)))"
    using f by (simp_all add: prod_eq_iff)
  from second_taking_strands_task [OF k t b _ c _ this] show ?thesis by (simp add: Let_def)
qed

subsection \<open>A settlement and a rejection\<close>

text \<open>The lookups of the market see what a statement of another column did.\<close>

lemma assignment_by_id_set_work:
  "(\<And>a. work_at tn i (f a) = work_at tn i a) \<Longrightarrow>
   assignment_by_id tn (set_work P f s) i = map_option (\<lambda>a. if P a then f a else a) (assignment_by_id tn s i)"
  by (simp add: assignment_by_id_def set_work_def select_one_update_where)

lemma latest_result_kept:
  assumes r: "latest_result tn s a = Some r" and c: "\<And>x. wr_created_at (f x) = wr_created_at x
      \<and> wr_tenant (f x) = wr_tenant x \<and> wr_assignment (f x) = wr_assignment x"
  shows "\<exists>r'. latest_result tn (set_result tn i f s) a = Some r'"
proof -
  have "r \<in> set (pm_results s) \<and> wr_tenant r = tn \<and> wr_assignment r = a"
    using r sort_key_ConsD [of "\<lambda>r. - wr_created_at r"]
    by (fastforce simp: latest_result_def split: list.splits)
  then have "\<exists>x \<in> set (pm_results (set_result tn i f s)). wr_tenant x = tn \<and> wr_assignment x = a"
    using c by (auto simp: set_result_def)
  then have "filter (\<lambda>r. wr_tenant r = tn \<and> wr_assignment r = a) (pm_results (set_result tn i f s)) \<noteq> []"
    by (auto simp: filter_empty_conv)
  then show ?thesis by (auto simp: latest_result_def split: list.split)
qed

lemma market_reject_commit_works:
  assumes k: "market_keyed (pm_tasks s)" and c: "market_reject_check tn actor task s = Some (a, r)"
    and t: "get_market_task tn (pm_tasks s) task = Some t" "mt_status t = Mkt_Accepted"
  shows "\<exists>s' t' a' r'. reject_submitted_task tn actor task reason now s = (s', Some (t', a', r'))
     \<and> get_market_task tn (pm_tasks s') task = Some t' \<and> mt_status t' = Mkt_Open \<and> mt_persona t' = None
     \<and> gv_bank s' = gv_bank s"
proof -
  have a: "latest_assignment tn s task = Some a" "wa_status a = Work_Submitted"
    and r: "latest_result tn s (wa_id a) = Some r"
    using c by (auto simp: market_reject_check_def split: option.splits if_splits)
  have al: "a \<in> set (pm_assignments s)" "wa_tenant a = tn" using latest_assignment_SomeD [OF a(1)] by auto
  define s1 where "s1 = market_cmd_reject_application tn (wa_application a) now
                 (market_cmd_reject_work tn (wa_id a) (market_cmd_reject_result tn (wr_id r) reason now s))"
  have T: "pm_tasks s1 = pm_tasks s" and B: "gv_bank s1 = gv_bank s"
    by (simp_all add: s1_def market_cmd_reject_application_def market_cmd_work_defs set_work_def set_result_def)
  let ?u = "t\<lparr>mt_status := Mkt_Open, mt_persona := None, mt_fork := None, mt_accepted_at := None,
              mt_updated_at := now\<rparr>"
  have n: "snd (market_cmd_reopen tn task now (pm_tasks s1)) = 1"
    unfolding T market_cmd_reopen_def by (rule one_task(1) [OF k t(1)]) (rule t(2))
  have u: "get_market_task tn (fst (market_cmd_reopen tn task now (pm_tasks s1))) task = Some ?u"
    unfolding T market_cmd_reopen_def by (rule one_task(2) [OF k t(1)]) (simp_all add: market_at_def t(2))
  let ?s = "s1\<lparr>pm_tasks := fst (market_cmd_reopen tn task now (pm_tasks s1))\<rparr>"
  have cm: "market_reject_commit tn task a r reason now s = (?s, True)"
    using n by (simp add: market_reject_commit_def Let_def s1_def [symmetric] case_prod_beta)
  have "\<exists>b \<in> set (pm_assignments ?s). work_at tn (wa_id a) b"
    using al by (auto simp: s1_def market_cmd_reject_application_def market_cmd_work_defs set_work_def
        set_result_def work_at_def)
  then have "assignment_by_id tn ?s (wa_id a) \<noteq> None" by (auto simp: assignment_by_id_def select_one_None_iff)
  then obtain a' where a': "assignment_by_id tn ?s (wa_id a) = Some a'" by blast
  have R: "pm_results ?s = pm_results (market_cmd_reject_result tn (wr_id r) reason now s)"
    by (simp add: s1_def market_cmd_reject_application_def market_cmd_work_defs set_work_def set_result_def)
  obtain r' where "latest_result tn (market_cmd_reject_result tn (wr_id r) reason now s) (wa_id a) = Some r'"
    using latest_result_kept [OF r] by (fastforce simp: market_cmd_reject_result_def)
  then have r': "latest_result tn ?s (wa_id a) = Some r'" by (simp only: latest_result_cong [OF R])
  have "reject_submitted_task tn actor task reason now s = (?s, Some (?u, a', r'))"
    using c u a' r' by (simp add: reject_submitted_task_def cm)
  then show ?thesis using u B by (intro exI [of _ ?s] exI [of _ ?u] exI [of _ a'] exI [of _ r']) simp
qed

lemma settle_task_payment_rest:
  "\<exists>bk. fst (settle_task_payment gen tn q now s) = s\<lparr>gv_bank := bk\<rparr>"
  by (rule exI [of _ "gv_bank (fst (settle_task_payment gen tn q now s))"])
    (auto simp: settle_task_payment_def Let_def split: option.split prod.split)

text \<open>
  the publisher of a task that waits for its judgement may settle it, and reject the work afterwards:
  the task is on the market again, free for another person and another settlement, while the first
  settlement and the money in the wallet of the first stay. Only the acceptance completes the task; the
  settlement on its own leaves nothing behind that a rejection would look at.
\<close>

theorem settled_work_rejected:
  assumes k: "market_keyed (pm_tasks s)" and c: "market_reject_check tn actor task s = Some (a, r)"
    and t: "get_market_task tn (pm_tasks s) task = Some t" "mt_status t = Mkt_Accepted"
    and q: "sr_assignment q = wa_id a"
    and settled: "settle_task_payment gen tn q now s = (s1, Inr (Some st))"
    and stored: "settlement_by_assignment tn (gv_bank s1) (wa_id a) = Some st"
  shows "\<exists>s2 t' a' r'. reject_submitted_task tn actor task reason later s1 = (s2, Some (t', a', r'))
     \<and> get_market_task tn (pm_tasks s2) task = Some t' \<and> mt_status t' = Mkt_Open \<and> mt_persona t' = None
     \<and> settlement_by_assignment tn (gv_bank s2) (wa_id a) = Some st
     \<and> bk_wallets (gv_bank s2) = bk_wallets (gv_bank s1)"
proof -
  obtain bk where s1: "s1 = s\<lparr>gv_bank := bk\<rparr>"
    using settle_task_payment_rest [of gen tn q now s] settled by auto
  have c1: "market_reject_check tn actor task s1 = Some (a, r)"
    using c by (simp add: s1 market_reject_check_def cong: option.case_cong if_cong)
  obtain s2 t' a' r' where "reject_submitted_task tn actor task reason later s1 = (s2, Some (t', a', r'))"
    "get_market_task tn (pm_tasks s2) task = Some t'" "mt_status t' = Mkt_Open" "mt_persona t' = None"
    "gv_bank s2 = gv_bank s1"
    using market_reject_commit_works [of s1 tn actor task a r t reason later] k c1 t by (auto simp: s1)
  then show ?thesis using stored by (intro exI [of _ s2] exI [of _ t'] exI [of _ a'] exI [of _ r']) simp
qed

text \<open>A person that has submitted its work.\<close>

definition submitted_work :: persona_market where
  "submitted_work = foldl (persona_step wage_gen ''t'')
     (wage_market [wage_person ''p'' ''own'' Per_Active])
     [Pe_Wallet ''w'' ''p'' ''addr'' 1, Pe_Publish ''pub'' ''title'' '''' None 10 None 2,
      Pe_Take ''p'' None ''x'' 3, Pe_Submit ''own'' ''x'' ''xx'' ''uri'' ''{}'' 4]"

definition settlement_asked :: settle_request where
  "settlement_asked = \<lparr> sr_actor = ''pub'', sr_task = ''x'', sr_assignment = ''xx'', sr_total = 1000,
        sr_currency = ''CRED'', sr_split = standard_split \<rparr>"

theorem settled_work_rejected_witness:
  "let s1 = fst (settle_task_payment wage_gen ''t'' settlement_asked 5 submitted_work) in
   \<exists>s2 t' a' r'. reject_submitted_task ''t'' ''pub'' ''x'' ''no'' 6 s1 = (s2, Some (t', a', r'))
     \<and> mt_status t' = Mkt_Open \<and> map pw_balance (bk_wallets (gv_bank s2)) = [6]"
proof -
  let ?a = "hd (pm_assignments submitted_work)" and ?r = "hd (pm_results submitted_work)"
    and ?t = "hd (pm_tasks submitted_work)"
  let ?s1 = "settle_task_payment wage_gen ''t'' settlement_asked 5 submitted_work"
  let ?st = "hd (bk_settlements (gv_bank (fst ?s1)))"
  have k: "market_keyed (pm_tasks submitted_work)" by code_simp
  have c: "market_reject_check ''t'' ''pub'' ''x'' submitted_work = Some (?a, ?r)" by code_simp
  have t: "get_market_task ''t'' (pm_tasks submitted_work) ''x'' = Some ?t" "mt_status ?t = Mkt_Accepted"
    by code_simp+
  have q: "sr_assignment settlement_asked = wa_id ?a" by code_simp
  have "snd ?s1 = Inr (Some ?st)" by code_simp
  then have st: "?s1 = (fst ?s1, Inr (Some ?st))" by (simp add: prod_eq_iff)
  have fd: "settlement_by_assignment ''t'' (gv_bank (fst ?s1)) (wa_id ?a) = Some ?st" by code_simp
  have w: "map pw_balance (bk_wallets (gv_bank (fst ?s1))) = [6]" by code_simp
  from settled_work_rejected [OF k c t q st fd, of "''no''" 6] w show ?thesis
    unfolding Let_def by (elim exE conjE) (intro exI conjI, assumption+, simp)
qed

subsection \<open>A suspension and a completion\<close>

lemma pay_completion_personas: "bk_personas (fst (pay_completion gen tn c payout tokens now bk)) = bk_personas bk"
  by (auto simp: pay_completion_def Let_def drawn_def undo_bank_def purse_cmd_complete_task_def
      purse_cmd_create_settlement_def insert_purse_tx_def purse_cmd_insert_tx_def
      split: option.split prod.splits)

lemma persona_by_id_set_persona:
  assumes f: "\<And>r. pr_tenant (f r) = pr_tenant r \<and> pr_id (f r) = pr_id r"
  shows "persona_by_id tn (gv_bank (set_persona tn p f s)) p = map_option f (persona_by_id tn (gv_bank s) p)"
proof -
  have "persona_by_id tn (gv_bank (set_persona tn p f s)) p
      = map_option (\<lambda>r. if pr_tenant r = tn \<and> pr_id r = p then f r else r) (persona_by_id tn (gv_bank s) p)"
    by (simp add: persona_by_id_def set_persona_def on_bank_def select_one_update_where f)
  moreover have "pr_tenant r = tn \<and> pr_id r = p" if "persona_by_id tn (gv_bank s) p = Some r" for r
    using that by (auto simp: persona_by_id_def dest: select_one_SomeD)
  ultimately show ?thesis by (cases "persona_by_id tn (gv_bank s) p") simp_all
qed

lemma persona_by_id_D: "persona_by_id tn bk p = Some r \<Longrightarrow> pr_tenant r = tn \<and> pr_id r = p"
  by (auto simp: persona_by_id_def dest: select_one_SomeD)

lemma complete_task_persona:
  assumes "complete_task gen tn user task q h now s = (s', Inr (Some (t, w, p)))"
  shows "persona_status_of p = Per_Active \<and> gv_cases s' = gv_cases s
    \<and> (\<exists>p0. persona_by_id tn (gv_bank s) (pr_id p) = Some p0)"
proof -
  obtain c where c: "complete_check tn user task s = Some c"
    and cm: "complete_commit gen tn c q h now s = (s', Inr True)"
    and p: "owned_persona tn user (cp_persona c) s' = Some p"
    using assms by (auto simp: complete_task_def split: option.splits prod.splits sum.splits bool.splits)
  let ?q = "clamp_to q 0 1" and ?h = "max 0 h"
  let ?g = "completion_growth (mt_reward (cp_task c)) ?q ?h"
  let ?pay = "pay_completion gen tn c (completion_payout (mt_reward (cp_task c)) ?q) (round_digits 2 (?g * 8)) now (gv_bank s)"
  obtain ts where s': "s' = market_cmd_persona_completed tn (cp_persona c) ?g
      (completion_reputation (mt_reward (cp_task c)) ?q) ?h now (s\<lparr>pm_tasks := ts, gv_bank := fst ?pay\<rparr>)"
    using cm by (fastforce simp: complete_commit_def Let_def split: prod.splits option.splits if_splits)
  let ?f = "\<lambda>r. r\<lparr>pr_growth := pr_growth r + ?g,
      pr_reputation := pr_reputation r + completion_reputation (mt_reward (cp_task c)) ?q,
      pr_training := pr_training r + ?h, pr_lifecycle := Some Per_Active, pr_updated_at := now\<rparr>"
  have B: "bk_personas (gv_bank s') = fst (update_where (\<lambda>r. pr_tenant r = tn \<and> pr_id r = cp_persona c) ?f
      (bk_personas (gv_bank s)))"
    by (simp add: s' market_cmd_persona_completed_def set_persona_def on_bank_def pay_completion_personas)
  have "p \<in> set (bk_personas (gv_bank s'))" "pr_tenant p = tn" "pr_id p = cp_persona c"
    using p by (auto simp: owned_persona_def dest!: select_one_SomeD)
  then obtain r where r: "r \<in> set (bk_personas (gv_bank s))" "pr_tenant r = tn" "pr_id r = cp_persona c" "p = ?f r"
    unfolding B update_where_fst by (auto split: if_splits)
  then have "persona_by_id tn (gv_bank s) (cp_persona c) \<noteq> None" by (auto simp: persona_by_id_def select_one_None_iff)
  with r show ?thesis
    by (auto simp: persona_status_of_def s' market_cmd_persona_completed_def set_persona_def on_bank_def)
qed

lemma apply_governance_action_Some:
  fixes s :: persona_market
  assumes "apply_governance_action gen tn i k secs actor now s = (s', Inr (Some (c, st)))"
  obtains p where "persona_by_id tn (gv_bank s) (gc_persona c) = Some p"
    and "case_by_id tn s' i = Some c" and "gc_status c = (if k = Gov_Reinstate then Case_Resolved else Case_Action_Applied)"
    and "st = status_for_action (persona_status_of p) k"
    and "\<exists>p'. persona_by_id tn (gv_bank s') (gc_persona c) = Some p' \<and> persona_status_of p' = st"
proof -
  obtain c0 p where ck: "action_check tn i s = Some (c0, p)"
    and cm: "action_commit gen tn c0 p k secs actor now s = (s', Inr (Some (c, st)))"
    using assms by (auto simp: apply_governance_action_def split: option.splits)
  have c0: "case_by_id tn s i = Some c0" "gc_status c0 \<noteq> Case_Resolved"
    and p: "persona_by_id tn (gv_bank s) (gc_persona c0) = Some p"
    using ck by (auto simp: action_check_def split: option.splits if_splits)
  have i: "gc_id c0 = i" "case_at tn i c0"
    using c0(1) by (auto simp: case_by_id_def case_at_def dest: select_one_SomeD)
  let ?st = "if k = Gov_Reinstate then Case_Resolved else Case_Action_Applied"
  let ?f = "\<lambda>c. c\<lparr>gc_status := ?st, gc_resolved_at := (if ?st = Case_Resolved then Some now else None)\<rparr>"
  let ?P = "\<lambda>c. case_at tn i c \<and> gc_status c \<noteq> Case_Resolved"
  let ?next = "status_for_action (persona_status_of p) k"
  let ?g = "\<lambda>r. r\<lparr>pr_reputation := pr_reputation r + reputation_for_action k (severity_level (gc_severity c0)),
      pr_updated_at := now, pr_lifecycle := Some ?next, pr_status := to_legacy_status ?next,
      pr_deceased_at := (if ?next = Per_Deceased then Some now else pr_deceased_at r)\<rparr>"
  have G: "gv_cases s' = fst (update_where ?P ?f (gv_cases s))"
    and B: "bk_personas (gv_bank s') = fst (update_where (\<lambda>r. pr_tenant r = tn \<and> pr_id r = gc_persona c0) ?g
        (bk_personas (gv_bank s)))"
    and C: "case_by_id tn s' i = Some c" and st: "st = ?next"
    using cm i(1)
    by (auto simp: action_commit_def Let_def gov_cmd_create_action_def gov_cmd_update_case_def
        gov_cmd_apply_to_persona_def drawn_gov_def drawn_def
        split: option.splits prod.splits if_splits)
  have "case_by_id tn s' i = map_option (\<lambda>c. if ?P c then ?f c else c) (case_by_id tn s i)"
    unfolding case_by_id_def G by (rule select_one_update_where) (simp add: case_at_def)
  then have c: "c = ?f c0" using C c0 i(2) by simp
  have "persona_by_id tn (gv_bank s') (gc_persona c0) = map_option
      (\<lambda>r. if pr_tenant r = tn \<and> pr_id r = gc_persona c0 then ?g r else r) (persona_by_id tn (gv_bank s) (gc_persona c0))"
    unfolding persona_by_id_def B by (rule select_one_update_where) simp
  then have "persona_by_id tn (gv_bank s') (gc_persona c0) = Some (?g p)"
    using p persona_by_id_D [OF p] by simp
  then show thesis using p C c st by (intro that [of p]) (simp_all add: persona_status_of_def)
qed

text \<open>
  C39: a moderator suspends a person, and its owner then completes a task that it had taken: the person is
  active again and may take new work, although its case still stands with the suspension applied and
  nobody reinstated it. The completion, like the acceptance, sets the status without looking at it.
\<close>

theorem suspension_lifted_by_completion:
  assumes act: "apply_governance_action gen tn i Gov_Suspension secs actor now s = (s1, Inr (Some (c, st)))"
    and comp: "complete_task gen tn user task q h later s1 = (s2, Inr (Some (t, w, p)))"
    and who: "pr_id p = gc_persona c"
  shows "(\<exists>p1. persona_by_id tn (gv_bank s1) (pr_id p) = Some p1 \<and> persona_status_of p1 = Per_Suspended)
    \<and> persona_status_of p = Per_Active
    \<and> case_by_id tn s2 i = Some c \<and> gc_status c = Case_Action_Applied"
proof -
  have "case_by_id tn s1 i = Some c \<and> gc_status c = Case_Action_Applied
    \<and> (\<exists>p'. persona_by_id tn (gv_bank s1) (gc_persona c) = Some p' \<and> persona_status_of p' = Per_Suspended)"
    using act by (rule apply_governance_action_Some) auto
  moreover have "gv_cases s2 = gv_cases s1" "persona_status_of p = Per_Active"
    using complete_task_persona [OF comp] by simp_all
  ultimately show ?thesis using who by (simp add: case_by_id_def)
qed

definition accused_worker :: persona_market where
  "accused_worker = foldl (persona_step wage_gen ''t'')
     (wage_market [wage_person ''p'' ''own'' Per_Active])
     [Pe_Wallet ''w'' ''p'' ''addr'' 1, Pe_Publish ''pub'' ''title'' '''' None 10 None 2,
      Pe_Take ''p'' None ''x'' 3, Pe_Open_Case ''p'' (Some ''x'') ''abuse'' Sev_High 4]"

theorem suspension_lifted_by_completion_witness:
  "let s1 = fst (apply_governance_action wage_gen ''t'' ''xxx'' Gov_Suspension (Some 3600) ''mod'' 5 accused_worker);
       s2 = fst (complete_task wage_gen ''t'' ''own'' ''x'' 1 0 6 s1)
   in map persona_status_of (bk_personas (gv_bank s1)) = [Per_Suspended]
     \<and> (\<exists>p. persona_status_of p = Per_Active \<and> p \<in> set (bk_personas (gv_bank s2)))"
proof -
  let ?r1 = "apply_governance_action wage_gen ''t'' ''xxx'' Gov_Suspension (Some 3600) ''mod'' 5 accused_worker"
  let ?r2 = "complete_task wage_gen ''t'' ''own'' ''x'' 1 0 6 (fst ?r1)"
  let ?c = "hd (gv_cases (fst ?r1))" and ?t = "hd (pm_tasks (fst ?r2))"
    and ?w = "hd (bk_wallets (gv_bank (fst ?r2)))" and ?p = "hd (bk_personas (gv_bank (fst ?r2)))"
  have "snd ?r1 = Inr (Some (?c, Per_Suspended))" "snd ?r2 = Inr (Some (?t, ?w, ?p))" by code_simp+
  then have r: "?r1 = (fst ?r1, Inr (Some (?c, Per_Suspended)))" "?r2 = (fst ?r2, Inr (Some (?t, ?w, ?p)))"
    by (simp_all add: prod_eq_iff)
  have w: "pr_id ?p = gc_persona ?c" by code_simp
  have m: "map persona_status_of (bk_personas (gv_bank (fst ?r1))) = [Per_Suspended]" by code_simp
  have p: "?p \<in> set (bk_personas (gv_bank (fst ?r2)))" by code_simp
  from suspension_lifted_by_completion [OF r w] m p show ?thesis unfolding Let_def by blast
qed

end
