(* ===== verification/Persona_Session.thy ===== *)
theory Persona_Session
  imports Persona_Work
begin

text \<open>
  Running sessions of digital persons: creation, planning, execution, evaluation and completion
  (\<^verbatim>\<open>src/persona-core/persona-marketplace-service.ts\<close>), the recovery of sessions that ran out of time, and
  the state machine (\<^verbatim>\<open>packages/kernel/src/domain/persona/runtime-state-machine.ts\<close>). Deadlines are read and
  written by the clock of the database, other times by the clock of the process. The columns that hold JSON
  are kept as values. An operation is a check, on what was read, and a transaction.
\<close>

subsection \<open>States\<close>

datatype session_phase =
  Ses_Plan | Ses_Execute | Ses_Evaluate | Ses_Memory | Ses_Reputation | Ses_Completed | Ses_Failed | Ses_Timeout | Ses_Error

definition active_phases :: "session_phase list" where
  "active_phases = [Ses_Plan, Ses_Execute, Ses_Evaluate, Ses_Memory, Ses_Reputation]"

definition terminal_phases :: "session_phase list" where
  "terminal_phases = [Ses_Completed, Ses_Failed, Ses_Timeout, Ses_Error]"

definition is_terminal_phase :: "session_phase \<Rightarrow> bool" where
  "is_terminal_phase p \<longleftrightarrow> p \<in> set terminal_phases"

definition runtime_timeout_at :: "millis \<Rightarrow> millis \<Rightarrow> millis" where
  "runtime_timeout_at now ms = now + max 1000 ms"

definition retry_phase :: "session_phase \<Rightarrow> session_phase" where
  "retry_phase p = Ses_Plan"

definition should_retry :: "nat \<Rightarrow> nat \<Rightarrow> bool" where
  "should_retry n m \<longleftrightarrow> n < m"

record session_error =
  se_previous :: session_phase
  se_detected_at :: millis
  se_retries :: nat

record runtime_session =
  rn_id :: ident
  rn_tenant :: ident
  rn_persona :: ident
  rn_task :: ident
  rn_assignment :: "ident option"
  rn_phase :: session_phase
  rn_retries :: nat
  rn_timeout :: "millis option"
  rn_plan :: "string list option"
  rn_artifacts :: "(string \<times> string) list"
  rn_evaluation :: "nat option"
  rn_summary :: "ident option"
  rn_error :: "session_error option"
  rn_created_at :: millis
  rn_updated_at :: millis
  rn_completed_at :: "millis option"

record session_market =
  sm_market :: persona_market
  sm_sessions :: "runtime_session list"

subsection \<open>Statements\<close>

definition session_at :: "ident \<Rightarrow> ident \<Rightarrow> runtime_session \<Rightarrow> bool" where
  "session_at tn i r \<longleftrightarrow> rn_tenant r = tn \<and> rn_id r = i"

definition session_by_id :: "ident \<Rightarrow> session_market \<Rightarrow> ident \<Rightarrow> runtime_session option" where
  "session_by_id tn s i = select_one (session_at tn i) (sm_sessions s)"

definition get_session :: "ident \<Rightarrow> ident \<Rightarrow> ident \<Rightarrow> session_market \<Rightarrow> runtime_session option" where
  "get_session tn user i s =
     (case session_by_id tn s i of
        None \<Rightarrow> None
      | Some r \<Rightarrow> if persona_exists tn (gv_bank (sm_market s)) user (rn_persona r) then Some r else None)"

definition latest_assignment_for :: "ident \<Rightarrow> persona_market \<Rightarrow> ident \<Rightarrow> ident \<Rightarrow> work_assignment option" where
  "latest_assignment_for tn s p task =
     (case sort_key (\<lambda>a. - wa_assigned_at a)
              (filter (\<lambda>a. wa_tenant a = tn \<and> wa_persona a = p \<and> wa_task a = task) (pm_assignments s)) of
        [] \<Rightarrow> None | a # _ \<Rightarrow> Some a)"

definition session_cmd_create ::
  "ident \<Rightarrow> ident \<Rightarrow> ident \<Rightarrow> ident \<Rightarrow> ident option \<Rightarrow> millis \<Rightarrow> millis \<Rightarrow> millis \<Rightarrow> runtime_session list
     \<Rightarrow> runtime_session list option" where
  "session_cmd_create i tn p task a ms db now ss =
     (if list_ex (\<lambda>q. rn_id q = i) ss then None
      else Some (ss @ [\<lparr> rn_id = i, rn_tenant = tn, rn_persona = p, rn_task = task, rn_assignment = a,
        rn_phase = Ses_Plan, rn_retries = 0, rn_timeout = Some (db + ms), rn_plan = None, rn_artifacts = [],
        rn_evaluation = None, rn_summary = None, rn_error = None, rn_created_at = now, rn_updated_at = now,
        rn_completed_at = None \<rparr>]))"

definition market_cmd_link_session :: "ident \<Rightarrow> ident \<Rightarrow> ident \<Rightarrow> persona_market \<Rightarrow> persona_market" where
  "market_cmd_link_session tn a i = set_work (work_at tn a) (\<lambda>w. w\<lparr>wa_session := Some i\<rparr>)"

definition market_cmd_start_work :: "ident \<Rightarrow> ident \<Rightarrow> millis \<Rightarrow> persona_market \<Rightarrow> persona_market" where
  "market_cmd_start_work tn a now =
     set_work (\<lambda>w. work_at tn a w \<and> (wa_status w = Work_Assigned \<or> wa_status w = Work_In_Progress))
       (\<lambda>w. w\<lparr>wa_status := Work_In_Progress,
              wa_started_at := (case wa_started_at w of None \<Rightarrow> Some now | Some t \<Rightarrow> Some t)\<rparr>)"

definition session_cmd_plan ::
  "ident \<Rightarrow> ident \<Rightarrow> string list \<Rightarrow> millis \<Rightarrow> millis \<Rightarrow> millis \<Rightarrow> runtime_session list \<Rightarrow> runtime_session list" where
  "session_cmd_plan tn i steps ms db now ss =
     fst (update_where (session_at tn i)
       (\<lambda>r. r\<lparr>rn_phase := Ses_Execute, rn_plan := Some steps, rn_updated_at := now, rn_timeout := Some (db + ms)\<rparr>) ss)"

definition session_cmd_execute ::
  "ident \<Rightarrow> ident \<Rightarrow> (string \<times> string) list \<Rightarrow> millis \<Rightarrow> millis \<Rightarrow> millis \<Rightarrow> runtime_session list
     \<Rightarrow> runtime_session list" where
  "session_cmd_execute tn i arts ms db now ss =
     fst (update_where (session_at tn i)
       (\<lambda>r. r\<lparr>rn_phase := Ses_Evaluate, rn_artifacts := arts, rn_updated_at := now, rn_timeout := Some (db + ms)\<rparr>) ss)"

definition session_cmd_evaluate ::
  "ident \<Rightarrow> ident \<Rightarrow> nat \<Rightarrow> millis \<Rightarrow> millis \<Rightarrow> millis \<Rightarrow> runtime_session list \<Rightarrow> runtime_session list" where
  "session_cmd_evaluate tn i n ms db now ss =
     fst (update_where (session_at tn i)
       (\<lambda>r. r\<lparr>rn_phase := Ses_Memory, rn_evaluation := Some n, rn_updated_at := now, rn_timeout := Some (db + ms)\<rparr>) ss)"

definition session_cmd_complete ::
  "ident \<Rightarrow> ident \<Rightarrow> ident \<Rightarrow> millis \<Rightarrow> runtime_session list \<Rightarrow> runtime_session list" where
  "session_cmd_complete tn i task now ss =
     fst (update_where (session_at tn i)
       (\<lambda>r. r\<lparr>rn_phase := Ses_Completed, rn_summary := Some task, rn_updated_at := now,
              rn_completed_at := Some now, rn_timeout := None\<rparr>) ss)"

definition session_cmd_retry ::
  "ident \<Rightarrow> ident \<Rightarrow> session_phase \<Rightarrow> session_phase \<Rightarrow> session_error \<Rightarrow> millis \<Rightarrow> millis \<Rightarrow> millis
     \<Rightarrow> runtime_session list \<Rightarrow> runtime_session list \<times> nat" where
  "session_cmd_retry tn i next expected e ms db now =
     update_where (\<lambda>r. session_at tn i r \<and> rn_phase r = expected)
       (\<lambda>r. r\<lparr>rn_phase := next, rn_retries := Suc (rn_retries r), rn_timeout := Some (db + ms),
              rn_updated_at := now, rn_error := Some e\<rparr>)"

definition session_cmd_timeout ::
  "ident \<Rightarrow> ident \<Rightarrow> session_phase \<Rightarrow> session_error \<Rightarrow> millis \<Rightarrow> runtime_session list
     \<Rightarrow> runtime_session list \<times> nat" where
  "session_cmd_timeout tn i expected e now =
     update_where (\<lambda>r. session_at tn i r \<and> rn_phase r = expected)
       (\<lambda>r. r\<lparr>rn_phase := Ses_Timeout, rn_timeout := None, rn_updated_at := now,
              rn_completed_at := Some now, rn_error := Some e\<rparr>)"

definition is_overdue :: "millis \<Rightarrow> runtime_session \<Rightarrow> bool" where
  "is_overdue db r \<longleftrightarrow> (case rn_timeout r of None \<Rightarrow> False | Some t \<Rightarrow> t \<le> db) \<and> rn_completed_at r = None"

definition timed_out_sessions :: "nat \<Rightarrow> millis \<Rightarrow> runtime_session list \<Rightarrow> runtime_session list" where
  "timed_out_sessions limit db ss = take limit (sort_key (\<lambda>r. the (rn_timeout r)) (filter (is_overdue db) ss))"

subsection \<open>The operations of the owner\<close>

definition create_check ::
  "ident \<Rightarrow> ident \<Rightarrow> ident \<Rightarrow> ident \<Rightarrow> session_market \<Rightarrow> work_assignment option" where
  "create_check tn user p task s =
     (case (owned_persona tn user p (sm_market s), get_market_task tn (pm_tasks (sm_market s)) task) of
        (Some r, Some t) \<Rightarrow>
          if persona_status_of r \<noteq> Per_Active \<or> mt_persona t \<noteq> Some p then None
          else (case latest_assignment_for tn (sm_market s) p task of
                  None \<Rightarrow> None
                | Some a \<Rightarrow> if wa_status a \<in> {Work_Assigned, Work_In_Progress, Work_Submitted} then Some a else None)
      | _ \<Rightarrow> None)"

definition create_session ::
  "(nat \<Rightarrow> ident) \<Rightarrow> ident \<Rightarrow> ident \<Rightarrow> ident \<Rightarrow> ident \<Rightarrow> millis \<Rightarrow> millis \<Rightarrow> millis \<Rightarrow> session_market
     \<Rightarrow> session_market \<times> (market_refusal + runtime_session option)" where
  "create_session gen tn user p task ms db now s =
     (case create_check tn user p task s of
        None \<Rightarrow> (s, Inr None)
      | Some a \<Rightarrow>
          let i = fresh gen (sm_market s); s0 = s\<lparr>sm_market := drawn_gov (sm_market s)\<rparr> in
          (case session_cmd_create i tn p task (Some (wa_id a)) ms db now (sm_sessions s) of
             None \<Rightarrow> (s0, Inl Mar_Constraint)
           | Some ss \<Rightarrow>
               let s1 = s0\<lparr>sm_sessions := ss, sm_market := market_cmd_link_session tn (wa_id a) i (sm_market s0)\<rparr>
               in (s1, Inr (get_session tn user i s1))))"

definition plan_steps :: "market_task \<Rightarrow> string list" where
  "plan_steps t =
     [''Inspect task requirements for '' @ mt_title t,
      ''Run '' @ mt_category t @ '' workflow on approved tools'',
      ''Package artifacts and summarize outcome'',
      ''Prepare evaluation and submission package'']"

definition plan_check :: "ident \<Rightarrow> ident \<Rightarrow> ident \<Rightarrow> session_market \<Rightarrow> string list option" where
  "plan_check tn user i s =
     (case get_session tn user i s of
        None \<Rightarrow> None
      | Some r \<Rightarrow>
          if is_terminal_phase (rn_phase r) then None
          else map_option plan_steps (get_market_task tn (pm_tasks (sm_market s)) (rn_task r)))"

definition plan_commit ::
  "ident \<Rightarrow> ident \<Rightarrow> string list \<Rightarrow> millis \<Rightarrow> millis \<Rightarrow> millis \<Rightarrow> session_market \<Rightarrow> session_market" where
  "plan_commit tn i steps ms db now s = s\<lparr>sm_sessions := session_cmd_plan tn i steps ms db now (sm_sessions s)\<rparr>"

definition plan_session ::
  "ident \<Rightarrow> ident \<Rightarrow> ident \<Rightarrow> millis \<Rightarrow> millis \<Rightarrow> millis \<Rightarrow> session_market \<Rightarrow> session_market \<times> runtime_session option" where
  "plan_session tn user i ms db now s =
     (case plan_check tn user i s of
        None \<Rightarrow> (s, None)
      | Some steps \<Rightarrow> let s1 = plan_commit tn i steps ms db now s in (s1, get_session tn user i s1))"

definition execute_check :: "ident \<Rightarrow> ident \<Rightarrow> ident \<Rightarrow> session_market \<Rightarrow> runtime_session option" where
  "execute_check tn user i s =
     (case get_session tn user i s of
        None \<Rightarrow> None
      | Some r \<Rightarrow>
          if rn_phase r \<noteq> Ses_Plan \<and> rn_phase r \<noteq> Ses_Execute then None
          else if get_market_task tn (pm_tasks (sm_market s)) (rn_task r) = None then None else Some r)"

definition artifact_list :: "ident \<Rightarrow> (string \<times> string) list" where
  "artifact_list i = [(''text'', ''runtime://'' @ i @ ''/artifact.json'')]"

definition execute_commit ::
  "ident \<Rightarrow> runtime_session \<Rightarrow> millis \<Rightarrow> millis \<Rightarrow> millis \<Rightarrow> session_market \<Rightarrow> session_market" where
  "execute_commit tn r ms db now s =
     (let s1 = s\<lparr>sm_sessions := session_cmd_execute tn (rn_id r) (artifact_list (rn_id r)) ms db now (sm_sessions s)\<rparr>
      in if truthy (rn_assignment r)
         then s1\<lparr>sm_market := market_cmd_start_work tn (the (rn_assignment r)) now (sm_market s1)\<rparr> else s1)"

definition execute_session ::
  "ident \<Rightarrow> ident \<Rightarrow> ident \<Rightarrow> millis \<Rightarrow> millis \<Rightarrow> millis \<Rightarrow> session_market \<Rightarrow> session_market \<times> runtime_session option" where
  "execute_session tn user i ms db now s =
     (case execute_check tn user i s of
        None \<Rightarrow> (s, None)
      | Some r \<Rightarrow> let s1 = execute_commit tn r ms db now s in (s1, get_session tn user i s1))"

definition evaluate_check :: "ident \<Rightarrow> ident \<Rightarrow> ident \<Rightarrow> session_market \<Rightarrow> nat option" where
  "evaluate_check tn user i s =
     (case get_session tn user i s of
        None \<Rightarrow> None
      | Some r \<Rightarrow> if rn_phase r \<noteq> Ses_Evaluate then None else Some (length (rn_artifacts r)))"

definition evaluate_commit ::
  "ident \<Rightarrow> ident \<Rightarrow> nat \<Rightarrow> millis \<Rightarrow> millis \<Rightarrow> millis \<Rightarrow> session_market \<Rightarrow> session_market" where
  "evaluate_commit tn i n ms db now s = s\<lparr>sm_sessions := session_cmd_evaluate tn i n ms db now (sm_sessions s)\<rparr>"

definition evaluate_session ::
  "ident \<Rightarrow> ident \<Rightarrow> ident \<Rightarrow> millis \<Rightarrow> millis \<Rightarrow> millis \<Rightarrow> session_market \<Rightarrow> session_market \<times> runtime_session option" where
  "evaluate_session tn user i ms db now s =
     (case evaluate_check tn user i s of
        None \<Rightarrow> (s, None)
      | Some n \<Rightarrow> let s1 = evaluate_commit tn i n ms db now s in (s1, get_session tn user i s1))"

definition finish_check :: "ident \<Rightarrow> ident \<Rightarrow> ident \<Rightarrow> session_market \<Rightarrow> ident option" where
  "finish_check tn user i s =
     (case get_session tn user i s of
        None \<Rightarrow> None
      | Some r \<Rightarrow>
          if is_terminal_phase (rn_phase r) \<or> rn_phase r \<notin> {Ses_Evaluate, Ses_Memory, Ses_Reputation} then None
          else map_option mt_id (get_market_task tn (pm_tasks (sm_market s)) (rn_task r)))"

definition finish_commit :: "ident \<Rightarrow> ident \<Rightarrow> ident \<Rightarrow> millis \<Rightarrow> session_market \<Rightarrow> session_market" where
  "finish_commit tn i task now s = s\<lparr>sm_sessions := session_cmd_complete tn i task now (sm_sessions s)\<rparr>"

definition finish_session ::
  "ident \<Rightarrow> ident \<Rightarrow> ident \<Rightarrow> millis \<Rightarrow> session_market \<Rightarrow> session_market \<times> runtime_session option" where
  "finish_session tn user i now s =
     (case finish_check tn user i s of
        None \<Rightarrow> (s, None)
      | Some task \<Rightarrow> let s1 = finish_commit tn i task now s in (s1, get_session tn user i s1))"

subsection \<open>Recovery\<close>

text \<open>The pass over the rows that were read, with what it counts: recovered and timed out.\<close>

fun recover_rows ::
  "nat \<Rightarrow> millis \<Rightarrow> millis \<Rightarrow> millis \<Rightarrow> runtime_session list \<Rightarrow> runtime_session list \<times> nat \<times> nat
     \<Rightarrow> runtime_session list \<times> nat \<times> nat" where
  "recover_rows m ms db now [] acc = acc"
| "recover_rows m ms db now (r # rows) (ss, n, k) =
     (if rn_phase r \<notin> set active_phases then recover_rows m ms db now rows (ss, n, k)
      else
        let e = \<lparr> se_previous = rn_phase r, se_detected_at = now, se_retries = rn_retries r \<rparr> in
        if should_retry (rn_retries r) m then
          (case session_cmd_retry (rn_tenant r) (rn_id r) (retry_phase (rn_phase r)) (rn_phase r) e ms db now ss of
             (ss', c) \<Rightarrow> recover_rows m ms db now rows (ss', if 0 < c then Suc n else n, k))
        else
          (case session_cmd_timeout (rn_tenant r) (rn_id r) (rn_phase r) e now ss of
             (ss', c) \<Rightarrow> recover_rows m ms db now rows (ss', n, if 0 < c then Suc k else k)))"

record recovery_report =
  rr_scanned :: nat
  rr_recovered :: nat
  rr_timed_out :: nat

definition recover_sessions ::
  "nat \<Rightarrow> millis \<Rightarrow> nat option \<Rightarrow> millis \<Rightarrow> millis \<Rightarrow> session_market \<Rightarrow> session_market \<times> recovery_report" where
  "recover_sessions m ms limit db now s =
     (let rows = timed_out_sessions (or_default limit 100) db (sm_sessions s) in
      case recover_rows m ms db now rows (sm_sessions s, 0, 0) of
        (ss, n, k) \<Rightarrow>
          (s\<lparr>sm_sessions := ss\<rparr>, \<lparr> rr_scanned = length rows, rr_recovered = n, rr_timed_out = k \<rparr>))"

subsection \<open>What a pass of the recovery does\<close>

definition recovered :: "nat \<Rightarrow> millis \<Rightarrow> millis \<Rightarrow> millis \<Rightarrow> runtime_session \<Rightarrow> runtime_session" where
  "recovered m ms db now r =
     (let e = \<lparr> se_previous = rn_phase r, se_detected_at = now, se_retries = rn_retries r \<rparr> in
      if rn_phase r \<notin> set active_phases then r
      else if should_retry (rn_retries r) m then
        r\<lparr>rn_phase := Ses_Plan, rn_retries := Suc (rn_retries r), rn_timeout := Some (db + ms),
          rn_updated_at := now, rn_error := Some e\<rparr>
      else
        r\<lparr>rn_phase := Ses_Timeout, rn_timeout := None, rn_updated_at := now,
          rn_completed_at := Some now, rn_error := Some e\<rparr>)"

lemma recovered_id [simp]: "rn_id (recovered m ms db now r) = rn_id r" "rn_tenant (recovered m ms db now r) = rn_tenant r"
  by (simp_all add: recovered_def Let_def)

lemma session_unique:
  "distinct (map rn_id ss) \<Longrightarrow> q \<in> set ss \<Longrightarrow> r \<in> set ss \<Longrightarrow> rn_id q = rn_id r \<Longrightarrow> q = r"
  by (auto simp: distinct_map dest: inj_onD)

lemma update_own_row:
  assumes d: "distinct (map rn_id ss)" and r: "r \<in> set ss"
  shows "fst (update_where (\<lambda>x. session_at (rn_tenant r) (rn_id r) x \<and> rn_phase x = rn_phase r) f ss)
      = map (\<lambda>x. if x = r then f r else x) ss"
    and "0 < snd (update_where (\<lambda>x. session_at (rn_tenant r) (rn_id r) x \<and> rn_phase x = rn_phase r) f ss)"
proof -
  have "session_at (rn_tenant r) (rn_id r) x \<and> rn_phase x = rn_phase r \<longleftrightarrow> x = r" if "x \<in> set ss" for x
    using session_unique [OF d that r] by (auto simp: session_at_def)
  then show "fst (update_where (\<lambda>x. session_at (rn_tenant r) (rn_id r) x \<and> rn_phase x = rn_phase r) f ss)
      = map (\<lambda>x. if x = r then f r else x) ss"
    by (simp add: update_where_fst)
  show "0 < snd (update_where (\<lambda>x. session_at (rn_tenant r) (rn_id r) x \<and> rn_phase x = rn_phase r) f ss)"
    unfolding update_where_hits using r by (auto simp: session_at_def)
qed

lemma recover_row:
  assumes "distinct (map rn_id ss)" and "r \<in> set ss"
  shows "\<exists>n' k'. recover_rows m ms db now (r # rows) (ss, n, k)
      = recover_rows m ms db now rows (map (\<lambda>x. if x = r then recovered m ms db now r else x) ss, n', k')"
proof (cases "rn_phase r \<in> set active_phases")
  case False
  then have "map (\<lambda>x. if x = r then recovered m ms db now r else x) ss = ss"
    by (intro map_idI) (simp add: recovered_def Let_def)
  with False show ?thesis by auto
next
  case True
  note u = update_own_row [OF assms]
  show ?thesis
  proof (cases "should_retry (rn_retries r) m")
    case retry: True
    then show ?thesis using True
      by - (rule exI [of _ "Suc n"], rule exI [of _ k],
        simp add: session_cmd_retry_def case_prod_beta u recovered_def Let_def retry_phase_def del: update_where_hits cong: if_cong)
  next
    case False
    then show ?thesis using True
      by - (rule exI [of _ n], rule exI [of _ "Suc k"],
        simp add: session_cmd_timeout_def case_prod_beta u recovered_def Let_def del: update_where_hits cong: if_cong)
  qed
qed

lemma recover_rows_map:
  "distinct (map rn_id ss) \<Longrightarrow> set rows \<subseteq> set ss \<Longrightarrow> distinct (map rn_id rows) \<Longrightarrow>
   fst (recover_rows m ms db now rows (ss, n, k))
     = map (\<lambda>x. if x \<in> set rows then recovered m ms db now x else x) ss"
proof (induction rows arbitrary: ss n k)
  case Nil
  then show ?case by simp
next
  case (Cons r rows)
  let ?g = "\<lambda>x. if x = r then recovered m ms db now r else x"
  let ?ss = "map ?g ss"
  have r: "r \<in> set ss" and other: "\<forall>x \<in> set rows. rn_id x \<noteq> rn_id r"
    using Cons.prems by (auto simp: image_iff)
  obtain n' k' where s: "recover_rows m ms db now (r # rows) (ss, n, k) = recover_rows m ms db now rows (?ss, n', k')"
    using recover_row [OF Cons.prems(1) r] by blast
  have "rn_id (?g x) = rn_id x" for x by simp
  then have i: "map rn_id ?ss = map rn_id ss" by simp
  have sub: "set rows \<subseteq> set ?ss" using Cons.prems(2) other by (auto simp: image_iff)
  have "recovered m ms db now r \<notin> set rows" using other recovered_id(1) by metis
  then have "map (\<lambda>x. if x \<in> set rows then recovered m ms db now x else x) ?ss
      = map (\<lambda>x. if x \<in> set (r # rows) then recovered m ms db now x else x) ss"
    by auto
  moreover have "fst (recover_rows m ms db now rows (?ss, n', k'))
      = map (\<lambda>x. if x \<in> set rows then recovered m ms db now x else x) ?ss"
    by (rule Cons.IH, unfold i) (use Cons.prems sub in simp_all)
  ultimately show ?case unfolding s by simp
qed

lemma timed_out_rows:
  assumes "distinct (map rn_id ss)"
  shows "set (timed_out_sessions l db ss) \<subseteq> set ss" and "distinct (map rn_id (timed_out_sessions l db ss))"
    and "\<forall>r \<in> set (timed_out_sessions l db ss). is_overdue db r"
    and "length ss \<le> l \<Longrightarrow> set (timed_out_sessions l db ss) = {r \<in> set ss. is_overdue db r}"
proof -
  let ?xs = "sort_key (\<lambda>r. the (rn_timeout r)) (filter (is_overdue db) ss)"
  have s: "set (take l ?xs) \<subseteq> set ?xs" by (rule set_take_subset)
  moreover have x: "set ?xs = {r \<in> set ss. is_overdue db r}" by auto
  ultimately show "set (timed_out_sessions l db ss) \<subseteq> set ss"
    and "\<forall>r \<in> set (timed_out_sessions l db ss). is_overdue db r"
    by (auto simp: timed_out_sessions_def)
  have "inj_on rn_id (set (take l ?xs))"
    using assms s x by (auto simp: distinct_map intro: inj_on_subset)
  moreover have "distinct (take l ?xs)" using assms by (simp add: distinct_map)
  ultimately show "distinct (map rn_id (timed_out_sessions l db ss))"
    by (simp add: timed_out_sessions_def distinct_map)
  show "set (timed_out_sessions l db ss) = {r \<in> set ss. is_overdue db r}" if "length ss \<le> l"
  proof -
    have "length ?xs \<le> l" using that by (metis length_filter_le length_sort order_trans)
    then show ?thesis using x by (simp add: timed_out_sessions_def)
  qed
qed

lemma recover_sessions_map:
  assumes "distinct (map rn_id (sm_sessions s))"
  shows "fst (recover_sessions m ms l db now s) = s\<lparr>sm_sessions :=
     map (\<lambda>x. if x \<in> set (timed_out_sessions (or_default l 100) db (sm_sessions s)) then recovered m ms db now x else x)
       (sm_sessions s)\<rparr>"
  using recover_rows_map [OF assms timed_out_rows(1) [OF assms] timed_out_rows(2) [OF assms], of m ms db now _ db 0 0]
  by (simp add: recover_sessions_def Let_def case_prod_beta)

subsection \<open>Sessions keep their type\<close>

text \<open>
  Every phase has its columns: a deadline exactly while the session runs, a time of completion exactly
  when it has ended, the artifacts once it was executed, the evaluation once it was evaluated, the summary
  once it was completed, and an error once the retries are used up.
\<close>

definition session_ok :: "nat \<Rightarrow> runtime_session \<Rightarrow> bool" where
  "session_ok m r \<longleftrightarrow>
     (is_terminal_phase (rn_phase r) \<longleftrightarrow> rn_completed_at r \<noteq> None)
     \<and> (is_terminal_phase (rn_phase r) \<longleftrightarrow> rn_timeout r = None)
     \<and> (rn_phase r = Ses_Evaluate \<or> rn_phase r = Ses_Memory \<or> rn_phase r = Ses_Completed
          \<longrightarrow> rn_artifacts r = artifact_list (rn_id r))
     \<and> (rn_phase r = Ses_Memory \<longrightarrow> rn_evaluation r = Some 1)
     \<and> (rn_phase r = Ses_Completed \<longrightarrow> rn_summary r = Some (rn_task r))
     \<and> (rn_phase r = Ses_Timeout \<longrightarrow> rn_retries r = m \<and> rn_error r \<noteq> None)
     \<and> rn_retries r \<le> m
     \<and> rn_phase r \<noteq> Ses_Reputation \<and> rn_phase r \<noteq> Ses_Failed \<and> rn_phase r \<noteq> Ses_Error"

definition sessions_ok :: "nat \<Rightarrow> session_market \<Rightarrow> bool" where
  "sessions_ok m s \<longleftrightarrow> distinct (map rn_id (sm_sessions s)) \<and> (\<forall>r \<in> set (sm_sessions s). session_ok m r)"

datatype session_event =
    Se_Create ident ident ident ident millis millis millis
  | Se_Plan ident ident ident millis millis millis
  | Se_Execute ident ident ident millis millis millis
  | Se_Evaluate ident ident ident millis millis millis
  | Se_Finish ident ident ident millis
  | Se_Recover millis "nat option" millis millis
  | Se_Market ident persona_event

fun session_step :: "(nat \<Rightarrow> ident) \<Rightarrow> nat \<Rightarrow> session_market \<Rightarrow> session_event \<Rightarrow> session_market" where
  "session_step gen m s (Se_Create tn user p task ms db now) = fst (create_session gen tn user p task ms db now s)"
| "session_step gen m s (Se_Plan tn user i ms db now) = fst (plan_session tn user i ms db now s)"
| "session_step gen m s (Se_Execute tn user i ms db now) = fst (execute_session tn user i ms db now s)"
| "session_step gen m s (Se_Evaluate tn user i ms db now) = fst (evaluate_session tn user i ms db now s)"
| "session_step gen m s (Se_Finish tn user i now) = fst (finish_session tn user i now s)"
| "session_step gen m s (Se_Recover ms l db now) = fst (recover_sessions m ms l db now s)"
| "session_step gen m s (Se_Market tn e) = s\<lparr>sm_market := persona_step gen tn (sm_market s) e\<rparr>"

lemma get_session_D:
  assumes "get_session tn user i s = Some r"
  shows "r \<in> set (sm_sessions s)" and "session_at tn i r"
  using assms by (auto simp: get_session_def session_by_id_def split: option.splits if_splits dest: select_one_SomeD)

lemma update_session_ok:
  assumes ok: "sessions_ok m s" and r: "get_session tn user i s = Some r" "session_ok m (f r)"
    and f: "\<And>x. rn_id (f x) = rn_id x"
  shows "sessions_ok m (s\<lparr>sm_sessions := fst (update_where (session_at tn i) f (sm_sessions s))\<rparr>)"
proof -
  note d = get_session_D [OF r(1)]
  have u: "distinct (map rn_id (sm_sessions s))" using ok by (simp add: sessions_ok_def)
  have "x = r" if "x \<in> set (sm_sessions s)" "session_at tn i x" for x
    by (rule session_unique [OF u that(1) d(1)]) (use that(2) d(2) in \<open>simp add: session_at_def\<close>)
  then have "\<forall>x \<in> set (sm_sessions s). (session_at tn i x \<longrightarrow> session_ok m (f x)) \<and> (\<not> session_at tn i x \<longrightarrow> session_ok m x)"
    using ok r(2) by (auto simp: sessions_ok_def)
  moreover have "map rn_id (fst (update_where (session_at tn i) f (sm_sessions s))) = map rn_id (sm_sessions s)"
    by (simp add: update_where_fst map_if_column f del: map_map)
  ultimately show ?thesis using u by (simp add: sessions_ok_def)
qed

lemmas phase_simps = is_terminal_phase_def terminal_phases_def active_phases_def

lemma sessions_ok_market [simp]: "sessions_ok m (s\<lparr>sm_market := x\<rparr>) = sessions_ok m s"
  by (simp add: sessions_ok_def)

lemma sessions_ok_update:
  "sessions_ok m (s\<lparr>sm_sessions := xs\<rparr>) \<longleftrightarrow> distinct (map rn_id xs) \<and> (\<forall>x \<in> set xs. session_ok m x)"
  by (simp add: sessions_ok_def)

lemma session_cmd_create_ok:
  assumes "sessions_ok m s" and c: "session_cmd_create i tn p task a ms db now (sm_sessions s) = Some ss"
  shows "sessions_ok m (s\<lparr>sm_sessions := ss\<rparr>)"
proof -
  obtain r where ss: "ss = sm_sessions s @ [r]" and r: "rn_id r = i" "session_ok m r"
    and n: "\<forall>q \<in> set (sm_sessions s). rn_id q \<noteq> i"
    using c by (auto simp: session_cmd_create_def session_ok_def phase_simps list_ex_iff split: if_splits)
  have "i \<notin> rn_id ` set (sm_sessions s)" using n by blast
  then show ?thesis using assms(1) r unfolding sessions_ok_update ss by (simp add: sessions_ok_def)
qed

lemma create_session_ok:
  assumes "sessions_ok m s"
  shows "sessions_ok m (fst (create_session gen tn user p task ms db now s))"
proof (cases "create_check tn user p task s")
  case None
  with assms show ?thesis by (simp add: create_session_def)
next
  case (Some a)
  show ?thesis
  proof (cases "session_cmd_create (fresh gen (sm_market s)) tn p task (Some (wa_id a)) ms db now (sm_sessions s)")
    case None
    with Some assms show ?thesis by (simp add: create_session_def Let_def)
  next
    case (Some ss)
    then have "sessions_ok m (s\<lparr>sm_sessions := ss\<rparr>)"
      by (rule session_cmd_create_ok [OF assms])
    moreover have "fst (create_session gen tn user p task ms db now s)
        = s\<lparr>sm_sessions := ss, sm_market := market_cmd_link_session tn (wa_id a) (fresh gen (sm_market s))
              (drawn_gov (sm_market s))\<rparr>"
      using Some \<open>create_check tn user p task s = Some a\<close> by (simp add: create_session_def Let_def)
    ultimately show ?thesis by (simp add: sessions_ok_def)
  qed
qed

lemma session_of_ok: "sessions_ok m s \<Longrightarrow> get_session tn user i s = Some r \<Longrightarrow> session_ok m r"
  using get_session_D(1) by (auto simp: sessions_ok_def)

lemma plan_session_ok:
  assumes ok: "sessions_ok m s"
  shows "sessions_ok m (fst (plan_session tn user i ms db now s))"
proof (cases "plan_check tn user i s")
  case None
  with ok show ?thesis by (simp add: plan_session_def)
next
  case (Some steps)
  then obtain r where r: "get_session tn user i s = Some r" "\<not> is_terminal_phase (rn_phase r)"
    by (auto simp: plan_check_def split: option.splits if_splits)
  let ?f = "\<lambda>r. r\<lparr>rn_phase := Ses_Execute, rn_plan := Some steps, rn_updated_at := now, rn_timeout := Some (db + ms)\<rparr>"
  have "session_ok m (?f r)" using session_of_ok [OF ok r(1)] r(2) by (auto simp: session_ok_def phase_simps)
  from update_session_ok [where f = ?f, OF ok r(1) this] Some show ?thesis
    by (simp add: plan_session_def plan_commit_def session_cmd_plan_def Let_def)
qed

lemma execute_session_ok:
  assumes ok: "sessions_ok m s"
  shows "sessions_ok m (fst (execute_session tn user i ms db now s))"
proof (cases "execute_check tn user i s")
  case None
  with ok show ?thesis by (simp add: execute_session_def)
next
  case (Some r)
  then have r: "get_session tn user i s = Some r" "rn_phase r = Ses_Plan \<or> rn_phase r = Ses_Execute"
    by (auto simp: execute_check_def split: option.splits if_splits)
  have i: "rn_id r = i" using get_session_D(2) [OF r(1)] by (simp add: session_at_def)
  let ?f = "\<lambda>r. r\<lparr>rn_phase := Ses_Evaluate, rn_artifacts := artifact_list i, rn_updated_at := now,
      rn_timeout := Some (db + ms)\<rparr>"
  have "session_ok m (?f r)" using session_of_ok [OF ok r(1)] r(2) i by (auto simp: session_ok_def phase_simps)
  from update_session_ok [where f = ?f, OF ok r(1) this] Some i show ?thesis
    by (simp add: execute_session_def execute_commit_def session_cmd_execute_def Let_def)
qed

lemma evaluate_session_ok:
  assumes ok: "sessions_ok m s"
  shows "sessions_ok m (fst (evaluate_session tn user i ms db now s))"
proof (cases "evaluate_check tn user i s")
  case None
  with ok show ?thesis by (simp add: evaluate_session_def)
next
  case (Some n)
  then obtain r where r: "get_session tn user i s = Some r" "rn_phase r = Ses_Evaluate" "n = length (rn_artifacts r)"
    by (auto simp: evaluate_check_def split: option.splits if_splits)
  let ?f = "\<lambda>r. r\<lparr>rn_phase := Ses_Memory, rn_evaluation := Some n, rn_updated_at := now, rn_timeout := Some (db + ms)\<rparr>"
  have "session_ok m (?f r)"
    using session_of_ok [OF ok r(1)] r(2,3) by (auto simp: session_ok_def phase_simps artifact_list_def)
  from update_session_ok [where f = ?f, OF ok r(1) this] Some show ?thesis
    by (simp add: evaluate_session_def evaluate_commit_def session_cmd_evaluate_def Let_def)
qed

lemma finish_session_ok:
  assumes ok: "sessions_ok m s"
  shows "sessions_ok m (fst (finish_session tn user i now s))"
proof (cases "finish_check tn user i s")
  case None
  with ok show ?thesis by (simp add: finish_session_def)
next
  case (Some task)
  then obtain r where r: "get_session tn user i s = Some r" "rn_phase r \<in> {Ses_Evaluate, Ses_Memory, Ses_Reputation}"
    "task = rn_task r"
    by (auto simp: finish_check_def market_at_def split: option.splits if_splits dest!: get_market_task_D)
  let ?f = "\<lambda>r. r\<lparr>rn_phase := Ses_Completed, rn_summary := Some task, rn_updated_at := now,
      rn_completed_at := Some now, rn_timeout := None\<rparr>"
  have "session_ok m (?f r)" using session_of_ok [OF ok r(1)] r(2,3) by (auto simp: session_ok_def phase_simps)
  from update_session_ok [where f = ?f, OF ok r(1) this] Some show ?thesis
    by (simp add: finish_session_def finish_commit_def session_cmd_complete_def Let_def)
qed

lemma recovered_ok: "session_ok m r \<Longrightarrow> session_ok m (recovered m ms db now r)"
  by (auto simp: session_ok_def recovered_def Let_def phase_simps should_retry_def)

lemma recover_sessions_ok:
  assumes ok: "sessions_ok m s"
  shows "sessions_ok m (fst (recover_sessions m ms l db now s))"
proof -
  have u: "distinct (map rn_id (sm_sessions s))" using ok by (simp add: sessions_ok_def)
  let ?g = "\<lambda>x. if x \<in> set (timed_out_sessions (or_default l 100) db (sm_sessions s)) then recovered m ms db now x else x"
  have "map rn_id (map ?g (sm_sessions s)) = map rn_id (sm_sessions s)" by simp
  then have "distinct (map rn_id (map ?g (sm_sessions s)))" using u by (rule ssubst)
  moreover have "\<forall>x \<in> set (sm_sessions s). session_ok m (?g x)"
    using ok by (simp add: sessions_ok_def recovered_ok)
  ultimately show ?thesis unfolding recover_sessions_map [OF u] sessions_ok_update set_map by blast
qed

lemma session_step_ok: "sessions_ok m s \<Longrightarrow> sessions_ok m (session_step gen m s e)"
  by (cases e)
    (simp_all add: create_session_ok plan_session_ok execute_session_ok evaluate_session_ok finish_session_ok
      recover_sessions_ok)

interpretation session_machine: invariant_machine "session_step gen m" "sessions_ok m" for gen m
  by unfold_locales (rule session_step_ok)


definition no_sessions :: session_market where
  "no_sessions = \<lparr> sm_market = wage_market [wage_person ''p'' ''own'' Per_Active], sm_sessions = [] \<rparr>"

definition session_opened :: "session_event list" where
  "session_opened =
     [Se_Market ''t'' (Pe_Wallet ''w'' ''p'' ''addr'' 1),
      Se_Market ''t'' (Pe_Publish ''pub'' ''title'' '''' None 10 None 2),
      Se_Market ''t'' (Pe_Take ''p'' None ''x'' 3), Se_Create ''t'' ''own'' ''p'' ''x'' 60 0 4]"

definition session_finished :: "session_event list" where
  "session_finished =
     [Se_Plan ''t'' ''own'' ''xxx'' 60 5 5, Se_Recover 60 None 100 100,
      Se_Execute ''t'' ''own'' ''xxx'' 60 110 110, Se_Evaluate ''t'' ''own'' ''xxx'' 60 120 120,
      Se_Finish ''t'' ''own'' ''xxx'' 130]"


subsection \<open>A session that nobody drives ends\<close>

lemma recover_sessions_ids:
  assumes "distinct (map rn_id (sm_sessions s))"
  shows "map rn_id (sm_sessions (fst (recover_sessions m ms l db now s))) = map rn_id (sm_sessions s)"
    and "length (sm_sessions (fst (recover_sessions m ms l db now s))) = length (sm_sessions s)"
  unfolding recover_sessions_map [OF assms] by simp_all

lemma ended_session_kept:
  assumes d: "distinct (map rn_id (sm_sessions s))" and r: "r \<in> set (sm_sessions s)" "rn_completed_at r \<noteq> None"
  shows "r \<in> set (sm_sessions (fst (recover_sessions m ms l db now s)))"
proof -
  have "\<not> is_overdue db r" using r(2) by (simp add: is_overdue_def)
  then have "r \<notin> set (timed_out_sessions (or_default l 100) db (sm_sessions s))"
    using timed_out_rows(3) [OF d] by blast
  with r(1) show ?thesis unfolding recover_sessions_map [OF d] by force
qed

lemma overdue_session_recovered:
  assumes d: "distinct (map rn_id (sm_sessions s))" and r: "r \<in> set (sm_sessions s)" "is_overdue db r"
    and c: "length (sm_sessions s) \<le> or_default l 100"
  shows "recovered m ms db now r \<in> set (sm_sessions (fst (recover_sessions m ms l db now s)))"
proof -
  have "r \<in> set (timed_out_sessions (or_default l 100) db (sm_sessions s))"
    using timed_out_rows(4) [OF d c] r by blast
  with r(1) show ?thesis unfolding recover_sessions_map [OF d] by force
qed

text \<open>Passes of the recovery, each with the clocks of the database and of the process.\<close>

definition sweeps :: "nat \<Rightarrow> millis \<Rightarrow> nat option \<Rightarrow> (millis \<times> millis) list \<Rightarrow> session_market \<Rightarrow> session_market" where
  "sweeps m ms l ts s = foldl (\<lambda>s (db, now). fst (recover_sessions m ms l db now s)) s ts"

fun spaced :: "millis \<Rightarrow> millis \<Rightarrow> (millis \<times> millis) list \<Rightarrow> bool" where
  "spaced ms t [] = True"
| "spaced ms t ((db, now) # ts) = (t \<le> db \<and> spaced ms (db + ms) ts)"

lemma sweeps_simps [simp]:
  "sweeps m ms l [] s = s"
  "sweeps m ms l ((db, now) # ts) s = sweeps m ms l ts (fst (recover_sessions m ms l db now s))"
  by (simp_all add: sweeps_def)

lemma sweeps_keep_ended:
  "distinct (map rn_id (sm_sessions s)) \<Longrightarrow> r \<in> set (sm_sessions s) \<Longrightarrow> rn_completed_at r \<noteq> None \<Longrightarrow>
   r \<in> set (sm_sessions (sweeps m ms l ts s)) \<and> distinct (map rn_id (sm_sessions (sweeps m ms l ts s)))"
proof (induction ts arbitrary: s)
  case (Cons t ts)
  obtain db now where "t = (db, now)" by fastforce
  with Cons show ?case
    using ended_session_kept [OF Cons.prems] recover_sessions_ids(1) [OF Cons.prems(1)] by simp
qed simp


definition opened :: session_market where
  "opened = foldl (session_step wage_gen 2) no_sessions session_opened"


subsection \<open>A session that comes back\<close>

text \<open>
  the update that stores a plan does not ask for the phase that its check saw. When the recovery times
  the session out in between, the plan brings it back: it is executing, and completed at the same time;
  no later pass of the recovery will ever end it, since it looks only at sessions without a completion.
\<close>

theorem planned_after_timeout_never_ends:
  assumes d: "distinct (map rn_id (sm_sessions s))" and check: "plan_check tn user i s = Some steps"
    and r: "session_by_id tn s i = Some r" and late: "is_overdue db r" and last: "rn_retries r = m"
    and cap: "length (sm_sessions s) \<le> or_default l 100"
    and s1: "s1 = fst (recover_sessions m ms l db now s)" and s2: "s2 = plan_commit tn i steps ms db2 now2 s1"
  shows "(\<exists>q \<in> set (sm_sessions s1). session_at tn i q \<and> rn_phase q = Ses_Timeout)
    \<and> (\<exists>q \<in> set (sm_sessions s2). session_at tn i q \<and> rn_phase q = Ses_Execute \<and> rn_completed_at q = Some now
         \<and> (\<forall>l' ts. q \<in> set (sm_sessions (sweeps m ms l' ts s2))))"
proof -
  have ri: "r \<in> set (sm_sessions s)" "session_at tn i r"
    using r by (auto simp: session_by_id_def dest: select_one_SomeD)
  have "\<not> is_terminal_phase (rn_phase r)"
    using check r by (auto simp: plan_check_def get_session_def split: option.splits if_splits)
  then have act: "rn_phase r \<in> set active_phases" by (cases "rn_phase r") (simp_all add: phase_simps)
  let ?r = "recovered m ms db now r"
  let ?q = "?r\<lparr>rn_phase := Ses_Execute, rn_plan := Some steps, rn_updated_at := now2, rn_timeout := Some (db2 + ms)\<rparr>"
  have r1: "?r \<in> set (sm_sessions s1)" unfolding s1 by (rule overdue_session_recovered [OF d ri(1) late cap])
  have f: "rn_phase ?r = Ses_Timeout" "rn_completed_at ?r = Some now"
    using act last by (simp_all add: recovered_def should_retry_def Let_def)
  have at: "session_at tn i ?r" using ri(2) by (simp add: session_at_def)
  have q: "?q \<in> set (sm_sessions s2)"
    using r1 at by (force simp: s2 plan_commit_def session_cmd_plan_def update_where_fst)
  have "map rn_id (sm_sessions s2) = map rn_id (sm_sessions s1)"
    by (simp add: s2 plan_commit_def session_cmd_plan_def update_where_fst map_if_column del: map_map)
  then have d2: "distinct (map rn_id (sm_sessions s2))" using recover_sessions_ids(1) [OF d] d by (simp add: s1)
  have "rn_completed_at ?q \<noteq> None" using f(2) by simp
  then have "\<forall>l' ts. ?q \<in> set (sm_sessions (sweeps m ms l' ts s2))"
    using sweeps_keep_ended [OF d2 q] by blast
  moreover have "session_at tn i ?q" using at by (simp add: session_at_def)
  ultimately show ?thesis using r1 at f q by (intro conjI bexI [of _ ?r] bexI [of _ ?q]) simp_all
qed

theorem planned_after_timeout_never_ends_witness:
  "let s1 = fst (recover_sessions 0 60 None 70 70 opened); s2 = plan_commit ''t'' ''xxx'' [''step''] 60 71 71 s1 in
   \<exists>q \<in> set (sm_sessions s2). rn_phase q = Ses_Execute \<and> rn_completed_at q = Some 70"
proof -
  let ?r = "hd (sm_sessions opened)" and ?steps = "the (plan_check ''t'' ''own'' ''xxx'' opened)"
  have d: "distinct (map rn_id (sm_sessions opened))" by code_simp
  have c: "plan_check ''t'' ''own'' ''xxx'' opened = Some ?steps" by code_simp
  have r: "session_by_id ''t'' opened ''xxx'' = Some ?r" "is_overdue 70 ?r" "rn_retries ?r = 0"
    "length (sm_sessions opened) \<le> or_default None 100" by code_simp+
  have "\<exists>q \<in> set (sm_sessions (plan_commit ''t'' ''xxx'' ?steps 60 71 71 (fst (recover_sessions 0 60 None 70 70 opened)))).
      rn_phase q = Ses_Execute \<and> rn_completed_at q = Some 70"
    using planned_after_timeout_never_ends [OF d c r refl refl, of 60 70 71 71] by blast
  then show ?thesis unfolding Let_def by (auto simp: plan_commit_def session_cmd_plan_def)
qed

end
