(* ===== verification/Persona_Reconcile.thy ===== *)
theory Persona_Reconcile
  imports Persona_Session "HOL-Library.Multiset" "HOL-Library.List_Lexorder" "HOL-Library.Char_ord"
begin

text \<open>
  The nightly reconciliation of settlements with the ledger, \<^verbatim>\<open>SettlementReconciliationService\<close> and the
  executors it calls: what entries a settlement must have made, the comparison by counting, the repair
  inside a transaction that checks again, and the removal of entries whose settlement does not exist.
\<close>

subsection \<open>What a settlement must have posted\<close>

text \<open>
  \<^verbatim>\<open>toLedgerKey\<close> joins type, amount and currency by colons; neither a type nor a decimal number has a
  colon, so the key is the triple. The wallet of an entry is no part of it.
\<close>

type_synonym ledger_key = "purse_tx_type \<times> int \<times> string"

definition expected_ledger :: "purse_settlement \<Rightarrow> ledger_key list" where
  "expected_ledger s =
     [(Ptx_Task_Payment, signed_amount Ptx_Task_Payment (sl_total s), sl_currency s)]
     @ (if 0 < sl_platform s
        then [(Ptx_Platform_Fee, signed_amount Ptx_Platform_Fee (sl_platform s), sl_currency s)] else [])
     @ (if 0 < sl_persona s
        then [(Ptx_Persona_Reserve, signed_amount Ptx_Persona_Reserve (sl_persona s), sl_currency s)] else [])"

text \<open>A JavaScript \<^verbatim>\<open>Map\<close> from keys to counts, in the order of insertion.\<close>

fun bump :: "'k \<Rightarrow> ('k \<times> nat) list \<Rightarrow> ('k \<times> nat) list" where
  "bump k [] = [(k, 1)]"
| "bump k ((j, n) # m) = (if j = k then (j, Suc n) # m else (j, n) # bump k m)"

definition count_ledger :: "'k list \<Rightarrow> ('k \<times> nat) list" where
  "count_ledger ks = foldl (\<lambda>m k. bump k m) [] ks"

definition counts_agree :: "'k list \<Rightarrow> 'k list \<Rightarrow> bool" where
  "counts_agree actual expected \<longleftrightarrow>
     length (count_ledger actual) = length (count_ledger expected)
     \<and> list_all (\<lambda>(k, n). map_of (count_ledger actual) k = Some n) (count_ledger expected)"

definition ledger_consistent :: "purse_tx list \<Rightarrow> purse_settlement \<Rightarrow> bool" where
  "ledger_consistent ts s \<longleftrightarrow>
     length ts = length (expected_ledger s) \<and> counts_agree (map entry_key ts) (expected_ledger s)"

subsection \<open>Queries and commands\<close>

definition settlements_of :: "ident \<Rightarrow> purse_bank \<Rightarrow> purse_settlement list" where
  "settlements_of tn bk = sort_key sl_created_at (filter (\<lambda>s. sl_tenant s = tn) (bk_settlements bk))"

definition settlement_entry :: "ident \<Rightarrow> ident \<Rightarrow> purse_tx \<Rightarrow> bool" where
  "settlement_entry tn i t \<longleftrightarrow>
     pt_tenant t = tn \<and> pt_ref_type t = Some ''wallet_settlement'' \<and> pt_ref t = Some i"

text \<open>The second sort column, the id, is not observed: the entries are only counted.\<close>

definition settlement_txs :: "ident \<Rightarrow> ident \<Rightarrow> purse_bank \<Rightarrow> purse_tx list" where
  "settlement_txs tn i bk = sort_key pt_created_at (filter (settlement_entry tn i) (bk_txs bk))"

definition tenants_with_settlements :: "nat \<Rightarrow> purse_bank \<Rightarrow> ident list" where
  "tenants_with_settlements limit bk =
     take limit (sort (remdups (map sl_tenant (bk_settlements bk)
       @ map pt_tenant (filter (\<lambda>t. pt_ref_type t = Some ''wallet_settlement'') (bk_txs bk)))))"

definition settle_cmd_delete_txs :: "ident \<Rightarrow> ident \<Rightarrow> purse_bank \<Rightarrow> purse_bank \<times> nat" where
  "settle_cmd_delete_txs tn i bk =
     (let (ts, n) = delete_where (settlement_entry tn i) (bk_txs bk) in (bk\<lparr>bk_txs := ts\<rparr>, n))"

definition settle_cmd_insert_tx ::
  "ident \<Rightarrow> ident \<Rightarrow> ident \<Rightarrow> ledger_key \<Rightarrow> ident \<Rightarrow> millis \<Rightarrow> purse_bank \<Rightarrow> purse_bank option" where
  "settle_cmd_insert_tx i tn w e ref now bk =
     (case e of (k, n, cur) \<Rightarrow>
        purse_cmd_insert_tx \<lparr> pt_id = i, pt_tenant = tn, pt_wallet = w, pt_type = k, pt_amount = n,
          pt_currency = cur, pt_ref_type = Some ''wallet_settlement'', pt_ref = Some ref,
          pt_created_at = now \<rparr> bk)"

text \<open>
  \<^verbatim>\<open>reference_id NOT IN (SELECT ...)\<close>: for a \<^verbatim>\<open>NULL\<close> reference the condition is unknown, and so the row
  stays, unless the tenant has no settlement at all.
\<close>

definition orphan_entry :: "ident \<Rightarrow> purse_bank \<Rightarrow> purse_tx \<Rightarrow> bool" where
  "orphan_entry tn bk t \<longleftrightarrow>
     pt_tenant t = tn \<and> pt_ref_type t = Some ''wallet_settlement''
     \<and> (case pt_ref t of
          None \<Rightarrow> \<not> list_ex (\<lambda>s. sl_tenant s = tn) (bk_settlements bk)
        | Some i \<Rightarrow> \<not> list_ex (\<lambda>s. sl_tenant s = tn \<and> sl_id s = i) (bk_settlements bk))"

definition settle_cmd_delete_orphans :: "ident \<Rightarrow> purse_bank \<Rightarrow> purse_bank \<times> nat" where
  "settle_cmd_delete_orphans tn bk =
     (let (ts, n) = delete_where (orphan_entry tn bk) (bk_txs bk) in (bk\<lparr>bk_txs := ts\<rparr>, n))"

record recon_run =
  rr_id :: ident
  rr_tenant :: ident
  rr_checked :: nat
  rr_mismatched :: nat
  rr_repaired :: nat
  rr_deleted :: nat
  rr_inserted :: nat
  rr_orphans :: nat
  rr_ids :: "ident list"
  rr_created_at :: millis

record recon_state =
  rc_bank :: purse_bank
  rc_runs :: "recon_run list"

definition settle_cmd_insert_run :: "recon_run \<Rightarrow> recon_state \<Rightarrow> recon_state option" where
  "settle_cmd_insert_run r st =
     (if list_ex (\<lambda>q. rr_id q = rr_id r) (rc_runs st) then None else Some (st\<lparr>rc_runs := rc_runs st @ [r]\<rparr>))"

subsection \<open>Reconciling\<close>

fun insert_expected ::
  "(nat \<Rightarrow> ident) \<Rightarrow> ident \<Rightarrow> purse_settlement \<Rightarrow> millis \<Rightarrow> ledger_key list \<Rightarrow> purse_bank
     \<Rightarrow> purse_bank \<times> purse_error option" where
  "insert_expected gen tn s now [] bk = (bk, None)"
| "insert_expected gen tn s now (e # es) bk =
     (case settle_cmd_insert_tx (new_id gen bk) tn (sl_wallet s) e (sl_id s) now (drawn bk) of
        None \<Rightarrow> (drawn bk, Some Purse_Constraint)
      | Some bk' \<Rightarrow> insert_expected gen tn s now es bk')"

text \<open>
  The transaction of one repair. \<^verbatim>\<open>None\<close>: the second check found nothing to do. Otherwise the numbers of
  deleted and inserted entries. The lock that comes first serialises such transactions and changes nothing.
\<close>

definition reconcile_repair ::
  "(nat \<Rightarrow> ident) \<Rightarrow> ident \<Rightarrow> purse_settlement \<Rightarrow> millis \<Rightarrow> purse_bank
     \<Rightarrow> purse_bank \<times> (purse_error + (nat \<times> nat) option)" where
  "reconcile_repair gen tn s now bk =
     (if ledger_consistent (settlement_txs tn (sl_id s) bk) s then (bk, Inr None)
      else
        let (bk1, deleted) = settle_cmd_delete_txs tn (sl_id s) bk in
        (case insert_expected gen tn s now (expected_ledger s) bk1 of
           (bk2, Some e) \<Rightarrow> (undo_bank bk bk2, Inl e)
         | (bk2, None) \<Rightarrow> (bk2, Inr (Some (deleted, length (expected_ledger s))))))"

record recon_tally =
  ta_mismatched :: nat
  ta_repaired :: nat
  ta_deleted :: nat
  ta_inserted :: nat
  ta_ids :: "ident list"

definition no_tally :: recon_tally where
  "no_tally = \<lparr> ta_mismatched = 0, ta_repaired = 0, ta_deleted = 0, ta_inserted = 0, ta_ids = [] \<rparr>"

definition tally_mismatch :: "ident \<Rightarrow> recon_tally \<Rightarrow> recon_tally" where
  "tally_mismatch i a = a\<lparr>ta_mismatched := Suc (ta_mismatched a), ta_ids := ta_ids a @ [i]\<rparr>"

definition tally_repair :: "nat \<Rightarrow> nat \<Rightarrow> recon_tally \<Rightarrow> recon_tally" where
  "tally_repair d n a = a\<lparr>ta_repaired := Suc (ta_repaired a), ta_deleted := ta_deleted a + d,
     ta_inserted := ta_inserted a + n\<rparr>"

text \<open>
  Between the check of a settlement and its repair other transactions may commit; \<open>between s\<close> is what
  they do to the bank.
\<close>

fun reconcile_all ::
  "(nat \<Rightarrow> ident) \<Rightarrow> ident \<Rightarrow> (purse_settlement \<Rightarrow> purse_bank \<Rightarrow> purse_bank) \<Rightarrow> millis
     \<Rightarrow> purse_settlement list \<Rightarrow> purse_bank \<Rightarrow> recon_tally \<Rightarrow> purse_bank \<times> (purse_error + recon_tally)" where
  "reconcile_all gen tn between now [] bk a = (bk, Inr a)"
| "reconcile_all gen tn between now (s # ss) bk a =
     (if ledger_consistent (settlement_txs tn (sl_id s) bk) s then reconcile_all gen tn between now ss bk a
      else
        (case reconcile_repair gen tn s now (between s bk) of
           (bk', Inl e) \<Rightarrow> (bk', Inl e)
         | (bk', Inr None) \<Rightarrow> reconcile_all gen tn between now ss bk' (tally_mismatch (sl_id s) a)
         | (bk', Inr (Some (d, n))) \<Rightarrow>
             reconcile_all gen tn between now ss bk' (tally_repair d n (tally_mismatch (sl_id s) a))))"

definition reconcile_tenant_books ::
  "(nat \<Rightarrow> ident) \<Rightarrow> ident \<Rightarrow> (purse_settlement \<Rightarrow> purse_bank \<Rightarrow> purse_bank) \<Rightarrow> millis \<Rightarrow> recon_state
     \<Rightarrow> recon_state \<times> (purse_error + recon_run)" where
  "reconcile_tenant_books gen tn between now st =
     (let ss = settlements_of tn (rc_bank st) in
      case reconcile_all gen tn between now ss (rc_bank st) no_tally of
        (bk1, Inl e) \<Rightarrow> (st\<lparr>rc_bank := bk1\<rparr>, Inl e)
      | (bk1, Inr a) \<Rightarrow>
          let (bk2, orphans) = settle_cmd_delete_orphans tn bk1;
              run = \<lparr> rr_id = new_id gen bk2, rr_tenant = tn, rr_checked = length ss,
                rr_mismatched = ta_mismatched a, rr_repaired = ta_repaired a, rr_deleted = ta_deleted a,
                rr_inserted = ta_inserted a, rr_orphans = orphans, rr_ids = ta_ids a, rr_created_at = now \<rparr> in
          (case settle_cmd_insert_run run (st\<lparr>rc_bank := drawn bk2\<rparr>) of
             None \<Rightarrow> (st\<lparr>rc_bank := drawn bk2\<rparr>, Inl Purse_Constraint)
           | Some st' \<Rightarrow> (st', Inr run)))"

fun reconcile_each ::
  "(nat \<Rightarrow> ident) \<Rightarrow> (purse_settlement \<Rightarrow> purse_bank \<Rightarrow> purse_bank) \<Rightarrow> millis \<Rightarrow> ident list \<Rightarrow> recon_state
     \<Rightarrow> recon_state \<times> (purse_error + recon_run list)" where
  "reconcile_each gen between now [] st = (st, Inr [])"
| "reconcile_each gen between now (tn # tns) st =
     (case reconcile_tenant_books gen tn between now st of
        (st', Inl e) \<Rightarrow> (st', Inl e)
      | (st', Inr r) \<Rightarrow>
          (case reconcile_each gen between now tns st' of
             (st'', Inl e) \<Rightarrow> (st'', Inl e)
           | (st'', Inr rs) \<Rightarrow> (st'', Inr (r # rs))))"

definition reconcile_tenants ::
  "(nat \<Rightarrow> ident) \<Rightarrow> (purse_settlement \<Rightarrow> purse_bank \<Rightarrow> purse_bank) \<Rightarrow> nat \<Rightarrow> millis \<Rightarrow> recon_state
     \<Rightarrow> recon_state \<times> (purse_error + recon_run list)" where
  "reconcile_tenants gen between limit now st =
     reconcile_each gen between now (tenants_with_settlements limit (rc_bank st)) st"

definition list_recon_runs :: "ident \<Rightarrow> nat \<Rightarrow> recon_state \<Rightarrow> recon_run list" where
  "list_recon_runs tn limit st =
     take limit (sort_key (\<lambda>r. - rr_created_at r) (filter (\<lambda>r. rr_tenant r = tn) (rc_runs st)))"

subsection \<open>Comparing by counting\<close>

lemma map_of_bump: "map_of (bump k m) j
    = (if j = k then Some (case map_of m k of None \<Rightarrow> 1 | Some n \<Rightarrow> Suc n) else map_of m j)"
  by (induction k m rule: bump.induct) auto

lemma bump_keys: "fst ` set (bump k m) = insert k (fst ` set m)"
  by (induction k m rule: bump.induct) auto

lemma bump_distinct: "distinct (map fst m) \<Longrightarrow> distinct (map fst (bump k m))"
  by (induction k m rule: bump.induct) (auto simp: bump_keys)

lemma count_ledger_snoc: "count_ledger (ks @ [k]) = bump k (count_ledger ks)"
  by (simp add: count_ledger_def)

lemma count_ledger_distinct: "distinct (map fst (count_ledger ks))"
  by (induction ks rule: rev_induct) (simp_all add: count_ledger_def bump_distinct)

lemma count_ledger_keys: "fst ` set (count_ledger ks) = set ks"
  by (induction ks rule: rev_induct) (simp_all add: count_ledger_snoc bump_keys, simp add: count_ledger_def)

lemma map_of_count_ledger:
  "map_of (count_ledger ks) k = (if k \<in> set ks then Some (count (mset ks) k) else None)"
proof (induction ks rule: rev_induct)
  case Nil
  then show ?case by (simp add: count_ledger_def)
next
  case (snoc j ks)
  then show ?case by (auto simp: count_ledger_snoc map_of_bump not_in_iff)
qed

lemma count_ledger_length: "length (count_ledger ks) = card (set ks)"
  using distinct_card [OF count_ledger_distinct [of ks]] by (simp add: count_ledger_keys)

lemma counts_agree_iff: "counts_agree actual expected \<longleftrightarrow> mset actual = mset expected"
proof
  assume a: "counts_agree actual expected"
  have c: "k \<in> set actual \<and> count (mset actual) k = count (mset expected) k" if "k \<in> set expected" for k
  proof -
    have "(k, count (mset expected) k) \<in> set (count_ledger expected)"
      using that by (intro map_of_SomeD) (simp add: map_of_count_ledger)
    then have "map_of (count_ledger actual) k = Some (count (mset expected) k)"
      using a by (auto simp: counts_agree_def list_all_iff)
    then show ?thesis by (simp add: map_of_count_ledger split: if_splits)
  qed
  have "card (set actual) = card (set expected)" using a by (simp add: counts_agree_def count_ledger_length)
  then have "set expected = set actual" using c by (intro card_subset_eq) auto
  then show "mset actual = mset expected" using c by (intro multiset_eqI) (metis count_mset_0_iff)
next
  assume a: "mset actual = mset expected"
  then have "count_ledger actual = count_ledger actual \<and> set actual = set expected" using mset_eq_setD by auto
  then show "counts_agree actual expected" unfolding counts_agree_def count_ledger_length
    using count_ledger_distinct [of expected] a
    by (auto simp: list_all_iff map_of_count_ledger dest!: map_of_is_SomeI split: if_splits)
qed

lemma ledger_consistent_mset: "ledger_consistent ts s \<longleftrightarrow> mset (map entry_key ts) = mset (expected_ledger s)"
proof -
  have "length ts = length (expected_ledger s)" if "mset (map entry_key ts) = mset (expected_ledger s)"
    using mset_eq_length [OF that] by simp
  then show ?thesis unfolding ledger_consistent_def counts_agree_iff by blast
qed

text \<open>
  the comparison of the reconciliation accepts exactly the ledgers that hold, in any order, the entries
  that the settlement must have made; and the comparison of the lengths that precedes it decides nothing.
\<close>

theorem reconciliation_compares_multisets:
  "(ledger_consistent ts s \<longleftrightarrow> mset (map entry_key ts) = mset (expected_ledger s))
   \<and> (ledger_consistent ts s \<longleftrightarrow> counts_agree (map entry_key ts) (expected_ledger s))"
  unfolding counts_agree_iff by (simp add: ledger_consistent_mset)

subsection \<open>One repair\<close>

lemma settle_cmd_insert_tx_Some:
  assumes "settle_cmd_insert_tx i tn w e ref now bk = Some bk'"
  obtains t where "bk' = bk\<lparr>bk_txs := bk_txs bk @ [t]\<rparr>" and "entry_key t = e" and "settlement_entry tn ref t"
    and "pt_wallet t = w"
proof (cases e)
  case (fields k n c)
  let ?t = "\<lparr> pt_id = i, pt_tenant = tn, pt_wallet = w, pt_type = k, pt_amount = n, pt_currency = c,
    pt_ref_type = Some ''wallet_settlement'', pt_ref = Some ref, pt_created_at = now \<rparr>"
  have "bk' = bk\<lparr>bk_txs := bk_txs bk @ [?t]\<rparr>"
    using assms by (simp add: fields settle_cmd_insert_tx_def purse_cmd_insert_tx_def split: if_splits)
  then show thesis by (rule that) (simp_all add: entry_key_def settlement_entry_def fields)
qed

lemma insert_expected_None:
  "insert_expected gen tn s now es bk = (bk', None) \<Longrightarrow>
   \<exists>ts k. bk' = bk\<lparr>bk_txs := bk_txs bk @ ts, bk_ids := k\<rparr> \<and> map entry_key ts = es
     \<and> (\<forall>t \<in> set ts. settlement_entry tn (sl_id s) t \<and> pt_wallet t = sl_wallet s)"
proof (induction es arbitrary: bk)
  case Nil
  then show ?case by (intro exI [of _ "[]"] exI [of _ "bk_ids bk"]) simp
next
  case (Cons e es)
  from Cons.prems obtain b where i: "settle_cmd_insert_tx (new_id gen bk) tn (sl_wallet s) e (sl_id s) now (drawn bk) = Some b"
    and r: "insert_expected gen tn s now es b = (bk', None)" by (auto split: option.splits)
  obtain t where t: "b = (drawn bk)\<lparr>bk_txs := bk_txs (drawn bk) @ [t]\<rparr>" "entry_key t = e"
    "settlement_entry tn (sl_id s) t" "pt_wallet t = sl_wallet s"
    by (rule settle_cmd_insert_tx_Some [OF i])
  from Cons.IH [OF r] obtain ts m where "bk' = b\<lparr>bk_txs := bk_txs b @ ts, bk_ids := m\<rparr>" "map entry_key ts = es"
    "\<forall>t \<in> set ts. settlement_entry tn (sl_id s) t \<and> pt_wallet t = sl_wallet s" by blast
  with t show ?case by (intro exI [of _ "t # ts"] exI [of _ m]) (simp add: drawn_def)
qed

lemma settlement_txs_keys:
  "mset (map entry_key (settlement_txs tn i bk)) = mset (map entry_key (filter (settlement_entry tn i) (bk_txs bk)))"
  by (simp add: settlement_txs_def)

lemma settlement_entry_same: "settlement_entry tn i t \<Longrightarrow> settlement_entry tn j t \<Longrightarrow> i = j"
  by (auto simp: settlement_entry_def)

text \<open>What a repair may change: the entries of the settlement, and the number of drawn identifiers.\<close>

definition apart :: "ident \<Rightarrow> ident set \<Rightarrow> (purse_tx \<Rightarrow> bool) \<Rightarrow> bool" where
  "apart tn is p \<longleftrightarrow> (\<forall>i \<in> is. \<forall>t. settlement_entry tn i t \<longrightarrow> \<not> p t)"

definition repaired_only :: "ident \<Rightarrow> ident set \<Rightarrow> purse_bank \<Rightarrow> purse_bank \<Rightarrow> bool" where
  "repaired_only tn is bk bk' \<longleftrightarrow>
     bk_wallets bk' = bk_wallets bk \<and> bk_settlements bk' = bk_settlements bk \<and> bk_payouts bk' = bk_payouts bk
     \<and> bk_personas bk' = bk_personas bk
     \<and> (\<forall>p. apart tn is p \<longrightarrow> filter p (bk_txs bk') = filter p (bk_txs bk))"

lemma apart_Un: "apart tn (is \<union> js) p \<longleftrightarrow> apart tn is p \<and> apart tn js p"
  by (auto simp: apart_def)

lemma repaired_only_refl: "repaired_only tn is bk bk"
  by (simp add: repaired_only_def)

lemma repaired_only_trans:
  "repaired_only tn is bk bk1 \<Longrightarrow> repaired_only tn js bk1 bk2 \<Longrightarrow> repaired_only tn (is \<union> js) bk bk2"
  by (simp add: repaired_only_def apart_Un)

lemma repaired_only_txs:
  assumes "repaired_only tn is bk bk'" "i \<notin> is"
  shows "settlement_txs tn i bk' = settlement_txs tn i bk"
proof -
  have "apart tn is (settlement_entry tn i)"
    unfolding apart_def using assms(2) settlement_entry_same by blast
  then have "filter (settlement_entry tn i) (bk_txs bk') = filter (settlement_entry tn i) (bk_txs bk)"
    using assms(1) by (simp add: repaired_only_def)
  then show ?thesis by (simp add: settlement_txs_def)
qed

lemma reconcile_repair_Inr:
  assumes "reconcile_repair gen tn s now bk = (bk', Inr r)"
  shows "ledger_consistent (settlement_txs tn (sl_id s) bk') s" and "repaired_only tn {sl_id s} bk bk'"
    and "r = None \<longleftrightarrow> ledger_consistent (settlement_txs tn (sl_id s) bk) s" and "r = None \<longrightarrow> bk' = bk"
proof -
  let ?i = "sl_id s"
  have "ledger_consistent (settlement_txs tn ?i bk') s \<and> repaired_only tn {?i} bk bk'
    \<and> (r = None \<longleftrightarrow> ledger_consistent (settlement_txs tn ?i bk) s) \<and> (r = None \<longrightarrow> bk' = bk)"
  proof (cases "ledger_consistent (settlement_txs tn ?i bk) s")
    case True
    with assms show ?thesis by (simp add: reconcile_repair_def repaired_only_refl)
  next
    case False
    let ?b = "bk\<lparr>bk_txs := filter (\<lambda>t. \<not> settlement_entry tn ?i t) (bk_txs bk)\<rparr>"
    from assms False have e: "insert_expected gen tn s now (expected_ledger s) ?b = (bk', None)" and r: "\<exists>d. r = Some d"
      by (auto simp: reconcile_repair_def settle_cmd_delete_txs_def delete_where_def split: prod.splits option.splits)
    from insert_expected_None [OF e] obtain ts k where ts: "bk' = ?b\<lparr>bk_txs := bk_txs ?b @ ts, bk_ids := k\<rparr>"
      "map entry_key ts = expected_ledger s" "\<forall>t \<in> set ts. settlement_entry tn ?i t" by blast
    have own: "filter (settlement_entry tn ?i) (bk_txs bk') = ts" using ts(1,3) by (simp add: filter_id_conv)
    have "ledger_consistent (settlement_txs tn ?i bk') s"
      unfolding ledger_consistent_mset settlement_txs_keys own ts(2) by (rule refl)
    moreover have "filter p (bk_txs bk') = filter p (bk_txs bk)" if "\<forall>t. settlement_entry tn ?i t \<longrightarrow> \<not> p t" for p
    proof -
      have "filter p ts = []" using ts(3) that by (simp add: filter_empty_conv)
      moreover have "filter p (filter (\<lambda>t. \<not> settlement_entry tn ?i t) (bk_txs bk)) = filter p (bk_txs bk)"
        unfolding filter_filter by (rule filter_cong [OF refl]) (use that in blast)
      ultimately show ?thesis by (simp add: ts(1))
    qed
    ultimately show ?thesis using False r ts(1) by (auto simp: repaired_only_def apart_def)
  qed
  then show "ledger_consistent (settlement_txs tn ?i bk') s" "repaired_only tn {?i} bk bk'"
    "r = None \<longleftrightarrow> ledger_consistent (settlement_txs tn ?i bk) s" "r = None \<longrightarrow> bk' = bk" by blast+
qed

text \<open>A repair finds what it needs when the identifiers that will be drawn are not in use.\<close>

definition unused :: "(nat \<Rightarrow> ident) \<Rightarrow> purse_bank \<Rightarrow> bool" where
  "unused gen bk \<longleftrightarrow> inj gen \<and> (\<forall>t \<in> set (bk_txs bk). \<forall>k \<ge> bk_ids bk. pt_id t \<noteq> gen k)"

lemma insert_expected_succeeds:
  "unused gen bk \<Longrightarrow> \<exists>bk'. insert_expected gen tn s now es bk = (bk', None) \<and> unused gen bk' \<and> bk_ids bk \<le> bk_ids bk'"
proof (induction es arbitrary: bk)
  case Nil
  then show ?case by simp
next
  case (Cons e es)
  obtain k n c where e: "e = (k, n, c)" by (cases e)
  let ?t = "\<lparr> pt_id = new_id gen bk, pt_tenant = tn, pt_wallet = sl_wallet s, pt_type = k, pt_amount = n,
    pt_currency = c, pt_ref_type = Some ''wallet_settlement'', pt_ref = Some (sl_id s), pt_created_at = now \<rparr>"
  let ?b = "bk\<lparr>bk_txs := bk_txs bk @ [?t], bk_ids := Suc (bk_ids bk)\<rparr>"
  have i: "settle_cmd_insert_tx (new_id gen bk) tn (sl_wallet s) e (sl_id s) now (drawn bk) = Some ?b"
    using Cons.prems by (auto simp: settle_cmd_insert_tx_def purse_cmd_insert_tx_def e drawn_def unused_def
        new_id_def list_ex_iff)
  have "unused gen ?b" using Cons.prems by (auto simp: unused_def new_id_def dest: injD)
  from Cons.IH [OF this] obtain bk' where "insert_expected gen tn s now es ?b = (bk', None)" "unused gen bk'"
    "bk_ids ?b \<le> bk_ids bk'" by blast
  then show ?case by (intro exI [of _ bk']) (simp add: i)
qed

lemma reconcile_repair_succeeds:
  assumes "unused gen bk"
  shows "\<exists>bk' r. reconcile_repair gen tn s now bk = (bk', Inr r) \<and> unused gen bk' \<and> bk_ids bk \<le> bk_ids bk'"
proof (cases "ledger_consistent (settlement_txs tn (sl_id s) bk) s")
  case True
  with assms show ?thesis by (simp add: reconcile_repair_def)
next
  case False
  let ?b = "bk\<lparr>bk_txs := filter (\<lambda>t. \<not> settlement_entry tn (sl_id s) t) (bk_txs bk)\<rparr>"
  have "unused gen ?b" using assms by (auto simp: unused_def)
  from insert_expected_succeeds [OF this] obtain bk' where
    "insert_expected gen tn s now (expected_ledger s) ?b = (bk', None)" "unused gen bk'" "bk_ids ?b \<le> bk_ids bk'" by blast
  with False show ?thesis
    by (intro exI [of _ bk']) (simp add: reconcile_repair_def settle_cmd_delete_txs_def delete_where_def)
qed

subsection \<open>One run\<close>

lemma reconcile_all_consistent:
  "\<forall>s \<in> set ss. ledger_consistent (settlement_txs tn (sl_id s) bk) s \<Longrightarrow>
   reconcile_all gen tn between now ss bk a = (bk, Inr a)"
  by (induction ss) simp_all

lemma tally_simps [simp]:
  "ta_mismatched (tally_mismatch i a) = Suc (ta_mismatched a)" "ta_repaired (tally_mismatch i a) = ta_repaired a"
  "ta_mismatched (tally_repair d n a) = ta_mismatched a" "ta_repaired (tally_repair d n a) = Suc (ta_repaired a)"
  by (simp_all add: tally_mismatch_def tally_repair_def)

lemma no_tally_simps [simp]:
  "ta_mismatched no_tally = 0" "ta_repaired no_tally = 0" "ta_deleted no_tally = 0"
  by (simp_all add: no_tally_def)

lemma reconcile_all_alone:
  "unused gen bk \<Longrightarrow> distinct (map sl_id ss) \<Longrightarrow>
   \<exists>bk' a'. reconcile_all gen tn (\<lambda>_ b. b) now ss bk a = (bk', Inr a') \<and> unused gen bk' \<and> bk_ids bk \<le> bk_ids bk'
     \<and> (\<forall>s \<in> set ss. ledger_consistent (settlement_txs tn (sl_id s) bk') s)
     \<and> repaired_only tn (sl_id ` set ss) bk bk'
     \<and> ta_repaired a' + ta_mismatched a = ta_mismatched a' + ta_repaired a"
proof (induction ss arbitrary: bk a)
  case Nil
  then show ?case by (simp add: repaired_only_refl)
next
  case (Cons s ss)
  obtain bk1 r where r: "reconcile_repair gen tn s now bk = (bk1, Inr r)" "unused gen bk1" "bk_ids bk \<le> bk_ids bk1"
    using reconcile_repair_succeeds [OF Cons.prems(1)] by blast
  note one = reconcile_repair_Inr [OF r(1)]
  define a1 where "a1 = (case r of None \<Rightarrow> a | Some (d, n) \<Rightarrow> tally_repair d n (tally_mismatch (sl_id s) a))"
  have eq: "reconcile_all gen tn (\<lambda>_ b. b) now (s # ss) bk a = reconcile_all gen tn (\<lambda>_ b. b) now ss bk1 a1"
    using one(3,4) r(1) by (cases r) (auto simp: a1_def)
  have a1: "ta_repaired a1 + ta_mismatched a = ta_mismatched a1 + ta_repaired a"
    by (auto simp: a1_def split: option.split)
  from Cons.IH [OF r(2), of a1] Cons.prems(2) obtain bk' a' where
    i: "reconcile_all gen tn (\<lambda>_ b. b) now ss bk1 a1 = (bk', Inr a')" "unused gen bk'" "bk_ids bk1 \<le> bk_ids bk'"
      "\<forall>s \<in> set ss. ledger_consistent (settlement_txs tn (sl_id s) bk') s"
      "repaired_only tn (sl_id ` set ss) bk1 bk'" "ta_repaired a' + ta_mismatched a1 = ta_mismatched a' + ta_repaired a1"
    by auto
  have "sl_id s \<notin> sl_id ` set ss" using Cons.prems(2) by auto
  then have "ledger_consistent (settlement_txs tn (sl_id s) bk') s"
    using one(1) repaired_only_txs [OF i(5)] by simp
  moreover have "repaired_only tn (sl_id ` set (s # ss)) bk bk'"
    using repaired_only_trans [OF one(2) i(5)] by simp
  ultimately show ?case using eq i a1 r(3) by (intro exI [of _ bk'] exI [of _ a']) auto
qed

definition tidy :: "ident \<Rightarrow> purse_bank \<Rightarrow> bool" where
  "tidy tn bk \<longleftrightarrow> (\<forall>s \<in> set (bk_settlements bk). sl_tenant s = tn
       \<longrightarrow> mset (map entry_key (filter (settlement_entry tn (sl_id s)) (bk_txs bk))) = mset (expected_ledger s))
     \<and> count_where (orphan_entry tn bk) (bk_txs bk) = 0"

definition unused_by :: "(nat \<Rightarrow> ident) \<Rightarrow> recon_state \<Rightarrow> bool" where
  "unused_by gen st \<longleftrightarrow> unused gen (rc_bank st) \<and> (\<forall>r \<in> set (rc_runs st). \<forall>k \<ge> bk_ids (rc_bank st). rr_id r \<noteq> gen k)"

lemma settlements_of_set: "set (settlements_of tn bk) = {s \<in> set (bk_settlements bk). sl_tenant s = tn}"
  by (auto simp: settlements_of_def)

lemma settlements_of_distinct:
  "distinct (map sl_id (bk_settlements bk)) \<Longrightarrow> distinct (map sl_id (settlements_of tn bk))"
  by (auto simp: settlements_of_def distinct_map intro: inj_on_subset)

lemma delete_orphans_simps:
  "settle_cmd_delete_orphans tn bk
   = (bk\<lparr>bk_txs := filter (\<lambda>t. \<not> orphan_entry tn bk t) (bk_txs bk)\<rparr>, count_where (orphan_entry tn bk) (bk_txs bk))"
  by (simp add: settle_cmd_delete_orphans_def delete_where_def count_where_def)

lemma orphan_entry_settlements:
  "bk_settlements bk' = bk_settlements bk \<Longrightarrow> orphan_entry tn bk' = orphan_entry tn bk"
  by (simp add: orphan_entry_def fun_eq_iff split: option.split)

text \<open>On a tidy bank a run changes nothing but the list of runs, whatever happens meanwhile.\<close>

lemma reconcile_tidy:
  assumes t: "tidy tn (rc_bank st)" and f: "\<forall>r \<in> set (rc_runs st). rr_id r \<noteq> gen (bk_ids (rc_bank st))"
  shows "\<exists>st' run. reconcile_tenant_books gen tn between now st = (st', Inr run)
     \<and> rr_mismatched run = 0 \<and> rr_deleted run = 0 \<and> rr_orphans run = 0 \<and> bk_txs (rc_bank st') = bk_txs (rc_bank st)"
proof -
  let ?bk = "rc_bank st"
  have c: "reconcile_all gen tn between now (settlements_of tn ?bk) ?bk no_tally = (?bk, Inr no_tally)"
    by (rule reconcile_all_consistent)
      (use t in \<open>simp add: ledger_consistent_mset settlement_txs_keys settlements_of_set tidy_def del: mset_map\<close>)
  have o': "count_where (orphan_entry tn ?bk) (bk_txs ?bk) = 0" using t by (simp add: tidy_def)
  then have same: "filter (\<lambda>t. \<not> orphan_entry tn ?bk t) (bk_txs ?bk) = bk_txs ?bk"
    by (simp add: count_where_0_iff filter_id_conv)
  have "\<not> list_ex (\<lambda>q. rr_id q = new_id gen ?bk) (rc_runs st)" using f by (auto simp: list_ex_iff new_id_def)
  then show ?thesis
    by (simp add: reconcile_tenant_books_def Let_def c delete_orphans_simps same o' settle_cmd_insert_run_def drawn_def)
qed

lemma reconcile_alone:
  assumes d: "distinct (map sl_id (bk_settlements (rc_bank st)))" and u: "unused_by gen st"
  obtains st' run where "reconcile_tenant_books gen tn (\<lambda>_ b. b) now st = (st', Inr run)"
    and "rr_repaired run = rr_mismatched run" and "tidy tn (rc_bank st')" and "unused_by gen st'"
    and "bk_wallets (rc_bank st') = bk_wallets (rc_bank st)"
    and "bk_settlements (rc_bank st') = bk_settlements (rc_bank st)"
    and "\<forall>p. (\<forall>t. p t \<longrightarrow> pt_tenant t \<noteq> tn \<or> pt_ref_type t \<noteq> Some ''wallet_settlement'')
           \<longrightarrow> filter p (bk_txs (rc_bank st')) = filter p (bk_txs (rc_bank st))"
proof -
  let ?bk = "rc_bank st" and ?ss = "settlements_of tn (rc_bank st)"
  obtain bk1 a where r: "reconcile_all gen tn (\<lambda>_ b. b) now ?ss ?bk no_tally = (bk1, Inr a)" "unused gen bk1"
    "bk_ids ?bk \<le> bk_ids bk1" "\<forall>s \<in> set ?ss. ledger_consistent (settlement_txs tn (sl_id s) bk1) s"
    "repaired_only tn (sl_id ` set ?ss) ?bk bk1"
    "ta_repaired a + ta_mismatched no_tally = ta_mismatched a + ta_repaired no_tally"
    using reconcile_all_alone [OF _ settlements_of_distinct [OF d], where gen = gen and tn = tn and now = now and a = no_tally] u
    unfolding unused_by_def by blast
  let ?b2 = "bk1\<lparr>bk_txs := filter (\<lambda>t. \<not> orphan_entry tn bk1 t) (bk_txs bk1)\<rparr>"
  let ?n = "count_where (orphan_entry tn bk1) (bk_txs bk1)"
  let ?run = "\<lparr> rr_id = new_id gen ?b2, rr_tenant = tn, rr_checked = length ?ss,
      rr_mismatched = ta_mismatched a, rr_repaired = ta_repaired a, rr_deleted = ta_deleted a,
      rr_inserted = ta_inserted a, rr_orphans = ?n, rr_ids = ta_ids a, rr_created_at = now \<rparr>"
  let ?st = "\<lparr> rc_bank = drawn ?b2, rc_runs = rc_runs st @ [?run] \<rparr>"
  have ss: "bk_settlements bk1 = bk_settlements ?bk" using r(5) by (simp add: repaired_only_def)
  have "\<not> list_ex (\<lambda>q. rr_id q = new_id gen ?b2) (rc_runs st)"
    using u r(3) by (auto simp: unused_by_def list_ex_iff new_id_def)
  then have eq: "reconcile_tenant_books gen tn (\<lambda>_ b. b) now st = (?st, Inr ?run)"
    by (simp add: reconcile_tenant_books_def Let_def r(1) delete_orphans_simps settle_cmd_insert_run_def)
  have keep: "filter (settlement_entry tn (sl_id s)) (bk_txs ?b2) = filter (settlement_entry tn (sl_id s)) (bk_txs bk1)"
    if "s \<in> set (bk_settlements ?bk)" "sl_tenant s = tn" for s
  proof -
    have "filter (settlement_entry tn (sl_id s)) (filter (\<lambda>t. \<not> orphan_entry tn bk1 t) (bk_txs bk1))
        = filter (settlement_entry tn (sl_id s)) (bk_txs bk1)"
      unfolding filter_filter
      by (rule filter_cong [OF refl]) (use that ss in \<open>auto simp: settlement_entry_def orphan_entry_def list_ex_iff\<close>)
    then show ?thesis by (simp del: filter_filter)
  qed
  have o1: "orphan_entry tn (drawn ?b2) = orphan_entry tn bk1"
    by (rule orphan_entry_settlements) (simp add: drawn_def)
  have rows: "bk_txs (drawn ?b2) = filter (\<lambda>t. \<not> orphan_entry tn bk1 t) (bk_txs bk1)"
    "bk_settlements (drawn ?b2) = bk_settlements ?bk" by (simp_all add: drawn_def ss)
  have "mset (map entry_key (filter (settlement_entry tn (sl_id s)) (bk_txs bk1))) = mset (expected_ledger s)"
    if "s \<in> set (bk_settlements ?bk)" "sl_tenant s = tn" for s
    using r(4) that unfolding ledger_consistent_mset settlement_txs_keys settlements_of_set by blast
  moreover have "count_where (orphan_entry tn bk1) (filter (\<lambda>t. \<not> orphan_entry tn bk1 t) (bk_txs bk1)) = 0"
    by (simp add: count_where_0_iff)
  ultimately have "tidy tn (rc_bank ?st)"
    using keep unfolding tidy_def by (simp add: o1 rows del: mset_map filter_filter)
  moreover have "unused_by gen ?st"
    using u r(2,3) by (auto simp: unused_by_def unused_def drawn_def new_id_def dest: injD)
  moreover have "filter p (bk_txs (rc_bank ?st)) = filter p (bk_txs ?bk)"
    if "\<forall>t. p t \<longrightarrow> pt_tenant t \<noteq> tn \<or> pt_ref_type t \<noteq> Some ''wallet_settlement''" for p
  proof -
    have "apart tn (sl_id ` set ?ss) p" using that by (auto simp: apart_def settlement_entry_def)
    then have "filter p (bk_txs bk1) = filter p (bk_txs ?bk)" using r(5) by (simp add: repaired_only_def)
    moreover have "filter p (filter (\<lambda>t. \<not> orphan_entry tn bk1 t) (bk_txs bk1)) = filter p (bk_txs bk1)"
      unfolding filter_filter by (rule filter_cong [OF refl]) (use that in \<open>auto simp: orphan_entry_def\<close>)
    ultimately show ?thesis by (simp add: drawn_def)
  qed
  ultimately show thesis using r(5,6) ss eq
    by (intro that [of ?st ?run]) (simp_all add: repaired_only_def drawn_def)
qed

text \<open>
  C27: when the identifiers it draws are not in use, a run of the reconciliation that meets no other writer
  succeeds, repairs every mismatch it counts, and leaves every settlement of the tenant with exactly its
  entries and no entry without its settlement; wallets, settlements, and the entries of other tenants and
  of other kinds are as before. Any later run, whatever happens beside it, finds and changes nothing.
\<close>

theorem reconciliation_converges:
  assumes "distinct (map sl_id (bk_settlements (rc_bank st)))" and "unused_by gen st"
  shows "\<exists>st' run. reconcile_tenant_books gen tn (\<lambda>_ b. b) now st = (st', Inr run)
    \<and> rr_repaired run = rr_mismatched run
    \<and> (\<forall>s \<in> set (bk_settlements (rc_bank st')). sl_tenant s = tn \<longrightarrow>
         mset (map entry_key (filter (settlement_entry tn (sl_id s)) (bk_txs (rc_bank st')))) = mset (expected_ledger s))
    \<and> count_where (orphan_entry tn (rc_bank st')) (bk_txs (rc_bank st')) = 0
    \<and> bk_wallets (rc_bank st') = bk_wallets (rc_bank st) \<and> bk_settlements (rc_bank st') = bk_settlements (rc_bank st)
    \<and> filter (\<lambda>t. pt_tenant t \<noteq> tn \<or> pt_ref_type t \<noteq> Some ''wallet_settlement'') (bk_txs (rc_bank st'))
        = filter (\<lambda>t. pt_tenant t \<noteq> tn \<or> pt_ref_type t \<noteq> Some ''wallet_settlement'') (bk_txs (rc_bank st))
    \<and> (\<exists>st'' again. reconcile_tenant_books gen tn between later st' = (st'', Inr again)
         \<and> rr_mismatched again = 0 \<and> rr_deleted again = 0 \<and> rr_orphans again = 0
         \<and> bk_txs (rc_bank st'') = bk_txs (rc_bank st'))"
proof -
  obtain st' run where r: "reconcile_tenant_books gen tn (\<lambda>_ b. b) now st = (st', Inr run)"
    "rr_repaired run = rr_mismatched run" "tidy tn (rc_bank st')" "unused_by gen st'"
    "bk_wallets (rc_bank st') = bk_wallets (rc_bank st)"
    "bk_settlements (rc_bank st') = bk_settlements (rc_bank st)"
    "\<forall>p. (\<forall>t. p t \<longrightarrow> pt_tenant t \<noteq> tn \<or> pt_ref_type t \<noteq> Some ''wallet_settlement'')
           \<longrightarrow> filter p (bk_txs (rc_bank st')) = filter p (bk_txs (rc_bank st))"
    by (rule reconcile_alone [OF assms])
  have "\<forall>r \<in> set (rc_runs st'). rr_id r \<noteq> gen (bk_ids (rc_bank st'))" using r(4) by (auto simp: unused_by_def)
  note again = reconcile_tidy [where st = st' and tn = tn and gen = gen and between = between and now = later, OF r(3) this]
  show ?thesis
    by (rule exI [of _ st'], rule exI [of _ run], intro conjI, rule r(1), rule r(2))
      (use r(3,5,6,7) again in \<open>simp_all add: tidy_def\<close>)
qed

text \<open>A ledger that lost one entry of its settlement, and has one whose settlement does not exist.\<close>

definition torn_bank :: purse_bank where
  "torn_bank =
     (let s = persona_settlement ''s'' ''t'' ''w'' ''task'' ''a'' 1000 ''CRED'' (60, 20, 20) 1;
          tx = (\<lambda>i k n ref. \<lparr> pt_id = i, pt_tenant = ''t'', pt_wallet = ''w'', pt_type = k, pt_amount = n,
            pt_currency = ''CRED'', pt_ref_type = Some ''wallet_settlement'', pt_ref = Some ref, pt_created_at = 1 \<rparr>) in
      (no_purses [])\<lparr>bk_settlements := [s],
        bk_txs := [tx ''y'' Ptx_Task_Payment 1000 ''s'', tx ''z'' Ptx_Platform_Fee (- 200) ''s'',
                   tx ''v'' Ptx_Task_Payment 500 ''gone'']\<rparr>)"

lemma wage_gen_inj: "inj wage_gen"
  by (rule injI) (metis Suc_inject length_replicate wage_gen_def)

lemma torn_bank_unused: "unused_by wage_gen \<lparr> rc_bank = torn_bank, rc_runs = [] \<rparr>"
  by (auto simp: unused_by_def unused_def wage_gen_inj torn_bank_def Let_def no_purses_def wage_gen_def
      Cons_replicate_eq)

lemma torn_bank_run:
  "map pt_amount (bk_txs (rc_bank (fst (reconcile_tenant_books wage_gen ''t'' (\<lambda>_ b. b) 5
     \<lparr> rc_bank = torn_bank, rc_runs = [] \<rparr>)))) = [1000, - 200, - 200]"
  by code_simp

theorem reconciliation_converges_witness:
  "\<exists>st' run. reconcile_tenant_books wage_gen ''t'' (\<lambda>_ b. b) 5 \<lparr> rc_bank = torn_bank, rc_runs = [] \<rparr> = (st', Inr run)
     \<and> rr_repaired run = rr_mismatched run \<and> map pt_amount (bk_txs (rc_bank st')) = [1000, - 200, - 200]"
proof -
  have "distinct (map sl_id (bk_settlements (rc_bank \<lparr> rc_bank = torn_bank, rc_runs = [] \<rparr>)))"
    by (simp add: torn_bank_def Let_def)
  from reconciliation_converges [OF this torn_bank_unused, of "''t''" 5] torn_bank_run show ?thesis by fastforce
qed

subsection \<open>The books of digital persons need no reconciliation\<close>

definition journaled :: "purse_bank \<Rightarrow> bool" where
  "journaled bk \<longleftrightarrow> distinct (map sl_id (bk_settlements bk))
     \<and> (\<forall>s \<in> set (bk_settlements bk).
          mset (map entry_key (filter (of_settlement s) (bk_txs bk))) = mset (expected_ledger s))
     \<and> (\<forall>t \<in> set (bk_txs bk). pt_ref_type t = Some ''wallet_settlement'' \<longrightarrow>
          (\<exists>s \<in> set (bk_settlements bk). of_settlement s t))"

lemma of_settlement_entry: "of_settlement s = settlement_entry (sl_tenant s) (sl_id s)"
  by (simp add: fun_eq_iff of_settlement_def settlement_entry_def)

lemma expected_entries: "split_ok s \<Longrightarrow> expected_ledger s = map (\<lambda>(k, n). (k, n, sl_currency s)) (entries_of s)"
  by (auto simp: expected_ledger_def entries_of_def signed_amount_def split_ok_def)

lemma journaled_orphans: "journaled bk \<Longrightarrow> t \<in> set (bk_txs bk) \<Longrightarrow> \<not> orphan_entry tn bk t"
proof
  assume j: "journaled bk" and t: "t \<in> set (bk_txs bk)" and o': "orphan_entry tn bk t"
  then have "pt_ref_type t = Some ''wallet_settlement''" by (simp add: orphan_entry_def)
  with j t obtain s where "s \<in> set (bk_settlements bk)" "of_settlement s t" unfolding journaled_def by blast
  with o' show False by (auto simp: orphan_entry_def of_settlement_def list_ex_iff)
qed

lemma journaled_tidy: "journaled bk \<Longrightarrow> tidy tn bk"
  using journaled_orphans [of bk _ tn]
  by (auto simp: journaled_def tidy_def of_settlement_entry count_where_0_iff simp del: mset_map)

lemma journal_kept:
  assumes j: "journaled bk" and n: "journal_of bk ss ts" and ok: "\<forall>s \<in> set ss. split_ok s"
    and bk': "bk_txs bk' = bk_txs bk @ ts" "bk_settlements bk' = bk_settlements bk @ ss"
  shows "journaled bk'"
  using n unfolding journal_of_def
proof
  assume e: "ss = [] \<and> (\<forall>t \<in> set ts. pt_ref_type t \<noteq> Some ''wallet_settlement'')"
  then have "filter (of_settlement s) ts = []" for s by (auto simp: filter_empty_conv of_settlement_def)
  with e j bk' show ?thesis by (auto simp: journaled_def)
next
  assume "\<exists>s. ss = [s] \<and> posted_for s ts \<and> (\<forall>x \<in> set (bk_settlements bk). sl_id x \<noteq> sl_id s)"
  then obtain s where s: "ss = [s]" "posted_for s ts" "\<forall>x \<in> set (bk_settlements bk). sl_id x \<noteq> sl_id s" by blast
  have own: "filter (of_settlement s) ts = ts" using s(2) by (simp add: posted_for_def filter_id_conv)
  have none: "filter (of_settlement s) (bk_txs bk) = []"
    using j s(3) unfolding journaled_def filter_empty_conv of_settlement_def by (metis option.inject)
  have other: "filter (of_settlement x) ts = []" if "x \<in> set (bk_settlements bk)" for x
    using s(2,3) that by (auto simp: posted_for_def filter_empty_conv of_settlement_def)
  have exp: "map entry_key ts = expected_ledger s"
    using s(1,2) ok by (simp add: posted_for_def expected_entries)
  show ?thesis unfolding journaled_def bk'
    using j s own none other exp by (auto simp: journaled_def posted_for_def simp del: mset_map)
qed

definition journal_ok :: "persona_market \<Rightarrow> bool" where
  "journal_ok s \<longleftrightarrow> bank_ok (gv_bank s) \<and> journaled (gv_bank s)"

lemma journaled_books: "books s' = books s \<Longrightarrow> journaled (gv_bank s') = journaled (gv_bank s)"
  by (simp add: books_def journaled_def)

lemma journaled_ids [simp]: "journaled (bk\<lparr>bk_ids := k\<rparr>) = journaled bk"
  by (simp add: journaled_def)

lemma settle_task_payment_journaled:
  assumes ok: "bank_ok (gv_bank s)" and j: "journaled (gv_bank s)" and q: "split_in_range (sr_split q)"
  shows "journaled (gv_bank (fst (settle_task_payment gen tn q now s)))"
  using ok q
proof (cases rule: settle_task_payment_cases [of s q gen tn now])
  case (settled t a w bk g ts)
  have "journaled bk" by (rule journal_kept [OF j settled(14)]) (use settled(10,11) in \<open>simp_all add: entry_of_def\<close>)
  with settled(9) show ?thesis by simp
qed (use j in simp_all)

lemma complete_commit_journaled:
  assumes ok: "bank_ok (gv_bank s)" and j: "journaled (gv_bank s)" and c: "observed tn c (gv_bank s)"
  shows "journaled (gv_bank (fst (complete_commit gen tn c q h now s)))"
  using ok c
proof (cases rule: complete_commit_cases [of s tn c gen q h now])
  case (paid w bk g ts ss ts' u n)
  have "journaled bk" by (rule journal_kept [OF j paid(9,6)]) (use paid(5) in \<open>simp_all add: entry_of_def\<close>)
  with paid(3) show ?thesis by (simp add: set_persona_def on_bank_def journaled_def)
qed (use j in simp)

lemma payout_commit_journaled:
  assumes ok: "bank_ok bk" and j: "journaled bk"
  shows "journaled (fst (payout_commit gen tn user i cur n key now bk))"
  using ok
proof (cases rule: payout_commit_cases [of bk gen tn user i cur n key now])
  case (paid bk3 w t)
  have "journal_of bk [] [t]" using paid(7) by (simp add: journal_of_def)
  then have "journaled bk3"
    by (rule journal_kept [OF j]) (use paid(6) in \<open>simp_all add: entry_of_def\<close>)
  with paid(1) show ?thesis by simp
qed (use j in simp)

lemma set_purse_status_journaled: "journaled (set_purse_status tn i st bk) = journaled bk"
  by (simp add: set_purse_status_def journaled_def)

lemma persona_step_journal: "journal_ok s \<Longrightarrow> journal_ok (persona_step gen tn s e)"
proof -
  assume s: "journal_ok s"
  then have ok: "bank_ok (gv_bank s)" and j: "journaled (gv_bank s)" by (simp_all add: journal_ok_def)
  have "journaled (gv_bank (persona_step gen tn s e))"
  proof (cases e)
    case (Pe_Wallet i p address now)
    have "journaled bk" if "purse_cmd_create_wallet i tn p address now (gv_bank s) = Some bk" for bk
      using that j by (auto simp: purse_cmd_create_wallet_def journaled_def split: if_splits)
    then show ?thesis using j Pe_Wallet by (auto split: option.split)
  qed (use ok j in \<open>auto simp: on_bank_def set_purse_status_journaled payout_commit_journaled settle_task_payment_journaled
      complete_commit_journaled journaled_books [OF publish_task_books] journaled_books [OF apply_to_task_books]
      journaled_books [OF assign_commit_books] journaled_books [OF take_commit_books]
      journaled_books [OF submit_task_result_books] journaled_books [OF market_accept_commit_books]
      journaled_books [OF market_reject_commit_books] journaled_books [OF dispute_task_books]
      journaled_books [OF open_case_books] journaled_books [OF action_commit_books]
      journaled_books [OF appeal_case_books]\<close>)
  with persona_step_ok [OF ok] show ?thesis by (simp add: journal_ok_def)
qed

interpretation persona_journal: invariant_machine "persona_step gen tn" journal_ok for gen tn
  by unfold_locales (rule persona_step_journal)

lemma no_purses_journal: "journal_ok (s\<lparr>gv_bank := no_purses ps\<rparr>)"
  using no_purses_ok [of ps] by (simp add: journal_ok_def journaled_def) (simp add: no_purses_def)

text \<open>
  C16: whatever is done to digital persons and in whatever order, the reconciliation finds nothing: every
  settlement, of the publisher or of the owner's own completion, has the entries that the reconciliation
  expects of it, no entry lacks its settlement, and a run leaves the ledger as it is.
\<close>

theorem persona_books_reconcile:
  assumes "bk = gv_bank (foldl (persona_step gen tn) (s\<lparr>gv_bank := no_purses ps\<rparr>) es)"
  shows "\<exists>st' run. reconcile_tenant_books gen' tn' between now \<lparr> rc_bank = bk, rc_runs = [] \<rparr> = (st', Inr run)
    \<and> rr_mismatched run = 0 \<and> rr_orphans run = 0 \<and> bk_txs (rc_bank st') = bk_txs bk"
proof -
  have "journal_ok (foldl (persona_step gen tn) (s\<lparr>gv_bank := no_purses ps\<rparr>) es)"
    by (rule persona_journal.run_invar) (rule no_purses_journal)
  then have "tidy tn' (rc_bank \<lparr> rc_bank = bk, rc_runs = [] \<rparr>)"
    unfolding assms by (simp add: journal_ok_def journaled_tidy)
  then show ?thesis
    using reconcile_tidy [where st = "\<lparr> rc_bank = bk, rc_runs = [] \<rparr>" and tn = tn' and gen = gen'
        and between = between and now = now] by auto
qed

theorem persona_books_reconcile_witness:
  "\<exists>bk st' run. bk = gv_bank (foldl (persona_step wage_gen ''t'') ((wage_market [])\<lparr>gv_bank := no_purses
        [wage_person ''p'' ''own'' Per_Active]\<rparr>) wage_events)
     \<and> reconcile_tenant_books wage_gen ''t'' (\<lambda>_ b. b) 9 \<lparr> rc_bank = bk, rc_runs = [] \<rparr> = (st', Inr run)
     \<and> map pt_amount (bk_txs (rc_bank st')) = [1234, - 248, - 246, - 370]"
proof -
  let ?bk = "gv_bank (foldl (persona_step wage_gen ''t'') ((wage_market [])\<lparr>gv_bank := no_purses
        [wage_person ''p'' ''own'' Per_Active]\<rparr>) wage_events)"
  have "map pt_amount (bk_txs ?bk) = [1234, - 248, - 246, - 370]" by code_simp
  with persona_books_reconcile [where gen = wage_gen and tn = "''t''" and s = "wage_market []"
      and ps = "[wage_person ''p'' ''own'' Per_Active]" and es = wage_events and gen' = wage_gen and tn' = "''t''"
      and between = "\<lambda>_ b. b" and now = 9, OF refl] show ?thesis by metis
qed

text \<open>The reconciliation does not look at the wallet of an entry: moving entries to other wallets goes unseen.\<close>

lemma misplaced_entries_unseen: "ledger_consistent (map (\<lambda>t. t\<lparr>pt_wallet := f t\<rparr>) ts) s = ledger_consistent ts s"
proof -
  have "map entry_key (map (\<lambda>t. t\<lparr>pt_wallet := f t\<rparr>) ts) = map entry_key ts" by (simp add: entry_key_def)
  then show ?thesis unfolding ledger_consistent_mset by metis
qed

end
