(* ===== verification/Persona_Earning.thy ===== *)
theory Persona_Earning
  imports Persona_Lease Persona_Reconcile "HOL-Library.Sublist"
begin

text \<open>
  A digital person that looks for work by itself: the admission of the earning policy and the detection of
  collusion of the kernel, and the cycle of \<^verbatim>\<open>PersonaEarningService\<close> under its lease. The decision engine
  and the tool pipeline are passed to the service, and are parameters here; amounts are exact, where the code
  uses binary fractions.
\<close>

subsection \<open>The policy\<close>

datatype earning_risk = Earn_Low | Earn_Medium | Earn_High | Earn_Critical
datatype earning_admission = Admit_Autonomous | Admit_Review | Admit_Forbidden
datatype category_route = Route_Autonomous | Route_Review | Route_Blocked

record earner_snapshot =
  sn_status :: persona_status
  sn_reputation :: rat
  sn_open_tasks :: nat
  sn_category_completed :: nat
  sn_failure_streak :: nat

record aml_policy =
  am_max_per_publisher :: nat
  am_max_share :: rat
  am_share_min_tasks :: nat
  am_max_identical :: nat

record earning_policy =
  ep_allowed :: "string list"
  ep_routes :: "(string \<times> category_route) list option"
  ep_default_route :: "category_route option"
  ep_max_reward :: rat
  ep_daily_cap :: rat
  ep_max_concurrent :: nat
  ep_failure_breaker :: nat
  ep_min_reputation :: rat
  ep_aml :: aml_policy

definition default_aml_policy :: aml_policy where
  "default_aml_policy = \<lparr> am_max_per_publisher = 5, am_max_share = 8 / 10, am_share_min_tasks = 4, am_max_identical = 4 \<rparr>"

definition default_earning_policy :: earning_policy where
  "default_earning_policy = \<lparr> ep_allowed = [''research'', ''writing''], ep_routes = None, ep_default_route = None,
     ep_max_reward = 50, ep_daily_cap = 200, ep_max_concurrent = 3, ep_failure_breaker = 2, ep_min_reputation = 0,
     ep_aml = default_aml_policy \<rparr>"

definition resolve_category_route :: "earning_policy \<Rightarrow> string \<Rightarrow> category_route" where
  "resolve_category_route cfg c =
     (case ep_routes cfg of
        Some routes \<Rightarrow> or_default (map_of routes c) (or_default (ep_default_route cfg) Route_Review)
      | None \<Rightarrow> if c \<in> set (ep_allowed cfg) then Route_Autonomous else Route_Review)"

text \<open>The reasons of an answer, one constructor per message.\<close>

datatype earning_reason =
    Not_Active | Streak nat nat | Category_Blocked string | Too_Many_Open nat nat | Over_Cap rat rat rat
  | Routed_To_Review string | Not_Allowlisted string | First_In_Category string | New_Publisher
  | Reward_Too_High rat rat | Reputation_Too_Low rat rat | Low_Risk

fun earning_risk_order :: "earning_risk \<Rightarrow> nat" where
  "earning_risk_order Earn_Low = 0"
| "earning_risk_order Earn_Medium = 1"
| "earning_risk_order Earn_High = 2"
| "earning_risk_order Earn_Critical = 3"

definition max_earning_risk :: "earning_risk \<Rightarrow> earning_risk \<Rightarrow> earning_risk" where
  "max_earning_risk a b = (if earning_risk_order b \<le> earning_risk_order a then a else b)"

definition escalate_if ::
  "bool \<Rightarrow> earning_risk \<Rightarrow> earning_reason \<Rightarrow> earning_risk \<times> earning_reason list \<Rightarrow> earning_risk \<times> earning_reason list" where
  "escalate_if c to why x = (if c then (max_earning_risk (fst x) to, snd x @ [why]) else x)"

text \<open>The risk of a task that no hard limit turns down.\<close>

definition earning_signals ::
  "earning_policy \<Rightarrow> market_task \<Rightarrow> earner_snapshot \<Rightarrow> bool \<Rightarrow> earning_risk \<times> earning_reason list" where
  "earning_signals cfg t p new_publisher =
     escalate_if (sn_reputation p < ep_min_reputation cfg) Earn_High
       (Reputation_Too_Low (sn_reputation p) (ep_min_reputation cfg))
     (escalate_if (ep_max_reward cfg < mt_reward t) Earn_High (Reward_Too_High (mt_reward t) (ep_max_reward cfg))
     (escalate_if new_publisher Earn_Medium New_Publisher
     (escalate_if (sn_category_completed p = 0) Earn_Medium (First_In_Category (mt_category t))
     (escalate_if (resolve_category_route cfg (mt_category t) \<noteq> Route_Autonomous) Earn_High
       (if ep_routes cfg \<noteq> None then Routed_To_Review (mt_category t) else Not_Allowlisted (mt_category t))
       (Earn_Low, [])))))"

definition evaluate_earning_admission ::
  "earning_policy \<Rightarrow> market_task \<Rightarrow> earner_snapshot \<Rightarrow> rat \<Rightarrow> bool
     \<Rightarrow> earning_admission \<times> earning_risk \<times> earning_reason list" where
  "evaluate_earning_admission cfg t p exposure new_publisher =
     (let route = resolve_category_route cfg (mt_category t) in
      if sn_status p \<noteq> Per_Active then (Admit_Forbidden, Earn_Critical, [Not_Active])
      else if ep_failure_breaker cfg \<le> sn_failure_streak p
        then (Admit_Forbidden, Earn_Critical, [Streak (sn_failure_streak p) (ep_failure_breaker cfg)])
      else if route = Route_Blocked then (Admit_Forbidden, Earn_High, [Category_Blocked (mt_category t)])
      else if ep_max_concurrent cfg \<le> sn_open_tasks p
        then (Admit_Forbidden, Earn_High, [Too_Many_Open (sn_open_tasks p) (ep_max_concurrent cfg)])
      else if ep_daily_cap cfg < exposure + mt_reward t
        then (Admit_Review, Earn_High, [Over_Cap exposure (mt_reward t) (ep_daily_cap cfg)])
      else
        let (risk, reasons) = earning_signals cfg t p new_publisher in
        (if risk = Earn_Low \<and> route = Route_Autonomous then Admit_Autonomous else Admit_Review, risk,
         if reasons = [] then [Low_Risk] else reasons))"

text \<open>
  Three signals over the tasks taken in a window: rate, share of the rewards, and equal rewards. The counts
  of the rewards are a \<^verbatim>\<open>Map\<close> whose entries are sorted by reward.
\<close>

datatype aml_reason = Aml_Rate nat nat | Aml_Share rat rat rat | Aml_Identical rat nat nat | Aml_Cancel_Rate nat nat

definition reward_sum :: "market_task list \<Rightarrow> rat" where
  "reward_sum ts = foldl (\<lambda>s t. s + mt_reward t) 0 ts"

definition evaluate_aml_aggregate :: "aml_policy \<Rightarrow> ident \<Rightarrow> rat \<Rightarrow> market_task list \<Rightarrow> bool \<times> aml_reason list" where
  "evaluate_aml_aggregate am publisher reward window =
     (let own = filter (\<lambda>t. mt_publisher t = publisher) window;
          rate = (if am_max_per_publisher am \<le> length own + 1
                  then [Aml_Rate (length own + 1) (am_max_per_publisher am)] else []);
          share = (if am_share_min_tasks am \<le> length window \<and> 0 < reward_sum window
                     \<and> am_max_share am \<le> reward_sum own / reward_sum window
                   then [Aml_Share (reward_sum own) (reward_sum window) (am_max_share am)] else []);
          counts = foldl (\<lambda>m t. bump (mt_reward t) m) [(reward, 1)] own;
          identical = map (\<lambda>(r, n). Aml_Identical r n (am_max_identical am))
                        (filter (\<lambda>(r, n). am_max_identical am \<le> n) (sort_key fst counts));
          reasons = rate @ share @ identical
      in (reasons \<noteq> [], reasons))"

subsection \<open>What a cycle knows of the past\<close>

text \<open>
  \<^verbatim>\<open>getPersonaDetail(...).marketplaceTasks\<close>: the twelve most recently updated tasks that the owner
  published or the person works on. Everything below is computed from them.
\<close>

definition recent_market_tasks :: "ident \<Rightarrow> ident \<Rightarrow> ident \<Rightarrow> market_task list \<Rightarrow> market_task list" where
  "recent_market_tasks tn owner p ts =
     take 12 (sort_key (\<lambda>t. - mt_updated_at t)
       (filter (\<lambda>t. mt_tenant t = tn \<and> (mt_publisher t = owner \<or> mt_persona t = Some p)) ts))"

definition open_market_tasks :: "ident \<Rightarrow> market_task list \<Rightarrow> market_task list" where
  "open_market_tasks tn ts =
     sort_key (\<lambda>t. - mt_updated_at t) (sort_key (\<lambda>t. - mt_created_at t)
       (filter (\<lambda>t. mt_tenant t = tn \<and> mt_status t = Mkt_Open) ts))"

definition window_start :: "millis \<Rightarrow> millis" where
  "window_start now = now - 86400000"

definition accepted_since :: "millis \<Rightarrow> market_task \<Rightarrow> bool" where
  "accepted_since start t \<longleftrightarrow> start \<le> or_default (mt_accepted_at t) 0"

definition open_task_count :: "ident \<Rightarrow> market_task list \<Rightarrow> nat" where
  "open_task_count p ts = length (filter (\<lambda>t. mt_persona t = Some p \<and> mt_status t = Mkt_Accepted) ts)"

definition today_exposure :: "ident \<Rightarrow> millis \<Rightarrow> market_task list \<Rightarrow> rat" where
  "today_exposure p now ts =
     reward_sum (filter (\<lambda>t. mt_persona t = Some p \<and> mt_status t = Mkt_Accepted \<and> accepted_since (window_start now) t) ts)"

definition aml_window :: "ident \<Rightarrow> millis \<Rightarrow> market_task list \<Rightarrow> market_task list" where
  "aml_window p now ts =
     filter (\<lambda>t. mt_persona t = Some p \<and> mt_status t \<in> {Mkt_Accepted, Mkt_Completed}
       \<and> accepted_since (window_start now) t) ts"

definition category_completed :: "ident \<Rightarrow> string \<Rightarrow> market_task list \<Rightarrow> nat" where
  "category_completed p c ts =
     length (filter (\<lambda>t. mt_category t = c \<and> mt_status t = Mkt_Completed \<and> mt_persona t = Some p) ts)"

definition publisher_is_new :: "ident \<Rightarrow> ident \<Rightarrow> market_task list \<Rightarrow> bool" where
  "publisher_is_new p publisher ts \<longleftrightarrow> \<not> list_ex (\<lambda>t. mt_publisher t = publisher \<and> mt_persona t = Some p) ts"

definition failed_work :: "market_task \<Rightarrow> bool" where
  "failed_work t \<longleftrightarrow> mt_status t = Mkt_Cancelled
     \<or> mt_status t = Mkt_Completed \<and> or_default (mt_quality t) 1 < 4 / 10"

fun streak_of :: "market_task list \<Rightarrow> nat" where
  "streak_of [] = 0"
| "streak_of (t # ts) =
     (if failed_work t then Suc (streak_of ts) else if mt_status t = Mkt_Completed then 0 else streak_of ts)"

definition recent_failure_streak :: "ident \<Rightarrow> market_task list \<Rightarrow> nat" where
  "recent_failure_streak p ts = streak_of (sort_key (\<lambda>t. - mt_updated_at t) (filter (\<lambda>t. mt_persona t = Some p) ts))"

definition aml_block_reason :: "market_task \<Rightarrow> market_task list \<Rightarrow> aml_reason option" where
  "aml_block_reason task ts =
     (let own = filter (\<lambda>t. mt_publisher t = mt_publisher task) ts;
          cancelled = length (filter (\<lambda>t. mt_status t = Mkt_Cancelled) own) in
      if 3 \<le> length own \<and> 1 / 2 < (of_nat cancelled :: rat) / of_nat (length own)
      then Some (Aml_Cancel_Rate cancelled (length own)) else None)"

subsection \<open>The cycle\<close>

datatype earning_choice = Choose_Accept | Choose_Skip | Choose_Review
datatype earning_outcome =
    Earned_Applied | Skipped_Own_Task | Forbidden_Aml "aml_reason list" | Forbidden_Policy "earning_reason list"
  | Review_Queued "earning_reason list" | Skipped_By_Choice | Skipped_By_Pipeline

record earning_cycle =
  ec_exposure :: rat
  ec_window :: "market_task list"
  ec_outcomes :: "(market_task \<times> earning_outcome) list"

text \<open>
  What the cycle is given: the person, its owner, the policy, the snapshot taken at the start, the decision
  engine's choice, and the pipeline, which works on the state \<open>s\<close> of which \<open>recent\<close> reads the recent tasks.
\<close>

record 's earning_env =
  ee_persona :: ident
  ee_owner :: ident
  ee_policy :: earning_policy
  ee_now :: millis
  ee_recent :: "'s \<Rightarrow> market_task list"
  ee_decide :: "market_task \<Rightarrow> earning_admission \<Rightarrow> earning_choice"
  ee_apply :: "market_task \<Rightarrow> 's \<Rightarrow> 's \<times> bool"

definition earner_of :: "'s earning_env \<Rightarrow> persona_status \<Rightarrow> rat \<Rightarrow> market_task list \<Rightarrow> earner_snapshot" where
  "earner_of e st rep ts =
     \<lparr> sn_status = st, sn_reputation = rep, sn_open_tasks = open_task_count (ee_persona e) ts,
       sn_category_completed = 0, sn_failure_streak = recent_failure_streak (ee_persona e) ts \<rparr>"

definition cycle_outcome :: "market_task \<Rightarrow> earning_outcome \<Rightarrow> earning_cycle \<Rightarrow> earning_cycle" where
  "cycle_outcome t x c = c\<lparr>ec_outcomes := ec_outcomes c @ [(t, x)]\<rparr>"

definition earn_one ::
  "'s earning_env \<Rightarrow> earner_snapshot \<Rightarrow> market_task \<Rightarrow> earning_cycle \<times> 's \<Rightarrow> earning_cycle \<times> 's" where
  "earn_one e snap t x =
     (case x of (c, s) \<Rightarrow>
        let ts = ee_recent e s in
        if mt_publisher t = ee_owner e then (cycle_outcome t Skipped_Own_Task c, s)
        else if aml_block_reason t ts \<noteq> None
          then (cycle_outcome t (Forbidden_Aml [the (aml_block_reason t ts)]) c, s)
        else
          let (blocked, why) = evaluate_aml_aggregate (ep_aml (ee_policy e)) (mt_publisher t) (mt_reward t) (ec_window c) in
          if blocked then (cycle_outcome t (Forbidden_Aml why) c, s)
          else
            let (admission, risk, reasons) = evaluate_earning_admission (ee_policy e) t
                  (snap\<lparr>sn_category_completed := category_completed (ee_persona e) (mt_category t) ts\<rparr>)
                  (ec_exposure c) (publisher_is_new (ee_persona e) (mt_publisher t) ts) in
            if admission = Admit_Forbidden then (cycle_outcome t (Forbidden_Policy reasons) c, s)
            else
              let choice = ee_decide e t admission in
              if admission = Admit_Review \<or> choice = Choose_Review then (cycle_outcome t (Review_Queued reasons) c, s)
              else if choice = Choose_Skip then (cycle_outcome t Skipped_By_Choice c, s)
              else
                let (s', done) = ee_apply e t s in
                if done then
                  (cycle_outcome t Earned_Applied
                     (c\<lparr>ec_exposure := ec_exposure c + mt_reward t,
                        ec_window := ec_window c @ [t\<lparr>mt_status := Mkt_Accepted, mt_persona := Some (ee_persona e),
                          mt_accepted_at := Some (ee_now e)\<rparr>]\<rparr>), s')
                else (cycle_outcome t Skipped_By_Pipeline c, s'))"

text \<open>\<^verbatim>\<open>runCycleBody\<close> over the open tasks, of which it takes the first few.\<close>

definition run_cycle_body ::
  "'s earning_env \<Rightarrow> persona_status \<Rightarrow> rat \<Rightarrow> int \<Rightarrow> market_task list \<Rightarrow> 's \<Rightarrow> earning_cycle \<times> 's" where
  "run_cycle_body e st rep limit tasks s =
     (let ts = ee_recent e s in
      fold (earn_one e (earner_of e st rep ts)) (take (nat (max 1 limit)) tasks)
        (\<lparr> ec_exposure = today_exposure (ee_persona e) (ee_now e) ts,
           ec_window = aml_window (ee_persona e) (ee_now e) ts, ec_outcomes = [] \<rparr>, s))"

definition applied_tasks :: "earning_cycle \<Rightarrow> market_task list" where
  "applied_tasks c = map fst (filter (\<lambda>(t, x). x = Earned_Applied) (ec_outcomes c))"

text \<open>
  \<^verbatim>\<open>runEarningCycle\<close> on the market of digital persons. Without an active person, and without the lease, the
  answer is the empty result, \<^verbatim>\<open>None\<close> here.
\<close>

definition earning_lease_ttl :: millis where
  "earning_lease_ttl = 120000"

definition market_env ::
  "ident \<Rightarrow> ident \<Rightarrow> ident \<Rightarrow> earning_policy \<Rightarrow> millis \<Rightarrow> (market_task \<Rightarrow> earning_admission \<Rightarrow> earning_choice)
     \<Rightarrow> (market_task \<Rightarrow> persona_market \<Rightarrow> persona_market \<times> bool) \<Rightarrow> persona_market earning_env" where
  "market_env tn owner p policy now decide pipeline =
     \<lparr> ee_persona = p, ee_owner = owner, ee_policy = policy, ee_now = now,
       ee_recent = (\<lambda>s. recent_market_tasks tn owner p (pm_tasks s)), ee_decide = decide, ee_apply = pipeline \<rparr>"

definition run_earning_cycle ::
  "ident \<Rightarrow> ident \<Rightarrow> ident \<Rightarrow> earning_policy \<Rightarrow> int \<Rightarrow> ident \<Rightarrow> millis \<Rightarrow> millis \<Rightarrow> (lease_table \<Rightarrow> lease_table)
     \<Rightarrow> (market_task \<Rightarrow> earning_admission \<Rightarrow> earning_choice)
     \<Rightarrow> (market_task \<Rightarrow> persona_market \<Rightarrow> persona_market \<times> bool)
     \<Rightarrow> lease_table \<times> persona_market
     \<Rightarrow> (lease_table \<times> persona_market) \<times> (lease_complaint list + earning_cycle option)" where
  "run_earning_cycle tn owner p policy limit token now db meanwhile decide pipeline x =
     (case owned_persona tn owner p (snd x) of
        None \<Rightarrow> (x, Inr None)
      | Some r \<Rightarrow>
          if persona_status_of r \<noteq> Per_Active then (x, Inr None)
          else with_lease (tn, p, Lease_Earning) token now earning_lease_ttl db meanwhile
                 (\<lambda>s. case run_cycle_body (market_env tn owner p policy now decide pipeline) (persona_status_of r)
                        (pr_reputation r) limit (open_market_tasks tn (pm_tasks s)) s of (c, s') \<Rightarrow> (s', c)) x)"

subsection \<open>Admission\<close>

lemma escalate_low:
  "fst (escalate_if c to why x) = Earn_Low \<longleftrightarrow> fst x = Earn_Low \<and> (c \<longrightarrow> to = Earn_Low)"
  by (cases to; cases "fst x") (auto simp: escalate_if_def max_earning_risk_def)

lemma earning_signals_low:
  "fst (earning_signals cfg t p new) = Earn_Low \<longleftrightarrow>
     resolve_category_route cfg (mt_category t) = Route_Autonomous \<and> 0 < sn_category_completed p \<and> \<not> new
     \<and> mt_reward t \<le> ep_max_reward cfg \<and> ep_min_reputation cfg \<le> sn_reputation p"
  by (auto simp: earning_signals_def escalate_low not_less)

lemma earning_admission_cases:
  "fst (evaluate_earning_admission cfg t p exposure new) = Admit_Autonomous \<Longrightarrow>
     sn_status p = Per_Active \<and> sn_failure_streak p < ep_failure_breaker cfg \<and> sn_open_tasks p < ep_max_concurrent cfg
     \<and> exposure + mt_reward t \<le> ep_daily_cap cfg
     \<and> resolve_category_route cfg (mt_category t) = Route_Autonomous \<and> mt_reward t \<le> ep_max_reward cfg"
  using earning_signals_low [of cfg t p new]
  by (auto simp: evaluate_earning_admission_def Let_def split_beta not_le not_less split: if_splits)

text \<open>
  a task is taken without asking a person exactly when the digital person is active, has not failed too
  often in a row, has room for another task and for its reward under the daily cap, and the category is routed
  to autonomy, known to the person, from a known publisher, within the reward and reputation limits; it is
  turned down for good exactly when the person is inactive, failing, full, or the category is blocked.
\<close>

theorem earning_admission_decision:
  "(fst (evaluate_earning_admission cfg t p exposure new) = Admit_Autonomous \<longleftrightarrow>
      sn_status p = Per_Active \<and> sn_failure_streak p < ep_failure_breaker cfg \<and> sn_open_tasks p < ep_max_concurrent cfg
      \<and> exposure + mt_reward t \<le> ep_daily_cap cfg
      \<and> resolve_category_route cfg (mt_category t) = Route_Autonomous \<and> 0 < sn_category_completed p \<and> \<not> new
      \<and> mt_reward t \<le> ep_max_reward cfg \<and> ep_min_reputation cfg \<le> sn_reputation p)
   \<and> (fst (evaluate_earning_admission cfg t p exposure new) = Admit_Forbidden \<longleftrightarrow>
      sn_status p \<noteq> Per_Active \<or> ep_failure_breaker cfg \<le> sn_failure_streak p \<or> ep_max_concurrent cfg \<le> sn_open_tasks p
      \<or> resolve_category_route cfg (mt_category t) = Route_Blocked)"
  using earning_signals_low [of cfg t p new]
  by (auto simp: evaluate_earning_admission_def Let_def split_beta not_le not_less)

subsection \<open>What a cycle applies for\<close>

definition admissible_task :: "'s earning_env \<Rightarrow> earner_snapshot \<Rightarrow> market_task \<Rightarrow> bool" where
  "admissible_task e snap t \<longleftrightarrow> mt_publisher t \<noteq> ee_owner e \<and> sn_status snap = Per_Active
     \<and> sn_failure_streak snap < ep_failure_breaker (ee_policy e) \<and> sn_open_tasks snap < ep_max_concurrent (ee_policy e)
     \<and> resolve_category_route (ee_policy e) (mt_category t) = Route_Autonomous
     \<and> mt_reward t \<le> ep_max_reward (ee_policy e)"

lemma applied_cycle_outcome [simp]:
  "applied_tasks (cycle_outcome t x c) = applied_tasks c @ (if x = Earned_Applied then [t] else [])"
  "ec_exposure (cycle_outcome t x c) = ec_exposure c"
  "length (ec_outcomes (cycle_outcome t x c)) = Suc (length (ec_outcomes c))"
  by (simp_all add: cycle_outcome_def applied_tasks_def)

lemma applied_tasks_columns [simp]:
  "applied_tasks (c\<lparr>ec_exposure := x\<rparr>) = applied_tasks c" "applied_tasks (c\<lparr>ec_window := w\<rparr>) = applied_tasks c"
  by (simp_all add: applied_tasks_def)

lemma earn_one_cases:
  obtains (nothing) "applied_tasks (fst (earn_one e snap t (c, s))) = applied_tasks c"
      and "ec_exposure (fst (earn_one e snap t (c, s))) = ec_exposure c"
  | (applied) "applied_tasks (fst (earn_one e snap t (c, s))) = applied_tasks c @ [t]"
      and "ec_exposure (fst (earn_one e snap t (c, s))) = ec_exposure c + mt_reward t"
      and "ec_exposure c + mt_reward t \<le> ep_daily_cap (ee_policy e)" and "admissible_task e snap t"
proof -
  let ?ts = "ee_recent e s"
  let ?p = "snap\<lparr>sn_category_completed := category_completed (ee_persona e) (mt_category t) ?ts\<rparr>"
  let ?aml = "evaluate_aml_aggregate (ep_aml (ee_policy e)) (mt_publisher t) (mt_reward t) (ec_window c)"
  let ?adm = "evaluate_earning_admission (ee_policy e) t ?p (ec_exposure c) (publisher_is_new (ee_persona e) (mt_publisher t) ?ts)"
  show thesis
  proof (cases "mt_publisher t \<noteq> ee_owner e \<and> aml_block_reason t ?ts = None \<and> \<not> fst ?aml \<and> fst ?adm = Admit_Autonomous
      \<and> ee_decide e t Admit_Autonomous = Choose_Accept \<and> snd (ee_apply e t s)")
    case True
    then have "fst (earn_one e snap t (c, s)) = cycle_outcome t Earned_Applied
        (c\<lparr>ec_exposure := ec_exposure c + mt_reward t,
           ec_window := ec_window c @ [t\<lparr>mt_status := Mkt_Accepted, mt_persona := Some (ee_persona e),
             mt_accepted_at := Some (ee_now e)\<rparr>]\<rparr>)"
      by (simp add: earn_one_def Let_def split_beta)
    then have eq: "applied_tasks (fst (earn_one e snap t (c, s))) = applied_tasks c @ [t]"
      "ec_exposure (fst (earn_one e snap t (c, s))) = ec_exposure c + mt_reward t"
      by simp_all
    have "fst ?adm = Admit_Autonomous" using True by blast
    then have "ec_exposure c + mt_reward t \<le> ep_daily_cap (ee_policy e)" "admissible_task e snap t"
      using earning_admission_cases [of "ee_policy e" t ?p "ec_exposure c" "publisher_is_new (ee_persona e) (mt_publisher t) ?ts"]
        True by (simp_all add: admissible_task_def)
    with eq show thesis by (rule applied)
  next
    case False
    then have "\<exists>x. x \<noteq> Earned_Applied \<and> fst (earn_one e snap t (c, s)) = cycle_outcome t x c" (is "\<exists>x. ?P x")
      by (cases "fst ?adm"; cases "ee_decide e t Admit_Autonomous") (auto simp: earn_one_def Let_def split_beta)
    then obtain x where x: "?P x" by blast
    show thesis by (rule that(1)) (simp_all add: x)
  qed
qed

lemma earn_all:
  assumes "fold (earn_one e snap) ts (c, s) = (c', s')" and "applied_tasks c = [] \<or> ec_exposure c \<le> ep_daily_cap (ee_policy e)"
  shows "(applied_tasks c' = [] \<or> ec_exposure c' \<le> ep_daily_cap (ee_policy e))
    \<and> (\<exists>new. applied_tasks c' = applied_tasks c @ new \<and> subseq new ts
        \<and> ec_exposure c' = ec_exposure c + sum_list (map mt_reward new) \<and> (\<forall>t \<in> set new. admissible_task e snap t))"
  using assms
proof (induction ts arbitrary: c s)
  case Nil
  then show ?case by auto
next
  case (Cons t ts)
  obtain d r where d: "earn_one e snap t (c, s) = (d, r)" by fastforce
  have run: "fold (earn_one e snap) ts (d, r) = (c', s')" using Cons.prems(1) d by simp
  show ?case
  proof (cases rule: earn_one_cases [of e snap t c s])
    case nothing
    with d have n: "applied_tasks d = applied_tasks c" "ec_exposure d = ec_exposure c" by simp_all
    from Cons.IH [OF run] Cons.prems(2) n show ?thesis by (auto intro: list_emb_Cons)
  next
    case applied
    with d have a: "applied_tasks d = applied_tasks c @ [t]" "ec_exposure d = ec_exposure c + mt_reward t"
      "ec_exposure d \<le> ep_daily_cap (ee_policy e)" by simp_all
    from Cons.IH [OF run] a(3) obtain new where n: "applied_tasks c' = applied_tasks d @ new" "subseq new ts"
      "ec_exposure c' = ec_exposure d + sum_list (map mt_reward new)" "\<forall>t \<in> set new. admissible_task e snap t"
      "applied_tasks c' = [] \<or> ec_exposure c' \<le> ep_daily_cap (ee_policy e)" by auto
    then show ?thesis using a(1,2) applied(4) by (intro conjI exI [of _ "t # new"]) auto
  qed
qed

text \<open>
  C17: whatever the decision engine answers and the pipeline does, one cycle applies for at most as many tasks
  as it may look at, never for a task of the person's own owner, only for an active person with room for
  another task, only in autonomous categories and below the reward limit; and the rewards it applies for,
  added to the exposure it saw, stay within the daily cap.
\<close>

theorem earning_cycle_within_limits:
  assumes "run_cycle_body e st rep limit tasks s = (c, s')"
  shows "length (applied_tasks c) \<le> nat (max 1 limit)
    \<and> subseq (applied_tasks c) tasks
    \<and> (applied_tasks c \<noteq> [] \<longrightarrow> st = Per_Active
         \<and> open_task_count (ee_persona e) (ee_recent e s) < ep_max_concurrent (ee_policy e)
         \<and> today_exposure (ee_persona e) (ee_now e) (ee_recent e s) + sum_list (map mt_reward (applied_tasks c))
             \<le> ep_daily_cap (ee_policy e))
    \<and> (\<forall>t \<in> set (applied_tasks c). mt_publisher t \<noteq> ee_owner e \<and> mt_reward t \<le> ep_max_reward (ee_policy e)
         \<and> resolve_category_route (ee_policy e) (mt_category t) = Route_Autonomous)"
proof -
  let ?ts = "take (nat (max 1 limit)) tasks" and ?snap = "earner_of e st rep (ee_recent e s)"
  let ?c = "\<lparr> ec_exposure = today_exposure (ee_persona e) (ee_now e) (ee_recent e s),
     ec_window = aml_window (ee_persona e) (ee_now e) (ee_recent e s), ec_outcomes = [] \<rparr>"
  have "fold (earn_one e ?snap) ?ts (?c, s) = (c, s')" using assms by (simp add: run_cycle_body_def Let_def)
  moreover have none: "applied_tasks ?c = []" by (simp add: applied_tasks_def)
  ultimately obtain new where n: "applied_tasks c = new" "subseq new ?ts"
    "ec_exposure c = ec_exposure ?c + sum_list (map mt_reward new)" "\<forall>t \<in> set new. admissible_task e ?snap t"
    "applied_tasks c = [] \<or> ec_exposure c \<le> ep_daily_cap (ee_policy e)"
    using earn_all [of e ?snap ?ts ?c s c s'] by auto
  have "length new \<le> length ?ts" by (rule list_emb_length [OF n(2)])
  then have len: "length new \<le> nat (max 1 limit)" by simp
  have sub: "subseq new tasks"
    using subseq_order.trans [OF n(2), of tasks] by (metis append_take_drop_id list_emb_append2 subseq_append_le_same_iff subseq_order.order_refl list_emb_prefix prefix_def)
  have "st = Per_Active \<and> open_task_count (ee_persona e) (ee_recent e s) < ep_max_concurrent (ee_policy e)" if "new \<noteq> []"
  proof -
    from that obtain t where "t \<in> set new" by (meson last_in_set)
    with n(4) have "admissible_task e ?snap t" by blast
    then show ?thesis by (simp add: admissible_task_def earner_of_def)
  qed
  with n len sub show ?thesis by (auto simp: admissible_task_def)
qed

text \<open>A person with one finished task of a publisher and one it works on applies for two more of three.\<close>

definition offer :: "ident \<Rightarrow> ident \<Rightarrow> ident option \<Rightarrow> market_status \<Rightarrow> rat \<Rightarrow> millis \<Rightarrow> market_task" where
  "offer i publisher p st reward ts =
     \<lparr> mt_id = i, mt_tenant = ''t'', mt_publisher = publisher, mt_persona = p, mt_fork = None, mt_title = i,
       mt_description = [], mt_category = ''research'', mt_reward = reward, mt_currency = ''CRED'', mt_status = st,
       mt_quality = None, mt_growth = None, mt_published_at = 1,
       mt_accepted_at = (if p = None then None else Some ts), mt_completed_at = None, mt_created_at = 1,
       mt_updated_at = ts, mt_kind = Kind_Persona, mt_org = None, mt_verified = False \<rparr>"

definition earner_env :: "market_task list earning_env" where
  "earner_env = \<lparr> ee_persona = ''p'', ee_owner = ''own'', ee_policy = default_earning_policy\<lparr>ep_daily_cap := 120\<rparr>,
     ee_now = 10, ee_recent = recent_market_tasks ''t'' ''own'' ''p'', ee_decide = (\<lambda>_ _. Choose_Accept),
     ee_apply = (\<lambda>_ s. (s, True)) \<rparr>"

theorem earning_cycle_within_limits_witness:
  "map mt_id (applied_tasks (fst (run_cycle_body earner_env Per_Active 50 5
      [offer ''a'' ''pub'' None Mkt_Open 40 1, offer ''b'' ''pub'' None Mkt_Open 50 2, offer ''c'' ''pub'' None Mkt_Open 30 3]
      [offer ''d'' ''pub'' (Some ''p'') Mkt_Completed 10 4, offer ''e'' ''oth'' (Some ''p'') Mkt_Accepted 45 5])))
     = [''a'', ''c'']
   \<and> length (applied_tasks (fst (run_cycle_body earner_env Per_Active 50 5
      [offer ''a'' ''pub'' None Mkt_Open 40 1, offer ''b'' ''pub'' None Mkt_Open 50 2, offer ''c'' ''pub'' None Mkt_Open 30 3]
      [offer ''d'' ''pub'' (Some ''p'') Mkt_Completed 10 4, offer ''e'' ''oth'' (Some ''p'') Mkt_Accepted 45 5])))
     \<le> nat (max 1 5)"
proof -
  let ?run = "run_cycle_body earner_env Per_Active 50 5
      [offer ''a'' ''pub'' None Mkt_Open 40 1, offer ''b'' ''pub'' None Mkt_Open 50 2, offer ''c'' ''pub'' None Mkt_Open 30 3]
      [offer ''d'' ''pub'' (Some ''p'') Mkt_Completed 10 4, offer ''e'' ''oth'' (Some ''p'') Mkt_Accepted 45 5]"
  have "map mt_id (applied_tasks (fst ?run)) = [''a'', ''c'']" by code_simp
  moreover have "length (applied_tasks (fst ?run)) \<le> nat (max 1 5)"
    using earning_cycle_within_limits [of earner_env Per_Active 50 5 _ _ "fst ?run" "snd ?run"] by simp
  ultimately show ?thesis by blast
qed

subsection \<open>What a cycle does not see\<close>

lemma sort_key_later_first:
  assumes "\<And>x y. x \<in> set xs \<Longrightarrow> y \<in> set ys \<Longrightarrow> f y < (f x :: 'k :: linorder)"
  shows "sort_key f (xs @ ys) = sort_key f ys @ sort_key f xs"
proof (rule properties_for_sort_key)
  show "mset (sort_key f ys @ sort_key f xs) = mset (xs @ ys)" by simp
  show "sorted (map f (sort_key f ys @ sort_key f xs))"
    using assms by (auto simp: sorted_append intro: less_imp_le)
  fix k assume "k \<in> set (sort_key f ys @ sort_key f xs)"
  have "filter (\<lambda>x. f k = f x) xs = [] \<or> filter (\<lambda>x. f k = f x) ys = []"
    using assms by (force simp: filter_empty_conv)
  then show "filter (\<lambda>x. f k = f x) (sort_key f ys @ sort_key f xs) = filter (\<lambda>x. f k = f x) (xs @ ys)"
    using sort_key_stable [of f "f k" xs] sort_key_stable [of f "f k" ys] by (auto simp: eq_commute [of "f k"])
qed

text \<open>
  C30: a cycle looks at twelve rows only, and its owner's own offers are among them: after twelve offers of
  the owner, more recent than everything else, the cycle sees no work of the person, so that its exposure and
  its number of open tasks count as zero, however much it has taken on, and neither limit holds any more.
\<close>

theorem earning_blind_to_older_work:
  assumes "length offers = 12" and "\<forall>t \<in> set offers. mt_tenant t = tn \<and> mt_publisher t = owner \<and> mt_persona t \<noteq> Some p"
    and "\<forall>t \<in> set offers. \<forall>u \<in> set ts. mt_updated_at u < mt_updated_at t"
  shows "open_task_count p (recent_market_tasks tn owner p (ts @ offers)) = 0
    \<and> today_exposure p now (recent_market_tasks tn owner p (ts @ offers)) = 0
    \<and> recent_failure_streak p (recent_market_tasks tn owner p (ts @ offers)) = 0
    \<and> aml_window p now (recent_market_tasks tn owner p (ts @ offers)) = []"
proof -
  let ?q = "\<lambda>t. mt_tenant t = tn \<and> (mt_publisher t = owner \<or> mt_persona t = Some p)"
  let ?s = "sort_key (\<lambda>t. - mt_updated_at t)"
  have "filter ?q (ts @ offers) = filter ?q ts @ offers" using assms(2) by (simp add: filter_id_conv)
  moreover have "?s (filter ?q ts @ offers) = ?s offers @ ?s (filter ?q ts)"
    by (rule sort_key_later_first) (use assms(3) in auto)
  ultimately have r: "recent_market_tasks tn owner p (ts @ offers) = ?s offers"
    by (simp add: recent_market_tasks_def assms(1))
  have "\<not> mt_persona t = Some p" if "t \<in> set (?s offers)" for t using assms(2) that by simp
  then have none: "filter (\<lambda>t. mt_persona t = Some p \<and> P t) (?s offers) = []" for P
    unfolding filter_empty_conv by blast
  from none [of "\<lambda>_. True"] have "filter (\<lambda>t. mt_persona t = Some p) (?s offers) = []" by simp
  with none show ?thesis unfolding r
    by (simp add: open_task_count_def today_exposure_def recent_failure_streak_def aml_window_def reward_sum_def)
qed

text \<open>A person with three tasks of 60 each, at both limits of the policy, applies for a fourth.\<close>

definition own_offers :: "market_task list" where
  "own_offers = map (\<lambda>n. offer (replicate n CHR ''o'') ''own'' None Mkt_Cancelled 1 9) [1..<13]"

definition busy_tasks :: "market_task list" where
  "busy_tasks = [offer ''x'' ''pub'' (Some ''p'') Mkt_Accepted 60 5, offer ''y'' ''oth'' (Some ''p'') Mkt_Accepted 60 6,
     offer ''z'' ''any'' (Some ''p'') Mkt_Accepted 60 7]"

theorem earning_blind_to_older_work_witness:
  "open_task_count ''p'' busy_tasks = 3 \<and> today_exposure ''p'' 10 busy_tasks = 180
   \<and> open_task_count ''p'' (recent_market_tasks ''t'' ''own'' ''p'' (busy_tasks @ own_offers)) = 0
   \<and> today_exposure ''p'' 10 (recent_market_tasks ''t'' ''own'' ''p'' (busy_tasks @ own_offers)) = 0"
proof -
  have "length own_offers = 12" by (simp add: own_offers_def)
  moreover have "\<forall>t \<in> set own_offers. mt_tenant t = ''t'' \<and> mt_publisher t = ''own'' \<and> mt_persona t \<noteq> Some ''p''"
    by (simp add: own_offers_def offer_def)
  moreover have "\<forall>t \<in> set own_offers. \<forall>u \<in> set busy_tasks. mt_updated_at u < mt_updated_at t"
    by (simp add: own_offers_def busy_tasks_def offer_def)
  moreover have "open_task_count ''p'' busy_tasks = 3" "today_exposure ''p'' 10 busy_tasks = 180" by code_simp+
  ultimately show ?thesis using earning_blind_to_older_work [of own_offers "''t''" "''own''" "''p''" busy_tasks 10] by simp
qed

text \<open>While an instance holds the lease of a person, a cycle elsewhere changes nothing.\<close>

lemma earning_cycle_waits_for_lease:
  assumes "acquire_lease (tn, p, Lease_Earning) token now earning_lease_ttl db ls = (ls', Inr None)"
  shows "\<exists>r. run_earning_cycle tn owner p policy limit token now db meanwhile decide pipeline (ls, s) = (r, Inr None)
    \<and> snd r = s"
  using assms by (simp add: run_earning_cycle_def with_lease_def split: option.split)

end
