(* ===== verification/Task_Queue.thy ===== *)
theory Task_Queue
  imports Prelude
begin

text \<open>
  The queue of background tasks in the database and the workers that poll it: \<^verbatim>\<open>TaskQueue\<close>,
  \<^verbatim>\<open>TaskWorker\<close>, the cancellation of \<^verbatim>\<open>TaskQueryService\<close> and the executors they call. A time stamp is
  read from the clock of the database (\<open>db\<close>) or of the application (\<open>now\<close>), as the code has it.
\<close>

subsection \<open>The table\<close>

datatype queue_status = Queue_Pending | Queue_Running | Queue_Completed | Queue_Failed

record queue_task =
  qt_id :: ident
  qt_tenant :: ident
  qt_type :: string
  qt_payload :: string
  qt_status :: queue_status
  qt_result :: "string option"
  qt_error :: "string option"
  qt_retries :: nat
  qt_max :: nat
  qt_created :: millis
  qt_updated :: millis
  qt_available :: millis
  qt_claimed_by :: "ident option"
  qt_claimed_at :: "millis option"
  qt_priority :: int

type_synonym queue_table = "queue_task list"

definition queue_task_by_id :: "ident \<Rightarrow> queue_table \<Rightarrow> queue_task option" where
  "queue_task_by_id i q = select_one (\<lambda>t. qt_id t = i) q"

definition queue_task_for_tenant :: "ident \<Rightarrow> ident \<Rightarrow> queue_table \<Rightarrow> queue_task option" where
  "queue_task_for_tenant i tn q = select_one (\<lambda>t. qt_id t = i \<and> qt_tenant t = tn) q"

text \<open>
  The candidate of a dequeue: highest priority, then the tenant with the fewest running tasks, then the
  oldest; three stable sorts, the least significant first.
\<close>

definition queue_running_of :: "ident \<Rightarrow> queue_table \<Rightarrow> nat" where
  "queue_running_of tn q = count_where (\<lambda>t. qt_status t = Queue_Running \<and> qt_tenant t = tn) q"

definition queue_candidate :: "millis \<Rightarrow> queue_table \<Rightarrow> queue_task option" where
  "queue_candidate ts q =
     (case sort_key (\<lambda>t. - qt_priority t) (sort_key (\<lambda>t. queue_running_of (qt_tenant t) q)
            (sort_key qt_created (filter (\<lambda>t. qt_status t = Queue_Pending \<and> qt_available t \<le> ts) q))) of
        [] \<Rightarrow> None
      | t # _ \<Rightarrow> Some t)"

definition queue_expired_ids :: "millis \<Rightarrow> nat \<Rightarrow> queue_table \<Rightarrow> ident list" where
  "queue_expired_ids cutoff batch q =
     take batch (map qt_id (filter (\<lambda>t. qt_status t \<in> {Queue_Completed, Queue_Failed} \<and> qt_updated t < cutoff) q))"

definition queue_backlog :: "ident \<Rightarrow> queue_table \<Rightarrow> nat" where
  "queue_backlog tn q = count_where (\<lambda>t. qt_tenant t = tn \<and> qt_status t \<in> {Queue_Pending, Queue_Running}) q"

text \<open>\<^verbatim>\<open>None\<close>: the primary key is taken and the statement throws.\<close>

definition queue_cmd_enqueue ::
  "ident \<Rightarrow> ident \<Rightarrow> string \<Rightarrow> string \<Rightarrow> nat \<Rightarrow> millis \<Rightarrow> int \<Rightarrow> nat \<Rightarrow> queue_table \<Rightarrow> (queue_table \<times> nat) option" where
  "queue_cmd_enqueue i tn ty payload max_retries now prio limit q =
     (if limit = 0 \<or> queue_backlog tn q < limit then
        if list_ex (\<lambda>t. qt_id t = i) q then None
        else Some (q @ [\<lparr> qt_id = i, qt_tenant = tn, qt_type = ty, qt_payload = payload,
               qt_status = Queue_Pending, qt_result = None, qt_error = None, qt_retries = 0,
               qt_max = max_retries, qt_created = now, qt_updated = now, qt_available = now,
               qt_claimed_by = None, qt_claimed_at = None, qt_priority = prio \<rparr>], 1)
      else Some (q, 0))"

definition queue_cmd_claim :: "ident \<Rightarrow> ident \<Rightarrow> millis \<Rightarrow> queue_table \<Rightarrow> queue_table \<times> nat" where
  "queue_cmd_claim i w db q =
     update_where (\<lambda>t. qt_id t = i \<and> qt_status t = Queue_Pending)
       (\<lambda>t. t\<lparr>qt_status := Queue_Running, qt_claimed_by := Some w, qt_claimed_at := Some db, qt_updated := db\<rparr>) q"

definition queue_cmd_complete :: "ident \<Rightarrow> string \<Rightarrow> millis \<Rightarrow> queue_table \<Rightarrow> queue_table \<times> nat" where
  "queue_cmd_complete i r now q =
     update_where (\<lambda>t. qt_id t = i)
       (\<lambda>t. t\<lparr>qt_status := Queue_Completed, qt_result := Some r, qt_updated := now\<rparr>) q"

definition queue_cmd_fail :: "ident \<Rightarrow> string \<Rightarrow> millis \<Rightarrow> queue_table \<Rightarrow> queue_table \<times> nat" where
  "queue_cmd_fail i e now q =
     update_where (\<lambda>t. qt_id t = i) (\<lambda>t. t\<lparr>qt_status := Queue_Failed, qt_error := Some e, qt_updated := now\<rparr>) q"

definition queue_cmd_reschedule ::
  "ident \<Rightarrow> nat \<Rightarrow> millis \<Rightarrow> string \<Rightarrow> millis \<Rightarrow> queue_table \<Rightarrow> queue_table \<times> nat" where
  "queue_cmd_reschedule i n available e now q =
     update_where (\<lambda>t. qt_id t = i) (\<lambda>t. t\<lparr>qt_status := Queue_Pending, qt_retries := n, qt_available := available,
       qt_error := Some e, qt_updated := now\<rparr>) q"

definition queue_cmd_delete_batch :: "ident list \<Rightarrow> queue_table \<Rightarrow> queue_table \<times> nat" where
  "queue_cmd_delete_batch ids q = (if ids = [] then (q, 0) else delete_where (\<lambda>t. qt_id t \<in> set ids) q)"

definition queue_stale :: "millis \<Rightarrow> millis \<Rightarrow> queue_task \<Rightarrow> bool" where
  "queue_stale stale db t \<longleftrightarrow> qt_status t = Queue_Running
     \<and> (case qt_claimed_at t of Some c \<Rightarrow> c < db - stale | None \<Rightarrow> qt_updated t < db - stale)"

definition queue_cmd_reap_retryable :: "millis \<Rightarrow> millis \<Rightarrow> queue_table \<Rightarrow> queue_table \<times> nat" where
  "queue_cmd_reap_retryable stale db q =
     update_where (\<lambda>t. queue_stale stale db t \<and> qt_retries t < qt_max t)
       (\<lambda>t. t\<lparr>qt_status := Queue_Pending, qt_claimed_by := None, qt_claimed_at := None, qt_available := db,
         qt_updated := db, qt_retries := Suc (qt_retries t)\<rparr>) q"

definition queue_cmd_reap_exhausted :: "millis \<Rightarrow> string \<Rightarrow> millis \<Rightarrow> queue_table \<Rightarrow> queue_table \<times> nat" where
  "queue_cmd_reap_exhausted stale e db q =
     update_where (\<lambda>t. queue_stale stale db t \<and> qt_max t \<le> qt_retries t)
       (\<lambda>t. t\<lparr>qt_status := Queue_Failed, qt_error := Some e, qt_claimed_by := None, qt_claimed_at := None,
         qt_updated := db\<rparr>) q"

subsection \<open>The queue\<close>

record queue_config =
  qc_max_pending :: nat
  qc_retention :: millis

definition default_queue_config :: queue_config where
  "default_queue_config = \<lparr> qc_max_pending = 1000, qc_retention = 7 * 24 * 60 * 60 * 1000 \<rparr>"

datatype queue_error = Queue_Quota_Exceeded | Queue_Constraint

definition enqueue ::
  "queue_config \<Rightarrow> ident \<Rightarrow> ident \<Rightarrow> string \<Rightarrow> string \<Rightarrow> nat \<Rightarrow> int \<Rightarrow> millis \<Rightarrow> queue_table
     \<Rightarrow> queue_table \<times> (queue_error + ident)" where
  "enqueue cfg i tn ty payload max_retries prio now q =
     (case queue_cmd_enqueue i tn ty payload max_retries now prio (qc_max_pending cfg) q of
        None \<Rightarrow> (q, Inl Queue_Constraint)
      | Some (q', n) \<Rightarrow> (q', if n = 0 then Inl Queue_Quota_Exceeded else Inr i))"

definition dequeue :: "ident \<Rightarrow> millis \<Rightarrow> millis \<Rightarrow> queue_table \<Rightarrow> queue_table \<times> queue_task option" where
  "dequeue w ts db q =
     (case queue_candidate ts q of
        None \<Rightarrow> (q, None)
      | Some t \<Rightarrow>
          let (q', n) = queue_cmd_claim (qt_id t) w db q in
          if n = 0 then (q', None) else (q', queue_task_by_id (qt_id t) q'))"

definition reap_stale_tasks :: "millis \<Rightarrow> string \<Rightarrow> millis \<Rightarrow> queue_table \<Rightarrow> queue_table \<times> nat" where
  "reap_stale_tasks stale message db q =
     (let (q1, m) = queue_cmd_reap_retryable stale db q;
          (q2, n) = queue_cmd_reap_exhausted stale message db q1 in (q2, m + n))"

text \<open>The loop of \<^verbatim>\<open>purgeCompleted\<close>: it returns the table and what it adds to \<^verbatim>\<open>total\<close>.\<close>

lemma expired_batch_shrinks:
  "queue_expired_ids cutoff batch q \<noteq> [] \<Longrightarrow>
   length (fst (queue_cmd_delete_batch (queue_expired_ids cutoff batch q) q)) < length q"
proof -
  let ?ids = "queue_expired_ids cutoff batch q"
  assume ne: "?ids \<noteq> []"
  then obtain i where i: "i \<in> set ?ids" by (meson last_in_set)
  then have "i \<in> set (map qt_id q)" unfolding queue_expired_ids_def
    by (auto dest!: in_set_takeD simp: image_iff)
  then obtain t where "t \<in> set q" "qt_id t \<in> set ?ids" using i by auto
  with ne show ?thesis
    by (simp add: queue_cmd_delete_batch_def delete_where_def length_filter_less)
qed

function purge_loop :: "millis \<Rightarrow> nat \<Rightarrow> queue_table \<Rightarrow> queue_table \<times> nat" where
  "purge_loop cutoff batch q =
     (let ids = queue_expired_ids cutoff batch q in
      if ids = [] then (q, 0)
      else let q' = fst (queue_cmd_delete_batch ids q) in
           if length ids < batch then (q', length ids)
           else let (q'', n) = purge_loop cutoff batch q' in (q'', length ids + n))"
  by pat_completeness auto
termination
  by (relation "measure (\<lambda>(_, _, q). length q)") (auto simp: expired_batch_shrinks)

declare purge_loop.simps [simp del]

definition purge_completed :: "queue_config \<Rightarrow> nat \<Rightarrow> millis \<Rightarrow> queue_table \<Rightarrow> queue_table \<times> nat" where
  "purge_completed cfg batch now q = purge_loop (now - qc_retention cfg) batch q"

subsection \<open>The worker\<close>

text \<open>
  A worker holds the rows as it dequeued them. \<^verbatim>\<open>tw_running\<close> stands for the count \<^verbatim>\<open>running\<close> and for
  \<^verbatim>\<open>activeAbortControllers\<close>, whose keys are the ids of these rows.
\<close>

record task_worker =
  tw_id :: ident
  tw_types :: "string list"
  tw_max_concurrent :: nat
  tw_max_retries :: nat
  tw_running :: "queue_task list"
  tw_saturated :: nat

text \<open>What became of the handler: its serialised result, or the error it threw or a timeout stands for.\<close>

datatype run_outcome = Run_Result string | Run_Error string

definition retry_delay :: "nat \<Rightarrow> millis" where
  "retry_delay n = min 30000 (1000 * 2 ^ n)"

definition retries_allowed :: "nat \<Rightarrow> queue_task \<Rightarrow> nat" where
  "retries_allowed dm t = (if qt_max t = 0 then dm else qt_max t)"

text \<open>The end of \<^verbatim>\<open>handleTask\<close> for the row \<open>t\<close> as it was dequeued.\<close>

definition settle_run :: "nat \<Rightarrow> queue_task \<Rightarrow> run_outcome \<Rightarrow> millis \<Rightarrow> queue_table \<Rightarrow> queue_table" where
  "settle_run dm t out now q =
     (case out of
        Run_Result r \<Rightarrow> fst (queue_cmd_complete (qt_id t) r now q)
      | Run_Error e \<Rightarrow>
          if qt_retries t + 1 < retries_allowed dm t
          then fst (queue_cmd_reschedule (qt_id t) (qt_retries t + 1) (now + retry_delay (qt_retries t)) e now q)
          else fst (queue_cmd_fail (qt_id t) e now q))"

text \<open>
  The loop of \<^verbatim>\<open>tick\<close> over the free slots: a task without a handler is refused at once. It returns the
  table and the rows that were started.
\<close>

fun start_tasks :: "task_worker \<Rightarrow> string \<Rightarrow> millis \<Rightarrow> millis \<Rightarrow> nat \<Rightarrow> queue_table \<Rightarrow> queue_table \<times> queue_task list" where
  "start_tasks w unknown now db 0 q = (q, [])"
| "start_tasks w unknown now db (Suc slots) q =
     (case dequeue (tw_id w) now db q of
        (q', None) \<Rightarrow> (q', [])
      | (q', Some t) \<Rightarrow>
          let q1 = if qt_type t \<in> set (tw_types w) then q' else fst (queue_cmd_fail (qt_id t) unknown now q');
              (q2, ts) = start_tasks w unknown now db slots q1 in
          (q2, t # ts))"

definition worker_tick ::
  "string \<Rightarrow> millis \<Rightarrow> millis \<Rightarrow> task_worker \<times> queue_table \<Rightarrow> task_worker \<times> queue_table" where
  "worker_tick unknown now db s =
     (case s of (w, q) \<Rightarrow>
        let (q', ts) = start_tasks w unknown now db (tw_max_concurrent w - length (tw_running w)) q;
            running = tw_running w @ ts in
        (w\<lparr>tw_running := running,
           tw_saturated := if ts = [] \<and> tw_max_concurrent w \<le> length running then Suc (tw_saturated w) else 0\<rparr>, q'))"

definition worker_finish ::
  "queue_task \<Rightarrow> run_outcome \<Rightarrow> millis \<Rightarrow> task_worker \<times> queue_table \<Rightarrow> task_worker \<times> queue_table" where
  "worker_finish t out now s =
     (case s of (w, q) \<Rightarrow>
        (w\<lparr>tw_running := remove1 t (tw_running w)\<rparr>,
         if qt_type t \<in> set (tw_types w) then settle_run (tw_max_retries w) t out now q else q))"

definition stall_threshold :: nat where
  "stall_threshold = 30"

definition worker_healthy :: "bool \<Rightarrow> task_worker \<Rightarrow> bool" where
  "worker_healthy started w \<longleftrightarrow>
     started \<and> (length (tw_running w) < tw_max_concurrent w \<or> tw_saturated w < stall_threshold)"

text \<open>
  \<^verbatim>\<open>cancelTask\<close> of the service: \<^verbatim>\<open>None\<close> is the answer 404. The abort makes the run of the task end with
  an error, which the worker meets later: \<open>worker_finish\<close> with a \<open>Run_Error\<close>.
\<close>

definition cancel_task ::
  "ident \<Rightarrow> ident \<Rightarrow> string \<Rightarrow> millis \<Rightarrow> task_worker \<times> queue_table \<Rightarrow> queue_table \<times> bool option" where
  "cancel_task tn i reason now s =
     (case s of (w, q) \<Rightarrow>
        (case queue_task_for_tenant i tn q of
           None \<Rightarrow> (q, None)
         | Some t \<Rightarrow>
             if list_ex (\<lambda>r. qt_id r = i \<and> qt_type r \<in> set (tw_types w)) (tw_running w)
             then (fst (queue_cmd_fail i reason now q), Some True)
             else (q, Some False)))"

subsection \<open>A claim\<close>

definition queue_keyed :: "queue_table \<Rightarrow> bool" where
  "queue_keyed q \<longleftrightarrow> distinct (map qt_id q)"

lemma queue_cmd_ids:
  "map qt_id (fst (queue_cmd_claim i w db q)) = map qt_id q"
  "map qt_id (fst (queue_cmd_complete i r now q)) = map qt_id q"
  "map qt_id (fst (queue_cmd_fail i e now q)) = map qt_id q"
  "map qt_id (fst (queue_cmd_reschedule i n av e now q)) = map qt_id q"
  "map qt_id (fst (queue_cmd_reap_retryable stale db q)) = map qt_id q"
  "map qt_id (fst (queue_cmd_reap_exhausted stale e db q)) = map qt_id q"
  by (simp_all add: queue_cmd_claim_def queue_cmd_complete_def queue_cmd_fail_def queue_cmd_reschedule_def
      queue_cmd_reap_retryable_def queue_cmd_reap_exhausted_def update_where_def)

lemma settle_run_ids: "map qt_id (settle_run dm t out now q) = map qt_id q"
  by (cases out) (simp_all add: settle_run_def queue_cmd_ids)

lemma reap_ids: "map qt_id (fst (reap_stale_tasks stale e db q)) = map qt_id q"
  by (simp add: reap_stale_tasks_def queue_cmd_ids split_beta)

lemma purge_loop_subset: "set (fst (purge_loop cutoff batch q)) \<subseteq> set q"
proof (induction cutoff batch q rule: purge_loop.induct)
  case (1 cutoff batch q)
  have del: "set (fst (queue_cmd_delete_batch ids q)) \<subseteq> set q" for ids
    by (auto simp: queue_cmd_delete_batch_def delete_where_def)
  show ?case
    using 1 del [of "queue_expired_ids cutoff batch q"]
    by (subst purge_loop.simps) (auto simp: Let_def split_beta)
qed

lemma distinct_filter_ids: "distinct (map qt_id q) \<Longrightarrow> distinct (map qt_id (filter p q))"
  by (induction q) auto

lemma purge_loop_keyed: "queue_keyed q \<Longrightarrow> queue_keyed (fst (purge_loop cutoff batch q))"
proof (induction cutoff batch q rule: purge_loop.induct)
  case (1 cutoff batch q)
  have "queue_keyed (fst (queue_cmd_delete_batch ids q))" for ids
    using 1(2) by (auto simp: queue_keyed_def queue_cmd_delete_batch_def delete_where_def distinct_filter_ids)
  with 1 show ?case by (subst purge_loop.simps) (auto simp: Let_def split_beta)
qed

text \<open>
  The requests that may reach the table in any order. The select of a dequeue and its claim are two
  statements, which in PostgreSQL other transactions may come between: the claim is a request of its own.
\<close>

datatype queue_request =
    Qr_Enqueue queue_config ident ident string string nat int millis
  | Qr_Claim ident ident millis
  | Qr_Finish nat queue_task run_outcome millis
  | Qr_Fail ident string millis
  | Qr_Reap millis string millis
  | Qr_Purge queue_config nat millis

fun queue_attempt :: "queue_request \<Rightarrow> queue_table \<Rightarrow> queue_table \<times> bool" where
  "queue_attempt (Qr_Enqueue cfg i tn ty p m prio now) q = (fst (enqueue cfg i tn ty p m prio now q), False)"
| "queue_attempt (Qr_Claim i w db) q = (case queue_cmd_claim i w db q of (q', n) \<Rightarrow> (q', n \<noteq> 0))"
| "queue_attempt (Qr_Finish dm t out now) q = (settle_run dm t out now q, False)"
| "queue_attempt (Qr_Fail i e now) q = (fst (queue_cmd_fail i e now q), False)"
| "queue_attempt (Qr_Reap stale e db) q = (fst (reap_stale_tasks stale e db q), False)"
| "queue_attempt (Qr_Purge cfg batch now) q = (fst (purge_completed cfg batch now q), False)"

fun claim_key :: "queue_request \<Rightarrow> ident" where
  "claim_key (Qr_Claim i w db) = i"
| "claim_key _ = []"

definition waiting_task :: "queue_table \<Rightarrow> ident \<Rightarrow> bool" where
  "waiting_task q i \<longleftrightarrow> (\<exists>t \<in> set q. qt_id t = i \<and> qt_status t = Queue_Pending)"

text \<open>What can make a task wait again: its own creation, a failed run that is retried, and the reaper.\<close>

fun reopens_task :: "queue_request \<Rightarrow> ident \<Rightarrow> bool" where
  "reopens_task (Qr_Enqueue cfg i tn ty p m prio now) j = (i = j)"
| "reopens_task (Qr_Finish dm t out now) j = (qt_id t = j \<and> (\<exists>e. out = Run_Error e) \<and> qt_retries t + 1 < retries_allowed dm t)"
| "reopens_task (Qr_Reap stale e db) j = True"
| "reopens_task _ j = False"

lemma queue_attempt_keyed: "queue_keyed q \<Longrightarrow> queue_keyed (fst (queue_attempt a q))"
  by (cases a)
    (auto simp: queue_keyed_def queue_cmd_ids settle_run_ids reap_ids purge_completed_def enqueue_def
      queue_cmd_enqueue_def list_ex_iff split_beta purge_loop_keyed [unfolded queue_keyed_def] split: option.split)

lemma queue_attempt_closed:
  assumes "\<not> waiting_task q i" "\<not> reopens_task a i"
  shows "\<not> waiting_task (fst (queue_attempt a q)) i"
proof (cases a)
  case (Qr_Enqueue cfg j tn ty p m prio now)
  with assms show ?thesis
    by (auto simp: waiting_task_def enqueue_def queue_cmd_enqueue_def split: option.split)
next
  case (Qr_Finish dm t out now)
  with assms show ?thesis
    by (cases out) (auto simp: waiting_task_def settle_run_def queue_cmd_complete_def queue_cmd_fail_def
        queue_cmd_reschedule_def update_where_def split: if_splits)
next
  case (Qr_Purge cfg batch now)
  with assms show ?thesis
    using purge_loop_subset [of "now - qc_retention cfg" batch q] by (auto simp: waiting_task_def purge_completed_def)
qed (use assms in \<open>auto simp: waiting_task_def queue_cmd_claim_def queue_cmd_fail_def update_where_def split: if_splits\<close>)

lemma queue_attempt_won:
  assumes "snd (queue_attempt a q)"
  shows "waiting_task q (claim_key a)" and "\<not> waiting_task (fst (queue_attempt a q)) (claim_key a)"
proof -
  obtain i w db where a: "a = Qr_Claim i w db" using assms by (cases a) auto
  have "snd (queue_cmd_claim i w db q) \<noteq> 0" using assms a by (simp add: split_beta)
  then show "waiting_task q (claim_key a)"
    by (auto simp: a waiting_task_def queue_cmd_claim_def update_where_misses)
  have "fst (queue_attempt a q) = fst (queue_cmd_claim i w db q)" by (simp add: a split_beta)
  then show "\<not> waiting_task (fst (queue_attempt a q)) (claim_key a)"
    by (auto simp: a waiting_task_def queue_cmd_claim_def split: if_splits)
qed

interpretation queue_claims: guarded_one_shot queue_attempt claim_key waiting_task reopens_task queue_keyed
  by unfold_locales
    (erule queue_attempt_keyed, erule queue_attempt_won(1), erule queue_attempt_won(2), erule (1) queue_attempt_closed)

text \<open>
  C19: a task is handed to a worker at most once for each time it became pending: when it is enqueued, when a
  run of it fails and is retried, or when the reaper takes it back; whatever the order of the statements,
  also when another worker comes between the select and the claim of a dequeue.
\<close>

theorem task_claimed_once_per_opening:
  assumes "queue_keyed q"
  shows "wins claim_key i as (snd (run_attempts queue_attempt as q))
    \<le> (if waiting_task q i then 1 else 0) + count_where (\<lambda>a. reopens_task a i) as"
  by (rule queue_claims.guarded_wins_bound [OF assms])

definition sample_task :: "ident \<Rightarrow> nat \<Rightarrow> queue_task" where
  "sample_task i m = \<lparr> qt_id = i, qt_tenant = ''t'', qt_type = ''job'', qt_payload = ''{}'',
     qt_status = Queue_Pending, qt_result = None, qt_error = None, qt_retries = 0, qt_max = m, qt_created = 1,
     qt_updated = 1, qt_available = 1, qt_claimed_by = None, qt_claimed_at = None, qt_priority = 0 \<rparr>"

lemma sample_task_max: "qt_max (sample_task i m) = m"
  by (simp add: sample_task_def)

theorem task_claimed_once_per_opening_witness:
  "wins claim_key ''x'' [Qr_Claim ''x'' ''a'' 2, Qr_Claim ''x'' ''b'' 2, Qr_Reap 5 ''late'' 9, Qr_Claim ''x'' ''b'' 10]
     (snd (run_attempts queue_attempt
        [Qr_Claim ''x'' ''a'' 2, Qr_Claim ''x'' ''b'' 2, Qr_Reap 5 ''late'' 9, Qr_Claim ''x'' ''b'' 10]
        [sample_task ''x'' 3])) \<le> 2"
proof -
  have k: "queue_keyed [sample_task ''x'' 3]" by (simp add: queue_keyed_def)
  have "(if waiting_task [sample_task ''x'' 3] ''x'' then 1 else 0) + count_where (\<lambda>a. reopens_task a ''x'')
      [Qr_Claim ''x'' ''a'' 2, Qr_Claim ''x'' ''b'' 2, Qr_Reap 5 ''late'' 9, Qr_Claim ''x'' ''b'' 10] \<le> (2::nat)"
    by simp
  with task_claimed_once_per_opening [OF k, of "''x''"
      "[Qr_Claim ''x'' ''a'' 2, Qr_Claim ''x'' ''b'' 2, Qr_Reap 5 ''late'' 9, Qr_Claim ''x'' ''b'' 10]"]
  show ?thesis by linarith
qed

subsection \<open>A task that keeps failing\<close>

lemma queue_task_by_id_unique:
  "queue_keyed q \<Longrightarrow> t \<in> set q \<Longrightarrow> queue_task_by_id (qt_id t) q = Some t"
  unfolding queue_keyed_def queue_task_by_id_def by (rule select_one_unique [where key = qt_id]) auto

lemma queue_task_by_id_D: "queue_task_by_id i q = Some t \<Longrightarrow> t \<in> set q \<and> qt_id t = i"
  by (auto simp: queue_task_by_id_def dest: select_one_SomeD)

lemma queue_task_by_id_update:
  assumes "queue_keyed q" "queue_task_by_id i q = Some t" "\<And>r. qt_id (f r) = qt_id r"
    "\<And>r. p r \<Longrightarrow> qt_id r = i"
  shows "queue_task_by_id i (fst (update_where p f q)) = Some (if p t then f t else t)"
  using assms(2,3) unfolding queue_task_by_id_def by (subst select_one_update_where) auto

lemma claim_row:
  assumes "queue_keyed q" "queue_task_by_id i q = Some t"
  shows "queue_task_by_id i (fst (queue_cmd_claim i w db q)) = Some (if qt_status t = Queue_Pending
     then t\<lparr>qt_status := Queue_Running, qt_claimed_by := Some w, qt_claimed_at := Some db, qt_updated := db\<rparr> else t)"
    and "snd (queue_cmd_claim i w db q) = 0 \<longleftrightarrow> qt_status t \<noteq> Queue_Pending"
proof -
  have t: "t \<in> set q" "qt_id t = i" using queue_task_by_id_D [OF assms(2)] by simp_all
  show "queue_task_by_id i (fst (queue_cmd_claim i w db q)) = Some (if qt_status t = Queue_Pending
     then t\<lparr>qt_status := Queue_Running, qt_claimed_by := Some w, qt_claimed_at := Some db, qt_updated := db\<rparr> else t)"
    unfolding queue_cmd_claim_def using t(2) by (subst queue_task_by_id_update [OF assms]) simp_all
  have "\<forall>r \<in> set q. qt_id r = i \<longrightarrow> r = t"
    using queue_task_by_id_unique [OF assms(1)] assms(2) by force
  with t show "snd (queue_cmd_claim i w db q) = 0 \<longleftrightarrow> qt_status t \<noteq> Queue_Pending"
    unfolding queue_cmd_claim_def update_where_misses by blast
qed

lemma settle_row:
  assumes "queue_keyed q" "queue_task_by_id i q = Some r" "qt_id t = i"
  shows "queue_task_by_id i (settle_run dm t (Run_Error e) now q) = Some
    (if qt_retries t + 1 < retries_allowed dm t
     then r\<lparr>qt_status := Queue_Pending, qt_retries := qt_retries t + 1,
            qt_available := now + retry_delay (qt_retries t), qt_error := Some e, qt_updated := now\<rparr>
     else r\<lparr>qt_status := Queue_Failed, qt_error := Some e, qt_updated := now\<rparr>)"
  using queue_task_by_id_D [OF assms(2)] assms(3)
  by (auto simp: settle_run_def queue_cmd_reschedule_def queue_cmd_fail_def queue_task_by_id_update [OF assms(1,2)])

text \<open>One worker claims the task whenever it is pending, and every run of it ends with an error.\<close>

fun failing_runs :: "nat \<Rightarrow> ident \<Rightarrow> ident \<Rightarrow> (millis \<times> string) list \<Rightarrow> queue_table \<Rightarrow> queue_table" where
  "failing_runs dm w i [] q = q"
| "failing_runs dm w i ((now, e) # rs) q =
     (case queue_cmd_claim i w now q of
        (q', n) \<Rightarrow>
          (case queue_task_by_id i q' of
             Some t \<Rightarrow> failing_runs dm w i rs (if n = 0 then q' else settle_run dm t (Run_Error e) now q')
           | None \<Rightarrow> q'))"

lemma failing_runs_over:
  "queue_keyed q \<Longrightarrow> queue_task_by_id i q = Some t \<Longrightarrow> qt_status t \<noteq> Queue_Pending \<Longrightarrow>
   queue_task_by_id i (failing_runs dm w i rs q) = Some t"
proof (induction rs arbitrary: q)
  case (Cons r rs)
  obtain now e where r: "r = (now, e)" by fastforce
  note c = claim_row [OF Cons.prems(1,2), of w now]
  have "queue_keyed (fst (queue_cmd_claim i w now q))"
    using Cons.prems(1) by (simp add: queue_keyed_def queue_cmd_ids)
  with Cons.IH [OF this] Cons.prems(3) c show ?case by (simp add: r split_beta)
qed simp

lemma failing_runs_count:
  "queue_keyed q \<Longrightarrow> queue_task_by_id i q = Some t \<Longrightarrow> qt_status t = Queue_Pending \<Longrightarrow>
   (qt_retries t + length rs < max (qt_retries t + 1) (retries_allowed dm t) \<longrightarrow>
     (\<exists>u. queue_task_by_id i (failing_runs dm w i rs q) = Some u \<and> qt_status u = Queue_Pending
        \<and> qt_retries u = qt_retries t + length rs))
   \<and> (max (qt_retries t + 1) (retries_allowed dm t) \<le> qt_retries t + length rs \<longrightarrow>
     (\<exists>u. queue_task_by_id i (failing_runs dm w i rs q) = Some u \<and> qt_status u = Queue_Failed
        \<and> qt_retries u + 1 = max (qt_retries t + 1) (retries_allowed dm t)))"
proof (induction rs arbitrary: q t)
  case Nil
  then show ?case by simp
next
  case (Cons r rs)
  obtain now e where r: "r = (now, e)" by fastforce
  let ?q = "fst (queue_cmd_claim i w now q)"
  let ?c = "t\<lparr>qt_status := Queue_Running, qt_claimed_by := Some w, qt_claimed_at := Some now, qt_updated := now\<rparr>"
  let ?q2 = "settle_run dm ?c (Run_Error e) now ?q"
  have i: "qt_id t = i" using queue_task_by_id_D [OF Cons.prems(2)] by simp
  have c: "queue_task_by_id i ?q = Some ?c" "snd (queue_cmd_claim i w now q) \<noteq> 0"
    using claim_row [OF Cons.prems(1,2), of w now] Cons.prems(3) by simp_all
  have k: "queue_keyed ?q" "queue_keyed ?q2"
    using Cons.prems(1) by (simp_all add: queue_keyed_def queue_cmd_ids settle_run_ids)
  have eq: "failing_runs dm w i (r # rs) q = failing_runs dm w i rs ?q2"
    using c by (simp add: r split_beta)
  have a: "retries_allowed dm ?c = retries_allowed dm t" by (simp add: retries_allowed_def)
  note row = settle_row [OF k(1) c(1), of ?c dm e now]
  show ?case
  proof (cases "qt_retries t + 1 < retries_allowed dm t")
    case True
    let ?u = "?c\<lparr>qt_status := Queue_Pending, qt_retries := qt_retries t + 1,
            qt_available := now + retry_delay (qt_retries t), qt_error := Some e, qt_updated := now\<rparr>"
    have u: "queue_task_by_id i ?q2 = Some ?u" using row True a i by simp
    have au: "retries_allowed dm ?u = retries_allowed dm t" by (simp add: retries_allowed_def)
    from Cons.IH [OF k(2) u] show ?thesis unfolding eq using True au by (simp add: max_def split: if_splits)
  next
    case False
    let ?u = "?c\<lparr>qt_status := Queue_Failed, qt_error := Some e, qt_updated := now\<rparr>"
    have "queue_task_by_id i ?q2 = Some ?u" using row False a i by simp
    then have "queue_task_by_id i (failing_runs dm w i (r # rs) q) = Some ?u"
      unfolding eq by (rule failing_runs_over [OF k(2)]) simp
    with False show ?thesis by (simp add: max_def)
  qed
qed

text \<open>
  C18: a task whose runs all fail is failed for good after as many runs as its \<^verbatim>\<open>max_retries\<close> says (after
  one, if that is 1), and not before; but a task for which no retries were asked, \<^verbatim>\<open>max_retries\<close> 0, is run
  as often as the worker's default says.
\<close>

theorem failing_task_gives_up:
  assumes "queue_keyed q" and "queue_task_by_id i q = Some t" and "qt_status t = Queue_Pending" and "qt_retries t = 0"
  shows "(length rs < max 1 (if qt_max t = 0 then dm else qt_max t) \<longrightarrow>
      (\<exists>u. queue_task_by_id i (failing_runs dm w i rs q) = Some u \<and> qt_status u = Queue_Pending \<and> qt_retries u = length rs))
    \<and> (max 1 (if qt_max t = 0 then dm else qt_max t) \<le> length rs \<longrightarrow>
      (\<exists>u. queue_task_by_id i (failing_runs dm w i rs q) = Some u \<and> qt_status u = Queue_Failed))"
  using failing_runs_count [OF assms(1-3), of rs dm w] assms(4) by (auto simp: retries_allowed_def)

theorem failing_task_gives_up_witness:
  "(\<exists>u. queue_task_by_id ''x'' (failing_runs 3 ''w'' ''x'' [(2, ''e''), (5, ''e'')] [sample_task ''x'' 0]) = Some u
     \<and> qt_status u = Queue_Pending \<and> qt_retries u = 2)
   \<and> (\<exists>u. queue_task_by_id ''x'' (failing_runs 3 ''w'' ''x'' [(2, ''e''), (5, ''e''), (9, ''e'')] [sample_task ''x'' 0]) = Some u
     \<and> qt_status u = Queue_Failed)"
proof -
  have p: "queue_keyed [sample_task ''x'' 0]" "queue_task_by_id ''x'' [sample_task ''x'' 0] = Some (sample_task ''x'' 0)"
    "qt_status (sample_task ''x'' 0) = Queue_Pending" "qt_retries (sample_task ''x'' 0) = 0"
    by (simp_all add: queue_keyed_def queue_task_by_id_def sample_task_def)
  from failing_task_gives_up [OF p, of "[(2, ''e''), (5, ''e'')]" 3 "''w''"]
    failing_task_gives_up [OF p, of "[(2, ''e''), (5, ''e''), (9, ''e'')]" 3 "''w''"]
  show ?thesis by (simp add: sample_task_max numeral_2_eq_2 numeral_3_eq_3 del: failing_runs.simps)
qed

subsection \<open>A task that is cancelled\<close>

text \<open>
  cancelling a running task marks it failed and aborts its run; the abort ends the run with an error, and
  as long as retries are left that error puts the cancelled task back into the queue, from which a worker
  takes it and runs it again.
\<close>

theorem cancelled_task_runs_again:
  assumes "queue_keyed q" and "t \<in> set (tw_running w)" and "qt_type t \<in> set (tw_types w)"
    and "queue_task_for_tenant (qt_id t) tn q = Some r" and "qt_retries t + 1 < retries_allowed (tw_max_retries w) t"
  shows "\<exists>q' u. cancel_task tn (qt_id t) reason now (w, q) = (q', Some True)
    \<and> queue_task_by_id (qt_id t) q' = Some u \<and> qt_status u = Queue_Failed
    \<and> (\<exists>q'' v. snd (worker_finish t (Run_Error e) later (w, q')) = q''
         \<and> queue_task_by_id (qt_id t) q'' = Some v \<and> qt_status v = Queue_Pending
         \<and> snd (queue_cmd_claim (qt_id t) other db q'') \<noteq> 0)"
proof -
  let ?i = "qt_id t" and ?q = "fst (queue_cmd_fail (qt_id t) reason now q)"
  let ?q2 = "settle_run (tw_max_retries w) t (Run_Error e) later ?q"
  have r: "r \<in> set q" "qt_id r = ?i" using assms(4) by (auto simp: queue_task_for_tenant_def dest: select_one_SomeD)
  have by_id: "queue_task_by_id ?i q = Some r" using queue_task_by_id_unique [OF assms(1) r(1)] r(2) by simp
  have c: "cancel_task tn ?i reason now (w, q) = (?q, Some True)"
    using assms(2-4) by (auto simp: cancel_task_def list_ex_iff)
  have k: "queue_keyed ?q" "queue_keyed ?q2"
    using assms(1) by (simp_all add: queue_keyed_def queue_cmd_ids settle_run_ids)
  have f: "queue_task_by_id ?i ?q = Some (r\<lparr>qt_status := Queue_Failed, qt_error := Some reason, qt_updated := now\<rparr>)"
    using r(2) unfolding queue_cmd_fail_def by (subst queue_task_by_id_update [OF assms(1) by_id]) simp_all
  from settle_row [OF k(1) f refl, of "tw_max_retries w" e later] assms(5)
  obtain v where v: "queue_task_by_id ?i ?q2 = Some v" "qt_status v = Queue_Pending" by auto
  have "snd (queue_cmd_claim ?i other db ?q2) \<noteq> 0" using claim_row(2) [OF k(2) v(1)] v(2) by simp
  with c f v assms(3) show ?thesis by (auto simp: worker_finish_def)
qed

text \<open>A worker starts a task, its owner cancels it, and the next poll starts it again.\<close>

definition one_worker :: task_worker where
  "one_worker = \<lparr> tw_id = ''w'', tw_types = [''job''], tw_max_concurrent = 2, tw_max_retries = 3, tw_running = [],
     tw_saturated = 0 \<rparr>"

theorem cancelled_task_runs_again_witness:
  "\<exists>w t q. worker_tick ''?'' 2 2 (one_worker, [sample_task ''x'' 3]) = (w, q) \<and> tw_running w = [t]
     \<and> (\<exists>q' u. cancel_task ''t'' ''x'' ''cancelled'' 3 (w, q) = (q', Some True)
         \<and> queue_task_by_id ''x'' q' = Some u \<and> qt_status u = Queue_Failed
         \<and> snd (queue_cmd_claim ''x'' ''w'' 9 (snd (worker_finish t (Run_Error ''timeout'') 4 (w, q')))) \<noteq> 0)"
proof -
  let ?t = "(sample_task ''x'' 3)\<lparr>qt_status := Queue_Running, qt_claimed_by := Some ''w'', qt_claimed_at := Some 2, qt_updated := 2\<rparr>"
  let ?w = "one_worker\<lparr>tw_running := [?t]\<rparr>"
  have tick: "worker_tick ''?'' 2 2 (one_worker, [sample_task ''x'' 3]) = (?w, [?t])" by code_simp
  have "queue_keyed [?t]" "?t \<in> set (tw_running ?w)" "qt_type ?t \<in> set (tw_types ?w)"
    "queue_task_for_tenant (qt_id ?t) ''t'' [?t] = Some ?t" "qt_retries ?t + 1 < retries_allowed (tw_max_retries ?w) ?t"
    by (simp_all add: queue_keyed_def sample_task_def one_worker_def queue_task_for_tenant_def retries_allowed_def)
  from cancelled_task_runs_again [OF this, of "''cancelled''" 3 "''timeout''" 4 "''w''" 9]
  obtain q' u where c: "cancel_task ''t'' (qt_id ?t) ''cancelled'' 3 (?w, [?t]) = (q', Some True)"
    "queue_task_by_id (qt_id ?t) q' = Some u" "qt_status u = Queue_Failed"
    "snd (queue_cmd_claim (qt_id ?t) ''w'' 9 (snd (worker_finish ?t (Run_Error ''timeout'') 4 (?w, q')))) \<noteq> 0"
    by blast
  have i: "qt_id ?t = ''x''" by (simp add: sample_task_def)
  show ?thesis
    by (rule exI [of _ ?w], rule exI [of _ ?t], rule exI [of _ "[?t]"], intro conjI exI, rule tick, simp)
      (use c in \<open>simp_all only: i\<close>)
qed

subsection \<open>Purging\<close>

definition expired_task :: "millis \<Rightarrow> queue_task \<Rightarrow> bool" where
  "expired_task cutoff t \<longleftrightarrow> qt_status t \<in> {Queue_Completed, Queue_Failed} \<and> qt_updated t < cutoff"

lemma expired_ids_take: "queue_expired_ids cutoff batch q = map qt_id (take batch (filter (expired_task cutoff) q))"
  by (simp add: queue_expired_ids_def expired_task_def [abs_def] take_map)

lemma delete_expired_batch:
  assumes "queue_keyed q" and ids: "ids = queue_expired_ids cutoff batch q"
  defines "q' \<equiv> fst (queue_cmd_delete_batch ids q)"
  shows "filter (\<lambda>t. \<not> expired_task cutoff t) q' = filter (\<lambda>t. \<not> expired_task cutoff t) q"
    and "count_where (expired_task cutoff) q' + length ids = count_where (expired_task cutoff) q"
proof -
  let ?e = "expired_task cutoff"
  have q': "q' = filter (\<lambda>t. qt_id t \<notin> set ids) q"
    by (auto simp: q'_def queue_cmd_delete_batch_def delete_where_def filter_id_conv)
  have exp: "?e t" if "t \<in> set q" "qt_id t \<in> set ids" for t
  proof -
    from that(2) obtain u where u: "u \<in> set (take batch (filter ?e q))" "qt_id u = qt_id t"
      unfolding ids expired_ids_take by auto
    then have "u \<in> set (filter ?e q)" by (meson in_set_takeD)
    then have "u \<in> set q" "?e u" by simp_all
    moreover have "u = t"
      using queue_task_by_id_unique [OF assms(1) \<open>u \<in> set q\<close>] queue_task_by_id_unique [OF assms(1) that(1)] u(2)
      by (metis option.inject)
    ultimately show ?thesis by simp
  qed
  show "filter (\<lambda>t. \<not> ?e t) q' = filter (\<lambda>t. \<not> ?e t) q"
    unfolding q' filter_filter by (rule filter_cong [OF refl]) (use exp in blast)
  let ?f = "filter ?e q"
  have dk: "distinct (map qt_id ?f)" using assms(1) by (simp add: queue_keyed_def distinct_filter_ids)
  have "filter ?e q' = filter (\<lambda>t. qt_id t \<notin> set ids) ?f"
    unfolding q' filter_filter by (rule filter_cong) auto
  also have "\<dots> = drop batch ?f"
  proof -
    have d: "distinct (map qt_id (take batch ?f @ drop batch ?f))" using dk by simp
    have "filter (\<lambda>t. qt_id t \<notin> set ids) (take batch ?f) = []"
      unfolding ids expired_ids_take by (auto simp: filter_empty_conv)
    moreover have "filter (\<lambda>t. qt_id t \<notin> set ids) (drop batch ?f) = drop batch ?f"
      using d unfolding ids expired_ids_take by (auto simp: filter_id_conv simp del: append_take_drop_id)
    ultimately show ?thesis by (metis append_Nil append_take_drop_id filter_append)
  qed
  finally have "count_where ?e q' = length ?f - batch" by (simp add: count_where_def)
  moreover have "length ids = min batch (length ?f)" by (simp add: ids expired_ids_take)
  ultimately show "count_where ?e q' + length ids = count_where ?e q" by (simp add: count_where_def)
qed

lemma purge_loop_spec:
  "queue_keyed q \<Longrightarrow> 0 < batch \<Longrightarrow>
   purge_loop cutoff batch q = (filter (\<lambda>t. \<not> expired_task cutoff t) q, count_where (expired_task cutoff) q)"
proof (induction cutoff batch q rule: purge_loop.induct)
  case (1 cutoff batch q)
  let ?e = "expired_task cutoff" and ?ids = "queue_expired_ids cutoff batch q"
  let ?q = "fst (queue_cmd_delete_batch ?ids q)"
  note del = delete_expired_batch [OF 1(2) refl, of cutoff batch]
  have k: "queue_keyed ?q" using 1(2)
    by (auto simp: queue_keyed_def queue_cmd_delete_batch_def delete_where_def distinct_filter_ids)
  have none: "filter (\<lambda>t. \<not> ?e t) p = p \<and> count_where ?e p = 0" if "filter ?e p = []" for p
    using that by (simp add: filter_empty_conv filter_id_conv count_where_0_iff)
  show ?case
  proof (cases "?ids = []")
    case True
    then have "filter ?e q = []" using 1(3) by (simp add: expired_ids_take)
    with none [of q] True show ?thesis by (subst purge_loop.simps) simp
  next
    case some: False
    show ?thesis
    proof (cases "length ?ids < batch")
      case True
      then have "length ?ids = count_where ?e q" by (simp add: expired_ids_take count_where_def)
      with del(2) have "count_where ?e ?q = 0" by simp
      then have "filter (\<lambda>t. \<not> ?e t) ?q = ?q" by (simp add: count_where_0_iff filter_id_conv)
      with del(1) have "?q = filter (\<lambda>t. \<not> ?e t) q" by simp
      with some True \<open>length ?ids = count_where ?e q\<close> show ?thesis by (subst purge_loop.simps) (simp add: Let_def)
    next
      case False
      with 1(1) [OF refl some refl False k 1(3)] some del show ?thesis
        by (subst purge_loop.simps) (simp add: Let_def)
    qed
  qed
qed

text \<open>
  C29: purging in batches ends and deletes exactly the finished tasks that are older than the retention time,
  and reports their number, whatever the size of the batches.
\<close>

theorem purge_deletes_exactly_expired:
  assumes "queue_keyed q" and "0 < batch"
  shows "purge_completed cfg batch now q
    = (filter (\<lambda>t. \<not> (qt_status t \<in> {Queue_Completed, Queue_Failed} \<and> qt_updated t < now - qc_retention cfg)) q,
       length (filter (\<lambda>t. qt_status t \<in> {Queue_Completed, Queue_Failed} \<and> qt_updated t < now - qc_retention cfg) q))"
  unfolding purge_completed_def purge_loop_spec [OF assms] by (simp add: expired_task_def [abs_def] count_where_def)

theorem purge_deletes_exactly_expired_witness:
  "purge_completed \<lparr> qc_max_pending = 0, qc_retention = 5 \<rparr> 1 20
     [(sample_task ''x'' 3)\<lparr>qt_status := Queue_Failed\<rparr>, sample_task ''y'' 3, (sample_task ''z'' 3)\<lparr>qt_status := Queue_Completed\<rparr>]
   = ([sample_task ''y'' 3], 2)"
proof -
  let ?q = "[(sample_task ''x'' 3)\<lparr>qt_status := Queue_Failed\<rparr>, sample_task ''y'' 3,
    (sample_task ''z'' 3)\<lparr>qt_status := Queue_Completed\<rparr>]"
  have "queue_keyed ?q" by (simp add: queue_keyed_def sample_task_def)
  from purge_deletes_exactly_expired [OF this, of 1 "\<lparr> qc_max_pending = 0, qc_retention = 5 \<rparr>" 20]
  show ?thesis by (simp add: sample_task_def)
qed

end
