(* ===== verification/Update_Gate.thy ===== *)
theory Update_Gate
  imports Prelude Complex_Main
begin

text \<open>
  The gate on changes of a person's core: the one decision of the kernel, \<^verbatim>\<open>decideCoreUpdateGate\<close>, the
  adapter \<^verbatim>\<open>UpdateGate\<close> with its proposals, and their executors. Thresholds are exact, where the code uses
  binary fractions; \<open>None\<close> is an absent field of the input.
\<close>

subsection \<open>The decision\<close>

datatype core_layer =
    Layer_L0 | Layer_L1 | Layer_L2 | Layer_L3 | Layer_Narrative | Layer_Rule | Layer_Template | Layer_Memory_Graph
datatype core_source = Source_Deterministic | Source_Distilled
datatype growth_provenance = From_Reflection | From_Conversation | From_Knowledge | From_Onboarding | From_Perception
datatype trust_tier = Tier_Internal | Tier_Semi | Tier_External

fun trust_tier_of :: "growth_provenance \<Rightarrow> trust_tier" where
  "trust_tier_of From_Reflection = Tier_Internal"
| "trust_tier_of From_Onboarding = Tier_Internal"
| "trust_tier_of From_Conversation = Tier_Semi"
| "trust_tier_of From_Knowledge = Tier_Semi"
| "trust_tier_of From_Perception = Tier_External"

record core_update_input =
  cu_layer :: core_layer
  cu_source :: core_source
  cu_delta :: "rat option"
  cu_confidence :: "rat option"
  cu_pattern_agrees :: "bool option"
  cu_evidence :: "nat option"
  cu_provenance :: "growth_provenance option"
  cu_unverified :: "int option"

record core_update_policy =
  cp_l0_confirms :: bool
  cp_l1_max_delta :: rat
  cp_value_min_confidence :: rat
  cp_value_max_delta :: rat
  cp_edge_min_confidence :: rat
  cp_edge_min_evidence :: nat
  cp_multiplier :: "trust_tier \<Rightarrow> rat"
  cp_budget :: int

fun default_multiplier :: "trust_tier \<Rightarrow> rat" where
  "default_multiplier Tier_Internal = 1"
| "default_multiplier Tier_Semi = 11 / 10"
| "default_multiplier Tier_External = 125 / 100"

definition default_core_update_policy :: core_update_policy where
  "default_core_update_policy = \<lparr> cp_l0_confirms = True, cp_l1_max_delta = 15 / 100,
     cp_value_min_confidence = 8 / 10, cp_value_max_delta = 5 / 100, cp_edge_min_confidence = 75 / 100,
     cp_edge_min_evidence = 2, cp_multiplier = default_multiplier, cp_budget = max_safe_integer \<rparr>"

text \<open>The answer with its reason, one constructor per message.\<close>

datatype core_decision = Gate_Auto | Gate_Confirm
datatype gate_reason =
    L0_Always_Confirms | L0_Not_Gated | L1_Too_Large rat rat | L1_Within rat | Deterministic_Layer core_layer
  | Value_Meets trust_tier | Value_Fails | Edge_Meets trust_tier | Edge_Fails | Distilled_Layer core_layer
  | Budget_Reached int int

definition clamp_confidence :: "rat \<Rightarrow> rat" where
  "clamp_confidence v = (if 1 < v then 1 else v)"

definition tier_of_input :: "core_update_input \<Rightarrow> trust_tier" where
  "tier_of_input u = (case cu_provenance u of Some p \<Rightarrow> trust_tier_of p | None \<Rightarrow> Tier_Internal)"

definition deterministic_gate :: "core_update_input \<Rightarrow> core_update_policy \<Rightarrow> core_decision \<times> gate_reason" where
  "deterministic_gate u pol =
     (if cu_layer u = Layer_L0
      then if cp_l0_confirms pol then (Gate_Confirm, L0_Always_Confirms) else (Gate_Auto, L0_Not_Gated)
      else if cu_layer u = Layer_L1
      then let mag = \<bar>or_default (cu_delta u) 0\<bar> in
           if cp_l1_max_delta pol < mag then (Gate_Confirm, L1_Too_Large mag (cp_l1_max_delta pol))
           else (Gate_Auto, L1_Within mag)
      else (Gate_Confirm, Deterministic_Layer (cu_layer u)))"

text \<open>An absent \<^verbatim>\<open>delta\<close> counts as infinite here.\<close>

definition distilled_gate :: "core_update_input \<Rightarrow> core_update_policy \<Rightarrow> core_decision \<times> gate_reason" where
  "distilled_gate u pol =
     (let tier = tier_of_input u; mul = cp_multiplier pol tier in
      if cu_layer u = Layer_L1
      then if clamp_confidence (cp_value_min_confidence pol * mul) \<le> or_default (cu_confidence u) 0
              \<and> cu_pattern_agrees u = Some True
              \<and> (case cu_delta u of None \<Rightarrow> False | Some d \<Rightarrow> \<bar>d\<bar> \<le> cp_value_max_delta pol)
           then (Gate_Auto, Value_Meets tier) else (Gate_Confirm, Value_Fails)
      else if cu_layer u = Layer_Memory_Graph
      then if clamp_confidence (cp_edge_min_confidence pol * mul) \<le> or_default (cu_confidence u) 0
              \<and> cp_edge_min_evidence pol \<le> or_default (cu_evidence u) 0
           then (Gate_Auto, Edge_Meets tier) else (Gate_Confirm, Edge_Fails)
      else (Gate_Confirm, Distilled_Layer (cu_layer u)))"

definition within_budget ::
  "core_update_input \<Rightarrow> core_update_policy \<Rightarrow> core_decision \<times> gate_reason \<Rightarrow> core_decision \<times> gate_reason" where
  "within_budget u pol x =
     (case cu_unverified u of
        Some n \<Rightarrow> if fst x = Gate_Auto \<and> cp_budget pol \<le> n then (Gate_Confirm, Budget_Reached n (cp_budget pol)) else x
      | None \<Rightarrow> x)"

definition decide_core_update :: "core_update_input \<Rightarrow> core_update_policy \<Rightarrow> core_decision \<times> gate_reason" where
  "decide_core_update u pol =
     (if cu_source u = Source_Deterministic then deterministic_gate u pol
      else within_budget u pol (distilled_gate u pol))"

subsection \<open>Proposals\<close>

datatype update_trigger = Trig_Emotional | Trig_Drift | Trig_User | Trig_Integration
datatype proposal_status = Prop_Pending | Prop_Approved | Prop_Rejected

record update_proposal =
  up_id :: ident
  up_layer :: core_layer
  up_trigger :: update_trigger
  up_target :: ident
  up_current :: string
  up_proposed :: string
  up_delta :: rat
  up_reason :: string
  up_created_at :: millis
  up_status :: proposal_status

record update_gate_config =
  ug_l0_confirms :: bool
  ug_l1_threshold :: rat
  ug_drift_window :: millis
  ug_drift_threshold :: rat

definition default_update_gate_config :: update_gate_config where
  "default_update_gate_config = \<lparr> ug_l0_confirms = cp_l0_confirms default_core_update_policy,
     ug_l1_threshold = cp_l1_max_delta default_core_update_policy, ug_drift_window = 86400000,
     ug_drift_threshold = 3 / 10 \<rparr>"

definition requires_confirmation :: "update_gate_config \<Rightarrow> core_layer \<Rightarrow> rat \<Rightarrow> bool" where
  "requires_confirmation cfg layer delta \<longleftrightarrow>
     fst (decide_core_update \<lparr> cu_layer = layer, cu_source = Source_Deterministic, cu_delta = Some delta,
            cu_confidence = None, cu_pattern_agrees = None, cu_evidence = None, cu_provenance = None, cu_unverified = None \<rparr>
          (default_core_update_policy\<lparr>cp_l0_confirms := ug_l0_confirms cfg, cp_l1_max_delta := ug_l1_threshold cfg\<rparr>))
       = Gate_Confirm"

definition ugate_by_id :: "ident \<Rightarrow> update_proposal list \<Rightarrow> update_proposal option" where
  "ugate_by_id i ps = select_one (\<lambda>p. up_id p = i) ps"

definition ugate_pending :: "update_proposal list \<Rightarrow> update_proposal list" where
  "ugate_pending ps = sort_key up_created_at (filter (\<lambda>p. up_status p = Prop_Pending) ps)"

text \<open>\<^verbatim>\<open>None\<close>: the primary key is taken and the statement throws.\<close>

definition ugate_cmd_propose :: "update_proposal \<Rightarrow> update_proposal list \<Rightarrow> update_proposal list option" where
  "ugate_cmd_propose p ps = (if list_ex (\<lambda>q. up_id q = up_id p) ps then None else Some (ps @ [p]))"

definition ugate_cmd_set_status :: "ident \<Rightarrow> proposal_status \<Rightarrow> update_proposal list \<Rightarrow> update_proposal list \<times> nat" where
  "ugate_cmd_set_status i st ps =
     update_where (\<lambda>p. up_id p = i \<and> up_status p = Prop_Pending) (\<lambda>p. p\<lparr>up_status := st\<rparr>) ps"

definition decide_proposal ::
  "ident \<Rightarrow> proposal_status \<Rightarrow> update_proposal list \<Rightarrow> update_proposal list \<times> update_proposal option" where
  "decide_proposal i st ps =
     (let (ps', n) = ugate_cmd_set_status i st ps in if n = 0 then (ps', None) else (ps', ugate_by_id i ps'))"

definition approve_proposal :: "ident \<Rightarrow> update_proposal list \<Rightarrow> update_proposal list \<times> update_proposal option" where
  "approve_proposal i ps = decide_proposal i Prop_Approved ps"

definition reject_proposal :: "ident \<Rightarrow> update_proposal list \<Rightarrow> update_proposal list \<times> update_proposal option" where
  "reject_proposal i ps = decide_proposal i Prop_Rejected ps"

text \<open>
  \<^verbatim>\<open>tryApply\<close> on the state \<open>s\<close> that \<^verbatim>\<open>applyFn\<close> changes; \<^verbatim>\<open>None\<close> as the first answer says that it threw. The
  second is the pending proposal, if one was made.
\<close>

definition try_apply ::
  "update_gate_config \<Rightarrow> update_proposal \<Rightarrow> ('s \<Rightarrow> 's option) \<Rightarrow> 's \<times> update_proposal list
     \<Rightarrow> ('s \<times> update_proposal list) \<times> (bool \<times> update_proposal option) option" where
  "try_apply cfg u applied x =
     (case x of (s, ps) \<Rightarrow>
        if \<not> requires_confirmation cfg (up_layer u) (up_delta u) then
          (case applied s of None \<Rightarrow> ((s, ps), None) | Some s' \<Rightarrow> ((s', ps), Some (True, None)))
        else
          (case ugate_cmd_propose (u\<lparr>up_status := Prop_Pending\<rparr>) ps of
             None \<Rightarrow> ((s, ps), None)
           | Some ps' \<Rightarrow> ((s, ps'), Some (False, Some (u\<lparr>up_status := Prop_Pending\<rparr>)))))"

subsection \<open>What passes by itself\<close>

lemma requires_confirmation_iff:
  "requires_confirmation cfg Layer_L0 d \<longleftrightarrow> ug_l0_confirms cfg"
  "requires_confirmation cfg Layer_L1 d \<longleftrightarrow> ug_l1_threshold cfg < \<bar>d\<bar>"
  by (simp_all add: requires_confirmation_def decide_core_update_def deterministic_gate_def Let_def)

lemma distilled_auto_iff:
  "fst (distilled_gate u pol) = Gate_Auto \<longleftrightarrow>
     (cu_layer u = Layer_L1
        \<and> clamp_confidence (cp_value_min_confidence pol * cp_multiplier pol (tier_of_input u)) \<le> or_default (cu_confidence u) 0
        \<and> cu_pattern_agrees u = Some True \<and> (\<exists>d. cu_delta u = Some d \<and> \<bar>d\<bar> \<le> cp_value_max_delta pol))
     \<or> (cu_layer u = Layer_Memory_Graph
        \<and> clamp_confidence (cp_edge_min_confidence pol * cp_multiplier pol (tier_of_input u)) \<le> or_default (cu_confidence u) 0
        \<and> cp_edge_min_evidence pol \<le> or_default (cu_evidence u) 0)"
  by (auto simp: distilled_gate_def Let_def split: option.splits)

lemma within_budget_auto:
  "fst (within_budget u pol x) = Gate_Auto \<longleftrightarrow> fst x = Gate_Auto \<and> (\<forall>n. cu_unverified u = Some n \<longrightarrow> n < cp_budget pol)"
  by (auto simp: within_budget_def split: option.split)

lemma clamp_confidence_mono: "a \<le> b \<Longrightarrow> clamp_confidence a \<le> clamp_confidence b"
  by (simp add: clamp_confidence_def)



subsection \<open>A proposal is decided once\<close>

datatype gate_request = Gr_Propose update_proposal | Gr_Decide ident proposal_status

fun gate_attempt :: "gate_request \<Rightarrow> update_proposal list \<Rightarrow> update_proposal list \<times> bool" where
  "gate_attempt (Gr_Propose p) ps =
     (case ugate_cmd_propose (p\<lparr>up_status := Prop_Pending\<rparr>) ps of None \<Rightarrow> (ps, False) | Some ps' \<Rightarrow> (ps', False))"
| "gate_attempt (Gr_Decide i st) ps =
     (if st = Prop_Pending then (ps, False) else case decide_proposal i st ps of (ps', r) \<Rightarrow> (ps', r \<noteq> None))"

fun gate_key :: "gate_request \<Rightarrow> ident" where
  "gate_key (Gr_Propose p) = up_id p"
| "gate_key (Gr_Decide i st) = i"

definition proposal_open :: "update_proposal list \<Rightarrow> ident \<Rightarrow> bool" where
  "proposal_open ps i \<longleftrightarrow> (\<forall>p \<in> set ps. up_id p = i \<longrightarrow> up_status p = Prop_Pending)"

definition proposals_keyed :: "update_proposal list \<Rightarrow> bool" where
  "proposals_keyed ps \<longleftrightarrow> distinct (map up_id ps)"

lemma gate_attempt_keyed: "proposals_keyed ps \<Longrightarrow> proposals_keyed (fst (gate_attempt a ps))"
  by (cases a)
    (auto simp: proposals_keyed_def ugate_cmd_propose_def decide_proposal_def ugate_cmd_set_status_def update_where_fst
      map_if_column list_ex_iff split_beta simp del: map_map split: option.split)

lemma decide_proposal_won:
  assumes "proposals_keyed ps" "st \<noteq> Prop_Pending" "snd (decide_proposal i st ps) \<noteq> None"
  shows "proposal_open ps i" and "\<not> proposal_open (fst (decide_proposal i st ps)) i"
proof -
  have "snd (ugate_cmd_set_status i st ps) \<noteq> 0" using assms(3) by (auto simp: decide_proposal_def split_beta split: if_splits)
  then obtain p where p: "p \<in> set ps" "up_id p = i" "up_status p = Prop_Pending"
    unfolding ugate_cmd_set_status_def update_where_misses by blast
  have one: "q = p" if "q \<in> set ps" "up_id q = i" for q
    using assms(1) p that by (auto simp: proposals_keyed_def distinct_map dest: inj_onD)
  then show "proposal_open ps i" unfolding proposal_open_def using p(3) by metis
  have "fst (decide_proposal i st ps) = fst (ugate_cmd_set_status i st ps)" by (simp add: decide_proposal_def split_beta)
  with p assms(2) show "\<not> proposal_open (fst (decide_proposal i st ps)) i"
    by (auto simp: proposal_open_def ugate_cmd_set_status_def)
qed

lemma gate_taken_stays:
  "\<not> proposal_open ps i \<Longrightarrow> \<not> proposal_open (fst (gate_attempt a ps)) i"
  by (cases a)
    (auto simp: proposal_open_def ugate_cmd_propose_def decide_proposal_def ugate_cmd_set_status_def split_beta
      split: option.split)

lemma gate_attempt_won:
  assumes "proposals_keyed ps" "snd (gate_attempt a ps)"
  shows "proposal_open ps (gate_key a)" and "\<not> proposal_open (fst (gate_attempt a ps)) (gate_key a)"
proof -
  obtain i st where a: "a = Gr_Decide i st" using assms(2) by (cases a) (auto split: option.splits)
  have "st \<noteq> Prop_Pending" "snd (decide_proposal i st ps) \<noteq> None"
    using assms(2) by (auto simp: a split_beta split: if_splits)
  from decide_proposal_won [OF assms(1) this] this(1) show "proposal_open ps (gate_key a)"
    "\<not> proposal_open (fst (gate_attempt a ps)) (gate_key a)" by (simp_all add: a split_beta)
qed

interpretation gate_decisions: guarded_one_shot gate_attempt gate_key proposal_open "\<lambda>_ _. False" proposals_keyed
  by unfold_locales
    (erule gate_attempt_keyed, erule (1) gate_attempt_won(1), erule (1) gate_attempt_won(2), erule gate_taken_stays)

text \<open>
  a proposal is approved or rejected at most once: of all answers that come in, in whatever order and mixed
  with new proposals, at most one takes effect, and none does once it is decided.
\<close>

theorem proposal_decided_once:
  assumes "proposals_keyed ps"
  shows "wins gate_key i as (snd (run_attempts gate_attempt as ps)) \<le> (if proposal_open ps i then 1 else 0)"
  by (rule gate_decisions.guarded_at_most_one_win [OF assms]) simp

definition sample_proposal :: "ident \<Rightarrow> update_proposal" where
  "sample_proposal i = \<lparr> up_id = i, up_layer = Layer_L0, up_trigger = Trig_User, up_target = ''anchor'', up_current = [],
     up_proposed = [], up_delta = 1, up_reason = [], up_created_at = 1, up_status = Prop_Pending \<rparr>"

theorem proposal_decided_once_witness:
  "wins gate_key ''x'' [Gr_Decide ''x'' Prop_Approved, Gr_Propose (sample_proposal ''x''), Gr_Decide ''x'' Prop_Rejected]
     (snd (run_attempts gate_attempt
        [Gr_Decide ''x'' Prop_Approved, Gr_Propose (sample_proposal ''x''), Gr_Decide ''x'' Prop_Rejected]
        [sample_proposal ''x''])) \<le> 1"
proof -
  have k: "proposals_keyed [sample_proposal ''x'']" by (simp add: proposals_keyed_def)
  show ?thesis
    by (rule order_trans [OF proposal_decided_once [OF k]]) simp
qed

end
