(* ===== verification/Persona_Estate.thy ===== *)
theory Persona_Estate
  imports Persona_Market
begin

text \<open>
  The ownership and the life of a digital person: transfer to another owner, activation and rest, the
  governance events that its owner may record, and the evaluation of inactivity, all of
  \<^verbatim>\<open>src/persona-core/persona-core-service.ts\<close>. Memories, histories, audit rows and the time of a transfer are left out. A check on
  what was read before and its transaction are two definitions.
\<close>

subsection \<open>State\<close>

datatype transfer_status = Transfer_Pending | Transfer_Approved | Transfer_Completed | Transfer_Rejected | Transfer_Cancelled

record persona_transfer =
  tf_id :: ident
  tf_tenant :: ident
  tf_persona :: ident
  tf_from :: ident
  tf_to :: ident
  tf_status :: transfer_status
  tf_reason :: string
  tf_requested_at :: millis
  tf_approved_at :: "millis option"
  tf_completed_at :: "millis option"

record persona_estate =
  et_market :: persona_market
  et_transfers :: "persona_transfer list"
  et_users :: "(ident \<times> ident) list"

definition estate_personas :: "persona_estate \<Rightarrow> persona_row list" where
  "estate_personas e = bk_personas (gv_bank (et_market e))"

definition update_personas :: "(persona_row \<Rightarrow> bool) \<Rightarrow> (persona_row \<Rightarrow> persona_row) \<Rightarrow> persona_estate \<Rightarrow> persona_estate" where
  "update_personas p f e =
     e\<lparr>et_market := (et_market e)\<lparr>gv_bank := (gv_bank (et_market e))\<lparr>bk_personas :=
        fst (update_where p f (estate_personas e))\<rparr>\<rparr>\<rparr>"

definition this_persona :: "ident \<Rightarrow> ident \<Rightarrow> persona_row \<Rightarrow> bool" where
  "this_persona tn p r \<longleftrightarrow> pr_tenant r = tn \<and> pr_id r = p"

subsection \<open>Statements\<close>

definition estate_cmd_activate :: "ident \<Rightarrow> ident \<Rightarrow> millis \<Rightarrow> persona_estate \<Rightarrow> persona_estate" where
  "estate_cmd_activate tn p now =
     update_personas (this_persona tn p)
       (\<lambda>r. r\<lparr>pr_lifecycle := Some Per_Active,
              pr_status := (if pr_status r = Per_Transferred then Per_Active else pr_status r), pr_updated_at := now\<rparr>)"

definition estate_cmd_deactivate :: "ident \<Rightarrow> ident \<Rightarrow> millis \<Rightarrow> persona_estate \<Rightarrow> persona_estate" where
  "estate_cmd_deactivate tn p now =
     update_personas (this_persona tn p) (\<lambda>r. r\<lparr>pr_lifecycle := Some Per_Dormant, pr_updated_at := now\<rparr>)"

definition estate_cmd_set_owner :: "ident \<Rightarrow> ident \<Rightarrow> ident \<Rightarrow> millis \<Rightarrow> persona_estate \<Rightarrow> persona_estate" where
  "estate_cmd_set_owner tn p owner now =
     update_personas (this_persona tn p)
       (\<lambda>r. r\<lparr>pr_owner := owner, pr_status := Per_Active, pr_lifecycle := Some Per_Active, pr_updated_at := now\<rparr>)"

text \<open>\<^verbatim>\<open>None\<close>: the primary key is taken and the statement throws.\<close>

definition transfer_cmd_create :: "persona_transfer \<Rightarrow> persona_estate \<Rightarrow> persona_estate option" where
  "transfer_cmd_create t e =
     (if list_ex (\<lambda>q. tf_id q = tf_id t) (et_transfers e) then None
      else Some (e\<lparr>et_transfers := et_transfers e @ [t]\<rparr>))"

definition transfer_cmd_approve :: "ident \<Rightarrow> ident \<Rightarrow> millis \<Rightarrow> persona_estate \<Rightarrow> persona_estate \<times> nat" where
  "transfer_cmd_approve tn i now e =
     (let (ts, n) = update_where (\<lambda>t. tf_tenant t = tn \<and> tf_id t = i \<and> tf_status t = Transfer_Pending)
        (\<lambda>t. t\<lparr>tf_status := Transfer_Approved, tf_approved_at := Some now\<rparr>) (et_transfers e)
      in (e\<lparr>et_transfers := ts\<rparr>, n))"

definition transfer_cmd_complete :: "ident \<Rightarrow> ident \<Rightarrow> millis \<Rightarrow> persona_estate \<Rightarrow> persona_estate" where
  "transfer_cmd_complete tn i now e =
     e\<lparr>et_transfers := fst (update_where (\<lambda>t. tf_tenant t = tn \<and> tf_id t = i)
        (\<lambda>t. t\<lparr>tf_status := Transfer_Completed, tf_completed_at := Some now\<rparr>) (et_transfers e))\<rparr>"

definition pending_transfer :: "ident \<Rightarrow> ident \<Rightarrow> persona_estate \<Rightarrow> persona_transfer option" where
  "pending_transfer tn p e =
     (case sort_key (\<lambda>t. - tf_requested_at t)
         (filter (\<lambda>t. tf_tenant t = tn \<and> tf_persona t = p \<and> tf_status t = Transfer_Pending) (et_transfers e)) of
        [] \<Rightarrow> None
      | t # _ \<Rightarrow> Some t)"

definition transfer_of_persona :: "ident \<Rightarrow> ident \<Rightarrow> ident \<Rightarrow> persona_estate \<Rightarrow> persona_transfer option" where
  "transfer_of_persona tn p i e = select_one (\<lambda>t. tf_tenant t = tn \<and> tf_persona t = p \<and> tf_id t = i) (et_transfers e)"

definition transfer_by_id :: "ident \<Rightarrow> ident \<Rightarrow> persona_estate \<Rightarrow> persona_transfer option" where
  "transfer_by_id tn i e = select_one (\<lambda>t. tf_tenant t = tn \<and> tf_id t = i) (et_transfers e)"

definition user_exists :: "ident \<Rightarrow> ident \<Rightarrow> persona_estate \<Rightarrow> bool" where
  "user_exists tn u e \<longleftrightarrow> (tn, u) \<in> set (et_users e)"

definition estate_cmd_apply_event ::
  "ident \<Rightarrow> ident \<Rightarrow> rat \<Rightarrow> rat \<Rightarrow> persona_status option \<Rightarrow> millis \<Rightarrow> persona_estate \<Rightarrow> persona_estate" where
  "estate_cmd_apply_event tn p rep gro next now =
     update_personas (this_persona tn p)
       (\<lambda>r. let r1 = r\<lparr>pr_reputation := pr_reputation r + rep, pr_growth := pr_growth r + gro, pr_updated_at := now\<rparr> in
            case next of
              None \<Rightarrow> r1
            | Some st \<Rightarrow> r1\<lparr>pr_lifecycle := Some st, pr_status := to_legacy_status st,
                 pr_deceased_at := (if st = Per_Deceased then Some now else pr_deceased_at r)\<rparr>)"

subsection \<open>Operations\<close>

text \<open>\<^verbatim>\<open>getPersonaDetail\<close> as far as it is used here: the row of a person, for its owner.\<close>

definition owner_detail :: "ident \<Rightarrow> ident \<Rightarrow> ident \<Rightarrow> persona_estate \<Rightarrow> persona_row option" where
  "owner_detail tn owner p e = owned_persona tn owner p (et_market e)"

definition activate_persona :: "ident \<Rightarrow> ident \<Rightarrow> ident \<Rightarrow> millis \<Rightarrow> persona_estate \<Rightarrow> persona_estate \<times> persona_row option" where
  "activate_persona tn owner p now e =
     (case owner_detail tn owner p e of
        None \<Rightarrow> (e, None)
      | Some r \<Rightarrow>
          if is_terminal_status (persona_status_of r) then (e, None)
          else if persona_status_of r = Per_Active then (e, Some r)
          else let e' = estate_cmd_activate tn p now e in (e', owner_detail tn owner p e'))"

definition deactivate_persona :: "ident \<Rightarrow> ident \<Rightarrow> ident \<Rightarrow> millis \<Rightarrow> persona_estate \<Rightarrow> persona_estate \<times> persona_row option" where
  "deactivate_persona tn owner p now e =
     (case owner_detail tn owner p e of
        None \<Rightarrow> (e, None)
      | Some r \<Rightarrow>
          if is_terminal_status (persona_status_of r) then (e, None)
          else if persona_status_of r = Per_Dormant then (e, Some r)
          else let e' = estate_cmd_deactivate tn p now e in (e', owner_detail tn owner p e'))"

datatype request_verdict = Request_Refused | Request_Pending persona_transfer | Request_Granted

definition request_check :: "ident \<Rightarrow> ident \<Rightarrow> ident \<Rightarrow> ident \<Rightarrow> persona_estate \<Rightarrow> request_verdict" where
  "request_check tn owner to p e =
     (case owner_detail tn owner p e of
        None \<Rightarrow> Request_Refused
      | Some r \<Rightarrow>
          if is_terminal_status (persona_status_of r) \<or> to = owner \<or> \<not> user_exists tn to e then Request_Refused
          else (case pending_transfer tn p e of Some t \<Rightarrow> Request_Pending t | None \<Rightarrow> Request_Granted))"

definition request_commit ::
  "ident \<Rightarrow> ident \<Rightarrow> ident \<Rightarrow> ident \<Rightarrow> ident \<Rightarrow> string option \<Rightarrow> millis \<Rightarrow> persona_estate
     \<Rightarrow> persona_estate \<times> (purse_error + persona_transfer option)" where
  "request_commit i tn owner to p reason now e =
     (case transfer_cmd_create \<lparr> tf_id = i, tf_tenant = tn, tf_persona = p, tf_from = owner, tf_to = to,
            tf_status = Transfer_Pending, tf_reason = or_default reason ''asset sale'', tf_requested_at = now,
            tf_approved_at = None, tf_completed_at = None \<rparr> e of
        None \<Rightarrow> (e, Inl Purse_Constraint)
      | Some e' \<Rightarrow> (e', Inr (transfer_by_id tn i e')))"

definition request_transfer ::
  "ident \<Rightarrow> ident \<Rightarrow> ident \<Rightarrow> ident \<Rightarrow> ident \<Rightarrow> string option \<Rightarrow> millis \<Rightarrow> persona_estate
     \<Rightarrow> persona_estate \<times> (purse_error + persona_transfer option)" where
  "request_transfer i tn owner to p reason now e =
     (case request_check tn owner to p e of
        Request_Refused \<Rightarrow> (e, Inr None)
      | Request_Pending t \<Rightarrow> (e, Inr (Some t))
      | Request_Granted \<Rightarrow> request_commit i tn owner to p reason now e)"

definition approve_check :: "ident \<Rightarrow> ident \<Rightarrow> ident \<Rightarrow> ident \<Rightarrow> persona_estate \<Rightarrow> persona_transfer option" where
  "approve_check tn approver p i e =
     (case transfer_of_persona tn p i e of
        None \<Rightarrow> None
      | Some t \<Rightarrow> if tf_status t \<noteq> Transfer_Pending \<or> tf_to t \<noteq> approver then None else Some t)"

text \<open>A claim that is lost throws, and the transaction is undone.\<close>

definition approve_commit ::
  "ident \<Rightarrow> ident \<Rightarrow> ident \<Rightarrow> ident \<Rightarrow> millis \<Rightarrow> persona_estate
     \<Rightarrow> persona_estate \<times> (persona_transfer \<times> persona_row) option" where
  "approve_commit tn approver p i now e =
     (let (e1, n) = transfer_cmd_approve tn i now e in
      if n \<noteq> 1 then (e, None)
      else
        let e3 = transfer_cmd_complete tn i now (estate_cmd_set_owner tn p approver now e1) in
        (e3, case (transfer_by_id tn i e3, owner_detail tn approver p e3) of
               (Some t, Some r) \<Rightarrow> Some (t, r)
             | _ \<Rightarrow> None))"

definition approve_transfer ::
  "ident \<Rightarrow> ident \<Rightarrow> ident \<Rightarrow> ident \<Rightarrow> millis \<Rightarrow> persona_estate
     \<Rightarrow> persona_estate \<times> (persona_transfer \<times> persona_row) option" where
  "approve_transfer tn approver p i now e =
     (case approve_check tn approver p i e of
        None \<Rightarrow> (e, None)
      | Some t \<Rightarrow> approve_commit tn approver p i now e)"

definition transfer_access :: "ident \<Rightarrow> ident \<Rightarrow> ident \<Rightarrow> persona_estate \<Rightarrow> bool" where
  "transfer_access tn user p e \<longleftrightarrow>
     list_ex (\<lambda>r. pr_tenant r = tn \<and> pr_owner r = user \<and> pr_id r = p) (estate_personas e)
     \<or> list_ex (\<lambda>t. tf_tenant t = tn \<and> tf_persona t = p \<and> (tf_from t = user \<or> tf_to t = user)) (et_transfers e)"

definition list_transfers :: "ident \<Rightarrow> ident \<Rightarrow> ident \<Rightarrow> persona_estate \<Rightarrow> persona_transfer list option" where
  "list_transfers tn user p e =
     (if transfer_access tn user p e
      then Some (sort_key (\<lambda>t. - tf_requested_at t) (filter (\<lambda>t. tf_tenant t = tn \<and> tf_persona t = p) (et_transfers e)))
      else None)"

datatype persona_event_kind = Event_Warning | Event_Reward | Event_Restriction | Event_Review | Event_Transfer | Event_Death

text \<open>What an event does: the next status, and the changes of reputation and growth.\<close>

fun event_effect :: "persona_event_kind \<Rightarrow> int \<Rightarrow> persona_status option \<times> rat \<times> rat" where
  "event_effect Event_Warning l = (None, round_digits 4 (- (15 / 10) * of_int l), 0)"
| "event_effect Event_Reward l = (None, round_digits 4 (18 / 10 * of_int l), round_digits 4 (25 / 100 * of_int l))"
| "event_effect Event_Restriction l =
     (Some (if 4 \<le> l then Per_Suspended else Per_Restricted), round_digits 4 (- (25 / 10) * of_int l), 0)"
| "event_effect Event_Death l = (Some Per_Deceased, round_digits 4 (- 4 * of_int l), 0)"
| "event_effect Event_Transfer l = (Some Per_Transferred, 0, 0)"
| "event_effect Event_Review l = (None, round_digits 4 (- (5 / 10) * of_int l), 0)"

definition add_governance_event ::
  "ident \<Rightarrow> ident \<Rightarrow> ident \<Rightarrow> persona_event_kind \<Rightarrow> rat \<Rightarrow> millis \<Rightarrow> persona_estate \<Rightarrow> persona_estate \<times> persona_row option" where
  "add_governance_event tn owner p k severity now e =
     (case owner_detail tn owner p e of
        None \<Rightarrow> (e, None)
      | Some r \<Rightarrow>
          let (next, rep, gro) = event_effect k (js_round (clamp_to severity 1 5));
              e' = estate_cmd_apply_event tn p rep gro next now e
          in (e', owner_detail tn owner p e'))"

definition mark_deceased :: "ident \<Rightarrow> ident \<Rightarrow> ident \<Rightarrow> millis \<Rightarrow> persona_estate \<Rightarrow> persona_estate \<times> persona_row option" where
  "mark_deceased tn owner p now e = add_governance_event tn owner p Event_Death 5 now e"

datatype lifecycle_transition = Life_None | Life_Dormant | Life_Deceased

text \<open>
  \<^verbatim>\<open>evaluateLifecycle\<close>; \<open>last_active\<close> is what \<^verbatim>\<open>resolveLastActiveAt\<close> reads from wallets, memories and tasks.
\<close>

definition evaluate_lifecycle ::
  "ident \<Rightarrow> ident \<Rightarrow> ident \<Rightarrow> rat option \<Rightarrow> millis \<Rightarrow> millis \<Rightarrow> persona_estate
     \<Rightarrow> persona_estate \<times> (persona_row \<times> lifecycle_transition) option" where
  "evaluate_lifecycle tn owner p days last_active now e =
     (case owner_detail tn owner p e of
        None \<Rightarrow> (e, None)
      | Some r \<Rightarrow>
          let inactive = js_round (clamp_to (or_default days 180) 30 3650); threshold = inactive * 24 * 60 * 60 * 1000 in
          if is_terminal_status (persona_status_of r) then (e, Some (r, Life_None))
          else if persona_status_of r = Per_Dormant then
            if now - pr_updated_at r < threshold then (e, Some (r, Life_None))
            else (case mark_deceased tn owner p now e of (e', x) \<Rightarrow> (e', map_option (\<lambda>d. (d, Life_Deceased)) x))
          else if now - last_active < threshold then (e, Some (r, Life_None))
          else (case deactivate_persona tn owner p now e of (e', x) \<Rightarrow> (e', map_option (\<lambda>d. (d, Life_Dormant)) x)))"

subsection \<open>Rows\<close>

definition persons_keyed :: "persona_estate \<Rightarrow> bool" where
  "persons_keyed e \<longleftrightarrow> distinct (map pr_id (estate_personas e))"

lemma estate_simps [simp]:
  "estate_personas (update_personas q f e) = fst (update_where q f (estate_personas e))"
  "et_transfers (update_personas q f e) = et_transfers e" "et_users (update_personas q f e) = et_users e"
  "estate_personas (e\<lparr>et_transfers := ts\<rparr>) = estate_personas e"
  "bk_wallets (gv_bank (et_market (update_personas q f e))) = bk_wallets (gv_bank (et_market e))"
  by (simp_all add: estate_personas_def update_personas_def)

lemma owner_detail_eq:
  "owner_detail tn owner p e = select_one (\<lambda>r. pr_tenant r = tn \<and> pr_owner r = owner \<and> pr_id r = p
     \<and> list_ex (\<lambda>w. pw_persona w = pr_id r) (bk_wallets (gv_bank (et_market e)))) (estate_personas e)"
  by (simp add: owner_detail_def owned_persona_def estate_personas_def)

lemma owner_detail_D:
  "owner_detail tn owner p e = Some r \<Longrightarrow> r \<in> set (estate_personas e) \<and> pr_tenant r = tn \<and> pr_owner r = owner \<and> pr_id r = p
     \<and> list_ex (\<lambda>w. pw_persona w = p) (bk_wallets (gv_bank (et_market e)))"
  unfolding owner_detail_eq by (auto dest: select_one_SomeD)

lemma owner_detail_transfers [simp]: "owner_detail tn owner p (e\<lparr>et_transfers := ts\<rparr>) = owner_detail tn owner p e"
  by (simp add: owner_detail_def)

lemma persons_keyed_update:
  "persons_keyed e \<Longrightarrow> (\<And>r. pr_id (f r) = pr_id r) \<Longrightarrow> persons_keyed (update_personas q f e)"
  by (simp add: persons_keyed_def update_where_fst map_if_column del: map_map)

lemma owner_detail_update:
  assumes k: "persons_keyed e" and r: "owner_detail tn owner p e = Some r"
    and f: "\<And>x. pr_id (f x) = pr_id x" "\<And>x. pr_tenant (f x) = pr_tenant x"
  shows "owner_detail tn (pr_owner (f r)) p (update_personas (this_persona tn p) f e) = Some (f r)"
proof -
  note d = owner_detail_D [OF r]
  have "f r \<in> set (estate_personas (update_personas (this_persona tn p) f e))"
    using d by (auto simp: update_where_def this_persona_def image_iff intro!: bexI [of _ r])
  moreover have "distinct (map pr_id (estate_personas (update_personas (this_persona tn p) f e)))"
    using persons_keyed_update [OF k f(1)] by (simp add: persons_keyed_def)
  ultimately show ?thesis unfolding owner_detail_eq
    by (intro select_one_unique [where key = pr_id]) (use d f in auto)
qed

subsection \<open>What an owner may undo\<close>

lemma activate_row:
  assumes "persons_keyed e" "owner_detail tn owner p e = Some r" "\<not> is_terminal_status (persona_status_of r)"
  shows "\<exists>e' r'. activate_persona tn owner p now e = (e', Some r') \<and> persona_status_of r' = Per_Active \<and> pr_owner r' = owner"
proof (cases "persona_status_of r = Per_Active")
  case True
  with assms show ?thesis using owner_detail_D [OF assms(2)] by (simp add: activate_persona_def)
next
  case False
  let ?f = "\<lambda>r. r\<lparr>pr_lifecycle := Some Per_Active,
              pr_status := (if pr_status r = Per_Transferred then Per_Active else pr_status r), pr_updated_at := now\<rparr>"
  have "owner_detail tn (pr_owner (?f r)) p (update_personas (this_persona tn p) ?f e) = Some (?f r)"
    by (rule owner_detail_update [OF assms(1,2)]) simp_all
  then show ?thesis
    using assms False owner_detail_D [OF assms(2)]
    by (simp add: activate_persona_def estate_cmd_activate_def Let_def persona_status_of_def)
qed

lemma event_row:
  assumes "persons_keyed e" "owner_detail tn owner p e = Some r"
    and "event_effect k (js_round (clamp_to severity 1 5)) = (next, rep, gro)"
  shows "\<exists>e' r'. add_governance_event tn owner p k severity now e = (e', Some r') \<and> owner_detail tn owner p e' = Some r'
    \<and> persons_keyed e' \<and> persona_status_of r' = (case next of None \<Rightarrow> persona_status_of r | Some st \<Rightarrow> st)
    \<and> pr_reputation r' = pr_reputation r + rep \<and> et_transfers e' = et_transfers e
    \<and> (next = Some Per_Deceased \<longrightarrow> pr_deceased_at r' = Some now)"
proof -
  let ?f = "\<lambda>r. let r1 = r\<lparr>pr_reputation := pr_reputation r + rep, pr_growth := pr_growth r + gro, pr_updated_at := now\<rparr> in
            case next of
              None \<Rightarrow> r1
            | Some st \<Rightarrow> r1\<lparr>pr_lifecycle := Some st, pr_status := to_legacy_status st,
                 pr_deceased_at := (if st = Per_Deceased then Some now else pr_deceased_at r)\<rparr>"
  let ?e = "update_personas (this_persona tn p) ?f e"
  have f: "pr_id (?f x) = pr_id x" "pr_tenant (?f x) = pr_tenant x" "pr_owner (?f x) = pr_owner x" for x
    by (simp_all add: Let_def split: option.split)
  have o': "pr_owner r = owner" using owner_detail_D [OF assms(2)] by simp
  have row: "owner_detail tn owner p ?e = Some (?f r)"
    using owner_detail_update [OF assms(1,2), of ?f, OF f(1,2)] unfolding f(3) o' .
  have key: "persons_keyed ?e" by (rule persons_keyed_update [OF assms(1) f(1)])
  have "add_governance_event tn owner p k severity now e = (?e, Some (?f r))"
    using row by (simp add: add_governance_event_def assms(2,3) estate_cmd_apply_event_def)
  then show ?thesis using row key
    by (intro exI [of _ ?e] exI [of _ "?f r"]) (auto simp: persona_status_of_def Let_def split: option.split)
qed

text \<open>
  C26: no status is final for the owner: whatever the status of the person is, suspended by a moderator,
  terminated or transferred away, the owner that records a minor restriction of it and then activates it has an
  active person, in two calls that are both open to owners.
\<close>

theorem owner_undoes_any_status:
  assumes "persons_keyed e" and "owner_detail tn owner p e = Some r"
  shows "\<exists>e1 r1 e2 r2. add_governance_event tn owner p Event_Restriction 1 now e = (e1, Some r1)
    \<and> activate_persona tn owner p later e1 = (e2, Some r2) \<and> persona_status_of r2 = Per_Active \<and> pr_owner r2 = owner"
proof -
  have "js_round (clamp_to 1 1 5) = 1" by code_simp
  then have "event_effect Event_Restriction (js_round (clamp_to 1 1 5))
      = (Some Per_Restricted, round_digits 4 (- (25 / 10) * of_int 1), 0)" by simp
  from event_row [OF assms this, of now] obtain e1 r1 where
    e1: "add_governance_event tn owner p Event_Restriction 1 now e = (e1, Some r1)" "owner_detail tn owner p e1 = Some r1"
      "persons_keyed e1" "persona_status_of r1 = Per_Restricted" by auto
  have "\<not> is_terminal_status (persona_status_of r1)" by (simp add: e1(4) is_terminal_status_def)
  from activate_row [OF e1(3,2) this, of later] e1(1) show ?thesis by blast
qed

text \<open>A person that its own owner had terminated.\<close>

definition wage_wallet :: "ident \<Rightarrow> ident \<Rightarrow> persona_wallet" where
  "wage_wallet w p = \<lparr> pw_id = w, pw_tenant = ''t'', pw_persona = p, pw_address = w, pw_balance = 0, pw_tokens = 0,
     pw_currency = ''CRED'', pw_status = Purse_Active, pw_settled_at = None, pw_created_at = 0, pw_updated_at = 0 \<rparr>"

definition small_estate :: "persona_status \<Rightarrow> persona_estate" where
  "small_estate st =
     \<lparr> et_market = \<lparr> gv_bank = \<lparr> bk_personas = [\<lparr> pr_id = ''p'', pr_tenant = ''t'', pr_owner = ''own'',
           pr_status = Per_Active, pr_lifecycle = Some st, pr_growth = 0, pr_reputation = 50, pr_training = 0,
           pr_deceased_at = None, pr_updated_at = 0 \<rparr>], bk_wallets = [wage_wallet ''w'' ''p''], bk_txs = [],
           bk_settlements = [], bk_payouts = [], bk_ids = 0 \<rparr>, gv_cases = [], gv_actions = [], pm_tasks = [],
         pm_applications = [], pm_assignments = [], pm_results = [] \<rparr>,
       et_transfers = [], et_users = [(''t'', ''own''), (''t'', ''b''), (''t'', ''c'')] \<rparr>"

lemma small_estate_keyed: "persons_keyed (small_estate st)"
  by (simp add: persons_keyed_def small_estate_def estate_personas_def)

theorem owner_undoes_any_status_witness:
  "\<exists>e1 r1 e2 r2 e3 r3. mark_deceased ''t'' ''own'' ''p'' 5 (small_estate Per_Active) = (e1, Some r1)
     \<and> persona_status_of r1 = Per_Deceased
     \<and> add_governance_event ''t'' ''own'' ''p'' Event_Restriction 1 6 e1 = (e2, Some r2)
     \<and> activate_persona ''t'' ''own'' ''p'' 7 e2 = (e3, Some r3) \<and> persona_status_of r3 = Per_Active"
proof -
  have o': "owner_detail ''t'' ''own'' ''p'' (small_estate Per_Active) = Some (hd (estate_personas (small_estate Per_Active)))"
    by code_simp
  have x: "event_effect Event_Death (js_round (clamp_to 5 1 5)) = (Some Per_Deceased, - 20, 0)" by code_simp
  from event_row [OF small_estate_keyed o' x, of 5] obtain e1 r1 where
    e1: "mark_deceased ''t'' ''own'' ''p'' 5 (small_estate Per_Active) = (e1, Some r1)"
      "owner_detail ''t'' ''own'' ''p'' e1 = Some r1" "persons_keyed e1" "persona_status_of r1 = Per_Deceased"
    by (auto simp: mark_deceased_def)
  with owner_undoes_any_status [OF e1(3,2), of 6 7] show ?thesis by blast
qed

text \<open>
  C2: the owner raises the reputation of its own person without any bound: each reward event of the highest
  severity adds nine points, and nothing stops the next one.
\<close>

fun reward_times :: "ident \<Rightarrow> ident \<Rightarrow> ident \<Rightarrow> millis \<Rightarrow> nat \<Rightarrow> persona_estate \<Rightarrow> persona_estate" where
  "reward_times tn owner p now 0 e = e"
| "reward_times tn owner p now (Suc n) e =
     reward_times tn owner p now n (fst (add_governance_event tn owner p Event_Reward 5 now e))"

lemma reward_effect: "event_effect Event_Reward (js_round (clamp_to 5 1 5)) = (None, 9, 5 / 4)"
  by code_simp

theorem owner_rewards_itself:
  assumes "persons_keyed e" and "owner_detail tn owner p e = Some r"
  shows "\<exists>r'. owner_detail tn owner p (reward_times tn owner p now n e) = Some r'
    \<and> pr_reputation r' = pr_reputation r + 9 * of_nat n"
  using assms
proof (induction n arbitrary: e r)
  case 0
  then show ?case by simp
next
  case (Suc n)
  from event_row [OF Suc.prems reward_effect, of now] obtain e1 r1 where
    e1: "add_governance_event tn owner p Event_Reward 5 now e = (e1, Some r1)" "owner_detail tn owner p e1 = Some r1"
      "persons_keyed e1" "pr_reputation r1 = pr_reputation r + 9" by auto
  from Suc.IH [OF e1(3,2)] e1(1,4) show ?case by (auto simp: algebra_simps)
qed

theorem owner_rewards_itself_witness:
  "\<exists>r'. owner_detail ''t'' ''own'' ''p'' (reward_times ''t'' ''own'' ''p'' 1 100 (small_estate Per_Active)) = Some r'
     \<and> pr_reputation r' = 950"
proof -
  have o': "owner_detail ''t'' ''own'' ''p'' (small_estate Per_Active) = Some (hd (estate_personas (small_estate Per_Active)))"
    by code_simp
  have "pr_reputation (hd (estate_personas (small_estate Per_Active))) = 50"
    by (simp add: small_estate_def estate_personas_def)
  with owner_rewards_itself [OF small_estate_keyed o', of 1 100] show ?thesis by auto
qed

subsection \<open>Who owns a person\<close>

text \<open>Between a decision and its effect others act: the state at the approval is any, its keys kept.\<close>

definition transfers_keyed :: "persona_estate \<Rightarrow> bool" where
  "transfers_keyed e \<longleftrightarrow> distinct (map tf_id (et_transfers e))"

lemma transfers_keyed_same:
  "transfers_keyed e \<Longrightarrow> t \<in> set (et_transfers e) \<Longrightarrow> u \<in> set (et_transfers e) \<Longrightarrow> tf_id t = tf_id u \<Longrightarrow> t = u"
  by (auto simp: transfers_keyed_def distinct_map dest: inj_onD)

lemma persons_keyed_same:
  "persons_keyed e \<Longrightarrow> r \<in> set (estate_personas e) \<Longrightarrow> q \<in> set (estate_personas e) \<Longrightarrow> pr_id r = pr_id q \<Longrightarrow> r = q"
  by (auto simp: persons_keyed_def distinct_map dest: inj_onD)

definition transfer_grounded :: "persona_estate \<Rightarrow> persona_transfer \<Rightarrow> bool" where
  "transfer_grounded e t \<longleftrightarrow> list_ex (\<lambda>r. pr_id r = tf_persona t \<and> pr_tenant r = tf_tenant t
     \<and> (tf_status t = Transfer_Pending \<longrightarrow> pr_owner r = tf_from t)) (estate_personas e)"

definition estate_inv :: "persona_estate \<Rightarrow> bool" where
  "estate_inv e \<longleftrightarrow> persons_keyed e \<and> transfers_keyed e \<and> list_all (transfer_grounded e) (et_transfers e)
     \<and> distinct (map tf_persona (filter (\<lambda>t. tf_status t = Transfer_Pending) (et_transfers e)))"

text \<open>The calls open to owners, buyers and the clock.\<close>

datatype estate_call =
    Call_Activate ident ident millis
  | Call_Deactivate ident ident millis
  | Call_Request ident ident ident ident "string option" millis
  | Call_Approve ident ident ident millis
  | Call_Event ident ident persona_event_kind rat millis
  | Call_Evaluate ident ident "rat option" millis millis

fun estate_step :: "ident \<Rightarrow> estate_call \<Rightarrow> persona_estate \<Rightarrow> persona_estate" where
  "estate_step tn (Call_Activate own p now) e = fst (activate_persona tn own p now e)"
| "estate_step tn (Call_Deactivate own p now) e = fst (deactivate_persona tn own p now e)"
| "estate_step tn (Call_Request i own to p reason now) e = fst (request_transfer i tn own to p reason now e)"
| "estate_step tn (Call_Approve approver p i now) e = fst (approve_transfer tn approver p i now e)"
| "estate_step tn (Call_Event own p k severity now) e = fst (add_governance_event tn own p k severity now e)"
| "estate_step tn (Call_Evaluate own p days seen now) e = fst (evaluate_lifecycle tn own p days seen now e)"

fun estate_run :: "(ident \<times> estate_call) list \<Rightarrow> persona_estate \<Rightarrow> persona_estate" where
  "estate_run [] e = e"
| "estate_run ((tn, c) # cs) e = estate_run cs (estate_step tn c e)"

text \<open>What the calls other than the two of transfers change: rows, their owners kept.\<close>

definition owner_keeping :: "persona_estate \<Rightarrow> persona_estate \<Rightarrow> bool" where
  "owner_keeping e e' \<longleftrightarrow> et_transfers e' = et_transfers e
     \<and> map (\<lambda>r. (pr_id r, pr_tenant r, pr_owner r)) (estate_personas e') = map (\<lambda>r. (pr_id r, pr_tenant r, pr_owner r)) (estate_personas e)"

lemma owner_keeping_refl [simp]: "owner_keeping e e"
  by (simp add: owner_keeping_def)

lemma owner_keeping_update:
  assumes "\<And>x. pr_id (f x) = pr_id x" "\<And>x. pr_tenant (f x) = pr_tenant x" "\<And>x. pr_owner (f x) = pr_owner x"
  shows "owner_keeping e (update_personas q f e)"
  by (simp add: owner_keeping_def update_where_fst assms)

lemma owner_keeping_calls:
  "owner_keeping e (fst (activate_persona tn own p now e))"
  "owner_keeping e (fst (deactivate_persona tn own p now e))"
  "owner_keeping e (fst (add_governance_event tn own p k severity now e))"
  "owner_keeping e (fst (evaluate_lifecycle tn own p days seen now e))"
proof -
  show a: "owner_keeping e (fst (activate_persona tn own p now e))"
    by (auto simp: activate_persona_def estate_cmd_activate_def Let_def intro!: owner_keeping_update split: option.split)
  show d: "owner_keeping e (fst (deactivate_persona tn own p now e))" for now
    by (auto simp: deactivate_persona_def estate_cmd_deactivate_def Let_def intro!: owner_keeping_update split: option.split)
  show v: "owner_keeping e (fst (add_governance_event tn own p k severity now e))" for k severity
    by (auto simp: add_governance_event_def estate_cmd_apply_event_def Let_def split: option.split prod.split
        intro!: owner_keeping_update)
  show "owner_keeping e (fst (evaluate_lifecycle tn own p days seen now e))"
    using d [of now] v [of Event_Death 5]
    by (auto simp: evaluate_lifecycle_def mark_deceased_def Let_def split: option.split prod.split)
qed

lemma owner_keeping_row:
  assumes "owner_keeping e e'" "r' \<in> set (estate_personas e')"
  shows "\<exists>r \<in> set (estate_personas e). pr_id r = pr_id r' \<and> pr_tenant r = pr_tenant r' \<and> pr_owner r = pr_owner r'"
proof -
  have "(pr_id r', pr_tenant r', pr_owner r') \<in> set (map (\<lambda>r. (pr_id r, pr_tenant r, pr_owner r)) (estate_personas e'))"
    using assms(2) by auto
  also have "\<dots> = set (map (\<lambda>r. (pr_id r, pr_tenant r, pr_owner r)) (estate_personas e))"
    using assms(1) by (simp only: owner_keeping_def)
  finally show ?thesis by auto
qed

lemma owner_keeping_sym: "owner_keeping e e' \<Longrightarrow> owner_keeping e' e"
  by (simp add: owner_keeping_def)

lemma owner_keeping_inv:
  assumes "owner_keeping e e'" "estate_inv e"
  shows "estate_inv e'"
proof -
  have "map pr_id (estate_personas e') = map pr_id (estate_personas e)"
    using arg_cong [OF conjunct2 [OF assms(1) [unfolded owner_keeping_def]], of "map fst"] by (simp add: comp_def)
  moreover have "transfer_grounded e' t" if "transfer_grounded e t" for t
    using that owner_keeping_row [OF owner_keeping_sym [OF assms(1)]] unfolding transfer_grounded_def list_ex_iff by metis
  ultimately show ?thesis
    using assms by (auto simp: estate_inv_def owner_keeping_def persons_keyed_def transfers_keyed_def list_all_iff)
qed

lemma request_inv:
  assumes "estate_inv e" shows "estate_inv (fst (request_transfer i tn own to p reason now e))"
proof (cases "request_check tn own to p e = Request_Granted \<and> (\<forall>q \<in> set (et_transfers e). tf_id q \<noteq> i)")
  case False
  then show ?thesis
    using assms by (auto simp: request_transfer_def request_commit_def transfer_cmd_create_def list_ex_iff split: request_verdict.split)
next
  case True
  then obtain r where r: "owner_detail tn own p e = Some r" "pending_transfer tn p e = None"
    by (auto simp: request_check_def split: option.splits if_splits)
  note d = owner_detail_D [OF r(1)]
  have none: "\<not> (tf_tenant t = tn \<and> tf_persona t = p \<and> tf_status t = Transfer_Pending)" if "t \<in> set (et_transfers e)" for t
  proof -
    have "sort_key (\<lambda>t. - tf_requested_at t)
        (filter (\<lambda>t. tf_tenant t = tn \<and> tf_persona t = p \<and> tf_status t = Transfer_Pending) (et_transfers e)) = []"
      using r(2) by (simp add: pending_transfer_def split: list.splits)
    from arg_cong [OF this, of set] show ?thesis using that by auto
  qed
  have other: "tf_persona t \<noteq> p" if t: "t \<in> set (et_transfers e)" "tf_status t = Transfer_Pending" for t
  proof
    assume "tf_persona t = p"
    moreover from assms t obtain q where "q \<in> set (estate_personas e)" "pr_id q = tf_persona t" "pr_tenant q = tf_tenant t"
      by (auto simp: estate_inv_def list_all_iff transfer_grounded_def list_ex_iff)
    ultimately show False using none [OF t(1)] t(2) d persons_keyed_same [of e q r] assms by (auto simp: estate_inv_def)
  qed
  have g: "transfer_grounded (e\<lparr>et_transfers := ts\<rparr>) = transfer_grounded e" for ts
    by (rule ext) (simp add: transfer_grounded_def)
  show ?thesis
    using True assms d other
    by (auto simp: request_transfer_def request_commit_def transfer_cmd_create_def list_ex_iff estate_inv_def persons_keyed_def
        transfers_keyed_def g) (auto simp: transfer_grounded_def list_ex_iff)
qed

text \<open>A transfer is approved: what the two tables hold after it.\<close>

lemma approve_shape:
  assumes "approve_check tn approver p i e = Some t" "estate_inv e"
  shows "\<exists>e'. fst (approve_transfer tn approver p i now e) = e' \<and> snd (transfer_cmd_approve tn i now e) = 1
    \<and> t \<in> set (et_transfers e) \<and> tf_status t = Transfer_Pending \<and> tf_to t = approver \<and> tf_tenant t = tn \<and> tf_persona t = p \<and> tf_id t = i
    \<and> et_transfers e' = map (\<lambda>u. if u = t then t\<lparr>tf_status := Transfer_Completed, tf_approved_at := Some now,
         tf_completed_at := Some now\<rparr> else u) (et_transfers e)
    \<and> estate_personas e' = map (\<lambda>r. if this_persona tn p r then r\<lparr>pr_owner := approver, pr_status := Per_Active,
         pr_lifecycle := Some Per_Active, pr_updated_at := now\<rparr> else r) (estate_personas e)
    \<and> bk_wallets (gv_bank (et_market e')) = bk_wallets (gv_bank (et_market e))"
proof -
  have t: "t \<in> set (et_transfers e)" "tf_status t = Transfer_Pending" "tf_to t = approver" "tf_tenant t = tn" "tf_persona t = p" "tf_id t = i"
    using assms(1) by (auto simp: approve_check_def transfer_of_persona_def split: option.splits if_splits dest: select_one_SomeD)
  have same: "u \<in> set (et_transfers e) \<Longrightarrow> tf_id u = i \<longleftrightarrow> u = t" for u
    using transfers_keyed_same [of e u t] t assms(2) by (auto simp: estate_inv_def)
  have n: "snd (transfer_cmd_approve tn i now e) = 1"
  proof -
    have "filter (\<lambda>u. tf_tenant u = tn \<and> tf_id u = i \<and> tf_status u = Transfer_Pending) (et_transfers e) = filter (\<lambda>u. u = t) (et_transfers e)"
      using same t by (auto intro!: filter_cong)
    moreover have "distinct (et_transfers e)"
      using assms(2) by (simp add: estate_inv_def transfers_keyed_def distinct_map)
    then have "length (filter (\<lambda>u. u = t) (et_transfers e)) = 1"
      using t(1) by (simp add: distinct_length_filter)
    ultimately show ?thesis by (simp add: transfer_cmd_approve_def update_where_def)
  qed
  have e1: "fst (approve_transfer tn approver p i now e)
      = transfer_cmd_complete tn i now (estate_cmd_set_owner tn p approver now (fst (transfer_cmd_approve tn i now e)))"
    using n by (auto simp: approve_transfer_def assms(1) approve_commit_def Let_def split: prod.split)
  show ?thesis
    using t same n
    by (auto simp: e1 transfer_cmd_complete_def estate_cmd_set_owner_def transfer_cmd_approve_def update_where_def
        estate_personas_def update_personas_def case_prod_unfold)
qed

lemma approve_inv:
  assumes "estate_inv e" shows "estate_inv (fst (approve_transfer tn approver p i now e))"
proof (cases "approve_check tn approver p i e")
  case None
  then show ?thesis using assms by (simp add: approve_transfer_def)
next
  case (Some t)
  from approve_shape [OF this assms, of now] obtain e' where e': "fst (approve_transfer tn approver p i now e) = e'"
    and t: "t \<in> set (et_transfers e)" "tf_status t = Transfer_Pending" "tf_tenant t = tn" "tf_persona t = p"
    and ts: "et_transfers e' = map (\<lambda>u. if u = t then t\<lparr>tf_status := Transfer_Completed, tf_approved_at := Some now,
         tf_completed_at := Some now\<rparr> else u) (et_transfers e)"
    and ps: "estate_personas e' = map (\<lambda>r. if this_persona tn p r then r\<lparr>pr_owner := approver, pr_status := Per_Active,
         pr_lifecycle := Some Per_Active, pr_updated_at := now\<rparr> else r) (estate_personas e)" by blast
  let ?pend = "\<lambda>t. tf_status t = Transfer_Pending"
  have "map pr_id (estate_personas e') = map pr_id (estate_personas e)" unfolding ps by simp
  moreover have "map tf_id (et_transfers e') = map tf_id (et_transfers e)" unfolding ts by simp
  moreover have "filter ?pend (et_transfers e') = filter (\<lambda>u. u \<noteq> t) (filter ?pend (et_transfers e))"
  proof -
    have "filter ?pend (map (\<lambda>u. if u = t then t\<lparr>tf_status := Transfer_Completed, tf_approved_at := Some now,
         tf_completed_at := Some now\<rparr> else u) us) = filter (\<lambda>u. u \<noteq> t) (filter ?pend us)" for us
      by (induction us) auto
    then show ?thesis unfolding ts .
  qed
  moreover have "list_all (transfer_grounded e') (et_transfers e')"
  proof -
    have other: "tf_persona u \<noteq> p" if "u \<in> set (et_transfers e)" "?pend u" "u \<noteq> t" for u
    proof
      assume "tf_persona u = p"
      moreover have "inj_on tf_persona (set (filter ?pend (et_transfers e)))"
        using assms by (simp add: estate_inv_def distinct_map)
      ultimately have "u = t" using that(1,2) t(1,2,4) by (auto elim!: inj_onD)
      with that(3) show False ..
    qed
    have "transfer_grounded e' (if u = t then t\<lparr>tf_status := Transfer_Completed, tf_approved_at := Some now,
         tf_completed_at := Some now\<rparr> else u)" if u: "u \<in> set (et_transfers e)" for u
    proof -
      from assms u obtain r where r: "r \<in> set (estate_personas e)" "pr_id r = tf_persona u" "pr_tenant r = tf_tenant u"
        "?pend u \<longrightarrow> pr_owner r = tf_from u"
        by (auto simp: estate_inv_def list_all_iff transfer_grounded_def list_ex_iff)
      let ?g = "\<lambda>r::persona_row. if this_persona tn p r then r\<lparr>pr_owner := approver, pr_status := Per_Active,
         pr_lifecycle := Some Per_Active, pr_updated_at := now\<rparr> else r"
      have row: "?g r \<in> set (estate_personas e')" "pr_id (?g r) = tf_persona u" "pr_tenant (?g r) = tf_tenant u"
        using r by (auto simp: ps)
      have own: "pr_owner (?g r) = tf_from u" if "?pend u" "u \<noteq> t"
        using r that other [OF u that] by (simp add: this_persona_def)
      have gr: "transfer_grounded e' v" if "tf_persona v = tf_persona u" "tf_tenant v = tf_tenant u"
        "tf_status v = Transfer_Pending \<Longrightarrow> pr_owner (?g r) = tf_from v" for v
        unfolding transfer_grounded_def list_ex_iff by (rule bexI [OF _ row(1)]) (use row(2,3) that in simp)
      show ?thesis
      proof (cases "u = t")
        case True
        then show ?thesis by (simp only: if_True refl) (rule gr, simp_all)
      next
        case False
        then show ?thesis by (simp only: if_False refl) (rule gr, use own False in simp_all)
      qed
    qed
    then show ?thesis unfolding ts list_all_iff set_map by blast
  qed
  moreover have "distinct (map tf_persona (filter (\<lambda>u. u \<noteq> t) (filter ?pend (et_transfers e))))"
    by (rule distinct_map_filter) (use assms in \<open>simp add: estate_inv_def\<close>)
  ultimately show ?thesis
    using assms by (simp add: e' estate_inv_def persons_keyed_def transfers_keyed_def)
qed

lemma estate_step_inv: "estate_inv e \<Longrightarrow> estate_inv (estate_step tn c e)"
  by (cases c) (auto intro: owner_keeping_inv [OF owner_keeping_calls(1)] owner_keeping_inv [OF owner_keeping_calls(2)]
      owner_keeping_inv [OF owner_keeping_calls(3)] owner_keeping_inv [OF owner_keeping_calls(4)] request_inv approve_inv)

lemma estate_run_inv: "estate_inv e \<Longrightarrow> estate_inv (estate_run cs e)"
  by (induction cs e rule: estate_run.induct) (auto intro: estate_step_inv)

lemma new_transfer_asked:
  assumes "u \<in> set (et_transfers (estate_step tn c e))" "\<forall>q \<in> set (et_transfers e). tf_id q \<noteq> tf_id u" "estate_inv e"
  shows "\<exists>i p reason now. c = Call_Request i (tf_from u) (tf_to u) p reason now \<and> u \<in> set (et_transfers (estate_step tn c e))
    \<and> (\<exists>r. owner_detail tn (tf_from u) (tf_persona u) e = Some r)"
proof (cases c)
  case (Call_Request i own to p reason now)
  with assms(1,2) show ?thesis
    by (auto simp: request_transfer_def request_commit_def request_check_def transfer_cmd_create_def list_ex_iff
        split: option.splits if_splits)
next
  case (Call_Approve approver p i now)
  show ?thesis
  proof (cases "approve_check tn approver p i e")
    case None
    with Call_Approve assms(1,2) show ?thesis by (auto simp: approve_transfer_def)
  next
    case (Some t)
    from approve_shape [OF this assms(3), of now] assms(1,2) Call_Approve show ?thesis by (auto split: if_splits)
  qed
qed (use assms(1,2) owner_keeping_calls in \<open>auto simp: owner_keeping_def\<close>)


lemma small_estate_inv: "estate_inv (small_estate st)"
  by (simp add: estate_inv_def small_estate_keyed transfers_keyed_def) (simp add: small_estate_def)

definition selling :: "(ident \<times> estate_call) list" where
  "selling = [(''t'', Call_Request ''x'' ''own'' ''b'' ''p'' None 1), (''t'', Call_Approve ''c'' ''p'' ''x'' 2)]"


text \<open>
  an approval brings the person to life. Whatever the status of the person at the time, the buyer that
  approves an open transfer gets it active, and the transfer is closed; the status is looked at when the transfer
  is asked for and not when it takes effect.
\<close>

theorem transfer_brings_to_life:
  assumes "estate_inv e" and "approve_check tn approver p i e = Some t"
    and "list_ex (\<lambda>w. pw_persona w = p) (bk_wallets (gv_bank (et_market e)))"
  shows "\<exists>e' t' r'. approve_transfer tn approver p i now e = (e', Some (t', r')) \<and> pr_owner r' = approver
    \<and> persona_status_of r' = Per_Active \<and> tf_status t' = Transfer_Completed \<and> approve_check tn approver p i e' = None"
proof -
  let ?f = "\<lambda>r::persona_row. r\<lparr>pr_owner := approver, pr_status := Per_Active, pr_lifecycle := Some Per_Active, pr_updated_at := now\<rparr>"
  let ?t = "t\<lparr>tf_status := Transfer_Completed, tf_approved_at := Some now, tf_completed_at := Some now\<rparr>"
  note sh = approve_shape [OF assms(2,1), of now]
  obtain e' where e': "fst (approve_transfer tn approver p i now e) = e'"
    and ts: "et_transfers e' = map (\<lambda>u. if u = t then ?t else u) (et_transfers e)"
    and ps: "estate_personas e' = map (\<lambda>r. if this_persona tn p r then ?f r else r) (estate_personas e)"
    and ws: "bk_wallets (gv_bank (et_market e')) = bk_wallets (gv_bank (et_market e))"
    and t: "t \<in> set (et_transfers e)" "tf_tenant t = tn" "tf_persona t = p" "tf_id t = i" using sh by blast
  have inv: "estate_inv e'" using approve_inv [OF assms(1), of tn approver p i now] e' by simp
  from assms(1) t obtain r where r: "r \<in> set (estate_personas e)" "pr_id r = p" "pr_tenant r = tn"
    by (auto simp: estate_inv_def list_all_iff transfer_grounded_def list_ex_iff)
  have row: "owner_detail tn approver p e' = Some (?f r)"
    unfolding owner_detail_eq
    by (rule select_one_unique [where key = pr_id])
      (use inv r ws assms(3) in \<open>auto simp: estate_inv_def persons_keyed_def ps this_persona_def image_iff intro!: bexI [of _ r]\<close>)
  have mem: "?t \<in> set (et_transfers e')" using t unfolding ts by auto
  have key: "distinct (map tf_id (et_transfers e'))" using inv by (simp add: estate_inv_def transfers_keyed_def)
  have tr: "transfer_by_id tn i e' = Some ?t" unfolding transfer_by_id_def
    by (rule select_one_unique [where key = tf_id]) (use mem key t in auto)
  have tp: "transfer_of_persona tn p i e' = Some ?t" unfolding transfer_of_persona_def
    by (rule select_one_unique [where key = tf_id]) (use mem key t in auto)
  have "snd (approve_transfer tn approver p i now e) = Some (?t, ?f r)"
    using e' tr row sh by (auto simp: approve_transfer_def assms(2) approve_commit_def Let_def split: prod.splits)
  then show ?thesis using e' tp
    by (intro exI [of _ e'] exI [of _ ?t] exI [of _ "?f r"]) (auto simp: prod_eq_iff persona_status_of_def approve_check_def)
qed

definition dying :: "(ident \<times> estate_call) list" where
  "dying = [(''t'', Call_Request ''x'' ''own'' ''b'' ''p'' None 1), (''t'', Call_Event ''own'' ''p'' Event_Death 5 2)]"

theorem transfer_brings_to_life_witness:
  "map persona_status_of (estate_personas (estate_run dying (small_estate Per_Active))) = [Per_Deceased]
   \<and> (\<exists>e' t' r'. approve_transfer ''t'' ''b'' ''p'' ''x'' 3 (estate_run dying (small_estate Per_Active)) = (e', Some (t', r'))
     \<and> persona_status_of r' = Per_Active)"
proof -
  let ?e = "estate_run dying (small_estate Per_Active)"
  have "map persona_status_of (estate_personas ?e) = [Per_Deceased]" by code_simp
  moreover have "approve_check ''t'' ''b'' ''p'' ''x'' ?e = Some (hd (et_transfers ?e))" by code_simp
  moreover have "list_ex (\<lambda>w. pw_persona w = ''p'') (bk_wallets (gv_bank (et_market ?e)))" by code_simp
  ultimately show ?thesis
    using transfer_brings_to_life [OF estate_run_inv [OF small_estate_inv]] by meson
qed

end
