(* ===== verification/Spec2Isabelle.thy ===== *)
theory Spec2Isabelle
  imports Sync_State_V2 Circuit_Breaker Agency_Authorization Tool_Permission Confirmation_Token Audit_Anchor Email_Tool Edge_Outbox Task_Wake Org_Restructure Org_Bidding Persona_Earning Task_Queue Update_Gate Persona_Estate
begin

text \<open>
  Verification development of ChronoSynth OS, a TypeScript server in which digital persons and digital workers
  act for people: they call tools, take tasks, earn money, learn and are supervised. The paths below are relative
  to the repository's \<^verbatim>\<open>src\<close> package unless they start with \<^verbatim>\<open>packages\<close>.

  The program. A request or a timer enters a service; the service reads rows through typed queries, decides, and
  writes through typed commands, which executors under \<^verbatim>\<open>src/storage/executors\<close> and the stores under
  \<^verbatim>\<open>src/storage\<close> turn into SQL. Statements of one \<^verbatim>\<open>transaction(...)\<close> take effect together or not at all; what was
  read before a transaction or before an \<^verbatim>\<open>await\<close> may be out of date in it. The model follows this: a table is a list
  of rows in the order of insertion, a statement a function on it that also returns the rows it touched, a service
  operation a function on the record of its tables. Where the code checks outside the transaction, the check and
  the transaction are two definitions (\<open>..._check\<close>, \<open>..._commit\<close>), the theorems quantify over what happened in
  between, and the operation itself is their composition. A thrown error is a value: \<open>Inl\<close> of an error type, or
  \<open>None\<close> where the code returns null. A transaction that throws returns the state it started from.

  Foundations.
  \<^item> \<open>Prelude\<close>: identifiers, times, tables with conditional updates and deletions, and the four interfaces, as
    locales. \<open>invariant_machine\<close> is a step function with an invariant, and gives it for every run;
    \<open>ranked_machine\<close> extends it by a measure that no step lowers; \<open>guarded_one_shot\<close> is a conditional update
    that at most one of any number of attempts wins while nothing reopens its key, under a side condition
    on the table; \<open>one_shot\<close> is the case without the side condition (a sublocale). Every one is interpreted on
    the model's own step functions, in the theory that defines them; \<open>Task_Wake\<close> adds \<open>rowwise_loop\<close> for loops that
    treat each row by itself, with two interpretations.
  \<^item> \<open>Js_Values\<close>: JSON trees, the truthiness, rounding and clamping of JavaScript, calendar days.
    \<open>Rooted_Tree\<close>: what a chart must be. \<open>Playbook_Text\<close>: the literals of one source file.

  Tools and their supervision.
  \<^item> \<open>Tool_Permission\<close>, \<open>Agency_Authorization\<close>, \<open>Confirmation_Token\<close>, \<open>Tool_Registry\<close>, \<open>Circuit_Breaker\<close>: the gates,
    one theory for each of \<^verbatim>\<open>agent/tool-permission-service.ts\<close>, \<^verbatim>\<open>agent/agency-authorization-service.ts\<close>,
    \<^verbatim>\<open>conversation/confirmation-token-store.ts\<close>, \<^verbatim>\<open>agent/tool-registry.ts\<close> and the circuit breaker of the kernel.
    Lemmas: who is granted what and until when, revocation, tokens that open once, the invariant of the breaker.
  \<^item> \<open>Tool_Pipeline\<close>: \<^verbatim>\<open>agent/tool-invocation-pipeline.ts\<close>, split at the await of the tool. A tool runs only when every
    gate let it pass, each call leaves one row, calls one after the other stay within the daily quota, and
    one confirmation starts one risky run. \<open>Email_Tool\<close>: the recipients that the lists do not see.
  \<^item> \<open>Audit_Log\<close>, \<open>Audit_Anchor\<close>: the hash chain of \<^verbatim>\<open>audit/audit-log-store.ts\<close> and its signed anchors. An honest log
    verifies, two verified chains with one head are equal, and what tampering goes unseen.

  Digital workers and organisations (\<^verbatim>\<open>workforce/*.ts\<close>, \<^verbatim>\<open>storage/org-workforce-store.ts\<close>).
  \<^item> \<open>Workforce_Store\<close>, \<open>Approval\<close>, \<open>Capability_Learning\<close>, \<open>Worker_Execution\<close>, \<open>Task_Wake\<close>: the tables, the risk of an
    action and who may approve it, missing capabilities, the execution of a task, and the waking of blocked
    tasks. One execution per task, none of high risk without a person, an approval starts one run, a sweep wakes
    what was learned.
  \<^item> \<open>Org_Store\<close>, \<open>Org_Chart\<close>, \<open>Org_Restructure\<close>, \<open>Org_Collaboration\<close>, \<open>Playbook_Registry\<close>, \<open>Org_Planning\<close>: charts that stay
    trees under every operation, the search below a worker, handoffs, escalations that climb the chart,
    messages, versioned playbooks, goals and their autonomous running within limits.
  \<^item> \<open>Org_Wallet\<close>, \<open>Market_Tasks\<close>, \<open>Org_Bidding\<close>: treasuries whose balance is the sum of their entries, the table of
    market tasks with all statements of both services that write it, and an organisation's work on them.

  Digital persons (\<^verbatim>\<open>persona-core/*.ts\<close>, \<^verbatim>\<open>storage/executors/persona-core-executors.ts\<close>).
  \<^item> \<open>Persona_Wallet\<close>, \<open>Persona_Governance\<close>, \<open>Persona_Market\<close>, \<open>Persona_Books\<close>, \<open>Persona_Work\<close>: wages, payouts and their
    idempotency keys, cases and appeals, the market from publication to settlement, the books over all of these
    in any order, and what the operations mean together. Wallets balance on every reachable state.
  \<^item> \<open>Persona_Session\<close>: running sessions, their phases and the recovery of those that timed out.
    \<open>Persona_Reconcile\<close>: the nightly comparison of settlements and ledger (\<^verbatim>\<open>billing/settlement-reconciliation-service.ts\<close>).
    \<open>Persona_Lease\<close>, \<open>Persona_Earning\<close>: the lease of an instance and the autonomous earning under it.
    \<open>Persona_Estate\<close>: transfers, life and death. \<open>Update_Gate\<close>: what may change the core of a person.

  Synchronisation and background work.
  \<^item> \<open>Sync_State_V1\<close>, \<open>Sync_State_V2\<close>: the two state machines of \<^verbatim>\<open>packages/sync-engine\<close>, and the refinement of the
    first by the second. \<open>Edge_Outbox\<close>: the outbox of a device, its persistence, and conflicts.
  \<^item> \<open>Task_Queue\<close>: \<^verbatim>\<open>queue/task-queue.ts\<close> with its workers, its reaper and its purge.

  How the parts meet. The pipeline consults the permissions, the authorizations, the registry and the tokens and
  writes the audit log; a worker's execution calls the pipeline and consumes approvals and tokens; learning wakes
  the tasks of workers; a manager's goal makes tasks by a playbook; bidding runs a goal for a task of the market
  table, which digital persons use too, and ends in the treasury; the market of persons pays wallets that the
  reconciliation audits; earning applies on that market through the pipeline. The properties are stated over the
  composed operations where the code composes them, and over step functions with every other operation
  in between where it does not.

  Parameters and assumptions. Digests, \<^verbatim>\<open>JSON.stringify\<close>, the KMS, the compiler of tool arguments, the decision
  engine, random ids and clocks are arguments. What the code relies on is a named hypothesis where it is needed
  (a digest without collisions on the strings at hand, ids that do not repeat), and each such theorem has a witness with
  a concrete instance. Money and scores are rational numbers: the code computes them as binary fractions, so
  the identities of the model are exact where those of the code hold up to rounding; the explicit rounding of the
  code is in the model. Times are integers in milliseconds. Dynamic checks of types at the edge (zod schemas) are
  modelled where they are part of a contract (the two state machines), and are types elsewhere.

  Bounds and fuel. Loops are structural recursion or \<open>function\<close> with a measure. The one loop with fuel is the search
  below a worker (\<open>search_below\<close>): the code bounds its turns by the number of workers and one more, and
  \<open>subtree_search_complete\<close> shows that it is over before. The climb of a chart is bounded by the roles not yet seen
  (\<open>climb\<close>), the purge of the queue by the rows it deletes (\<open>purge_loop\<close>). No definition is partial.

  Not modelled, with the reasons in the manifest: the user interfaces and clients; routes, schemas, authentication
  plugins and other glue of the HTTP server; the storage drivers and migrations, of which the model keeps the
  semantics of the statements; providers and prompts of language models, conversation and perception, whose
  results are text; numerical simulation; integrations with outside services; privacy, compliance, enterprise
  administration and billing of subscriptions; observability. Texts for people, log lines and metrics are left out of
  the modelled operations.
\<close>

end
